(* ===== verification/Prelude.thy ===== *)
theory Prelude
  imports Main "HOL-Library.List_Lexorder" "HOL-Library.Char_ord" "HOL-Library.Multiset"
    "HOL-Library.Signed_Division"
begin

text \<open>
  Shared vocabulary of the development: how Go data is represented and the lemmas every
  component uses.

  \<^item> A Go \<open>string\<close> is a HOL \<open>string\<close> (a list of bytes); \<open><\<close> on strings is the byte-wise
    lexicographic order of the library theories List_Lexorder and Char_ord, which is Go's.
  \<^item> A Go map that is built once and then ranged over is an association list (\<open>gomap\<close>): its
    order is the unspecified iteration order of Go, its keys are distinct in every well-formed
    state. A map that is only indexed is a partial function. Reading an absent key gives the zero
    value of the element type; each such read is written with its default.
  \<^item> \<open>sort.SliceStable\<close> and \<open>sort.Slice\<close> are \<open>go_sort\<close>, insertion sort on the code's comparator.
    It is the result of a stable sort; \<open>sort.Slice\<close> may order elements the comparator ties in
    any way, so no property below speaks about the order of tied elements.
  \<^item> A Go \<open>int\<close> has 64 bits: \<open>i64\<close> wraps, and \<open>sdiv\<close> and \<open>smod\<close> truncate towards zero as \<open>/\<close> and
    \<open>%\<close> do.
\<close>

named_theorems go_order \<open>comparators of the code as strict weak orders\<close>

section \<open>Go maps\<close>

type_synonym 'v gomap = "(string \<times> 'v) list"

abbreviation keys :: "'v gomap \<Rightarrow> string list" where
  "keys m \<equiv> map fst m"

text \<open>\<open>m[k]\<close> with the element type's zero value for an absent key.\<close>

definition get_or :: "'v \<Rightarrow> (string \<Rightarrow> 'v option) \<Rightarrow> string \<Rightarrow> 'v" where
  "get_or z m k = (case m k of None \<Rightarrow> z | Some v \<Rightarrow> v)"

lemma get_or_simps [simp]:
  "m k = None \<Longrightarrow> get_or z m k = z"
  "m k = Some v \<Longrightarrow> get_or z m k = v"
  by (simp_all add: get_or_def)

lemma get_or_upd: "get_or z (m(k \<mapsto> v)) = (get_or z m)(k := v)"
  by (auto simp: get_or_def)

lemma map_of_keys: "map_of m k \<noteq> None \<longleftrightarrow> k \<in> set (keys m)"
  by (simp add: map_of_eq_None_iff)

lemma map_of_map_snd: "map_of (map (\<lambda>(k, v). (k, f k v)) m) k = map_option (f k) (map_of m k)"
  by (induction m) auto

text \<open>A set of ids as the code keeps it: \<open>map[string]bool\<close> built from a list of ids.\<close>

definition set_of_ids :: "string list \<Rightarrow> string \<Rightarrow> bool" where
  "set_of_ids ids k = List.member ids k"

lemma set_of_ids_iff [simp]: "set_of_ids ids k \<longleftrightarrow> k \<in> set ids"
  by (simp add: set_of_ids_def)

section \<open>Lifecycles\<close>

abbreviation "LifecyclePlanned \<equiv> ''planned''"
abbreviation "LifecycleActive \<equiv> ''active''"
abbreviation "LifecycleMaintenance \<equiv> ''maintenance''"
abbreviation "LifecycleDeprecated \<equiv> ''deprecated''"
abbreviation "LifecycleRetired \<equiv> ''retired''"

section \<open>Rows\<close>

text \<open>\<open>UPDATE ... SET f WHERE P\<close> on the rows of a table.\<close>

definition update_where :: "('a \<Rightarrow> bool) \<Rightarrow> ('a \<Rightarrow> 'a) \<Rightarrow> 'a list \<Rightarrow> 'a list" where
  "update_where P f rows = map (\<lambda>r. if P r then f r else r) rows"

lemma map_update_where: "(\<And>r. g (f r) = g r) \<Longrightarrow> map g (update_where P f rows) = map g rows"
  by (simp add: update_where_def)

lemma in_update_whereE:
  assumes "r \<in> set (update_where P f rows)"
  obtains q where "q \<in> set rows" "P q" "r = f q" | "r \<in> set rows" "\<not> P r"
  using assms unfolding update_where_def by (auto split: if_splits)

lemma in_update_where: "r \<in> set (update_where P f rows) \<longleftrightarrow> (\<exists>q \<in> set rows. r = (if P q then f q else q))"
  by (auto simp: update_where_def)

section \<open>Steps\<close>

text \<open>What every step keeps holds in every reachable state.\<close>

locale step_invariant =
  fixes step :: "'s \<Rightarrow> 's \<Rightarrow> bool" and inv :: "'s \<Rightarrow> bool"
  assumes keep: "step s t \<Longrightarrow> inv s \<Longrightarrow> inv t"
begin

lemma reachable: "step\<^sup>*\<^sup>* s t \<Longrightarrow> inv s \<Longrightarrow> inv t"
  by (induction rule: rtranclp_induct) (auto intro: keep)

end

text \<open>
  A table whose rows are never removed and only move forward: each step replaces a row by one that
  is above it in a preorder.
\<close>

locale forward_rows =
  fixes step :: "'s \<Rightarrow> 's \<Rightarrow> bool" and row :: "'s \<Rightarrow> 'k \<Rightarrow> 'r option" and above :: "'r \<Rightarrow> 'r \<Rightarrow> bool"
  assumes above_refl: "above r r"
    and above_trans: "above a b \<Longrightarrow> above b c \<Longrightarrow> above a c"
    and forward: "step s t \<Longrightarrow> row s k = Some r \<Longrightarrow> \<exists>r'. row t k = Some r' \<and> above r r'"
begin

lemma reachable_forward:
  "step\<^sup>*\<^sup>* s t \<Longrightarrow> row s k = Some r \<Longrightarrow> \<exists>r'. row t k = Some r' \<and> above r r'"
proof (induction rule: rtranclp_induct)
  case base
  then show ?case using above_refl by blast
next
  case (step t u)
  then show ?case using forward above_trans by meson
qed

end

section \<open>Signed 64-bit integers\<close>

definition i64 :: "int \<Rightarrow> int" where
  "i64 x = (x + 2 ^ 63) mod 2 ^ 64 - 2 ^ 63"

lemma sdiv_pos: "0 \<le> x \<Longrightarrow> 0 < d \<Longrightarrow> x sdiv d = x div d" "0 \<le> x \<Longrightarrow> 0 < d \<Longrightarrow> x smod d = x mod (d::int)"
  by (cases "x = 0"; simp add: signed_divide_int_def signed_modulo_int_def sgn_if minus_div_mult_eq_mod)+

lemma i64_id: "- (2 ^ 63) \<le> x \<Longrightarrow> x < 2 ^ 63 \<Longrightarrow> i64 x = x"
  by (simp add: i64_def)

section \<open>Decimal text\<close>

text \<open>\<open>strconv.Itoa\<close> and the verb \<open>%d\<close>.\<close>

fun digits :: "nat \<Rightarrow> string" where
  "digits n =
     (if n < 10 then [char_of (48 + n)] else digits (n div 10) @ [char_of (48 + n mod 10)])"

declare digits.simps [simp del]

definition itoa :: "int \<Rightarrow> string" where
  "itoa i = (if i < 0 then ''-'' @ digits (nat (- i)) else digits (nat i))"

definition itoa_nat :: "nat \<Rightarrow> string" where
  "itoa_nat n = itoa (int n)"

lemma digits_nonempty [simp]: "digits n \<noteq> []"
  by (subst digits.simps) simp

lemma itoa_nonempty [simp]: "itoa i \<noteq> []"
  by (simp add: itoa_def)

section \<open>Deduplication in order of first occurrence\<close>

fun dedup :: "'a list \<Rightarrow> 'a list \<Rightarrow> 'a list" where
  "dedup seen [] = []"
| "dedup seen (x # xs) =
     (if List.member seen x then dedup seen xs else x # dedup (x # seen) xs)"

lemma set_dedup: "set (dedup seen xs) = set xs - set seen"
  by (induction seen xs rule: dedup.induct) auto

lemma distinct_dedup: "distinct (dedup seen xs)"
  by (induction seen xs rule: dedup.induct) (auto simp: set_dedup)

section \<open>Sorting with a comparator\<close>

fun insert_by :: "('a \<Rightarrow> 'a \<Rightarrow> bool) \<Rightarrow> 'a \<Rightarrow> 'a list \<Rightarrow> 'a list" where
  "insert_by lt x [] = [x]"
| "insert_by lt x (y # ys) = (if lt x y then x # y # ys else y # insert_by lt x ys)"

definition go_sort :: "('a \<Rightarrow> 'a \<Rightarrow> bool) \<Rightarrow> 'a list \<Rightarrow> 'a list" where
  "go_sort lt xs = foldl (\<lambda>acc x. insert_by lt x acc) [] xs"

lemma mset_insert_by [simp]: "mset (insert_by lt x ys) = add_mset x (mset ys)"
  by (induction ys) auto

lemma set_insert_by [simp]: "set (insert_by lt x ys) = insert x (set ys)"
  by (induction ys) auto

lemma mset_foldl_insert_by:
  "mset (foldl (\<lambda>acc x. insert_by lt x acc) acc xs) = mset acc + mset xs"
  by (induction xs arbitrary: acc) auto

lemma mset_go_sort [simp]: "mset (go_sort lt xs) = mset xs"
  by (simp add: go_sort_def mset_foldl_insert_by)

lemma set_go_sort [simp]: "set (go_sort lt xs) = set xs"
  by (metis mset_go_sort set_mset_mset)

lemma length_go_sort [simp]: "length (go_sort lt xs) = length xs"
  by (metis mset_go_sort size_mset)

lemma distinct_go_sort [simp]: "distinct (go_sort lt xs) = distinct xs"
  by (metis mset_go_sort mset_eq_imp_distinct_iff)

text \<open>
  The contract of a comparator handed to the sort package: a strict weak order. Under it the
  result never has a later element that the comparator puts before an earlier one.
\<close>

locale go_ordering =
  fixes lt :: "'a \<Rightarrow> 'a \<Rightarrow> bool"
  assumes asym: "lt x y \<Longrightarrow> \<not> lt y x"
    and negtrans: "\<not> lt x y \<Longrightarrow> \<not> lt y z \<Longrightarrow> \<not> lt x z"
begin

lemma insert_by_sorted:
  "sorted_wrt (\<lambda>a b. \<not> lt b a) ys \<Longrightarrow> sorted_wrt (\<lambda>a b. \<not> lt b a) (insert_by lt x ys)"
proof (induction ys)
  case Nil
  then show ?case by simp
next
  case (Cons y ys)
  then show ?case
  proof (cases "lt x y")
    case True
    with Cons.prems have "\<not> lt b x" if "b \<in> set ys" for b
      using that asym [of x y] negtrans [of b y x] by auto
    with True Cons.prems asym show ?thesis by auto
  next
    case False
    with Cons show ?thesis by auto
  qed
qed

lemma foldl_insert_by_sorted:
  "sorted_wrt (\<lambda>a b. \<not> lt b a) acc \<Longrightarrow>
   sorted_wrt (\<lambda>a b. \<not> lt b a) (foldl (\<lambda>acc x. insert_by lt x acc) acc xs)"
  by (induction xs arbitrary: acc) (auto intro: insert_by_sorted)

lemma go_sort_sorted: "sorted_wrt (\<lambda>a b. \<not> lt b a) (go_sort lt xs)"
  by (simp add: go_sort_def foldl_insert_by_sorted)

end

text \<open>Comparators of the code are built lexicographically from keys; both forms are orders.\<close>

lemma go_ordering_key [go_order]: "go_ordering (\<lambda>a b. (f a :: 'b::linorder) < f b)"
  by unfold_locales auto

lemma go_ordering_lex [go_order]:
  assumes "go_ordering lt"
  shows "go_ordering (\<lambda>a b. if f a \<noteq> f b then (f a :: 'b::linorder) < f b else lt a b)"
proof -
  note asym = go_ordering.asym [OF assms] and neg = go_ordering.negtrans [OF assms]
  show ?thesis
  proof
    fix x y
    assume "if f x \<noteq> f y then f x < f y else lt x y"
    then show "\<not> (if f y \<noteq> f x then f y < f x else lt y x)"
      using asym [of x y] by (auto split: if_splits)
  next
    fix x y z
    assume "\<not> (if f x \<noteq> f y then f x < f y else lt x y)"
      and "\<not> (if f y \<noteq> f z then f y < f z else lt y z)"
    then show "\<not> (if f x \<noteq> f z then f x < f z else lt x z)"
      using neg [of x y z] by (auto split: if_splits)
  qed
qed

interpretation string_order: go_ordering "\<lambda>a b :: string. a < b"
  by unfold_locales auto

lemma go_sort_strings: "sorted (go_sort (\<lambda>a b :: string. a < b) xs)"
  using string_order.go_sort_sorted [of xs] by (simp add: not_less)

end
