(* ===== verification/Status.thy ===== *)
theory Status
  imports Prelude
begin

text \<open>
  Service health and availability policies: \<open>Status\<close>, its merges \<open>Worse\<close> and \<open>Better\<close>, and
  \<open>AvailabilityPolicy.Evaluate\<close> of internal/domain/service.go, the arithmetic that turns lost
  instances into a status for services and for forwarder groups alike.

  \<open>Status\<close> is a Go string type with three named values, and its zero value, the empty string,
  is what a read of an absent map key yields. The zero value is a constructor of its own here
  because \<open>Propagate\<close> does not treat it as \<open>StatusOK\<close>.
\<close>

section \<open>Status\<close>

datatype status = StatusOK | StatusZero | StatusDegraded | StatusDown

fun status_text :: "status \<Rightarrow> string" where
  "status_text StatusZero = ''''"
| "status_text StatusOK = ''ok''"
| "status_text StatusDegraded = ''degraded''"
| "status_text StatusDown = ''down''"

fun status_rank :: "status \<Rightarrow> nat" where
  "status_rank StatusDown = 2"
| "status_rank StatusDegraded = 1"
| "status_rank _ = 0"

definition Worse :: "status \<Rightarrow> status \<Rightarrow> status" where
  "Worse s other = (if status_rank other > status_rank s then other else s)"

definition Better :: "status \<Rightarrow> status \<Rightarrow> status" where
  "Better s other = (if status_rank other < status_rank s then other else s)"

text \<open>
  Severity as a linear order. It refines \<open>status_rank\<close>: the zero value sits strictly between
  ok and degraded, the place \<open>Propagate\<close> gives it (not ok, and not worse than degraded).
\<close>

fun severity :: "status \<Rightarrow> nat" where
  "severity StatusOK = 0"
| "severity StatusZero = 1"
| "severity StatusDegraded = 2"
| "severity StatusDown = 3"

lemma severity_inj: "severity s = severity t \<Longrightarrow> s = t"
  by (cases s; cases t) auto

instantiation status :: linorder
begin

definition less_eq_status :: "status \<Rightarrow> status \<Rightarrow> bool" where
  "less_eq_status s t \<longleftrightarrow> severity s \<le> severity t"

definition less_status :: "status \<Rightarrow> status \<Rightarrow> bool" where
  "less_status s t \<longleftrightarrow> severity s < severity t"

instance
  by standard (auto simp: less_eq_status_def less_status_def intro: severity_inj)

end

lemmas status_order = less_eq_status_def less_status_def

lemma StatusOK_least [simp]: "StatusOK \<le> s"
  by (simp add: less_eq_status_def)

lemma StatusDown_greatest [simp]: "s \<le> StatusDown"
  by (cases s) (simp_all add: less_eq_status_def)

lemma StatusDown_le [simp]: "StatusDown \<le> s \<longleftrightarrow> s = StatusDown"
  by (cases s) (simp_all add: less_eq_status_def)

lemma le_StatusOK [simp]: "s \<le> StatusOK \<longleftrightarrow> s = StatusOK"
  by (cases s) (simp_all add: less_eq_status_def)

lemma Worse_max: "other \<noteq> StatusZero \<Longrightarrow> Worse s other = max s other"
  by (cases s; cases other) (simp_all add: Worse_def max_def less_eq_status_def)

lemma Better_min: "s \<noteq> StatusZero \<Longrightarrow> other \<noteq> StatusZero \<Longrightarrow> Better s other = min s other"
  by (cases s; cases other) (simp_all add: Better_def min_def less_eq_status_def)

lemma Worse_proper [simp]: "s \<noteq> StatusZero \<Longrightarrow> t \<noteq> StatusZero \<Longrightarrow> Worse s t \<noteq> StatusZero"
  by (simp add: Worse_def)

lemma Better_proper [simp]: "s \<noteq> StatusZero \<Longrightarrow> t \<noteq> StatusZero \<Longrightarrow> Better s t \<noteq> StatusZero"
  by (simp add: Better_def)

lemma Worse_rank: "status_rank (Worse s t) = max (status_rank s) (status_rank t)"
  by (auto simp: Worse_def)

lemma Worse_changes: "Worse s t \<noteq> s \<longleftrightarrow> status_rank s < status_rank t"
  by (auto simp: Worse_def)

lemma rank_bound: "status_rank s \<le> 2"
  by (cases s) auto

lemma Better_Down [simp]: "Better s t = StatusDown \<longleftrightarrow> s = StatusDown \<and> t = StatusDown"
  by (cases s; cases t) (simp_all add: Better_def)

lemma fold_Better_Down:
  "fold (\<lambda>t acc. Better acc t) xs s = StatusDown \<longleftrightarrow> s = StatusDown \<and> (\<forall>t\<in>set xs. t = StatusDown)"
  by (induction xs arbitrary: s) auto

section \<open>Availability policies\<close>

abbreviation "AvailStandalone \<equiv> ''standalone''"
abbreviation "AvailActiveActive \<equiv> ''active_active''"
abbreviation "AvailActivePassive \<equiv> ''active_passive''"
abbreviation "AvailQuorum \<equiv> ''quorum''"
abbreviation "AvailSharded \<equiv> ''sharded''"

abbreviation "FailoverAuto \<equiv> ''auto''"
abbreviation "FailoverManual \<equiv> ''manual''"
abbreviation "FailoverNone \<equiv> ''none''"

abbreviation "RolePrimary \<equiv> ''primary''"
abbreviation "RoleStandby \<equiv> ''standby''"

record instanceHealth =
  ih_ID :: string
  ih_Role :: string
  ih_Shard :: string
  ih_Alive :: bool

record availabilityPolicy =
  ap_Availability :: string
  ap_MinHealthy :: "int option"
  ap_FailoverMode :: "string option"

definition surviving :: "instanceHealth list \<Rightarrow> nat" where
  "surviving instances = length (filter ih_Alive instances)"

text \<open>The floor of an active/active policy: an absent or non-positive \<open>MinHealthy\<close> counts as 1.\<close>

definition min_healthy_floor :: "availabilityPolicy \<Rightarrow> int" where
  "min_healthy_floor p =
     (case ap_MinHealthy p of Some m \<Rightarrow> if m > 0 then m else 1 | None \<Rightarrow> 1)"

text \<open>The three flags the active/passive arm collects in one pass over the instances.\<close>

definition has_primary :: "instanceHealth list \<Rightarrow> bool" where
  "has_primary instances = list_ex (\<lambda>i. ih_Role i = RolePrimary) instances"

definition primary_alive :: "instanceHealth list \<Rightarrow> bool" where
  "primary_alive instances = list_ex (\<lambda>i. ih_Role i = RolePrimary \<and> ih_Alive i) instances"

definition standby_alive :: "instanceHealth list \<Rightarrow> bool" where
  "standby_alive instances = list_ex (\<lambda>i. ih_Role i = RoleStandby \<and> ih_Alive i) instances"

text \<open>The shard key of an instance and the code's map of live replicas per shard.\<close>

definition shard_key :: "instanceHealth \<Rightarrow> string" where
  "shard_key i = (if ih_Shard i = '''' then ih_Role i else ih_Shard i)"

definition shard_alive :: "instanceHealth list \<Rightarrow> string \<Rightarrow> nat" where
  "shard_alive instances k = length (filter (\<lambda>i. shard_key i = k \<and> ih_Alive i) instances)"

definition Evaluate :: "availabilityPolicy \<Rightarrow> instanceHealth list \<Rightarrow> status" where
  "Evaluate p instances =
     (let total = length instances; alive = surviving instances in
      if total = 0 then StatusOK
      else if alive = total then StatusOK
      else if alive = 0 then StatusDown
      else if ap_Availability p = AvailStandalone then StatusOK
      else if ap_Availability p = AvailQuorum then
        (if alive < total div 2 + 1 then StatusDown else StatusOK)
      else if ap_Availability p = AvailActiveActive then
        (if int alive < min_healthy_floor p then StatusDegraded else StatusOK)
      else if ap_Availability p = AvailActivePassive then
        (if \<not> has_primary instances then StatusDegraded
         else if primary_alive instances then StatusOK
         else if \<not> standby_alive instances then StatusDown
         else if ap_FailoverMode p = Some FailoverAuto then StatusOK
         else StatusDegraded)
      else if ap_Availability p = AvailSharded then
        (if list_ex (\<lambda>i. shard_alive instances (shard_key i) = 0) instances
         then StatusDegraded else StatusOK)
      else StatusDegraded)"

section \<open>Services\<close>

record service =
  svc_ID :: string
  svc_Code :: string
  svc_Name :: string
  svc_Kind :: string
  svc_EnvironmentID :: string
  svc_Availability :: string
  svc_MinHealthy :: "int option"
  svc_FailoverMode :: "string option"
  svc_Tier :: int
  svc_RTOMinutes :: "int option"
  svc_RPOMinutes :: "int option"
  svc_TeamID :: "string option"
  svc_ManagerRole :: "string option"
  svc_Lifecycle :: string
  svc_EOLDate :: "string option"
  svc_Attrs :: string
  svc_CreatedAt :: string
  svc_UpdatedAt :: string
  svc_RowVersion :: int

definition EvaluateCapacity :: "service \<Rightarrow> instanceHealth list \<Rightarrow> status" where
  "EvaluateCapacity s instances =
     Evaluate \<lparr>ap_Availability = svc_Availability s, ap_MinHealthy = svc_MinHealthy s,
               ap_FailoverMode = svc_FailoverMode s\<rparr> instances"

section \<open>Facts about the evaluator\<close>

lemma surviving_le: "surviving instances \<le> length instances"
  by (simp add: surviving_def)

lemma Evaluate_proper [simp]: "Evaluate p instances \<noteq> StatusZero"
  by (simp add: Evaluate_def Let_def)

lemma Evaluate_empty [simp]: "Evaluate p [] = StatusOK"
  by (simp add: Evaluate_def)

lemma Evaluate_all_alive: "surviving instances = length instances \<Longrightarrow> Evaluate p instances = StatusOK"
  by (simp add: Evaluate_def Let_def)

lemma Evaluate_none_alive:
  "instances \<noteq> [] \<Longrightarrow> surviving instances = 0 \<Longrightarrow> Evaluate p instances = StatusDown"
  by (simp add: Evaluate_def Let_def)

text \<open>
  One instance list loses instances relative to another: the same placements in the same order,
  each alive only if it was alive before.
\<close>

definition loses :: "instanceHealth list \<Rightarrow> instanceHealth list \<Rightarrow> bool" where
  "loses = list_all2 (\<lambda>a b. ih_Role b = ih_Role a \<and> ih_Shard b = ih_Shard a
                        \<and> (ih_Alive b \<longrightarrow> ih_Alive a))"

lemma loses_length: "loses xs ys \<Longrightarrow> length ys = length xs"
  by (simp add: loses_def list_all2_lengthD)

lemma loses_surviving: "loses xs ys \<Longrightarrow> surviving ys \<le> surviving xs"
  unfolding loses_def surviving_def by (induction rule: list_all2_induct) auto

lemma loses_shard_alive: "loses xs ys \<Longrightarrow> shard_alive ys k \<le> shard_alive xs k"
  unfolding loses_def shard_alive_def
  by (induction rule: list_all2_induct) (auto simp: shard_key_def)

lemma loses_has_primary: "loses xs ys \<Longrightarrow> has_primary ys = has_primary xs"
  unfolding loses_def has_primary_def by (induction rule: list_all2_induct) auto

lemma loses_primary_alive: "loses xs ys \<Longrightarrow> primary_alive ys \<Longrightarrow> primary_alive xs"
  unfolding loses_def primary_alive_def by (induction rule: list_all2_induct) auto

lemma loses_standby_alive: "loses xs ys \<Longrightarrow> standby_alive ys \<Longrightarrow> standby_alive xs"
  unfolding loses_def standby_alive_def by (induction rule: list_all2_induct) auto

lemma loses_shard_keys: "loses xs ys \<Longrightarrow> map shard_key ys = map shard_key xs"
  unfolding loses_def by (induction rule: list_all2_induct) (auto simp: shard_key_def)

lemma loses_shard_lost:
  assumes "loses xs ys" and "list_ex (\<lambda>i. shard_alive xs (shard_key i) = 0) xs"
  shows "list_ex (\<lambda>i. shard_alive ys (shard_key i) = 0) ys"
proof -
  from assms(2) obtain k where k: "k \<in> set (map shard_key xs)" "shard_alive xs k = 0"
    by (auto simp: list_ex_iff)
  with assms(1) have "k \<in> set (map shard_key ys)" "shard_alive ys k = 0"
    using loses_shard_alive [of xs ys k] loses_shard_keys [of xs ys] by auto
  then show ?thesis by (auto simp: list_ex_iff)
qed

lemmas loses_facts =
  loses_length loses_surviving loses_has_primary loses_primary_alive loses_standby_alive
  loses_shard_lost

lemma Evaluate_mono:
  assumes "loses before after"
  shows "Evaluate p before \<le> Evaluate p after"
proof (cases "surviving after = length after \<or> surviving before = length before")
  case True
  with assms show ?thesis
    using loses_surviving [OF assms] loses_length [OF assms] surviving_le [of before]
    by (auto simp: Evaluate_all_alive)
next
  case False
  then show ?thesis
    using loses_facts [OF assms]
    by (auto simp: Evaluate_def Let_def less_eq_status_def)
qed

text \<open> Losing more instances never improves a status: whatever the availability policy, if the
  second list is the first with some instances lost, its evaluation is at least as severe.
\<close>

theorem evaluate_monotone:
  assumes "loses before after"
  shows "Evaluate p before \<le> Evaluate p after"
  using assms by (rule Evaluate_mono)

theorem evaluate_monotone_witness:
  "Evaluate \<lparr>ap_Availability = AvailQuorum, ap_MinHealthy = None, ap_FailoverMode = None\<rparr>
     [\<lparr>ih_ID = ''a'', ih_Role = [], ih_Shard = [], ih_Alive = True\<rparr>,
      \<lparr>ih_ID = ''b'', ih_Role = [], ih_Shard = [], ih_Alive = True\<rparr>,
      \<lparr>ih_ID = ''c'', ih_Role = [], ih_Shard = [], ih_Alive = False\<rparr>] = StatusOK
   \<and> StatusOK \<le> Evaluate \<lparr>ap_Availability = AvailQuorum, ap_MinHealthy = None, ap_FailoverMode = None\<rparr>
     [\<lparr>ih_ID = ''a'', ih_Role = [], ih_Shard = [], ih_Alive = True\<rparr>,
      \<lparr>ih_ID = ''b'', ih_Role = [], ih_Shard = [], ih_Alive = False\<rparr>,
      \<lparr>ih_ID = ''c'', ih_Role = [], ih_Shard = [], ih_Alive = False\<rparr>]"
  using evaluate_monotone [of
     "[\<lparr>ih_ID = ''a'', ih_Role = [], ih_Shard = [], ih_Alive = True\<rparr>,
      \<lparr>ih_ID = ''b'', ih_Role = [], ih_Shard = [], ih_Alive = True\<rparr>,
      \<lparr>ih_ID = ''c'', ih_Role = [], ih_Shard = [], ih_Alive = False\<rparr>]"
     "[\<lparr>ih_ID = ''a'', ih_Role = [], ih_Shard = [], ih_Alive = True\<rparr>,
      \<lparr>ih_ID = ''b'', ih_Role = [], ih_Shard = [], ih_Alive = False\<rparr>,
      \<lparr>ih_ID = ''c'', ih_Role = [], ih_Shard = [], ih_Alive = False\<rparr>]"
     "\<lparr>ap_Availability = AvailQuorum, ap_MinHealthy = None, ap_FailoverMode = None\<rparr>"]
  by (simp add: loses_def Evaluate_def surviving_def)

text \<open> When a policy reports an outage: a set of instances is down exactly if it is non-empty,
  lost at least one instance, and either none survives, or it is a quorum group without a strict
  majority of its configured members, or it is an active/passive group that declares a primary,
  has no live primary and no live standby.
\<close>

theorem evaluate_down_iff:
  "Evaluate p instances = StatusDown \<longleftrightarrow>
     instances \<noteq> [] \<and> surviving instances < length instances \<and>
     (surviving instances = 0
      \<or> ap_Availability p = AvailQuorum \<and> 2 * surviving instances \<le> length instances
      \<or> ap_Availability p = AvailActivePassive \<and> has_primary instances
          \<and> \<not> primary_alive instances \<and> \<not> standby_alive instances)"
  using surviving_le [of instances]
  by (cases "ap_Availability p = AvailQuorum"; cases "ap_Availability p = AvailActivePassive")
     (auto simp: Evaluate_def Let_def)

end
