(* ===== verification/Dependency.thy ===== *)
theory Dependency
  imports Complex_Main Status
begin

text \<open>
  Dependency edges and their failure semantics: \<open>Dependency\<close>, \<open>Propagation\<close> and
  \<open>Dependency.Propagate\<close> of internal/domain/dependency.go, the table that decides what a
  provider's status does to its consumer.
\<close>

section \<open>Edges\<close>

abbreviation "NatureHard \<equiv> ''hard''"
abbreviation "NatureSoft \<equiv> ''soft''"
abbreviation "NatureStartup \<equiv> ''startup''"
abbreviation "NatureAsync \<equiv> ''async''"
abbreviation "NatureOptional \<equiv> ''optional''"

record dependency =
  dep_ID :: string
  dep_ConsumerServiceID :: string
  dep_ConsumerInstanceID :: "string option"
  dep_ProviderEndpointID :: "string option"
  dep_ProviderRouteID :: "string option"
  dep_Nature :: string
  dep_ToleranceSeconds :: "int option"
  dep_FailureMode :: string
  dep_IdentityID :: "string option"
  dep_AuthMethod :: "string option"
  dep_FirewallRuleRef :: "string option"
  dep_Source :: string
  dep_Confidence :: "rat option"
  dep_FirstSeen :: "string option"
  dep_LastSeen :: "string option"
  dep_VerifiedBy :: "string option"
  dep_VerifiedAt :: "string option"
  dep_Lifecycle :: string
  dep_CreatedAt :: string
  dep_UpdatedAt :: string
  dep_RowVersion :: int

record propagation =
  pr_Status :: status
  pr_WontRestart :: bool

definition Propagate :: "dependency \<Rightarrow> status \<Rightarrow> int \<Rightarrow> propagation" where
  "Propagate d provider windowSeconds =
     (if provider = StatusOK then \<lparr>pr_Status = StatusOK, pr_WontRestart = False\<rparr>
      else if dep_Nature d = NatureHard then
        (if provider = StatusDown then \<lparr>pr_Status = StatusDown, pr_WontRestart = False\<rparr>
         else \<lparr>pr_Status = StatusDegraded, pr_WontRestart = False\<rparr>)
      else if dep_Nature d = NatureSoft then
        (if provider = StatusDown then \<lparr>pr_Status = StatusDegraded, pr_WontRestart = False\<rparr>
         else \<lparr>pr_Status = StatusOK, pr_WontRestart = False\<rparr>)
      else if dep_Nature d = NatureAsync then
        (if provider = StatusDown \<and> (case dep_ToleranceSeconds d of Some t \<Rightarrow> t < windowSeconds | None \<Rightarrow> False)
         then \<lparr>pr_Status = StatusDegraded, pr_WontRestart = False\<rparr>
         else \<lparr>pr_Status = StatusOK, pr_WontRestart = False\<rparr>)
      else if dep_Nature d = NatureStartup then
        (if provider = StatusDown then \<lparr>pr_Status = StatusOK, pr_WontRestart = True\<rparr>
         else \<lparr>pr_Status = StatusOK, pr_WontRestart = False\<rparr>)
      else \<lparr>pr_Status = StatusOK, pr_WontRestart = False\<rparr>)"

section \<open>What an edge can do\<close>

lemma Propagate_proper [simp]: "pr_Status (Propagate d provider w) \<noteq> StatusZero"
  by (simp add: Propagate_def)

lemma Propagate_OK [simp]:
  "pr_Status (Propagate d StatusOK w) = StatusOK" "\<not> pr_WontRestart (Propagate d StatusOK w)"
  by (simp_all add: Propagate_def)

lemma Propagate_mono:
  "p \<le> q \<Longrightarrow> pr_Status (Propagate d p w) \<le> pr_Status (Propagate d q w)"
  by (cases p; cases q) (auto simp: Propagate_def less_eq_status_def split: option.splits)

lemma Propagate_restart_mono:
  "p \<le> q \<Longrightarrow> pr_WontRestart (Propagate d p w) \<Longrightarrow> pr_WontRestart (Propagate d q w)"
  by (cases p; cases q) (auto simp: Propagate_def less_eq_status_def split: if_splits)

lemma Propagate_restart_iff:
  "pr_WontRestart (Propagate d p w) \<longleftrightarrow> dep_Nature d = NatureStartup \<and> p = StatusDown"
  by (auto simp: Propagate_def split: option.splits)

text \<open> An edge is monotone: a more severe provider and a longer outage window never make the
  effect on the consumer milder.
\<close>

theorem propagate_monotone:
  assumes "p \<le> q" and "w \<le> w'"
  shows "pr_Status (Propagate d p w) \<le> pr_Status (Propagate d q w')"
proof -
  from assms(2) have "pr_Status (Propagate d p w) \<le> pr_Status (Propagate d p w')"
    by (cases p) (auto simp: Propagate_def less_eq_status_def split: option.splits)
  also from assms(1) have "\<dots> \<le> pr_Status (Propagate d q w')"
    by (rule Propagate_mono)
  finally show ?thesis .
qed

text \<open>A dependency with every optional column absent, for concrete examples.\<close>

definition plain_dep :: "string \<Rightarrow> string \<Rightarrow> string \<Rightarrow> string \<Rightarrow> dependency" where
  "plain_dep i consumer endpoint nature =
     \<lparr>dep_ID = i, dep_ConsumerServiceID = consumer, dep_ConsumerInstanceID = None,
      dep_ProviderEndpointID = Some endpoint, dep_ProviderRouteID = None, dep_Nature = nature,
      dep_ToleranceSeconds = None, dep_FailureMode = ''stops'', dep_IdentityID = None,
      dep_AuthMethod = None, dep_FirewallRuleRef = None, dep_Source = ''declared'',
      dep_Confidence = None, dep_FirstSeen = None, dep_LastSeen = None, dep_VerifiedBy = None,
      dep_VerifiedAt = None, dep_Lifecycle = LifecycleActive, dep_CreatedAt = [],
      dep_UpdatedAt = [], dep_RowVersion = 1\<rparr>"

theorem propagate_monotone_witness:
  "pr_Status (Propagate ((plain_dep ''d'' ''c'' ''e'' NatureAsync)\<lparr>dep_ToleranceSeconds := Some 300\<rparr>)
       StatusDegraded 180)
   \<le> pr_Status (Propagate ((plain_dep ''d'' ''c'' ''e'' NatureAsync)\<lparr>dep_ToleranceSeconds := Some 300\<rparr>)
       StatusDown 2700)"
  using propagate_monotone [of StatusDegraded StatusDown 180 2700
      "(plain_dep ''d'' ''c'' ''e'' NatureAsync)\<lparr>dep_ToleranceSeconds := Some 300\<rparr>"]
  by (simp add: less_eq_status_def)

text \<open> The nature table, as what an edge can transmit: only a hard edge carries an outage on as
  an outage; a soft edge turns an outage, and a hard edge turns any lesser impairment, into a
  degradation; an async edge degrades the consumer exactly when its provider is down for longer
  than its declared tolerance; and only a startup edge marks the consumer as unable to restart,
  without touching its status.
\<close>

theorem propagate_table:
  "(pr_Status (Propagate d p w) = StatusDown \<longleftrightarrow> dep_Nature d = NatureHard \<and> p = StatusDown)
   \<and> (pr_Status (Propagate d p w) = StatusDegraded \<longleftrightarrow>
     dep_Nature d = NatureHard \<and> p \<in> {StatusZero, StatusDegraded}
     \<or> dep_Nature d = NatureSoft \<and> p = StatusDown
     \<or> dep_Nature d = NatureAsync \<and> p = StatusDown
     \<and> (\<exists>t. dep_ToleranceSeconds d = Some t \<and> t < w))
   \<and> (pr_WontRestart (Propagate d p w) \<longleftrightarrow> dep_Nature d = NatureStartup \<and> p = StatusDown)"
  by (cases p; auto simp: Propagate_def split: option.splits)+

end
