(* ===== verification/Graph.thy ===== *)
theory Graph
  imports Dependency
begin

text \<open>
  The data the impact engine works on: the dependency graph of internal/impact/graph.go, the
  reachability picture of internal/impact/reach.go (\<open>NetGraph\<close> and its rows), the clusters of
  internal/impact/clusters.go and the structures of internal/impact/structures.go. Loading them
  from the database is the job of internal/store/graph.go; here they are values.
\<close>

section \<open>The dependency picture\<close>

record inst =
  inst_ID :: string
  inst_ServiceID :: string
  inst_HostAssetID :: string
  inst_Role :: string
  inst_Shard :: string
  inst_Disabled :: bool

record endpoint =
  ep_ID :: string
  ep_ServiceID :: string
  ep_Name :: string
  ep_BindScope :: string
  ep_Exposure :: string
  ep_ServiceEnvID :: string

record route =
  route_ID :: string
  route_FrontendEndpointID :: string
  route_BackendPoolID :: string
  route_Name :: string

record cluster =
  cl_ID :: string
  cl_Name :: string
  cl_HAPolicy :: string
  cl_MinHosts :: "int option"
  cl_MemberAssetIDs :: "string list"
  cl_GuestsByHost :: "string list gomap"

record structr =
  st_Kind :: string
  st_ID :: string
  st_Name :: string
  st_AssetIDs :: "string list"

section \<open>The reachability picture\<close>

abbreviation "PlaneData \<equiv> ''data''"
abbreviation "PlaneMgmt \<equiv> ''mgmt''"
abbreviation "PlaneStorage \<equiv> ''storage''"

record netGroupInfo =
  ng_ID :: string
  ng_Code :: string
  ng_Availability :: string
  ng_MinHealthy :: "int option"
  ng_FailoverMode :: "string option"

record netGroupMemberInfo =
  ngm_AssetID :: string
  ngm_Role :: string
  ngm_AssetLifecycle :: string

record netUplinkInfo =
  nu_GroupID :: string
  nu_UpstreamGroupID :: string
  nu_Plane :: string
  nu_CircuitID :: string
  nu_LinkID :: string
  nu_Label :: string

record netAttachmentInfo =
  na_ID :: string
  na_AssetID :: string
  na_GroupID :: string
  na_Plane :: string

record netAttachmentMemberInfo =
  nam_AssetID :: string
  nam_AssetLifecycle :: string

record netAnchorInfo =
  anc_Code :: string
  anc_Scope :: string
  anc_GroupID :: string
  anc_Plane :: string
  anc_EnvironmentID :: "string option"

record closureRow =
  cr_AncestorID :: string
  cr_DescendantID :: string
  cr_Depth :: int

record assetLabel =
  al_Name :: string
  al_Kind :: string

record netGraph =
  net_Groups :: "netGroupInfo gomap"
  net_Members :: "netGroupMemberInfo list gomap"
  net_Uplinks :: "netUplinkInfo list"
  net_Attachments :: "netAttachmentInfo list"
  net_AttachmentMembers :: "netAttachmentMemberInfo list gomap"
  net_Anchors :: "netAnchorInfo list"
  net_Closure :: "closureRow list"
  net_AssetNames :: "assetLabel gomap"

text \<open>The media severed for one run: circuits and cables.\<close>

record cutMedia =
  cut_circuits :: "string list"
  cut_links :: "string list"

definition severs :: "cutMedia \<Rightarrow> netUplinkInfo \<Rightarrow> bool" where
  "severs c u \<longleftrightarrow>
     (nu_CircuitID u \<noteq> [] \<and> List.member (cut_circuits c) (nu_CircuitID u))
     \<or> (nu_LinkID u \<noteq> [] \<and> List.member (cut_links c) (nu_LinkID u))"

text \<open>\<open>IsEmpty\<close> takes a pointer: \<open>None\<close> is the nil \<open>*NetGraph\<close>.\<close>

definition IsEmpty :: "netGraph option \<Rightarrow> bool" where
  "IsEmpty n = (case n of None \<Rightarrow> True
     | Some net \<Rightarrow> net_Groups net = [] \<and> net_Attachments net = [] \<and> net_Anchors net = [])"

record graph =
  g_Services :: "service gomap"
  g_Instances :: "inst list gomap"
  g_Endpoints :: "endpoint gomap"
  g_Routes :: "route gomap"
  g_PoolMembers :: "string list gomap"
  g_Deps :: "dependency list"
  g_ServiceClusterAssetID :: "string gomap"
  g_ClusterNodes :: "string list gomap"
  g_Clusters :: "cluster list"
  g_Structures :: "structr list"
  g_Net :: "netGraph option"

definition NewGraph :: graph where
  "NewGraph = \<lparr>g_Services = [], g_Instances = [], g_Endpoints = [], g_Routes = [],
     g_PoolMembers = [], g_Deps = [], g_ServiceClusterAssetID = [], g_ClusterNodes = [],
     g_Clusters = [], g_Structures = [], g_Net = None\<rparr>"

definition NewNetGraph :: netGraph where
  "NewNetGraph = \<lparr>net_Groups = [], net_Members = [], net_Uplinks = [], net_Attachments = [],
     net_AttachmentMembers = [], net_Anchors = [], net_Closure = [], net_AssetNames = []\<rparr>"

section \<open>Lookups\<close>

text \<open>Reads of the graph's maps; a list-valued map read at an absent key is the empty list.\<close>

abbreviation find_service :: "graph \<Rightarrow> string \<Rightarrow> service option" where
  "find_service g \<equiv> map_of (g_Services g)"

abbreviation find_endpoint :: "graph \<Rightarrow> string \<Rightarrow> endpoint option" where
  "find_endpoint g \<equiv> map_of (g_Endpoints g)"

abbreviation find_route :: "graph \<Rightarrow> string \<Rightarrow> route option" where
  "find_route g \<equiv> map_of (g_Routes g)"

abbreviation instances_of :: "graph \<Rightarrow> string \<Rightarrow> inst list" where
  "instances_of g \<equiv> get_or [] (map_of (g_Instances g))"

abbreviation pool_members :: "graph \<Rightarrow> string \<Rightarrow> string list" where
  "pool_members g \<equiv> get_or [] (map_of (g_PoolMembers g))"

text \<open>The service behind a dependency, the empty id when it cannot be resolved.\<close>

definition providerServiceID :: "graph \<Rightarrow> dependency \<Rightarrow> string" where
  "providerServiceID g d =
     (case dep_ProviderEndpointID d of
        Some e \<Rightarrow> (case find_endpoint g e of Some ep \<Rightarrow> ep_ServiceID ep | None \<Rightarrow> [])
      | None \<Rightarrow>
          (case dep_ProviderRouteID d of
             Some rid \<Rightarrow>
               (case find_route g rid of
                  Some r \<Rightarrow>
                    (case find_endpoint g (route_FrontendEndpointID r) of
                       Some ep \<Rightarrow> ep_ServiceID ep
                     | None \<Rightarrow> [])
                | None \<Rightarrow> [])
           | None \<Rightarrow> []))"

definition codeOf :: "graph \<Rightarrow> string \<Rightarrow> string" where
  "codeOf g serviceID =
     (case find_service g serviceID of Some svc \<Rightarrow> svc_Code svc | None \<Rightarrow> serviceID)"

text \<open>A graph whose maps are maps: no key occurs twice.\<close>

definition wf_graph :: "graph \<Rightarrow> bool" where
  "wf_graph g \<longleftrightarrow> distinct (keys (g_Services g)) \<and> distinct (keys (g_Instances g))
     \<and> distinct (keys (g_Endpoints g)) \<and> distinct (keys (g_Routes g))
     \<and> distinct (keys (g_PoolMembers g))"

section \<open>Small graphs for concrete examples\<close>

definition plain_service :: "string \<Rightarrow> service" where
  "plain_service i =
     \<lparr>svc_ID = i, svc_Code = i, svc_Name = i, svc_Kind = ''app'', svc_EnvironmentID = ''prod'',
      svc_Availability = AvailStandalone, svc_MinHealthy = None, svc_FailoverMode = None,
      svc_Tier = 1, svc_RTOMinutes = None, svc_RPOMinutes = None, svc_TeamID = None,
      svc_ManagerRole = None, svc_Lifecycle = LifecycleActive, svc_EOLDate = None, svc_Attrs = [],
      svc_CreatedAt = [], svc_UpdatedAt = [], svc_RowVersion = 1\<rparr>"

definition plain_endpoint :: "string \<Rightarrow> string \<Rightarrow> endpoint" where
  "plain_endpoint i svc = \<lparr>ep_ID = i, ep_ServiceID = svc, ep_Name = ''tcp'', ep_BindScope = ''host'',
     ep_Exposure = ''internal'', ep_ServiceEnvID = ''prod''\<rparr>"

definition plain_inst :: "string \<Rightarrow> string \<Rightarrow> string \<Rightarrow> inst" where
  "plain_inst i svc host = \<lparr>inst_ID = i, inst_ServiceID = svc, inst_HostAssetID = host,
     inst_Role = ''primary'', inst_Shard = [], inst_Disabled = False\<rparr>"

text \<open>Services with one endpoint each (of the same id), and the given dependencies.\<close>

definition small_graph :: "string list \<Rightarrow> dependency list \<Rightarrow> graph" where
  "small_graph ids deps = NewGraph\<lparr>
     g_Services := map (\<lambda>i. (i, plain_service i)) ids,
     g_Endpoints := map (\<lambda>i. (i, plain_endpoint i i)) ids,
     g_Instances := map (\<lambda>i. (i, [plain_inst (''i-'' @ i) i (''h-'' @ i)])) ids,
     g_Deps := deps\<rparr>"

end
