(* ===== verification/Components.thy ===== *)
theory Components
  imports Graph "HOL-Library.While_Combinator"
begin

text \<open>
  The union-find of internal/impact/reach.go and \<open>components\<close>, which joins forwarder groups along
  the usable uplinks of one plane. \<open>partition_ops\<close> is the interface \<open>components\<close> relies on;
  the code's union-find (smaller representative wins, path compression on every find) is shown
  to provide it, its loops to terminate, and the representative of a component to be its least
  group id, whatever order the edges are unioned in.
\<close>

section \<open>The interface: a partition with representatives\<close>

locale partition_ops =
  fixes carrier :: "'a::linorder set"
    and inv :: "'s \<Rightarrow> bool"
    and rep :: "'s \<Rightarrow> 'a \<Rightarrow> 'a"
    and merge :: "'s \<Rightarrow> 'a \<Rightarrow> 'a \<Rightarrow> 's"
  assumes rep_in: "inv s \<Longrightarrow> x \<in> carrier \<Longrightarrow> rep s x \<in> carrier"
    and rep_rep: "inv s \<Longrightarrow> x \<in> carrier \<Longrightarrow> rep s (rep s x) = rep s x"
    and rep_le: "inv s \<Longrightarrow> x \<in> carrier \<Longrightarrow> rep s x \<le> x"
    and merge_inv: "inv s \<Longrightarrow> a \<in> carrier \<Longrightarrow> b \<in> carrier \<Longrightarrow> inv (merge s a b)"
    and merge_rep: "inv s \<Longrightarrow> a \<in> carrier \<Longrightarrow> b \<in> carrier \<Longrightarrow> x \<in> carrier \<Longrightarrow> y \<in> carrier \<Longrightarrow>
      rep (merge s a b) x = rep (merge s a b) y \<longleftrightarrow>
        rep s x = rep s y \<or> rep s x = rep s a \<and> rep s y = rep s b
        \<or> rep s x = rep s b \<and> rep s y = rep s a"
begin

definition classes :: "'s \<Rightarrow> ('a \<times> 'a) set" where
  "classes s = {(x, y). x \<in> carrier \<and> y \<in> carrier \<and> rep s x = rep s y}"

definition sym_edges :: "('a \<times> 'a) list \<Rightarrow> ('a \<times> 'a) set" where
  "sym_edges es = set es \<union> (set es)\<inverse>"

lemma classes_trans: "(x, y) \<in> classes s \<Longrightarrow> (y, z) \<in> classes s \<Longrightarrow> (x, z) \<in> classes s"
  by (auto simp: classes_def)

lemma classes_rtrancl:
  assumes "(x, y) \<in> (classes s)\<^sup>*" and "x \<in> carrier"
  shows "(x, y) \<in> classes s"
  using assms by (induction rule: rtrancl_induct) (auto simp: classes_def)

lemma classes_merge:
  assumes "inv s" "a \<in> carrier" "b \<in> carrier" "x \<in> carrier"
  shows "(x, y) \<in> classes (merge s a b) \<longleftrightarrow> (x, y) \<in> (classes s \<union> {(a, b), (b, a)})\<^sup>*"
    (is "_ \<longleftrightarrow> _ \<in> ?R\<^sup>*")
proof
  have step: "(u, v) \<in> ?R\<^sup>*" if "(u, v) \<in> classes s" for u v
    using that by blast
  assume "(x, y) \<in> classes (merge s a b)"
  then have y: "y \<in> carrier" and eq: "rep (merge s a b) x = rep (merge s a b) y"
    by (auto simp: classes_def)
  then consider "(x, y) \<in> classes s" | "(x, a) \<in> classes s" "(b, y) \<in> classes s"
    | "(x, b) \<in> classes s" "(a, y) \<in> classes s"
    using merge_rep [OF assms y] assms by (auto simp: classes_def)
  then show "(x, y) \<in> ?R\<^sup>*"
  proof cases
    case 1
    then show ?thesis by (rule step)
  next
    case 2
    then have "(x, a) \<in> ?R\<^sup>*" "(a, b) \<in> ?R" "(b, y) \<in> ?R\<^sup>*" by (auto intro: step)
    then show ?thesis by (meson rtrancl_into_rtrancl rtrancl_trans)
  next
    case 3
    then have "(x, b) \<in> ?R\<^sup>*" "(b, a) \<in> ?R" "(a, y) \<in> ?R\<^sup>*" by (auto intro: step)
    then show ?thesis by (meson rtrancl_into_rtrancl rtrancl_trans)
  qed
next
  have "?R \<subseteq> classes (merge s a b)"
    using assms merge_rep by (auto simp: classes_def)
  moreover assume "(x, y) \<in> ?R\<^sup>*"
  ultimately have "(x, y) \<in> (classes (merge s a b))\<^sup>*"
    by (meson rtrancl_mono subsetD)
  then show "(x, y) \<in> classes (merge s a b)"
    using assms(4) by (rule classes_rtrancl)
qed

lemma fold_merge_inv:
  "inv s \<Longrightarrow> set es \<subseteq> carrier \<times> carrier \<Longrightarrow> inv (foldl (\<lambda>s e. merge s (fst e) (snd e)) s es)"
  by (induction es arbitrary: s) (auto simp: merge_inv)

lemma fold_merge_classes:
  assumes "inv s" "set es \<subseteq> carrier \<times> carrier" "x \<in> carrier"
  shows "(x, y) \<in> classes (foldl (\<lambda>s e. merge s (fst e) (snd e)) s es)
     \<longleftrightarrow> (x, y) \<in> (classes s \<union> sym_edges es)\<^sup>*"
  using assms
proof (induction es arbitrary: s)
  case Nil
  then show ?case by (auto simp: sym_edges_def intro: classes_rtrancl)
next
  case (Cons e es)
  obtain a b where e: "e = (a, b)" by fastforce
  with Cons.prems have ab: "a \<in> carrier" "b \<in> carrier" by auto
  let ?m = "classes s \<union> {(a, b), (b, a)}"
  have sub: "classes (merge s a b) \<subseteq> ?m\<^sup>*"
    using classes_merge [OF Cons.prems(1) ab] by (auto simp: classes_def)
  have sup: "?m \<subseteq> classes (merge s a b)"
    using merge_rep [OF Cons.prems(1) ab] ab by (auto simp: classes_def)
  have "(classes (merge s a b) \<union> sym_edges es)\<^sup>* = (?m \<union> sym_edges es)\<^sup>*"
  proof
    have "classes (merge s a b) \<union> sym_edges es \<subseteq> (?m \<union> sym_edges es)\<^sup>*"
      using sub rtrancl_mono [of ?m "?m \<union> sym_edges es"] by auto
    then show "(classes (merge s a b) \<union> sym_edges es)\<^sup>* \<subseteq> (?m \<union> sym_edges es)\<^sup>*"
      by (rule rtrancl_subset_rtrancl)
    show "(?m \<union> sym_edges es)\<^sup>* \<subseteq> (classes (merge s a b) \<union> sym_edges es)\<^sup>*"
      using sup by (intro rtrancl_mono) auto
  qed
  moreover have "?m \<union> sym_edges es = classes s \<union> sym_edges (e # es)"
    by (auto simp: sym_edges_def e)
  ultimately show ?case
    using Cons.IH [OF merge_inv [OF Cons.prems(1) ab] _ Cons.prems(3)] Cons.prems(2)
    by (simp add: e)
qed

text \<open>The representative is the least element of its class, so it depends on the partition only.\<close>

lemma rep_least:
  assumes "inv s" "x \<in> carrier" "finite carrier"
  shows "rep s x = Min {y. (x, y) \<in> classes s}"
proof (rule Min_eqI [symmetric])
  show "finite {y. (x, y) \<in> classes s}"
    by (rule finite_subset [OF _ assms(3)]) (auto simp: classes_def)
  show "rep s x \<in> {y. (x, y) \<in> classes s}"
    using assms by (simp add: classes_def rep_in rep_rep)
  show "rep s x \<le> y" if "y \<in> {y. (x, y) \<in> classes s}" for y
    using that assms by (auto simp: classes_def rep_le)
qed

end

section \<open>The union-find of the code\<close>

text \<open>
  \<open>parent\<close> is a Go map read with its zero value, the empty string, for an absent key. The two
  loops of \<open>find\<close> are \<open>while\<close> loops: the walk to the root, and the compression of the path
  just walked (\<open>uf.parent[x], x = root, uf.parent[x]\<close>).
\<close>

type_synonym uf = "string \<Rightarrow> string"

definition newUnionFind :: "string list \<Rightarrow> uf" where
  "newUnionFind nodes = (\<lambda>n. if List.member nodes n then n else [])"

definition find_root :: "uf \<Rightarrow> string \<Rightarrow> string" where
  "find_root parent x = while (\<lambda>rt. parent rt \<noteq> rt) (\<lambda>rt. parent rt) x"

definition compress :: "uf \<Rightarrow> string \<Rightarrow> string \<Rightarrow> uf" where
  "compress parent rt x =
     fst (while (\<lambda>(p, y). p y \<noteq> rt) (\<lambda>(p, y). (p(y := rt), p y)) (parent, x))"

definition uf_find :: "uf \<Rightarrow> string \<Rightarrow> string \<times> uf" where
  "uf_find parent x = (let rt = find_root parent x in (rt, compress parent rt x))"

definition uf_union :: "uf \<Rightarrow> string \<Rightarrow> string \<Rightarrow> uf" where
  "uf_union parent a b =
     (let (ra, p1) = uf_find parent a; (rb, p2) = uf_find p1 b in
      if ra = rb then p2
      else if ra < rb then p2(rb := ra)
      else p2(ra := rb))"

text \<open>Every parent stays inside the node set and never goes up in the order of ids.\<close>

definition uf_inv :: "string set \<Rightarrow> uf \<Rightarrow> bool" where
  "uf_inv N p \<longleftrightarrow> finite N \<and> (\<forall>x\<in>N. p x \<in> N \<and> p x \<le> x)"

lemma uf_invD: "uf_inv N p \<Longrightarrow> x \<in> N \<Longrightarrow> p x \<in> N \<and> p x \<le> x"
  by (simp add: uf_inv_def)

lemma uf_inv_new: "uf_inv (set nodes) (newUnionFind nodes)"
  by (simp add: uf_inv_def newUnionFind_def)

definition below :: "string set \<Rightarrow> string \<Rightarrow> nat" where
  "below N x = card {y \<in> N. y < x}"

lemma below_less: "finite N \<Longrightarrow> y \<in> N \<Longrightarrow> y < x \<Longrightarrow> below N y < below N x"
  unfolding below_def by (rule psubset_card_mono) auto

lemma uf_parent_below: "uf_inv N p \<Longrightarrow> x \<in> N \<Longrightarrow> p x \<noteq> x \<Longrightarrow> below N (p x) < below N x"
  by (metis below_less order_less_le uf_inv_def)

lemma uf_induct [consumes 2, case_names step]:
  assumes "uf_inv N p" "x \<in> N"
    and step: "\<And>x. x \<in> N \<Longrightarrow> (p x \<noteq> x \<Longrightarrow> P (p x)) \<Longrightarrow> P x"
  shows "P x"
  using assms(2)
proof (induction "below N x" arbitrary: x rule: less_induct)
  case less
  show ?case
  proof (rule step)
    show "x \<in> N" by fact
    show "P (p x)" if "p x \<noteq> x"
      using less that uf_parent_below [OF assms(1) less.prems that] uf_invD [OF assms(1) less.prems]
      by blast
  qed
qed

text \<open>Both loops of \<open>find\<close> return, on every parent map the operations can produce.\<close>

lemma find_root_terminates:
  assumes "uf_inv N p" "x \<in> N"
  shows "\<exists>r. while_option (\<lambda>rt. p rt \<noteq> rt) (\<lambda>rt. p rt) x = Some r"
proof (rule measure_while_option_Some [where P = "\<lambda>x. x \<in> N" and f = "below N"])
  show "x \<in> N" by fact
  show "p s \<in> N \<and> below N (p s) < below N s" if "s \<in> N" "p s \<noteq> s" for s
    using that uf_invD [OF assms(1)] uf_parent_below [OF assms(1)] by blast
qed

lemma find_root_step: "find_root p x = (if p x = x then x else find_root p (p x))"
  unfolding find_root_def by (subst while_unfold) simp

lemma find_root_facts:
  assumes "uf_inv N p" "x \<in> N"
  shows "find_root p x \<in> N \<and> p (find_root p x) = find_root p x \<and> find_root p x \<le> x"
  using assms
proof (induction rule: uf_induct)
  case (step x)
  then show ?case
    using uf_invD [OF assms(1) step(1)] find_root_step [of p x] by auto
qed

lemma find_root_fixed: "p x = x \<Longrightarrow> find_root p x = x"
  by (subst find_root_step) simp

lemma find_root_parent: "find_root p (p x) = find_root p x"
  using find_root_step [of p x] by (cases "p x = x") auto

text \<open>Pointing a node at its own root changes no root; pointing a root elsewhere moves its class.\<close>

lemma find_root_shortcut:
  assumes inv: "uf_inv N p" and y: "y \<in> N" and x: "x \<in> N"
    and q: "\<And>z. z \<noteq> y \<Longrightarrow> q z = p z" "q y = find_root p y"
  shows "find_root q x = find_root p x"
  using inv x
proof (induction rule: uf_induct)
  case (step x)
  have "q (find_root p y) = find_root p y"
    using find_root_facts [OF inv y] q by (cases "find_root p y = y") auto
  then have root: "find_root q (find_root p y) = find_root p y"
    by (rule find_root_fixed)
  show ?case
  proof (cases "x = y")
    case True
    with root q(2) show ?thesis by (metis find_root_parent)
  next
    case False
    with step q(1) show ?thesis
      by (metis find_root_fixed find_root_parent)
  qed
qed

lemma find_root_link:
  assumes inv: "uf_inv N p" and r: "p r = r" and s: "p s = s" "s \<noteq> r" and x: "x \<in> N"
    and q: "\<And>z. z \<noteq> r \<Longrightarrow> q z = p z" "q r = s"
  shows "find_root q x = (if find_root p x = r then s else find_root p x)"
  using inv x
proof (induction rule: uf_induct)
  case (step x)
  have s_fix: "find_root q s = s"
    using s q by (intro find_root_fixed) simp
  have r_move: "find_root q r = s"
    using s_fix q(2) by (metis find_root_parent)
  show ?case
  proof (cases "p x = x")
    case True
    then show ?thesis
      using r_move q(1) by (metis find_root_fixed)
  next
    case False
    then have "x \<noteq> r" using r by auto
    with False step q(1) show ?thesis
      by (metis find_root_parent)
  qed
qed

lemma uf_inv_update: "uf_inv N p \<Longrightarrow> r \<in> N \<Longrightarrow> s \<in> N \<Longrightarrow> s \<le> r \<Longrightarrow> uf_inv N (p(r := s))"
  by (auto simp: uf_inv_def)

text \<open>Path compression: the loop ends and keeps the invariant and every root.\<close>

definition compress_inv :: "string set \<Rightarrow> uf \<Rightarrow> string \<Rightarrow> uf \<times> string \<Rightarrow> bool" where
  "compress_inv N p rt s \<longleftrightarrow> uf_inv N (fst s) \<and> snd s \<in> N \<and> find_root (fst s) (snd s) = rt
     \<and> (\<forall>z\<in>N. find_root (fst s) z = find_root p z)"

lemma compress_step:
  assumes "compress_inv N p rt (q, y)" "q y \<noteq> rt"
  shows "compress_inv N p rt (q(y := rt), q y) \<and> below N (q y) < below N y"
proof -
  from assms have inv: "uf_inv N q" and y: "y \<in> N" and rt: "find_root q y = rt"
    and same: "\<forall>z\<in>N. find_root q z = find_root p z"
    by (auto simp: compress_inv_def)
  have "q y \<noteq> y" using assms(2) rt find_root_fixed [of q y] by auto
  then have less: "below N (q y) < below N y" by (rule uf_parent_below [OF inv y])
  have keep: "find_root (q(y := rt)) z = find_root q z" if "z \<in> N" for z
    using rt by (intro find_root_shortcut [OF inv y that]) auto
  have "uf_inv N (q(y := rt))"
    using find_root_facts [OF inv y] rt by (intro uf_inv_update [OF inv y]) auto
  moreover have "q y \<in> N" using uf_invD [OF inv y] by simp
  moreover have "find_root q (q y) = rt" using rt by (simp add: find_root_parent)
  ultimately show ?thesis
    using keep same less by (simp add: compress_inv_def)
qed

lemma compress_terminates:
  assumes "uf_inv N p" "x \<in> N"
  shows "\<exists>s. while_option (\<lambda>(q, y). q y \<noteq> find_root p x)
               (\<lambda>(q, y). (q(y := find_root p x), q y)) (p, x) = Some s"
proof (rule measure_while_option_Some [where P = "compress_inv N p (find_root p x)"
      and f = "\<lambda>s. below N (snd s)"])
  show "compress_inv N p (find_root p x) (p, x)"
    using assms by (simp add: compress_inv_def)
qed (use compress_step in fastforce)

lemma compress_facts:
  assumes "uf_inv N p" "x \<in> N"
  shows "uf_inv N (compress p (find_root p x) x)
     \<and> (\<forall>z\<in>N. find_root (compress p (find_root p x) x) z = find_root p z)"
proof -
  have "compress_inv N p (find_root p x)
      (while (\<lambda>(q, y). q y \<noteq> find_root p x) (\<lambda>(q, y). (q(y := find_root p x), q y)) (p, x))"
  proof (rule while_rule [where P = "compress_inv N p (find_root p x)"
        and r = "measure (\<lambda>s. below N (snd s))"])
    show "compress_inv N p (find_root p x) (p, x)"
      using assms by (simp add: compress_inv_def)
  qed (use compress_step in \<open>fastforce+\<close>)
  then show ?thesis
    by (simp add: compress_def compress_inv_def)
qed

lemma uf_find_facts:
  assumes "uf_inv N p" "x \<in> N" "uf_find p x = (r, q)"
  shows "r = find_root p x" "uf_inv N q" "z \<in> N \<Longrightarrow> find_root q z = find_root p z"
  using assms compress_facts [OF assms(1,2)] by (auto simp: uf_find_def Let_def)

lemma uf_union_facts:
  assumes inv: "uf_inv N p" and a: "a \<in> N" and b: "b \<in> N"
  shows "uf_inv N (uf_union p a b)"
    and "x \<in> N \<Longrightarrow> find_root (uf_union p a b) x =
      (if find_root p x \<in> {find_root p a, find_root p b}
       then min (find_root p a) (find_root p b) else find_root p x)"
proof -
  obtain ra p1 where 1: "uf_find p a = (ra, p1)" by fastforce
  obtain rb p2 where 2: "uf_find p1 b = (rb, p2)" by fastforce
  note f1 = uf_find_facts [OF inv a 1]
  note f2 = uf_find_facts [OF f1(2) b 2]
  have ra: "ra = find_root p a" and rb: "rb = find_root p b"
    using f1 f2 b by auto
  have keep: "find_root p2 z = find_root p z" if "z \<in> N" for z
    using f1 f2 that by simp
  have root: "r \<in> N" "p2 r = r" if "r \<in> {ra, rb}" for r
    using that find_root_facts [OF f2(2), of r] find_root_facts [OF inv a]
      find_root_facts [OF inv b] keep find_root_fixed [of p]
    by (auto simp: ra rb)
  have eq: "uf_union p a b = (if ra = rb then p2 else if ra < rb then p2(rb := ra) else p2(ra := rb))"
    by (simp add: uf_union_def 1 2)
  show "uf_inv N (uf_union p a b)"
    using f2(2) root uf_inv_update [OF f2(2), of rb ra] uf_inv_update [OF f2(2), of ra rb]
    by (simp add: eq)
  show "find_root (uf_union p a b) x =
      (if find_root p x \<in> {find_root p a, find_root p b}
       then min (find_root p a) (find_root p b) else find_root p x)" if x: "x \<in> N"
  proof (cases "ra = rb")
    case True
    then show ?thesis using keep [OF x] by (auto simp: eq ra rb)
  next
    case False
    have "find_root (p2(rb := ra)) x = (if find_root p x = rb then ra else find_root p x)" if "ra < rb"
      using find_root_link [OF f2(2) _ _ _ x, of rb ra "p2(rb := ra)"] root False keep [OF x] by auto
    moreover have "find_root (p2(ra := rb)) x = (if find_root p x = ra then rb else find_root p x)"
      using find_root_link [OF f2(2) _ _ _ x, of ra rb "p2(ra := rb)"] root False keep [OF x] by auto
    ultimately show ?thesis
      using False by (auto simp: eq ra rb min_def)
  qed
qed

lemma pick_eq_iff:
  fixes c :: "'a::linorder"
  shows "(if u \<in> {c, d} then min c d else u) = (if v \<in> {c, d} then min c d else v)
     \<longleftrightarrow> u = v \<or> u = c \<and> v = d \<or> u = d \<and> v = c"
  by (cases "c \<le> d") (auto simp: min_def)

interpretation uf_part: partition_ops N "uf_inv N" find_root uf_union for N
proof
  show "uf_inv N p \<Longrightarrow> x \<in> N \<Longrightarrow> find_root p x \<in> N" for p x
    using find_root_facts by blast
  show "uf_inv N p \<Longrightarrow> x \<in> N \<Longrightarrow> find_root p (find_root p x) = find_root p x" for p x
    using find_root_facts find_root_fixed by blast
  show "uf_inv N p \<Longrightarrow> x \<in> N \<Longrightarrow> find_root p x \<le> x" for p x
    using find_root_facts by blast
  show "uf_inv N p \<Longrightarrow> a \<in> N \<Longrightarrow> b \<in> N \<Longrightarrow> uf_inv N (uf_union p a b)" for p a b
    by (rule uf_union_facts)
  show "(find_root (uf_union p a b) x = find_root (uf_union p a b) y) \<longleftrightarrow>
        find_root p x = find_root p y \<or> find_root p x = find_root p a \<and> find_root p y = find_root p b
        \<or> find_root p x = find_root p b \<and> find_root p y = find_root p a"
    if "uf_inv N p" "a \<in> N" "b \<in> N" "x \<in> N" "y \<in> N" for p a b x y
    using that by (simp only: uf_union_facts(2) pick_eq_iff)
qed

section \<open>Components of one plane\<close>

fun find_all :: "uf \<Rightarrow> string list \<Rightarrow> string gomap" where
  "find_all p [] = []"
| "find_all p (n # ns) = (let (r, q) = uf_find p n in (n, r) # find_all q ns)"

definition edge_less :: "netUplinkInfo \<Rightarrow> netUplinkInfo \<Rightarrow> bool" where
  "edge_less a b =
     (if nu_GroupID a \<noteq> nu_GroupID b then nu_GroupID a < nu_GroupID b
      else nu_UpstreamGroupID a < nu_UpstreamGroupID b)"

text \<open>The status map is ranged over, so it is given with its keys.\<close>

definition allowed :: "status gomap \<Rightarrow> (status \<Rightarrow> bool) \<Rightarrow> string list" where
  "allowed status allow = map fst (filter (\<lambda>(i, st). allow st) status)"

definition usable_edges ::
  "netGraph \<Rightarrow> status gomap \<Rightarrow> string \<Rightarrow> (status \<Rightarrow> bool) \<Rightarrow> cutMedia \<Rightarrow> netUplinkInfo list" where
  "usable_edges net status plane allow cutm =
     filter (\<lambda>u. nu_Plane u = plane
        \<and> List.member (allowed status allow) (nu_GroupID u)
        \<and> List.member (allowed status allow) (nu_UpstreamGroupID u)
        \<and> \<not> severs cutm u) (net_Uplinks net)"

definition components ::
  "netGraph \<Rightarrow> status gomap \<Rightarrow> string \<Rightarrow> (status \<Rightarrow> bool) \<Rightarrow> cutMedia \<Rightarrow> string gomap" where
  "components net status plane allow cutm =
     (let nodes = go_sort (<) (allowed status allow);
          edges = go_sort edge_less (usable_edges net status plane allow cutm);
          uf = foldl (\<lambda>u e. uf_union u (nu_GroupID e) (nu_UpstreamGroupID e))
                 (newUnionFind nodes) edges
      in find_all uf nodes)"

text \<open>
  The reference: two allowed groups are adjacent if a usable uplink joins them, in either
  direction; they are connected if a chain of adjacent groups joins them.
\<close>

definition adjacent ::
  "netGraph \<Rightarrow> status gomap \<Rightarrow> string \<Rightarrow> (status \<Rightarrow> bool) \<Rightarrow> cutMedia \<Rightarrow> (string \<times> string) set" where
  "adjacent net status plane allow cutm =
     {(a, b). \<exists>u\<in>set (net_Uplinks net). nu_Plane u = plane \<and> \<not> severs cutm u
        \<and> {nu_GroupID u, nu_UpstreamGroupID u} \<subseteq> set (allowed status allow)
        \<and> (a = nu_GroupID u \<and> b = nu_UpstreamGroupID u
           \<or> a = nu_UpstreamGroupID u \<and> b = nu_GroupID u)}"

lemma find_all_map_of:
  "uf_inv N p \<Longrightarrow> set ns \<subseteq> N \<Longrightarrow>
   map_of (find_all p ns) x = (if x \<in> set ns then Some (find_root p x) else None)"
proof (induction ns arbitrary: p)
  case Nil
  then show ?case by simp
next
  case (Cons n ns)
  obtain r q where find: "uf_find p n = (r, q)" by fastforce
  with Cons.prems have "r = find_root p n" "uf_inv N q" "\<And>z. z \<in> N \<Longrightarrow> find_root q z = find_root p z"
    using uf_find_facts [OF Cons.prems(1) _ find] by auto
  with Cons find show ?case by auto
qed

lemma keys_find_all: "keys (find_all p ns) = ns"
  by (induction p ns rule: find_all.induct) (auto simp: Let_def split: prod.splits)

lemma foldl_edges:
  "foldl (\<lambda>u e. uf_union u (nu_GroupID e) (nu_UpstreamGroupID e)) p es
   = foldl (\<lambda>s e. uf_union s (fst e) (snd e)) p (map (\<lambda>e. (nu_GroupID e, nu_UpstreamGroupID e)) es)"
  by (simp add: foldl_map)

lemma sym_usable_edges:
  "uf_part.sym_edges (map (\<lambda>e. (nu_GroupID e, nu_UpstreamGroupID e))
       (go_sort edge_less (usable_edges net status plane allow cutm)))
   = adjacent net status plane allow cutm"
  by (auto simp: uf_part.sym_edges_def adjacent_def usable_edges_def)

lemma rtrancl_Un_Id:
  assumes "r \<subseteq> Id"
  shows "(r \<union> s)\<^sup>* = s\<^sup>*"
proof
  have "r \<union> s \<subseteq> s\<^sup>*" using assms by auto
  then show "(r \<union> s)\<^sup>* \<subseteq> s\<^sup>*" by (rule rtrancl_subset_rtrancl)
  show "s\<^sup>* \<subseteq> (r \<union> s)\<^sup>*" by (rule rtrancl_mono) simp
qed

lemma classes_new: "uf_part.classes (set nodes) (newUnionFind nodes) \<subseteq> Id"
  by (auto simp: uf_part.classes_def newUnionFind_def find_root_fixed)

text \<open>
 \<open>components\<close> computes connectivity: every allowed group is mapped to the least id among
  the groups connected to it by usable uplinks, and no other group is in the map. The answer
  therefore depends on neither the order of the uplinks nor that of the groups.
\<close>

theorem components_correct:
  "map_of (components net status plane allow cutm) a =
     (if a \<in> set (allowed status allow)
      then Some (Min {b. (a, b) \<in> (adjacent net status plane allow cutm)\<^sup>*}) else None)"
proof (cases "a \<in> set (allowed status allow)")
  case False
  then show ?thesis
    by (simp add: components_def Let_def map_of_eq_None_iff keys_find_all flip: set_map)
next
  case True
  show ?thesis
  proof -
    let ?N = "set (allowed status allow)"
    let ?nodes = "go_sort (<) (allowed status allow)"
    let ?es = "map (\<lambda>e. (nu_GroupID e, nu_UpstreamGroupID e))
                 (go_sort edge_less (usable_edges net status plane allow cutm))"
    let ?p = "foldl (\<lambda>s e. uf_union s (fst e) (snd e)) (newUnionFind ?nodes) ?es"
    have new: "uf_inv ?N (newUnionFind ?nodes)"
      using uf_inv_new [of ?nodes] by simp
    have es: "set ?es \<subseteq> ?N \<times> ?N"
      by (auto simp: usable_edges_def)
    have inv: "uf_inv ?N ?p"
      by (rule uf_part.fold_merge_inv [OF new es])
    have Id: "uf_part.classes ?N (newUnionFind ?nodes) \<subseteq> Id"
      using classes_new [of ?nodes] by simp
    have "(a, b) \<in> uf_part.classes ?N ?p \<longleftrightarrow> (a, b) \<in> (adjacent net status plane allow cutm)\<^sup>*" for b
      using uf_part.fold_merge_classes [OF new es True]
      by (simp only: sym_usable_edges rtrancl_Un_Id [OF Id])
    then have "find_root ?p a = Min {b. (a, b) \<in> (adjacent net status plane allow cutm)\<^sup>*}"
      using uf_part.rep_least [OF inv True] by simp
    then show ?thesis
      using find_all_map_of [OF inv, of ?nodes a] True
      by (simp add: components_def Let_def foldl_edges)
  qed
qed

end
