(* ===== verification/Reach.thy ===== *)
theory Reach
  imports Components
begin

text \<open>
  Reachability, internal/impact/reach.go: group statuses (R1), the two union-find passes per plane
  (R2), attachment resolution with inheritance, isolation and three-valued pairwise reach (R3 and
  R4). A \<open>reachModel option\<close> is the code's \<open>*reachModel\<close>; \<open>None\<close> is the nil pointer, on which
  every method answers "no opinion". The two memo tables of the code (\<open>netOfCache\<close>,
  \<open>modelledCache\<close>) hold results of functions of fields that never change and are left out.
\<close>

section \<open>R1: group status\<close>

definition installedLifecycle :: "string \<Rightarrow> bool" where
  "installedLifecycle lc \<longleftrightarrow>
     lc = LifecycleActive \<or> lc = LifecycleMaintenance \<or> lc = LifecycleDeprecated"

abbreviation group_members :: "netGraph \<Rightarrow> string \<Rightarrow> netGroupMemberInfo list" where
  "group_members net \<equiv> get_or [] (map_of (net_Members net))"

definition installed_health ::
  "netGraph \<Rightarrow> string list \<Rightarrow> string \<Rightarrow> instanceHealth list" where
  "installed_health net down gid =
     map (\<lambda>m. \<lparr>ih_ID = ngm_AssetID m, ih_Role = ngm_Role m, ih_Shard = [],
               ih_Alive = \<not> List.member down (ngm_AssetID m)\<rparr>)
       (filter (\<lambda>m. installedLifecycle (ngm_AssetLifecycle m)) (group_members net gid))"

definition group_status :: "netGraph \<Rightarrow> string list \<Rightarrow> string \<Rightarrow> netGroupInfo \<Rightarrow> status" where
  "group_status net down gid g =
     (let installed = installed_health net down gid in
      if installed = [] then StatusDown
      else Evaluate \<lparr>ap_Availability = ng_Availability g, ap_MinHealthy = ng_MinHealthy g,
                     ap_FailoverMode = ng_FailoverMode g\<rparr> installed)"

definition groupStatuses :: "netGraph \<Rightarrow> string list \<Rightarrow> status gomap" where
  "groupStatuses net down = map (\<lambda>(gid, g). (gid, group_status net down gid g)) (net_Groups net)"

section \<open>The reach model\<close>

record reachModel =
  rm_net :: netGraph
  rm_down :: "string list"
  rm_groupStatus :: "status gomap"
  rm_compOptimistic :: "string gomap gomap"
  rm_compPessimistic :: "string gomap gomap"
  rm_cut :: cutMedia

definition planes :: "string list" where
  "planes = [PlaneData, PlaneMgmt, PlaneStorage]"

text \<open>The two \<open>allow\<close> predicates handed to \<open>components\<close>.\<close>

definition forwards :: "status \<Rightarrow> bool" where
  "forwards s \<longleftrightarrow> s \<noteq> StatusDown"

definition healthy :: "status \<Rightarrow> bool" where
  "healthy s \<longleftrightarrow> s = StatusOK"

definition buildReachModel ::
  "netGraph option \<Rightarrow> string list \<Rightarrow> cutMedia \<Rightarrow> reachModel option" where
  "buildReachModel net down cutm =
     (case net of
        None \<Rightarrow> None
      | Some n \<Rightarrow>
          if IsEmpty net then None
          else
            let gs = groupStatuses n down in
            Some \<lparr>rm_net = n, rm_down = down, rm_groupStatus = gs,
              rm_compOptimistic = map (\<lambda>p. (p, components n gs p forwards cutm)) planes,
              rm_compPessimistic = map (\<lambda>p. (p, components n gs p healthy cutm)) planes,
              rm_cut = cutm\<rparr>)"

text \<open>\<open>attachmentsByAssetPlane[asset][plane]\<close>: indices into \<open>Attachments\<close>, in order.\<close>

definition attachmentsByAssetPlane :: "netGraph \<Rightarrow> string \<Rightarrow> string \<Rightarrow> nat list" where
  "attachmentsByAssetPlane net asset plane =
     filter (\<lambda>i. na_AssetID (net_Attachments net ! i) = asset
               \<and> na_Plane (net_Attachments net ! i) = plane)
       [0..<length (net_Attachments net)]"

text \<open>\<open>ancestorsByDescendant[d]\<close>: the closure rows of \<open>d\<close>, one per ancestor, nearest first.\<close>

fun ancestor_rows :: "string \<Rightarrow> string list \<Rightarrow> closureRow list \<Rightarrow> (string \<times> int) list" where
  "ancestor_rows d seen [] = []"
| "ancestor_rows d seen (c # cs) =
     (if cr_DescendantID c \<noteq> d \<or> List.member seen (cr_AncestorID c) then ancestor_rows d seen cs
      else (cr_AncestorID c, cr_Depth c) # ancestor_rows d (cr_AncestorID c # seen) cs)"

definition ancestorsByDescendant :: "netGraph \<Rightarrow> string \<Rightarrow> (string \<times> int) list" where
  "ancestorsByDescendant net d =
     go_sort (\<lambda>a b. snd a < snd b) (ancestor_rows d [] (net_Closure net))"

definition liveAttachment :: "reachModel \<Rightarrow> nat \<Rightarrow> bool" where
  "liveAttachment m idx =
     (let a = net_Attachments (rm_net m) ! idx;
          members = get_or [] (map_of (net_AttachmentMembers (rm_net m))) (na_ID a) in
      if get_or StatusZero (map_of (rm_groupStatus m)) (na_GroupID a) = StatusDown then False
      else if map_of (net_Groups (rm_net m)) (na_GroupID a) = None then False
      else if members = [] then True
      else list_ex (\<lambda>mem. installedLifecycle (nam_AssetLifecycle mem)
                        \<and> \<not> List.member (rm_down m) (nam_AssetID mem)) members)"

fun first_attached :: "netGraph \<Rightarrow> string \<Rightarrow> (string \<times> int) list \<Rightarrow> nat list option" where
  "first_attached net plane [] = None"
| "first_attached net plane (cand # cands) =
     (let idxs = attachmentsByAssetPlane net (fst cand) plane in
      if idxs = [] then first_attached net plane cands else Some idxs)"

definition effectiveAttachments :: "reachModel \<Rightarrow> string \<Rightarrow> string \<Rightarrow> nat list option" where
  "effectiveAttachments m assetID plane =
     (let candidates = ancestorsByDescendant (rm_net m) assetID in
      if candidates = [] then
        (let idxs = attachmentsByAssetPlane (rm_net m) assetID plane in
         if idxs = [] then None else Some idxs)
      else first_attached (rm_net m) plane candidates)"

definition modelled :: "reachModel option \<Rightarrow> string \<Rightarrow> string \<Rightarrow> bool" where
  "modelled mo assetID plane =
     (case mo of None \<Rightarrow> False | Some m \<Rightarrow> effectiveAttachments m assetID plane \<noteq> None)"

definition netOf :: "reachModel option \<Rightarrow> string \<Rightarrow> string \<Rightarrow> string list" where
  "netOf mo assetID plane =
     (case mo of None \<Rightarrow> []
      | Some m \<Rightarrow>
          (case effectiveAttachments m assetID plane of None \<Rightarrow> []
           | Some idxs \<Rightarrow>
               dedup [] (map (\<lambda>i. na_GroupID (net_Attachments (rm_net m) ! i))
                           (filter (liveAttachment m) idxs))))"

definition isolated :: "reachModel option \<Rightarrow> string \<Rightarrow> string \<Rightarrow> bool" where
  "isolated mo assetID plane =
     (case mo of None \<Rightarrow> False
      | Some m \<Rightarrow> modelled mo assetID plane \<and> netOf mo assetID plane = [])"

text \<open>\<open>comp[g]\<close> of one plane, the empty id when the group is not in the map.\<close>

definition comp_of :: "string gomap gomap \<Rightarrow> string \<Rightarrow> string \<Rightarrow> string" where
  "comp_of comps plane g = get_or [] (map_of (get_or [] (map_of comps) plane)) g"

definition joined :: "string gomap gomap \<Rightarrow> string \<Rightarrow> string list \<Rightarrow> string list \<Rightarrow> bool" where
  "joined comps plane gx gy =
     list_ex (\<lambda>p. list_ex (\<lambda>q. comp_of comps plane p \<noteq> []
        \<and> comp_of comps plane p = comp_of comps plane q) gy) gx"

text \<open>The pair \<open>(status, known)\<close> of the code as an option: \<open>None\<close> is "not known".\<close>

definition reach :: "reachModel option \<Rightarrow> string \<Rightarrow> string \<Rightarrow> string \<Rightarrow> status option" where
  "reach mo x y plane =
     (case mo of None \<Rightarrow> None
      | Some m \<Rightarrow>
          if \<not> modelled mo x plane \<or> \<not> modelled mo y plane then None
          else if isolated mo x plane \<or> isolated mo y plane then Some StatusDown
          else
            let gx = netOf mo x plane; gy = netOf mo y plane in
            if joined (rm_compPessimistic m) plane gx gy then Some StatusOK
            else if joined (rm_compOptimistic m) plane gx gy then Some StatusDegraded
            else Some StatusDown)"

definition reachGroup :: "reachModel option \<Rightarrow> string \<Rightarrow> string \<Rightarrow> string \<Rightarrow> status option" where
  "reachGroup mo assetID groupID plane =
     (case mo of None \<Rightarrow> None
      | Some m \<Rightarrow>
          if \<not> modelled mo assetID plane then None
          else if map_of (net_Groups (rm_net m)) groupID = None then None
          else if isolated mo assetID plane
               \<or> get_or StatusZero (map_of (rm_groupStatus m)) groupID = StatusDown
          then Some StatusDown
          else
            let from = netOf mo assetID plane in
            if joined (rm_compPessimistic m) plane from [groupID] then Some StatusOK
            else if joined (rm_compOptimistic m) plane from [groupID] then Some StatusDegraded
            else Some StatusDown)"

definition groupCode :: "reachModel option \<Rightarrow> string \<Rightarrow> string" where
  "groupCode mo groupID =
     (case mo of None \<Rightarrow> groupID
      | Some m \<Rightarrow> (case map_of (net_Groups (rm_net m)) groupID of
          Some g \<Rightarrow> ng_Code g | None \<Rightarrow> groupID))"

section \<open>What the model answers\<close>

lemma reach_nil [simp]: "reach None x y plane = None" "isolated None x plane = False"
  "modelled None x plane = False" "netOf None x plane = []" "reachGroup None x g plane = None"
  by (simp_all add: reach_def isolated_def modelled_def netOf_def reachGroup_def)

lemma map_of_groupStatuses:
  "map_of (groupStatuses net down) gid = map_option (group_status net down gid) (map_of (net_Groups net) gid)"
  by (simp add: groupStatuses_def map_of_map_snd)

lemma keys_groupStatuses [simp]: "keys (groupStatuses net down) = keys (net_Groups net)"
  by (simp add: groupStatuses_def split_def comp_def)

lemma group_status_proper [simp]: "group_status net down gid g \<noteq> StatusZero"
  by (simp add: group_status_def Let_def)

text \<open>Two groups joined by a chain of usable uplinks through groups that satisfy \<open>allow\<close>.\<close>

definition connected ::
  "netGraph \<Rightarrow> status gomap \<Rightarrow> string \<Rightarrow> (status \<Rightarrow> bool) \<Rightarrow> cutMedia \<Rightarrow> string \<Rightarrow> string \<Rightarrow> bool" where
  "connected net gs plane allow cutm p q \<longleftrightarrow> p \<in> set (allowed gs allow) \<and> q \<in> set (allowed gs allow)
     \<and> (p, q) \<in> (adjacent net gs plane allow cutm)\<^sup>*"

lemma adjacent_sym: "(p, q) \<in> adjacent net gs plane allow cutm \<Longrightarrow> (q, p) \<in> adjacent net gs plane allow cutm"
  by (auto simp: adjacent_def)

lemma adjacent_rtrancl_sym:
  "(p, q) \<in> (adjacent net gs plane allow cutm)\<^sup>* \<Longrightarrow> (q, p) \<in> (adjacent net gs plane allow cutm)\<^sup>*"
  by (metis adjacent_sym sym_def sym_rtrancl)

lemma adjacent_closed:
  "(p, q) \<in> (adjacent net gs plane allow cutm)\<^sup>* \<Longrightarrow> p \<in> set (allowed gs allow) \<Longrightarrow> q \<in> set (allowed gs allow)"
  by (induction rule: rtrancl_induct) (auto simp: adjacent_def)

lemma component_class_finite:
  "p \<in> set (allowed gs allow) \<Longrightarrow> finite {b. (p, b) \<in> (adjacent net gs plane allow cutm)\<^sup>*}"
  by (rule finite_subset [of _ "set (allowed gs allow)"]) (auto dest: adjacent_closed)

lemma components_same_iff:
  assumes "[] \<notin> set (allowed gs allow)"
  shows "get_or [] (map_of (components net gs plane allow cutm)) p \<noteq> []
     \<and> get_or [] (map_of (components net gs plane allow cutm)) p
       = get_or [] (map_of (components net gs plane allow cutm)) q
     \<longleftrightarrow> connected net gs plane allow cutm p q"
proof -
  let ?A = "set (allowed gs allow)" and ?R = "adjacent net gs plane allow cutm"
  let ?c = "get_or [] (map_of (components net gs plane allow cutm))"
  have c: "?c r = (if r \<in> ?A then Min {b. (r, b) \<in> ?R\<^sup>*} else [])" for r
    by (simp add: get_or_def components_correct)
  have mem: "(r, Min {b. (r, b) \<in> ?R\<^sup>*}) \<in> ?R\<^sup>*" if "r \<in> ?A" for r
    using Min_in [OF component_class_finite [OF that]] by blast
  have nonempty: "?c r \<noteq> []" if "r \<in> ?A" for r
    using that mem [OF that] adjacent_closed [OF mem [OF that] that] assms by (auto simp: c)
  have same: "?c p = ?c q \<longleftrightarrow> (p, q) \<in> ?R\<^sup>*" if "p \<in> ?A" "q \<in> ?A"
  proof
    assume "?c p = ?c q"
    then show "(p, q) \<in> ?R\<^sup>*"
      using mem [OF that(1)] adjacent_rtrancl_sym [OF mem [OF that(2)]] that
      by (auto simp: c intro: rtrancl_trans)
  next
    assume pq: "(p, q) \<in> ?R\<^sup>*"
    then have "(p, b) \<in> ?R\<^sup>* \<longleftrightarrow> (q, b) \<in> ?R\<^sup>*" for b
      using adjacent_rtrancl_sym [OF pq] by (meson rtrancl_trans)
    with that show "?c p = ?c q" by (simp add: c)
  qed
  show ?thesis
    using nonempty same by (cases "p \<in> ?A"; cases "q \<in> ?A") (auto simp: connected_def c)
qed

text \<open>Groups are declared under distinct, non-empty ids.\<close>

definition wf_net :: "netGraph \<Rightarrow> bool" where
  "wf_net net \<longleftrightarrow> distinct (keys (net_Groups net)) \<and> [] \<notin> set (keys (net_Groups net))"

lemma allowed_subset: "set (allowed gs allow) \<subseteq> set (keys gs)"
  by (auto simp: allowed_def)

lemma wf_net_allowed: "wf_net net \<Longrightarrow> [] \<notin> set (allowed (groupStatuses net down) allow)"
  using allowed_subset [of "groupStatuses net down" allow] by (auto simp: wf_net_def)

lemma buildReachModel_Some:
  assumes "buildReachModel (Some net) down cutm = Some m"
  shows "rm_net m = net" "rm_down m = down" "rm_groupStatus m = groupStatuses net down"
    "rm_compOptimistic m = map (\<lambda>p. (p, components net (groupStatuses net down) p forwards cutm)) planes"
    "rm_compPessimistic m = map (\<lambda>p. (p, components net (groupStatuses net down) p healthy cutm)) planes"
  using assms
  by (auto simp: buildReachModel_def Let_def split: if_splits)

lemma comp_of_planes:
  "plane \<in> set planes \<Longrightarrow> comp_of (map (\<lambda>p. (p, f p)) planes) plane g = get_or [] (map_of (f plane)) g"
  by (auto simp: comp_of_def planes_def)

lemma joined_iff:
  assumes "buildReachModel (Some net) down cutm = Some m" "wf_net net" "plane \<in> set planes"
  shows "joined (rm_compPessimistic m) plane gx gy \<longleftrightarrow>
      (\<exists>p\<in>set gx. \<exists>q\<in>set gy. connected net (groupStatuses net down) plane healthy cutm p q)"
    and "joined (rm_compOptimistic m) plane gx gy \<longleftrightarrow>
      (\<exists>p\<in>set gx. \<exists>q\<in>set gy. connected net (groupStatuses net down) plane forwards cutm p q)"
  by (simp_all add: joined_def list_ex_iff buildReachModel_Some [OF assms(1)] comp_of_planes [OF assms(3)]
      components_same_iff [OF wf_net_allowed [OF assms(2)]])

section \<open>A small estate for concrete runs\<close>

text \<open>
  Two forwarder groups on the data plane joined by one cable: a manual active/passive core pair
  and a single-chassis edge, with one host attached to each.
\<close>

definition demo_net :: netGraph where
  "demo_net = NewNetGraph\<lparr>
     net_Groups := map (\<lambda>g. (g, \<lparr>ng_ID = g, ng_Code = g, ng_Availability = AvailActivePassive,
        ng_MinHealthy = None, ng_FailoverMode = Some FailoverManual\<rparr>)) [''core'', ''edge''],
     net_Members :=
       [(''core'', [\<lparr>ngm_AssetID = ''sw1'', ngm_Role = RolePrimary, ngm_AssetLifecycle = LifecycleActive\<rparr>,
                    \<lparr>ngm_AssetID = ''sw2'', ngm_Role = RoleStandby, ngm_AssetLifecycle = LifecycleActive\<rparr>]),
        (''edge'', [\<lparr>ngm_AssetID = ''fw1'', ngm_Role = RolePrimary, ngm_AssetLifecycle = LifecycleActive\<rparr>])],
     net_Uplinks := [\<lparr>nu_GroupID = ''core'', nu_UpstreamGroupID = ''edge'', nu_Plane = PlaneData,
        nu_CircuitID = [], nu_LinkID = ''cable'', nu_Label = []\<rparr>],
     net_Attachments :=
       [\<lparr>na_ID = ''a1'', na_AssetID = ''h1'', na_GroupID = ''core'', na_Plane = PlaneData\<rparr>,
        \<lparr>na_ID = ''a2'', na_AssetID = ''h2'', na_GroupID = ''edge'', na_Plane = PlaneData\<rparr>]\<rparr>"

definition no_cut :: cutMedia where
  "no_cut = \<lparr>cut_circuits = [], cut_links = []\<rparr>"

definition cable_cut :: cutMedia where
  "cable_cut = \<lparr>cut_circuits = [], cut_links = [''cable'']\<rparr>"

definition demo_model :: "string list \<Rightarrow> cutMedia \<Rightarrow> reachModel" where
  "demo_model down cutm = the (buildReachModel (Some demo_net) down cutm)"

lemma demo_model: "buildReachModel (Some demo_net) down cutm = Some (demo_model down cutm)"
  by (simp add: demo_model_def buildReachModel_def IsEmpty_def demo_net_def Let_def)

lemma demo_wf: "wf_net demo_net" "PlaneData \<in> set planes"
  by (simp_all add: wf_net_def demo_net_def planes_def)

lemma demo_modelled:
  "modelled (Some (demo_model [''sw1''] no_cut)) ''h1'' PlaneData"
  "modelled (Some (demo_model [''sw1''] no_cut)) ''h2'' PlaneData"
  by code_simp+

lemma demo_reach:
  "reach (Some (demo_model [] no_cut)) ''h1'' ''h2'' PlaneData = Some StatusOK"
  "reach (Some (demo_model [''sw1''] no_cut)) ''h1'' ''h2'' PlaneData = Some StatusDegraded"
  "reach (Some (demo_model [''sw1''] cable_cut)) ''h1'' ''h2'' PlaneData = Some StatusDown"
  by code_simp+

section \<open>Reach is path existence\<close>

lemma reach_correct_aux:
  assumes model: "buildReachModel (Some net) down cutm = Some m" and wf: "wf_net net"
    and plane: "plane \<in> set planes"
    and known: "modelled (Some m) x plane" "modelled (Some m) y plane"
  shows "reach (Some m) x y plane = Some
     (if \<exists>p\<in>set (netOf (Some m) x plane). \<exists>q\<in>set (netOf (Some m) y plane).
          connected net (groupStatuses net down) plane healthy cutm p q then StatusOK
      else if \<exists>p\<in>set (netOf (Some m) x plane). \<exists>q\<in>set (netOf (Some m) y plane).
          connected net (groupStatuses net down) plane forwards cutm p q then StatusDegraded
      else StatusDown)"
  using known by (auto simp: reach_def isolated_def joined_iff [OF model wf plane] Let_def)

text \<open>
  (C3) Pairwise reachability is path existence: for two modelled assets, \<open>reach\<close> answers ok exactly
  if some group each is live-attached to are joined by a chain of uncut uplinks through groups
  that are all ok, degraded if only a chain through groups that still forward exists, and down
  otherwise.
\<close>

theorem reach_correct:
  assumes model: "buildReachModel (Some net) down cutm = Some m" and wf: "wf_net net"
    and plane: "plane \<in> set planes"
    and known: "modelled (Some m) x plane" "modelled (Some m) y plane"
  shows "reach (Some m) x y plane = Some
     (if \<exists>p\<in>set (netOf (Some m) x plane). \<exists>q\<in>set (netOf (Some m) y plane).
          connected net (groupStatuses net down) plane healthy cutm p q then StatusOK
      else if \<exists>p\<in>set (netOf (Some m) x plane). \<exists>q\<in>set (netOf (Some m) y plane).
          connected net (groupStatuses net down) plane forwards cutm p q then StatusDegraded
      else StatusDown)"
  using known by (auto simp: reach_def isolated_def joined_iff [OF model wf plane] Let_def)

theorem reach_correct_witness:
  "Some StatusDegraded = Some
     (if \<exists>p\<in>set (netOf (Some (demo_model [''sw1''] no_cut)) ''h1'' PlaneData).
         \<exists>q\<in>set (netOf (Some (demo_model [''sw1''] no_cut)) ''h2'' PlaneData).
          connected demo_net (groupStatuses demo_net [''sw1'']) PlaneData healthy no_cut p q then StatusOK
      else if \<exists>p\<in>set (netOf (Some (demo_model [''sw1''] no_cut)) ''h1'' PlaneData).
         \<exists>q\<in>set (netOf (Some (demo_model [''sw1''] no_cut)) ''h2'' PlaneData).
          connected demo_net (groupStatuses demo_net [''sw1'']) PlaneData forwards no_cut p q then StatusDegraded
      else StatusDown)"
  using reach_correct [OF demo_model demo_wf demo_modelled] unfolding demo_reach .

section \<open>Losing more never helps\<close>

definition cut_subset :: "cutMedia \<Rightarrow> cutMedia \<Rightarrow> bool" where
  "cut_subset c c' \<longleftrightarrow> set (cut_circuits c) \<subseteq> set (cut_circuits c') \<and> set (cut_links c) \<subseteq> set (cut_links c')"

lemma severs_mono: "cut_subset c c' \<Longrightarrow> severs c u \<Longrightarrow> severs c' u"
  by (auto simp: cut_subset_def severs_def)

lemma installed_health_loses:
  "set down \<subseteq> set down' \<Longrightarrow> loses (installed_health net down gid) (installed_health net down' gid)"
  by (auto simp: loses_def installed_health_def list_all2_conv_all_nth)

lemma group_status_mono:
  assumes "set down \<subseteq> set down'"
  shows "group_status net down gid g \<le> group_status net down' gid g"
proof -
  have "installed_health net down gid = [] \<longleftrightarrow> installed_health net down' gid = []"
    by (auto simp: installed_health_def)
  then show ?thesis
    using Evaluate_mono [OF installed_health_loses [OF assms]] by (auto simp: group_status_def Let_def)
qed

lemma allowed_groupStatuses:
  "gid \<in> set (allowed (groupStatuses net down) allow) \<longleftrightarrow>
     (\<exists>g. (gid, g) \<in> set (net_Groups net) \<and> allow (group_status net down gid g))"
  by (force simp: allowed_def groupStatuses_def)

definition tolerant :: "(status \<Rightarrow> bool) \<Rightarrow> bool" where
  "tolerant allow \<longleftrightarrow> (\<forall>s t. s \<le> t \<longrightarrow> allow t \<longrightarrow> allow s)"

lemma tolerant_passes: "tolerant healthy" "tolerant forwards"
  by (auto simp: tolerant_def healthy_def forwards_def)

lemma connected_mono:
  assumes down: "set down \<subseteq> set down'" and cut_sub: "cut_subset c c'" and "tolerant allow"
    and conn: "connected net (groupStatuses net down') plane allow c' p q"
  shows "connected net (groupStatuses net down) plane allow c p q"
proof -
  have sub: "set (allowed (groupStatuses net down') allow) \<subseteq> set (allowed (groupStatuses net down) allow)"
    using \<open>tolerant allow\<close> group_status_mono [OF down, of net]
    by (auto simp: allowed_groupStatuses tolerant_def) blast
  then have "adjacent net (groupStatuses net down') plane allow c'
      \<subseteq> adjacent net (groupStatuses net down) plane allow c"
    using severs_mono [OF cut_sub] by (auto simp: adjacent_def; blast)
  from rtrancl_mono [OF this] sub conn show ?thesis
    by (auto simp: connected_def)
qed

lemma netOf_mono:
  assumes m: "buildReachModel (Some net) down c = Some m"
    and m': "buildReachModel (Some net) down' c' = Some m'" and down: "set down \<subseteq> set down'"
  shows "set (netOf (Some m') x plane) \<subseteq> set (netOf (Some m) x plane)"
    and "modelled (Some m') x plane = modelled (Some m) x plane"
proof -
  note M = buildReachModel_Some [OF m] and M' = buildReachModel_Some [OF m']
  have eff: "effectiveAttachments m' x plane = effectiveAttachments m x plane"
    by (simp add: effectiveAttachments_def Let_def M M')
  have live: "liveAttachment m i" if "liveAttachment m' i" for i
  proof -
    let ?g = "na_GroupID (net_Attachments net ! i)"
    have "get_or StatusZero (map_of (groupStatuses net down)) ?g \<noteq> StatusDown"
      if "get_or StatusZero (map_of (groupStatuses net down')) ?g \<noteq> StatusDown"
      using that group_status_mono [OF down, of net ?g]
      by (cases "map_of (net_Groups net) ?g") (auto simp: map_of_groupStatuses, metis StatusDown_le)
    with that down show ?thesis
      by (auto simp: liveAttachment_def Let_def M M' list_ex_iff split: if_splits)
  qed
  show "modelled (Some m') x plane = modelled (Some m) x plane"
    by (simp add: modelled_def eff)
  show "set (netOf (Some m') x plane) \<subseteq> set (netOf (Some m) x plane)"
  proof (cases "effectiveAttachments m x plane")
    case None
    then show ?thesis by (simp add: netOf_def eff)
  next
    case (Some idxs)
    have "set (filter (liveAttachment m') idxs) \<subseteq> set (filter (liveAttachment m) idxs)"
      using live by auto
    with Some show ?thesis
      by (simp add: netOf_def eff M(1) M'(1) set_dedup image_mono)
  qed
qed

text \<open>
  Reachability is monotone in the outage: taking more assets down and cutting more circuits
  and cables never makes a pair of assets better connected, and never turns an answer into "not
  known".
\<close>

theorem reach_monotone:
  assumes m: "buildReachModel (Some net) down c = Some m"
    and m': "buildReachModel (Some net) down' c' = Some m'"
    and wf: "wf_net net" and plane: "plane \<in> set planes"
    and down: "set down \<subseteq> set down'" and cut_sub: "cut_subset c c'"
    and known: "reach (Some m) x y plane = Some s"
  shows "\<exists>s'. reach (Some m') x y plane = Some s' \<and> s \<le> s'"
proof -
  from known have mod: "modelled (Some m) x plane" "modelled (Some m) y plane"
    by (auto simp: reach_def split: if_splits)
  then have mod': "modelled (Some m') x plane" "modelled (Some m') y plane"
    using netOf_mono(2) [OF m m' down] by auto
  note sub = netOf_mono(1) [OF m m' down, of x plane] netOf_mono(1) [OF m m' down, of y plane]
  note conn = connected_mono [OF down cut_sub tolerant_passes(1)]
    connected_mono [OF down cut_sub tolerant_passes(2)]
  show ?thesis
    using known sub conn
    unfolding reach_correct_aux [OF m wf plane mod] reach_correct_aux [OF m' wf plane mod']
    by (auto simp: less_eq_status_def split: if_splits; blast)
qed

theorem reach_monotone_witness:
  "\<exists>s'. reach (Some (demo_model [''sw1''] cable_cut)) ''h1'' ''h2'' PlaneData = Some s'
     \<and> StatusDegraded \<le> s'"
  using reach_monotone [OF demo_model demo_model demo_wf subset_refl _ demo_reach(2), of cable_cut]
  by (simp add: cut_subset_def no_cut_def)

end
