(* ===== verification/Seams.thy ===== *)
theory Seams
  imports Reach
begin

text \<open>
  How reachability enters the engine (internal/impact/reach.go from "Seam 1" on): which services
  need the network at all, the pairwise partition pre-pass over dependencies and pool members,
  anchors and exposure, and the reports on isolation, partitions, redundancy and coverage.
\<close>

section \<open>What the reports are made of\<close>

datatype cause = CauseCapacity | CauseReachability | CauseExposure | CauseDependency

record serviceImpact =
  si_ServiceID :: string
  si_Code :: string
  si_Name :: string
  si_Tier :: int
  si_Status :: status
  si_Reason :: string
  si_LostInstances :: nat
  si_TotalInstances :: nat
  si_Via :: string
  si_Cause :: cause
  si_LostToIsolation :: nat

record assetIsolation =
  ai_AssetID :: string
  ai_AssetName :: string
  ai_AssetKind :: string
  ai_Plane :: string
  ai_BlockingGroup :: string

record edgePartition =
  ept_DependencyID :: string
  ept_ConsumerService :: string
  ept_ProviderName :: string
  ept_Reach :: string

record endpointReach =
  er_ServiceID :: string
  er_Code :: string
  er_Name :: string
  er_EndpointID :: string
  er_EndpointName :: string
  er_Scope :: string
  er_Status :: status
  er_BlockingGroup :: string

record groupFinding =
  gf_GroupCode :: string
  gf_Message :: string

record reachCoverage =
  cov_TopologyDeclared :: bool
  cov_Modelled :: nat
  cov_Inherited :: nat
  cov_Unmodelled :: nat
  cov_GroupsWithoutUplinkOrAnchor :: nat
  cov_NoAnchorForScope :: "string \<Rightarrow> nat"
  cov_ClusterUnresolved :: nat

definition isolation_label :: "assetIsolation \<Rightarrow> string" where
  "isolation_label a = (if ai_AssetName a \<noteq> [] then ai_AssetName a else ai_AssetID a)"

section \<open>Seam 1: who needs the network\<close>

abbreviation "BindLoopback \<equiv> ''loopback''"
abbreviation "BindClusterIP \<equiv> ''cluster_ip''"
abbreviation "BindNodePort \<equiv> ''node_port''"
abbreviation "BindIngress \<equiv> ''ingress''"
abbreviation "BindUnix \<equiv> ''unix''"

definition isLocalBind :: "string \<Rightarrow> bool" where
  "isLocalBind scope \<longleftrightarrow> scope = BindLoopback \<or> scope = BindUnix"

definition providerEndpointForDep :: "graph \<Rightarrow> dependency \<Rightarrow> endpoint option" where
  "providerEndpointForDep g dep =
     (case dep_ProviderEndpointID dep of
        Some e \<Rightarrow> find_endpoint g e
      | None \<Rightarrow>
          (case dep_ProviderRouteID dep of
             Some rid \<Rightarrow>
               (case find_route g rid of
                  Some r \<Rightarrow> find_endpoint g (route_FrontendEndpointID r)
                | None \<Rightarrow> None)
           | None \<Rightarrow> None))"

definition endpoints_of :: "graph \<Rightarrow> string \<Rightarrow> endpoint list" where
  "endpoints_of g svcID = filter (\<lambda>ep. ep_ServiceID ep = svcID) (map snd (g_Endpoints g))"

definition deps_of :: "graph \<Rightarrow> string \<Rightarrow> dependency list" where
  "deps_of g svcID = filter (\<lambda>d. dep_Lifecycle d \<noteq> LifecycleRetired \<and> dep_ConsumerServiceID d = svcID)
     (g_Deps g)"

definition all_local :: "graph \<Rightarrow> string \<Rightarrow> bool" where
  "all_local g svcID \<longleftrightarrow>
     endpoints_of g svcID \<noteq> [] \<and> list_all (\<lambda>ep. isLocalBind (ep_BindScope ep)) (endpoints_of g svcID)
     \<and> list_all (\<lambda>d. case providerEndpointForDep g d of
            None \<Rightarrow> False | Some pep \<Rightarrow> isLocalBind (ep_BindScope pep)) (deps_of g svcID)"

definition computeNeedsNet :: "graph \<Rightarrow> bool gomap" where
  "computeNeedsNet g = map (\<lambda>(svcID, _). (svcID, \<not> all_local g svcID)) (g_Services g)"

section \<open>Seam 2: the pairwise partition pre-pass\<close>

datatype reachLevel = reachUnknown | reachOK | reachDegraded | reachDown

fun reachLevel_String :: "reachLevel \<Rightarrow> string" where
  "reachLevel_String reachOK = ''ok''"
| "reachLevel_String reachDegraded = ''degraded''"
| "reachLevel_String reachDown = ''down''"
| "reachLevel_String reachUnknown = ''unknown''"

definition dedupeStrings :: "string list \<Rightarrow> string list" where
  "dedupeStrings xs = dedup [[]] xs"

text \<open>The inner loop of \<open>aggregateReach\<close>: the Better-fold over the providers one consumer knows.\<close>

fun consumer_reach ::
  "reachModel option \<Rightarrow> string \<Rightarrow> string list \<Rightarrow> status \<times> bool \<Rightarrow> status \<times> bool" where
  "consumer_reach net c [] acc = acc"
| "consumer_reach net c (p # ps) (per, known) =
     consumer_reach net c ps
       (case reach net c p PlaneData of Some s \<Rightarrow> (Better per s, True) | None \<Rightarrow> (per, known))"

fun aggregate_flags ::
  "reachModel option \<Rightarrow> string list \<Rightarrow> string list \<Rightarrow> bool \<times> bool \<times> bool \<Rightarrow> bool \<times> bool \<times> bool" where
  "aggregate_flags net providers [] acc = acc"
| "aggregate_flags net providers (c # cs) (anyKnown, allDown, anyNotOK) =
     (let (per, known) = consumer_reach net c providers (StatusDown, False) in
      aggregate_flags net providers cs
        (if \<not> known then (anyKnown, allDown, anyNotOK)
         else (True, allDown \<and> per = StatusDown, anyNotOK \<or> per \<noteq> StatusOK)))"

definition aggregateReach :: "reachModel option \<Rightarrow> string list \<Rightarrow> string list \<Rightarrow> reachLevel" where
  "aggregateReach net consumers providers =
     (let (anyKnown, allDown, anyNotOK) = aggregate_flags net providers consumers (False, True, False) in
      if \<not> anyKnown then reachUnknown
      else if allDown then reachDown
      else if anyNotOK then reachDegraded
      else reachOK)"

text \<open>
  The hosts that answer for an endpoint, with the amount added to \<open>coverage.ClusterUnresolved\<close>
  when a coverage record is passed.
\<close>

definition reachHosts ::
  "graph \<Rightarrow> reachModel option \<Rightarrow> endpoint \<Rightarrow> (string \<Rightarrow> string list) \<Rightarrow> string list \<times> nat" where
  "reachHosts g net ep aliveHosts =
     (if ep_BindScope ep \<in> {BindClusterIP, BindNodePort, BindIngress} then
        (case map_of (g_ServiceClusterAssetID g) (ep_ServiceID ep) of
           Some c \<Rightarrow>
             if c \<noteq> [] then
               (filter (\<lambda>n. net = None \<or> \<not> isolated net n PlaneData)
                  (get_or [] (map_of (g_ClusterNodes g)) c), 0)
             else (aliveHosts (ep_ServiceID ep), 1)
         | None \<Rightarrow> (aliveHosts (ep_ServiceID ep), 1))
      else (aliveHosts (ep_ServiceID ep), 0))"

text \<open>Pod-to-pod inside one cluster: the provider is a cluster address of the consumer's cluster.\<close>

definition same_cluster :: "graph \<Rightarrow> dependency \<Rightarrow> endpoint \<Rightarrow> bool" where
  "same_cluster g dep pep \<longleftrightarrow> ep_BindScope pep = BindClusterIP \<and>
     (case map_of (g_ServiceClusterAssetID g) (ep_ServiceID pep) of
        Some pc \<Rightarrow> pc \<noteq> [] \<and> map_of (g_ServiceClusterAssetID g) (dep_ConsumerServiceID dep) = Some pc
      | None \<Rightarrow> False)"

text \<open>The verdict for one edge; \<open>None\<close> where the loop continues without an entry.\<close>

definition dep_reach ::
  "graph \<Rightarrow> reachModel option \<Rightarrow> (string \<Rightarrow> string list) \<Rightarrow> dependency \<Rightarrow> (reachLevel \<times> nat) option" where
  "dep_reach g net aliveHosts dep =
     (if dep_Lifecycle dep = LifecycleRetired then None
      else case providerEndpointForDep g dep of
        None \<Rightarrow> None
      | Some pep \<Rightarrow>
          if isLocalBind (ep_BindScope pep) then Some (reachOK, 0)
          else if same_cluster g dep pep then Some (reachOK, 0)
          else if net = None then Some (reachOK, 0)
          else
            let consumers = dedupeStrings (aliveHosts (dep_ConsumerServiceID dep)) in
            if consumers = [] then Some (reachUnknown, 0)
            else
              let (hosts, unresolved) = reachHosts g net pep aliveHosts;
                  providers = dedupeStrings hosts in
              if providers = [] then Some (reachUnknown, unresolved)
              else Some (aggregateReach net consumers providers, unresolved))"

fun dep_reach_loop ::
  "graph \<Rightarrow> reachModel option \<Rightarrow> (string \<Rightarrow> string list) \<Rightarrow> dependency list
   \<Rightarrow> reachLevel gomap \<times> nat \<Rightarrow> reachLevel gomap \<times> nat" where
  "dep_reach_loop g net aliveHosts [] acc = acc"
| "dep_reach_loop g net aliveHosts (dep # deps) (out, unresolved) =
     dep_reach_loop g net aliveHosts deps
       (case dep_reach g net aliveHosts dep of
          None \<Rightarrow> (out, unresolved)
        | Some (lvl, n) \<Rightarrow> ((dep_ID dep, lvl) # out, unresolved + n))"

definition computeDepReach ::
  "graph \<Rightarrow> reachModel option \<Rightarrow> (string \<Rightarrow> string list) \<Rightarrow> reachCoverage
   \<Rightarrow> reachLevel gomap \<times> reachCoverage" where
  "computeDepReach g net aliveHosts coverage =
     (let (out, n) = dep_reach_loop g net aliveHosts (g_Deps g) ([], 0) in
      (out, coverage\<lparr>cov_ClusterUnresolved := cov_ClusterUnresolved coverage + n\<rparr>))"

definition member_reach ::
  "graph \<Rightarrow> reachModel option \<Rightarrow> (string \<Rightarrow> string list) \<Rightarrow> string list \<Rightarrow> string \<Rightarrow> string
   \<Rightarrow> reachLevel gomap" where
  "member_reach g net aliveHosts frontHosts routeID endpointID =
     (case find_endpoint g endpointID of
        None \<Rightarrow> []
      | Some mep \<Rightarrow>
          if isLocalBind (ep_BindScope mep) then []
          else
            let memberHosts = dedupeStrings (fst (reachHosts g net mep aliveHosts)) in
            if memberHosts = [] then []
            else [(routeID @ ''/'' @ endpointID, aggregateReach net frontHosts memberHosts)])"

definition computeRouteMemberReach ::
  "graph \<Rightarrow> reachModel option \<Rightarrow> (string \<Rightarrow> string list) \<Rightarrow> reachLevel gomap" where
  "computeRouteMemberReach g net aliveHosts =
     (if net = None then []
      else concat (map (\<lambda>(routeID, r).
        (case find_endpoint g (route_FrontendEndpointID r) of
           None \<Rightarrow> []
         | Some fep \<Rightarrow>
             if isLocalBind (ep_BindScope fep) then []
             else
               let frontHosts = dedupeStrings (aliveHosts (ep_ServiceID fep)) in
               if frontHosts = [] then []
               else concat (map (member_reach g net aliveHosts frontHosts routeID)
                      (pool_members g (route_BackendPoolID r))))) (g_Routes g)))"

section \<open>Seam 3: anchors and exposure\<close>

definition matchingAnchors :: "netGraph \<Rightarrow> endpoint \<Rightarrow> netAnchorInfo list" where
  "matchingAnchors net ep =
     filter (\<lambda>a. anc_Scope a = ep_Exposure ep
        \<and> \<not> (anc_Scope a = ''environment''
             \<and> (case anc_EnvironmentID a of
                  Some e \<Rightarrow> e \<noteq> [] \<and> e \<noteq> ep_ServiceEnvID ep | None \<Rightarrow> False)))
       (net_Anchors net)"

fun fold_anchors ::
  "reachModel option \<Rightarrow> (string \<times> netAnchorInfo) list \<Rightarrow> status \<times> string \<times> bool
   \<Rightarrow> status \<times> string \<times> bool" where
  "fold_anchors net [] acc = acc"
| "fold_anchors net ((h, a) # rest) (best, blocking, known) =
     fold_anchors net rest
       (case reachGroup net h (anc_GroupID a) PlaneData of
          None \<Rightarrow> (best, blocking, known)
        | Some s \<Rightarrow>
            (if \<not> known then s else Better best s,
             if s \<noteq> StatusOK \<and> blocking = [] then groupCode net (anc_GroupID a) else blocking,
             True))"

definition betterFoldAnchors ::
  "reachModel option \<Rightarrow> string list \<Rightarrow> netAnchorInfo list \<Rightarrow> status \<times> string \<times> bool" where
  "betterFoldAnchors net hosts anchors =
     fold_anchors net (List.product hosts anchors) (StatusDown, [], False)"

text \<open>Endpoints the exposure channel looks at: not local, and exposed beyond the service.\<close>

definition exposed :: "endpoint \<Rightarrow> bool" where
  "exposed ep \<longleftrightarrow> \<not> (isLocalBind (ep_BindScope ep) \<or> ep_Exposure ep = ''internal'' \<or> ep_Exposure ep = [])"

fun unreachable_loop ::
  "graph \<Rightarrow> reachModel \<Rightarrow> (string \<Rightarrow> string list) \<Rightarrow> (string \<Rightarrow> status option) \<Rightarrow> string list
   \<Rightarrow> endpointReach list \<times> reachCoverage \<Rightarrow> endpointReach list \<times> reachCoverage" where
  "unreachable_loop g m aliveHosts statuses [] acc = acc"
| "unreachable_loop g m aliveHosts statuses (i # ids) (out, cov) =
     unreachable_loop g m aliveHosts statuses ids
       (case find_endpoint g i of
          None \<Rightarrow> (out, cov)
        | Some ep \<Rightarrow>
            if \<not> exposed ep then (out, cov)
            else case find_service g (ep_ServiceID ep) of
              None \<Rightarrow> (out, cov)
            | Some svc \<Rightarrow>
                if get_or StatusZero statuses (ep_ServiceID ep) = StatusDown then (out, cov)
                else
                  let anchors = matchingAnchors (rm_net m) ep in
                  if anchors = [] then
                    (out, cov\<lparr>cov_NoAnchorForScope := (cov_NoAnchorForScope cov)
                       (ep_Exposure ep := Suc (cov_NoAnchorForScope cov (ep_Exposure ep)))\<rparr>)
                  else
                    let hosts = dedupeStrings (aliveHosts (ep_ServiceID ep)) in
                    if hosts = [] then (out, cov)
                    else
                      let (r, blocking, known) = betterFoldAnchors (Some m) hosts anchors in
                      if \<not> known \<or> r = StatusOK then (out, cov)
                      else (out @ [\<lparr>er_ServiceID = ep_ServiceID ep, er_Code = svc_Code svc,
                              er_Name = svc_Name svc, er_EndpointID = ep_ID ep,
                              er_EndpointName = ep_Name ep, er_Scope = ep_Exposure ep,
                              er_Status = r, er_BlockingGroup = blocking\<rparr>], cov))"

definition endpoint_reach_less :: "endpointReach \<Rightarrow> endpointReach \<Rightarrow> bool" where
  "endpoint_reach_less a b =
     (if er_Code a \<noteq> er_Code b then er_Code a < er_Code b else er_EndpointName a < er_EndpointName b)"

definition computeUnreachable ::
  "graph \<Rightarrow> reachModel option \<Rightarrow> (string \<Rightarrow> string list) \<Rightarrow> (string \<Rightarrow> status option) \<Rightarrow> reachCoverage
   \<Rightarrow> endpointReach list \<times> reachCoverage" where
  "computeUnreachable g net aliveHosts statuses coverage =
     (case net of None \<Rightarrow> ([], coverage)
      | Some m \<Rightarrow>
          let (out, cov) = unreachable_loop g m aliveHosts statuses
                (go_sort (<) (keys (g_Endpoints g))) ([], coverage)
          in (go_sort endpoint_reach_less out, cov))"

definition exposure_reason :: "endpointReach \<Rightarrow> string" where
  "exposure_reason u =
     er_EndpointName u @ '' requires a '' @ er_Scope u @ '' anchor; the only path runs through ''
     @ (if er_BlockingGroup u = [] then ''an unresolved forwarder'' else er_BlockingGroup u)"

definition nonLocalCount :: "graph \<Rightarrow> string \<Rightarrow> nat" where
  "nonLocalCount g sid = length (filter exposed (endpoints_of g sid))"

definition unreachableCount :: "endpointReach list \<Rightarrow> string \<Rightarrow> nat" where
  "unreachableCount us sid = length (filter (\<lambda>u. er_ServiceID u = sid) us)"

fun worst_of :: "endpointReach list \<Rightarrow> string \<Rightarrow> status option \<Rightarrow> status option" where
  "worst_of [] sid acc = acc"
| "worst_of (u # us) sid acc =
     worst_of us sid (if er_ServiceID u \<noteq> sid then acc
       else (case acc of Some cur \<Rightarrow> Some (Worse cur (er_Status u)) | None \<Rightarrow> Some (er_Status u)))"

definition exposure_reason_of :: "endpointReach list \<Rightarrow> string \<Rightarrow> string" where
  "exposure_reason_of us sid =
     (case filter (\<lambda>u. er_ServiceID u = sid) us of [] \<Rightarrow> [] | u # _ \<Rightarrow> exposure_reason u)"

definition computeExposureImpacts ::
  "graph \<Rightarrow> endpointReach list \<Rightarrow> string list \<Rightarrow> serviceImpact list" where
  "computeExposureImpacts g us existing =
     (if us = [] then []
      else
        let nonLocal = dedup [] (map ep_ServiceID (filter exposed (map snd (g_Endpoints g))));
            ids = go_sort (<) (filter (\<lambda>sid. nonLocalCount g sid > 0
                     \<and> unreachableCount us sid = nonLocalCount g sid
                     \<and> \<not> List.member existing sid) nonLocal)
        in concat (map (\<lambda>sid.
             (case find_service g sid of
                None \<Rightarrow> []
              | Some svc \<Rightarrow>
                  [\<lparr>si_ServiceID = sid, si_Code = svc_Code svc, si_Name = svc_Name svc,
                    si_Tier = svc_Tier svc, si_Status = get_or StatusZero (\<lambda>k. worst_of us k None) sid,
                    si_Reason = exposure_reason_of us sid, si_LostInstances = 0,
                    si_TotalInstances = 0, si_Via = [], si_Cause = CauseExposure,
                    si_LostToIsolation = 0\<rparr>])) ids))"

end
