(* ===== verification/Iteration.thy ===== *)
theory Iteration
  imports Main
begin

text \<open>
  Round-based relaxation of edges over a linear order, as a library: what the fixed point of the
  impact engine relies on and nothing about services. An edge raises the value of its target to at
  least its effect; the effect is monotone in the values, of which some are read as they stood
  when the round began (\<open>r\<close>) and some as they are now (\<open>s\<close>).
\<close>

locale edge_iteration =
  fixes target :: "'e \<Rightarrow> 'k"
    and eff :: "'e \<Rightarrow> ('k \<Rightarrow> 'v::linorder) \<Rightarrow> ('k \<Rightarrow> 'v) \<Rightarrow> 'v"
  assumes eff_mono: "r \<le> r' \<Longrightarrow> s \<le> s' \<Longrightarrow> eff e r s \<le> eff e r' s'"
begin

definition relax :: "('k \<Rightarrow> 'v) \<Rightarrow> ('k \<Rightarrow> 'v) \<Rightarrow> 'e \<Rightarrow> ('k \<Rightarrow> 'v)" where
  "relax r s e = s(target e := max (s (target e)) (eff e r s))"

definition sweep :: "'e list \<Rightarrow> ('k \<Rightarrow> 'v) \<Rightarrow> ('k \<Rightarrow> 'v) \<Rightarrow> ('k \<Rightarrow> 'v)" where
  "sweep es r s = foldl (relax r) s es"

definition stable :: "'e set \<Rightarrow> ('k \<Rightarrow> 'v) \<Rightarrow> bool" where
  "stable E s \<longleftrightarrow> (\<forall>e\<in>E. eff e s s \<le> s (target e))"

lemma relax_ge: "s \<le> relax r s e"
  by (simp add: relax_def le_fun_def)

lemma sweep_ge: "s \<le> sweep es r s"
proof (induction es arbitrary: s)
  case (Cons e es)
  have "s \<le> relax r s e" by (rule relax_ge)
  also have "\<dots> \<le> sweep es r (relax r s e)" by (rule Cons.IH)
  finally show ?case by (simp add: sweep_def)
qed (simp add: sweep_def)

lemma relax_le:
  assumes "stable E t" "e \<in> E" "r \<le> t" "s \<le> t"
  shows "relax r s e \<le> t"
proof -
  have "eff e r s \<le> t (target e)"
    using assms eff_mono [of r t s t e] by (auto simp: stable_def)
  with assms(4) show ?thesis by (auto simp: relax_def le_fun_def)
qed

lemma sweep_le:
  "stable E t \<Longrightarrow> set es \<subseteq> E \<Longrightarrow> r \<le> t \<Longrightarrow> s \<le> t \<Longrightarrow> sweep es r s \<le> t"
proof (induction es arbitrary: s)
  case (Cons e es)
  then have "relax r s e \<le> t" by (intro relax_le) auto
  with Cons show ?case by (simp add: sweep_def)
qed (simp add: sweep_def)

text \<open>A round that changes nothing has reached a stable assignment.\<close>

lemma sweep_fixed:
  assumes "sweep es r s = s"
  shows "\<forall>e\<in>set es. eff e r s \<le> s (target e)"
  using assms
proof (induction es)
  case (Cons e es)
  have "relax r s e \<le> sweep es r (relax r s e)" by (rule sweep_ge)
  also have "\<dots> = s" using Cons.prems by (simp add: sweep_def)
  finally have fixed: "relax r s e = s"
    using relax_ge [of s r e] by (rule antisym)
  then have "max (s (target e)) (eff e r s) = s (target e)"
    by (metis relax_def fun_upd_same)
  with Cons fixed show ?case by (simp add: sweep_def max_def split: if_splits)
qed simp

lemma sweep_stable: "sweep es s s = s \<Longrightarrow> stable (set es) s"
  using sweep_fixed [of es s s] by (simp add: stable_def)

text \<open>Two least stable assignments above the same start agree, whatever the edge order was.\<close>

definition least_stable :: "'e set \<Rightarrow> ('k \<Rightarrow> 'v) \<Rightarrow> ('k \<Rightarrow> 'v) \<Rightarrow> bool" where
  "least_stable E s0 s \<longleftrightarrow> s0 \<le> s \<and> stable E s \<and> (\<forall>t. s0 \<le> t \<longrightarrow> stable E t \<longrightarrow> s \<le> t)"

lemma least_stable_unique: "least_stable E s0 s \<Longrightarrow> least_stable E s0 t \<Longrightarrow> s = t"
  by (auto simp: least_stable_def intro: antisym)

lemma least_stable_mono: "least_stable E s0 s \<Longrightarrow> least_stable E t0 t \<Longrightarrow> s0 \<le> t0 \<Longrightarrow> s \<le> t"
  by (meson least_stable_def order_trans)

end

end
