(* ===== verification/Propagation.thy ===== *)
theory Propagation
  imports Seams Iteration
begin

text \<open>
  The two phases of internal/impact/engine.go that decide statuses: \<open>phaseCapacity\<close>, which applies
  each service's availability policy to its surviving instances, and \<open>phasePropagate\<close>, which
  iterates the dependency edges until nothing changes or \<open>maxIterations\<close> rounds have run.
\<close>

section \<open>Phase 2: capacity\<close>

record capacity =
  cap_status :: status
  cap_lost :: nat
  cap_total :: nat
  cap_lostToIsolation :: nat
  cap_aliveHosts :: "string list"

definition inst_down_by_placement :: "string list \<Rightarrow> inst \<Rightarrow> bool" where
  "inst_down_by_placement downInstanceIDs i = List.member downInstanceIDs (inst_ID i)"

definition inst_alive ::
  "string list \<Rightarrow> reachModel option \<Rightarrow> (string \<Rightarrow> bool) \<Rightarrow> string \<Rightarrow> inst \<Rightarrow> bool" where
  "inst_alive downInstanceIDs net needsNet serviceID i \<longleftrightarrow>
     \<not> inst_down_by_placement downInstanceIDs i
     \<and> \<not> (needsNet serviceID \<and> isolated net (inst_HostAssetID i) PlaneData)"

definition service_capacity ::
  "graph \<Rightarrow> string list \<Rightarrow> reachModel option \<Rightarrow> (string \<Rightarrow> bool) \<Rightarrow> string \<Rightarrow> service \<Rightarrow> capacity" where
  "service_capacity g downInstanceIDs net needsNet serviceID svc =
     (let instances = filter (\<lambda>i. \<not> inst_Disabled i) (instances_of g serviceID);
          alive = inst_alive downInstanceIDs net needsNet serviceID;
          health = map (\<lambda>i. \<lparr>ih_ID = inst_ID i, ih_Role = inst_Role i, ih_Shard = inst_Shard i,
                             ih_Alive = alive i\<rparr>) instances
      in \<lparr>cap_status = EvaluateCapacity svc health,
          cap_lost = length (filter (\<lambda>i. \<not> alive i) instances),
          cap_total = length health,
          cap_lostToIsolation = length (filter (\<lambda>i. \<not> alive i
             \<and> \<not> inst_down_by_placement downInstanceIDs i) instances),
          cap_aliveHosts = map inst_HostAssetID (filter alive instances)\<rparr>)"

definition capacityReasonBase :: "service \<Rightarrow> status \<Rightarrow> nat \<Rightarrow> nat \<Rightarrow> string" where
  "capacityReasonBase svc status lost n =
     (let lost_of = ''lost '' @ itoa_nat lost @ '' of '' @ itoa_nat n @ '' instances'' in
      if svc_Availability svc = AvailQuorum then
        lost_of @ ''; quorum needs '' @ itoa_nat (n div 2 + 1)
      else if svc_Availability svc = AvailActivePassive then
        (if status = StatusDegraded then
           ''primary lost; a standby can take over but promotion is manual''
         else lost_of)
      else if svc_Availability svc = AvailActiveActive then
        itoa (int n - int lost) @ '' of '' @ itoa_nat n @ '' instances surviving; policy needs ''
        @ itoa (case svc_MinHealthy svc of Some m \<Rightarrow> m | None \<Rightarrow> 1)
      else if svc_Availability svc = AvailSharded then
        ''at least one shard has no surviving replica''
      else lost_of)"

definition capacityReason :: "service \<Rightarrow> status \<Rightarrow> nat \<Rightarrow> nat \<Rightarrow> nat \<Rightarrow> string" where
  "capacityReason svc status lost n lostToIsolation =
     (let base = capacityReasonBase svc status lost n in
      if lostToIsolation = 0 then base
      else if lostToIsolation = lost then
        base @ '' (running, but network-isolated -- not powered off)''
      else base @ '' ('' @ itoa_nat lostToIsolation @ '' of those network-isolated)'')"

text \<open>The six result maps of \<open>phaseCapacity\<close>, as one map of records and the reasons.\<close>

definition phaseCapacity ::
  "graph \<Rightarrow> string list \<Rightarrow> reachModel option \<Rightarrow> (string \<Rightarrow> bool) \<Rightarrow> capacity gomap" where
  "phaseCapacity g downInstanceIDs net needsNet =
     map (\<lambda>(serviceID, svc). (serviceID, service_capacity g downInstanceIDs net needsNet serviceID svc))
       (g_Services g)"

definition capacity_reasons :: "graph \<Rightarrow> capacity gomap \<Rightarrow> string \<Rightarrow> string option" where
  "capacity_reasons g caps serviceID =
     (case (find_service g serviceID, map_of caps serviceID) of
        (Some svc, Some c) \<Rightarrow>
          if cap_status c = StatusOK then None
          else Some (capacityReason svc (cap_status c) (cap_lost c) (cap_total c) (cap_lostToIsolation c))
      | _ \<Rightarrow> None)"

section \<open>Providers\<close>

fun tallyMember :: "status \<Rightarrow> nat \<times> nat \<Rightarrow> nat \<times> nat" where
  "tallyMember StatusDown (alive, degraded) = (alive, degraded)"
| "tallyMember StatusDegraded (alive, degraded) = (alive + 1, degraded + 1)"
| "tallyMember _ (alive, degraded) = (alive + 1, degraded)"

definition poolVerdict :: "nat \<times> nat \<Rightarrow> nat \<Rightarrow> status" where
  "poolVerdict tally members =
     (if fst tally = 0 then StatusDown
      else if fst tally < members \<or> snd tally > 0 then StatusDegraded
      else StatusOK)"

text \<open>A reach level applied to a provider's own status.\<close>

fun downgrade :: "reachLevel \<Rightarrow> status \<Rightarrow> status" where
  "downgrade reachDown s = StatusDown"
| "downgrade reachDegraded s = Worse s StatusDegraded"
| "downgrade _ s = s"

record routeHealth =
  rh_Status :: status
  rh_Bare :: status

text \<open>Members whose endpoint or service is not in the graph are dropped from the arithmetic.\<close>

definition live_members :: "graph \<Rightarrow> route \<Rightarrow> string list" where
  "live_members g r =
     filter (\<lambda>e. case find_endpoint g e of
          None \<Rightarrow> False | Some ep \<Rightarrow> find_service g (ep_ServiceID ep) \<noteq> None)
       (pool_members g (route_BackendPoolID r))"

definition member_status :: "graph \<Rightarrow> (string \<Rightarrow> status) \<Rightarrow> string \<Rightarrow> status" where
  "member_status g sv e =
     (case find_endpoint g e of Some ep \<Rightarrow> sv (ep_ServiceID ep) | None \<Rightarrow> StatusZero)"

definition pool_status :: "status list \<Rightarrow> status" where
  "pool_status ms =
     (if ms = [] then StatusOK
      else poolVerdict (foldl (\<lambda>t m. tallyMember m t) (0, 0) ms) (length ms))"

definition route_health ::
  "graph \<Rightarrow> (string \<Rightarrow> status) \<Rightarrow> (string \<Rightarrow> reachLevel) \<Rightarrow> route \<Rightarrow> routeHealth" where
  "route_health g sv routeMemberReach r =
     (let frontend = (case find_endpoint g (route_FrontendEndpointID r) of
                        Some ep \<Rightarrow> sv (ep_ServiceID ep) | None \<Rightarrow> StatusOK);
          members = live_members g r;
          own = map (member_status g sv) members;
          seen = map (\<lambda>e. downgrade (routeMemberReach (route_ID r @ ''/'' @ e)) (member_status g sv e))
                   members
      in \<lparr>rh_Status = Worse frontend (pool_status seen), rh_Bare = Worse frontend (pool_status own)\<rparr>)"

definition routeStatuses ::
  "graph \<Rightarrow> (string \<Rightarrow> status) \<Rightarrow> (string \<Rightarrow> reachLevel) \<Rightarrow> routeHealth gomap" where
  "routeStatuses g sv routeMemberReach =
     map (\<lambda>(i, r). (i, route_health g sv routeMemberReach r)) (g_Routes g)"

text \<open>The provider's status as the consumer sees it, with no network effect, and its name.\<close>

definition providerHealth ::
  "graph \<Rightarrow> dependency \<Rightarrow> (string \<Rightarrow> status) \<Rightarrow> (string \<Rightarrow> routeHealth option)
   \<Rightarrow> (status \<times> status \<times> string) option" where
  "providerHealth g dep sv routeStatus =
     (case dep_ProviderEndpointID dep of
        Some e \<Rightarrow>
          (case find_endpoint g e of
             None \<Rightarrow> None
           | Some ep \<Rightarrow>
               (case find_service g (ep_ServiceID ep) of
                  None \<Rightarrow> None
                | Some svc \<Rightarrow>
                    (let own = sv (ep_ServiceID ep) in Some (own, own, svc_Code svc @ ''/'' @ ep_Name ep))))
      | None \<Rightarrow>
          (case dep_ProviderRouteID dep of
             None \<Rightarrow> None
           | Some rid \<Rightarrow>
               (case find_route g rid of
                  None \<Rightarrow> None
                | Some r \<Rightarrow>
                    (let rh = get_or \<lparr>rh_Status = StatusZero, rh_Bare = StatusZero\<rparr> routeStatus (route_ID r)
                     in Some (rh_Status rh, rh_Bare rh, ''route '' @ route_Name r)))))"

definition propagationReason :: "dependency \<Rightarrow> status \<Rightarrow> string \<Rightarrow> reachLevel \<Rightarrow> string" where
  "propagationReason dep providerStatus providerName netEffect =
     (let state = (case netEffect of
            reachDown \<Rightarrow> ''unreachable''
          | reachDegraded \<Rightarrow> ''reachable only over a degraded path''
          | _ \<Rightarrow> status_text providerStatus) in
      if dep_Nature dep = NatureHard then
        ''hard dependency on '' @ providerName @ '' is '' @ state
      else if dep_Nature dep = NatureSoft then
        ''soft dependency on '' @ providerName @ '' is '' @ state @ ''; degraded but still serving''
      else if dep_Nature dep = NatureAsync then
        (if netEffect = reachDown then
           ''async dependency on '' @ providerName
           @ '' has been unreachable for longer than its tolerance window''
         else
           ''async dependency on '' @ providerName
           @ '' is down for longer than its tolerance window'')
      else ''dependency on '' @ providerName @ '' is '' @ state)"

section \<open>Phase 3: propagation\<close>

definition maxIterations :: nat where
  "maxIterations = 20"

record startupFault =
  flt_Via :: string
  flt_Reason :: string
  flt_NetEffect :: reachLevel

record pstate =
  ps_statuses :: "string \<Rightarrow> status option"
  ps_reasons :: "string \<Rightarrow> string option"
  ps_via :: "string \<Rightarrow> string option"
  ps_viaPartition :: "string \<Rightarrow> bool option"
  ps_wontRestart :: "string \<Rightarrow> startupFault option"

abbreviation status_in :: "(string \<Rightarrow> status option) \<Rightarrow> string \<Rightarrow> status" where
  "status_in statuses \<equiv> get_or StatusZero statuses"

definition net_effect :: "status \<Rightarrow> status \<Rightarrow> reachLevel" where
  "net_effect providerStatus ownStatus =
     (if providerStatus \<noteq> ownStatus then
        (if providerStatus = StatusDown then reachDown else reachDegraded)
      else reachUnknown)"

definition startup_reason :: "string \<Rightarrow> reachLevel \<Rightarrow> string" where
  "startup_reason providerName netEffect =
     ''startup dependency on '' @ providerName
     @ (if netEffect \<noteq> reachUnknown then '' is unreachable from here'' else '' is unmet'')
     @ '': running now, will not come back after a restart''"

text \<open>The body of the inner loop for one edge; the flag is \<open>changed\<close>.\<close>

definition edge_step ::
  "graph \<Rightarrow> int \<Rightarrow> (string \<Rightarrow> reachLevel) \<Rightarrow> (string \<Rightarrow> routeHealth option)
   \<Rightarrow> pstate \<times> bool \<Rightarrow> dependency \<Rightarrow> pstate \<times> bool" where
  "edge_step g window reachOfDep routeStatus sc dep =
     (let (st, changed) = sc; c = dep_ConsumerServiceID dep in
      if dep_Lifecycle dep = LifecycleRetired then (st, changed)
      else case ps_statuses st c of
        None \<Rightarrow> (st, changed)
      | Some consumer \<Rightarrow>
          (case providerHealth g dep (status_in (ps_statuses st)) routeStatus of
             None \<Rightarrow> (st, changed)
           | Some (seen, ownStatus, providerName) \<Rightarrow>
               let providerStatus = downgrade (reachOfDep (dep_ID dep)) seen;
                   netEffect = net_effect providerStatus ownStatus;
                   effect = Propagate dep providerStatus window;
                   (st1, changed1) =
                     (if pr_WontRestart effect \<and> ps_wontRestart st c = None
                      then (st\<lparr>ps_wontRestart := (ps_wontRestart st)(c \<mapsto>
                              \<lparr>flt_Via = providerName, flt_Reason = startup_reason providerName netEffect,
                               flt_NetEffect = netEffect\<rparr>)\<rparr>, True)
                      else (st, changed));
                   merged = Worse consumer (pr_Status effect)
               in if merged \<noteq> consumer
                  then (st1\<lparr>ps_statuses := (ps_statuses st1)(c \<mapsto> merged),
                            ps_via := (ps_via st1)(c \<mapsto> providerName),
                            ps_viaPartition := (ps_viaPartition st1)(c \<mapsto> netEffect \<noteq> reachUnknown),
                            ps_reasons := (ps_reasons st1)(c \<mapsto>
                              propagationReason dep providerStatus providerName netEffect)\<rparr>, True)
                  else (st1, changed1)))"

definition propagate_round ::
  "graph \<Rightarrow> int \<Rightarrow> (string \<Rightarrow> reachLevel) \<Rightarrow> (string \<Rightarrow> reachLevel) \<Rightarrow> pstate \<Rightarrow> pstate \<times> bool" where
  "propagate_round g window reachOfDep routeMemberReach st =
     foldl (edge_step g window reachOfDep
              (map_of (routeStatuses g (status_in (ps_statuses st)) routeMemberReach)))
       (st, False) (g_Deps g)"

text \<open>
  The outer loop: at most \<open>n\<close> more rounds, the next one numbered \<open>it\<close>. A round that changes
  nothing returns its number; running out of rounds returns \<open>maxIterations\<close>.
\<close>

fun propagate_loop ::
  "graph \<Rightarrow> int \<Rightarrow> (string \<Rightarrow> reachLevel) \<Rightarrow> (string \<Rightarrow> reachLevel) \<Rightarrow> nat \<Rightarrow> nat \<Rightarrow> pstate
   \<Rightarrow> pstate \<times> nat" where
  "propagate_loop g window rd rm 0 it st = (st, maxIterations)"
| "propagate_loop g window rd rm (Suc n) it st =
     (let (st', changed) = propagate_round g window rd rm st in
      if \<not> changed then (st', it) else propagate_loop g window rd rm n (Suc it) st')"

definition phasePropagate ::
  "graph \<Rightarrow> int \<Rightarrow> (string \<Rightarrow> status option) \<Rightarrow> (string \<Rightarrow> string option)
   \<Rightarrow> (string \<Rightarrow> reachLevel) \<Rightarrow> (string \<Rightarrow> reachLevel) \<Rightarrow> pstate \<times> nat" where
  "phasePropagate g window statuses reasons reachOfDep routeMemberReach =
     propagate_loop g window reachOfDep routeMemberReach maxIterations 1
       \<lparr>ps_statuses = statuses, ps_reasons = reasons, ps_via = Map.empty,
        ps_viaPartition = Map.empty, ps_wontRestart = Map.empty\<rparr>"

end
