(* ===== verification/Fixpoint.thy ===== *)
theory Fixpoint
  imports Propagation
begin

text \<open>
  What \<open>phasePropagate\<close> computes. The abstract specification is the least assignment of statuses
  that is at least as severe as the capacity phase left it and that no dependency edge can worsen;
  the loop of the engine refines the generic edge relaxation of theory Iteration, so whenever it
  stops because a round changed nothing it has computed exactly that assignment.
\<close>

section \<open>Providers are monotone in the services they stand for\<close>

lemma tally_counts:
  "foldl (\<lambda>t m. tallyMember m t) (a, d) ms =
     (a + length (filter (\<lambda>m. m \<noteq> StatusDown) ms), d + length (filter (\<lambda>m. m = StatusDegraded) ms))"
proof (induction ms arbitrary: a d)
  case (Cons m ms)
  then show ?case by (cases m) auto
qed simp

text \<open>
  The pool arithmetic without counters: down when no member serves, degraded when some member is
  impaired, ok otherwise.
\<close>

lemma pool_status_iff:
  "pool_status ms =
     (if ms \<noteq> [] \<and> (\<forall>m\<in>set ms. m = StatusDown) then StatusDown
      else if \<exists>m\<in>set ms. m = StatusDown \<or> m = StatusDegraded then StatusDegraded
      else StatusOK)"
proof (cases "ms = []")
  case False
  have "length (filter (\<lambda>m. m \<noteq> StatusDown) ms) < length ms \<longleftrightarrow> StatusDown \<in> set ms"
    using length_filter_less [of StatusDown ms] filter_True [of ms "\<lambda>m. m \<noteq> StatusDown"]
    by (metis (mono_tags, lifting) less_irrefl)
  then show ?thesis
    using False by (auto simp: pool_status_def poolVerdict_def tally_counts filter_empty_conv)
qed (simp add: pool_status_def)

lemma pool_status_proper [simp]: "pool_status ms \<noteq> StatusZero"
  by (simp add: pool_status_iff)

lemma pool_status_mono:
  assumes "\<And>x. x \<in> set xs \<Longrightarrow> f x \<le> h x"
  shows "pool_status (map f xs) \<le> pool_status (map h xs)"
proof -
  have down: "h x = StatusDown" if "x \<in> set xs" "f x = StatusDown" for x
    using assms [OF that(1)] that(2) by simp
  have degraded: "h x = StatusDown \<or> h x = StatusDegraded"
    if "x \<in> set xs" "f x = StatusDown \<or> f x = StatusDegraded" for x
    using assms [OF that(1)] that(2) by (cases "h x") (auto simp: less_eq_status_def)
  show ?thesis
    using down degraded by (auto simp: pool_status_iff less_eq_status_def)
qed

lemma downgrade_mono: "s \<le> t \<Longrightarrow> downgrade l s \<le> downgrade l t"
  by (cases l) (auto simp: Worse_max max.coboundedI1 intro: max.mono)

lemma downgrade_ge: "s \<le> downgrade l s"
  by (cases l) (auto simp: Worse_max)

lemma member_status_mono: "s \<le> t \<Longrightarrow> member_status g s e \<le> member_status g t e"
  by (auto simp: member_status_def le_fun_def split: option.splits)

lemma route_health_mono:
  assumes "s \<le> t"
  shows "rh_Status (route_health g s rm r) \<le> rh_Status (route_health g t rm r)"
proof -
  let ?front = "\<lambda>sv. case find_endpoint g (route_FrontendEndpointID r) of
                       Some ep \<Rightarrow> sv (ep_ServiceID ep) | None \<Rightarrow> StatusOK"
  let ?seen = "\<lambda>sv e. downgrade (rm (route_ID r @ ''/'' @ e)) (member_status g sv e)"
  have "?front s \<le> ?front t"
    using assms by (auto simp: le_fun_def split: option.splits)
  moreover have "pool_status (map (?seen s) (live_members g r)) \<le> pool_status (map (?seen t) (live_members g r))"
    by (intro pool_status_mono downgrade_mono member_status_mono assms)
  ultimately have "max (?front s) (pool_status (map (?seen s) (live_members g r)))
      \<le> max (?front t) (pool_status (map (?seen t) (live_members g r)))"
    by (rule max.mono)
  then show ?thesis
    unfolding route_health_def Let_def by (simp only: routeHealth.simps Worse_max pool_status_proper not_False_eq_True)
qed

section \<open>The effect of one edge\<close>

text \<open>
  What a consumer sees of a dependency's provider when route healths were derived from \<open>r\<close> and
  service statuses stand at \<open>s\<close>; \<open>None\<close> when the provider cannot be resolved.
\<close>

definition provider_seen ::
  "graph \<Rightarrow> (string \<Rightarrow> reachLevel) \<Rightarrow> (string \<Rightarrow> reachLevel) \<Rightarrow> dependency
   \<Rightarrow> (string \<Rightarrow> status) \<Rightarrow> (string \<Rightarrow> status) \<Rightarrow> status option" where
  "provider_seen g rd rm d r s =
     map_option (\<lambda>(seen, _, _). downgrade (rd (dep_ID d)) seen)
       (providerHealth g d s (map_of (routeStatuses g r rm)))"

text \<open>The status an edge asks for at its consumer; \<open>D\<close> is the set of services with a status.\<close>

definition edge_effect ::
  "graph \<Rightarrow> int \<Rightarrow> (string \<Rightarrow> reachLevel) \<Rightarrow> (string \<Rightarrow> reachLevel) \<Rightarrow> string set \<Rightarrow> dependency
   \<Rightarrow> (string \<Rightarrow> status) \<Rightarrow> (string \<Rightarrow> status) \<Rightarrow> status" where
  "edge_effect g window rd rm D d r s =
     (if dep_Lifecycle d = LifecycleRetired \<or> dep_ConsumerServiceID d \<notin> D then StatusOK
      else case provider_seen g rd rm d r s of
        None \<Rightarrow> StatusOK
      | Some p \<Rightarrow> pr_Status (Propagate d p window))"

definition edge_blocks_restart ::
  "graph \<Rightarrow> int \<Rightarrow> (string \<Rightarrow> reachLevel) \<Rightarrow> (string \<Rightarrow> reachLevel) \<Rightarrow> string set \<Rightarrow> dependency
   \<Rightarrow> (string \<Rightarrow> status) \<Rightarrow> (string \<Rightarrow> status) \<Rightarrow> bool" where
  "edge_blocks_restart g window rd rm D d r s \<longleftrightarrow>
     dep_Lifecycle d \<noteq> LifecycleRetired \<and> dep_ConsumerServiceID d \<in> D
     \<and> (case provider_seen g rd rm d r s of
          None \<Rightarrow> False | Some p \<Rightarrow> pr_WontRestart (Propagate d p window))"

lemma provider_seen_cases:
  "provider_seen g rd rm d r s = None \<and> (\<forall>r' s'. provider_seen g rd rm d r' s' = None)
   \<or> (\<exists>ep. find_endpoint g (the (dep_ProviderEndpointID d)) = Some ep
        \<and> (\<forall>r' s'. provider_seen g rd rm d r' s' = Some (downgrade (rd (dep_ID d)) (s' (ep_ServiceID ep)))))
   \<or> (\<exists>f. (\<forall>r' s'. r' \<le> s' \<longrightarrow> f r' \<le> f s')
        \<and> (\<forall>r' s'. provider_seen g rd rm d r' s' = Some (downgrade (rd (dep_ID d)) (f r'))))"
proof (cases "dep_ProviderEndpointID d")
  case (Some e)
  then show ?thesis
    by (auto simp: provider_seen_def providerHealth_def Let_def split: option.splits)
next
  case None
  let ?z = "\<lparr>rh_Status = StatusZero, rh_Bare = StatusZero\<rparr>"
  let ?f = "\<lambda>rt v. rh_Status (get_or ?z (map_of (routeStatuses g v rm)) (route_ID rt))"
  have mono: "?f rt v \<le> ?f rt w" if "v \<le> w" for rt and v w :: "string \<Rightarrow> status"
    using route_health_mono [OF that, of g rm]
    by (simp add: routeStatuses_def map_of_map_snd get_or_def split: option.splits)
  show ?thesis
  proof (cases "\<exists>rid rt. dep_ProviderRouteID d = Some rid \<and> find_route g rid = Some rt")
    case True
    then obtain rid rt where rt: "dep_ProviderRouteID d = Some rid" "find_route g rid = Some rt"
      by blast
    then have "\<forall>r' s'. provider_seen g rd rm d r' s' = Some (downgrade (rd (dep_ID d)) (?f rt r'))"
      using None by (simp add: provider_seen_def providerHealth_def Let_def)
    with mono have "\<exists>f. (\<forall>r' s'. r' \<le> s' \<longrightarrow> f r' \<le> f s')
        \<and> (\<forall>r' s'. provider_seen g rd rm d r' s' = Some (downgrade (rd (dep_ID d)) (f r')))"
      by (intro exI [of _ "?f rt"] conjI allI impI) (rule mono, assumption, blast)
    then show ?thesis by blast
  next
    case False
    then have "\<forall>r' s'. provider_seen g rd rm d r' s' = None"
      using None by (auto simp: provider_seen_def providerHealth_def Let_def split: option.splits)
    then show ?thesis by blast
  qed
qed

lemma provider_seen_mono:
  assumes "r \<le> r'" "s \<le> s'"
  shows "rel_option (\<le>) (provider_seen g rd rm d r s) (provider_seen g rd rm d r' s')"
  using provider_seen_cases [of g rd rm d r s] assms
  by (auto intro!: downgrade_mono simp: le_fun_def)

lemma edge_effect_mono:
  assumes "r \<le> r'" "s \<le> s'"
  shows "edge_effect g w rd rm D d r s \<le> edge_effect g w rd rm D d r' s'"
  using provider_seen_mono [OF assms, of g rd rm d] Propagate_mono
  by (cases "provider_seen g rd rm d r s"; cases "provider_seen g rd rm d r' s'")
     (auto simp: edge_effect_def)

lemma edge_blocks_restart_mono:
  assumes "r \<le> r'" "s \<le> s'" "edge_blocks_restart g w rd rm D d r s"
  shows "edge_blocks_restart g w rd rm D d r' s'"
  using provider_seen_mono [OF assms(1,2), of g rd rm d] assms(3) Propagate_restart_mono
  by (cases "provider_seen g rd rm d r s"; cases "provider_seen g rd rm d r' s'")
     (auto simp: edge_blocks_restart_def)

interpretation edges: edge_iteration dep_ConsumerServiceID "edge_effect g w rd rm D" for g w rd rm D
  by unfold_locales (rule edge_effect_mono)

section \<open>The specification\<close>

text \<open>
  An assignment no edge of the graph can worsen, and the least one above what the capacity phase
  found. \<open>D\<close> is the set of services that have a status.
\<close>

definition settled ::
  "graph \<Rightarrow> int \<Rightarrow> (string \<Rightarrow> reachLevel) \<Rightarrow> (string \<Rightarrow> reachLevel) \<Rightarrow> string set
   \<Rightarrow> (string \<Rightarrow> status) \<Rightarrow> bool" where
  "settled g window rd rm D s \<longleftrightarrow>
     (\<forall>d\<in>set (g_Deps g). edge_effect g window rd rm D d s s \<le> s (dep_ConsumerServiceID d))"

definition impact_spec ::
  "graph \<Rightarrow> int \<Rightarrow> (string \<Rightarrow> reachLevel) \<Rightarrow> (string \<Rightarrow> reachLevel) \<Rightarrow> string set
   \<Rightarrow> (string \<Rightarrow> status) \<Rightarrow> (string \<Rightarrow> status) \<Rightarrow> bool" where
  "impact_spec g window rd rm D s0 s \<longleftrightarrow>
     s0 \<le> s \<and> settled g window rd rm D s
     \<and> (\<forall>t. s0 \<le> t \<longrightarrow> settled g window rd rm D t \<longrightarrow> s \<le> t)"

lemma settled_iff: "settled g w rd rm D s \<longleftrightarrow> edges.stable g w rd rm D (set (g_Deps g)) s"
  by (simp add: settled_def edges.stable_def)

lemma impact_spec_iff:
  "impact_spec g w rd rm D s0 s \<longleftrightarrow> edges.least_stable g w rd rm D (set (g_Deps g)) s0 s"
  by (simp add: impact_spec_def edges.least_stable_def settled_iff)

definition provider_name :: "graph \<Rightarrow> dependency \<Rightarrow> string option" where
  "provider_name g d =
     map_option (\<lambda>(_, _, name). name) (providerHealth g d (\<lambda>_. StatusZero) Map.empty)"

lemma provider_name_of: "providerHealth g d sv rs = Some (seen, own, name) \<Longrightarrow> provider_name g d = Some name"
  by (auto simp: provider_name_def providerHealth_def Let_def split: option.splits)

section \<open>One edge refines one relaxation\<close>

abbreviation sv :: "pstate \<Rightarrow> string \<Rightarrow> status" where
  "sv st \<equiv> status_in (ps_statuses st)"

lemma edge_step_idle:
  assumes "dep_Lifecycle d = LifecycleRetired \<or> ps_statuses st (dep_ConsumerServiceID d) = None
    \<or> providerHealth g d (sv st) rs = None"
  shows "edge_step g w rd rs (st, ch) d = (st, ch)"
  using assms by (cases "ps_statuses st (dep_ConsumerServiceID d)") (auto simp: edge_step_def Let_def)

lemma edge_step_active:
  fixes g w rd rs st ch d
  assumes "dep_Lifecycle d \<noteq> LifecycleRetired" "ps_statuses st (dep_ConsumerServiceID d) = Some consumer"
    "providerHealth g d (sv st) rs = Some (seen, own, name)"
  defines "p \<equiv> downgrade (rd (dep_ID d)) seen"
    and "merged \<equiv> Worse consumer (pr_Status (Propagate d (downgrade (rd (dep_ID d)) seen) w))"
    and "st' \<equiv> fst (edge_step g w rd rs (st, ch) d)"
  shows "ps_statuses st' = (ps_statuses st)(dep_ConsumerServiceID d \<mapsto> merged)"
    and "dom (ps_wontRestart st') = dom (ps_wontRestart st)
           \<union> (if pr_WontRestart (Propagate d p w) then {dep_ConsumerServiceID d} else {})"
    and "ps_via st' = (if merged \<noteq> consumer then (ps_via st)(dep_ConsumerServiceID d \<mapsto> name) else ps_via st)"
    and "snd (edge_step g w rd rs (st, ch) d) \<longleftrightarrow> ch \<or> merged \<noteq> consumer
           \<or> pr_WontRestart (Propagate d p w) \<and> ps_wontRestart st (dep_ConsumerServiceID d) = None"
    and "\<not> snd (edge_step g w rd rs (st, ch) d) \<Longrightarrow> st' = st"
  using assms by (auto simp: edge_step_def Let_def dom_def fun_upd_idem)

lemma edge_step_refines:
  fixes g w rd rm r st ch d
  assumes dom: "dom (ps_statuses st) = D"
  defines "st' \<equiv> fst (edge_step g w rd (map_of (routeStatuses g r rm)) (st, ch) d)"
    and "ch' \<equiv> snd (edge_step g w rd (map_of (routeStatuses g r rm)) (st, ch) d)"
  shows "sv st' = edges.relax g w rd rm D r (sv st) d" (is ?refine)
    and "dom (ps_statuses st') = D" (is ?dom)
    and "dom (ps_wontRestart st') = dom (ps_wontRestart st)
           \<union> (if edge_blocks_restart g w rd rm D d r (sv st) then {dep_ConsumerServiceID d} else {})" (is ?blocked)
    and "\<not> ch' \<Longrightarrow> \<not> ch \<and> st' = st" (is "\<not> ch' \<Longrightarrow> ?same")
    and "ch' \<longleftrightarrow> ch \<or> sv st' \<noteq> sv st \<or> dom (ps_wontRestart st') \<noteq> dom (ps_wontRestart st)" (is ?changed)
    and "ps_via st' = ps_via st \<and> sv st' = sv st
         \<or> dep_ConsumerServiceID d \<in> D
           \<and> (\<exists>n. provider_name g d = Some n \<and> ps_via st' = (ps_via st)(dep_ConsumerServiceID d \<mapsto> n))
           \<and> sv st' = (sv st)(dep_ConsumerServiceID d := edge_effect g w rd rm D d r (sv st))" (is ?via)
proof -
  let ?rs = "map_of (routeStatuses g r rm)" and ?c = "dep_ConsumerServiceID d"
  have "?refine \<and> ?dom \<and> ?blocked \<and> (\<not> ch' \<longrightarrow> ?same) \<and> ?changed \<and> ?via"
  proof (cases "dep_Lifecycle d = LifecycleRetired \<or> ps_statuses st ?c = None \<or> providerHealth g d (sv st) ?rs = None")
    case True
    then have st': "st' = st" "ch' = ch"
      using edge_step_idle [OF True, of w rd ch] by (simp_all add: st'_def ch'_def)
    have "edge_effect g w rd rm D d r (sv st) = StatusOK" "\<not> edge_blocks_restart g w rd rm D d r (sv st)"
      using True dom by (auto simp: edge_effect_def edge_blocks_restart_def provider_seen_def)
    then show ?thesis
      using dom by (simp add: st' edges.relax_def max.absorb1)
  next
    case False
    then obtain consumer seen own name
      where active: "dep_Lifecycle d \<noteq> LifecycleRetired" "ps_statuses st ?c = Some consumer"
        "providerHealth g d (sv st) ?rs = Some (seen, own, name)"
      by auto
    let ?p = "downgrade (rd (dep_ID d)) seen"
    have eff: "edge_effect g w rd rm D d r (sv st) = pr_Status (Propagate d ?p w)"
      and blocks: "edge_blocks_restart g w rd rm D d r (sv st) \<longleftrightarrow> pr_WontRestart (Propagate d ?p w)"
      using active dom by (auto simp: edge_effect_def edge_blocks_restart_def provider_seen_def)
    note step = edge_step_active [OF active, of w rd ch, folded st'_def ch'_def]
    have sv': "sv st' = (sv st)(?c := max consumer (pr_Status (Propagate d ?p w)))"
      by (simp add: step(1) get_or_upd Worse_max)
    have name: "provider_name g d = Some name" by (rule provider_name_of [OF active(3)])
    have "?refine"
      using active(2) by (simp add: edges.relax_def sv' eff)
    moreover have ?dom using dom active(2) by (auto simp: step(1))
    moreover have ?blocked by (simp add: step(2) blocks)
    moreover have "\<not> ch' \<longrightarrow> ?same" using step(4,5) by blast
    moreover have ?changed
      using active(2) by (auto simp: step(4) step(2) sv' Worse_max fun_upd_idem_iff)
    moreover have ?via
      using active(2) dom name
      by (auto simp: step(3) sv' eff Worse_max fun_upd_idem_iff max_def split: if_splits)
    ultimately show ?thesis by blast
  qed
  then show ?refine ?dom ?blocked "\<not> ch' \<Longrightarrow> ?same" ?changed ?via by blast+
qed

section \<open>A round refines a sweep\<close>

lemma edge_steps_sweep:
  assumes "dom (ps_statuses st) = D"
  shows "sv (fst (foldl (edge_step g w rd (map_of (routeStatuses g r rm))) (st, ch) ds))
           = edges.sweep g w rd rm D ds r (sv st)
       \<and> dom (ps_statuses (fst (foldl (edge_step g w rd (map_of (routeStatuses g r rm))) (st, ch) ds))) = D"
  using assms
proof (induction ds arbitrary: st ch)
  case (Cons d ds)
  let ?step = "edge_step g w rd (map_of (routeStatuses g r rm)) (st, ch) d"
  have "dom (ps_statuses (fst ?step)) = D" by (rule edge_step_refines(2) [OF Cons.prems])
  from Cons.IH [OF this, of "snd ?step"] show ?case
    by (simp add: edges.sweep_def edge_step_refines(1) [OF Cons.prems])
qed (simp add: edges.sweep_def)

lemma edge_steps_unchanged:
  assumes "dom (ps_statuses st) = D"
    and "\<not> snd (foldl (edge_step g w rd (map_of (routeStatuses g r rm))) (st, ch) ds)"
  shows "fst (foldl (edge_step g w rd (map_of (routeStatuses g r rm))) (st, ch) ds) = st \<and> \<not> ch
    \<and> (\<forall>d\<in>set ds. edge_blocks_restart g w rd rm D d r (sv st)
          \<longrightarrow> dep_ConsumerServiceID d \<in> dom (ps_wontRestart st))"
  using assms
proof (induction ds arbitrary: st ch)
  case (Cons d ds)
  let ?step = "edge_step g w rd (map_of (routeStatuses g r rm)) (st, ch) d"
  note refines = edge_step_refines [OF Cons.prems(1), of g w rd r rm ch d]
  have rest: "fst (foldl (edge_step g w rd (map_of (routeStatuses g r rm))) ?step ds) = fst ?step \<and> \<not> snd ?step
    \<and> (\<forall>d\<in>set ds. edge_blocks_restart g w rd rm D d r (sv (fst ?step))
          \<longrightarrow> dep_ConsumerServiceID d \<in> dom (ps_wontRestart (fst ?step)))"
    using Cons.IH [OF refines(2), of "snd ?step"] Cons.prems(2) by simp
  then have same: "fst ?step = st" "\<not> ch" using refines(4) by blast+
  have "edge_blocks_restart g w rd rm D d r (sv st) \<longrightarrow> dep_ConsumerServiceID d \<in> dom (ps_wontRestart st)"
    using refines(3) same(1) by auto
  with rest same show ?case by simp
qed simp

lemma round_sweep:
  assumes "dom (ps_statuses st) = D"
  shows "sv (fst (propagate_round g w rd rm st)) = edges.sweep g w rd rm D (g_Deps g) (sv st) (sv st)"
    and "dom (ps_statuses (fst (propagate_round g w rd rm st))) = D"
  using edge_steps_sweep [OF assms, of g w rd "sv st" rm False "g_Deps g"]
  by (simp_all add: propagate_round_def)

text \<open>
  A round that reports no change leaves the state alone, and the state is settled: no edge can
  worsen a status, and every startup edge with an unmet provider has been recorded.
\<close>

lemma round_unchanged:
  assumes "dom (ps_statuses st) = D" "\<not> snd (propagate_round g w rd rm st)"
  shows "fst (propagate_round g w rd rm st) = st"
    and "settled g w rd rm D (sv st)"
    and "\<forall>d\<in>set (g_Deps g). edge_blocks_restart g w rd rm D d (sv st) (sv st)
           \<longrightarrow> dep_ConsumerServiceID d \<in> dom (ps_wontRestart st)"
proof -
  note unchanged = edge_steps_unchanged [OF assms(1), of g w rd "sv st" rm False "g_Deps g",
      folded propagate_round_def]
  show same: "fst (propagate_round g w rd rm st) = st"
    and "\<forall>d\<in>set (g_Deps g). edge_blocks_restart g w rd rm D d (sv st) (sv st)
           \<longrightarrow> dep_ConsumerServiceID d \<in> dom (ps_wontRestart st)"
    using unchanged assms(2) by blast+
  show "settled g w rd rm D (sv st)"
    using edges.sweep_stable [of g w rd rm D "g_Deps g" "sv st"] round_sweep(1) [OF assms(1), of g w rd rm]
    by (simp add: same settled_iff)
qed

section \<open>The run invariant\<close>

text \<open>
  What holds of the state after any number of edge steps: it lies between the capacity statuses
  \<open>s0\<close> and every settled assignment above them, every recorded startup fault is justified by an
  edge, and a service that names a provider was brought to its status by an edge to it, while one
  that names none still has its capacity status.
\<close>

definition via_justified ::
  "graph \<Rightarrow> int \<Rightarrow> (string \<Rightarrow> reachLevel) \<Rightarrow> (string \<Rightarrow> reachLevel) \<Rightarrow> string set
   \<Rightarrow> (string \<Rightarrow> status) \<Rightarrow> (string \<Rightarrow> string option) \<Rightarrow> (string \<Rightarrow> status) \<Rightarrow> string \<Rightarrow> bool" where
  "via_justified g w rd rm D s0 via s c \<longleftrightarrow>
     (case via c of
        None \<Rightarrow> s c = s0 c
      | Some n \<Rightarrow> \<exists>d\<in>set (g_Deps g). dep_ConsumerServiceID d = c \<and> provider_name g d = Some n
          \<and> s c \<le> edge_effect g w rd rm D d s s)"

definition run_inv ::
  "graph \<Rightarrow> int \<Rightarrow> (string \<Rightarrow> reachLevel) \<Rightarrow> (string \<Rightarrow> reachLevel) \<Rightarrow> string set
   \<Rightarrow> (string \<Rightarrow> status) \<Rightarrow> pstate \<Rightarrow> bool" where
  "run_inv g w rd rm D s0 st \<longleftrightarrow>
     dom (ps_statuses st) = D \<and> s0 \<le> sv st
     \<and> (\<forall>t. s0 \<le> t \<longrightarrow> settled g w rd rm D t \<longrightarrow> sv st \<le> t)
     \<and> dom (ps_wontRestart st) \<subseteq> D
     \<and> (\<forall>c\<in>dom (ps_wontRestart st). \<exists>d\<in>set (g_Deps g). dep_ConsumerServiceID d = c
          \<and> edge_blocks_restart g w rd rm D d (sv st) (sv st))
     \<and> (\<forall>c. via_justified g w rd rm D s0 (ps_via st) (sv st) c)"

lemma via_justified_mono:
  assumes "via_justified g w rd rm D s0 via s c" "s \<le> s'" "via' c = via c" "s' c = s c"
  shows "via_justified g w rd rm D s0 via' s' c"
  using assms edge_effect_mono [OF assms(2,2), of g w rd rm D]
  unfolding via_justified_def by (auto split: option.splits intro: order_trans)

lemma edge_step_via:
  fixes ch :: bool
  assumes dom: "dom (ps_statuses st) = D" and r: "r \<le> sv st" and d: "d \<in> set (g_Deps g)"
    and old: "via_justified g w rd rm D s0 (ps_via st) (sv st) c"
  defines "st' \<equiv> fst (edge_step g w rd (map_of (routeStatuses g r rm)) (st, ch) d)"
  shows "via_justified g w rd rm D s0 (ps_via st') (sv st') c"
proof -
  note refines = edge_step_refines [OF dom, of g w rd r rm ch d, folded st'_def]
  have up: "sv st \<le> sv st'" unfolding refines(1) by (rule edges.relax_ge)
  with r have r': "r \<le> sv st'" by (rule order_trans)
  show ?thesis
  proof (cases "sv st' c = sv st c \<and> ps_via st' c = ps_via st c")
    case True
    then show ?thesis by (intro via_justified_mono [OF old up]) blast+
  next
    case False
    then have "\<not> (ps_via st' = ps_via st \<and> sv st' = sv st)" by auto
    with refines(6) obtain n where n: "provider_name g d = Some n"
      "ps_via st' = (ps_via st)(dep_ConsumerServiceID d \<mapsto> n)"
      "sv st' = (sv st)(dep_ConsumerServiceID d := edge_effect g w rd rm D d r (sv st))"
      by blast
    with False have c: "c = dep_ConsumerServiceID d" by (auto split: if_splits)
    have "sv st' c \<le> edge_effect g w rd rm D d (sv st') (sv st')"
      using edge_effect_mono [OF r' up, of g w rd rm D d] by (simp add: n(3) c)
    with n(1,2) c d show ?thesis by (auto simp: via_justified_def)
  qed
qed

lemma edge_step_inv:
  assumes inv: "run_inv g w rd rm D s0 st" and r: "r \<le> sv st" and d: "d \<in> set (g_Deps g)"
  shows "run_inv g w rd rm D s0 (fst (edge_step g w rd (map_of (routeStatuses g r rm)) (st, ch) d))"
proof -
  define st' where "st' = fst (edge_step g w rd (map_of (routeStatuses g r rm)) (st, ch) d)"
  have dom: "dom (ps_statuses st) = D" using inv by (simp add: run_inv_def)
  note refines = edge_step_refines [OF dom, of g w rd r rm ch d, folded st'_def]
  have up: "sv st \<le> sv st'" unfolding refines(1) by (rule edges.relax_ge)
  with r have r': "r \<le> sv st'" by (rule order_trans)
  have below: "sv st' \<le> t" if "s0 \<le> t" "settled g w rd rm D t" for t
  proof -
    have "sv st \<le> t" using inv that by (simp add: run_inv_def)
    with r that(2) d show ?thesis
      unfolding refines(1) settled_iff by (intro edges.relax_le) (auto intro: order_trans)
  qed
  have blocked: "\<exists>d\<in>set (g_Deps g). dep_ConsumerServiceID d = c \<and> edge_blocks_restart g w rd rm D d (sv st') (sv st')"
    if "c \<in> dom (ps_wontRestart st')" for c
  proof (cases "c \<in> dom (ps_wontRestart st)")
    case True
    with inv show ?thesis unfolding run_inv_def using edge_blocks_restart_mono [OF up up] by meson
  next
    case False
    with that refines(3) have "c = dep_ConsumerServiceID d" "edge_blocks_restart g w rd rm D d r (sv st)"
      by (auto split: if_splits)
    with d show ?thesis using edge_blocks_restart_mono [OF r' up] by blast
  qed
  have "s0 \<le> sv st'" using inv up by (auto simp: run_inv_def intro: order_trans)
  moreover have "dom (ps_wontRestart st') \<subseteq> D"
    using inv refines(3) by (auto simp: run_inv_def edge_blocks_restart_def split: if_splits)
  moreover have "via_justified g w rd rm D s0 (ps_via st') (sv st') c" for c
    unfolding st'_def using inv by (intro edge_step_via [OF dom r d]) (simp add: run_inv_def)
  ultimately show ?thesis
    using refines(2) below blocked unfolding run_inv_def st'_def [symmetric] by blast
qed

lemma edge_steps_inv:
  assumes "run_inv g w rd rm D s0 st" "r \<le> sv st" "set ds \<subseteq> set (g_Deps g)"
  shows "run_inv g w rd rm D s0 (fst (foldl (edge_step g w rd (map_of (routeStatuses g r rm))) (st, ch) ds))"
  using assms
proof (induction ds arbitrary: st ch)
  case (Cons d ds)
  let ?step = "edge_step g w rd (map_of (routeStatuses g r rm)) (st, ch) d"
  have dom: "dom (ps_statuses st) = D" using Cons.prems(1) by (simp add: run_inv_def)
  have "run_inv g w rd rm D s0 (fst ?step)" using Cons.prems by (intro edge_step_inv) auto
  moreover have "r \<le> sv (fst ?step)"
    using Cons.prems(2) edges.relax_ge [of "sv st" g w rd rm D r d]
    by (simp add: edge_step_refines(1) [OF dom] order_trans)
  ultimately show ?case using Cons.IH [of "fst ?step" "snd ?step"] Cons.prems(3) by simp
qed simp

lemma round_inv: "run_inv g w rd rm D s0 st \<Longrightarrow> run_inv g w rd rm D s0 (fst (propagate_round g w rd rm st))"
  unfolding propagate_round_def by (rule edge_steps_inv) auto

section \<open>Progress\<close>

text \<open>
  Every round that reports a change makes progress in a bounded measure: the ranks of the statuses
  plus the number of recorded startup faults, at most three per service.
\<close>

definition weight :: "string set \<Rightarrow> pstate \<Rightarrow> nat" where
  "weight D st = (\<Sum>c\<in>D. status_rank (sv st c)) + card (dom (ps_wontRestart st))"

lemma edge_effect_proper [simp]: "edge_effect g w rd rm D d r s \<noteq> StatusZero"
  by (auto simp: edge_effect_def split: option.splits)

lemma sweep_proper:
  "edges.sweep g w rd rm D ds r s c = s c \<or> edges.sweep g w rd rm D ds r s c \<noteq> StatusZero"
proof (induction ds arbitrary: s)
  case (Cons d ds)
  have "edges.relax g w rd rm D r s d c = s c \<or> edges.relax g w rd rm D r s d c \<noteq> StatusZero"
    by (simp add: edges.relax_def max_def)
  with Cons.IH [of "edges.relax g w rd rm D r s d"] show ?case
    by (auto simp: edges.sweep_def)
qed (simp add: edges.sweep_def)

lemma edge_steps_progress:
  fixes g w rd r rm
  assumes "dom (ps_statuses st) = D"
  defines "F \<equiv> \<lambda>st ch ds. foldl (edge_step g w rd (map_of (routeStatuses g r rm))) (st, ch) ds"
  shows "dom (ps_wontRestart st) \<subseteq> dom (ps_wontRestart (fst (F st ch ds)))
       \<and> (snd (F st ch ds) \<longrightarrow> ch \<or> sv (fst (F st ch ds)) \<noteq> sv st
            \<or> dom (ps_wontRestart (fst (F st ch ds))) \<noteq> dom (ps_wontRestart st))"
  using assms(1)
proof (induction ds arbitrary: st ch)
  case (Cons d ds)
  define step where "step = edge_step g w rd (map_of (routeStatuses g r rm)) (st, ch) d"
  define st' where "st' = fst (F (fst step) (snd step) ds)"
  note refines = edge_step_refines [OF Cons.prems, of g w rd r rm ch d, folded step_def]
  have F: "F st ch (d # ds) = F (fst step) (snd step) ds" by (simp add: F_def step_def)
  have up1: "sv st \<le> sv (fst step)" unfolding refines(1) by (rule edges.relax_ge)
  have up2: "sv (fst step) \<le> sv st'"
    unfolding st'_def F_def edge_steps_sweep [OF refines(2), THEN conjunct1] by (rule edges.sweep_ge)
  have dom1: "dom (ps_wontRestart st) \<subseteq> dom (ps_wontRestart (fst step))"
    unfolding refines(3) by blast
  note IH = Cons.IH [OF refines(2), of "snd step", folded st'_def]
  have "sv (fst step) = sv st" if "sv st' = sv st" using up1 up2 that by (metis antisym)
  moreover have "dom (ps_wontRestart (fst step)) = dom (ps_wontRestart st)"
    if "dom (ps_wontRestart st') = dom (ps_wontRestart st)" using IH dom1 that by blast
  moreover have "snd step \<longleftrightarrow> ch \<or> sv (fst step) \<noteq> sv st
      \<or> dom (ps_wontRestart (fst step)) \<noteq> dom (ps_wontRestart st)"
    by (rule refines(5))
  ultimately have "snd (F (fst step) (snd step) ds) \<longrightarrow> ch \<or> sv st' \<noteq> sv st
      \<or> dom (ps_wontRestart st') \<noteq> dom (ps_wontRestart st)"
    using IH by metis
  then show ?case unfolding F st'_def [symmetric] using IH dom1 by blast
qed (simp add: F_def)

lemma round_progress:
  assumes "finite D" and inv: "run_inv g w rd rm D s0 st" and "snd (propagate_round g w rd rm st)"
  shows "weight D st < weight D (fst (propagate_round g w rd rm st))"
proof -
  define st' where "st' = fst (propagate_round g w rd rm st)"
  have dom: "dom (ps_statuses st) = D" using inv by (simp add: run_inv_def)
  have sw: "sv st' = edges.sweep g w rd rm D (g_Deps g) (sv st) (sv st)"
    unfolding st'_def by (rule round_sweep(1) [OF dom])
  have rank: "status_rank (sv st c) \<le> status_rank (sv st' c) \<and>
      (sv st' c \<noteq> sv st c \<longrightarrow> status_rank (sv st c) < status_rank (sv st' c))" for c
  proof -
    have "sv st c \<le> sv st' c" unfolding sw using edges.sweep_ge by (auto simp: le_fun_def)
    moreover have "sv st' c = sv st c \<or> sv st' c \<noteq> StatusZero" unfolding sw by (rule sweep_proper)
    ultimately show ?thesis by (cases "sv st c"; cases "sv st' c") (auto simp: less_eq_status_def)
  qed
  have "dom (ps_wontRestart st') \<subseteq> D"
    using round_inv [OF inv] by (simp add: st'_def run_inv_def)
  with assms(1) have fin: "finite (dom (ps_wontRestart st'))" by (rule rev_finite_subset)
  have grow: "dom (ps_wontRestart st) \<subseteq> dom (ps_wontRestart st')"
    and change: "sv st' \<noteq> sv st \<or> dom (ps_wontRestart st') \<noteq> dom (ps_wontRestart st)"
    using edge_steps_progress [OF dom, of g w rd "sv st" rm False "g_Deps g"] assms(3)
    by (auto simp: st'_def propagate_round_def)
  have sum: "(\<Sum>c\<in>D. status_rank (sv st c)) \<le> (\<Sum>c\<in>D. status_rank (sv st' c))"
    by (rule sum_mono) (use rank in blast)
  have card: "card (dom (ps_wontRestart st)) \<le> card (dom (ps_wontRestart st'))"
    by (rule card_mono [OF fin grow])
  show ?thesis
  proof (cases "sv st' = sv st")
    case True
    with change grow have "card (dom (ps_wontRestart st)) < card (dom (ps_wontRestart st'))"
      by (intro psubset_card_mono [OF fin]) blast
    with sum show ?thesis unfolding weight_def st'_def [symmetric] by linarith
  next
    case False
    then obtain c where c: "sv st' c \<noteq> sv st c" by blast
    moreover have "dom (ps_statuses st') = D" unfolding st'_def by (rule round_sweep(2) [OF dom])
    ultimately have "c \<in> D" using dom by (auto simp: get_or_def dom_def split: option.splits)
    with c rank assms(1) have "(\<Sum>c\<in>D. status_rank (sv st c)) < (\<Sum>c\<in>D. status_rank (sv st' c))"
      by (intro sum_strict_mono_ex1) auto
    with card show ?thesis unfolding weight_def st'_def [symmetric] by linarith
  qed
qed

lemma weight_bound:
  assumes "finite D" "run_inv g w rd rm D s0 st"
  shows "weight D st \<le> 3 * card D"
proof -
  have "(\<Sum>c\<in>D. status_rank (sv st c)) \<le> (\<Sum>c\<in>D. 2)"
    by (rule sum_mono) (rule rank_bound)
  moreover have "card (dom (ps_wontRestart st)) \<le> card D"
    using assms by (intro card_mono) (auto simp: run_inv_def)
  ultimately show ?thesis by (simp add: weight_def)
qed

section \<open>The loop\<close>

definition quiescent ::
  "graph \<Rightarrow> int \<Rightarrow> (string \<Rightarrow> reachLevel) \<Rightarrow> (string \<Rightarrow> reachLevel) \<Rightarrow> string set \<Rightarrow> pstate \<Rightarrow> bool" where
  "quiescent g w rd rm D st \<longleftrightarrow> settled g w rd rm D (sv st)
     \<and> (\<forall>d\<in>set (g_Deps g). edge_blocks_restart g w rd rm D d (sv st) (sv st)
           \<longrightarrow> dep_ConsumerServiceID d \<in> dom (ps_wontRestart st))"

lemma loop_result:
  assumes "finite D" "run_inv g w rd rm D s0 st" "propagate_loop g w rd rm n it st = (st', k)"
  shows "run_inv g w rd rm D s0 st'
    \<and> (quiescent g w rd rm D st' \<and> it \<le> k \<and> k < it + n
       \<or> k = maxIterations \<and> weight D st + n \<le> weight D st')"
  using assms(2,3)
proof (induction n arbitrary: it st)
  case (Suc n)
  obtain st1 ch where round: "propagate_round g w rd rm st = (st1, ch)" by (cases "propagate_round g w rd rm st")
  have inv1: "run_inv g w rd rm D s0 st1" using round_inv [OF Suc.prems(1)] round by simp
  have dom: "dom (ps_statuses st) = D" using Suc.prems(1) by (simp add: run_inv_def)
  show ?case
  proof (cases ch)
    case True
    then have "propagate_loop g w rd rm n (Suc it) st1 = (st', k)" using Suc.prems(2) round by simp
    note IH = Suc.IH [OF inv1 this]
    have "weight D st < weight D st1" using round_progress [OF assms(1) Suc.prems(1)] round True by simp
    with IH show ?thesis by (elim conjE disjE) (rule conjI, assumption, simp)+
  next
    case False
    then have "st' = st1" "k = it" using Suc.prems(2) round by simp_all
    moreover have "st1 = st" "quiescent g w rd rm D st"
      using round_unchanged [OF dom, of g w rd rm] round False by (simp_all add: quiescent_def)
    ultimately show ?thesis using inv1 by simp
  qed
qed simp

text \<open>Every round but the last adds to the weight, so the weight counts the rounds.\<close>

lemma loop_rounds:
  assumes "finite D" "run_inv g w rd rm D s0 st" "propagate_loop g w rd rm n it st = (st', k)"
  shows "propagate_round g w rd rm st' = (st', False) \<and> it \<le> k \<and> k < it + n \<and> weight D st + (k - it) \<le> weight D st'
    \<or> k = maxIterations \<and> weight D st + n \<le> weight D st'"
  using assms(2,3)
proof (induction n arbitrary: it st)
  case (Suc n)
  obtain st1 ch where round: "propagate_round g w rd rm st = (st1, ch)" by (cases "propagate_round g w rd rm st")
  show ?case
  proof (cases ch)
    case True
    then have "propagate_loop g w rd rm n (Suc it) st1 = (st', k)" using Suc.prems(2) round by simp
    from Suc.IH [OF _ this] round_inv [OF Suc.prems(1)] round
    have IH: "propagate_round g w rd rm st' = (st', False) \<and> Suc it \<le> k \<and> k < Suc it + n \<and> weight D st1 + (k - Suc it) \<le> weight D st'
      \<or> k = maxIterations \<and> weight D st1 + n \<le> weight D st'" by simp
    have "weight D st < weight D st1" using round_progress [OF assms(1) Suc.prems(1)] round True by simp
    with IH show ?thesis by (elim disjE) auto
  next
    case False
    have dom: "dom (ps_statuses st) = D" using Suc.prems(1) by (simp add: run_inv_def)
    have "st' = st1" "k = it" using Suc.prems(2) round False by simp_all
    moreover have "st1 = st" using round_unchanged(1) [OF dom, of g w rd rm] round False by simp
    ultimately show ?thesis using round False by simp
  qed
qed simp

abbreviation initial :: "(string \<Rightarrow> status option) \<Rightarrow> (string \<Rightarrow> string option) \<Rightarrow> pstate" where
  "initial statuses reasons \<equiv> \<lparr>ps_statuses = statuses, ps_reasons = reasons, ps_via = Map.empty,
     ps_viaPartition = Map.empty, ps_wontRestart = Map.empty\<rparr>"

lemma initial_inv: "run_inv g w rd rm (dom statuses) (status_in statuses) (initial statuses reasons)"
  by (simp add: run_inv_def via_justified_def)

lemma quiescent_spec:
  "run_inv g w rd rm D s0 st \<Longrightarrow> quiescent g w rd rm D st \<Longrightarrow> impact_spec g w rd rm D s0 (sv st)"
  by (auto simp: run_inv_def quiescent_def impact_spec_def)

text \<open>A run that did not exhaust its rounds, or that has few enough services, came to rest.\<close>

lemma phasePropagate_quiescent:
  assumes "finite (dom statuses)" "phasePropagate g w statuses reasons rd rm = (st, k)"
    and "k < maxIterations \<or> 3 * card (dom statuses) < maxIterations"
  shows "run_inv g w rd rm (dom statuses) (status_in statuses) st" "quiescent g w rd rm (dom statuses) st"
proof -
  have loop: "propagate_loop g w rd rm maxIterations 1 (initial statuses reasons) = (st, k)"
    using assms(2) by (simp add: phasePropagate_def)
  note result = loop_result [OF assms(1) initial_inv loop]
  show inv: "run_inv g w rd rm (dom statuses) (status_in statuses) st" using result by blast
  show "quiescent g w rd rm (dom statuses) st"
    using result assms(3) weight_bound [OF assms(1) inv] by auto
qed

lemma phasePropagate_spec:
  assumes "finite (dom statuses)" "phasePropagate g w statuses reasons rd rm = (st, k)"
    and "k < maxIterations \<or> 3 * card (dom statuses) < maxIterations"
  shows "impact_spec g w rd rm (dom statuses) (status_in statuses) (sv st)"
  by (rule quiescent_spec [OF phasePropagate_quiescent [OF assms]])

lemma loop_inv:
  "run_inv g w rd rm D s0 st \<Longrightarrow> run_inv g w rd rm D s0 (fst (propagate_loop g w rd rm n it st))"
  by (induction g w rd rm n it st rule: propagate_loop.induct)
     (auto simp: Let_def split: prod.splits dest: round_inv)

section \<open>Properties\<close>

text \<open>
  (C1) When the propagation loop stops before its last permitted round, or the estate has few
  enough services for the round limit not to matter, the statuses it leaves are the specified
  ones: the least assignment above the capacity statuses that no dependency edge can worsen.
\<close>

theorem propagation_correct:
  assumes "finite (dom statuses)"
    and "phasePropagate g w statuses reasons rd rm = (st, k)"
    and "k < maxIterations \<or> 3 * card (dom statuses) < maxIterations"
  shows "impact_spec g w rd rm (dom statuses) (status_in statuses) (status_in (ps_statuses st))"
  using assms by (rule phasePropagate_spec)

text \<open>A small estate: web needs app hard, app needs db hard, report needs db at startup.\<close>

definition demo_graph :: graph where
  "demo_graph = small_graph [''web'', ''app'', ''db'', ''rep'']
     [plain_dep ''d1'' ''web'' ''app'' NatureHard, plain_dep ''d2'' ''app'' ''db'' NatureHard,
      plain_dep ''d3'' ''rep'' ''db'' NatureStartup]"

definition demo_statuses :: "string \<Rightarrow> status option" where
  "demo_statuses = map_of [(''web'', StatusOK), (''app'', StatusOK), (''db'', StatusDown), (''rep'', StatusOK)]"

abbreviation no_reach :: "string \<Rightarrow> reachLevel" where
  "no_reach \<equiv> \<lambda>_. reachUnknown"

lemma demo_finite: "finite (dom demo_statuses)"
  by (simp add: demo_statuses_def finite_dom_map_of)

definition demo_run :: "pstate \<times> nat" where
  "demo_run = phasePropagate demo_graph 0 demo_statuses Map.empty no_reach no_reach"

lemma demo_run: "phasePropagate demo_graph 0 demo_statuses Map.empty no_reach no_reach = (fst demo_run, 3)"
proof -
  have "snd demo_run = 3" by code_simp
  then show ?thesis by (simp add: demo_run_def prod_eq_iff)
qed

theorem propagation_correct_witness:
  "impact_spec demo_graph 0 no_reach no_reach (dom demo_statuses) (status_in demo_statuses)
     (status_in (ps_statuses (fst demo_run)))"
  by (rule propagation_correct [OF demo_finite demo_run]) (simp add: maxIterations_def)

text \<open> Running out of rounds never invents an outage: however the loop stops, the statuses are at
  least those of the capacity phase, at most those of any assignment the edges cannot worsen, and
  cover the same services.
\<close>

theorem propagation_sound:
  assumes "status_in statuses \<le> t" "settled g w rd rm (dom statuses) t"
  shows "status_in statuses \<le> status_in (ps_statuses (fst (phasePropagate g w statuses reasons rd rm)))
   \<and> status_in (ps_statuses (fst (phasePropagate g w statuses reasons rd rm))) \<le> t
   \<and> dom (ps_statuses (fst (phasePropagate g w statuses reasons rd rm))) = dom statuses"
proof (intro conjI)
  have "run_inv g w rd rm (dom statuses) (status_in statuses) (fst (phasePropagate g w statuses reasons rd rm))"
    unfolding phasePropagate_def by (rule loop_inv [OF initial_inv])
  with assms show "status_in statuses \<le> sv (fst (phasePropagate g w statuses reasons rd rm))"
    and "sv (fst (phasePropagate g w statuses reasons rd rm)) \<le> t"
    and "dom (ps_statuses (fst (phasePropagate g w statuses reasons rd rm))) = dom statuses"
    by (simp_all add: run_inv_def)
qed

theorem propagation_sound_witness:
  "status_in demo_statuses \<le> status_in (ps_statuses (fst demo_run))"
  unfolding demo_run_def
  by (rule propagation_sound [of _ "\<lambda>_. StatusDown", THEN conjunct1]) (simp_all add: le_fun_def settled_def)

text \<open>
  (C25) How many rounds the loop takes: never more than three per service and one more, whatever
  its limit; and when it stops before its limit, or the estate has few enough services for the
  limit not to matter, it stops because another round from there would change nothing, neither a
  status, nor a reason, nor a recorded landmine.
\<close>

theorem propagation_terminates:
  assumes "finite (dom statuses)"
  shows "\<exists>st k. phasePropagate g w statuses reasons rd rm = (st, k)
         \<and> k \<le> maxIterations \<and> k \<le> 3 * card (dom statuses) + 1
         \<and> (k < maxIterations \<or> 3 * card (dom statuses) < maxIterations \<longrightarrow> propagate_round g w rd rm st = (st, False))"
proof -
  obtain st k where run: "phasePropagate g w statuses reasons rd rm = (st, k)"
    by (cases "phasePropagate g w statuses reasons rd rm")
  then have loop: "propagate_loop g w rd rm maxIterations 1 (initial statuses reasons) = (st, k)"
    by (simp add: phasePropagate_def)
  have "run_inv g w rd rm (dom statuses) (status_in statuses) st"
    using loop_result [OF assms initial_inv loop] by blast
  note bound = weight_bound [OF assms this]
  from loop_rounds [OF assms initial_inv loop] show ?thesis
  proof
    assume "propagate_round g w rd rm st = (st, False) \<and> 1 \<le> k \<and> k < 1 + maxIterations
      \<and> weight (dom statuses) (initial statuses reasons) + (k - 1) \<le> weight (dom statuses) st"
    with run bound show ?thesis by auto
  next
    assume "k = maxIterations \<and> weight (dom statuses) (initial statuses reasons) + maxIterations \<le> weight (dom statuses) st"
    with run bound show ?thesis by auto
  qed
qed

theorem propagation_terminates_witness:
  "\<exists>st k. phasePropagate demo_graph 0 demo_statuses Map.empty no_reach no_reach = (st, k) \<and> k \<le> 13
     \<and> propagate_round demo_graph 0 no_reach no_reach st = (st, False)"
proof -
  have "card (dom demo_statuses) = 4" by (simp add: demo_statuses_def dom_map_of_conv_image_fst)
  with propagation_terminates [OF demo_finite, of demo_graph 0 Map.empty no_reach no_reach]
  show ?thesis by (auto simp: maxIterations_def)
qed

text \<open>
 The landmine list is exact: once the loop has come to rest, a service is recorded as unable
  to restart exactly when a live startup dependency of it has a provider that, as seen from that
  service, is down in the final statuses.
\<close>

theorem wont_restart_exact:
  assumes "finite (dom statuses)"
    and "phasePropagate g w statuses reasons rd rm = (st, k)"
    and "k < maxIterations \<or> 3 * card (dom statuses) < maxIterations"
  defines "final \<equiv> status_in (ps_statuses st)"
  shows "ps_wontRestart st c \<noteq> None \<longleftrightarrow>
     c \<in> dom statuses \<and> (\<exists>d\<in>set (g_Deps g). dep_ConsumerServiceID d = c
        \<and> dep_Lifecycle d \<noteq> LifecycleRetired \<and> dep_Nature d = NatureStartup
        \<and> provider_seen g rd rm d final final = Some StatusDown)"
proof -
  note rest = phasePropagate_quiescent [OF assms(1-3)]
  have blocks: "edge_blocks_restart g w rd rm (dom statuses) d final final \<longleftrightarrow>
      dep_ConsumerServiceID d \<in> dom statuses \<and> dep_Lifecycle d \<noteq> LifecycleRetired
      \<and> dep_Nature d = NatureStartup \<and> provider_seen g rd rm d final final = Some StatusDown" for d
    by (auto simp: edge_blocks_restart_def Propagate_restart_iff split: option.splits)
  have "c \<in> dom (ps_wontRestart st) \<longleftrightarrow> (\<exists>d\<in>set (g_Deps g). dep_ConsumerServiceID d = c
      \<and> edge_blocks_restart g w rd rm (dom statuses) d final final)"
    using rest unfolding run_inv_def quiescent_def final_def by blast
  then show ?thesis unfolding blocks by (auto simp: dom_def)
qed

theorem wont_restart_exact_witness:
  "ps_wontRestart (fst demo_run) ''rep'' \<noteq> None"
proof -
  have "ps_statuses (fst demo_run) ''db'' = Some StatusDown" by code_simp
  then show ?thesis
    using wont_restart_exact [OF demo_finite demo_run, of "''rep''"]
    by (simp add: maxIterations_def demo_statuses_def demo_graph_def small_graph_def plain_dep_def
        provider_seen_def providerHealth_def plain_endpoint_def)
qed

text \<open> The dependency a row names is the one that explains it: at rest, a service with a \<open>Via\<close> has
  an edge to the provider of that name whose effect in the final statuses is exactly the status
  shown, and a service without one still has the status its own instances gave it.
\<close>

theorem via_explains_status:
  assumes "finite (dom statuses)"
    and "phasePropagate g w statuses reasons rd rm = (st, k)"
    and "k < maxIterations \<or> 3 * card (dom statuses) < maxIterations"
  defines "final \<equiv> status_in (ps_statuses st)"
  shows "case ps_via st c of
      None \<Rightarrow> final c = status_in statuses c
    | Some n \<Rightarrow> \<exists>d\<in>set (g_Deps g). dep_ConsumerServiceID d = c \<and> provider_name g d = Some n
        \<and> edge_effect g w rd rm (dom statuses) d final final = final c"
proof -
  note rest = phasePropagate_quiescent [OF assms(1-3)]
  from rest(1) have "via_justified g w rd rm (dom statuses) (status_in statuses) (ps_via st) final c"
    by (simp add: run_inv_def final_def)
  moreover have "edge_effect g w rd rm (dom statuses) d final final \<le> final (dep_ConsumerServiceID d)"
    if "d \<in> set (g_Deps g)" for d
    using rest(2) that by (simp add: quiescent_def settled_def final_def)
  ultimately show ?thesis
    unfolding via_justified_def by (cases "ps_via st c") (auto intro: antisym)
qed

theorem via_explains_status_witness:
  "ps_via (fst demo_run) ''web'' = Some ''app/tcp''
   \<and> (\<exists>d\<in>set (g_Deps demo_graph). dep_ConsumerServiceID d = ''web'' \<and> provider_name demo_graph d = Some ''app/tcp''
        \<and> edge_effect demo_graph 0 no_reach no_reach (dom demo_statuses) d
             (sv (fst demo_run)) (sv (fst demo_run)) = sv (fst demo_run) ''web'')"
proof -
  have "ps_via (fst demo_run) ''web'' = Some ''app/tcp''" by code_simp
  then show ?thesis
    using via_explains_status [OF demo_finite demo_run, of "''web''"] by (simp add: maxIterations_def)
qed

lemma route_health_deps: "route_health (g\<lparr>g_Deps := ds\<rparr>) s rm r = route_health g s rm r"
  by (simp add: route_health_def live_members_def member_status_def [abs_def] Let_def cong: option.case_cong)

lemma statuses_eqI:
  assumes "dom m = dom m'" "status_in m = status_in m'"
  shows "m = m'"
proof
  fix c
  show "m c = m' c"
    using assms(1) [THEN set_eq_iff [THEN iffD1], THEN spec, of c] fun_cong [OF assms(2), of c]
    by (cases "m c"; cases "m' c") (auto simp: domIff)
qed

lemma provider_seen_deps:
  "provider_seen (g\<lparr>g_Deps := ds\<rparr>) rd rm d r s = provider_seen g rd rm d r s"
  by (simp add: provider_seen_def providerHealth_def routeStatuses_def route_health_deps Let_def
      cong: option.case_cong)

lemma impact_spec_deps:
  assumes "set ds = set (g_Deps g)"
  shows "impact_spec (g\<lparr>g_Deps := ds\<rparr>) w rd rm D s0 s \<longleftrightarrow> impact_spec g w rd rm D s0 s"
  by (simp add: impact_spec_def settled_def edge_effect_def provider_seen_deps assms)

lemma impact_spec_mono:
  "impact_spec g w rd rm D s0 s \<Longrightarrow> impact_spec g w rd rm D t0 t \<Longrightarrow> s0 \<le> t0 \<Longrightarrow> s \<le> t"
  unfolding impact_spec_iff by (rule edges.least_stable_mono)

text \<open>
  The order in which the edges are listed does not matter: two runs over the same set of
  dependencies in different orders that both come to rest give every service the same status.
\<close>

theorem propagation_order_independent:
  assumes "finite (dom statuses)" and "set ds = set (g_Deps g)"
    and "phasePropagate g w statuses reasons rd rm = (st, k)"
    and "phasePropagate (g\<lparr>g_Deps := ds\<rparr>) w statuses reasons' rd rm = (st', k')"
    and "k < maxIterations \<and> k' < maxIterations \<or> 3 * card (dom statuses) < maxIterations"
  shows "ps_statuses st' = ps_statuses st"
proof -
  have k: "k < maxIterations \<or> 3 * card (dom statuses) < maxIterations"
    and k': "k' < maxIterations \<or> 3 * card (dom statuses) < maxIterations"
    using assms(5) by auto
  have "impact_spec g w rd rm (dom statuses) (status_in statuses) (sv st)"
    by (rule phasePropagate_spec [OF assms(1,3) k])
  moreover have "impact_spec g w rd rm (dom statuses) (status_in statuses) (sv st')"
    using phasePropagate_spec [OF assms(1,4) k'] by (simp add: impact_spec_deps assms(2))
  ultimately have eq: "sv st' = sv st"
    by (intro antisym) (auto intro: impact_spec_mono)
  have "dom (ps_statuses st') = dom (ps_statuses st)"
    using phasePropagate_quiescent(1) [OF assms(1,3) k] phasePropagate_quiescent(1) [OF assms(1,4) k']
    by (simp add: run_inv_def)
  with eq show ?thesis by (intro statuses_eqI)
qed

theorem propagation_order_independent_witness:
  "ps_statuses (fst (phasePropagate (demo_graph\<lparr>g_Deps := rev (g_Deps demo_graph)\<rparr>) 0 demo_statuses
      Map.empty no_reach no_reach)) = ps_statuses (fst demo_run)"
proof -
  have "3 * card (dom demo_statuses) < maxIterations"
    by (simp add: demo_statuses_def dom_map_of_conv_image_fst maxIterations_def)
  then show ?thesis
    by (intro propagation_order_independent [OF demo_finite _ demo_run prod.collapse [symmetric]]) simp_all
qed

lemma phasePropagate_mono:
  assumes "finite (dom statuses)" "dom statuses' = dom statuses"
    and "status_in statuses \<le> status_in statuses'"
    and "phasePropagate g w statuses reasons rd rm = (st, k)"
    and "phasePropagate g w statuses' reasons' rd rm = (st', k')"
    and "k' < maxIterations \<or> 3 * card (dom statuses) < maxIterations"
  shows "status_in (ps_statuses st) \<le> status_in (ps_statuses st')"
proof -
  have spec: "impact_spec g w rd rm (dom statuses) (status_in statuses') (sv st')"
    using phasePropagate_spec [OF _ assms(5)] assms(1,2,6) by simp
  have "run_inv g w rd rm (dom statuses) (status_in statuses) st"
    using loop_result [OF assms(1) initial_inv] assms(4) unfolding phasePropagate_def by blast
  with spec assms(3) show ?thesis by (auto simp: run_inv_def impact_spec_def intro: order_trans)
qed

text \<open> A worse outage is never reported as milder: if every capacity status of one run is at least
  as severe as in another over the same services, so is every final status.
\<close>

theorem propagation_monotone:
  assumes "finite (dom statuses)" "dom statuses' = dom statuses"
    and "status_in statuses \<le> status_in statuses'"
    and "phasePropagate g w statuses reasons rd rm = (st, k)"
    and "phasePropagate g w statuses' reasons' rd rm = (st', k')"
    and "k' < maxIterations \<or> 3 * card (dom statuses) < maxIterations"
  shows "status_in (ps_statuses st) \<le> status_in (ps_statuses st')"
  using assms by (rule phasePropagate_mono)

theorem propagation_monotone_witness:
  "status_in (ps_statuses (fst (phasePropagate demo_graph 0
       (demo_statuses(''db'' \<mapsto> StatusDegraded)) Map.empty no_reach no_reach)))
   \<le> status_in (ps_statuses (fst demo_run))"
proof -
  have le: "status_in (demo_statuses(''db'' \<mapsto> StatusDegraded)) \<le> status_in demo_statuses"
    by (simp add: le_fun_def get_or_upd demo_statuses_def)
  have dom: "dom demo_statuses = dom (demo_statuses(''db'' \<mapsto> StatusDegraded))"
    by (auto simp: demo_statuses_def)
  then have fin: "finite (dom (demo_statuses(''db'' \<mapsto> StatusDegraded)))" using demo_finite by simp
  show ?thesis
    by (rule propagation_monotone [OF fin dom le prod.collapse [symmetric] demo_run])
       (simp add: maxIterations_def)
qed

end
