(* ===== verification/Reports.thy ===== *)
theory Reports
  imports Seams
begin

text \<open>
  The report-only half of internal/impact: isolation, partitions, lost redundancy and coverage
  (reach.go) and the declared structures an outage empties (structures.go). None of these changes
  a status.
\<close>

section \<open>Isolation, partitions, redundancy, coverage\<close>

definition candidateAssets :: "graph \<Rightarrow> netGraph option \<Rightarrow> string list" where
  "candidateAssets g net =
     go_sort (<) (dedup []
       (map inst_HostAssetID (concat (map snd (g_Instances g)))
        @ (case net of None \<Rightarrow> []
           | Some n \<Rightarrow> map na_AssetID (net_Attachments n) @ map cr_DescendantID (net_Closure n))))"

definition blocking_group :: "reachModel \<Rightarrow> string \<Rightarrow> string \<Rightarrow> string" where
  "blocking_group m i plane =
     (case effectiveAttachments m i plane of
        Some (idx # _) \<Rightarrow> groupCode (Some m) (na_GroupID (net_Attachments (rm_net m) ! idx))
      | _ \<Rightarrow> [])"

definition isolation_rows :: "reachModel \<Rightarrow> string \<Rightarrow> assetIsolation list" where
  "isolation_rows m i =
     (let label = get_or \<lparr>al_Name = [], al_Kind = []\<rparr> (map_of (net_AssetNames (rm_net m))) i in
      map (\<lambda>p. \<lparr>ai_AssetID = i, ai_AssetName = al_Name label, ai_AssetKind = al_Kind label,
                ai_Plane = p, ai_BlockingGroup = blocking_group m i p\<rparr>)
        (filter (isolated (Some m) i) planes))"

definition computeIsolated :: "graph \<Rightarrow> reachModel option \<Rightarrow> assetIsolation list" where
  "computeIsolated g net =
     (case net of None \<Rightarrow> []
      | Some m \<Rightarrow> concat (map (isolation_rows m)
          (filter (\<lambda>i. \<not> List.member (rm_down m) i) (candidateAssets g (Some (rm_net m))))))"

definition providerDisplayName :: "graph \<Rightarrow> dependency \<Rightarrow> string" where
  "providerDisplayName g dep =
     (let via_route =
        (case dep_ProviderRouteID dep of
           None \<Rightarrow> []
         | Some rid \<Rightarrow> (case find_route g rid of Some r \<Rightarrow> ''route '' @ route_Name r | None \<Rightarrow> []))
      in case dep_ProviderEndpointID dep of
           None \<Rightarrow> via_route
         | Some e \<Rightarrow>
             (case find_endpoint g e of
                None \<Rightarrow> via_route
              | Some ep \<Rightarrow>
                  (case find_service g (ep_ServiceID ep) of
                     Some svc \<Rightarrow> svc_Code svc @ ''/'' @ ep_Name ep
                   | None \<Rightarrow> via_route)))"

definition partition_less :: "edgePartition \<Rightarrow> edgePartition \<Rightarrow> bool" where
  "partition_less a b =
     (if ept_ConsumerService a \<noteq> ept_ConsumerService b
      then ept_ConsumerService a < ept_ConsumerService b
      else ept_ProviderName a < ept_ProviderName b)"

definition partition_row :: "graph \<Rightarrow> reachLevel gomap \<Rightarrow> dependency \<Rightarrow> edgePartition list" where
  "partition_row g reachOfDep dep =
     (case map_of reachOfDep (dep_ID dep) of
        None \<Rightarrow> []
      | Some lvl \<Rightarrow>
          if lvl = reachOK \<or> lvl = reachUnknown then []
          else (case find_service g (dep_ConsumerServiceID dep) of
             None \<Rightarrow> []
           | Some consumer \<Rightarrow>
               [\<lparr>ept_DependencyID = dep_ID dep, ept_ConsumerService = svc_Code consumer,
                 ept_ProviderName = providerDisplayName g dep, ept_Reach = reachLevel_String lvl\<rparr>]))"

definition computePartitions ::
  "graph \<Rightarrow> dependency list \<Rightarrow> reachLevel gomap \<Rightarrow> edgePartition list" where
  "computePartitions g deps reachOfDep =
     (if reachOfDep = [] then []
      else go_sort partition_less (concat (map (partition_row g reachOfDep) deps)))"

definition redundancy_row ::
  "netGraph \<Rightarrow> (string \<Rightarrow> status option) \<Rightarrow> string list \<Rightarrow> string \<Rightarrow> groupFinding list" where
  "redundancy_row net groupStatus down gid =
     (case map_of (net_Groups net) gid of
        None \<Rightarrow> []
      | Some g \<Rightarrow>
          let members = filter (\<lambda>m. installedLifecycle (ngm_AssetLifecycle m)) (group_members net gid);
              total = length members;
              alive = length (filter (\<lambda>m. \<not> List.member down (ngm_AssetID m)) members) in
          if total \<le> 1 \<or> alive = total then []
          else
            let note =
              (case get_or StatusZero groupStatus gid of
                 StatusDown \<Rightarrow> ''the whole group is down''
               | StatusDegraded \<Rightarrow> ''no redundancy remains until a standby is promoted''
               | _ \<Rightarrow> ''one more loss and this group goes down'')
            in [\<lparr>gf_GroupCode = ng_Code g,
                 gf_Message = ng_Code g @ '': '' @ itoa_nat alive @ '' of '' @ itoa_nat total
                   @ '' members surviving; '' @ note\<rparr>])"

definition computeRedundancyLost ::
  "netGraph option \<Rightarrow> (string \<Rightarrow> status option) \<Rightarrow> string list \<Rightarrow> groupFinding list" where
  "computeRedundancyLost net groupStatus down =
     (case net of None \<Rightarrow> []
      | Some n \<Rightarrow> concat (map (redundancy_row n groupStatus down) (go_sort (<) (keys (net_Groups n)))))"

definition groupStatusesOrNil :: "reachModel option \<Rightarrow> string \<Rightarrow> status option" where
  "groupStatusesOrNil net = (case net of None \<Rightarrow> Map.empty | Some m \<Rightarrow> map_of (rm_groupStatus m))"

text \<open>How one service-bearing host is covered by the network model.\<close>

datatype host_coverage = HostModelled | HostInherited | HostUnmodelled

definition host_coverage :: "reachModel \<Rightarrow> string \<Rightarrow> host_coverage" where
  "host_coverage m i =
     (if attachmentsByAssetPlane (rm_net m) i PlaneData \<noteq> [] then HostModelled
      else if modelled (Some m) i PlaneData then HostInherited
      else HostUnmodelled)"

definition group_unanchored :: "netGraph \<Rightarrow> string \<Rightarrow> bool" where
  "group_unanchored net gid \<longleftrightarrow>
     \<not> list_ex (\<lambda>u. nu_GroupID u = gid \<or> nu_UpstreamGroupID u = gid) (net_Uplinks net)
     \<and> \<not> list_ex (\<lambda>a. anc_GroupID a = gid) (net_Anchors net)"

definition instance_hosts :: "graph \<Rightarrow> string list" where
  "instance_hosts g = dedup [] (map inst_HostAssetID (concat (map snd (g_Instances g))))"

definition computeCoverage :: "graph \<Rightarrow> reachModel option \<Rightarrow> reachCoverage" where
  "computeCoverage g net =
     (case net of
        None \<Rightarrow> \<lparr>cov_TopologyDeclared = False, cov_Modelled = 0, cov_Inherited = 0,
                 cov_Unmodelled = 0, cov_GroupsWithoutUplinkOrAnchor = 0,
                 cov_NoAnchorForScope = (\<lambda>_. 0), cov_ClusterUnresolved = 0\<rparr>
      | Some m \<Rightarrow>
          let count = (\<lambda>c. length (filter (\<lambda>i. host_coverage m i = c) (instance_hosts g))) in
          \<lparr>cov_TopologyDeclared = True, cov_Modelled = count HostModelled,
            cov_Inherited = count HostInherited, cov_Unmodelled = count HostUnmodelled,
            cov_GroupsWithoutUplinkOrAnchor =
              length (filter (group_unanchored (rm_net m)) (keys (net_Groups (rm_net m)))),
            cov_NoAnchorForScope = (\<lambda>_. 0), cov_ClusterUnresolved = 0\<rparr>)"

section \<open>Structures\<close>

abbreviation "StructureVLAN \<equiv> ''vlan''"
abbreviation "StructureFHRP \<equiv> ''fhrp''"
abbreviation "StructureL2VPN \<equiv> ''l2vpn''"
abbreviation "StructureWLAN \<equiv> ''wlan''"

record structureFinding =
  sf_Kind :: string
  sf_Name :: string
  sf_Remaining :: nat
  sf_Total :: nat
  sf_Detail :: string
  sf_Href :: string

definition Emptied :: "structureFinding \<Rightarrow> bool" where
  "Emptied f \<longleftrightarrow> sf_Remaining f = 0"

text \<open>The source writes a dash, U+2014, in three of its sentences: its bytes in UTF-8.\<close>

abbreviation em_dash :: string where
  "em_dash \<equiv> [CHR 0xE2, CHR 0x80, CHR 0x94]"

definition emptiedDetail :: "string \<Rightarrow> nat \<Rightarrow> string" where
  "emptiedDetail kind n =
     (if kind = StructureVLAN then
        ''no ports left; the broadcast domain is declared and carries nothing (all ''
        @ itoa_nat n @ '' assets holding a port are down)''
      else if kind = StructureFHRP then
        ''no router left to answer for the virtual address (all '' @ itoa_nat n @ '' are down)''
      else if kind = StructureL2VPN then
        ''nothing terminates into it any more (all '' @ itoa_nat n @ '' ends are down)''
      else if kind = StructureWLAN then
        ''nothing is broadcasting it any more (all '' @ itoa_nat n
        @ '' access points carrying it are down)''
      else ''nothing left'')"

definition reducedDetail :: "string \<Rightarrow> nat \<Rightarrow> string" where
  "reducedDetail kind n =
     (if kind = StructureVLAN then
        ''one asset left holding a port, of '' @ itoa_nat n @ '' '' @ em_dash
        @ '' the broadcast domain does not survive the next failure''
      else if kind = StructureFHRP then
        ''one router left of '' @ itoa_nat n @ '' '' @ em_dash
        @ '' it survived this and the protocol now buys nothing''
      else if kind = StructureL2VPN then
        ''one end left of '' @ itoa_nat n @ '' '' @ em_dash
        @ '' the overlay connects nothing to anything''
      else if kind = StructureWLAN then
        ''one access point left of '' @ itoa_nat n @ '' '' @ em_dash
        @ '' the SSID is on the air in one place and does not survive the next failure''
      else ''one left'')"

definition structureHref :: "string \<Rightarrow> string \<Rightarrow> string" where
  "structureHref kind i =
     (if kind = StructureVLAN then ''/vlans/'' @ i
      else if kind = StructureFHRP then ''/redundancy/'' @ i
      else if kind = StructureL2VPN then ''/overlays/'' @ i
      else if kind = StructureWLAN then ''/wireless/'' @ i
      else [])"

definition structure_finding :: "string list \<Rightarrow> structr \<Rightarrow> structureFinding list" where
  "structure_finding down st =
     (let total = length (dedup [] (st_AssetIDs st));
          remaining = length (dedup [] (filter (\<lambda>i. \<not> List.member down i) (st_AssetIDs st))) in
      if total = 0 then []
      else if remaining = 0 then
        [\<lparr>sf_Kind = st_Kind st, sf_Name = st_Name st, sf_Remaining = 0, sf_Total = total,
          sf_Detail = emptiedDetail (st_Kind st) total, sf_Href = structureHref (st_Kind st) (st_ID st)\<rparr>]
      else if remaining = 1 \<and> total > 1 then
        [\<lparr>sf_Kind = st_Kind st, sf_Name = st_Name st, sf_Remaining = 1, sf_Total = total,
          sf_Detail = reducedDetail (st_Kind st) total, sf_Href = structureHref (st_Kind st) (st_ID st)\<rparr>]
      else [])"

definition finding_less :: "structureFinding \<Rightarrow> structureFinding \<Rightarrow> bool" where
  "finding_less a b =
     (if sf_Remaining a \<noteq> sf_Remaining b then sf_Remaining a < sf_Remaining b
      else sf_Name a < sf_Name b)"

definition analyseStructures :: "structr list \<Rightarrow> string list \<Rightarrow> structureFinding list" where
  "analyseStructures structures down =
     go_sort finding_less (concat (map (structure_finding down) structures))"

interpretation finding_order: go_ordering finding_less
  unfolding finding_less_def by (rule go_ordering_lex [OF go_ordering_key])

interpretation partition_order: go_ordering partition_less
  unfolding partition_less_def by (rule go_ordering_lex [OF go_ordering_key])

interpretation endpoint_reach_order: go_ordering endpoint_reach_less
  unfolding endpoint_reach_less_def by (rule go_ordering_lex [OF go_ordering_key])

section \<open>What the reports say\<close>

lemma length_dedup: "length (dedup [] xs) = card (set xs)"
  using distinct_card [OF distinct_dedup, of "[]" xs] by (simp add: set_dedup)

lemma length_dedup_survivors:
  "length (dedup [] (filter (\<lambda>i. \<not> List.member down i) xs)) = card (set xs - set down)"
  by (simp add: length_dedup set_diff_eq)

text \<open> The structure report: a declared structure is reported exactly if it had members and the
  outage left none, or left one distinct asset of several; the counts are of distinct assets;
  and emptied structures come before reduced ones, each group in name order.
\<close>

theorem structures_reported:
  "(f \<in> set (analyseStructures structures down) \<longleftrightarrow>
     (\<exists>st\<in>set structures. \<exists>n r. n = card (set (st_AssetIDs st)) \<and> r = card (set (st_AssetIDs st) - set down)
     \<and> n \<noteq> 0 \<and> (r = 0 \<or> r = 1 \<and> n > 1)
     \<and> f = \<lparr>sf_Kind = st_Kind st, sf_Name = st_Name st, sf_Remaining = r, sf_Total = n,
     sf_Detail = (if r = 0 then emptiedDetail (st_Kind st) n else reducedDetail (st_Kind st) n),
     sf_Href = structureHref (st_Kind st) (st_ID st)\<rparr>))
   \<and> sorted_wrt (\<lambda>a b. \<not> finding_less b a) (analyseStructures structures down)"
proof (intro conjI)
  have "f \<in> set (structure_finding down st) \<longleftrightarrow>
     (\<exists>n r. n = card (set (st_AssetIDs st)) \<and> r = card (set (st_AssetIDs st) - set down)
        \<and> n \<noteq> 0 \<and> (r = 0 \<or> r = 1 \<and> n > 1)
        \<and> f = \<lparr>sf_Kind = st_Kind st, sf_Name = st_Name st, sf_Remaining = r, sf_Total = n,
               sf_Detail = (if r = 0 then emptiedDetail (st_Kind st) n else reducedDetail (st_Kind st) n),
               sf_Href = structureHref (st_Kind st) (st_ID st)\<rparr>)" for st
  proof -
    define n where "n = card (set (st_AssetIDs st))"
    define r where "r = card (set (st_AssetIDs st) - set down)"
    show ?thesis
      unfolding structure_finding_def Let_def length_dedup_survivors
      unfolding length_dedup n_def [symmetric] r_def [symmetric] by auto
  qed
  then show "f \<in> set (analyseStructures structures down) \<longleftrightarrow>
     (\<exists>st\<in>set structures. \<exists>n r. n = card (set (st_AssetIDs st)) \<and> r = card (set (st_AssetIDs st) - set down)
        \<and> n \<noteq> 0 \<and> (r = 0 \<or> r = 1 \<and> n > 1)
        \<and> f = \<lparr>sf_Kind = st_Kind st, sf_Name = st_Name st, sf_Remaining = r, sf_Total = n,
               sf_Detail = (if r = 0 then emptiedDetail (st_Kind st) n else reducedDetail (st_Kind st) n),
               sf_Href = structureHref (st_Kind st) (st_ID st)\<rparr>)"
    by (simp add: analyseStructures_def)
  show "sorted_wrt (\<lambda>a b. \<not> finding_less b a) (analyseStructures structures down)"
    unfolding analyseStructures_def by (rule finding_order.go_sort_sorted)
qed

text \<open> The isolation report lists exactly the assets the analysis knows that are still up and cut
  off on some plane: an asset inside the outage is off, not isolated, and is never listed.
\<close>

theorem isolated_report:
  "(\<exists>row\<in>set (computeIsolated g (Some m)). ai_AssetID row = i \<and> ai_Plane row = p) \<longleftrightarrow>
     i \<in> set (candidateAssets g (Some (rm_net m))) \<and> i \<notin> set (rm_down m) \<and> p \<in> set planes
     \<and> isolated (Some m) i p"
  by (auto simp: computeIsolated_def isolation_rows_def Let_def)

lemma count_partition:
  "length (filter (\<lambda>i. f i = HostModelled) xs) + length (filter (\<lambda>i. f i = HostInherited) xs)
   + length (filter (\<lambda>i. f i = HostUnmodelled) xs) = length xs"
proof (induction xs)
  case (Cons x xs)
  then show ?case by (cases "f x") auto
qed simp

text \<open> Coverage accounts for every service-bearing host once: modelled, inherited and unmodelled
  hosts add up to the distinct hosts of the graph's instances.
\<close>

theorem coverage_total:
  "cov_Modelled (computeCoverage g (Some m)) + cov_Inherited (computeCoverage g (Some m))
     + cov_Unmodelled (computeCoverage g (Some m))
   = card (inst_HostAssetID ` (\<Union>e\<in>set (g_Instances g). set (snd e)))"
  using count_partition [of "host_coverage m" "instance_hosts g"]
  by (simp add: computeCoverage_def Let_def instance_hosts_def length_dedup)

end
