(* ===== verification/Cluster_HA.thy ===== *)
theory Cluster_HA
  imports Graph
begin

text \<open>
  Cluster high availability: the relocation rule of internal/domain/cluster.go (\<open>CanRelocate\<close>)
  and \<open>applyClusterHA\<close> of internal/impact/clusters.go, which takes the guests of failed hosts
  back out of the down set when enough members of their cluster survive.
\<close>

section \<open>The rule\<close>

abbreviation "HANone \<equiv> ''none''"
abbreviation "HARestart \<equiv> ''restart''"

datatype relocation = RelocateNotConfigured | RelocateOK | RelocateNoCapacity

definition hosts_needed :: "int option \<Rightarrow> int" where
  "hosts_needed minHosts = (case minHosts of Some m \<Rightarrow> if m > 1 then m else 1 | None \<Rightarrow> 1)"

definition CanRelocate :: "string \<Rightarrow> int \<Rightarrow> int option \<Rightarrow> relocation" where
  "CanRelocate policy alive minHosts =
     (if policy \<noteq> HARestart then RelocateNotConfigured
      else if alive \<ge> hosts_needed minHosts then RelocateOK
      else RelocateNoCapacity)"

section \<open>Applying it to the down set\<close>

record relocationFinding =
  rf_ClusterName :: string
  rf_Outcome :: relocation
  rf_Guests :: nat
  rf_Surviving :: nat
  rf_Needed :: int
  rf_Detail :: string

definition Relocated :: "relocationFinding \<Rightarrow> bool" where
  "Relocated f \<longleftrightarrow> rf_Outcome f = RelocateOK"

definition failed_hosts :: "cluster \<Rightarrow> string list \<Rightarrow> string list" where
  "failed_hosts c down = filter (\<lambda>h. List.member down h) (cl_MemberAssetIDs c)"

definition surviving_hosts :: "cluster \<Rightarrow> string list \<Rightarrow> nat" where
  "surviving_hosts c down = length (filter (\<lambda>h. \<not> List.member down h) (cl_MemberAssetIDs c))"

definition failed_guests :: "cluster \<Rightarrow> string list \<Rightarrow> string list" where
  "failed_guests c down =
     concat (map (get_or [] (map_of (cl_GuestsByHost c))) (failed_hosts c down))"

definition relocation_detail :: "relocation \<Rightarrow> nat \<Rightarrow> nat \<Rightarrow> int \<Rightarrow> string" where
  "relocation_detail outcome guests alive needed =
     (if outcome = RelocateOK then
        itoa_nat guests @ '' guest(s) restarted on the '' @ itoa_nat alive
        @ '' surviving host(s); they were not serving during the restart''
      else
        itoa_nat guests @ '' guest(s) have nowhere to go: '' @ itoa_nat alive
        @ '' host(s) left and '' @ itoa needed @ '' needed. HA is configured and cannot help here'')"

text \<open>One turn of the loop over clusters: what it adds to \<open>revive\<close> and to \<open>findings\<close>.\<close>

definition cluster_turn :: "cluster \<Rightarrow> string list \<Rightarrow> string list \<times> relocationFinding list" where
  "cluster_turn c down =
     (if cl_MemberAssetIDs c = [] then ([], [])
      else if failed_hosts c down = [] then ([], [])
      else
        let guests = failed_guests c down; alive = surviving_hosts c down in
        if guests = [] then ([], [])
        else
          let outcome = CanRelocate (cl_HAPolicy c) (int alive) (cl_MinHosts c);
              needed = hosts_needed (cl_MinHosts c);
              f = \<lparr>rf_ClusterName = cl_Name c, rf_Outcome = outcome, rf_Guests = length guests,
                   rf_Surviving = alive, rf_Needed = needed,
                   rf_Detail = relocation_detail outcome (length guests) alive needed\<rparr> in
          if outcome = RelocateNotConfigured then ([], [])
          else (if outcome = RelocateOK then guests else [], [f]))"

definition relocation_less :: "relocationFinding \<Rightarrow> relocationFinding \<Rightarrow> bool" where
  "relocation_less a b =
     (if Relocated a \<noteq> Relocated b then \<not> Relocated a else rf_ClusterName a < rf_ClusterName b)"

definition applyClusterHA ::
  "cluster list \<Rightarrow> string list \<Rightarrow> string list \<times> relocationFinding list" where
  "applyClusterHA clusters down =
     (concat (map (\<lambda>c. fst (cluster_turn c down)) clusters),
      go_sort relocation_less (concat (map (\<lambda>c. snd (cluster_turn c down)) clusters)))"

interpretation relocation_order: go_ordering relocation_less
proof -
  have eq: "relocation_less = (\<lambda>a b. if Relocated a \<noteq> Relocated b then Relocated a < Relocated b
           else rf_ClusterName a < rf_ClusterName b)"
    by (auto simp: relocation_less_def fun_eq_iff)
  show "go_ordering relocation_less"
    unfolding eq by (rule go_ordering_lex [OF go_ordering_key])
qed

section \<open>Who is revived\<close>

lemma hosts_needed_pos: "1 \<le> hosts_needed m"
  by (auto simp: hosts_needed_def split: option.splits)

lemma failed_guests_mem:
  "x \<in> set (failed_guests c down) \<longleftrightarrow>
     (\<exists>h\<in>set (cl_MemberAssetIDs c). h \<in> set down \<and> x \<in> set (get_or [] (map_of (cl_GuestsByHost c)) h))"
  by (auto simp: failed_guests_def failed_hosts_def)

lemma cluster_turn_revive:
  "x \<in> set (fst (cluster_turn c down)) \<longleftrightarrow>
     x \<in> set (failed_guests c down) \<and> cl_HAPolicy c = HARestart
     \<and> hosts_needed (cl_MinHosts c) \<le> int (surviving_hosts c down)"
proof -
  have "failed_guests c down = []" if "cl_MemberAssetIDs c = [] \<or> failed_hosts c down = []"
    using that by (cases "cl_MemberAssetIDs c = []") (simp_all add: failed_guests_def failed_hosts_def)
  then show ?thesis
    by (auto simp: cluster_turn_def CanRelocate_def Let_def)
qed

text \<open> Which guests a simulation brings back: an asset is revived exactly if it is recorded as a
  guest of a failed member of a cluster whose policy is restart and whose surviving members
  number at least its capacity floor (one when none is declared).
\<close>

theorem revived_iff:
  "x \<in> set (fst (applyClusterHA clusters down)) \<longleftrightarrow>
     (\<exists>c\<in>set clusters. cl_HAPolicy c = HARestart
        \<and> (\<exists>h\<in>set (cl_MemberAssetIDs c). h \<in> set down
             \<and> x \<in> set (get_or [] (map_of (cl_GuestsByHost c)) h))
        \<and> hosts_needed (cl_MinHosts c) \<le> int (surviving_hosts c down))"
  by (auto simp: applyClusterHA_def cluster_turn_revive failed_guests_mem)

text \<open> Cluster HA never helps an estate whose clusters lost every host, and its findings put the
  clusters that could not absorb the loss before those that could.
\<close>

theorem relocation_needs_survivor:
  "((\<forall>c\<in>set clusters. set (cl_MemberAssetIDs c) \<subseteq> set down) \<longrightarrow> fst (applyClusterHA clusters down) = [])
   \<and> (sorted_wrt (\<lambda>a b. Relocated a \<longrightarrow> Relocated b) (snd (applyClusterHA clusters down)))"
proof (intro conjI impI)
  assume all: "\<forall>c\<in>set clusters. set (cl_MemberAssetIDs c) \<subseteq> set down"
  have "x \<notin> set (fst (applyClusterHA clusters down))" for x
  proof
    assume "x \<in> set (fst (applyClusterHA clusters down))"
    then obtain c where "c \<in> set clusters" "hosts_needed (cl_MinHosts c) \<le> int (surviving_hosts c down)"
      by (auto simp: applyClusterHA_def cluster_turn_revive)
    moreover from this all have "surviving_hosts c down = 0"
      by (auto simp: surviving_hosts_def filter_empty_conv)
    ultimately show False using hosts_needed_pos [of "cl_MinHosts c"] by simp
  qed
  then show "fst (applyClusterHA clusters down) = []"
    by (metis last_in_set)
next
  have "sorted_wrt (\<lambda>a b. \<not> relocation_less b a) (snd (applyClusterHA clusters down))"
    by (simp add: applyClusterHA_def relocation_order.go_sort_sorted)
  then show "sorted_wrt (\<lambda>a b. Relocated a \<longrightarrow> Relocated b) (snd (applyClusterHA clusters down))"
    by (rule sorted_wrt_mono_rel [rotated]) (auto simp: relocation_less_def split: if_splits)
qed

definition demo_cluster :: cluster where
  "demo_cluster = \<lparr>cl_ID = ''c'', cl_Name = ''pve'', cl_HAPolicy = HARestart, cl_MinHosts = Some 2,
     cl_MemberAssetIDs = [''hv1'', ''hv2'', ''hv3''], cl_GuestsByHost = [(''hv1'', [''vm1'', ''vm2''])]\<rparr>"

theorem relocation_needs_survivor_witness:
  "fst (applyClusterHA [demo_cluster] [''hv1'', ''hv2'', ''hv3'', ''vm1'', ''vm2'']) = []"
  using relocation_needs_survivor [of "[demo_cluster]" "[''hv1'', ''hv2'', ''hv3'', ''vm1'', ''vm2'']"]
  by (simp add: demo_cluster_def)

end
