(* ===== verification/Search.thy ===== *)
theory Search
  imports Graph Text "HOL-Library.Sublist"
begin

text \<open>
  The depth-first searches of internal/impact/engine.go: \<open>shutdownOrder\<close>, which lists the affected
  services consumers first, and \<open>detectCycles\<close>, which reports dependency cycles among them. Both
  closures \<open>visit\<close> have the same body, up to what they do with a cycle and to the finishing order,
  which only the first keeps; here it is one definition with that action as a parameter.
\<close>

section \<open>The search\<close>

datatype colour = white | grey | black

record 'c search =
  sr_colour :: "string \<Rightarrow> colour"
  sr_path :: "string list"
  sr_order :: "string list"
  sr_found :: 'c

text \<open>
  A grey node is met: everything on the path from its first occurrence on, and the node again.
\<close>

definition back_edge :: "(string list \<Rightarrow> 'c \<Rightarrow> 'c) \<Rightarrow> string \<Rightarrow> 'c search \<Rightarrow> 'c search" where
  "back_edge report node st =
     (case dropWhile (\<lambda>n. n \<noteq> node) (sr_path st) of
        [] \<Rightarrow> st
      | cycle \<Rightarrow> st\<lparr>sr_found := report (cycle @ [node]) (sr_found st)\<rparr>)"

definition enter :: "string \<Rightarrow> 'c search \<Rightarrow> 'c search" where
  "enter node st = st\<lparr>sr_colour := (sr_colour st)(node := grey), sr_path := sr_path st @ [node]\<rparr>"

definition leave :: "string \<Rightarrow> 'c search \<Rightarrow> 'c search" where
  "leave node st = st\<lparr>sr_path := butlast (sr_path st), sr_colour := (sr_colour st)(node := black),
     sr_order := sr_order st @ [node]\<rparr>"

text \<open>
  The first argument bounds the depth of the recursion; a path never holds a node twice, so one
  more than the number of nodes is enough.
\<close>

fun visit ::
  "nat \<Rightarrow> (string \<Rightarrow> string list) \<Rightarrow> (string list \<Rightarrow> 'c \<Rightarrow> 'c) \<Rightarrow> string \<Rightarrow> 'c search \<Rightarrow> 'c search" where
  "visit 0 adj report node st = st"
| "visit (Suc depth) adj report node st =
     (case sr_colour st node of
        grey \<Rightarrow> back_edge report node st
      | black \<Rightarrow> st
      | white \<Rightarrow> leave node (fold (visit depth adj report) (adj node) (enter node st)))"

definition search_all ::
  "string list \<Rightarrow> (string \<Rightarrow> string list) \<Rightarrow> (string list \<Rightarrow> 'c \<Rightarrow> 'c) \<Rightarrow> 'c \<Rightarrow> 'c search" where
  "search_all nodes adj report init =
     fold (visit (Suc (length nodes)) adj report) nodes
       \<lparr>sr_colour = (\<lambda>_. white), sr_path = [], sr_order = [], sr_found = init\<rparr>"

section \<open>What is searched\<close>

definition code_less :: "graph \<Rightarrow> string \<Rightarrow> string \<Rightarrow> bool" where
  "code_less g a b \<longleftrightarrow> codeOf g a < codeOf g b"

text \<open>
  The edges between affected services: consumer to provider, over the live dependencies that
  satisfy \<open>keep\<close>. The provider list of a node is sorted by code when the node is visited.
\<close>

definition joins :: "graph \<Rightarrow> (dependency \<Rightarrow> bool) \<Rightarrow> string list \<Rightarrow> dependency \<Rightarrow> bool" where
  "joins g keep affected dep \<longleftrightarrow>
     keep dep \<and> dep_Lifecycle dep \<noteq> LifecycleRetired
     \<and> providerServiceID g dep \<noteq> [] \<and> providerServiceID g dep \<noteq> dep_ConsumerServiceID dep
     \<and> List.member affected (dep_ConsumerServiceID dep) \<and> List.member affected (providerServiceID g dep)"

definition providers_of :: "graph \<Rightarrow> (dependency \<Rightarrow> bool) \<Rightarrow> string list \<Rightarrow> string \<Rightarrow> string list" where
  "providers_of g keep affected consumer =
     go_sort (code_less g)
       (map (providerServiceID g)
          (filter (\<lambda>dep. joins g keep affected dep \<and> dep_ConsumerServiceID dep = consumer) (g_Deps g)))"

definition is_hard :: "dependency \<Rightarrow> bool" where
  "is_hard dep \<longleftrightarrow> dep_Nature dep = NatureHard"

definition add_cycle :: "string list \<Rightarrow> string list list \<Rightarrow> string list list" where
  "add_cycle cycle cycles = cycles @ [cycle]"

definition shutdownOrder :: "graph \<Rightarrow> string list \<Rightarrow> string list \<times> string list list" where
  "shutdownOrder g affected =
     (let nodes = go_sort (code_less g) affected;
          st = search_all nodes (providers_of g is_hard affected) add_cycle []
      in (map (codeOf g) (rev (sr_order st)), map (map (codeOf g)) (sr_found st)))"

text \<open>The index of the first smallest name.\<close>

fun min_index :: "string list \<Rightarrow> nat \<Rightarrow> nat \<Rightarrow> string list \<Rightarrow> nat" where
  "min_index ring best i [] = best"
| "min_index ring best i (n # ns) = min_index ring (if n < ring ! best then i else best) (Suc i) ns"

definition cycleKey :: "string list \<Rightarrow> string" where
  "cycleKey names =
     (if length names < 2 then join ''>'' names
      else
        let ring = butlast names; minIdx = min_index ring 0 0 ring
        in join ''>'' (map (\<lambda>i. ring ! ((minIdx + i) mod length ring)) [0..<length ring]))"

text \<open>The same loop found from two entry points is reported once.\<close>

definition add_named_cycle ::
  "graph \<Rightarrow> string list \<Rightarrow> string list \<times> string list list \<Rightarrow> string list \<times> string list list" where
  "add_named_cycle g cycle sc =
     (let (seen, cycles) = sc; names = map (codeOf g) cycle; key = cycleKey names
      in if List.member seen key then sc else (key # seen, cycles @ [names]))"

definition detectCycles :: "graph \<Rightarrow> string list \<Rightarrow> string list list" where
  "detectCycles g affected =
     snd (sr_found (search_all (go_sort (code_less g) affected) (providers_of g (\<lambda>_. True) affected)
            (add_named_cycle g) ([], [])))"

section \<open>The contract of a cycle handler\<close>

text \<open>A closed walk along the edges that meets no node twice, written as the code does.\<close>

definition edge_in :: "(string \<Rightarrow> string list) \<Rightarrow> string \<Rightarrow> string \<Rightarrow> bool" where
  "edge_in adj u v \<longleftrightarrow> v \<in> set (adj u)"

definition is_cycle :: "(string \<Rightarrow> string list) \<Rightarrow> string list \<Rightarrow> bool" where
  "is_cycle adj c \<longleftrightarrow> 2 \<le> length c \<and> hd c = last c \<and> distinct (butlast c) \<and> successively (edge_in adj) c"

lemma first_index:
  "u \<in> set xs \<Longrightarrow> length (takeWhile (\<lambda>v. v \<noteq> u) xs) < length xs
     \<and> xs ! length (takeWhile (\<lambda>v. v \<noteq> u) xs) = u"
  by (induction xs) auto

locale cycle_search =
  fixes adj :: "string \<Rightarrow> string list"
    and report :: "string list \<Rightarrow> 'c \<Rightarrow> 'c"
    and quiet :: "'c \<Rightarrow> bool"
    and sound :: "'c \<Rightarrow> bool"
  assumes report_noisy: "\<not> quiet (report c f)"
    and report_sound: "is_cycle adj c \<Longrightarrow> sound f \<Longrightarrow> sound (report c f)"
begin

definition wf_search :: "string set \<Rightarrow> 'c search \<Rightarrow> bool" where
  "wf_search N st \<longleftrightarrow>
     distinct (sr_path st) \<and> set (sr_path st) \<subseteq> N \<and> successively (edge_in adj) (sr_path st)
     \<and> (\<forall>u. sr_colour st u = grey \<longleftrightarrow> u \<in> set (sr_path st))
     \<and> distinct (sr_order st) \<and> set (sr_order st) \<subseteq> N
     \<and> (\<forall>u. sr_colour st u = black \<longleftrightarrow> u \<in> set (sr_order st))
     \<and> sound (sr_found st)"

definition providers_first :: "'c search \<Rightarrow> bool" where
  "providers_first st \<longleftrightarrow> (quiet (sr_found st) \<longrightarrow>
     (\<forall>i<length (sr_order st). set (adj (sr_order st ! i)) \<subseteq> set (take i (sr_order st))))"

definition extends :: "'c search \<Rightarrow> 'c search \<Rightarrow> bool" where
  "extends st st' \<longleftrightarrow> sr_path st' = sr_path st \<and> prefix (sr_order st) (sr_order st')
     \<and> (quiet (sr_found st') \<longrightarrow> quiet (sr_found st))"

definition good :: "string set \<Rightarrow> 'c search \<Rightarrow> 'c search \<Rightarrow> bool" where
  "good N st st' \<longleftrightarrow> wf_search N st' \<and> providers_first st' \<and> extends st st'"

lemma extends_trans: "extends a b \<Longrightarrow> extends b c \<Longrightarrow> extends a c"
  by (auto simp: extends_def)

lemma good_trans: "good N a b \<Longrightarrow> good N b c \<Longrightarrow> good N a c"
  by (auto simp: good_def intro: extends_trans)

lemma good_refl: "wf_search N st \<Longrightarrow> providers_first st \<Longrightarrow> good N st st"
  by (simp add: good_def extends_def)

text \<open>A back edge closes a cycle.\<close>

lemma path_cycle:
  assumes "distinct p" "successively (edge_in adj) p" "x \<in> set p" "edge_in adj (last p) x"
  shows "\<exists>c. dropWhile (\<lambda>n. n \<noteq> x) p = x # c \<and> is_cycle adj (x # c @ [x])"
proof -
  obtain a b where p: "p = a @ x # b" "x \<notin> set a"
    using split_list_first [OF assms(3)] by blast
  then have "dropWhile (\<lambda>n. n \<noteq> x) p = x # b" by (auto simp: dropWhile_append3)
  moreover have "successively (edge_in adj) ((x # b) @ [x])"
    using assms(2,4) by (subst successively_append_iff) (auto simp: p successively_append_iff)
  moreover have "distinct (x # b)" using assms(1) p by simp
  ultimately show ?thesis by (auto simp: is_cycle_def)
qed

lemma back_edge_good:
  assumes "wf_search N st" "providers_first st" "sr_colour st x = grey"
    and "edge_in adj (last (sr_path st)) x"
  shows "good N st (back_edge report x st) \<and> \<not> quiet (sr_found (back_edge report x st))"
proof -
  have "x \<in> set (sr_path st)" using assms(1,3) by (simp add: wf_search_def)
  with assms obtain c where c: "dropWhile (\<lambda>n. n \<noteq> x) (sr_path st) = x # c" "is_cycle adj (x # c @ [x])"
    using path_cycle [of "sr_path st" x] by (auto simp: wf_search_def)
  then have "back_edge report x st = st\<lparr>sr_found := report (x # c @ [x]) (sr_found st)\<rparr>"
    by (simp add: back_edge_def)
  with assms(1) c(2) report_noisy report_sound show ?thesis
    by (simp add: good_def wf_search_def providers_first_def extends_def)
qed

lemma enter_wf:
  assumes "wf_search N st" "sr_colour st x = white" "x \<in> N"
    and "sr_path st = [] \<or> edge_in adj (last (sr_path st)) x"
  shows "wf_search N (enter x st)"
proof -
  have "x \<notin> set (sr_path st)" "x \<notin> set (sr_order st)"
    using assms(1,2) by (auto simp: wf_search_def dest: spec [of _ x])
  then show ?thesis
    using assms by (auto simp: wf_search_def enter_def successively_append_iff)
qed

lemma leave_good:
  assumes "good N (enter x st) st'" "sr_colour st x = white" "x \<in> N" "sr_path (enter x st) = sr_path st @ [x]"
    and "quiet (sr_found st') \<longrightarrow> set (adj x) \<subseteq> set (sr_order st')"
  shows "good N st (leave x st')"
proof -
  have path: "sr_path st' = sr_path st @ [x]" using assms(1,4) by (simp add: good_def extends_def)
  have wf: "wf_search N st'" using assms(1) by (simp add: good_def)
  then have "x \<notin> set (sr_order st')" "x \<notin> set (sr_path st)" "set (sr_path st) \<inter> set (sr_order st') = {}"
    using path by (auto simp: wf_search_def) (metis colour.distinct(5) in_set_conv_decomp)+
  then have "wf_search N (leave x st')"
    using wf path assms(3) by (auto simp: wf_search_def leave_def successively_append_iff)
  moreover have "providers_first (leave x st')"
    using assms(1,5) by (auto simp: good_def providers_first_def leave_def nth_append less_Suc_eq)
  moreover have "extends st (leave x st')"
    using assms(1) path by (auto simp: good_def extends_def leave_def enter_def)
  ultimately show ?thesis by (simp add: good_def)
qed

text \<open>
  What one visit does: whatever is on the path stays there, the search stays well formed, and
  unless a cycle was reported the visited node and all its providers are finished, the providers
  first.
\<close>

lemma fold_good:
  assumes step: "\<And>x st. x \<in> set xs \<Longrightarrow> P st \<Longrightarrow>
      good N st (f x st) \<and> P (f x st) \<and> (q \<or> quiet (sr_found (f x st)) \<longrightarrow> x \<in> set (sr_order (f x st)))"
    and "wf_search N st" "providers_first st" "P st"
  shows "good N st (fold f xs st) \<and> P (fold f xs st)
    \<and> (q \<or> quiet (sr_found (fold f xs st)) \<longrightarrow> set xs \<subseteq> set (sr_order (fold f xs st)))"
  using assms
proof (induction xs arbitrary: st)
  case Nil
  then show ?case by (simp add: good_refl)
next
  case (Cons x xs)
  have here: "good N st (f x st)" "P (f x st)" "q \<or> quiet (sr_found (f x st)) \<longrightarrow> x \<in> set (sr_order (f x st))"
    using Cons.prems(1) [of x st] Cons.prems(4) by auto
  have rest: "good N (f x st) (fold f xs (f x st)) \<and> P (fold f xs (f x st))
    \<and> (q \<or> quiet (sr_found (fold f xs (f x st))) \<longrightarrow> set xs \<subseteq> set (sr_order (fold f xs (f x st))))"
    using here Cons.prems(1) by (intro Cons.IH) (auto simp: good_def)
  then have "q \<or> quiet (sr_found (fold f xs (f x st))) \<longrightarrow> x \<in> set (sr_order (fold f xs (f x st)))"
    using here(3) by (auto simp: good_def extends_def dest: set_mono_prefix)
  with rest here(1) show ?case by (auto intro: good_trans)
qed

lemma visit_good:
  assumes "finite N" and closed: "\<And>u. u \<in> N \<Longrightarrow> set (adj u) \<subseteq> N"
    and "wf_search N st" "providers_first st" "x \<in> N"
    and "sr_path st = [] \<or> edge_in adj (last (sr_path st)) x"
    and "card N < depth + length (sr_path st)"
  shows "good N st (visit depth adj report x st)
    \<and> (quiet (sr_found (visit depth adj report x st)) \<longrightarrow> x \<in> set (sr_order (visit depth adj report x st)))"
  using assms(3-)
proof (induction depth arbitrary: x st)
  case 0
  have "length (sr_path st) \<le> card N"
    using 0 assms(1) card_mono [of N "set (sr_path st)"] by (simp add: wf_search_def distinct_card)
  with 0 show ?case by simp
next
  case (Suc depth)
  show ?case
  proof (cases "sr_colour st x")
    case white
    let ?st1 = "enter x st" and ?P = "\<lambda>s. wf_search N s \<and> providers_first s \<and> sr_path s = sr_path st @ [x]"
    have wf1: "wf_search N ?st1" using Suc.prems white by (intro enter_wf) auto
    have first1: "providers_first ?st1" using Suc.prems(2) by (simp add: providers_first_def enter_def)
    have path1: "sr_path ?st1 = sr_path st @ [x]" by (simp add: enter_def)
    have "good N s (visit depth adj report y s) \<and> ?P (visit depth adj report y s)
        \<and> (quiet (sr_found (visit depth adj report y s)) \<longrightarrow> y \<in> set (sr_order (visit depth adj report y s)))"
      if y: "y \<in> set (adj x)" and s: "?P s" for y s
    proof -
      have "y \<in> N" using closed [OF Suc.prems(3)] y by auto
      with s y Suc.prems(5) show ?thesis
        using Suc.IH [of s y] by (auto simp: edge_in_def good_def extends_def)
    qed
    from fold_good [of "adj x" ?P N "visit depth adj report" False ?st1, OF _ wf1 first1] this wf1 first1 path1
    have sub: "good N ?st1 (fold (visit depth adj report) (adj x) ?st1)"
      "quiet (sr_found (fold (visit depth adj report) (adj x) ?st1)) \<longrightarrow>
         set (adj x) \<subseteq> set (sr_order (fold (visit depth adj report) (adj x) ?st1))"
      by auto
    from leave_good [OF sub(1) white Suc.prems(3) path1 sub(2)] white show ?thesis
      by (simp add: leave_def)
  next
    case grey
    then have "sr_path st \<noteq> []" using Suc.prems(1) by (auto simp: wf_search_def)
    with Suc.prems have "edge_in adj (last (sr_path st)) x" by simp
    with back_edge_good [OF Suc.prems(1,2) grey] grey show ?thesis by simp
  next
    case black
    then have "x \<in> set (sr_order st)" using Suc.prems(1) by (simp add: wf_search_def)
    with black good_refl [OF Suc.prems(1,2)] show ?thesis by simp
  qed
qed

lemma visit_finishes:
  "wf_search N st \<Longrightarrow> sr_path st = [] \<Longrightarrow> x \<in> set (sr_order (visit (Suc depth) adj report x st))"
  by (auto simp: wf_search_def leave_def split: colour.split)

lemma search_all_good:
  assumes "\<And>u. u \<in> set nodes \<Longrightarrow> set (adj u) \<subseteq> set nodes" and "quiet init" "sound init"
  defines "st \<equiv> search_all nodes adj report init"
  shows "wf_search (set nodes) st" "providers_first st" "set (sr_order st) = set nodes"
proof -
  let ?N = "set nodes" and ?st0 = "\<lparr>sr_colour = (\<lambda>_. white), sr_path = [], sr_order = [], sr_found = init\<rparr>"
  let ?P = "\<lambda>s. wf_search ?N s \<and> providers_first s \<and> sr_path s = []"
  have init: "wf_search ?N ?st0" "providers_first ?st0"
    using assms(3) by (simp_all add: wf_search_def providers_first_def)
  have "good ?N s (visit (Suc (length nodes)) adj report x s) \<and> ?P (visit (Suc (length nodes)) adj report x s)
      \<and> (True \<or> quiet (sr_found (visit (Suc (length nodes)) adj report x s)) \<longrightarrow>
           x \<in> set (sr_order (visit (Suc (length nodes)) adj report x s)))"
    if "x \<in> set nodes" "?P s" for x s
  proof -
    have "card ?N < Suc (length nodes) + length (sr_path s)" using card_length [of nodes] by simp
    with that have "good ?N s (visit (Suc (length nodes)) adj report x s)"
      using visit_good [of ?N s x "Suc (length nodes)"] assms(1) by auto
    with that visit_finishes [of ?N s x "length nodes"] show ?thesis
      by (simp add: good_def extends_def del: visit.simps)
  qed
  from fold_good [of nodes ?P ?N _ True ?st0, OF this init] init
  have "good ?N ?st0 st \<and> ?P st \<and> set nodes \<subseteq> set (sr_order st)"
    by (simp add: st_def search_all_def del: visit.simps)
  then show "wf_search ?N st" "providers_first st" "set (sr_order st) = ?N"
    by (auto simp: wf_search_def)
qed

text \<open>A quiet search has ordered every node after its providers, so there is no cycle.\<close>

lemma walk_descends:
  assumes "successively (edge_in adj) c" "2 \<le> length c" "set c \<subseteq> N"
    and "\<And>u v. u \<in> N \<Longrightarrow> edge_in adj u v \<Longrightarrow> (f v :: nat) < f u"
  shows "f (last c) < f (hd c)"
  using assms(1-3)
proof (induction c rule: induct_list012)
  case (3 x y zs)
  show ?case
  proof (cases zs)
    case (Cons z zs')
    then have "f (last (y # zs)) < f y" using 3 by simp
    moreover have "f y < f x" using 3 assms(4) by simp
    ultimately show ?thesis by simp
  qed (use 3 assms(4) in simp)
qed auto

lemma quiet_acyclic:
  assumes "wf_search N st" "providers_first st" "set (sr_order st) = N" "quiet (sr_found st)"
    and "is_cycle adj c" "set c \<subseteq> N"
  shows False
proof -
  let ?o = "sr_order st"
  define f where "f u = length (takeWhile (\<lambda>v. v \<noteq> u) ?o)" for u
  have f: "f u < length ?o" "?o ! f u = u" if "u \<in> N" for u
    using that assms(3) first_index [of u ?o] by (auto simp: f_def)
  have "f v < f u" if u: "u \<in> N" and "edge_in adj u v" for u v
  proof -
    have "set (adj (?o ! f u)) \<subseteq> set (take (f u) ?o)"
      using assms(2,4) f(1) [OF u] by (simp add: providers_first_def)
    then have "v \<in> set (take (f u) ?o)" using that f(2) [OF u] by (auto simp: edge_in_def)
    then obtain i where i: "i < f u" "?o ! i = v" by (auto simp: in_set_conv_nth)
    then have "i < length ?o" using f(1) [OF u] by simp
    moreover have "v \<in> N" using i calculation assms(3) by (metis nth_mem)
    ultimately have "f v = i"
      using f [of v] i assms(1) by (metis wf_search_def nth_eq_iff_index_eq)
    with i show ?thesis by simp
  qed
  from walk_descends [OF _ _ assms(6) this] assms(5) show False
    by (simp add: is_cycle_def)
qed

lemma search_all_acyclic:
  assumes "\<And>u. u \<in> set nodes \<Longrightarrow> set (adj u) \<subseteq> set nodes" "quiet init" "sound init"
    and "quiet (sr_found (search_all nodes adj report init))" "is_cycle adj c" "set c \<subseteq> set nodes"
  shows False
  using quiet_acyclic [OF search_all_good [OF assms(1-3)] assms(4-6)] by blast

text \<open>In the finishing order of a quiet search no node precedes one of its providers.\<close>

lemma quiet_order:
  assumes "wf_search N st" "providers_first st" "quiet (sr_found st)"
  shows "sorted_wrt (\<lambda>a b. \<not> edge_in adj a b) (sr_order st)"
  unfolding sorted_wrt_iff_nth_less
proof (intro allI impI)
  fix i j assume ij: "i < j" "j < length (sr_order st)"
  then have "set (adj (sr_order st ! i)) \<subseteq> set (take i (sr_order st))"
    using assms(2,3) by (simp add: providers_first_def)
  moreover have "sr_order st ! j \<notin> set (take i (sr_order st))"
    using ij assms(1) by (auto simp: wf_search_def in_set_conv_nth nth_eq_iff_index_eq)
  ultimately show "\<not> edge_in adj (sr_order st ! i) (sr_order st ! j)"
    by (auto simp: edge_in_def)
qed

end

section \<open>The two searches meet the contract\<close>

interpretation shutdown: cycle_search adj add_cycle "\<lambda>f. f = []" "\<lambda>f. \<forall>c\<in>set f. is_cycle adj c" for adj
  by unfold_locales (auto simp: add_cycle_def)

text \<open>
  The keys seen by \<open>detectCycles\<close> are those of the cycles it has recorded, each once.
\<close>

definition named_sound ::
  "graph \<Rightarrow> (string \<Rightarrow> string list) \<Rightarrow> string list \<times> string list list \<Rightarrow> bool" where
  "named_sound g adj sc \<longleftrightarrow>
     (\<forall>names\<in>set (snd sc). \<exists>c. is_cycle adj c \<and> names = map (codeOf g) c)
     \<and> fst sc = rev (map cycleKey (snd sc)) \<and> distinct (fst sc)"

interpretation named: cycle_search adj "add_named_cycle g" "\<lambda>sc. fst sc = []" "named_sound g adj" for adj g
  by unfold_locales (auto simp: add_named_cycle_def named_sound_def Let_def split: prod.splits)

lemma set_providers_of:
  "set (providers_of g keep affected u) =
     {providerServiceID g d | d. d \<in> set (g_Deps g) \<and> joins g keep affected d \<and> dep_ConsumerServiceID d = u}"
  by (auto simp: providers_of_def)

lemma edge_in_providers:
  "edge_in (providers_of g keep affected) u v \<longleftrightarrow>
     (\<exists>d\<in>set (g_Deps g). joins g keep affected d \<and> dep_ConsumerServiceID d = u \<and> providerServiceID g d = v)"
  by (auto simp: edge_in_def set_providers_of)

lemma edge_affected:
  "edge_in (providers_of g keep affected) u v \<Longrightarrow> u \<in> set affected \<and> v \<in> set affected"
  by (auto simp: edge_in_providers joins_def)

lemma providers_closed:
  "set (providers_of g keep affected u) \<subseteq> set (go_sort (code_less g) affected)"
  by (auto simp: set_providers_of joins_def)

lemma successively_edge:
  assumes "successively R c" "2 \<le> length c" "x \<in> set c"
  shows "\<exists>y. R x y \<or> R y x"
  using assms
proof (induction c rule: induct_list012)
  case (3 a b zs)
  then show ?case by (cases zs) auto
qed auto

lemma cycle_affected: "is_cycle (providers_of g keep affected) c \<Longrightarrow> set c \<subseteq> set affected"
proof
  fix x
  assume "is_cycle (providers_of g keep affected) c" "x \<in> set c"
  then obtain y where "edge_in (providers_of g keep affected) x y \<or> edge_in (providers_of g keep affected) y x"
    using successively_edge [of "edge_in (providers_of g keep affected)" c x] by (auto simp: is_cycle_def)
  then show "x \<in> set affected" using edge_affected by blast
qed

lemma shutdown_order_mset:
  assumes "distinct affected"
  shows "mset (fst (shutdownOrder g affected)) = mset (map (codeOf g) affected)"
proof -
  define adj where "adj = providers_of g is_hard affected"
  define nodes where "nodes = go_sort (code_less g) affected"
  let ?st = "search_all nodes adj add_cycle []"
  have closed: "set (adj u) \<subseteq> set nodes" for u
    unfolding adj_def nodes_def by (rule providers_closed)
  have "set (sr_order ?st) = set affected" "distinct (sr_order ?st)"
    using shutdown.search_all_good [of nodes adj "[]"] closed
    by (simp_all add: shutdown.wf_search_def nodes_def)
  then have "mset (sr_order ?st) = mset affected"
    using assms by (simp add: set_eq_iff_mset_eq_distinct)
  then show ?thesis
    by (simp add: shutdownOrder_def Let_def adj_def nodes_def)
qed

section \<open>Properties\<close>

text \<open>
  (C27) Without a cycle of hard dependencies among the affected services, consumers come before
  their providers: the order is that of a list of the affected ids in which no service is preceded
  by one it depends on.
\<close>

theorem shutdown_consumers_first:
  assumes "\<nexists>c. is_cycle (providers_of g is_hard affected) c"
  shows "\<exists>ids. fst (shutdownOrder g affected) = map (codeOf g) ids \<and> set ids = set affected \<and> distinct ids
     \<and> sorted_wrt (\<lambda>a b. \<forall>d\<in>set (g_Deps g). joins g is_hard affected d \<and> dep_ConsumerServiceID d = b
           \<longrightarrow> providerServiceID g d \<noteq> a) ids"
proof -
  define adj where "adj = providers_of g is_hard affected"
  define nodes where "nodes = go_sort (code_less g) affected"
  let ?st = "search_all nodes adj add_cycle []"
  have closed: "set (adj u) \<subseteq> set nodes" for u
    unfolding adj_def nodes_def by (rule providers_closed)
  have init: "\<forall>c\<in>set []. is_cycle adj c" by simp
  note good = shutdown.search_all_good [of nodes adj "[]", OF closed refl init]
  have "\<forall>c\<in>set (sr_found ?st). is_cycle adj c"
    using good(1) by (simp add: shutdown.wf_search_def)
  then have quiet: "sr_found ?st = []"
    using assms by (cases "sr_found ?st") (auto simp: adj_def)
  have "sorted_wrt (\<lambda>a b. \<not> edge_in adj a b) (sr_order ?st)"
    by (rule shutdown.quiet_order [OF good(1,2)]) (simp_all add: quiet)
  then have "sorted_wrt (\<lambda>a b. \<not> edge_in adj b a) (rev (sr_order ?st))"
    by (simp add: sorted_wrt_rev)
  moreover have "set (sr_order ?st) = set affected" "distinct (sr_order ?st)"
    using good by (simp_all add: nodes_def shutdown.wf_search_def)
  ultimately show ?thesis
    by (intro exI [of _ "rev (sr_order ?st)"])
       (auto simp: shutdownOrder_def Let_def adj_def nodes_def edge_in_providers elim!: sorted_wrt_mono_rel [rotated])
qed

text \<open>
  (C26) Cycle detection is exact: it reports something precisely when the live dependencies of any
  nature among the affected services contain a cycle, everything it reports is the trace of such a
  cycle in service codes, and no loop is reported twice under the same key.
\<close>

theorem detect_cycles_exact:
  "(detectCycles g affected = [] \<longleftrightarrow> (\<nexists>c. is_cycle (providers_of g (\<lambda>_. True) affected) c))
   \<and> (\<forall>names\<in>set (detectCycles g affected).
     \<exists>c. is_cycle (providers_of g (\<lambda>_. True) affected) c \<and> names = map (codeOf g) c)
   \<and> distinct (map cycleKey (detectCycles g affected))"
proof (intro conjI)
  define adj where "adj = providers_of g (\<lambda>_. True) affected"
  define nodes where "nodes = go_sort (code_less g) affected"
  let ?st = "search_all nodes adj (add_named_cycle g) ([], [])"
  have detect: "detectCycles g affected = snd (sr_found ?st)"
    by (simp add: detectCycles_def adj_def nodes_def)
  have closed: "set (adj u) \<subseteq> set nodes" for u
    unfolding adj_def nodes_def by (rule providers_closed)
  have init: "named_sound g adj ([], [])" by (simp add: named_sound_def)
  have sound: "named_sound g adj (sr_found ?st)"
    using named.search_all_good(1) [of nodes adj "([], [])" g, OF closed _ init]
    by (simp add: named.wf_search_def)
  have acyclic: "\<not> is_cycle adj c" if "detectCycles g affected = []" for c
  proof
    assume c: "is_cycle adj c"
    have "fst (sr_found ?st) = []" using sound that by (simp add: named_sound_def detect)
    moreover have "set c \<subseteq> set nodes" using cycle_affected c by (auto simp: adj_def nodes_def)
    ultimately show False
      using named.search_all_acyclic [of nodes adj "([], [])" g c, OF closed _ init _ c] by simp
  qed
  show cycles: "\<forall>names\<in>set (detectCycles g affected).
      \<exists>c. is_cycle (providers_of g (\<lambda>_. True) affected) c \<and> names = map (codeOf g) c"
    using sound unfolding detect named_sound_def adj_def by blast
  with acyclic show "detectCycles g affected = [] \<longleftrightarrow> (\<nexists>c. is_cycle (providers_of g (\<lambda>_. True) affected) c)"
    unfolding adj_def by (cases "detectCycles g affected") auto
  show "distinct (map cycleKey (detectCycles g affected))"
    using sound by (auto simp: named_sound_def detect simp flip: rev_map)
qed

text \<open>A three-service example: the application and the web tier need the database and each other.\<close>

definition trio :: graph where
  "trio = small_graph [''app'', ''db'', ''web'']
     [plain_dep ''d1'' ''web'' ''app'' NatureHard, plain_dep ''d2'' ''app'' ''db'' NatureHard,
      plain_dep ''d3'' ''app'' ''web'' NatureSoft]"

lemma trio_edges:
  "edge_in (providers_of trio is_hard [''app'', ''db'', ''web'']) u v \<Longrightarrow>
     u = ''web'' \<and> v = ''app'' \<or> u = ''app'' \<and> v = ''db''"
  by (auto simp: edge_in_providers trio_def small_graph_def plain_dep_def joins_def is_hard_def
      providerServiceID_def plain_endpoint_def)

lemma trio_acyclic: "\<nexists>c. is_cycle (providers_of trio is_hard [''app'', ''db'', ''web'']) c"
proof
  assume "\<exists>c. is_cycle (providers_of trio is_hard [''app'', ''db'', ''web'']) c"
  then obtain c where c: "is_cycle (providers_of trio is_hard [''app'', ''db'', ''web'']) c" by blast
  define f :: "string \<Rightarrow> nat" where "f u = (if u = ''db'' then 0 else if u = ''app'' then 1 else 2)" for u
  have "f (last c) < f (hd c)"
    by (rule shutdown.walk_descends [of "providers_of trio is_hard [''app'', ''db'', ''web'']" c UNIV])
       (use c trio_edges in \<open>auto simp: is_cycle_def f_def\<close>)
  with c show False by (simp add: is_cycle_def)
qed

theorem shutdown_consumers_first_witness:
  "\<exists>ids. fst (shutdownOrder trio [''app'', ''db'', ''web'']) = map (codeOf trio) ids
     \<and> set ids = set [''app'', ''db'', ''web''] \<and> distinct ids
     \<and> sorted_wrt (\<lambda>a b. \<forall>d\<in>set (g_Deps trio). joins trio is_hard [''app'', ''db'', ''web''] d
           \<and> dep_ConsumerServiceID d = b \<longrightarrow> providerServiceID trio d \<noteq> a) ids"
  by (rule shutdown_consumers_first [OF trio_acyclic])

theorem detect_cycles_exact_witness:
  "\<exists>c. is_cycle (providers_of trio (\<lambda>_. True) [''app'', ''db'', ''web'']) c
     \<and> [''app'', ''web'', ''app''] = map (codeOf trio) c"
proof -
  have "detectCycles trio [''app'', ''db'', ''web''] = [[''app'', ''web'', ''app'']]" by code_simp
  then show ?thesis
    using detect_cycles_exact [of trio "[''app'', ''db'', ''web'']"] by simp
qed

section \<open>Keys of cycles\<close>

lemma min_index_least:
  assumes "ring = done @ rest" "i = length done" "best < length ring" "\<forall>n\<in>set done. ring ! best \<le> n"
  shows "min_index ring best i rest < length ring \<and> (\<forall>n\<in>set ring. ring ! min_index ring best i rest \<le> n)"
  using assms
proof (induction rest arbitrary: best i "done")
  case (Cons n rest)
  define best' where "best' = (if n < ring ! best then i else best)"
  have "ring ! i = n" using Cons.prems by simp
  then have "\<forall>m\<in>set (done @ [n]). ring ! best' \<le> m" "best' < length ring"
    using Cons.prems by (auto simp: best'_def)
  with Cons.IH [of "done @ [n]" "Suc i" best'] Cons.prems(1,2)
  have "min_index ring best' (Suc i) rest < length ring
      \<and> (\<forall>n\<in>set ring. ring ! min_index ring best' (Suc i) rest \<le> n)"
    by simp
  then show ?case unfolding best'_def min_index.simps .
qed simp

lemma cycleKey_rotated:
  assumes "ring \<noteq> []"
  shows "\<exists>m. cycleKey (ring @ [hd ring]) = join ''>'' (rotate m ring) \<and> hd (rotate m ring) = Min (set ring)"
proof -
  define m where "m = min_index ring 0 0 ring"
  have m: "m < length ring" "\<forall>n\<in>set ring. ring ! m \<le> n"
    using min_index_least [of ring "[]" ring 0 0] assms by (auto simp: m_def)
  have "map (\<lambda>i. ring ! ((m + i) mod length ring)) [0..<length ring] = rotate m ring"
    by (intro nth_equalityI) (simp_all add: nth_rotate add.commute)
  then have "cycleKey (ring @ [hd ring]) = join ''>'' (rotate m ring)"
    using assms by (simp add: cycleKey_def m_def Suc_le_eq)
  moreover have "hd (rotate m ring) = Min (set ring)"
    using m assms by (simp add: hd_rotate_conv_nth Min_eqI [symmetric])
  ultimately show ?thesis by blast
qed

lemma rotations_eq:
  assumes "distinct ring" "hd (rotate a ring) = hd (rotate b ring)"
  shows "rotate a ring = rotate b ring"
proof (cases "ring = []")
  case False
  with assms have "a mod length ring = b mod length ring"
    by (simp add: hd_rotate_conv_nth nth_eq_iff_index_eq)
  then show ?thesis by (metis rotate_conv_mod)
qed simp

text \<open> The key of a cycle does not depend on where the traversal entered it: every rotation of a
  ring of distinct codes, closed as the search closes it, has the same key.
\<close>

theorem cycle_key_rotation:
  assumes "distinct ring" "ring \<noteq> []"
  shows "cycleKey (rotate k ring @ [hd (rotate k ring)]) = cycleKey (ring @ [hd ring])"
proof -
  obtain a where a: "cycleKey (ring @ [hd ring]) = join ''>'' (rotate a ring)"
      "hd (rotate a ring) = Min (set ring)"
    using cycleKey_rotated [OF assms(2)] by blast
  obtain b where b: "cycleKey (rotate k ring @ [hd (rotate k ring)]) = join ''>'' (rotate b (rotate k ring))"
      "hd (rotate b (rotate k ring)) = Min (set ring)"
    using cycleKey_rotated [of "rotate k ring"] assms(2) by auto
  have "rotate (b + k) ring = rotate a ring"
    using a(2) b(2) by (intro rotations_eq [OF assms(1)]) (simp add: rotate_rotate)
  with a(1) b(1) show ?thesis by (simp add: rotate_rotate)
qed

theorem cycle_key_rotation_witness:
  "cycleKey [''db'', ''web'', ''app'', ''db''] = cycleKey [''app'', ''db'', ''web'', ''app'']"
  using cycle_key_rotation [of "[''app'', ''db'', ''web'']" 1] by simp

end
