(* ===== verification/Analyse.thy ===== *)
theory Analyse
  imports Fixpoint Reports Cluster_HA Search
begin

text \<open>
  \<open>Analyse\<close> of internal/impact/engine.go: cluster HA on the down set, the reachability model, the
  capacity phase, the propagation phase, and the report assembled from their results.
\<close>

section \<open>Requests, inputs and results\<close>

record request =
  req_DownAssetIDs :: "string list"
  req_CutCircuitIDs :: "string list"
  req_CutLinkIDs :: "string list"
  req_WindowSeconds :: int
  req_UseObservedHealth :: bool
  req_SkipNetwork :: bool
  req_ReportReachabilityOnly :: bool

record inputs =
  in_DownInstanceIDs :: "string list"
  in_DownAssetIDs :: "string list"
  in_Net :: "netGraph option"

record impactResult =
  res_Services :: "serviceImpact list"
  res_WontRestart :: "serviceImpact list"
  res_Cycles :: "string list list"
  res_SafeOrder :: "string list"
  res_Iterations :: nat
  res_Isolated :: "assetIsolation list"
  res_Partitions :: "edgePartition list"
  res_Unreachable :: "endpointReach list"
  res_RedundancyLost :: "groupFinding list"
  res_Coverage :: reachCoverage
  res_Relocations :: "relocationFinding list"
  res_Structures :: "structureFinding list"

section \<open>The pieces\<close>

text \<open>
  The down sets once relocated guests are up again. The instance set is rebuilt from the
  instances of the graph, not filtered by id.
\<close>

definition revive_inputs :: "graph \<Rightarrow> string list \<Rightarrow> inputs \<Rightarrow> inputs" where
  "revive_inputs g revived inp =
     (if revived = [] then inp
      else inp\<lparr>in_DownAssetIDs := filter (\<lambda>i. \<not> List.member revived i) (in_DownAssetIDs inp),
               in_DownInstanceIDs := map inst_ID (filter (\<lambda>i. List.member (in_DownInstanceIDs inp) (inst_ID i)
                  \<and> \<not> List.member revived (inst_HostAssetID i)) (concat (map snd (g_Instances g))))\<rparr>)"

definition req_cut :: "request \<Rightarrow> cutMedia" where
  "req_cut req = \<lparr>cut_circuits = req_CutCircuitIDs req, cut_links = req_CutLinkIDs req\<rparr>"

definition net_input :: "request \<Rightarrow> inputs \<Rightarrow> netGraph option" where
  "net_input req inp = (if req_SkipNetwork req then None else in_Net inp)"

definition alive_hosts :: "capacity gomap \<Rightarrow> string \<Rightarrow> string list" where
  "alive_hosts caps sid = (case map_of caps sid of Some c \<Rightarrow> cap_aliveHosts c | None \<Rightarrow> [])"

definition cap_statuses :: "capacity gomap \<Rightarrow> string \<Rightarrow> status option" where
  "cap_statuses caps sid = map_option cap_status (map_of caps sid)"

definition needs_net :: "graph \<Rightarrow> request \<Rightarrow> string \<Rightarrow> bool" where
  "needs_net g req sid \<longleftrightarrow>
     \<not> req_ReportReachabilityOnly req \<and> get_or False (map_of (computeNeedsNet g)) sid"

text \<open>A reach map read with its zero value; in the report-only mode it is nil.\<close>

definition applied_reach :: "request \<Rightarrow> reachLevel gomap \<Rightarrow> string \<Rightarrow> reachLevel" where
  "applied_reach req m k =
     (if req_ReportReachabilityOnly req then reachUnknown else get_or reachUnknown (map_of m) k)"

text \<open>Which channel decided the status shown; the propagated cases are tested first.\<close>

definition row_cause :: "pstate \<Rightarrow> capacity \<Rightarrow> string \<Rightarrow> cause" where
  "row_cause st c sid =
     (if get_or [] (ps_via st) sid \<noteq> [] \<and> get_or False (ps_viaPartition st) sid then CauseReachability
      else if get_or [] (ps_via st) sid \<noteq> [] then CauseDependency
      else if cap_lostToIsolation c > 0 \<and> cap_lostToIsolation c = cap_lost c then CauseReachability
      else CauseCapacity)"

definition service_row :: "pstate \<Rightarrow> capacity \<Rightarrow> string \<Rightarrow> service \<Rightarrow> serviceImpact" where
  "service_row st c sid svc =
     \<lparr>si_ServiceID = sid, si_Code = svc_Code svc, si_Name = svc_Name svc, si_Tier = svc_Tier svc,
      si_Status = status_in (ps_statuses st) sid, si_Reason = get_or [] (ps_reasons st) sid,
      si_LostInstances = cap_lost c, si_TotalInstances = cap_total c,
      si_Via = get_or [] (ps_via st) sid, si_Cause = row_cause st c sid,
      si_LostToIsolation = cap_lostToIsolation c\<rparr>"

definition startup_row :: "startupFault \<Rightarrow> serviceImpact \<Rightarrow> serviceImpact" where
  "startup_row fault si =
     si\<lparr>si_Via := flt_Via fault, si_Reason := flt_Reason fault,
        si_Cause := (if flt_NetEffect fault \<noteq> reachUnknown then CauseReachability else CauseDependency)\<rparr>"

text \<open>
  One turn of the loop over the final statuses: the rows it adds to \<open>Services\<close> and to
  \<open>WontRestart\<close>. A status that is ok with no startup fault adds none, and so does an id without a
  service.
\<close>

definition service_rows ::
  "graph \<Rightarrow> capacity gomap \<Rightarrow> pstate \<Rightarrow> string \<Rightarrow> serviceImpact list \<times> serviceImpact list" where
  "service_rows g caps st sid =
     (case (ps_statuses st sid, find_service g sid, map_of caps sid) of
        (Some status, Some svc, Some c) \<Rightarrow>
          let si = service_row st c sid svc in
          (if status \<noteq> StatusOK then [si] else [],
           case ps_wontRestart st sid of
             Some fault \<Rightarrow> if status \<noteq> StatusDown then [startup_row fault si] else []
           | None \<Rightarrow> [])
      | _ \<Rightarrow> ([], []))"

definition statusRank :: "status \<Rightarrow> nat" where
  "statusRank s = (case s of StatusDown \<Rightarrow> 2 | StatusDegraded \<Rightarrow> 1 | _ \<Rightarrow> 0)"

definition impact_less :: "serviceImpact \<Rightarrow> serviceImpact \<Rightarrow> bool" where
  "impact_less a b =
     (if si_Status a \<noteq> si_Status b then statusRank (si_Status a) > statusRank (si_Status b)
      else if si_Tier a \<noteq> si_Tier b then si_Tier a < si_Tier b
      else si_Code a < si_Code b)"

definition sortImpacts :: "serviceImpact list \<Rightarrow> serviceImpact list" where
  "sortImpacts = go_sort impact_less"

section \<open>The run\<close>

text \<open>What the phases leave behind for the report.\<close>

record engineRun =
  run_inputs :: inputs
  run_relocations :: "relocationFinding list"
  run_net :: "reachModel option"
  run_caps :: "capacity gomap"
  run_coverage :: reachCoverage
  run_depReach :: "reachLevel gomap"
  run_state :: pstate
  run_iterations :: nat

definition run_phases :: "graph \<Rightarrow> request \<Rightarrow> inputs \<Rightarrow> engineRun" where
  "run_phases g req inp0 =
     (let (revived, relocations) = applyClusterHA (g_Clusters g) (in_DownAssetIDs inp0);
          inp = revive_inputs g revived inp0;
          net = buildReachModel (net_input req inp) (in_DownAssetIDs inp) (req_cut req);
          caps = phaseCapacity g (in_DownInstanceIDs inp) net (needs_net g req);
          aliveHosts = alive_hosts caps;
          (reachOfDep, coverage) = computeDepReach g net aliveHosts (computeCoverage g net);
          routeMemberReach = computeRouteMemberReach g net aliveHosts;
          (st, iterations) = phasePropagate g (req_WindowSeconds req) (cap_statuses caps)
             (capacity_reasons g caps) (applied_reach req reachOfDep) (applied_reach req routeMemberReach)
      in \<lparr>run_inputs = inp, run_relocations = relocations, run_net = net, run_caps = caps,
          run_coverage = coverage, run_depReach = reachOfDep, run_state = st,
          run_iterations = iterations\<rparr>)"

definition own_rows :: "graph \<Rightarrow> engineRun \<Rightarrow> serviceImpact list" where
  "own_rows g r = concat (map (\<lambda>sid. fst (service_rows g (run_caps r) (run_state r) sid)) (keys (g_Services g)))"

definition startup_rows :: "graph \<Rightarrow> engineRun \<Rightarrow> serviceImpact list" where
  "startup_rows g r = concat (map (\<lambda>sid. snd (service_rows g (run_caps r) (run_state r) sid)) (keys (g_Services g)))"

definition report :: "graph \<Rightarrow> request \<Rightarrow> engineRun \<Rightarrow> impactResult" where
  "report g req r =
     (let rows = own_rows g r;
          (unreachable, coverage) = computeUnreachable g (run_net r) (alive_hosts (run_caps r))
             (ps_statuses (run_state r)) (run_coverage r);
          services = sortImpacts (rows @
             (if req_ReportReachabilityOnly req then []
              else computeExposureImpacts g unreachable (map si_ServiceID rows)));
          affected = dedup [] (map si_ServiceID services)
      in \<lparr>res_Services = services, res_WontRestart = sortImpacts (startup_rows g r),
          res_Cycles = detectCycles g affected, res_SafeOrder = fst (shutdownOrder g affected),
          res_Iterations = run_iterations r, res_Isolated = computeIsolated g (run_net r),
          res_Partitions = computePartitions g (g_Deps g) (run_depReach r),
          res_Unreachable = unreachable,
          res_RedundancyLost = computeRedundancyLost (net_input req (run_inputs r))
             (groupStatusesOrNil (run_net r)) (in_DownAssetIDs (run_inputs r)),
          res_Coverage = coverage, res_Relocations = run_relocations r,
          res_Structures = analyseStructures (g_Structures g) (in_DownAssetIDs (run_inputs r))\<rparr>)"

definition Analyse :: "graph \<Rightarrow> request \<Rightarrow> inputs \<Rightarrow> impactResult" where
  "Analyse g req inp = report g req (run_phases g req inp)"

end
