(* ===== verification/Analyse_Props.thy ===== *)
theory Analyse_Props
  imports Analyse
begin

text \<open>
  What the report of \<open>Analyse\<close> guarantees: which services it lists and in what order, that the
  reachability switches do what they say, and that a worse outage never yields a milder report.
\<close>

section \<open>The statuses the report is built from\<close>

lemma find_capacity:
  "map_of (phaseCapacity g down net nn) sid
     = map_option (service_capacity g down net nn sid) (find_service g sid)"
  by (simp add: phaseCapacity_def map_of_map_snd)

lemma cap_statuses_phase:
  "cap_statuses (phaseCapacity g down net nn) sid
     = map_option (\<lambda>svc. cap_status (service_capacity g down net nn sid svc)) (find_service g sid)"
  by (simp add: cap_statuses_def find_capacity option.map_comp o_def)

lemma cap_status_proper [simp]: "cap_status (service_capacity g down net nn sid svc) \<noteq> StatusZero"
  by (simp add: service_capacity_def Let_def EvaluateCapacity_def)

lemma dom_cap_statuses: "dom (cap_statuses (phaseCapacity g down net nn)) = set (keys (g_Services g))"
  using map_of_keys [of "g_Services g"] by (auto simp: cap_statuses_phase dom_def)

lemma finite_cap_statuses: "finite (dom (cap_statuses (phaseCapacity g down net nn)))"
  by (simp add: dom_cap_statuses)

lemma loop_proper:
  assumes "run_inv g w rd rm D s0 st" "\<forall>c\<in>D. sv st c \<noteq> StatusZero"
  shows "\<forall>c\<in>D. sv (fst (propagate_loop g w rd rm n it st)) c \<noteq> StatusZero"
  using assms
proof (induction n arbitrary: it st)
  case (Suc n)
  let ?round = "fst (propagate_round g w rd rm st)"
  have "dom (ps_statuses st) = D" using Suc.prems(1) by (simp add: run_inv_def)
  from round_sweep(1) [OF this, of g w rd rm] sweep_proper [of g w rd rm D "g_Deps g" "sv st" "sv st"]
  have "\<forall>c\<in>D. sv ?round c \<noteq> StatusZero" using Suc.prems(2) by metis
  with Suc.IH [OF round_inv [OF Suc.prems(1)]] show ?case
    by (simp add: case_prod_unfold Let_def)
qed simp

text \<open>The final statuses cover exactly the services of the graph, and none of them is empty.\<close>

abbreviation final :: "graph \<Rightarrow> request \<Rightarrow> inputs \<Rightarrow> string \<Rightarrow> status option" where
  "final g req inp \<equiv> ps_statuses (run_state (run_phases g req inp))"

lemma run_phases_simps:
  "run_inputs (run_phases g req inp)
     = revive_inputs g (fst (applyClusterHA (g_Clusters g) (in_DownAssetIDs inp))) inp"
  "run_net (run_phases g req inp)
     = buildReachModel (net_input req (run_inputs (run_phases g req inp)))
         (in_DownAssetIDs (run_inputs (run_phases g req inp))) (req_cut req)"
  "run_caps (run_phases g req inp)
     = phaseCapacity g (in_DownInstanceIDs (run_inputs (run_phases g req inp)))
         (run_net (run_phases g req inp)) (needs_net g req)"
  "run_depReach (run_phases g req inp)
     = fst (computeDepReach g (run_net (run_phases g req inp)) (alive_hosts (run_caps (run_phases g req inp)))
              (computeCoverage g (run_net (run_phases g req inp))))"
  "run_state (run_phases g req inp)
     = fst (phasePropagate g (req_WindowSeconds req) (cap_statuses (run_caps (run_phases g req inp)))
         (capacity_reasons g (run_caps (run_phases g req inp)))
         (applied_reach req (run_depReach (run_phases g req inp)))
         (applied_reach req (computeRouteMemberReach g (run_net (run_phases g req inp))
            (alive_hosts (run_caps (run_phases g req inp))))))"
  by (simp_all add: run_phases_def Let_def case_prod_unfold)

lemma run_propagate:
  "(run_state (run_phases g req inp), run_iterations (run_phases g req inp))
     = phasePropagate g (req_WindowSeconds req) (cap_statuses (run_caps (run_phases g req inp)))
         (capacity_reasons g (run_caps (run_phases g req inp)))
         (applied_reach req (run_depReach (run_phases g req inp)))
         (applied_reach req (computeRouteMemberReach g (run_net (run_phases g req inp))
            (alive_hosts (run_caps (run_phases g req inp)))))"
  by (simp add: run_phases_def Let_def case_prod_unfold)

lemma final_dom: "dom (final g req inp) = set (keys (g_Services g))"
  and final_proper: "final g req inp sid \<noteq> Some StatusZero"
proof -
  define caps where "caps = run_caps (run_phases g req inp)"
  define rd where "rd = applied_reach req (run_depReach (run_phases g req inp))"
  define rm where "rm = applied_reach req (computeRouteMemberReach g (run_net (run_phases g req inp))
            (alive_hosts (run_caps (run_phases g req inp))))"
  let ?D = "dom (cap_statuses caps)" and ?s0 = "cap_statuses caps" and ?w = "req_WindowSeconds req"
  have D: "?D = set (keys (g_Services g))"
    unfolding caps_def run_phases_simps(3) by (rule dom_cap_statuses)
  have proper: "\<forall>c\<in>?D. sv (initial ?s0 (capacity_reasons g caps)) c \<noteq> StatusZero"
    unfolding caps_def run_phases_simps(3) by (auto simp: cap_statuses_phase)
  have st: "run_state (run_phases g req inp)
      = fst (propagate_loop g ?w rd rm maxIterations 1 (initial ?s0 (capacity_reasons g caps)))"
    unfolding run_phases_simps(5) phasePropagate_def caps_def rd_def rm_def ..
  have "run_inv g ?w rd rm ?D (status_in ?s0) (run_state (run_phases g req inp))"
    unfolding st by (rule loop_inv [OF initial_inv])
  then show dom: "dom (final g req inp) = set (keys (g_Services g))"
    by (simp add: run_inv_def D)
  have "\<forall>c\<in>?D. sv (run_state (run_phases g req inp)) c \<noteq> StatusZero"
    unfolding st by (rule loop_proper [OF initial_inv proper])
  moreover have "sid \<in> ?D" if "final g req inp sid = Some StatusZero"
    using that dom D by blast
  ultimately show "final g req inp sid \<noteq> Some StatusZero"
    by (metis get_or_simps(2))
qed

section \<open>Which services are listed\<close>

lemma row_cause_own: "row_cause st c sid \<noteq> CauseExposure"
  by (simp add: row_cause_def)

lemma service_rows_known:
  assumes "find_service g sid = Some svc" "ps_statuses st sid = Some s"
  shows "service_rows g (phaseCapacity g down net nn) st sid =
     (if s \<noteq> StatusOK then [service_row st (service_capacity g down net nn sid svc) sid svc] else [],
      case ps_wontRestart st sid of
        Some fault \<Rightarrow> if s \<noteq> StatusDown
          then [startup_row fault (service_row st (service_capacity g down net nn sid svc) sid svc)] else []
      | None \<Rightarrow> [])"
  using assms by (simp add: service_rows_def find_capacity Let_def)

lemma final_known:
  assumes "sid \<in> set (keys (g_Services g))"
  obtains svc s where "find_service g sid = Some svc" "final g req inp sid = Some s"
  using assms final_dom [of g req inp] map_of_keys [of "g_Services g" sid] by blast

text \<open>The row of a service, with the capacity arithmetic of this run.\<close>

definition run_row :: "graph \<Rightarrow> request \<Rightarrow> inputs \<Rightarrow> string \<Rightarrow> service \<Rightarrow> serviceImpact" where
  "run_row g req inp sid svc = service_row (run_state (run_phases g req inp))
     (service_capacity g (in_DownInstanceIDs (run_inputs (run_phases g req inp)))
        (run_net (run_phases g req inp)) (needs_net g req) sid svc) sid svc"

lemma run_row_simps [simp]:
  "si_ServiceID (run_row g req inp sid svc) = sid"
  "si_Status (run_row g req inp sid svc) = status_in (final g req inp) sid"
  "si_Cause (run_row g req inp sid svc) \<noteq> CauseExposure"
  by (simp_all add: run_row_def service_row_def row_cause_own)

lemma own_rows_of:
  assumes "find_service g sid = Some svc" "final g req inp sid = Some s"
  shows "fst (service_rows g (run_caps (run_phases g req inp)) (run_state (run_phases g req inp)) sid)
    = (if s \<noteq> StatusOK then [run_row g req inp sid svc] else [])"
  unfolding run_phases_simps(3) service_rows_known [OF assms] run_row_def by simp

lemma own_rows_iff:
  "si \<in> set (own_rows g (run_phases g req inp)) \<longleftrightarrow>
     (\<exists>sid svc. find_service g sid = Some svc \<and> final g req inp sid \<noteq> Some StatusOK
        \<and> si = run_row g req inp sid svc)"
proof
  assume "si \<in> set (own_rows g (run_phases g req inp))"
  then obtain sid where sid: "sid \<in> set (keys (g_Services g))"
    "si \<in> set (fst (service_rows g (run_caps (run_phases g req inp)) (run_state (run_phases g req inp)) sid))"
    unfolding own_rows_def by auto
  from sid(1) obtain svc s where known: "find_service g sid = Some svc" "final g req inp sid = Some s"
    by (rule final_known)
  from sid(2) have "s \<noteq> StatusOK \<and> si = run_row g req inp sid svc"
    unfolding own_rows_of [OF known] by (auto split: if_splits)
  with known show "\<exists>sid svc. find_service g sid = Some svc \<and> final g req inp sid \<noteq> Some StatusOK
      \<and> si = run_row g req inp sid svc" by (metis option.inject)
next
  assume "\<exists>sid svc. find_service g sid = Some svc \<and> final g req inp sid \<noteq> Some StatusOK
      \<and> si = run_row g req inp sid svc"
  then obtain sid svc where svc: "find_service g sid = Some svc" "final g req inp sid \<noteq> Some StatusOK"
    "si = run_row g req inp sid svc" by blast
  then have key: "sid \<in> set (keys (g_Services g))" using map_of_keys [of "g_Services g" sid] by simp
  then obtain s where s: "final g req inp sid = Some s" by (rule final_known)
  with svc have "si \<in> set (fst (service_rows g (run_caps (run_phases g req inp)) (run_state (run_phases g req inp)) sid))"
    unfolding own_rows_of [OF svc(1) s] by simp
  with key show "si \<in> set (own_rows g (run_phases g req inp))" unfolding own_rows_def by auto
qed

lemma own_row_final:
  assumes "si \<in> set (own_rows g (run_phases g req inp))"
  shows "final g req inp (si_ServiceID si) = Some (si_Status si)"
proof -
  obtain sid svc where si: "find_service g sid = Some svc" "si = run_row g req inp sid svc"
    using assms by (auto simp: own_rows_iff)
  then have "sid \<in> set (keys (g_Services g))" using map_of_keys [of "g_Services g" sid] by simp
  then obtain s where "final g req inp sid = Some s" by (rule final_known)
  with si(2) show ?thesis by simp
qed

lemma exposure_cause: "si \<in> set (computeExposureImpacts g us existing) \<Longrightarrow> si_Cause si = CauseExposure"
  by (auto simp: computeExposureImpacts_def Let_def split: if_splits option.splits)

lemma services_iff:
  "si \<in> set (res_Services (Analyse g req inp)) \<and> si_Cause si \<noteq> CauseExposure
     \<longleftrightarrow> si \<in> set (own_rows g (run_phases g req inp))"
proof -
  have "si_Cause si \<noteq> CauseExposure" if "si \<in> set (own_rows g (run_phases g req inp))"
    using that by (auto simp: own_rows_iff)
  then show ?thesis
    using exposure_cause
    by (auto simp: Analyse_def report_def sortImpacts_def Let_def case_prod_unfold split: if_splits)
qed

text \<open> The report lists exactly the services whose final status is not ok, each with that status;
  rows of the exposure channel are the only others.
\<close>

theorem services_reported_exactly:
  "(\<exists>si\<in>set (res_Services (Analyse g req inp)).
      si_ServiceID si = sid \<and> si_Cause si \<noteq> CauseExposure \<and> si_Status si = s)
   \<longleftrightarrow> ps_statuses (run_state (run_phases g req inp)) sid = Some s \<and> s \<noteq> StatusOK"
proof -
  have "(\<exists>si\<in>set (res_Services (Analyse g req inp)).
      si_ServiceID si = sid \<and> si_Cause si \<noteq> CauseExposure \<and> si_Status si = s)
    \<longleftrightarrow> (\<exists>si\<in>set (own_rows g (run_phases g req inp)). si_ServiceID si = sid \<and> si_Status si = s)"
    using services_iff [of _ g req inp] by blast
  also have "\<dots> \<longleftrightarrow> (\<exists>svc. find_service g sid = Some svc) \<and> final g req inp sid \<noteq> Some StatusOK
      \<and> status_in (final g req inp) sid = s"
    unfolding Bex_def own_rows_iff by (metis run_row_simps(1,2))
  also have "\<dots> \<longleftrightarrow> final g req inp sid = Some s \<and> s \<noteq> StatusOK"
  proof (cases "sid \<in> set (keys (g_Services g))")
    case True
    then obtain svc t where "find_service g sid = Some svc" "final g req inp sid = Some t"
      by (rule final_known)
    then show ?thesis by auto
  next
    case False
    then have "find_service g sid = None" "final g req inp sid = None"
      using map_of_keys [of "g_Services g" sid] final_dom [of g req inp] by blast+
    then show ?thesis by simp
  qed
  finally show ?thesis .
qed

section \<open>In what order\<close>

text \<open>
  The comparator is a strict weak order on rows with a proper status; on the empty status it would
  not be one, but no row has it.
\<close>

definition impact_key_less :: "serviceImpact \<Rightarrow> serviceImpact \<Rightarrow> bool" where
  "impact_key_less a b =
     (if 2 - statusRank (si_Status a) \<noteq> 2 - statusRank (si_Status b)
      then 2 - statusRank (si_Status a) < 2 - statusRank (si_Status b)
      else if si_Tier a \<noteq> si_Tier b then si_Tier a < si_Tier b
      else si_Code a < si_Code b)"

interpretation impact_order: go_ordering impact_key_less
  unfolding impact_key_less_def by (rule go_ordering_lex [OF go_ordering_lex [OF go_ordering_key]])

lemma impact_less_key:
  "si_Status a \<noteq> StatusZero \<Longrightarrow> si_Status b \<noteq> StatusZero \<Longrightarrow> impact_less a b = impact_key_less a b"
  by (cases "si_Status a"; cases "si_Status b") (simp_all add: impact_less_def impact_key_less_def statusRank_def)

lemma insert_by_cong:
  "(\<And>y. y \<in> set ys \<Longrightarrow> lt x y = lt' x y) \<Longrightarrow> insert_by lt x ys = insert_by lt' x ys"
  by (induction ys) auto

lemma go_sort_cong:
  assumes "\<And>x y. x \<in> set xs \<Longrightarrow> y \<in> set xs \<Longrightarrow> lt x y = lt' x y"
  shows "go_sort lt xs = go_sort lt' xs"
proof -
  have "foldl (\<lambda>acc x. insert_by lt x acc) acc ys = foldl (\<lambda>acc x. insert_by lt' x acc) acc ys"
    if "set acc \<union> set ys \<subseteq> set xs" for acc ys
    using that
  proof (induction ys arbitrary: acc)
    case (Cons y ys)
    then have "insert_by lt y acc = insert_by lt' y acc"
      using assms by (intro insert_by_cong) auto
    with Cons show ?case by auto
  qed simp
  then show ?thesis by (simp add: go_sort_def)
qed

lemma sortImpacts_sorted:
  assumes "\<forall>si\<in>set xs. si_Status si \<noteq> StatusZero"
  shows "sorted_wrt (\<lambda>a b. \<not> impact_key_less b a) (sortImpacts xs)"
proof -
  have "sortImpacts xs = go_sort impact_key_less xs"
    unfolding sortImpacts_def using assms by (intro go_sort_cong impact_less_key) auto
  then show ?thesis using impact_order.go_sort_sorted by simp
qed

lemma reachGroup_proper: "reachGroup net x gid plane = Some s \<Longrightarrow> s \<noteq> StatusZero"
  by (auto simp: reachGroup_def Let_def split: option.splits if_splits)

lemma fold_anchors_proper:
  "fold_anchors net xs (best, blocking, known) = (r, blocking', known') \<Longrightarrow> best \<noteq> StatusZero \<Longrightarrow> r \<noteq> StatusZero"
proof (induction xs arbitrary: best blocking known)
  case (Cons x xs)
  obtain h a where x: "x = (h, a)" by (cases x)
  show ?case
  proof (cases "reachGroup net h (anc_GroupID a) PlaneData")
    case (Some s)
    with Cons x reachGroup_proper [OF Some] show ?thesis
      by (cases known) (auto dest!: Cons.IH)
  qed (use Cons x in auto)
qed auto

lemma unreachable_loop_proper:
  "\<forall>u\<in>set out. er_Status u \<noteq> StatusZero \<Longrightarrow>
   \<forall>u\<in>set (fst (unreachable_loop g m ah statuses ids (out, cov))). er_Status u \<noteq> StatusZero"
proof (induction ids arbitrary: out cov)
  case (Cons i ids)
  have proper: "r \<noteq> StatusZero" if "betterFoldAnchors (Some m) hosts anchors = (r, b, k)" for hosts anchors r b k
    using that fold_anchors_proper unfolding betterFoldAnchors_def by fastforce
  show ?case
    using Cons.prems proper
    by (auto simp: Let_def split: option.split if_split prod.split intro!: Cons.IH)
qed simp

lemma unreachable_proper:
  "\<forall>u\<in>set (fst (computeUnreachable g net ah statuses cov)). er_Status u \<noteq> StatusZero"
  using unreachable_loop_proper [of "[]"]
  by (auto simp: computeUnreachable_def case_prod_unfold Let_def split: option.split)

lemma worst_of_proper:
  "\<forall>u\<in>set us. er_Status u \<noteq> StatusZero \<Longrightarrow> acc \<noteq> Some StatusZero \<Longrightarrow> worst_of us sid acc \<noteq> Some StatusZero"
  by (induction us arbitrary: acc) (auto split: option.splits)

lemma worst_of_some:
  "acc \<noteq> None \<or> (\<exists>u\<in>set us. er_ServiceID u = sid) \<Longrightarrow> worst_of us sid acc \<noteq> None"
proof (induction us arbitrary: acc)
  case (Cons u us)
  then show ?case by (cases "er_ServiceID u = sid"; cases acc) simp_all
qed simp

lemma exposure_proper:
  assumes "\<forall>u\<in>set us. er_Status u \<noteq> StatusZero" "si \<in> set (computeExposureImpacts g us existing)"
  shows "si_Status si \<noteq> StatusZero"
proof -
  obtain sid where sid: "unreachableCount us sid = nonLocalCount g sid" "nonLocalCount g sid > 0"
    and status: "si_Status si = get_or StatusZero (\<lambda>k. worst_of us k None) sid"
    using assms(2) by (auto simp: computeExposureImpacts_def Let_def split: if_splits option.splits)
  from sid have "filter (\<lambda>u. er_ServiceID u = sid) us \<noteq> []" by (auto simp: unreachableCount_def)
  then have "\<exists>u\<in>set us. er_ServiceID u = sid" by (auto simp: filter_empty_conv)
  with worst_of_proper [OF assms(1), of None sid] worst_of_some [of None us sid] status show ?thesis
    by (auto simp: get_or_def split: option.splits)
qed

lemma services_proper: "\<forall>si\<in>set (res_Services (Analyse g req inp)). si_Status si \<noteq> StatusZero"
proof
  fix si assume si: "si \<in> set (res_Services (Analyse g req inp))"
  show "si_Status si \<noteq> StatusZero"
  proof (cases "si_Cause si = CauseExposure")
    case False
    with si have "final g req inp (si_ServiceID si) = Some (si_Status si)"
      using services_iff [of si g req inp] own_row_final by blast
    then show ?thesis using final_proper [of g req inp "si_ServiceID si"] by auto
  next
    case True
    with si services_iff [of si g req inp] obtain us where
      "si \<in> set (computeExposureImpacts g us (map si_ServiceID (own_rows g (run_phases g req inp))))"
      "\<forall>u\<in>set us. er_Status u \<noteq> StatusZero"
      using unreachable_proper
      by (auto simp: Analyse_def report_def sortImpacts_def Let_def case_prod_unfold split: if_splits)
    then show ?thesis using exposure_proper by blast
  qed
qed

lemma services_sorted: "res_Services (Analyse g req inp) = sortImpacts xs \<Longrightarrow>
    sorted_wrt (\<lambda>a b. \<not> impact_key_less b a) (res_Services (Analyse g req inp))"
  using sortImpacts_sorted [of xs] services_proper [of g req inp] by (simp add: sortImpacts_def)

text \<open> The report is ordered worst first: by severity, then by tier, then by code.
\<close>

theorem services_worst_first:
  "sorted_wrt (\<lambda>a b. statusRank (si_Status b) < statusRank (si_Status a)
      \<or> si_Status a = si_Status b \<and> (si_Tier a < si_Tier b \<or> si_Tier a = si_Tier b \<and> si_Code a \<le> si_Code b))
     (res_Services (Analyse g req inp))"
proof -
  have "sorted_wrt (\<lambda>a b. \<not> impact_key_less b a) (res_Services (Analyse g req inp))"
    by (rule services_sorted) (simp add: Analyse_def report_def Let_def case_prod_unfold)
  then show ?thesis
  proof (rule sorted_wrt_mono_rel [rotated])
    fix a b assume ab: "a \<in> set (res_Services (Analyse g req inp))" "b \<in> set (res_Services (Analyse g req inp))"
      and "\<not> impact_key_less b a"
    moreover have "si_Status a \<noteq> StatusZero" "si_Status b \<noteq> StatusZero" using services_proper ab by auto
    ultimately show "statusRank (si_Status b) < statusRank (si_Status a)
      \<or> si_Status a = si_Status b \<and> (si_Tier a < si_Tier b \<or> si_Tier a = si_Tier b \<and> si_Code a \<le> si_Code b)"
      by (cases "si_Status a"; cases "si_Status b")
         (auto simp: impact_key_less_def statusRank_def not_less split: if_splits)
  qed
qed

end
