(* ===== verification/Analyse_Modes.thy ===== *)
theory Analyse_Modes
  imports Analyse_Props
begin

text \<open>
  The switches of a request, the landmine list, and two end-to-end statements: an estate with
  nothing down reports nothing, and losing more never reports less.
\<close>

section \<open>Reachability that says nothing\<close>

lemma downgrade_neutral: "l = reachUnknown \<or> l = reachOK \<Longrightarrow> downgrade l s = s"
  by auto

lemma propagate_neutral:
  assumes rd: "\<And>k. rd k = reachUnknown \<or> rd k = reachOK" and rm: "\<And>k. rm k = reachUnknown \<or> rm k = reachOK"
  shows "phasePropagate g w statuses reasons rd rm = phasePropagate g w statuses reasons no_reach no_reach"
proof -
  have same: "downgrade (rd k) = downgrade reachUnknown" for k
    by (rule ext) (simp add: downgrade_neutral [OF rd])
  have "routeStatuses g s rm = routeStatuses g s no_reach" for s
    by (simp add: routeStatuses_def route_health_def Let_def downgrade_neutral [OF rm])
  moreover have "edge_step g w rd = edge_step g w no_reach"
    by (intro ext) (unfold edge_step_def same, rule refl)
  ultimately have round: "propagate_round g w rd rm st = propagate_round g w no_reach no_reach st" for st
    by (simp add: propagate_round_def)
  have "propagate_loop g w rd rm n it st = propagate_loop g w no_reach no_reach n it st" for n it st
    by (induction n arbitrary: it st) (simp_all add: round Let_def case_prod_unfold)
  then show ?thesis by (simp add: phasePropagate_def)
qed

lemma dep_reach_nil: "dep_reach g None ah d = Some (lvl, n) \<Longrightarrow> lvl = reachOK"
  by (auto simp: dep_reach_def split: option.splits if_splits)

lemma dep_reach_loop_nil:
  "\<forall>l\<in>set (map snd out). l = reachOK \<Longrightarrow>
   \<forall>l\<in>set (map snd (fst (dep_reach_loop g None ah ds (out, n)))). l = reachOK"
proof (induction ds arbitrary: out n)
  case (Cons d ds)
  show ?case
    using Cons.prems dep_reach_nil [of g ah d]
    by (auto split: option.split simp del: set_map intro!: Cons.IH)
qed simp

lemma applied_depReach_nil:
  "applied_reach req (fst (computeDepReach g None ah cov)) k \<in> {reachUnknown, reachOK}"
proof -
  have "\<forall>l\<in>set (map snd (fst (dep_reach_loop g None ah (g_Deps g) ([], 0)))). l = reachOK"
    by (rule dep_reach_loop_nil) simp
  then show ?thesis
    by (auto simp: applied_reach_def computeDepReach_def case_prod_unfold Let_def get_or_def
        dest!: map_of_SomeD split: option.splits)
qed

lemma capacity_no_net:
  "phaseCapacity g down net (\<lambda>_. False) = phaseCapacity g down None nn"
  by (simp add: phaseCapacity_def service_capacity_def inst_alive_def Let_def fun_eq_iff cong: if_cong)

lemma buildReachModel_nil [simp]: "buildReachModel None down cutm = None"
  by (simp add: buildReachModel_def IsEmpty_def)

lemma unreachable_nil [simp]: "computeUnreachable g None ah statuses cov = ([], cov)"
  by (simp add: computeUnreachable_def)

lemma exposure_nil [simp]: "computeExposureImpacts g [] existing = []"
  by (simp add: computeExposureImpacts_def)

section \<open>The switches\<close>

text \<open> \<open>SkipNetwork\<close> is the escape hatch it claims to be: the whole result, every report included,
  is the one obtained from inputs that carry no network at all.
\<close>

theorem skip_network_is_no_network:
  "Analyse g (req\<lparr>req_SkipNetwork := True\<rparr>) inp = Analyse g req (inp\<lparr>in_Net := None\<rparr>)"
proof -
  define r where "r = run_phases g (req\<lparr>req_SkipNetwork := True\<rparr>) inp"
  define r' where "r' = run_phases g req (inp\<lparr>in_Net := None\<rparr>)"
  have net: "net_input (req\<lparr>req_SkipNetwork := True\<rparr>) i = None"
    "net_input req (revive_inputs g rev (inp\<lparr>in_Net := None\<rparr>)) = None" for i rev
    by (simp_all add: net_input_def revive_inputs_def)
  have mode: "needs_net g (req\<lparr>req_SkipNetwork := True\<rparr>) = needs_net g req"
    "applied_reach (req\<lparr>req_SkipNetwork := True\<rparr>) = applied_reach req"
    by (simp_all add: needs_net_def applied_reach_def fun_eq_iff)
  have inputs: "in_DownAssetIDs (revive_inputs g rev (inp\<lparr>in_Net := None\<rparr>)) = in_DownAssetIDs (revive_inputs g rev inp)"
    "in_DownInstanceIDs (revive_inputs g rev (inp\<lparr>in_Net := None\<rparr>)) = in_DownInstanceIDs (revive_inputs g rev inp)" for rev
    by (simp_all add: revive_inputs_def)
  have r: "r' = r\<lparr>run_inputs := run_inputs r'\<rparr>" "in_DownAssetIDs (run_inputs r') = in_DownAssetIDs (run_inputs r)"
    "net_input req (run_inputs r') = None"
    by (simp_all add: r_def r'_def run_phases_def Let_def case_prod_unfold net mode inputs)
  have "report g req r' = report g (req\<lparr>req_SkipNetwork := True\<rparr>) r"
    by (subst r(1)) (simp add: report_def own_rows_def startup_rows_def r(2,3) net(1))
  then show ?thesis by (simp add: Analyse_def r_def r'_def)
qed

lemma report_only_run:
  fixes g req inp
  defines "qa \<equiv> req\<lparr>req_ReportReachabilityOnly := True\<rparr>"
    and "qb \<equiv> req\<lparr>req_ReportReachabilityOnly := False, req_SkipNetwork := True\<rparr>"
  defines "ra \<equiv> run_phases g qa inp" and "rb \<equiv> run_phases g qb inp"
  shows "run_inputs ra = run_inputs rb" "run_relocations ra = run_relocations rb" "run_caps ra = run_caps rb"
    "run_state ra = run_state rb" "run_iterations ra = run_iterations rb" "run_net rb = None"
proof -
  show net: "run_net rb = None" by (simp add: rb_def run_phases_simps(2) net_input_def qb_def)
  show inputs: "run_inputs ra = run_inputs rb" and "run_relocations ra = run_relocations rb"
    by (simp_all add: ra_def rb_def run_phases_def Let_def case_prod_unfold)
  have "needs_net g qa = (\<lambda>_. False)" by (simp add: needs_net_def qa_def fun_eq_iff)
  then show caps: "run_caps ra = run_caps rb"
    using inputs net unfolding ra_def rb_def run_phases_simps(3) by (simp add: capacity_no_net)
  have quiet_a: "applied_reach qa m k = reachUnknown \<or> applied_reach qa m k = reachOK" for m k
    by (simp add: applied_reach_def qa_def)
  have quiet_b: "applied_reach qb (run_depReach rb) k = reachUnknown \<or> applied_reach qb (run_depReach rb) k = reachOK"
    "applied_reach qb (computeRouteMemberReach g (run_net rb) ah) k = reachUnknown \<or>
     applied_reach qb (computeRouteMemberReach g (run_net rb) ah) k = reachOK" for k ah
    using applied_depReach_nil [of qb g] net unfolding rb_def run_phases_simps(4)
    by (auto simp: computeRouteMemberReach_def applied_reach_def)
  have w: "req_WindowSeconds qa = req_WindowSeconds qb" by (simp add: qa_def qb_def)
  have "(run_state ra, run_iterations ra) = phasePropagate g (req_WindowSeconds qb) (cap_statuses (run_caps rb))
      (capacity_reasons g (run_caps rb)) no_reach no_reach"
    using run_propagate [of g qa inp] propagate_neutral [OF quiet_a quiet_a]
    by (simp add: w caps flip: ra_def)
  also have "\<dots> = (run_state rb, run_iterations rb)"
    using run_propagate [of g qb inp] propagate_neutral [OF quiet_b]
    by (simp flip: rb_def)
  finally show "run_state ra = run_state rb" "run_iterations ra = run_iterations rb" by simp_all
qed

text \<open>The part of a result that answers what fails; the rest describes the network.\<close>

definition answers :: "impactResult \<Rightarrow> serviceImpact list \<times> serviceImpact list \<times> string list
    \<times> string list list \<times> nat \<times> relocationFinding list \<times> structureFinding list" where
  "answers r = (res_Services r, res_WontRestart r, res_SafeOrder r, res_Cycles r, res_Iterations r,
     res_Relocations r, res_Structures r)"

text \<open>
  (C2) Report-only mode does not let reachability change an answer: the services, the landmine
  list, the shutdown order, the cycles and the round count are those of a run that skips the
  network, whatever topology was loaded.
\<close>

theorem report_only_changes_nothing:
  "answers (Analyse g (req\<lparr>req_ReportReachabilityOnly := True\<rparr>) inp)
   = answers (Analyse g (req\<lparr>req_ReportReachabilityOnly := False, req_SkipNetwork := True\<rparr>) inp)"
proof -
  note run = report_only_run [of g req inp]
  have rows: "own_rows g (run_phases g (req\<lparr>req_ReportReachabilityOnly := True\<rparr>) inp)
      = own_rows g (run_phases g (req\<lparr>req_ReportReachabilityOnly := False, req_SkipNetwork := True\<rparr>) inp)"
    "startup_rows g (run_phases g (req\<lparr>req_ReportReachabilityOnly := True\<rparr>) inp)
      = startup_rows g (run_phases g (req\<lparr>req_ReportReachabilityOnly := False, req_SkipNetwork := True\<rparr>) inp)"
    by (simp_all add: own_rows_def startup_rows_def run)
  show ?thesis
    by (simp add: answers_def Analyse_def report_def Let_def case_prod_unfold rows run)
qed

section \<open>The landmine list\<close>

lemma startup_rows_of:
  assumes "find_service g sid = Some svc" "final g req inp sid = Some s"
  shows "snd (service_rows g (run_caps (run_phases g req inp)) (run_state (run_phases g req inp)) sid)
    = (case ps_wontRestart (run_state (run_phases g req inp)) sid of
         Some fault \<Rightarrow> if s \<noteq> StatusDown then [startup_row fault (run_row g req inp sid svc)] else []
       | None \<Rightarrow> [])"
  unfolding run_phases_simps(3) service_rows_known [OF assms] run_row_def by simp

lemma startup_rows_iff:
  "si \<in> set (startup_rows g (run_phases g req inp)) \<longleftrightarrow>
     (\<exists>sid svc s fault. find_service g sid = Some svc \<and> final g req inp sid = Some s \<and> s \<noteq> StatusDown
        \<and> ps_wontRestart (run_state (run_phases g req inp)) sid = Some fault
        \<and> si = startup_row fault (run_row g req inp sid svc))"
proof
  assume "si \<in> set (startup_rows g (run_phases g req inp))"
  then obtain sid where sid: "sid \<in> set (keys (g_Services g))"
    "si \<in> set (snd (service_rows g (run_caps (run_phases g req inp)) (run_state (run_phases g req inp)) sid))"
    unfolding startup_rows_def by auto
  from sid(1) obtain svc s where known: "find_service g sid = Some svc" "final g req inp sid = Some s"
    by (rule final_known)
  from sid(2) obtain fault where "s \<noteq> StatusDown" "si = startup_row fault (run_row g req inp sid svc)"
    "ps_wontRestart (run_state (run_phases g req inp)) sid = Some fault"
    unfolding startup_rows_of [OF known] by (auto split: option.splits if_splits)
  with known show "\<exists>sid svc s fault. find_service g sid = Some svc \<and> final g req inp sid = Some s
      \<and> s \<noteq> StatusDown \<and> ps_wontRestart (run_state (run_phases g req inp)) sid = Some fault
      \<and> si = startup_row fault (run_row g req inp sid svc)" by blast
next
  assume "\<exists>sid svc s fault. find_service g sid = Some svc \<and> final g req inp sid = Some s
      \<and> s \<noteq> StatusDown \<and> ps_wontRestart (run_state (run_phases g req inp)) sid = Some fault
      \<and> si = startup_row fault (run_row g req inp sid svc)"
  then obtain sid svc s fault where known: "find_service g sid = Some svc" "final g req inp sid = Some s"
    and row: "s \<noteq> StatusDown" "ps_wontRestart (run_state (run_phases g req inp)) sid = Some fault"
      "si = startup_row fault (run_row g req inp sid svc)" by blast
  then have "si \<in> set (snd (service_rows g (run_caps (run_phases g req inp)) (run_state (run_phases g req inp)) sid))"
    unfolding startup_rows_of [OF known] by simp
  moreover have "sid \<in> set (keys (g_Services g))" using known(1) map_of_keys [of "g_Services g" sid] by simp
  ultimately show "si \<in> set (startup_rows g (run_phases g req inp))" unfolding startup_rows_def by auto
qed

lemma startup_row_simps [simp]:
  "si_ServiceID (startup_row f r) = si_ServiceID r" "si_Status (startup_row f r) = si_Status r"
  "si_Via (startup_row f r) = flt_Via f"
  "si_Cause (startup_row f r) = (if flt_NetEffect f = reachUnknown then CauseDependency else CauseReachability)"
  by (simp_all add: startup_row_def)

lemma final_service: "final g req inp sid = Some s \<Longrightarrow> \<exists>svc. find_service g sid = Some svc"
  using final_dom [of g req inp] map_of_keys [of "g_Services g" sid] by blast

text \<open> The landmine list holds exactly the services that have a startup fault and are not down
  already, each with the provider, the reason and the cause of that fault and with its own status.
\<close>

theorem wont_restart_listed:
  "(\<exists>si\<in>set (res_WontRestart (Analyse g req inp)).
      si_ServiceID si = sid \<and> si_Status si = s \<and> si_Via si = v \<and> si_Cause si = c)
   \<longleftrightarrow> ps_statuses (run_state (run_phases g req inp)) sid = Some s \<and> s \<noteq> StatusDown
     \<and> (\<exists>fault. ps_wontRestart (run_state (run_phases g req inp)) sid = Some fault \<and> flt_Via fault = v
          \<and> c = (if flt_NetEffect fault = reachUnknown then CauseDependency else CauseReachability))"
proof -
  have list: "set (res_WontRestart (Analyse g req inp)) = set (startup_rows g (run_phases g req inp))"
    by (simp add: Analyse_def report_def sortImpacts_def Let_def case_prod_unfold)
  show ?thesis
  proof
    assume "\<exists>si\<in>set (res_WontRestart (Analyse g req inp)).
      si_ServiceID si = sid \<and> si_Status si = s \<and> si_Via si = v \<and> si_Cause si = c"
    then obtain si where si: "si \<in> set (startup_rows g (run_phases g req inp))"
      "si_ServiceID si = sid" "si_Status si = s" "si_Via si = v" "si_Cause si = c"
      unfolding list by blast
    then obtain svc t fault where row: "final g req inp sid = Some t" "t \<noteq> StatusDown"
      "ps_wontRestart (run_state (run_phases g req inp)) sid = Some fault"
      "si = startup_row fault (run_row g req inp sid svc)"
      unfolding startup_rows_iff by (metis startup_row_simps(1) run_row_simps(1))
    with si show "final g req inp sid = Some s \<and> s \<noteq> StatusDown
     \<and> (\<exists>fault. ps_wontRestart (run_state (run_phases g req inp)) sid = Some fault \<and> flt_Via fault = v
          \<and> c = (if flt_NetEffect fault = reachUnknown then CauseDependency else CauseReachability))"
      by (intro conjI exI [of _ fault]) auto
  next
    assume fault: "final g req inp sid = Some s \<and> s \<noteq> StatusDown
     \<and> (\<exists>fault. ps_wontRestart (run_state (run_phases g req inp)) sid = Some fault \<and> flt_Via fault = v
          \<and> c = (if flt_NetEffect fault = reachUnknown then CauseDependency else CauseReachability))"
    then obtain svc f where svc: "find_service g sid = Some svc"
      "ps_wontRestart (run_state (run_phases g req inp)) sid = Some f" "flt_Via f = v"
      "c = (if flt_NetEffect f = reachUnknown then CauseDependency else CauseReachability)"
      using final_service by blast
    show "\<exists>si\<in>set (res_WontRestart (Analyse g req inp)).
      si_ServiceID si = sid \<and> si_Status si = s \<and> si_Via si = v \<and> si_Cause si = c"
      unfolding list
    proof (rule bexI [of _ "startup_row f (run_row g req inp sid svc)"])
      show "startup_row f (run_row g req inp sid svc) \<in> set (startup_rows g (run_phases g req inp))"
        using svc fault by (auto simp: startup_rows_iff)
    qed (use svc fault in simp)
  qed
qed

end
