(* ===== verification/Analyse_Outage.thy ===== *)
theory Analyse_Outage
  imports Analyse_Modes
begin

text \<open>
  End-to-end statements about \<open>Analyse\<close>: nothing down gives an empty report, losing more instances
  never improves a status, and the list of services and the shutdown order talk about the same
  services, each once.
\<close>

section \<open>One row per service\<close>

lemma distinct_concat_single:
  assumes "distinct xs" "\<And>x. x \<in> set xs \<Longrightarrow> map f (h x) = [] \<or> map f (h x) = [x]"
  shows "distinct (map f (concat (map h xs)))" "set (map f (concat (map h xs))) \<subseteq> set xs"
proof -
  have "distinct (map f (concat (map h xs))) \<and> set (map f (concat (map h xs))) \<subseteq> set xs"
    using assms
  proof (induction xs)
    case (Cons x xs)
    from Cons.prems(2) [of x] have "map f (h x) = [] \<or> map f (h x) = [x]" by simp
    moreover have "distinct (map f (concat (map h xs)))" "set (map f (concat (map h xs))) \<subseteq> set xs"
      using Cons by simp_all
    ultimately show ?case using Cons.prems(1) by (elim disjE) (simp_all, blast+)
  qed simp
  then show "distinct (map f (concat (map h xs)))" "set (map f (concat (map h xs))) \<subseteq> set xs" by simp_all
qed

lemma own_rows_distinct:
  assumes "distinct (keys (g_Services g))"
  shows "distinct (map si_ServiceID (own_rows g (run_phases g req inp)))"
  unfolding own_rows_def
proof (rule distinct_concat_single(1) [OF assms])
  fix sid assume "sid \<in> set (keys (g_Services g))"
  then obtain svc s where known: "find_service g sid = Some svc" "final g req inp sid = Some s"
    by (rule final_known)
  show "map si_ServiceID (fst (service_rows g (run_caps (run_phases g req inp)) (run_state (run_phases g req inp)) sid)) = []
     \<or> map si_ServiceID (fst (service_rows g (run_caps (run_phases g req inp)) (run_state (run_phases g req inp)) sid)) = [sid]"
    unfolding own_rows_of [OF known] by simp
qed

lemma exposure_rows_distinct:
  "distinct (map si_ServiceID (computeExposureImpacts g us existing))
   \<and> set (map si_ServiceID (computeExposureImpacts g us existing)) \<inter> set existing = {}"
proof -
  define ids where "ids = go_sort (<) (filter (\<lambda>sid. nonLocalCount g sid > 0
      \<and> unreachableCount us sid = nonLocalCount g sid \<and> \<not> List.member existing sid)
      (dedup [] (map ep_ServiceID (filter exposed (map snd (g_Endpoints g))))))"
  define row where "row = (\<lambda>sid. case find_service g sid of None \<Rightarrow> []
      | Some svc \<Rightarrow> [\<lparr>si_ServiceID = sid, si_Code = svc_Code svc, si_Name = svc_Name svc,
          si_Tier = svc_Tier svc, si_Status = get_or StatusZero (\<lambda>k. worst_of us k None) sid,
          si_Reason = exposure_reason_of us sid, si_LostInstances = 0, si_TotalInstances = 0,
          si_Via = [], si_Cause = CauseExposure, si_LostToIsolation = 0\<rparr>])"
  have rows: "computeExposureImpacts g us existing = (if us = [] then [] else concat (map row ids))"
    by (simp add: computeExposureImpacts_def ids_def row_def Let_def)
  have "map si_ServiceID (row x) = [] \<or> map si_ServiceID (row x) = [x]" for x
    by (simp add: row_def split: option.split)
  moreover have "distinct ids" "set ids \<inter> set existing = {}"
    by (auto simp: ids_def distinct_dedup)
  ultimately have "distinct (map si_ServiceID (concat (map row ids)))"
    "set (map si_ServiceID (concat (map row ids))) \<inter> set existing = {}"
    using distinct_concat_single [of ids si_ServiceID row] by blast+
  then show ?thesis unfolding rows by simp
qed

lemma services_distinct:
  assumes "distinct (keys (g_Services g))"
  shows "distinct (map si_ServiceID (res_Services (Analyse g req inp)))"
proof -
  have sort: "distinct (map f (go_sort lt xs)) = distinct (map f xs)" for f :: "serviceImpact \<Rightarrow> string" and lt xs
    by (metis mset_eq_imp_distinct_iff mset_go_sort mset_map)
  have "distinct (map si_ServiceID (own_rows g (run_phases g req inp)) @
      map si_ServiceID (computeExposureImpacts g us (map si_ServiceID (own_rows g (run_phases g req inp)))))" for us
    unfolding distinct_append
    using own_rows_distinct [OF assms, of req inp] exposure_rows_distinct [of g us "map si_ServiceID (own_rows g (run_phases g req inp))"]
    by blast
  then show ?thesis
    using own_rows_distinct [OF assms]
    by (simp add: Analyse_def report_def sortImpacts_def Let_def case_prod_unfold sort del: set_map)
qed

text \<open> The service list and the shutdown order agree: no service is listed twice, and the order
  names the code of each listed service exactly once.
\<close>

theorem safe_order_covers_services:
  assumes "distinct (keys (g_Services g))"
  shows "distinct (map si_ServiceID (res_Services (Analyse g req inp)))
   \<and> mset (res_SafeOrder (Analyse g req inp))
     = mset (map (codeOf g \<circ> si_ServiceID) (res_Services (Analyse g req inp)))"
proof (intro conjI)
  show dist: "distinct (map si_ServiceID (res_Services (Analyse g req inp)))"
    by (rule services_distinct [OF assms])
  have "dedup [] xs = xs" if "distinct xs" for xs :: "string list"
  proof -
    have "dedup seen xs = xs" if "distinct xs" "set seen \<inter> set xs = {}" for seen
      using that by (induction seen xs rule: dedup.induct) auto
    with that show ?thesis by simp
  qed
  with dist have "res_SafeOrder (Analyse g req inp)
      = fst (shutdownOrder g (map si_ServiceID (res_Services (Analyse g req inp))))"
    by (simp add: Analyse_def report_def Let_def case_prod_unfold)
  then show "mset (res_SafeOrder (Analyse g req inp))
      = mset (map (codeOf g \<circ> si_ServiceID) (res_Services (Analyse g req inp)))"
    using shutdown_order_mset [OF dist] by simp
qed

section \<open>Losing more\<close>

lemma capacity_mono:
  assumes "set down \<subseteq> set down'"
  shows "cap_status (service_capacity g down None nn sid svc) \<le> cap_status (service_capacity g down' None nn sid svc)"
proof -
  let ?is = "filter (\<lambda>i. \<not> inst_Disabled i) (instances_of g sid)"
  let ?health = "\<lambda>d. map (\<lambda>i. \<lparr>ih_ID = inst_ID i, ih_Role = inst_Role i, ih_Shard = inst_Shard i,
      ih_Alive = inst_alive d None nn sid i\<rparr>) ?is"
  have "loses (?health down) (?health down')"
    using assms by (auto simp: loses_def list_all2_conv_all_nth inst_alive_def inst_down_by_placement_def)
  then show ?thesis
    by (simp add: service_capacity_def Let_def EvaluateCapacity_def Evaluate_mono)
qed

lemma skip_run:
  assumes "req_SkipNetwork req" "fst (applyClusterHA (g_Clusters g) (in_DownAssetIDs inp)) = []"
  shows "run_inputs (run_phases g req inp) = inp" "run_net (run_phases g req inp) = None"
    "run_caps (run_phases g req inp) = phaseCapacity g (in_DownInstanceIDs inp) None (needs_net g req)"
    "(run_state (run_phases g req inp), run_iterations (run_phases g req inp))
       = phasePropagate g (req_WindowSeconds req)
           (cap_statuses (phaseCapacity g (in_DownInstanceIDs inp) None (needs_net g req)))
           (capacity_reasons g (phaseCapacity g (in_DownInstanceIDs inp) None (needs_net g req))) no_reach no_reach"
proof -
  show inp: "run_inputs (run_phases g req inp) = inp"
    using assms(2) by (simp add: run_phases_simps(1) revive_inputs_def)
  show net: "run_net (run_phases g req inp) = None"
    using assms(1) by (simp add: run_phases_simps(2) net_input_def)
  show caps: "run_caps (run_phases g req inp) = phaseCapacity g (in_DownInstanceIDs inp) None (needs_net g req)"
    by (simp add: run_phases_simps(3) inp net)
  have a: "applied_reach req (run_depReach (run_phases g req inp)) k = reachUnknown
      \<or> applied_reach req (run_depReach (run_phases g req inp)) k = reachOK" for k
    using applied_depReach_nil [of req g] by (auto simp: run_phases_simps(4) net)
  have b: "applied_reach req (computeRouteMemberReach g None ah) k = reachUnknown
      \<or> applied_reach req (computeRouteMemberReach g None ah) k = reachOK" for k ah
    by (simp add: applied_reach_def computeRouteMemberReach_def)
  show "(run_state (run_phases g req inp), run_iterations (run_phases g req inp))
       = phasePropagate g (req_WindowSeconds req)
           (cap_statuses (phaseCapacity g (in_DownInstanceIDs inp) None (needs_net g req)))
           (capacity_reasons g (phaseCapacity g (in_DownInstanceIDs inp) None (needs_net g req))) no_reach no_reach"
    unfolding run_propagate net caps by (rule propagate_neutral [OF a b])
qed

text \<open>
  Losing more instances never improves the report: without clusters and without a network,
  if one outage takes down every instance another one does, each service is at least as severely
  affected, provided the larger analysis came to rest.
\<close>

theorem outage_monotone:
  assumes "g_Clusters g = []" "req_SkipNetwork req"
    and "set (in_DownInstanceIDs inp) \<subseteq> set (in_DownInstanceIDs inp')"
    and "res_Iterations (Analyse g req inp') < maxIterations
         \<or> 3 * card (set (map fst (g_Services g))) < maxIterations"
  shows "status_in (ps_statuses (run_state (run_phases g req inp))) sid
       \<le> status_in (ps_statuses (run_state (run_phases g req inp'))) sid"
proof -
  have ha: "fst (applyClusterHA (g_Clusters g) down) = []" for down
    by (simp add: applyClusterHA_def assms(1))
  let ?s = "\<lambda>i. cap_statuses (phaseCapacity g (in_DownInstanceIDs i) None (needs_net g req))"
  have le: "status_in (?s inp) \<le> status_in (?s inp')"
    using capacity_mono [OF assms(3)]
    by (auto simp: le_fun_def get_or_def cap_statuses_phase split: option.split)
  have iter: "res_Iterations (Analyse g req inp') = run_iterations (run_phases g req inp')"
    by (simp add: Analyse_def report_def Let_def case_prod_unfold)
  have "status_in (final g req inp) \<le> status_in (final g req inp')"
    by (rule phasePropagate_mono [OF finite_cap_statuses _ le
          skip_run(4) [OF assms(2) ha, symmetric] skip_run(4) [OF assms(2) ha, symmetric]])
       (use assms(4) iter in \<open>simp_all add: dom_cap_statuses\<close>)
  then show ?thesis by (simp add: le_fun_def)
qed

section \<open>Losing nothing\<close>

text \<open>
  A graph in which the frontend endpoint of every route belongs to a service that is in the graph,
  and routes are filed under their own id.
\<close>

definition frontends_known :: "graph \<Rightarrow> bool" where
  "frontends_known g \<longleftrightarrow>
     list_all (\<lambda>(rid, r). route_ID r = rid
        \<and> (case find_endpoint g (route_FrontendEndpointID r) of
             None \<Rightarrow> True | Some ep \<Rightarrow> find_service g (ep_ServiceID ep) \<noteq> None)) (g_Routes g)"

lemma healthy_capacity: "cap_status (service_capacity g [] None nn sid svc) = StatusOK"
  by (simp add: service_capacity_def Let_def EvaluateCapacity_def Evaluate_all_alive surviving_def
      inst_alive_def inst_down_by_placement_def filter_map o_def)

lemma healthy_route:
  assumes "frontends_known g" "find_route g rid = Some r" "\<And>k. find_service g k \<noteq> None \<Longrightarrow> s k = StatusOK"
  shows "rh_Status (route_health g s no_reach r) = StatusOK"
proof -
  have "(case find_endpoint g (route_FrontendEndpointID r) of
      Some ep \<Rightarrow> s (ep_ServiceID ep) | None \<Rightarrow> StatusOK) = StatusOK"
    using assms(1,3) map_of_SomeD [OF assms(2)] by (auto simp: frontends_known_def list_all_iff split: option.splits)
  moreover have "pool_status (map (member_status g s) (live_members g r)) = StatusOK"
  proof -
    have "\<forall>e\<in>set (live_members g r). member_status g s e = StatusOK"
      using assms(3) by (auto simp: live_members_def member_status_def split: option.splits)
    then show ?thesis by (cases "live_members g r") (simp_all add: pool_status_iff)
  qed
  ultimately show ?thesis by (simp add: route_health_def Let_def Worse_max)
qed

lemma healthy_provider:
  assumes "frontends_known g" "\<And>k. find_service g k \<noteq> None \<Longrightarrow> s k = StatusOK"
    and "provider_seen g no_reach no_reach d s s = Some p"
  shows "p = StatusOK"
proof -
  have "route_ID r = rid" if "find_route g rid = Some r" for rid r
    using assms(1) map_of_SomeD [OF that] by (auto simp: frontends_known_def list_all_iff)
  with assms show ?thesis
    by (auto simp: provider_seen_def providerHealth_def routeStatuses_def map_of_map_snd Let_def
        split: option.splits intro: healthy_route [OF assms(1)])
qed

lemma healthy_run:
  assumes "frontends_known g" "\<And>k. find_service g k \<noteq> None \<Longrightarrow> statuses k = Some StatusOK"
    and "dom statuses = set (keys (g_Services g))"
  shows "ps_statuses (fst (phasePropagate g w statuses reasons no_reach no_reach)) = statuses"
    and "ps_wontRestart (fst (phasePropagate g w statuses reasons no_reach no_reach)) = Map.empty"
proof -
  define st where "st = fst (phasePropagate g w statuses reasons no_reach no_reach)"
  let ?D = "dom statuses" and ?s = "status_in statuses"
  have ok: "find_service g k \<noteq> None \<Longrightarrow> ?s k = StatusOK" for k using assms(2) by simp
  have seen: "provider_seen g no_reach no_reach d ?s ?s = Some p \<Longrightarrow> p = StatusOK" for d p
    by (rule healthy_provider [OF assms(1) ok])
  have "edge_effect g w no_reach no_reach ?D d ?s ?s = StatusOK" for d
    using seen [of d] by (cases "provider_seen g no_reach no_reach d ?s ?s") (auto simp: edge_effect_def)
  then have "settled g w no_reach no_reach ?D ?s" by (simp add: settled_def)
  moreover have inv: "run_inv g w no_reach no_reach ?D ?s st"
    unfolding st_def phasePropagate_def by (rule loop_inv [OF initial_inv])
  ultimately have same: "sv st = ?s" by (auto simp: run_inv_def intro: antisym)
  then show "ps_statuses st = statuses"
    using inv by (intro statuses_eqI) (simp_all add: run_inv_def)
  have "\<not> edge_blocks_restart g w no_reach no_reach ?D d (sv st) (sv st)" for d
    using seen [of d] by (auto simp: edge_blocks_restart_def same split: option.splits)
  with inv have "dom (ps_wontRestart st) = {}" by (auto simp: run_inv_def)
  then show "ps_wontRestart st = Map.empty" by simp
qed

text \<open>
  An analysis of no outage reports no outage: with nothing down, the network skipped and
  every route's frontend service in the graph, no service is listed as affected, none as unable to
  restart, and nothing is suggested for shutdown.
\<close>

theorem no_outage_no_impact:
  assumes "frontends_known g" "req_SkipNetwork req"
    and "in_DownAssetIDs inp = []" "in_DownInstanceIDs inp = []"
  shows "res_Services (Analyse g req inp) = []
   \<and> res_WontRestart (Analyse g req inp) = []
   \<and> res_SafeOrder (Analyse g req inp) = []"
proof (intro conjI)
  let ?caps = "phaseCapacity g [] None (needs_net g req)"
  have "cluster_turn c [] = ([], [])" for c by (simp add: cluster_turn_def failed_hosts_def)
  then have ha: "fst (applyClusterHA (g_Clusters g) (in_DownAssetIDs inp)) = []"
    by (simp add: applyClusterHA_def assms(3))
  note run = skip_run [OF assms(2) ha, unfolded assms(4)]
  have "cap_statuses ?caps k = Some StatusOK" if "find_service g k \<noteq> None" for k
    using that by (auto simp: cap_statuses_phase healthy_capacity)
  note healthy = healthy_run [OF assms(1) this dom_cap_statuses]
  have st: "run_state (run_phases g req inp) = fst (phasePropagate g (req_WindowSeconds req)
      (cap_statuses ?caps) (capacity_reasons g ?caps) no_reach no_reach)"
    using run(4) by (metis fst_conv)
  have final: "final g req inp k \<noteq> Some s" if "s \<noteq> StatusOK" for k s
    unfolding st healthy(1) [simplified] using that by (auto simp: cap_statuses_phase healthy_capacity)
  have "own_rows g (run_phases g req inp) = []"
  proof -
    have "si \<notin> set (own_rows g (run_phases g req inp))" for si
    proof
      assume si: "si \<in> set (own_rows g (run_phases g req inp))"
      then have "final g req inp (si_ServiceID si) = Some (si_Status si)" by (rule own_row_final)
      moreover have "final g req inp (si_ServiceID si) \<noteq> Some StatusOK"
        using si unfolding own_rows_iff by auto
      ultimately show False using final by metis
    qed
    then show ?thesis by (metis last_in_set)
  qed
  moreover have "startup_rows g (run_phases g req inp) = []"
  proof -
    have "si \<notin> set (startup_rows g (run_phases g req inp))" for si
      by (simp add: startup_rows_iff st healthy(2))
    then show ?thesis by (metis last_in_set)
  qed
  ultimately show services: "res_Services (Analyse g req inp) = []" and "res_WontRestart (Analyse g req inp) = []"
    by (simp_all add: Analyse_def report_def sortImpacts_def go_sort_def Let_def case_prod_unfold run(2))
  then have "res_SafeOrder (Analyse g req inp) = fst (shutdownOrder g [])"
    by (simp add: Analyse_def report_def Let_def case_prod_unfold)
  then show "res_SafeOrder (Analyse g req inp) = []"
    using shutdown_order_mset [of "[]" g] by simp
qed

section \<open>A concrete analysis\<close>

definition demo_request :: request where
  "demo_request = \<lparr>req_DownAssetIDs = [''h-db''], req_CutCircuitIDs = [], req_CutLinkIDs = [],
     req_WindowSeconds = 600, req_UseObservedHealth = False, req_SkipNetwork = True,
     req_ReportReachabilityOnly = False\<rparr>"

definition demo_inputs :: "string list \<Rightarrow> string list \<Rightarrow> inputs" where
  "demo_inputs assets insts = \<lparr>in_DownInstanceIDs = insts, in_DownAssetIDs = assets, in_Net = None\<rparr>"

lemma demo_keys: "map fst (g_Services demo_graph) = [''web'', ''app'', ''db'', ''rep'']"
  by (simp add: demo_graph_def small_graph_def)

theorem safe_order_covers_services_witness:
  "mset (res_SafeOrder (Analyse demo_graph demo_request (demo_inputs [''h-db''] [''i-db''])))
   = mset (map (codeOf demo_graph \<circ> si_ServiceID)
       (res_Services (Analyse demo_graph demo_request (demo_inputs [''h-db''] [''i-db'']))))"
  by (rule safe_order_covers_services [THEN conjunct2]) (simp add: demo_keys)

theorem outage_monotone_witness:
  "status_in (ps_statuses (run_state (run_phases demo_graph demo_request (demo_inputs [] [])))) ''web''
   \<le> status_in (ps_statuses (run_state (run_phases demo_graph demo_request
        (demo_inputs [''h-db''] [''i-db''])))) ''web''"
  by (rule outage_monotone)
     (simp_all add: demo_keys demo_request_def demo_inputs_def maxIterations_def,
      simp add: demo_graph_def small_graph_def NewGraph_def)

theorem no_outage_no_impact_witness:
  "res_Services (Analyse demo_graph demo_request (demo_inputs [] [])) = []"
  by (rule no_outage_no_impact [THEN conjunct1])
     (simp_all add: demo_request_def demo_inputs_def frontends_known_def demo_graph_def small_graph_def NewGraph_def)

end
