(* ===== verification/Truncation.thy ===== *)
theory Truncation
  imports Fixpoint
begin

text \<open>
  Two situations in which the report of the engine is not the specified one, each as a theorem
  about the model: a dependency chain longer than \<open>maxIterations\<close> hops whose edges are listed
  from the far end, and a route whose frontend belongs to a service that is no longer in the graph.
\<close>

section \<open>Chains\<close>

text \<open>
  Service \<open>i + 1\<close> of the chain depends hard on service \<open>i\<close>, and the edges are listed from the
  last service to the first.
\<close>

definition link_id :: "nat \<Rightarrow> string" where
  "link_id i = replicate (Suc i) (CHR ''s'')"

lemma link_id_inj [simp]: "link_id i = link_id j \<longleftrightarrow> i = j"
  by (metis link_id_def length_replicate Suc_inject)

definition chain_edge :: "nat \<Rightarrow> dependency" where
  "chain_edge i = plain_dep (link_id i) (link_id (Suc i)) (link_id i) NatureHard"

definition chain :: "nat \<Rightarrow> graph" where
  "chain n = small_graph (map link_id [0..<Suc n]) (map chain_edge (rev [0..<n]))"

text \<open>Services up to \<open>k\<close> are down, the rest are fine.\<close>

definition chain_statuses :: "nat \<Rightarrow> nat \<Rightarrow> string \<Rightarrow> status option" where
  "chain_statuses n k =
     map_of (map (\<lambda>i. (link_id i, if i \<le> k then StatusDown else StatusOK)) [0..<Suc n])"

lemma map_of_links:
  "map_of (map (\<lambda>i. (link_id i, f i)) is) (link_id j) = (if j \<in> set is then Some (f j) else None)"
  by (induction "is") auto

lemma chain_status: "chain_statuses n k (link_id j) = (if j \<le> n then Some (if j \<le> k then StatusDown else StatusOK) else None)"
  by (auto simp: chain_statuses_def map_of_links simp del: upt_Suc)

lemma chain_dom: "dom (chain_statuses n k) = link_id ` {..n}"
  by (auto simp: chain_statuses_def dom_map_of_conv_image_fst image_image simp del: upt_Suc)

lemma chain_effect:
  assumes "i < n" "D = link_id ` {..n}"
  shows "edge_effect (chain n) w no_reach rm D (chain_edge i) r s
    = (case s (link_id i) of StatusOK \<Rightarrow> StatusOK | StatusDown \<Rightarrow> StatusDown | _ \<Rightarrow> StatusDegraded)"
proof -
  have "find_endpoint (chain n) (link_id i) = Some (plain_endpoint (link_id i) (link_id i))"
    "find_service (chain n) (link_id i) = Some (plain_service (link_id i))"
    using assms(1) map_of_links [of "\<lambda>i. plain_endpoint (link_id i) (link_id i)"]
      map_of_links [of "\<lambda>i. plain_service (link_id i)"]
    by (simp_all add: chain_def small_graph_def o_def del: upt_Suc)
  then have "provider_seen (chain n) no_reach rm (chain_edge i) r s = Some (s (link_id i))"
    by (simp add: provider_seen_def providerHealth_def chain_edge_def plain_dep_def plain_endpoint_def Let_def)
  then show ?thesis
    using assms by (auto simp: edge_effect_def chain_edge_def plain_dep_def Propagate_def split: status.splits)
qed

text \<open>Listed from the far end, the edges carry the outage one hop per round.\<close>

lemma chain_relax:
  assumes "i < n" "D = link_id ` {..n}"
  shows "edges.relax (chain n) w no_reach rm D r (status_in (chain_statuses n k)) (chain_edge i)
    = status_in (chain_statuses n (if i = k then Suc k else k))"
proof
  fix c
  have target: "dep_ConsumerServiceID (chain_edge i) = link_id (Suc i)"
    by (simp add: chain_edge_def plain_dep_def)
  show "edges.relax (chain n) w no_reach rm D r (status_in (chain_statuses n k)) (chain_edge i) c
      = status_in (chain_statuses n (if i = k then Suc k else k)) c"
  proof (cases "\<exists>j\<le>n. c = link_id j")
    case True
    then obtain j where j: "j \<le> n" "c = link_id j" by blast
    then show ?thesis using assms(1)
      by (auto simp: edges.relax_def chain_effect [OF assms] target chain_status max_def get_or_def)
  next
    case False
    then have "chain_statuses n k' c = None" for k'
      using chain_dom [of n k'] by (auto simp: dom_def)
    moreover have "c \<noteq> link_id (Suc i)" using False assms(1) by auto
    ultimately show ?thesis by (simp add: edges.relax_def target)
  qed
qed

lemma chain_sweep:
  assumes "m \<le> n" "D = link_id ` {..n}"
  shows "edges.sweep (chain n) w no_reach rm D (map chain_edge (rev [0..<m])) r (status_in (chain_statuses n k))
    = status_in (chain_statuses n (if k < m then Suc k else k))"
  using assms(1)
proof (induction m arbitrary: k)
  case (Suc m)
  then have IH: "edges.sweep (chain n) w no_reach rm D (map chain_edge (rev [0..<m])) r (status_in (chain_statuses n k'))
      = status_in (chain_statuses n (if k' < m then Suc k' else k'))" for k'
    by simp
  have "edges.sweep (chain n) w no_reach rm D (map chain_edge (rev [0..<Suc m])) r (status_in (chain_statuses n k))
      = edges.sweep (chain n) w no_reach rm D (map chain_edge (rev [0..<m])) r
          (status_in (chain_statuses n (if m = k then Suc k else k)))"
    using Suc.prems by (simp add: edges.sweep_def chain_relax [OF _ assms(2)])
  then show ?case unfolding IH by auto
qed (simp add: edges.sweep_def)

lemma chain_deps: "g_Deps (chain n) = map chain_edge (rev [0..<n])"
  by (simp add: chain_def small_graph_def)

lemma chain_round:
  assumes "sv st = status_in (chain_statuses n k)" "dom (ps_statuses st) = link_id ` {..n}" "k < n"
  shows "sv (fst (propagate_round (chain n) w no_reach rm st)) = status_in (chain_statuses n (Suc k))"
    and "dom (ps_statuses (fst (propagate_round (chain n) w no_reach rm st))) = link_id ` {..n}"
    and "snd (propagate_round (chain n) w no_reach rm st)"
proof -
  show next_sv: "sv (fst (propagate_round (chain n) w no_reach rm st)) = status_in (chain_statuses n (Suc k))"
    using round_sweep(1) [OF assms(2), of "chain n" w no_reach rm] assms(3)
    by (simp add: chain_deps assms(1) chain_sweep)
  show "dom (ps_statuses (fst (propagate_round (chain n) w no_reach rm st))) = link_id ` {..n}"
    by (rule round_sweep(2) [OF assms(2)])
  have "sv st (link_id (Suc k)) \<noteq> status_in (chain_statuses n (Suc k)) (link_id (Suc k))"
    using assms(3) by (simp add: assms(1) chain_status get_or_def)
  then have "fst (propagate_round (chain n) w no_reach rm st) \<noteq> st"
    using fun_cong [OF next_sv, of "link_id (Suc k)"] by metis
  then show "snd (propagate_round (chain n) w no_reach rm st)"
    using round_unchanged(1) [OF assms(2)] by blast
qed

lemma chain_loop:
  assumes "sv st = status_in (chain_statuses n k)" "dom (ps_statuses st) = link_id ` {..n}" "k + m \<le> n"
  shows "sv (fst (propagate_loop (chain n) w no_reach rm m it st)) = status_in (chain_statuses n (k + m))
       \<and> dom (ps_statuses (fst (propagate_loop (chain n) w no_reach rm m it st))) = link_id ` {..n}
       \<and> snd (propagate_loop (chain n) w no_reach rm m it st) = maxIterations"
  using assms
proof (induction m arbitrary: st k it)
  case (Suc m)
  note round = chain_round [OF Suc.prems(1,2), of w rm]
  have "k < n" using Suc.prems(3) by simp
  with Suc.IH [OF round(1,2), of "Suc it"] Suc.prems(3) round(3) show ?case
    by (simp add: case_prod_unfold Let_def)
qed simp

lemma chain_spec_down:
  assumes "impact_spec (chain n) w no_reach rm (dom (chain_statuses n 0)) (status_in (chain_statuses n 0)) s"
    and "j \<le> n"
  shows "s (link_id j) = StatusDown"
  using assms(2)
proof (induction j)
  case 0
  have "status_in (chain_statuses n 0) (link_id 0) \<le> s (link_id 0)"
    using assms(1) by (simp add: impact_spec_def le_fun_def)
  then show ?case by (simp add: chain_status get_or_def)
next
  case (Suc j)
  then have "s (link_id j) = StatusDown" "chain_edge j \<in> set (g_Deps (chain n))"
    by (auto simp: chain_deps)
  moreover have "dep_ConsumerServiceID (chain_edge j) = link_id (Suc j)"
    by (simp add: chain_edge_def plain_dep_def)
  moreover have "edge_effect (chain n) w no_reach rm (dom (chain_statuses n 0)) (chain_edge j) s s = StatusDown"
    using Suc calculation(1) by (simp add: chain_effect [OF _ chain_dom])
  ultimately show ?case
    using assms(1) unfolding impact_spec_def settled_def by fastforce
qed

text \<open>
  (C40) The round limit is reachable without any loss of monotonicity: along a chain of more than
  \<open>maxIterations\<close> hard dependencies listed from the far end, with the first service down, the loop
  gives up after \<open>maxIterations\<close> rounds and leaves every service beyond that distance ok, although
  each of them is down in the specified statuses.
\<close>

theorem long_chain_truncated:
  assumes "maxIterations < j" "j \<le> n"
  shows "ps_statuses (fst (phasePropagate (chain n) w (chain_statuses n 0) reasons no_reach rm)) (link_id j)
     = Some StatusOK
   \<and> snd (phasePropagate (chain n) w (chain_statuses n 0) reasons no_reach rm) = maxIterations
   \<and> (impact_spec (chain n) w no_reach rm (dom (chain_statuses n 0)) (status_in (chain_statuses n 0)) s \<longrightarrow> s (link_id j) = StatusDown)"
proof (intro conjI impI)
  define run where "run = phasePropagate (chain n) w (chain_statuses n 0) reasons no_reach rm"
  have run: "sv (fst run) = status_in (chain_statuses n maxIterations)"
    "dom (ps_statuses (fst run)) = link_id ` {..n}" "snd run = maxIterations"
    using chain_loop [of "initial (chain_statuses n 0) reasons" n 0 maxIterations w rm 1] assms
    by (simp_all add: run_def phasePropagate_def chain_dom)
  then have "link_id j \<in> dom (ps_statuses (fst run))" "sv (fst run) (link_id j) = StatusOK"
    using assms by (simp_all add: chain_status get_or_def)
  then show "ps_statuses (fst run) (link_id j) = Some StatusOK" by (auto simp: dom_def)
  show "snd run = maxIterations" by (rule run(3))
  show "s (link_id j) = StatusDown"
    if "impact_spec (chain n) w no_reach rm (dom (chain_statuses n 0)) (status_in (chain_statuses n 0)) s"
    by (rule chain_spec_down [OF that assms(2)])
qed

theorem long_chain_truncated_witness:
  "ps_statuses (fst (phasePropagate (chain 21) 0 (chain_statuses 21 0) Map.empty no_reach no_reach)) (link_id 21)
     = Some StatusOK"
  by (rule long_chain_truncated [THEN conjunct1]) (simp_all add: maxIterations_def)

section \<open>Routes without a frontend service\<close>

text \<open> A route whose frontend endpoint is in the graph while that endpoint's service is not has no
  status to read there, and the empty status it gets is not ok: with its pool fully healthy and
  nothing down anywhere, a hard consumer of the route is at least degraded in every assignment the
  edges cannot worsen.
\<close>

theorem orphan_frontend_degrades:
  assumes dep: "d \<in> set (g_Deps g)" "dep_Lifecycle d \<noteq> LifecycleRetired" "dep_Nature d = NatureHard"
      "dep_ProviderEndpointID d = None" "dep_ProviderRouteID d = Some (route_ID r)"
      "dep_ConsumerServiceID d \<in> D"
    and route: "find_route g (route_ID r) = Some r"
      "find_endpoint g (route_FrontendEndpointID r) = Some ep"
    and orphan: "s (ep_ServiceID ep) = StatusZero"
    and "settled g w rd rm D s"
  shows "StatusDegraded \<le> s (dep_ConsumerServiceID d)"
proof -
  let ?h = "route_health g s rm r"
  have "StatusZero \<le> rh_Status ?h"
    using route(2) orphan by (simp add: route_health_def Let_def Worse_max)
  moreover have seen: "provider_seen g rd rm d s s = Some (downgrade (rd (dep_ID d)) (rh_Status ?h))"
    using dep(4,5) route
    by (simp add: provider_seen_def providerHealth_def routeStatuses_def map_of_map_snd Let_def)
  ultimately have "StatusZero \<le> downgrade (rd (dep_ID d)) (rh_Status ?h)"
    using downgrade_ge order_trans by blast
  then have "StatusDegraded \<le> pr_Status (Propagate d (downgrade (rd (dep_ID d)) (rh_Status ?h)) w)"
    using dep(3) by (cases "downgrade (rd (dep_ID d)) (rh_Status ?h)") (auto simp: Propagate_def less_eq_status_def)
  then have "StatusDegraded \<le> edge_effect g w rd rm D d s s"
    using dep(2,6) seen by (simp add: edge_effect_def)
  with assms(10) dep(1) show ?thesis
    unfolding settled_def by (meson order_trans)
qed

text \<open>The estate of such a route: everything that is in the graph is healthy.\<close>

definition orphan_route :: route where
  "orphan_route = \<lparr>route_ID = ''r'', route_FrontendEndpointID = ''e'', route_BackendPoolID = ''p'',
     route_Name = ''shop.example''\<rparr>"

definition orphan_dep :: dependency where
  "orphan_dep = (plain_dep ''d'' ''shop'' [] NatureHard)\<lparr>dep_ProviderEndpointID := None,
     dep_ProviderRouteID := Some ''r''\<rparr>"

definition orphan_graph :: graph where
  "orphan_graph = (small_graph [''shop''] [orphan_dep])\<lparr>
     g_Endpoints := [(''e'', plain_endpoint ''e'' ''old-proxy'')],
     g_Routes := [(''r'', orphan_route)]\<rparr>"

definition orphan_run :: pstate where
  "orphan_run = fst (phasePropagate orphan_graph 0 (map_of [(''shop'', StatusOK)]) Map.empty no_reach no_reach)"

lemma orphan_run_settled: "settled orphan_graph 0 no_reach no_reach {''shop''} (sv orphan_run)"
proof -
  have d: "dom (map_of [(''shop'', StatusOK)]) = {''shop''}" by (auto split: if_splits)
  show ?thesis
    unfolding orphan_run_def
    using phasePropagate_spec [of "map_of [(''shop'', StatusOK)]" orphan_graph 0 Map.empty no_reach no_reach,
        OF _ prod.collapse [symmetric]]
    unfolding d impact_spec_def by (simp add: maxIterations_def)
qed

theorem orphan_frontend_degrades_witness:
  "StatusDegraded \<le> sv orphan_run ''shop''"
proof -
  have "ps_statuses orphan_run ''old-proxy'' = None" by code_simp
  then have zero: "sv orphan_run ''old-proxy'' = StatusZero" by simp
  have "StatusDegraded \<le> sv orphan_run (dep_ConsumerServiceID orphan_dep)"
    by (rule orphan_frontend_degrades [OF _ _ _ _ _ _ _ _ _ orphan_run_settled, of _ orphan_route
          "plain_endpoint ''e'' ''old-proxy''"])
       (simp_all add: orphan_graph_def orphan_dep_def orphan_route_def small_graph_def plain_dep_def
          plain_endpoint_def zero)
  then show ?thesis by (simp add: orphan_dep_def plain_dep_def)
qed

end
