(* ===== verification/Apportion.thy ===== *)
theory Apportion
  imports Prelude
begin

text \<open>
  The largest-remainder rule of internal/domain/attribution.go (\<open>apportion\<close>, \<open>apportionMinor\<close>), on
  which every division of capacity and money in the program rests, with Go's 64-bit signed
  arithmetic: \<open>i64\<close> wraps, and \<open>sdiv\<close> and \<open>smod\<close> truncate towards zero as \<open>/\<close> and \<open>%\<close> do. An
  \<open>int\<close> has 64 bits on the platforms the program is built for.
\<close>

section \<open>The rule\<close>

text \<open>Remainders, biggest first; the index breaks ties.\<close>

definition rem_less :: "nat \<times> int \<Rightarrow> nat \<times> int \<Rightarrow> bool" where
  "rem_less a b = (if snd a \<noteq> snd b then snd a > snd b else fst a < fst b)"

text \<open>The last loop: one more to each index in turn while something is left over.\<close>

fun hand_out :: "(nat \<times> int) list \<Rightarrow> int \<Rightarrow> int \<Rightarrow> int list \<Rightarrow> int list" where
  "hand_out [] assigned target out = out"
| "hand_out ((i, _) # rems) assigned target out =
     (if assigned < target
      then hand_out rems (i64 (assigned + 1)) target (out[i := i64 (out ! i + 1)])
      else out)"

definition apportion :: "int \<Rightarrow> int list \<Rightarrow> int \<Rightarrow> int list" where
  "apportion target amounts denominator =
     (if denominator \<le> 0 then map (\<lambda>_. 0) amounts
      else
        let exact = map (\<lambda>a. i64 (target * a)) amounts;
            out = map (\<lambda>e. e sdiv denominator) exact;
            assigned = foldl (\<lambda>acc p. i64 (acc + p)) 0 out;
            rems = enumerate 0 (map (\<lambda>e. e smod denominator) exact)
        in hand_out (go_sort rem_less rems) assigned target out)"

definition apportionMinor :: "int \<Rightarrow> int list \<Rightarrow> int \<Rightarrow> int list" where
  "apportionMinor target amounts denominator = apportion target amounts denominator"

definition Apportion :: "int \<Rightarrow> int list \<Rightarrow> int \<Rightarrow> int list" where
  "Apportion target amounts denominator = apportion target amounts denominator"

definition ApportionMinorAcross :: "int \<Rightarrow> int list \<Rightarrow> int \<Rightarrow> int list" where
  "ApportionMinorAcross target amounts denominator = apportionMinor target amounts denominator"

section \<open>Handing out the leftover\<close>

lemma length_hand_out [simp]: "length (hand_out rems assigned target out) = length out"
  by (induction rems assigned target out rule: hand_out.induct) auto

lemma sum_list_update_add:
  "i < length xs \<Longrightarrow> sum_list (xs[i := xs ! i + 1]) = sum_list xs + (1::int)"
proof (induction xs arbitrary: i)
  case (Cons x xs)
  then show ?case by (cases i) simp_all
qed simp

lemma hand_out_facts:
  assumes "distinct (map fst rems)" "\<forall>i\<in>fst ` set rems. i < length out \<and> 0 \<le> out ! i \<and> out ! i \<le> target"
    and "0 \<le> assigned" "assigned \<le> target" "target < 2 ^ 63 - 1"
  shows "sum_list (hand_out rems assigned target out) = sum_list out + min (int (length rems)) (target - assigned)
    \<and> (\<forall>j<length out. hand_out rems assigned target out ! j = out ! j
         \<or> j \<in> fst ` set rems \<and> hand_out rems assigned target out ! j = out ! j + 1)"
  using assms
proof (induction rems assigned target out rule: hand_out.induct)
  case (2 i r rems assigned target out)
  show ?case
  proof (cases "assigned < target")
    case True
    have i: "i < length out" "0 \<le> out ! i" "out ! i \<le> target" using 2(3) by simp_all
    have wrap: "i64 (assigned + 1) = assigned + 1" "i64 (out ! i + 1) = out ! i + 1"
      using True i 2(4-6) by (simp_all add: i64_id)
    let ?out = "out[i := out ! i + 1]"
    have rest: "sum_list (hand_out rems (assigned + 1) target ?out)
        = sum_list ?out + min (int (length rems)) (target - (assigned + 1))
      \<and> (\<forall>j<length ?out. hand_out rems (assigned + 1) target ?out ! j = ?out ! j
          \<or> j \<in> fst ` set rems \<and> hand_out rems (assigned + 1) target ?out ! j = ?out ! j + 1)"
      using 2(2-6) True by (intro 2(1) [OF True, unfolded wrap]) (auto simp: nth_list_update)
    have fresh: "i \<notin> fst ` set rems" using 2(2) by simp
    have "sum_list ?out = sum_list out + 1" using i(1) by (rule sum_list_update_add)
    then have sum: "sum_list (hand_out rems (assigned + 1) target ?out)
        = sum_list out + min (int (length ((i, r) # rems))) (target - assigned)"
      using rest True by (auto simp: min_def)
    have "hand_out rems (assigned + 1) target ?out ! j = out ! j
        \<or> j \<in> fst ` set ((i, r) # rems) \<and> hand_out rems (assigned + 1) target ?out ! j = out ! j + 1"
      if "j < length out" for j
    proof (cases "j = i")
      case True
      with rest fresh that show ?thesis by auto
    next
      case False
      then have "?out ! j = out ! j" by simp
      with rest that show ?thesis by (metis image_insert insertCI length_list_update list.simps(15))
    qed
    with sum True show ?thesis by (simp add: wrap)
  qed (use 2 in simp)
qed simp

text \<open>Exactly the indices at the front of the list get one more, as many as units are left over.\<close>

lemma hand_out_nth:
  assumes "distinct (map fst rems)" "\<forall>i\<in>fst ` set rems. i < length out \<and> 0 \<le> out ! i \<and> out ! i \<le> target"
    and "0 \<le> assigned" "assigned \<le> target" "target < 2 ^ 63 - 1" "j < length out"
  shows "hand_out rems assigned target out ! j =
     out ! j + (if j \<in> set (take (nat (target - assigned)) (map fst rems)) then 1 else 0)"
  using assms
proof (induction rems assigned target out rule: hand_out.induct)
  case (2 i r rems assigned target out)
  show ?case
  proof (cases "assigned < target")
    case True
    have i: "i < length out" "0 \<le> out ! i" "out ! i \<le> target" "i \<notin> fst ` set rems" using 2(2,3) by simp_all
    have wrap: "i64 (assigned + 1) = assigned + 1" "i64 (out ! i + 1) = out ! i + 1"
      using True i 2(4-6) by (simp_all add: i64_id)
    let ?out = "out[i := out ! i + 1]"
    have front: "nat (target - assigned) = Suc (nat (target - (assigned + 1)))" using True by simp
    have "hand_out rems (assigned + 1) target ?out ! j =
        ?out ! j + (if j \<in> set (take (nat (target - (assigned + 1))) (map fst rems)) then 1 else 0)"
      using 2(2-7) True by (intro 2(1) [OF True, unfolded wrap]) (auto simp: nth_list_update)
    moreover have "i \<notin> set (take n (map fst rems))" for n using i(4) by (metis in_set_takeD list.set_map)
    ultimately show ?thesis using True i(1) 2(7) by (cases "j = i") (simp_all add: wrap front)
  qed (use 2 in simp)
qed simp

interpretation rem_order: go_ordering rem_less
  by unfold_locales (auto simp: rem_less_def split: if_splits)

section \<open>Floors and remainders\<close>

lemma foldl_i64_sum:
  "0 \<le> acc \<Longrightarrow> \<forall>p\<in>set ps. 0 \<le> p \<Longrightarrow> acc + sum_list ps < 2 ^ 63
   \<Longrightarrow> foldl (\<lambda>acc p. i64 (acc + p)) acc ps = acc + sum_list ps"
proof (induction ps arbitrary: acc)
  case (Cons p ps)
  have "0 \<le> sum_list ps" using Cons.prems(2) by (intro sum_list_nonneg) auto
  with Cons have "i64 (acc + p) = acc + p" by (intro i64_id) auto
  with Cons show ?case by simp
qed simp

lemma sum_list_floor:
  "den > 0 \<Longrightarrow> den * sum_list (map (\<lambda>a. t * a div den) as) + sum_list (map (\<lambda>a. t * a mod den) as)
     = t * sum_list (as :: int list)"
  by (induction as) (simp_all add: algebra_simps)

lemma sum_list_bounded:
  "\<forall>x\<in>set xs. f x < (b::int) \<Longrightarrow> xs \<noteq> [] \<Longrightarrow> sum_list (map f xs) < b * int (length xs)"
proof (induction xs)
  case (Cons x xs)
  then show ?case by (cases "xs = []") (auto simp: algebra_simps)
qed simp

section \<open>The contract\<close>

text \<open>
  When the arithmetic cannot overflow: non-negative amounts that add up to the denominator, and a
  target whose product with the denominator fits.
\<close>

definition apportionable :: "int \<Rightarrow> int list \<Rightarrow> int \<Rightarrow> bool" where
  "apportionable t as den \<longleftrightarrow> 0 \<le> t \<and> list_all (\<lambda>a. 0 \<le> a) as \<and> sum_list as = den \<and> 0 < den
     \<and> t * den < 2 ^ 63 - 1"

lemma member_le_sum: "x \<in> set xs \<Longrightarrow> \<forall>y\<in>set xs. (0::int) \<le> y \<Longrightarrow> x \<le> sum_list xs"
  by (induction xs) (auto intro: add_increasing add_increasing2 sum_list_nonneg)

lemma apportion_plain:
  assumes "apportionable t as den"
  shows "apportion t as den =
    hand_out (go_sort rem_less (enumerate 0 (map (\<lambda>a. t * a mod den) as)))
      (sum_list (map (\<lambda>a. t * a div den) as)) t (map (\<lambda>a. t * a div den) as)"
    and "\<forall>a\<in>set as. 0 \<le> t * a div den \<and> t * a div den \<le> t"
    and "0 \<le> sum_list (map (\<lambda>a. t * a div den) as)" "sum_list (map (\<lambda>a. t * a div den) as) \<le> t"
    and "t < 2 ^ 63 - 1"
proof -
  have base: "0 \<le> t" "\<forall>a\<in>set as. 0 \<le> a" "sum_list as = den" "0 < den" "t * den < 2 ^ 63 - 1"
    using assms by (auto simp: apportionable_def list_all_iff)
  have prod: "0 \<le> t * a \<and> t * a \<le> t * den" if "a \<in> set as" for a
    using base member_le_sum [OF that] that by (auto intro: mult_left_mono)
  then have exact: "i64 (t * a) = t * a" if "a \<in> set as" for a
    using that base(5) by (intro i64_id) fastforce+
  show part: "\<forall>a\<in>set as. 0 \<le> t * a div den \<and> t * a div den \<le> t"
  proof
    fix a assume "a \<in> set as"
    with prod base(4) show "0 \<le> t * a div den \<and> t * a div den \<le> t"
      using zdiv_mono1 [of "t * a" "t * den" den] by (auto simp: pos_imp_zdiv_nonneg_iff)
  qed
  have sums: "den * sum_list (map (\<lambda>a. t * a div den) as) + sum_list (map (\<lambda>a. t * a mod den) as) = t * den"
    using sum_list_floor [OF base(4), of t as] base(3) by simp
  moreover have "0 \<le> sum_list (map (\<lambda>a. t * a mod den) as)"
    using base(4) by (intro sum_list_nonneg) auto
  ultimately show le: "sum_list (map (\<lambda>a. t * a div den) as) \<le> t"
    using base(4) by (metis add_le_same_cancel1 add.commute le_add_same_cancel1 mult.commute mult_le_cancel_left_pos)
  show nonneg: "0 \<le> sum_list (map (\<lambda>a. t * a div den) as)"
    using part by (intro sum_list_nonneg) auto
  show t: "t < 2 ^ 63 - 1"
    using base mult_left_mono [of 1 den t] by auto
  have div: "map (\<lambda>e. e sdiv den) (map (\<lambda>a. i64 (t * a)) as) = map (\<lambda>a. t * a div den) as"
    "map (\<lambda>e. e smod den) (map (\<lambda>a. i64 (t * a)) as) = map (\<lambda>a. t * a mod den) as"
    using prod base(4) exact by (simp_all add: sdiv_pos)
  show "apportion t as den =
    hand_out (go_sort rem_less (enumerate 0 (map (\<lambda>a. t * a mod den) as)))
      (sum_list (map (\<lambda>a. t * a div den) as)) t (map (\<lambda>a. t * a div den) as)"
    using base(4) part le t unfolding apportion_def Let_def div
    by (subst foldl_i64_sum) auto
qed

lemma rem_indices:
  shows "distinct (map fst (go_sort rem_less (enumerate 0 ms)))"
    and "set (map fst (go_sort rem_less (enumerate 0 ms))) = set [0..<length ms]"
proof -
  have "mset (map fst (go_sort rem_less (enumerate 0 ms))) = mset (map fst (enumerate 0 ms))"
    by (simp only: mset_map mset_go_sort)
  then have *: "mset (map fst (go_sort rem_less (enumerate 0 ms))) = mset [0..<length ms]" by simp
  show "distinct (map fst (go_sort rem_less (enumerate 0 ms)))" by (metis * distinct_upt mset_eq_imp_distinct_iff)
  show "set (map fst (go_sort rem_less (enumerate 0 ms))) = set [0..<length ms]" by (metis * set_mset_mset)
qed

lemma apportion_parts:
  assumes "apportionable t as den"
  shows "length (apportion t as den) = length as" "sum_list (apportion t as den) = t"
    and "j < length as \<Longrightarrow> apportion t as den ! j \<in> {t * (as ! j) div den, t * (as ! j) div den + 1}"
proof -
  let ?floor = "map (\<lambda>a. t * a div den) as" and ?mods = "map (\<lambda>a. t * a mod den) as"
  let ?rems = "go_sort rem_less (enumerate 0 ?mods)"
  note plain = apportion_plain [OF assms]
  have den: "0 < den" "sum_list as = den" using assms by (simp_all add: apportionable_def)
  have idx: "distinct (map fst ?rems)" "set (map fst ?rems) = set [0..<length as]" using rem_indices [of ?mods] by simp_all
  have out: "\<forall>i\<in>fst ` set ?rems. i < length ?floor \<and> 0 \<le> ?floor ! i \<and> ?floor ! i \<le> t"
    using plain(2) idx(2) by (auto simp flip: set_map)
  note facts = hand_out_facts [OF idx(1) out plain(3-5)]
  show "length (apportion t as den) = length as" by (simp add: plain(1))
  show "apportion t as den ! j \<in> {t * (as ! j) div den, t * (as ! j) div den + 1}" if "j < length as" for j
    using facts that unfolding plain(1) by auto
  have "as \<noteq> []" using den by auto
  then have "sum_list ?mods < den * int (length as)"
    using den(1) by (intro sum_list_bounded) auto
  moreover have "den * (t - sum_list ?floor) = sum_list ?mods"
    using sum_list_floor [OF den(1), of t as] den(2) by (simp add: algebra_simps)
  ultimately have "t - sum_list ?floor < int (length as)" using den(1) by (metis mult_less_cancel_left_pos)
  then show "sum_list (apportion t as den) = t"
    using facts unfolding plain(1) by simp
qed

text \<open>Who gets a unit that another does not has the larger remainder, or the same one and comes earlier.\<close>

lemma apportion_largest:
  assumes "apportionable t as den" "i < length as" "j < length as"
    and up: "apportion t as den ! i = t * (as ! i) div den + 1" and down: "apportion t as den ! j = t * (as ! j) div den"
  shows "t * (as ! j) mod den < t * (as ! i) mod den \<or> t * (as ! j) mod den = t * (as ! i) mod den \<and> i < j"
proof -
  let ?floor = "map (\<lambda>a. t * a div den) as" and ?mods = "map (\<lambda>a. t * a mod den) as"
  let ?rems = "go_sort rem_less (enumerate 0 ?mods)"
  define k where "k = nat (t - sum_list ?floor)"
  note plain = apportion_plain [OF assms(1)]
  have idx: "distinct (map fst ?rems)" "set (map fst ?rems) = set [0..<length as]" using rem_indices [of ?mods] by simp_all
  have out: "\<forall>i\<in>fst ` set ?rems. i < length ?floor \<and> 0 \<le> ?floor ! i \<and> ?floor ! i \<le> t"
    using plain(2) idx(2) by (auto simp flip: set_map)
  have nth: "apportion t as den ! x = t * (as ! x) div den + (if x \<in> set (take k (map fst ?rems)) then 1 else 0)"
    if "x < length as" for x
    using hand_out_nth [OF idx(1) out plain(3-5), of x] that unfolding plain(1) k_def by simp
  have member: "snd p = t * (as ! fst p) mod den" if "p \<in> set ?rems" for p
    using that by (auto simp: in_set_enumerate_eq)
  have "i \<in> fst ` set (take k ?rems)" using nth [OF assms(2)] up by (auto simp: take_map split: if_splits)
  then obtain p where p: "p \<in> set (take k ?rems)" "fst p = i" by auto
  have "j \<notin> fst ` set (take k ?rems)" using nth [OF assms(3)] down by (auto simp: take_map split: if_splits)
  moreover have "j \<in> fst ` set ?rems" using idx(2) assms(3) by auto
  ultimately have "j \<in> fst ` set (drop k ?rems)" by (metis UnE append_take_drop_id image_Un set_append)
  then obtain q where q: "q \<in> set (drop k ?rems)" "fst q = j" by auto
  have "\<not> rem_less q p"
    using rem_order.go_sort_sorted [of "enumerate 0 ?mods"] p(1) q(1)
    by (metis append_take_drop_id sorted_wrt_append)
  moreover have "i \<noteq> j" using nth assms(2,3) up down by force
  moreover have "snd p = t * (as ! i) mod den" "snd q = t * (as ! j) mod den"
    using member p q by (meson in_set_takeD, meson in_set_dropD)
  ultimately show ?thesis using p(2) q(2) by (auto simp: rem_less_def split: if_splits)
qed

text \<open>
  What the dividers below rely on, as an interface: the parts are parallel to the amounts, add up
  to the target, and are each within one unit of the exact quota.
\<close>

locale exact_split =
  fixes split :: "int \<Rightarrow> int list \<Rightarrow> int \<Rightarrow> int list"
  assumes parallel: "apportionable t as den \<Longrightarrow> length (split t as den) = length as"
    and exact: "apportionable t as den \<Longrightarrow> sum_list (split t as den) = t"
    and quota: "apportionable t as den \<Longrightarrow> j < length as
      \<Longrightarrow> split t as den ! j \<in> {t * (as ! j) div den, t * (as ! j) div den + 1}"
begin

lemma part_nonneg:
  assumes "apportionable t as den" "p \<in> set (split t as den)"
  shows "0 \<le> p"
proof -
  obtain j where j: "j < length as" "p = split t as den ! j"
    using assms parallel by (metis in_set_conv_nth)
  then have "0 \<le> t * (as ! j) div den"
    using assms(1) by (auto simp: apportionable_def list_all_length pos_imp_zdiv_nonneg_iff)
  with quota [OF assms(1) j(1)] j(2) show ?thesis by auto
qed

lemma part_le: "apportionable t as den \<Longrightarrow> p \<in> set (split t as den) \<Longrightarrow> p \<le> t"
  using member_le_sum [of p "split t as den"] part_nonneg exact by fastforce

text \<open>Dropping the last slice leaves what it did not take.\<close>

lemma butlast_sum:
  assumes "apportionable t as den" "as \<noteq> []"
  shows "sum_list (butlast (split t as den)) + last (split t as den) = t"
proof -
  have "split t as den \<noteq> []" using parallel [OF assms(1)] assms(2) by auto
  then have "sum_list (split t as den) = sum_list (butlast (split t as den)) + last (split t as den)"
    by (metis append_butlast_last_id sum_list.Nil sum_list.Cons sum_list_append add.right_neutral)
  with exact [OF assms(1)] show ?thesis by simp
qed

end

interpretation minor: exact_split apportionMinor
  by unfold_locales (simp_all add: apportionMinor_def apportion_parts del: insert_iff)

interpretation whole: exact_split apportion
  by unfold_locales (simp_all add: apportion_parts del: insert_iff)

section \<open>Properties\<close>

text \<open>
  (C39) The largest-remainder rule: for non-negative amounts that add up to a positive denominator
  and a non-negative total whose product with the denominator is below the largest 64-bit integer,
  the parts add up to precisely the total; each is its exact quota rounded down or one more; and
  the units left over go to the largest remainders: whoever gets one has a larger remainder than
  anybody who does not, or the same remainder and an earlier place in the list.
\<close>

theorem apportion_exact:
  assumes "0 \<le> t" "\<forall>a\<in>set as. 0 \<le> a" "sum_list as = den" "0 < den" "t * den < 2 ^ 63 - 1"
  shows "sum_list (apportion t as den) = t
   \<and> length (apportion t as den) = length as
   \<and> (\<forall>j<length as. apportion t as den ! j = t * (as ! j) div den
        \<or> apportion t as den ! j = t * (as ! j) div den + 1)
   \<and> (\<forall>i<length as. \<forall>j<length as.
        apportion t as den ! i = t * (as ! i) div den + 1 \<and> apportion t as den ! j = t * (as ! j) div den \<longrightarrow>
        t * (as ! j) mod den < t * (as ! i) mod den \<or> t * (as ! j) mod den = t * (as ! i) mod den \<and> i < j)"
proof -
  have ok: "apportionable t as den" using assms by (simp add: apportionable_def list_all_iff)
  show ?thesis using apportion_parts [OF ok] apportion_largest [OF ok] by blast
qed

text \<open>Ten units over weights 5, 3 and 1: the remainders are 5, 3 and 1 ninths, and the first takes the one left over.\<close>

theorem apportion_exact_witness:
  "apportion 10 [5, 3, 1] 9 ! 0 = 6 \<and> apportion 10 [5, 3, 1] 9 ! 2 = 1 \<and> sum_list (apportion 10 [5, 3, 1] 9) = 10
   \<and> (10 * 1 mod 9 < (10 * 5 mod 9 :: int) \<or> 10 * 1 mod 9 = (10 * 5 mod 9 :: int) \<and> (0::nat) < 2)"
proof -
  have parts: "apportion 10 [5, 3, 1] 9 ! 0 = 6" "apportion 10 [5, 3, 1] 9 ! 2 = 1" by code_simp+
  from apportion_exact [of 10 "[5, 3, 1]" 9] have
    "sum_list (apportion 10 [5, 3, 1] 9) = 10"
    "apportion 10 [5, 3, 1] 9 ! 0 = 10 * [5, 3, 1] ! 0 div 9 + 1 \<and> apportion 10 [5, 3, 1] 9 ! 2 = 10 * [5, 3, 1] ! 2 div 9 \<longrightarrow>
     10 * ([5, 3, 1] ! 2) mod 9 < 10 * ([5, 3, 1] ! 0) mod (9::int) \<or> 10 * ([5, 3, 1] ! 2) mod 9 = 10 * ([5, 3, 1] ! 0) mod (9::int) \<and> (0::nat) < 2"
    by auto
  with parts show ?thesis by simp
qed

end
