(* ===== verification/Attribution.thy ===== *)
theory Attribution
  imports Apportion
begin

text \<open>
  Dividing a shared platform between its claimants: \<open>Divide\<close>, \<open>DivideEqually\<close>, \<open>Division.Total\<close> and
  \<open>Division.ApportionMinor\<close> of internal/domain/attribution.go, on top of the largest-remainder
  rule of theory Apportion.
\<close>

section \<open>Claims, shares and divisions\<close>

abbreviation "BasisAllocated \<equiv> ''allocated''"
abbreviation "IdleSubject \<equiv> ''idle capacity''"

record claim =
  clm_SubjectID :: string
  clm_Subject :: string
  clm_Amount :: int

record share =
  sh_SubjectID :: string
  sh_Subject :: string
  sh_Amount :: int
  sh_BasisPoints :: int

record division =
  dv_Dimension :: string
  dv_Unit :: string
  dv_Sellable :: int
  dv_Claimed :: int
  dv_Denominator :: int
  dv_Shares :: "share list"
  dv_Idle :: share
  dv_Basis :: string

definition Total :: "division \<Rightarrow> share list" where
  "Total d = dv_Shares d @ (if sh_Amount (dv_Idle d) > 0 \<or> dv_Shares d = [] then [dv_Idle d] else [])"

definition Oversubscribed :: "division \<Rightarrow> bool" where
  "Oversubscribed d \<longleftrightarrow> dv_Claimed d > dv_Sellable d"

text \<open>A claim of nothing, or of less, is ignored.\<close>

definition counted :: "claim list \<Rightarrow> claim list" where
  "counted claims = filter (\<lambda>c. clm_Amount c > 0) claims"

definition claimed_sum :: "claim list \<Rightarrow> int" where
  "claimed_sum claims = foldl (\<lambda>acc c. i64 (acc + clm_Amount c)) 0 (counted claims)"

definition share_less :: "share \<Rightarrow> share \<Rightarrow> bool" where
  "share_less a b =
     (if sh_Amount a \<noteq> sh_Amount b then sh_Amount a > sh_Amount b else sh_Subject a < sh_Subject b)"

definition Divide :: "string \<Rightarrow> string \<Rightarrow> int \<Rightarrow> claim list \<Rightarrow> division" where
  "Divide dimension unit sellable claims =
     (let claimed = claimed_sum claims;
          den = (if claimed > sellable then claimed else sellable);
          idle = \<lparr>sh_SubjectID = [], sh_Subject = IdleSubject, sh_Amount = i64 (den - claimed),
                  sh_BasisPoints = 0\<rparr>;
          d = \<lparr>dv_Dimension = dimension, dv_Unit = unit, dv_Sellable = sellable, dv_Claimed = claimed,
               dv_Denominator = den, dv_Shares = [], dv_Idle = idle, dv_Basis = BasisAllocated\<rparr>
      in if den \<le> 0 then d
         else
           let points = apportion 10000 (map clm_Amount (counted claims) @ [sh_Amount idle]) den;
               shares = map (\<lambda>(c, p). \<lparr>sh_SubjectID = clm_SubjectID c, sh_Subject = clm_Subject c,
                                sh_Amount = clm_Amount c, sh_BasisPoints = p\<rparr>)
                          (zip (counted claims) points)
           in d\<lparr>dv_Shares := go_sort share_less shares,
                dv_Idle := idle\<lparr>sh_BasisPoints := last points\<rparr>\<rparr>)"

definition DivideEqually :: "string \<Rightarrow> claim list \<Rightarrow> division" where
  "DivideEqually dimension consumers =
     Divide dimension ''covered'' (claimed_sum consumers) (counted consumers)"

definition ApportionMinor :: "division \<Rightarrow> int \<Rightarrow> int list" where
  "ApportionMinor d minor =
     (if dv_Denominator d \<le> 0 then map (\<lambda>_. 0) (Total d)
      else apportionMinor minor (map sh_Amount (Total d)) (dv_Denominator d))"

section \<open>What a division adds up to\<close>

lemma counted_idem [simp]: "counted (counted claims) = counted claims"
  by (simp add: counted_def)

lemma counted_pos: "c \<in> set (counted claims) \<Longrightarrow> 0 < clm_Amount c"
  by (simp add: counted_def)

text \<open>Claims whose sum fits in 64 bits are summed without wrapping.\<close>

definition claims_fit :: "claim list \<Rightarrow> bool" where
  "claims_fit claims \<longleftrightarrow> sum_list (map clm_Amount (counted claims)) < 2 ^ 63"

lemma claimed_sum_plain:
  assumes "claims_fit claims"
  shows "claimed_sum claims = sum_list (map clm_Amount (counted claims))"
proof -
  have "\<forall>p\<in>set (map clm_Amount (counted claims)). 0 \<le> p"
    using counted_pos by fastforce
  then show ?thesis
    using assms foldl_i64_sum [of 0 "map clm_Amount (counted claims)"]
    by (simp add: claimed_sum_def claims_fit_def foldl_map)
qed

lemma claimed_nonneg: "0 \<le> sum_list (map clm_Amount (counted claims))"
  using counted_pos by (intro sum_list_nonneg) fastforce

definition share_amounts :: "claim list \<Rightarrow> int \<Rightarrow> int list" where
  "share_amounts claims den = map clm_Amount (counted claims) @ [den - sum_list (map clm_Amount (counted claims))]"

lemma share_amounts_ok:
  assumes "claims_fit claims" "den = max sellable (sum_list (map clm_Amount (counted claims)))" "0 < den"
    "0 \<le> t" "t * den < 2 ^ 63 - 1"
  shows "apportionable t (share_amounts claims den) den"
  using assms counted_pos
  by (auto simp: apportionable_def share_amounts_def list_all_iff dest: less_imp_le)

text \<open>The fields of a division when nothing wraps.\<close>

lemma Divide_fields:
  assumes "claims_fit claims" "sellable < 2 ^ 63"
  defines "den \<equiv> max sellable (sum_list (map clm_Amount (counted claims)))"
  shows "dv_Denominator (Divide dim un sellable claims) = den"
    and "dv_Claimed (Divide dim un sellable claims) = sum_list (map clm_Amount (counted claims))"
    and "sh_Amount (dv_Idle (Divide dim un sellable claims)) = den - sum_list (map clm_Amount (counted claims))"
    and "0 < den \<Longrightarrow> sh_BasisPoints (dv_Idle (Divide dim un sellable claims))
           = last (apportion 10000 (share_amounts claims den) den)"
    and "0 < den \<Longrightarrow> mset (dv_Shares (Divide dim un sellable claims))
           = mset (map (\<lambda>(c, p). \<lparr>sh_SubjectID = clm_SubjectID c, sh_Subject = clm_Subject c,
                sh_Amount = clm_Amount c, sh_BasisPoints = p\<rparr>)
                (zip (counted claims) (apportion 10000 (share_amounts claims den) den)))"
proof -
  note sum = claimed_sum_plain [OF assms(1)]
  have den: "(if claimed_sum claims > sellable then claimed_sum claims else sellable) = den"
    by (simp add: sum den_def max_def)
  have "0 \<le> den - claimed_sum claims" "den - claimed_sum claims < 2 ^ 63"
    using assms(1,2) claimed_nonneg [of claims] by (auto simp: sum den_def claims_fit_def)
  then have wrap: "i64 (den - claimed_sum claims) = den - claimed_sum claims" by (intro i64_id) auto
  note unfold = Divide_def Let_def den wrap
  show "dv_Denominator (Divide dim un sellable claims) = den"
    "dv_Claimed (Divide dim un sellable claims) = sum_list (map clm_Amount (counted claims))"
    "sh_Amount (dv_Idle (Divide dim un sellable claims)) = den - sum_list (map clm_Amount (counted claims))"
    unfolding unfold by (simp_all add: sum)
  show "sh_BasisPoints (dv_Idle (Divide dim un sellable claims))
      = last (apportion 10000 (share_amounts claims den) den)" if "0 < den"
    using that unfolding unfold by (simp add: sum share_amounts_def)
  show "mset (dv_Shares (Divide dim un sellable claims))
      = mset (map (\<lambda>(c, p). \<lparr>sh_SubjectID = clm_SubjectID c, sh_Subject = clm_Subject c,
          sh_Amount = clm_Amount c, sh_BasisPoints = p\<rparr>)
          (zip (counted claims) (apportion 10000 (share_amounts claims den) den)))" if "0 < den"
    using that unfolding unfold by (simp add: sum share_amounts_def)
qed

lemma map_zip_parts:
  assumes "length ps = Suc (length cs)"
  shows "sum_list (map (sh_BasisPoints \<circ> (\<lambda>(c, p). \<lparr>sh_SubjectID = clm_SubjectID c, sh_Subject = clm_Subject c,
            sh_Amount = clm_Amount c, sh_BasisPoints = p\<rparr>)) (zip cs ps)) + last ps = sum_list ps"
    and "map (sh_Amount \<circ> (\<lambda>(c, p). \<lparr>sh_SubjectID = clm_SubjectID c, sh_Subject = clm_Subject c,
            sh_Amount = clm_Amount c, sh_BasisPoints = p\<rparr>)) (zip cs ps) = map clm_Amount cs"
  using assms
proof (induction cs arbitrary: ps)
  case Nil
  { case 1 then show ?case by (cases ps) auto }
  { case 2 then show ?case by simp }
next
  case (Cons c cs)
  { case 1 then obtain p ps' where ps: "ps = p # ps'" "length ps' = Suc (length cs)" by (cases ps) auto
    moreover from ps(2) have "ps' \<noteq> []" by auto
    ultimately show ?case using Cons.IH(1) [OF ps(2)] by simp }
  { case 2 then obtain p ps' where "ps = p # ps'" "length ps' = Suc (length cs)" by (cases ps) auto
    then show ?case using Cons.IH(2) [of ps'] by simp }
qed

lemma sum_shares: "sum_list (map f (xs :: share list)) = sum_mset (image_mset f (mset xs))"
  for f :: "share \<Rightarrow> int"
  by (simp flip: mset_map sum_mset_sum_list)

lemma Divide_amounts:
  assumes "claims_fit claims" "sellable < 2 ^ 63"
    and "den = max sellable (sum_list (map clm_Amount (counted claims)))" "0 < den" "10000 * den < 2 ^ 63 - 1"
  shows "mset (map sh_Amount (dv_Shares (Divide dim un sellable claims))) = mset (map clm_Amount (counted claims))"
proof -
  note fields = Divide_fields [OF assms(1,2), folded assms(3), of dim un]
  have ok: "apportionable 10000 (share_amounts claims den) den"
    using share_amounts_ok [OF assms(1,3,4)] assms(5) by simp
  have len: "length (apportion 10000 (share_amounts claims den) den) = Suc (length (counted claims))"
    by (simp add: whole.parallel [OF ok]) (simp add: share_amounts_def)
  show ?thesis
    using fields(5) [OF assms(4)] map_zip_parts(2) [OF len]
    by (metis (no_types, lifting) map_map mset_map)
qed

section \<open>Properties\<close>

text \<open> The slices of a division make up the whole: the basis points of the shares and of the idle
  slice add up to exactly 10000, and their amounts to exactly the denominator, which is the larger
  of what can be sold and what was claimed.
\<close>

theorem division_slices_sum:
  assumes "claims_fit claims"
    and "den = max sellable (sum_list (map clm_Amount (counted claims)))" "0 < den" "10000 * den < 2 ^ 63 - 1"
  shows "sum_list (map sh_BasisPoints (dv_Shares (Divide dim un sellable claims)))
     + sh_BasisPoints (dv_Idle (Divide dim un sellable claims)) = 10000
   \<and> sum_list (map sh_Amount (dv_Shares (Divide dim un sellable claims)))
     + sh_Amount (dv_Idle (Divide dim un sellable claims)) = den
   \<and> dv_Denominator (Divide dim un sellable claims) = den"
proof (intro conjI)
  have "sellable < 2 ^ 63" using assms(2,4) by auto
  note fields = Divide_fields [OF assms(1) this, folded assms(2), of dim un]
  have ok: "apportionable 10000 (share_amounts claims den) den"
    using share_amounts_ok [OF assms(1,2,3)] assms(4) by simp
  let ?ps = "apportion 10000 (share_amounts claims den) den"
  have len: "length ?ps = Suc (length (counted claims))"
    by (simp add: whole.parallel [OF ok]) (simp add: share_amounts_def)
  show "sum_list (map sh_BasisPoints (dv_Shares (Divide dim un sellable claims)))
      + sh_BasisPoints (dv_Idle (Divide dim un sellable claims)) = 10000"
    using map_zip_parts(1) [OF len] whole.exact [OF ok] fields(4,5) assms(3)
    unfolding sum_shares by (simp flip: mset_map sum_mset_sum_list)
  show "sum_list (map sh_Amount (dv_Shares (Divide dim un sellable claims)))
      + sh_Amount (dv_Idle (Divide dim un sellable claims)) = den"
    using Divide_amounts [OF assms(1) \<open>sellable < 2 ^ 63\<close> assms(2-4), of dim un] fields(3)
    by (metis add_diff_cancel_left' add_diff_eq sum_mset_sum_list)
  show "dv_Denominator (Divide dim un sellable claims) = den" by (rule fields(1))
qed

theorem division_slices_sum_witness:
  "sum_list (map sh_BasisPoints (dv_Shares (Divide ''CPU'' ''vCPU'' 10
       [\<lparr>clm_SubjectID = ''a'', clm_Subject = ''a'', clm_Amount = 3\<rparr>,
        \<lparr>clm_SubjectID = ''b'', clm_Subject = ''b'', clm_Amount = 4\<rparr>])))
   + sh_BasisPoints (dv_Idle (Divide ''CPU'' ''vCPU'' 10
       [\<lparr>clm_SubjectID = ''a'', clm_Subject = ''a'', clm_Amount = 3\<rparr>,
        \<lparr>clm_SubjectID = ''b'', clm_Subject = ''b'', clm_Amount = 4\<rparr>])) = 10000"
  by (rule division_slices_sum [OF _ refl, THEN conjunct1]) (simp_all add: claims_fit_def counted_def)

lemma Total_amounts:
  fixes dim un :: string
  assumes "claims_fit claims" "sellable < 2 ^ 63"
    and "den = max sellable (sum_list (map clm_Amount (counted claims)))" "0 < den" "10000 * den < 2 ^ 63 - 1"
  defines "d \<equiv> Divide dim un sellable claims"
  shows "sum_list (map sh_Amount (Total d)) = den" "\<forall>a\<in>set (map sh_Amount (Total d)). 0 \<le> a"
proof -
  note fields = Divide_fields [OF assms(1,2), folded assms(3), of dim un, folded d_def]
  note amounts = Divide_amounts [OF assms(1-5), of dim un, folded d_def]
  have idle: "0 \<le> sh_Amount (dv_Idle d)" using fields(3) assms(3) by simp
  have "sum_list (map sh_Amount (dv_Shares d)) = sum_list (map clm_Amount (counted claims))"
    using amounts by (metis sum_mset_sum_list)
  with fields(3) have "sum_list (map sh_Amount (dv_Shares d)) + sh_Amount (dv_Idle d) = den" by simp
  with idle show "sum_list (map sh_Amount (Total d)) = den" by (auto simp: Total_def)
  have "set (map sh_Amount (dv_Shares d)) = set (map clm_Amount (counted claims))"
    using amounts by (metis set_mset_mset)
  then have "\<forall>a\<in>set (map sh_Amount (dv_Shares d)). 0 \<le> a" using counted_pos by fastforce
  with idle show "\<forall>a\<in>set (map sh_Amount (Total d)). 0 \<le> a" by (auto simp: Total_def)
qed

text \<open>
  Money is neither lost nor invented: an amount apportioned over the slices of a division
  comes back in full, one part per slice that is drawn, with no part negative.
\<close>

theorem money_apportioned_exactly:
  assumes "claims_fit claims"
    and "den = max sellable (sum_list (map clm_Amount (counted claims)))" "0 < den" "10000 * den < 2 ^ 63 - 1"
    and "0 \<le> minor" "minor * den < 2 ^ 63 - 1"
  shows "sum_list (ApportionMinor (Divide dim un sellable claims) minor) = minor
   \<and> length (ApportionMinor (Divide dim un sellable claims) minor)
     = length (Total (Divide dim un sellable claims))
   \<and> (\<forall>p\<in>set (ApportionMinor (Divide dim un sellable claims) minor). 0 \<le> p)"
proof (intro conjI)
  let ?d = "Divide dim un sellable claims"
  have sell: "sellable < 2 ^ 63" using assms(2,4) by auto
  have den: "dv_Denominator ?d = den" using Divide_fields(1) [OF assms(1) sell] assms(2) by simp
  have ok: "apportionable minor (map sh_Amount (Total ?d)) den"
    using Total_amounts [OF assms(1) sell assms(2-4), of dim un] assms(3,5,6)
    by (simp add: apportionable_def list_all_iff)
  have parts: "ApportionMinor ?d minor = apportionMinor minor (map sh_Amount (Total ?d)) den"
    using assms(3) by (simp add: ApportionMinor_def den)
  show "sum_list (ApportionMinor ?d minor) = minor" unfolding parts by (rule minor.exact [OF ok])
  show "length (ApportionMinor ?d minor) = length (Total ?d)"
    unfolding parts using minor.parallel [OF ok] by simp
  show "\<forall>p\<in>set (ApportionMinor ?d minor). 0 \<le> p" unfolding parts using minor.part_nonneg [OF ok] by blast
qed

theorem money_apportioned_exactly_witness:
  "sum_list (ApportionMinor (Divide ''memory'' ''MB'' 4096
      [\<lparr>clm_SubjectID = ''a'', clm_Subject = ''a'', clm_Amount = 1365\<rparr>]) 100001) = 100001"
  by (rule money_apportioned_exactly [OF _ refl, THEN conjunct1]) (simp_all add: claims_fit_def counted_def)

text \<open> A per-head cost has no idle slice: dividing per consumer leaves nothing unclaimed and is
  never oversubscribed.
\<close>

theorem per_head_has_no_idle:
  assumes "claims_fit consumers"
  shows "sh_Amount (dv_Idle (DivideEqually dim consumers)) = 0
   \<and> \<not> Oversubscribed (DivideEqually dim consumers)"
proof (intro conjI)
  let ?s = "sum_list (map clm_Amount (counted consumers))"
  have fit: "claims_fit (counted consumers)" using assms by (simp add: claims_fit_def)
  have "?s < 2 ^ 63" using assms by (simp add: claims_fit_def)
  note fields = Divide_fields [OF fit this, of dim "''covered''"]
  show "sh_Amount (dv_Idle (DivideEqually dim consumers)) = 0"
    using fields(3) by (simp add: DivideEqually_def claimed_sum_plain [OF assms])
  have "dv_Sellable (Divide dim un sell cs) = sell" for un sell cs
    by (simp add: Divide_def Let_def)
  then show "\<not> Oversubscribed (DivideEqually dim consumers)"
    using fields(2) by (simp add: Oversubscribed_def DivideEqually_def claimed_sum_plain [OF assms])
qed

theorem per_head_has_no_idle_witness:
  "sh_Amount (dv_Idle (DivideEqually ''backup''
      [\<lparr>clm_SubjectID = ''a'', clm_Subject = ''a'', clm_Amount = 3\<rparr>,
       \<lparr>clm_SubjectID = ''b'', clm_Subject = ''b'', clm_Amount = 2\<rparr>])) = 0"
  by (rule per_head_has_no_idle [THEN conjunct1]) (simp add: claims_fit_def counted_def)

end
