(* ===== verification/Capacity.thy ===== *)
theory Capacity
  imports Apportion
begin

text \<open>
  What a cluster can carry and what has been claimed against it: internal/domain/capacity.go.
\<close>

section \<open>Measured hosts and claims\<close>

abbreviation DefaultCPUOvercommit :: int where "DefaultCPUOvercommit \<equiv> 100"

text \<open>\<open>%02d\<close>: at least two characters, padded with zeros.\<close>

definition pad2 :: "int \<Rightarrow> string" where
  "pad2 i = (if length (itoa i) < 2 then ''0'' @ itoa i else itoa i)"

definition RatioText :: "int \<Rightarrow> string" where
  "RatioText hundredths =
     (let w = hundredths sdiv 100; f = hundredths smod 100 in
      if f = 0 then itoa w
      else if f smod 10 = 0 then itoa w @ ''.'' @ itoa (f sdiv 10)
      else itoa w @ ''.'' @ pad2 f)"

record hostCapacity =
  hc_AssetID :: string
  hc_Name :: string
  hc_CPUCores :: "int option"
  hc_MemoryMB :: "int option"

definition Measured :: "hostCapacity \<Rightarrow> bool" where
  "Measured h \<longleftrightarrow> hc_CPUCores h \<noteq> None \<and> hc_MemoryMB h \<noteq> None"

record workloadClaim =
  wc_AssetID :: string
  wc_Name :: string
  wc_VCPUProvisioned :: "int option"
  wc_VCPUAllocated :: "int option"
  wc_MemoryProvisionedMB :: "int option"
  wc_MemoryAllocatedMB :: "int option"

record clusterCapacity =
  cc_Hosts :: int
  cc_Survivors :: int
  cc_UnmeasuredHosts :: int
  cc_RawCores :: int
  cc_RawMemoryMB :: int
  cc_UsableVCPU :: int
  cc_UsableMemoryMB :: int
  cc_AllocatedVCPU :: int
  cc_AllocatedMemoryMB :: int
  cc_ProvisionedVCPU :: int
  cc_ProvisionedMemoryMB :: int
  cc_UnallocatedWorkloads :: int
  cc_Overcommit :: int
  cc_OvercommitDeclared :: bool
  cc_SurvivorsDeclared :: bool

definition OvercommitRatio :: "clusterCapacity \<Rightarrow> string" where
  "OvercommitRatio c = RatioText (cc_Overcommit c) @ '':1''"

definition Complete :: "clusterCapacity \<Rightarrow> bool" where
  "Complete c \<longleftrightarrow> cc_UnmeasuredHosts c = 0 \<and> cc_UnallocatedWorkloads c = 0 \<and> cc_Hosts c > 0
     \<and> cc_SurvivorsDeclared c \<and> cc_OvercommitDeclared c"

definition RedundancyPremium :: "clusterCapacity \<Rightarrow> int" where
  "RedundancyPremium c =
     (if \<not> cc_SurvivorsDeclared c \<or> cc_Survivors c \<le> 0 \<or> cc_Survivors c \<ge> cc_Hosts c then 0
      else i64 ((cc_Hosts c - cc_Survivors c) * 100) sdiv cc_Survivors c)"

definition CPUOversubscribed :: "clusterCapacity \<Rightarrow> bool" where
  "CPUOversubscribed c \<longleftrightarrow> cc_UsableVCPU c > 0 \<and> cc_ProvisionedVCPU c > cc_UsableVCPU c"

definition MemoryOversubscribed :: "clusterCapacity \<Rightarrow> bool" where
  "MemoryOversubscribed c \<longleftrightarrow> cc_UsableMemoryMB c > 0 \<and> cc_ProvisionedMemoryMB c > cc_UsableMemoryMB c"

definition UnfundedVCPU :: "clusterCapacity \<Rightarrow> int" where
  "UnfundedVCPU c = (if cc_ProvisionedVCPU c \<le> cc_AllocatedVCPU c then 0
     else i64 (cc_ProvisionedVCPU c - cc_AllocatedVCPU c))"

definition UnfundedMemoryMB :: "clusterCapacity \<Rightarrow> int" where
  "UnfundedMemoryMB c = (if cc_ProvisionedMemoryMB c \<le> cc_AllocatedMemoryMB c then 0
     else i64 (cc_ProvisionedMemoryMB c - cc_AllocatedMemoryMB c))"

section \<open>The totals\<close>

definition sum64 :: "('a \<Rightarrow> int) \<Rightarrow> 'a list \<Rightarrow> int" where
  "sum64 f xs = foldl (\<lambda>acc x. i64 (acc + f x)) 0 xs"

definition value_or_zero :: "int option \<Rightarrow> int" where
  "value_or_zero v = (case v of Some n \<Rightarrow> n | None \<Rightarrow> 0)"

text \<open>Provisioning falls back to the allocation when it is not recorded.\<close>

definition provisioned :: "int option \<Rightarrow> int option \<Rightarrow> int" where
  "provisioned prov alloc = (case prov of Some n \<Rightarrow> n | None \<Rightarrow> value_or_zero alloc)"

definition ComputeCapacity ::
  "hostCapacity list \<Rightarrow> workloadClaim list \<Rightarrow> int \<Rightarrow> int option \<Rightarrow> clusterCapacity" where
  "ComputeCapacity hosts claims survivors overcommit =
     (let n = int (length hosts);
          ratio = (case overcommit of Some r \<Rightarrow> r | None \<Rightarrow> DefaultCPUOvercommit);
          measured = filter Measured hosts;
          cores = sum64 (\<lambda>h. value_or_zero (hc_CPUCores h)) measured;
          memory = sum64 (\<lambda>h. value_or_zero (hc_MemoryMB h)) measured;
          kept = (if survivors \<le> 0 \<or> survivors > n then n else survivors)
      in \<lparr>cc_Hosts = n, cc_Survivors = kept,
          cc_UnmeasuredHosts = int (length (filter (\<lambda>h. \<not> Measured h) hosts)),
          cc_RawCores = cores, cc_RawMemoryMB = memory,
          cc_UsableVCPU = (if measured \<noteq> [] \<and> n > 0
             then i64 (i64 (cores * kept) sdiv n * ratio) sdiv 100 else 0),
          cc_UsableMemoryMB = (if measured \<noteq> [] \<and> n > 0 then i64 (memory * kept) sdiv n else 0),
          cc_AllocatedVCPU = sum64 (\<lambda>w. value_or_zero (wc_VCPUAllocated w)) claims,
          cc_AllocatedMemoryMB = sum64 (\<lambda>w. value_or_zero (wc_MemoryAllocatedMB w)) claims,
          cc_ProvisionedVCPU = sum64 (\<lambda>w. provisioned (wc_VCPUProvisioned w) (wc_VCPUAllocated w)) claims,
          cc_ProvisionedMemoryMB =
             sum64 (\<lambda>w. provisioned (wc_MemoryProvisionedMB w) (wc_MemoryAllocatedMB w)) claims,
          cc_UnallocatedWorkloads = int (length (filter
             (\<lambda>w. wc_VCPUAllocated w = None \<and> wc_MemoryAllocatedMB w = None) claims)),
          cc_Overcommit = ratio, cc_OvercommitDeclared = (overcommit \<noteq> None),
          cc_SurvivorsDeclared = (survivors > 0 \<and> survivors \<le> n)\<rparr>)"

section \<open>Bounds\<close>

text \<open>Hosts whose declared sizes are not negative and whose totals leave room for the arithmetic.\<close>

definition hosts_fit :: "hostCapacity list \<Rightarrow> int \<Rightarrow> bool" where
  "hosts_fit hosts ratio \<longleftrightarrow>
     list_all (\<lambda>h. 0 \<le> value_or_zero (hc_CPUCores h) \<and> 0 \<le> value_or_zero (hc_MemoryMB h)) hosts
     \<and> sum_list (map (\<lambda>h. value_or_zero (hc_CPUCores h)) (filter Measured hosts)) * max 1 (int (length hosts)) < 2 ^ 63
     \<and> sum_list (map (\<lambda>h. value_or_zero (hc_MemoryMB h)) (filter Measured hosts)) * max 1 (int (length hosts)) < 2 ^ 63
     \<and> 0 \<le> ratio
     \<and> sum_list (map (\<lambda>h. value_or_zero (hc_CPUCores h)) (filter Measured hosts)) * ratio < 2 ^ 63"

lemma sum64_plain:
  assumes "\<forall>x\<in>set xs. 0 \<le> f x" "sum_list (map f xs) * m < 2 ^ 63" "1 \<le> m"
  shows "sum64 f xs = sum_list (map f xs)" "0 \<le> sum_list (map f xs)"
proof -
  show nonneg: "0 \<le> sum_list (map f xs)" using assms(1) by (intro sum_list_nonneg) auto
  have "sum_list (map f xs) * 1 \<le> sum_list (map f xs) * m" using nonneg assms(3) by (rule mult_left_mono [rotated])
  with assms(2) have "sum_list (map f xs) < 2 ^ 63" by simp
  with assms(1) show "sum64 f xs = sum_list (map f xs)"
    using foldl_i64_sum [of 0 "map f xs"] by (simp add: sum64_def foldl_map)
qed

text \<open>Scaling by the share of surviving hosts never exceeds the whole.\<close>

lemma scaled_le:
  assumes "0 \<le> amt" "0 \<le> kept" "kept \<le> n" "0 < n" "amt * n < (2::int) ^ 63"
  shows "i64 (amt * kept) sdiv n = amt * kept div n" "amt * kept div n \<le> amt" "0 \<le> amt * kept div n"
proof -
  have le: "amt * kept \<le> amt * n" using assms(1,3) by (rule mult_left_mono [rotated])
  have nonneg: "0 \<le> amt * kept" using assms(1,2) by simp
  have "i64 (amt * kept) = amt * kept" using le nonneg assms(5) by (intro i64_id) auto
  then show "i64 (amt * kept) sdiv n = amt * kept div n" using nonneg assms(4) by (simp add: sdiv_pos)
  show "amt * kept div n \<le> amt" using zdiv_mono1 [OF le assms(4)] assms(4) by simp
  show "0 \<le> amt * kept div n" using nonneg assms(4) by (simp add: pos_imp_zdiv_nonneg_iff)
qed

lemma raw_totals:
  assumes "hosts_fit hosts ratio" and "hosts \<noteq> []"
  defines "cores \<equiv> sum_list (map (\<lambda>h. value_or_zero (hc_CPUCores h)) (filter Measured hosts))"
    and "memory \<equiv> sum_list (map (\<lambda>h. value_or_zero (hc_MemoryMB h)) (filter Measured hosts))"
  shows "sum64 (\<lambda>h. value_or_zero (hc_CPUCores h)) (filter Measured hosts) = cores" "0 \<le> cores"
    "sum64 (\<lambda>h. value_or_zero (hc_MemoryMB h)) (filter Measured hosts) = memory" "0 \<le> memory"
    "cores * int (length hosts) < 2 ^ 63" "memory * int (length hosts) < 2 ^ 63" "cores * ratio < 2 ^ 63"
proof -
  have n: "max 1 (int (length hosts)) = int (length hosts)" "1 \<le> int (length hosts)"
    using assms(2) by (cases hosts; simp)+
  show fit: "cores * int (length hosts) < 2 ^ 63" "memory * int (length hosts) < 2 ^ 63" "cores * ratio < 2 ^ 63"
    using assms(1) unfolding hosts_fit_def n(1) cores_def memory_def by blast+
  have pos: "\<forall>h\<in>set (filter Measured hosts). 0 \<le> value_or_zero (hc_CPUCores h)"
    "\<forall>h\<in>set (filter Measured hosts). 0 \<le> value_or_zero (hc_MemoryMB h)"
    using assms(1) by (auto simp: hosts_fit_def list_all_iff)
  show "sum64 (\<lambda>h. value_or_zero (hc_CPUCores h)) (filter Measured hosts) = cores" "0 \<le> cores"
    using sum64_plain [OF pos(1) fit(1) [unfolded cores_def] n(2)] by (simp_all add: cores_def)
  show "sum64 (\<lambda>h. value_or_zero (hc_MemoryMB h)) (filter Measured hosts) = memory" "0 \<le> memory"
    using sum64_plain [OF pos(2) fit(2) [unfolded memory_def] n(2)] by (simp_all add: memory_def)
qed

lemma vcpu_bound:
  assumes "0 \<le> u" "u \<le> cores" "0 \<le> ratio" "cores * ratio < (2::int) ^ 63"
  shows "0 \<le> i64 (u * ratio) sdiv 100" "100 * (i64 (u * ratio) sdiv 100) \<le> cores * ratio"
proof -
  have le: "u * ratio \<le> cores * ratio" using assms(2,3) by (rule mult_right_mono)
  have nonneg: "0 \<le> u * ratio" using assms(1,3) by simp
  have "i64 (u * ratio) = u * ratio" using le nonneg assms(4) by (intro i64_id) auto
  then have eq: "i64 (u * ratio) sdiv 100 = u * ratio div 100" using nonneg by (simp add: sdiv_pos)
  show "0 \<le> i64 (u * ratio) sdiv 100" unfolding eq using nonneg by (simp add: pos_imp_zdiv_nonneg_iff)
  show "100 * (i64 (u * ratio) sdiv 100) \<le> cores * ratio"
    unfolding eq using le by linarith
qed

text \<open> Usable capacity is never more than what was measured: after setting hosts aside for a
  failure, usable memory is at most the raw memory, and usable vCPU at most the raw cores times
  the overcommit ratio; neither is negative.
\<close>

theorem usable_within_raw:
  assumes "hosts_fit hosts (case overcommit of Some r \<Rightarrow> r | None \<Rightarrow> 100)"
  shows "0 \<le> cc_UsableMemoryMB (ComputeCapacity hosts claims survivors overcommit)
   \<and> cc_UsableMemoryMB (ComputeCapacity hosts claims survivors overcommit)
     \<le> cc_RawMemoryMB (ComputeCapacity hosts claims survivors overcommit)
   \<and> 0 \<le> cc_UsableVCPU (ComputeCapacity hosts claims survivors overcommit)
   \<and> 100 * cc_UsableVCPU (ComputeCapacity hosts claims survivors overcommit)
     \<le> cc_RawCores (ComputeCapacity hosts claims survivors overcommit)
     * cc_Overcommit (ComputeCapacity hosts claims survivors overcommit)"
proof (intro conjI)
  define ratio where "ratio = (case overcommit of Some r \<Rightarrow> r | None \<Rightarrow> 100)"
  define n where "n = int (length hosts)"
  define kept where "kept = (if survivors \<le> 0 \<or> survivors > n then n else survivors)"
  let ?c = "ComputeCapacity hosts claims survivors overcommit"
  have all: "0 \<le> cc_UsableMemoryMB ?c \<and> cc_UsableMemoryMB ?c \<le> cc_RawMemoryMB ?c
    \<and> 0 \<le> cc_UsableVCPU ?c \<and> 100 * cc_UsableVCPU ?c \<le> cc_RawCores ?c * cc_Overcommit ?c"
  proof (cases "hosts = []")
    case False
    note raw = raw_totals [OF assms False, folded ratio_def n_def]
    have kept: "0 \<le> kept" "kept \<le> n" "0 < n" using False by (auto simp: kept_def n_def)
    note mem = scaled_le [OF raw(4) kept raw(6)] and cpu = scaled_le [OF raw(2) kept raw(5)]
    have ratio: "0 \<le> ratio" using assms by (simp add: hosts_fit_def ratio_def)
    note vcpu = vcpu_bound [OF cpu(3,2) ratio raw(7)]
    have zero: "0 \<le> sum_list (map (\<lambda>h. value_or_zero (hc_CPUCores h)) (filter Measured hosts)) * ratio"
      using raw(2) ratio by simp
    show ?thesis
      using mem vcpu raw(2,4) kept(3) zero
      by (simp add: ComputeCapacity_def Let_def raw(1,3) cpu(1) flip: n_def kept_def ratio_def)
  qed (simp add: ComputeCapacity_def Let_def sum64_def)
  then show "0 \<le> cc_UsableMemoryMB ?c" "cc_UsableMemoryMB ?c \<le> cc_RawMemoryMB ?c" "0 \<le> cc_UsableVCPU ?c"
    "100 * cc_UsableVCPU ?c \<le> cc_RawCores ?c * cc_Overcommit ?c" by blast+
qed

definition demo_host :: "int option \<Rightarrow> int option \<Rightarrow> hostCapacity" where
  "demo_host cores mem = \<lparr>hc_AssetID = ''h'', hc_Name = ''h'', hc_CPUCores = cores, hc_MemoryMB = mem\<rparr>"

definition half_measured :: "hostCapacity list" where
  "half_measured = [demo_host (Some 16) (Some 65536), demo_host (Some 16) (Some 65536),
     demo_host None None, demo_host None None]"

lemma half_measured_fit: "hosts_fit half_measured 300"
  by (simp add: hosts_fit_def half_measured_def demo_host_def Measured_def value_or_zero_def)

theorem usable_within_raw_witness:
  "100 * cc_UsableVCPU (ComputeCapacity half_measured [] 2 (Some 300))
     \<le> cc_RawCores (ComputeCapacity half_measured [] 2 (Some 300))
       * cc_Overcommit (ComputeCapacity half_measured [] 2 (Some 300))"
  by (rule usable_within_raw [THEN conjunct2, THEN conjunct2, THEN conjunct2]) (simp add: half_measured_fit)

text \<open> Usable memory is the raw memory of the measured hosts scaled by survivors over ALL hosts,
  the unmeasured ones included, and every host is counted as measured or unmeasured. With
  unmeasured hosts this is less than the average measured host times the survivors.
\<close>

theorem usable_memory_over_all_hosts:
  assumes "hosts_fit hosts (case overcommit of Some r \<Rightarrow> r | None \<Rightarrow> 100)" "filter Measured hosts \<noteq> []"
  shows "cc_UsableMemoryMB (ComputeCapacity hosts claims survivors overcommit)
     = cc_RawMemoryMB (ComputeCapacity hosts claims survivors overcommit)
     * cc_Survivors (ComputeCapacity hosts claims survivors overcommit) div int (length hosts)
   \<and> cc_UnmeasuredHosts (ComputeCapacity hosts claims survivors overcommit)
     = cc_Hosts (ComputeCapacity hosts claims survivors overcommit) - int (length (filter Measured hosts))"
proof (intro conjI)
  define n where "n = int (length hosts)"
  define kept where "kept = (if survivors \<le> 0 \<or> survivors > n then n else survivors)"
  have ne: "hosts \<noteq> []" using assms(2) by auto
  note raw = raw_totals [OF assms(1) ne, folded n_def]
  have kept: "0 \<le> kept" "kept \<le> n" "0 < n" using ne by (auto simp: kept_def n_def)
  show "cc_UsableMemoryMB (ComputeCapacity hosts claims survivors overcommit)
      = cc_RawMemoryMB (ComputeCapacity hosts claims survivors overcommit)
        * cc_Survivors (ComputeCapacity hosts claims survivors overcommit) div int (length hosts)"
    using scaled_le(1) [OF raw(4) kept raw(6)] assms(2) kept(3)
    by (simp add: ComputeCapacity_def Let_def raw(3) flip: n_def kept_def)
  show "cc_UnmeasuredHosts (ComputeCapacity hosts claims survivors overcommit)
      = cc_Hosts (ComputeCapacity hosts claims survivors overcommit) - int (length (filter Measured hosts))"
    using sum_length_filter_compl [of Measured hosts] by (simp add: ComputeCapacity_def Let_def)
qed

theorem usable_memory_over_all_hosts_witness:
  "cc_UsableMemoryMB (ComputeCapacity half_measured [] 2 (Some 300)) = 65536"
proof -
  have "filter Measured half_measured \<noteq> []"
    by (simp add: half_measured_def demo_host_def Measured_def)
  then have "cc_UsableMemoryMB (ComputeCapacity half_measured [] 2 (Some 300))
      = cc_RawMemoryMB (ComputeCapacity half_measured [] 2 (Some 300))
        * cc_Survivors (ComputeCapacity half_measured [] 2 (Some 300)) div int (length half_measured)"
    by (intro usable_memory_over_all_hosts [THEN conjunct1]) (simp_all add: half_measured_fit)
  then show ?thesis
    by (simp add: ComputeCapacity_def Let_def sum64_def half_measured_def demo_host_def Measured_def
        value_or_zero_def i64_def)
qed

end
