(* ===== verification/Occupancy.thy ===== *)
theory Occupancy
  imports Apportion
begin

text \<open>
  Several tenants in one machine: internal/domain/occupancy.go. Declared percentages divide a
  quantity by the largest-remainder rule, the undeclared rest being a bucket of its own that is
  attributed to nobody.
\<close>

section \<open>Occupants\<close>

record occupant =
  oc_AssetID :: string
  oc_ProjectID :: string
  oc_Percent :: int
  oc_Note :: "string option"
  oc_ProjectCode :: string
  oc_CreatedAt :: string
  oc_UpdatedAt :: string

record occupancy =
  ocy_AssetID :: string
  ocy_AssetName :: string
  ocy_Occupants :: "occupant list"

definition DeclaredPercent :: "occupancy \<Rightarrow> int" where
  "DeclaredPercent o' = foldl (\<lambda>acc x. i64 (acc + oc_Percent x)) 0 (ocy_Occupants o')"

definition Shared :: "occupancy \<Rightarrow> bool" where
  "Shared o' \<longleftrightarrow> ocy_Occupants o' \<noteq> []"

definition Balanced :: "occupancy \<Rightarrow> bool" where
  "Balanced o' \<longleftrightarrow> \<not> Shared o' \<or> DeclaredPercent o' = 100"

definition Denominator :: "occupancy \<Rightarrow> int" where
  "Denominator o' = (if DeclaredPercent o' > 100 then DeclaredPercent o' else 100)"

definition weights :: "occupancy \<Rightarrow> string list \<times> int list" where
  "weights o' =
     (map oc_ProjectID (ocy_Occupants o'),
      map oc_Percent (ocy_Occupants o')
      @ (let slack = i64 (Denominator o' - DeclaredPercent o') in if slack > 0 then [slack] else []))"

text \<open>\<open>out[id] += parts[i]\<close> over the ids; zipping drops the unnamed bucket.\<close>

definition add_parts :: "string list \<Rightarrow> int list \<Rightarrow> string \<Rightarrow> int" where
  "add_parts ids parts = foldl (\<lambda>m (k, p). m(k := i64 (m k + p))) (\<lambda>_. 0) (zip ids parts)"

definition Split :: "occupancy \<Rightarrow> int \<Rightarrow> string \<Rightarrow> int" where
  "Split o' amount =
     (if amount \<le> 0 \<or> \<not> Shared o' then (\<lambda>_. 0)
      else add_parts (fst (weights o')) (apportion amount (snd (weights o')) (Denominator o')))"

definition SplitMinor :: "occupancy \<Rightarrow> int \<Rightarrow> string \<Rightarrow> int" where
  "SplitMinor o' amount =
     (if amount \<le> 0 \<or> \<not> Shared o' then (\<lambda>_. 0)
      else add_parts (fst (weights o')) (apportionMinor amount (snd (weights o')) (Denominator o')))"

text \<open>The messages a proposed set is refused with, by field.\<close>

fun occupant_errors :: "string list \<Rightarrow> occupant list \<Rightarrow> (string \<times> string) list" where
  "occupant_errors seen [] = []"
| "occupant_errors seen (x # xs) =
     (if oc_ProjectID x = [] then
        (''project_id'', ''an occupant needs a project'') # occupant_errors seen xs
      else
        (if List.member seen (oc_ProjectID x)
         then [(''project_id'', oc_ProjectID x @ '' is named twice; one row per project'')] else [])
        @ (if oc_Percent x \<le> 0 \<or> oc_Percent x > 100
           then [(''percent'', ''a share is between 1 and 100, and '' @ itoa (oc_Percent x) @ '' is not'')] else [])
        @ occupant_errors (oc_ProjectID x # seen) xs)"

definition ValidateOccupants :: "occupant list \<Rightarrow> (string \<times> string) list" where
  "ValidateOccupants occupants = occupant_errors [] occupants"

definition occupant_less :: "occupant \<Rightarrow> occupant \<Rightarrow> bool" where
  "occupant_less a b =
     (if oc_Percent a \<noteq> oc_Percent b then oc_Percent a > oc_Percent b
      else oc_ProjectCode a < oc_ProjectCode b)"

definition SortOccupants :: "occupant list \<Rightarrow> occupant list" where
  "SortOccupants = go_sort occupant_less"

interpretation occupant_order: go_ordering occupant_less
proof -
  have eq: "occupant_less = (\<lambda>a b. if - oc_Percent a \<noteq> - oc_Percent b then - oc_Percent a < - oc_Percent b
      else oc_ProjectCode a < oc_ProjectCode b)"
    by (auto simp: occupant_less_def fun_eq_iff)
  show "go_ordering occupant_less"
    unfolding eq by (rule go_ordering_lex [OF go_ordering_key])
qed

section \<open>Validation\<close>

lemma occupant_errors_nil:
  "occupant_errors seen xs = [] \<longleftrightarrow>
     (\<forall>x\<in>set xs. oc_ProjectID x \<noteq> [] \<and> 1 \<le> oc_Percent x \<and> oc_Percent x \<le> 100)
     \<and> distinct (map oc_ProjectID xs) \<and> set seen \<inter> set (map oc_ProjectID xs) = {}"
  by (induction xs arbitrary: seen) auto

text \<open> A proposed occupancy is accepted exactly when every occupant names a project, no project
  occurs twice and every share lies between 1 and 100; the total is deliberately not a condition.
\<close>

theorem occupants_accepted_iff:
  "ValidateOccupants occupants = [] \<longleftrightarrow>
     (\<forall>x\<in>set occupants. oc_ProjectID x \<noteq> [] \<and> 1 \<le> oc_Percent x \<and> oc_Percent x \<le> 100)
     \<and> distinct (map oc_ProjectID occupants)"
  by (simp add: ValidateOccupants_def occupant_errors_nil)

theorem occupants_accepted_iff_witness:
  "ValidateOccupants [\<lparr>oc_AssetID = ''m'', oc_ProjectID = ''a'', oc_Percent = 60, oc_Note = None,
     oc_ProjectCode = ''A'', oc_CreatedAt = [], oc_UpdatedAt = []\<rparr>] = []"
  using occupants_accepted_iff [of "[\<lparr>oc_AssetID = ''m'', oc_ProjectID = ''a'', oc_Percent = 60, oc_Note = None,
     oc_ProjectCode = ''A'', oc_CreatedAt = [], oc_UpdatedAt = []\<rparr>]"] by simp

section \<open>Splitting\<close>

lemma foldl_add_parts:
  assumes "\<forall>p\<in>set (map snd ps). 0 \<le> p" "\<And>k. 0 \<le> m k" "\<And>k. m k + sum_list (map snd ps) < 2 ^ 63"
  shows "foldl (\<lambda>m (k, p). m(k := i64 (m k + p))) m ps k
    = m k + sum_list (map snd (filter (\<lambda>(k', _). k' = k) ps))"
  using assms
proof (induction ps arbitrary: m)
  case (Cons x ps)
  obtain j p where x: "x = (j, p)" by (cases x)
  have nonneg: "0 \<le> sum_list (map snd ps)" using Cons.prems(1) by (intro sum_list_nonneg) auto
  have wrap: "i64 (m j + p) = m j + p"
    using Cons.prems(1) Cons.prems(2) [of j] Cons.prems(3) [of j] nonneg x by (intro i64_id) auto
  have "(m(j := m j + p)) i + sum_list (map snd ps) < 2 ^ 63" for i
    using Cons.prems(1) Cons.prems(3) [of i] x by (cases "i = j") auto
  then have "foldl (\<lambda>m (k, p). m(k := i64 (m k + p))) (m(j := m j + p)) ps k
      = (m(j := m j + p)) k + sum_list (map snd (filter (\<lambda>(k', _). k' = k) ps))"
    using Cons.prems(1,2) x by (intro Cons.IH) auto
  moreover have "foldl (\<lambda>m (k, p). m(k := i64 (m k + p))) m (x # ps)
      = foldl (\<lambda>m (k, p). m(k := i64 (m k + p))) (m(j := m j + p)) ps"
    by (simp only: foldl_Cons x prod.case wrap)
  ultimately show ?case by (simp only:) (simp add: x)
qed simp

lemma sum_by_key:
  assumes "finite K" "fst ` set ps \<subseteq> K"
  shows "(\<Sum>k\<in>K. sum_list (map snd (filter (\<lambda>(k', _). k' = k) ps))) = (sum_list (map snd ps) :: int)"
  using assms(2)
proof (induction ps)
  case (Cons x ps)
  obtain j p where x: "x = (j, p)" by (cases x)
  then have "(\<Sum>k\<in>K. sum_list (map snd (filter (\<lambda>(k', _). k' = k) (x # ps))))
      = (\<Sum>k\<in>K. (if j = k then p else 0) + sum_list (map snd (filter (\<lambda>(k', _). k' = k) ps)))"
    by (intro sum.cong) auto
  also have "\<dots> = p + sum_list (map snd ps)"
    using Cons x assms(1) by (simp add: sum.distrib sum.delta)
  finally show ?case by (simp add: x)
qed simp

text \<open>An occupancy as validation leaves it, with a total that fits.\<close>

definition declared_ok :: "occupancy \<Rightarrow> bool" where
  "declared_ok o' \<longleftrightarrow> list_all (\<lambda>x. 0 < oc_Percent x) (ocy_Occupants o')
     \<and> sum_list (map oc_Percent (ocy_Occupants o')) < 2 ^ 63"

lemma declared_plain:
  assumes "declared_ok o'"
  shows "DeclaredPercent o' = sum_list (map oc_Percent (ocy_Occupants o'))"
proof -
  have "\<forall>p\<in>set (map oc_Percent (ocy_Occupants o')). 0 \<le> p"
    using assms by (auto simp: declared_ok_def list_all_iff less_imp_le)
  then show ?thesis
    using assms foldl_i64_sum [of 0 "map oc_Percent (ocy_Occupants o')"]
    by (simp add: DeclaredPercent_def declared_ok_def foldl_map)
qed

lemma weights_ok:
  assumes "declared_ok o'" "0 \<le> amount" "amount * Denominator o' < 2 ^ 63 - 1"
  shows "apportionable amount (snd (weights o')) (Denominator o')"
    and "DeclaredPercent o' \<ge> 100 \<Longrightarrow> snd (weights o') = map oc_Percent (ocy_Occupants o')"
    and "DeclaredPercent o' < 100 \<Longrightarrow> snd (weights o') = map oc_Percent (ocy_Occupants o') @ [100 - DeclaredPercent o']"
proof -
  have nonneg: "0 \<le> DeclaredPercent o'"
    using assms(1) unfolding declared_plain [OF assms(1)]
    by (intro sum_list_nonneg) (auto simp: declared_ok_def list_all_iff)
  then have slack: "i64 (Denominator o' - DeclaredPercent o') = Denominator o' - DeclaredPercent o'"
    by (intro i64_id) (auto simp: Denominator_def)
  show ge: "snd (weights o') = map oc_Percent (ocy_Occupants o')" if "DeclaredPercent o' \<ge> 100"
    using that unfolding weights_def slack by (auto simp: Denominator_def Let_def)
  show lt: "snd (weights o') = map oc_Percent (ocy_Occupants o') @ [100 - DeclaredPercent o']" if "DeclaredPercent o' < 100"
    using that unfolding weights_def slack by (simp add: Denominator_def Let_def)
  show "apportionable amount (snd (weights o')) (Denominator o')"
  proof (cases "DeclaredPercent o' < 100")
    case True
    show ?thesis
      using assms lt [OF True] True nonneg declared_plain [OF assms(1)]
      by (auto simp: apportionable_def declared_ok_def list_all_iff Denominator_def less_imp_le)
  next
    case False
    then have "DeclaredPercent o' \<ge> 100" by simp
    from ge [OF this] this show ?thesis
      using assms declared_plain [OF assms(1)]
      by (auto simp: apportionable_def declared_ok_def list_all_iff Denominator_def less_imp_le)
  qed
qed

lemma split_sum:
  assumes "declared_ok o'" "Shared o'" "0 < amount" "amount * Denominator o' < 2 ^ 63 - 1"
  shows "(\<Sum>k\<in>set (map oc_ProjectID (ocy_Occupants o')). Split o' amount k)
    = sum_list (take (length (ocy_Occupants o')) (apportion amount (snd (weights o')) (Denominator o')))"
proof -
  let ?ids = "map oc_ProjectID (ocy_Occupants o')" and ?parts = "apportion amount (snd (weights o')) (Denominator o')"
  have ok: "apportionable amount (snd (weights o')) (Denominator o')"
    using weights_ok(1) [OF assms(1)] assms(3,4) by simp
  have nonneg: "\<forall>p\<in>set (map snd (zip ?ids ?parts)). 0 \<le> p"
    using whole.part_nonneg [OF ok] by (auto dest: set_zip_rightD)
  have len: "length ?parts \<ge> length ?ids"
    using whole.parallel [OF ok] by (simp add: weights_def Let_def)
  then have snds: "map snd (zip ?ids ?parts) = take (length ?ids) ?parts"
    by (simp add: map_snd_zip_take min_def)
  have "sum_list (take (length ?ids) ?parts) \<le> amount"
    using sum_list_nonneg [of "drop (length ?ids) ?parts"] whole.part_nonneg [OF ok] whole.exact [OF ok]
    by (metis add_increasing2 append_take_drop_id in_set_dropD order_refl sum_list_append)
  moreover have "amount < 2 ^ 63"
  proof -
    have "amount * 1 \<le> amount * Denominator o'"
      using assms(3) by (intro mult_left_mono) (auto simp: Denominator_def)
    with assms(4) show ?thesis by simp
  qed
  ultimately have "Split o' amount k
      = sum_list (map snd (filter (\<lambda>(k', _). k' = k) (zip ?ids ?parts)))" for k
    using assms(2,3) foldl_add_parts [OF nonneg, of "\<lambda>_. 0" k] snds
    by (simp add: Split_def add_parts_def weights_def)
  moreover have "fst ` set (zip ?ids ?parts) \<subseteq> set ?ids" by (auto dest: set_zip_leftD)
  ultimately have "(\<Sum>k\<in>set ?ids. Split o' amount k) = sum_list (map snd (zip ?ids ?parts))"
    using sum_by_key [of "set ?ids" "zip ?ids ?parts"] by simp
  then show ?thesis by (simp add: snds)
qed

section \<open>Properties\<close>

text \<open> Splitting a quantity between declared tenants never hands out more than there is; when the
  shares total a hundred or more all of it is handed out, and when they total less the tenants get
  what is left beside the undeclared share, which is at least its quota rounded down.
\<close>

theorem occupancy_split_bounded:
  assumes "declared_ok o'" "Shared o'" "0 < amount" "amount * Denominator o' < 2 ^ 63 - 1"
  shows "(\<Sum>k\<in>set (map oc_ProjectID (ocy_Occupants o')). Split o' amount k) \<le> amount
   \<and> (DeclaredPercent o' \<ge> 100 \<longrightarrow> (\<Sum>k\<in>set (map oc_ProjectID (ocy_Occupants o')). Split o' amount k) = amount)
   \<and> (DeclaredPercent o' < 100 \<longrightarrow> (\<Sum>k\<in>set (map oc_ProjectID (ocy_Occupants o')). Split o' amount k)
     \<le> amount - amount * (100 - DeclaredPercent o') div 100)"
proof (intro conjI impI)
  let ?parts = "apportion amount (snd (weights o')) (Denominator o')" and ?n = "length (ocy_Occupants o')"
  have w: "0 \<le> amount" using assms(3) by simp
  note ok = weights_ok [OF assms(1) w assms(4)]
  have len: "length ?parts = length (snd (weights o'))" by (rule whole.parallel [OF ok(1)])
  have full: "sum_list (take ?n ?parts) = amount" if "DeclaredPercent o' \<ge> 100"
    using whole.exact [OF ok(1)] len ok(2) [OF that] by simp
  have part: "sum_list (take ?n ?parts) \<le> amount - amount * (100 - DeclaredPercent o') div 100"
    if "DeclaredPercent o' < 100"
  proof -
    note ws = ok(3) [OF that]
    have "?parts ! ?n \<in> {amount * (100 - DeclaredPercent o') div 100, amount * (100 - DeclaredPercent o') div 100 + 1}"
      using whole.quota [OF ok(1), of ?n] that by (simp add: ws nth_append Denominator_def del: insert_iff)
    moreover have "?parts = take ?n ?parts @ [?parts ! ?n]"
      using len ws by (metis length_append_singleton length_map lessI order_refl take_Suc_conv_app_nth take_all)
    then have "sum_list ?parts = sum_list (take ?n ?parts) + ?parts ! ?n"
      by (metis sum_list.Cons sum_list.Nil sum_list_append add.right_neutral)
    ultimately show ?thesis using whole.exact [OF ok(1)] by auto
  qed
  show "DeclaredPercent o' \<ge> 100 \<Longrightarrow>
      (\<Sum>k\<in>set (map oc_ProjectID (ocy_Occupants o')). Split o' amount k) = amount"
    unfolding split_sum [OF assms] by (rule full)
  show "DeclaredPercent o' < 100 \<Longrightarrow>
      (\<Sum>k\<in>set (map oc_ProjectID (ocy_Occupants o')). Split o' amount k)
        \<le> amount - amount * (100 - DeclaredPercent o') div 100"
    unfolding split_sum [OF assms] by (rule part)
  have "0 \<le> amount * (100 - DeclaredPercent o') div 100" if "DeclaredPercent o' < 100"
    using that w by (simp add: pos_imp_zdiv_nonneg_iff)
  then show "(\<Sum>k\<in>set (map oc_ProjectID (ocy_Occupants o')). Split o' amount k) \<le> amount"
    unfolding split_sum [OF assms] using full part by (cases "DeclaredPercent o' < 100") fastforce+
qed

definition demo_occupancy :: occupancy where
  "demo_occupancy = \<lparr>ocy_AssetID = ''m'', ocy_AssetName = ''box'', ocy_Occupants =
     [\<lparr>oc_AssetID = ''m'', oc_ProjectID = ''a'', oc_Percent = 60, oc_Note = None, oc_ProjectCode = ''A'',
       oc_CreatedAt = [], oc_UpdatedAt = []\<rparr>,
      \<lparr>oc_AssetID = ''m'', oc_ProjectID = ''b'', oc_Percent = 30, oc_Note = None, oc_ProjectCode = ''B'',
       oc_CreatedAt = [], oc_UpdatedAt = []\<rparr>]\<rparr>"

theorem occupancy_split_bounded_witness:
  "(\<Sum>k\<in>set (map oc_ProjectID (ocy_Occupants demo_occupancy)). Split demo_occupancy 1000 k) \<le> 900"
proof -
  have declared: "DeclaredPercent demo_occupancy = 90"
    by (simp add: DeclaredPercent_def demo_occupancy_def i64_def)
  have "(\<Sum>k\<in>set (map oc_ProjectID (ocy_Occupants demo_occupancy)). Split demo_occupancy 1000 k)
      \<le> 1000 - 1000 * (100 - DeclaredPercent demo_occupancy) div 100"
    by (rule occupancy_split_bounded [THEN conjunct2, THEN conjunct2, THEN mp])
       (simp_all add: declared Denominator_def, simp_all add: declared_ok_def Shared_def demo_occupancy_def)
  then show ?thesis by (simp add: declared)
qed

end
