(* ===== verification/Errors.thy ===== *)
theory Errors
  imports Text
begin

text \<open>
  Errors as values and the field checks shared by the domain types: internal/domain/errors.go.
  A check returns the field errors it adds to the collector of its caller.
\<close>

section \<open>Sentinels\<close>

type_synonym fieldError = "string \<times> string"

text \<open>
  The sentinels of the package. \<open>ErrInvalid\<close> carries the fields of a \<open>ValidationError\<close>; it is empty
  for the bare sentinel. \<open>ErrDriver\<close> is any error of the database that no sentinel names.
\<close>

datatype go_error =
  ErrNotFound | ErrConflict | ErrStale | ErrInvalid "fieldError list" | ErrForbidden | ErrDriver

type_synonym 'a result = "go_error + 'a"

definition OrNil :: "fieldError list \<Rightarrow> go_error option" where
  "OrNil ve = (if ve = [] then None else Some (ErrInvalid ve))"

text \<open>A function that returns a value and an error, once its checks are known.\<close>

definition validated :: "fieldError list \<Rightarrow> 'a \<Rightarrow> 'a result" where
  "validated ve v = (case OrNil ve of None \<Rightarrow> Inr v | Some e \<Rightarrow> Inl e)"

lemma validated_Inr [simp]: "validated ve v = Inr w \<longleftrightarrow> ve = [] \<and> w = v"
  by (auto simp: validated_def OrNil_def)

lemma validated_Inl [simp]: "validated ve v = Inl e \<longleftrightarrow> ve \<noteq> [] \<and> e = ErrInvalid ve"
  by (auto simp: validated_def OrNil_def)

section \<open>Sequencing\<close>

text \<open>\<open>if err != nil { return err }\<close>.\<close>

definition bind_result :: "'a result \<Rightarrow> ('a \<Rightarrow> 'b result) \<Rightarrow> 'b result" where
  "bind_result r f = (case r of Inl e \<Rightarrow> Inl e | Inr v \<Rightarrow> f v)"

lemma bind_result_simps [simp]:
  "bind_result (Inl e) f = Inl e"
  "bind_result (Inr v) f = f v"
  by (simp_all add: bind_result_def)

lemma bind_result_Inr: "bind_result r f = Inr w \<longleftrightarrow> (\<exists>v. r = Inr v \<and> f v = Inr w)"
  by (cases r) simp_all

definition require :: "bool \<Rightarrow> go_error \<Rightarrow> unit result" where
  "require b e = (if b then Inr () else Inl e)"

lemma require_Inr [simp]: "require b e = Inr u \<longleftrightarrow> b"
  by (simp add: require_def)

lemma bind_require_Inr [simp]: "bind_result (require b e) f = Inr w \<longleftrightarrow> b \<and> f () = Inr w"
  by (simp add: require_def)

text \<open>A loop over a slice that returns the first error.\<close>

fun each_result :: "('a \<Rightarrow> 's \<Rightarrow> 's result) \<Rightarrow> 'a list \<Rightarrow> 's \<Rightarrow> 's result" where
  "each_result f [] s = Inr s"
| "each_result f (x # xs) s = bind_result (f x s) (each_result f xs)"

section \<open>Field checks\<close>

definition oneOf :: "string \<Rightarrow> string list \<Rightarrow> bool" where
  "oneOf v allowed \<longleftrightarrow> List.member allowed v"

definition checkEnum :: "string \<Rightarrow> string \<Rightarrow> string list \<Rightarrow> fieldError list" where
  "checkEnum field value allowed =
     (if oneOf value allowed then [] else [(field, ''must be one of '' @ join '', '' allowed)])"

definition checkOptionalEnum :: "string \<Rightarrow> string option \<Rightarrow> string list \<Rightarrow> fieldError list" where
  "checkOptionalEnum field value allowed =
     (case value of None \<Rightarrow> [] | Some v \<Rightarrow> checkEnum field v allowed)"

text \<open>The trimmed value beside the error.\<close>

definition checkRequired :: "string \<Rightarrow> string \<Rightarrow> fieldError list" where
  "checkRequired field value = (if trim_space value = [] then [(field, ''is required'')] else [])"

definition MaxMillimetres :: int where "MaxMillimetres = 2000"
definition MaxGrams :: int where "MaxGrams = 2000000"

definition checkMillimetres :: "string \<Rightarrow> int option \<Rightarrow> fieldError list" where
  "checkMillimetres field mm =
     (case mm of None \<Rightarrow> []
      | Some v \<Rightarrow>
          if v \<le> 0 then [(field, ''must be a positive measurement in millimetres, or left empty if nobody has measured it'')]
          else if MaxMillimetres < v then [(field, ''is larger than any rack-mounted thing; the unit is millimetres'')]
          else [])"

definition checkGrams :: "string \<Rightarrow> int option \<Rightarrow> fieldError list" where
  "checkGrams field g =
     (case g of None \<Rightarrow> []
      | Some v \<Rightarrow>
          if v \<le> 0 then [(field, ''must be a positive weight in grams, or left empty if nobody has weighed it'')]
          else if MaxGrams < v then [(field, ''is heavier than any rack can hold; the unit is grams'')]
          else [])"

definition MaxVocabularyCodeLen :: nat where "MaxVocabularyCodeLen = 64"

text \<open>Printable and not a space, for the bytes of ASCII.\<close>

definition isVocabularyCode :: "string \<Rightarrow> bool" where
  "isVocabularyCode value \<longleftrightarrow> list_all (\<lambda>c. \<not> is_space c \<and> CHR 0x20 \<le> c \<and> c \<le> CHR 0x7E) value"

definition checkVocabulary :: "string \<Rightarrow> string \<Rightarrow> fieldError list" where
  "checkVocabulary field value =
     (let trimmed = trim_space value in
      if trimmed = [] then [(field, ''is required'')]
      else if MaxVocabularyCodeLen < length trimmed then [(field, ''must be 64 characters or fewer'')]
      else if \<not> isVocabularyCode trimmed then [(field, ''must not contain spaces or control characters'')]
      else [])"

lemma checkEnum_nil [simp]: "checkEnum field v allowed = [] \<longleftrightarrow> v \<in> set allowed"
  by (simp add: checkEnum_def oneOf_def)

lemma checkRequired_nil [simp]: "checkRequired field v = [] \<longleftrightarrow> trim_space v \<noteq> []"
  by (simp add: checkRequired_def)

section \<open>Columns that never reach the audit trail\<close>

definition RedactedFields :: "string list" where
  "RedactedFields = [''password_hash'', ''secret_ref'', ''contact_ref'', ''key_ref'', ''psk_ref'', ''subject'']"

definition RedactedFieldsByEntity :: "string list gomap" where
  "RedactedFieldsByEntity =
     [(''AppUser'', [''username'', ''display_name'', ''email'']), (''SavedView'', [''params''])]"

definition IsRedacted :: "string \<Rightarrow> string \<Rightarrow> bool" where
  "IsRedacted entity column \<longleftrightarrow>
     List.member RedactedFields column
     \<or> List.member (get_or [] (map_of RedactedFieldsByEntity) entity) column"

definition Redacted :: string where
  "Redacted = ''[redacted]''"

end
