(* ===== verification/Actors.thy ===== *)
theory Actors
  imports Errors
begin

text \<open>
  Who makes a change: actors and accounts of internal/domain/dependency.go. A machine credential
  lives in its own name space of the audit column; the constructors and \<open>Validate\<close> keep the two
  apart.
\<close>

section \<open>Actors\<close>

definition ActorKindUser :: string where "ActorKindUser = ''user''"
definition ActorKindAgent :: string where "ActorKindAgent = ''agent''"
definition ActorKindSystem :: string where "ActorKindSystem = ''system''"

definition ActorKinds :: "string list" where
  "ActorKinds = [ActorKindUser, ActorKindAgent, ActorKindSystem]"

record actor =
  act_ID :: string
  act_Name :: string
  act_Kind :: string

definition SystemActor :: actor where
  "SystemActor = \<lparr>act_ID = ''system'', act_Name = ''system'', act_Kind = ActorKindSystem\<rparr>"

definition AgentActorPrefix :: string where
  "AgentActorPrefix = ''monitor:''"

text \<open>The verb \<open>%q\<close>, for text without quotes and escapes.\<close>

definition quoted :: "string \<Rightarrow> string" where
  "quoted s = CHR 0x22 # s @ [CHR 0x22]"

definition reserved_bytes :: "char list" where
  "reserved_bytes = [CHR '':'', CHR '' '', CHR 0x09, CHR 0x0A]"

definition AgentActor :: "string \<Rightarrow> actor result" where
  "AgentActor credentialID =
     (let id = trim_space credentialID;
          ve = checkRequired ''credential_id'' credentialID
            @ (if has_prefix AgentActorPrefix id
               then [(''credential_id'', ''is already namespaced; pass the bare credential id, not '' @ quoted id)]
               else if contains_any id reserved_bytes
               then [(''credential_id'', ''must not contain a colon or whitespace'')]
               else if id \<noteq> to_lower id
               then [(''credential_id'', ''must be lower case, like every other identifier read from the environment'')]
               else []);
          namespaced = AgentActorPrefix @ id
      in validated ve \<lparr>act_ID = namespaced, act_Name = namespaced, act_Kind = ActorKindAgent\<rparr>)"

definition IsAgent :: "actor \<Rightarrow> bool" where
  "IsAgent a \<longleftrightarrow> act_Kind a = ActorKindAgent"

definition CredentialID :: "actor \<Rightarrow> string option" where
  "CredentialID a =
     (if \<not> IsAgent a \<or> \<not> has_prefix AgentActorPrefix (act_ID a) then None
      else Some (trim_prefix AgentActorPrefix (act_ID a)))"

definition ValidateActor :: "actor \<Rightarrow> fieldError list" where
  "ValidateActor a =
     checkRequired ''actor'' (act_ID a)
     @ checkEnum ''actor_kind'' (act_Kind a) ActorKinds
     @ (if act_Kind a = ActorKindAgent then
          (if \<not> has_prefix AgentActorPrefix (act_ID a)
           then [(''actor'', ''an agent actor must be built with domain.AgentActor: '' @ quoted (act_ID a)
                   @ '' is missing the '' @ quoted AgentActorPrefix @ '' namespace'')]
           else [])
        else if act_Kind a = ActorKindUser \<or> act_Kind a = ActorKindSystem then
          (if has_prefix AgentActorPrefix (act_ID a)
           then [(''actor'', ''a '' @ act_Kind a @ '' actor must not carry the '' @ quoted AgentActorPrefix
                   @ '' namespace'')]
           else [])
        else [])"

section \<open>What a machine may assert\<close>

definition SourceDeclared :: string where "SourceDeclared = ''declared''"

definition CheckProvenanceWrite :: "actor \<Rightarrow> string \<Rightarrow> fieldError list" where
  "CheckProvenanceWrite a source =
     (if source \<noteq> SourceDeclared \<or> act_Kind a \<noteq> ActorKindAgent then []
      else [(''source'', ''only a signed-in operator may assert source = '' @ quoted SourceDeclared
              @ ''; a '' @ act_Kind a @ '' actor may set only a discovered_* value'')])"

definition CheckAttestationWrite :: "actor \<Rightarrow> fieldError list" where
  "CheckAttestationWrite a =
     (if act_Kind a = ActorKindUser then []
      else [(''verified_by'', ''only a signed-in operator may verify an edge; a '' @ act_Kind a
              @ '' actor may not attest to one'')])"

section \<open>Accounts\<close>

definition RoleAdministrator :: string where "RoleAdministrator = ''administrator''"
definition RoleObserver :: string where "RoleObserver = ''observer''"
definition RoleProjectOwner :: string where "RoleProjectOwner = ''project_owner''"

definition Roles :: "string list" where
  "Roles = [RoleAdministrator, RoleObserver, RoleProjectOwner]"

definition UserSources :: "string list" where
  "UserSources = [''local'', ''ldap'', ''oidc'']"

record appUser =
  usr_ID :: string
  usr_Username :: string
  usr_DisplayName :: "string option"
  usr_Email :: "string option"
  usr_Source :: string
  usr_PasswordHash :: "string option"
  usr_IsActive :: bool
  usr_LastLoginAt :: "string option"
  usr_CreatedAt :: string
  usr_Role :: string
  usr_CanSeeCosts :: bool
  usr_Subject :: "string option"

definition UserActor :: "appUser \<Rightarrow> actor" where
  "UserActor u = \<lparr>act_ID = usr_ID u, act_Name = usr_Username u, act_Kind = ActorKindUser\<rparr>"

definition NormalizeUsername :: "string \<Rightarrow> string" where
  "NormalizeUsername s = to_lower (trim_space s)"

text \<open>\<open>created\<close> is the formatted time of creation.\<close>

definition NewAppUser :: "string \<Rightarrow> string \<Rightarrow> string \<Rightarrow> string \<Rightarrow> appUser result" where
  "NewAppUser uid username source created =
     validated (checkRequired ''username'' username @ checkEnum ''source'' source UserSources)
       \<lparr>usr_ID = uid, usr_Username = NormalizeUsername (trim_space username), usr_DisplayName = None,
        usr_Email = None, usr_Source = source, usr_PasswordHash = None, usr_IsActive = True,
        usr_LastLoginAt = None, usr_CreatedAt = created, usr_Role = RoleObserver,
        usr_CanSeeCosts = False, usr_Subject = None\<rparr>"

definition ValidateRole :: "appUser \<Rightarrow> fieldError list" where
  "ValidateRole u = checkEnum ''role'' (usr_Role u) Roles"

lemmas actor_kind_defs = ActorKindUser_def ActorKindAgent_def ActorKindSystem_def
lemmas role_defs = RoleAdministrator_def RoleObserver_def RoleProjectOwner_def

lemma actor_kinds_distinct [simp]:
  "ActorKindUser \<noteq> ActorKindAgent" "ActorKindAgent \<noteq> ActorKindUser"
  "ActorKindSystem \<noteq> ActorKindAgent" "ActorKindAgent \<noteq> ActorKindSystem"
  "ActorKindUser \<noteq> ActorKindSystem" "ActorKindSystem \<noteq> ActorKindUser"
  by (simp_all add: actor_kind_defs)

lemma roles_distinct [simp]:
  "RoleAdministrator \<noteq> RoleProjectOwner" "RoleProjectOwner \<noteq> RoleAdministrator"
  "RoleObserver \<noteq> RoleProjectOwner" "RoleProjectOwner \<noteq> RoleObserver"
  "RoleObserver \<noteq> RoleAdministrator" "RoleAdministrator \<noteq> RoleObserver"
  by (simp_all add: role_defs)

section \<open>The name space of machine credentials\<close>

lemma trim_space_first: "\<not> is_space c \<Longrightarrow> trim_space (c # s) \<noteq> []"
  by (simp add: trim_space_def dropWhile_append)

lemma AgentActor_valid:
  assumes "AgentActor c = Inr a"
  shows "ValidateActor a = []" and "CredentialID a = Some (trim_space c)"
proof -
  from assms have a: "act_ID a = AgentActorPrefix @ trim_space c" "act_Kind a = ActorKindAgent"
    by (auto simp: AgentActor_def Let_def)
  have "trim_space (act_ID a) \<noteq> []"
    unfolding a AgentActorPrefix_def by (simp add: trim_space_first is_space_def)
  with a show "ValidateActor a = []"
    by (simp add: ValidateActor_def ActorKinds_def)
  from a show "CredentialID a = Some (trim_space c)"
    by (simp add: CredentialID_def IsAgent_def)
qed

lemma valid_agent_has_credential:
  "ValidateActor a = [] \<Longrightarrow> CredentialID a \<noteq> None \<longleftrightarrow> act_Kind a = ActorKindAgent"
  by (auto simp: ValidateActor_def CredentialID_def IsAgent_def split: if_splits)

text \<open>
  Machine credentials and people never share an audit identity, and an identity names its
  credential: an actor made for a credential passes the actor check and gives the credential
  back, two such actors with one identity are the same credential, and no actor of a person or
  of the system that passes the check carries the identity of a machine.
\<close>

theorem agent_identity:
  "(\<forall>c a. AgentActor c = Inr a \<longrightarrow> ValidateActor a = [] \<and> CredentialID a = Some (trim_space c))
   \<and> (\<forall>c d a b. AgentActor c = Inr a \<longrightarrow> AgentActor d = Inr b \<longrightarrow> act_ID a = act_ID b
        \<longrightarrow> trim_space c = trim_space d)
   \<and> (\<forall>c a b. AgentActor c = Inr a \<longrightarrow> ValidateActor b = [] \<longrightarrow> act_Kind b \<noteq> ActorKindAgent
        \<longrightarrow> act_ID b \<noteq> act_ID a)"
proof (intro conjI allI impI)
  fix c d a b
  assume "AgentActor c = Inr a" "AgentActor d = Inr b" "act_ID a = act_ID b"
  then show "trim_space c = trim_space d" by (auto simp: AgentActor_def Let_def)
next
  fix c a b
  assume "AgentActor c = Inr a" "ValidateActor b = []" "act_Kind b \<noteq> ActorKindAgent"
  then show "act_ID b \<noteq> act_ID a"
    by (auto simp: AgentActor_def Let_def ValidateActor_def ActorKinds_def split: if_splits)
qed (simp_all add: AgentActor_valid)

text \<open>A credential \<open>probe-1\<close> and an account whose id is the same word.\<close>

theorem agent_identity_witness:
  "AgentActor ''probe-1'' = Inr \<lparr>act_ID = ''monitor:probe-1'', act_Name = ''monitor:probe-1'', act_Kind = ActorKindAgent\<rparr>
   \<and> CredentialID \<lparr>act_ID = ''monitor:probe-1'', act_Name = ''monitor:probe-1'', act_Kind = ActorKindAgent\<rparr>
       = Some ''probe-1''
   \<and> act_ID \<lparr>act_ID = ''probe-1'', act_Name = ''p'', act_Kind = ActorKindUser\<rparr> \<noteq> ''monitor:probe-1''"
proof -
  have ok: "AgentActor ''probe-1'' = Inr \<lparr>act_ID = ''monitor:probe-1'', act_Name = ''monitor:probe-1'', act_Kind = ActorKindAgent\<rparr>"
    by code_simp
  have user: "ValidateActor \<lparr>act_ID = ''probe-1'', act_Name = ''p'', act_Kind = ActorKindUser\<rparr> = []"
    by code_simp
  have trimmed: "trim_space ''probe-1'' = ''probe-1''" by code_simp
  have "CredentialID \<lparr>act_ID = ''monitor:probe-1'', act_Name = ''monitor:probe-1'', act_Kind = ActorKindAgent\<rparr>
       = Some ''probe-1''"
    using agent_identity [THEN conjunct1, rule_format, OF ok] by (simp only: trimmed)
  moreover have "act_ID \<lparr>act_ID = ''probe-1'', act_Name = ''p'', act_Kind = ActorKindUser\<rparr> \<noteq> ''monitor:probe-1''"
    using agent_identity [THEN conjunct2, THEN conjunct2, rule_format, OF ok user] by simp
  ultimately show ?thesis using ok by simp
qed

end
