(* ===== verification/Permit.thy ===== *)
theory Permit
  imports Actors
begin

text \<open>
  Authorisation decisions: the permits and the census of entity types of internal/domain/role.go,
  the \<open>Authorizer\<close> of internal/auth/auth.go and permit.go that mints them, and the subject checks
  of the store that turn a permit for a subject into one for a row about it.
\<close>

section \<open>Classes of entity types\<close>

datatype scopeClass =
  ScopeUnclassified | ScopeProjectLinked | ScopeSubjectDerived | ScopeEstateConfig | ScopeTopology

definition entityScope :: "scopeClass gomap" where
  "entityScope =
     [(''asset'', ScopeProjectLinked), (''service'', ScopeProjectLinked),
      (''circuit'', ScopeProjectLinked), (''app_user'', ScopeEstateConfig),
      (''custom_field'', ScopeEstateConfig), (''device_type'', ScopeEstateConfig),
      (''device_type_component'', ScopeEstateConfig), (''environment'', ScopeEstateConfig),
      (''identity'', ScopeEstateConfig), (''inflation_rate'', ScopeEstateConfig),
      (''manufacturer'', ScopeEstateConfig), (''project'', ScopeEstateConfig),
      (''project_asset'', ScopeEstateConfig), (''project_circuit'', ScopeEstateConfig),
      (''project_service'', ScopeEstateConfig), (''provider'', ScopeEstateConfig),
      (''tag'', ScopeEstateConfig), (''team'', ScopeEstateConfig),
      (''user_project'', ScopeEstateConfig), (''saved_view'', ScopeSubjectDerived),
      (''dependency'', ScopeSubjectDerived), (''link'', ScopeSubjectDerived),
      (''asset_cost'', ScopeSubjectDerived), (''asset_kind'', ScopeEstateConfig),
      (''service_kind'', ScopeEstateConfig), (''interface_form_factor'', ScopeEstateConfig),
      (''environment_role'', ScopeEstateConfig), (''ip_address_role'', ScopeEstateConfig),
      (''data_class'', ScopeEstateConfig), (''container_engine'', ScopeEstateConfig),
      (''cost_kind'', ScopeEstateConfig), (''responsibility_role'', ScopeEstateConfig),
      (''storage_kind'', ScopeEstateConfig), (''wireless_security'', ScopeEstateConfig),
      (''observed_transition'', ScopeEstateConfig), (''unmatched_observation'', ScopeEstateConfig),
      (''aggregate'', ScopeTopology), (''asn'', ScopeTopology), (''backend_member'', ScopeTopology),
      (''backend_pool'', ScopeTopology), (''cable_bundle'', ScopeTopology),
      (''certificate'', ScopeTopology), (''circuit_cost'', ScopeTopology),
      (''circuit_termination'', ScopeTopology), (''cluster'', ScopeTopology),
      (''endpoint'', ScopeTopology), (''fhrp_group'', ScopeTopology),
      (''health_override'', ScopeTopology), (''interface'', ScopeSubjectDerived),
      (''ip_address'', ScopeSubjectDerived), (''ip_range'', ScopeTopology),
      (''journal_entry'', ScopeSubjectDerived), (''l2vpn'', ScopeTopology),
      (''l2vpn_termination'', ScopeTopology), (''net_anchor'', ScopeTopology),
      (''net_attachment'', ScopeTopology), (''net_group'', ScopeTopology),
      (''net_group_member'', ScopeTopology), (''net_uplink'', ScopeTopology),
      (''port_pass_through'', ScopeTopology), (''power_feed'', ScopeTopology),
      (''power_input'', ScopeTopology), (''power_panel'', ScopeTopology),
      (''power_source'', ScopeTopology), (''prefix'', ScopeTopology),
      (''project_cost'', ScopeTopology), (''rir'', ScopeTopology), (''route'', ScopeTopology),
      (''rt_container'', ScopeTopology), (''rt_k8s'', ScopeTopology), (''rt_systemd'', ScopeTopology),
      (''rt_windows'', ScopeTopology), (''service_cost'', ScopeTopology),
      (''service_instance'', ScopeSubjectDerived), (''vlan'', ScopeTopology),
      (''vlan_group'', ScopeTopology), (''wireless_lan'', ScopeTopology)]"

text \<open>The zero value for a type the census does not have.\<close>

definition ScopeClassOf :: "string \<Rightarrow> scopeClass" where
  "ScopeClassOf entityType = get_or ScopeUnclassified (map_of entityScope) entityType"

section \<open>Permits\<close>

text \<open>A nil map answers false, like an absent id.\<close>

type_synonym scopedEntities = "string \<Rightarrow> string \<Rightarrow> bool"

definition entities_of :: "(string \<times> string list) list \<Rightarrow> scopedEntities" where
  "entities_of m entityType entityID = List.member (get_or [] (map_of m) entityType) entityID"

lemma entities_of_iff [simp]: "entities_of m t i \<longleftrightarrow> i \<in> set (get_or [] (map_of m) t)"
  by (simp add: entities_of_def)

datatype permit =
  administratorPermit actor
| systemPermit string
| scopedPermit actor "string list" scopedEntities

fun permit_Actor :: "permit \<Rightarrow> actor" where
  "permit_Actor (administratorPermit a) = a"
| "permit_Actor (systemPermit reason) = SystemActor"
| "permit_Actor (scopedPermit a projects entities) = a"

definition projectLinkTables :: "string gomap" where
  "projectLinkTables =
     [(''project_asset'', ''asset''), (''project_service'', ''service''), (''project_circuit'', ''circuit'')]"

text \<open>The project, the type and the id of the linked entity of a link row's audit id.\<close>

definition linkedEntityFromID :: "string \<Rightarrow> string \<Rightarrow> (string \<times> string \<times> string) option" where
  "linkedEntityFromID entityType entityID =
     (case map_of projectLinkTables entityType of
        None \<Rightarrow> None
      | Some linkedType \<Rightarrow> map_option (\<lambda>(p, i). (p, linkedType, i)) (cut CHR ''/'' entityID))"

definition holdsProject :: "string list \<Rightarrow> string \<Rightarrow> bool" where
  "holdsProject projects projectID \<longleftrightarrow> List.member projects projectID"

definition scoped_Covers :: "string list \<Rightarrow> scopedEntities \<Rightarrow> string \<Rightarrow> string \<Rightarrow> bool" where
  "scoped_Covers projects entities entityType entityID =
     (case ScopeClassOf entityType of
        ScopeProjectLinked \<Rightarrow> entities entityType entityID
      | ScopeSubjectDerived \<Rightarrow> entities entityType entityID
      | _ \<Rightarrow>
          (case linkedEntityFromID entityType entityID of
             Some (projectID, linkedType, linkedID) \<Rightarrow>
               holdsProject projects projectID \<and> entities linkedType linkedID
           | None \<Rightarrow> False))"

fun Covers :: "permit \<Rightarrow> string \<Rightarrow> string \<Rightarrow> bool" where
  "Covers (administratorPermit a) entityType entityID = True"
| "Covers (systemPermit reason) entityType entityID = (entityType \<noteq> ''app_user'')"
| "Covers (scopedPermit a projects entities) entityType entityID =
     scoped_Covers projects entities entityType entityID"

fun PermitHoldsProject :: "permit \<Rightarrow> string \<Rightarrow> bool" where
  "PermitHoldsProject (administratorPermit a) projectID = True"
| "PermitHoldsProject (systemPermit reason) projectID = True"
| "PermitHoldsProject (scopedPermit a projects entities) projectID = holdsProject projects projectID"

section \<open>The authorizer\<close>

text \<open>
  The slice of the store that minting a permit needs, as the interface \<open>ProjectResolver\<close> declares
  it.
\<close>

record projectResolver =
  ProjectsForUser :: "string \<Rightarrow> string list result"
  AssetIDsForProjects :: "string list \<Rightarrow> string list result"
  ServiceIDsForProjects :: "string list \<Rightarrow> string list result"
  CircuitIDsForProjects :: "string list \<Rightarrow> string list result"

record authorizer =
  az_admins :: "string list"
  az_projects :: projectResolver

definition NewAuthorizer :: "string list \<Rightarrow> projectResolver \<Rightarrow> authorizer" where
  "NewAuthorizer adminUsers projects =
     \<lparr>az_admins = map (\<lambda>u. to_lower (trim_space u)) adminUsers, az_projects = projects\<rparr>"

definition isAdministrator :: "authorizer \<Rightarrow> appUser \<Rightarrow> bool" where
  "isAdministrator az u \<longleftrightarrow>
     List.member (az_admins az) (to_lower (usr_Username u)) \<or> usr_Role u = RoleAdministrator"

definition IsAdministrator :: "authorizer \<Rightarrow> appUser option \<Rightarrow> bool" where
  "IsAdministrator az user \<longleftrightarrow>
     (case user of None \<Rightarrow> False | Some u \<Rightarrow> usr_IsActive u \<and> isAdministrator az u)"

definition EnvOverride :: "authorizer \<Rightarrow> appUser option \<Rightarrow> bool" where
  "EnvOverride az user \<longleftrightarrow>
     (case user of None \<Rightarrow> False | Some u \<Rightarrow> List.member (az_admins az) (to_lower (usr_Username u)))"

definition CanWrite :: "authorizer \<Rightarrow> appUser option \<Rightarrow> bool" where
  "CanWrite az user \<longleftrightarrow>
     (case user of None \<Rightarrow> False
      | Some u \<Rightarrow> usr_IsActive u \<and> (isAdministrator az u \<or> usr_Role u = RoleProjectOwner))"

definition CanRead :: "authorizer \<Rightarrow> appUser option \<Rightarrow> bool" where
  "CanRead az user \<longleftrightarrow> (case user of None \<Rightarrow> False | Some u \<Rightarrow> usr_IsActive u)"

definition CanSeeCosts :: "authorizer \<Rightarrow> appUser option \<Rightarrow> bool" where
  "CanSeeCosts az user \<longleftrightarrow>
     (case user of None \<Rightarrow> False
      | Some u \<Rightarrow> usr_IsActive u \<and> (isAdministrator az u \<or> usr_CanSeeCosts u))"

definition mintPermit :: "authorizer \<Rightarrow> appUser option \<Rightarrow> permit result" where
  "mintPermit az user =
     (case user of
        None \<Rightarrow> Inl ErrForbidden
      | Some u \<Rightarrow>
          if \<not> usr_IsActive u then Inl ErrForbidden
          else if isAdministrator az u then Inr (administratorPermit (UserActor u))
          else if usr_Role u \<noteq> RoleProjectOwner then Inl ErrForbidden
          else
            bind_result (ProjectsForUser (az_projects az) (usr_ID u)) (\<lambda>projectIDs.
            bind_result (AssetIDsForProjects (az_projects az) projectIDs) (\<lambda>assetIDs.
            bind_result (ServiceIDsForProjects (az_projects az) projectIDs) (\<lambda>serviceIDs.
            bind_result (CircuitIDsForProjects (az_projects az) projectIDs) (\<lambda>circuitIDs.
              Inr (scopedPermit (UserActor u) projectIDs
                     (entities_of [(''asset'', assetIDs), (''service'', serviceIDs), (''circuit'', circuitIDs)])))))))"

section \<open>Permits for rows about a subject\<close>

text \<open>
  Each of these asks the caller's permit about the subjects of a row and mints a permit for that
  row alone. The ids of the subjects are read by the caller of the check.
\<close>

definition narrow :: "permit \<Rightarrow> string \<Rightarrow> string list \<Rightarrow> permit" where
  "narrow p entityType ids = scopedPermit (permit_Actor p) [] (entities_of [(entityType, ids)])"

definition authorizeJournalSubject :: "permit \<Rightarrow> string \<Rightarrow> string \<Rightarrow> string \<Rightarrow> permit result" where
  "authorizeJournalSubject p subjectType subjectID noteID =
     (if \<not> Covers p subjectType subjectID then Inl ErrForbidden
      else Inr (narrow p ''journal_entry'' [noteID]))"

definition authorizeInterfaceSubject :: "permit \<Rightarrow> string \<Rightarrow> string \<Rightarrow> permit result" where
  "authorizeInterfaceSubject p assetID interfaceID =
     (if \<not> Covers p ''asset'' assetID then Inl ErrForbidden
      else Inr (narrow p ''interface'' [interfaceID]))"

definition authorizeInstanceSubjects :: "permit \<Rightarrow> string \<Rightarrow> string \<Rightarrow> string \<Rightarrow> permit result" where
  "authorizeInstanceSubjects p serviceID hostAssetID instanceID =
     (if \<not> Covers p ''service'' serviceID then Inl ErrForbidden
      else if \<not> Covers p ''asset'' hostAssetID then Inl ErrForbidden
      else Inr (narrow p ''service_instance'' [instanceID]))"

text \<open>\<open>owner\<close> reads \<open>SELECT asset_id FROM interface WHERE id = ?\<close>.\<close>

definition authorizeLinkSubjects ::
  "(string \<Rightarrow> string result) \<Rightarrow> permit \<Rightarrow> string \<Rightarrow> string \<Rightarrow> string \<Rightarrow> permit result" where
  "authorizeLinkSubjects owner p aInterfaceID bInterfaceID linkID =
     bind_result (owner aInterfaceID) (\<lambda>aAssetID.
     bind_result (owner bInterfaceID) (\<lambda>bAssetID.
       if \<not> Covers p ''asset'' aAssetID then Inl ErrForbidden
       else if \<not> Covers p ''asset'' bAssetID then Inl ErrForbidden
       else Inr (narrow p ''link'' [linkID])))"

text \<open>\<open>endpointService\<close> and \<open>routeService\<close> are the two queries of \<open>resolveProviderService\<close>.\<close>

definition resolveProviderService ::
  "(string \<Rightarrow> string result) \<Rightarrow> (string \<Rightarrow> string result) \<Rightarrow> string option \<Rightarrow> string option \<Rightarrow> string result" where
  "resolveProviderService endpointService routeService endpointID routeID =
     (case endpointID of
        Some e \<Rightarrow> endpointService e
      | None \<Rightarrow> (case routeID of Some r \<Rightarrow> routeService r | None \<Rightarrow> Inl ErrForbidden))"

definition authorizeDependencySubjects ::
  "(string \<Rightarrow> string result) \<Rightarrow> (string \<Rightarrow> string result) \<Rightarrow> permit \<Rightarrow> string \<Rightarrow> string option
   \<Rightarrow> string option \<Rightarrow> string \<Rightarrow> permit result" where
  "authorizeDependencySubjects endpointService routeService p consumer endpointID routeID dependencyID =
     bind_result (resolveProviderService endpointService routeService endpointID routeID) (\<lambda>provider.
       if \<not> Covers p ''service'' consumer then Inl ErrForbidden
       else if \<not> Covers p ''service'' provider then Inl ErrForbidden
       else Inr (narrow p ''dependency'' [dependencyID]))"

definition authorizeAddressSubject ::
  "(string \<Rightarrow> string result) \<Rightarrow> permit \<Rightarrow> string option \<Rightarrow> string \<Rightarrow> permit result" where
  "authorizeAddressSubject owner p interfaceID addressID =
     (case interfaceID of
        None \<Rightarrow> Inr p
      | Some i \<Rightarrow>
          bind_result (owner i) (\<lambda>assetID.
            if \<not> Covers p ''asset'' assetID then Inl ErrForbidden
            else Inr (narrow p ''ip_address'' [addressID])))"

definition authorizeCostSubject :: "permit \<Rightarrow> string \<Rightarrow> string \<Rightarrow> string list \<Rightarrow> permit result" where
  "authorizeCostSubject p table ownerID costIDs =
     (if table \<noteq> ''asset_cost'' then Inl ErrForbidden
      else if \<not> Covers p ''asset'' ownerID then Inl ErrForbidden
      else Inr (narrow p ''asset_cost'' costIDs))"

definition authorizeSavedViewOwner :: "permit \<Rightarrow> string \<Rightarrow> string \<Rightarrow> permit result" where
  "authorizeSavedViewOwner p ownerID viewID =
     (let a = permit_Actor p in
      if act_Kind a \<noteq> ActorKindUser \<or> act_ID a = [] \<or> act_ID a \<noteq> ownerID then Inl ErrForbidden
      else Inr (narrow p ''saved_view'' [viewID]))"

section \<open>What a scoped permit covers\<close>

definition owned_types :: "string list" where
  "owned_types = [''asset'', ''service'', ''circuit'']"

lemma classes [simp]:
  "ScopeClassOf ''asset'' = ScopeProjectLinked"
  "ScopeClassOf ''service'' = ScopeProjectLinked"
  "ScopeClassOf ''circuit'' = ScopeProjectLinked"
  "ScopeClassOf ''project_asset'' = ScopeEstateConfig"
  "ScopeClassOf ''project_service'' = ScopeEstateConfig"
  "ScopeClassOf ''project_circuit'' = ScopeEstateConfig"
  "ScopeClassOf ''project'' = ScopeEstateConfig"
  "ScopeClassOf ''user_project'' = ScopeEstateConfig"
  "ScopeClassOf ''app_user'' = ScopeEstateConfig"
  by code_simp+

lemma linkedEntityFromID_Some:
  "linkedEntityFromID t i = Some (p, lt, li) \<longleftrightarrow>
     map_of projectLinkTables t = Some lt \<and> i = p @ CHR ''/'' # li \<and> CHR ''/'' \<notin> set p"
  by (auto simp: linkedEntityFromID_def cut_Some split: option.splits)

lemma link_table_cases:
  "map_of projectLinkTables t = Some lt \<Longrightarrow>
     (t = ''project_asset'' \<and> lt = ''asset'') \<or> (t = ''project_service'' \<and> lt = ''service'')
     \<or> (t = ''project_circuit'' \<and> lt = ''circuit'')"
  by (auto simp: projectLinkTables_def split: if_splits)

lemma link_table_class: "map_of projectLinkTables t = Some lt \<Longrightarrow> ScopeClassOf t = ScopeEstateConfig"
  by (auto dest: link_table_cases)

lemma scoped_Covers_link:
  assumes "map_of projectLinkTables t = Some lt" "CHR ''/'' \<notin> set p"
  shows "scoped_Covers projects entities t (p @ CHR ''/'' # i)
           \<longleftrightarrow> p \<in> set projects \<and> entities lt i"
  using assms
  by (simp add: scoped_Covers_def link_table_class linkedEntityFromID_def cut_append holdsProject_def)

text \<open>The three reasons for which a scoped permit covers a row.\<close>

lemma scoped_Covers_iff:
  "scoped_Covers projects entities t i \<longleftrightarrow>
     ((ScopeClassOf t = ScopeProjectLinked \<or> ScopeClassOf t = ScopeSubjectDerived) \<and> entities t i)
     \<or> (\<exists>p lt li. map_of projectLinkTables t = Some lt \<and> i = p @ CHR ''/'' # li \<and> CHR ''/'' \<notin> set p
          \<and> p \<in> set projects \<and> entities lt li)"
proof -
  have link: "(case linkedEntityFromID t i of Some (p, lt, li) \<Rightarrow> holdsProject projects p \<and> entities lt li | None \<Rightarrow> False)
     \<longleftrightarrow> (\<exists>p lt li. linkedEntityFromID t i = Some (p, lt, li) \<and> p \<in> set projects \<and> entities lt li)"
    by (auto simp: holdsProject_def split: option.splits)
  show ?thesis
    using link_table_class [of t] unfolding scoped_Covers_def link
    by (cases "ScopeClassOf t") (auto simp: linkedEntityFromID_Some)
qed

lemma scoped_estate_refused:
  "scoped_Covers projects entities ''project'' i = False"
  "scoped_Covers projects entities ''user_project'' i = False"
  "scoped_Covers projects entities ''app_user'' i = False"
  by (simp_all add: scoped_Covers_def linkedEntityFromID_def projectLinkTables_def)

lemma narrow_covers:
  "ScopeClassOf t = ScopeProjectLinked \<or> ScopeClassOf t = ScopeSubjectDerived \<Longrightarrow>
     Covers (narrow p t ids) t' i \<longleftrightarrow> t' = t \<and> i \<in> set ids"
  by (auto simp: narrow_def scoped_Covers_iff get_or_def split: if_splits)

end
