(* ===== verification/Trail.thy ===== *)
theory Trail
  imports Permit "HOL-Library.AList"
begin

text \<open>
  The audit trail of internal/store: field-level differences (diff.go) and the transaction that
  writes them (store.go). An audited struct is the list of its fields as the reflective walk of
  \<open>auditFields\<close> meets them, embedded structs flattened: the name of the struct that declares the
  field, its db tag and its value behind pointers. The JSON text of a difference is the value it
  encodes.
\<close>

section \<open>Differences\<close>

datatype column_value = VNull | VText string | VInt int | VBool bool

record audited =
  au_type :: string
  au_fields :: "(string \<times> string \<times> column_value) list"

text \<open>A pointer field is recorded by what it points to.\<close>

definition opt_text :: "string option \<Rightarrow> column_value" where
  "opt_text v = (case v of None \<Rightarrow> VNull | Some s \<Rightarrow> VText s)"

definition opt_int :: "int option \<Rightarrow> column_value" where
  "opt_int v = (case v of None \<Rightarrow> VNull | Some n \<Rightarrow> VInt n)"

text \<open>The columns that move on every write are left out.\<close>

definition unaudited_tags :: "string list" where
  "unaudited_tags = [[], ''-'', ''updated_at'', ''row_version'']"

definition auditFields :: "(string \<times> string \<times> column_value) list \<Rightarrow> (column_value \<times> string) gomap" where
  "auditFields flds =
     fold (\<lambda>(entity, tag, v) out. if List.member unaudited_tags tag then out else AList.update tag (v, entity) out)
       flds []"

type_synonym field_change = "string \<times> column_value \<times> column_value"

text \<open>A field absent from the old map reads as the zero value, whose value is nil.\<close>

definition field_changes :: "(column_value \<times> string) gomap \<Rightarrow> (column_value \<times> string) gomap \<Rightarrow> field_change list" where
  "field_changes before after =
     concat (map (\<lambda>(name, (v, entity)).
       let old = fst (get_or (VNull, []) (map_of before) name) in
       if old = v then []
       else if IsRedacted entity name then [(name, VText Redacted, VText Redacted)]
       else [(name, old, v)]) after)"

text \<open>\<open>None\<close> when nothing changed.\<close>

definition diffJSON :: "audited \<Rightarrow> audited \<Rightarrow> (field_change list option) result" where
  "diffJSON before after =
     (if au_type before \<noteq> au_type after then Inl ErrDriver
      else
        let changes = field_changes (auditFields (au_fields before)) (auditFields (au_fields after))
        in Inr (if changes = [] then None else Some changes))"

definition snapshotJSON :: "audited \<Rightarrow> (string \<times> column_value) list" where
  "snapshotJSON entity =
     map (\<lambda>(name, (v, ent)). (name, if IsRedacted ent name then VText Redacted else v))
       (auditFields (au_fields entity))"

section \<open>Transactions\<close>

datatype diff =
  Snapshot "(string \<times> column_value) list"
| Changes "field_change list"
| Literal string

record changeLog =
  cl_EntityType :: string
  cl_EntityID :: string
  cl_Action :: string
  cl_Actor :: string
  cl_ActorKind :: string
  cl_Diff :: diff
  cl_BatchID :: "string option"
  cl_At :: string

record txn =
  tx_permit :: "permit option"
  tx_actor :: actor
  tx_at :: string

text \<open>A nil permit is refused; its actor is the zero value.\<close>

definition zero_actor :: actor where
  "zero_actor = \<lparr>act_ID = [], act_Name = [], act_Kind = []\<rparr>"

definition begin_tx :: "permit option \<Rightarrow> string \<Rightarrow> txn" where
  "begin_tx p now =
     \<lparr>tx_permit = p, tx_actor = (case p of None \<Rightarrow> zero_actor | Some q \<Rightarrow> permit_Actor q), tx_at = now\<rparr>"

definition tx_authorize :: "txn \<Rightarrow> string \<Rightarrow> string \<Rightarrow> unit result" where
  "tx_authorize t entityType entityID =
     require (case tx_permit t of None \<Rightarrow> False | Some p \<Rightarrow> Covers p entityType entityID) ErrForbidden"

text \<open>
  The row of the audit table, refused by its CHECK constraints when the type, the id or the actor
  is empty or the kind of the actor is none of the three. The row's own id is not modelled.
\<close>

definition log_row :: "txn \<Rightarrow> string \<Rightarrow> string \<Rightarrow> string \<Rightarrow> diff \<Rightarrow> string \<Rightarrow> changeLog" where
  "log_row t entityType entityID action d batchID =
     \<lparr>cl_EntityType = entityType, cl_EntityID = entityID, cl_Action = action,
      cl_Actor = act_ID (tx_actor t), cl_ActorKind = act_Kind (tx_actor t), cl_Diff = d,
      cl_BatchID = (if batchID = [] then None else Some batchID), cl_At = tx_at t\<rparr>"

definition row_accepted :: "changeLog \<Rightarrow> bool" where
  "row_accepted r \<longleftrightarrow>
     cl_EntityType r \<noteq> [] \<and> cl_EntityID r \<noteq> [] \<and> cl_Actor r \<noteq> [] \<and> oneOf (cl_ActorKind r) ActorKinds"

definition tx_log :: "txn \<Rightarrow> string \<Rightarrow> string \<Rightarrow> string \<Rightarrow> diff \<Rightarrow> string \<Rightarrow> changeLog list \<Rightarrow> changeLog list result" where
  "tx_log t entityType entityID action d batchID rows =
     bind_result (tx_authorize t entityType entityID) (\<lambda>_.
     bind_result (require (row_accepted (log_row t entityType entityID action d batchID)) ErrDriver) (\<lambda>_.
       Inr (rows @ [log_row t entityType entityID action d batchID])))"

definition logCreateBatch :: "txn \<Rightarrow> string \<Rightarrow> string \<Rightarrow> audited \<Rightarrow> string \<Rightarrow> changeLog list \<Rightarrow> changeLog list result" where
  "logCreateBatch t entityType entityID entity batchID rows =
     tx_log t entityType entityID ''create'' (Snapshot (snapshotJSON entity)) batchID rows"

definition logCreate :: "txn \<Rightarrow> string \<Rightarrow> string \<Rightarrow> audited \<Rightarrow> changeLog list \<Rightarrow> changeLog list result" where
  "logCreate t entityType entityID entity rows = logCreateBatch t entityType entityID entity [] rows"

definition logUpdateBatch ::
  "txn \<Rightarrow> string \<Rightarrow> string \<Rightarrow> audited \<Rightarrow> audited \<Rightarrow> string \<Rightarrow> changeLog list \<Rightarrow> changeLog list result" where
  "logUpdateBatch t entityType entityID before after batchID rows =
     bind_result (tx_authorize t entityType entityID) (\<lambda>_.
     bind_result (diffJSON before after) (\<lambda>d.
       case d of None \<Rightarrow> Inr rows
       | Some changes \<Rightarrow> tx_log t entityType entityID ''update'' (Changes changes) batchID rows))"

definition logUpdate ::
  "txn \<Rightarrow> string \<Rightarrow> string \<Rightarrow> audited \<Rightarrow> audited \<Rightarrow> changeLog list \<Rightarrow> changeLog list result" where
  "logUpdate t entityType entityID before after rows =
     logUpdateBatch t entityType entityID before after [] rows"

text \<open>
  \<open>writeTx\<close>: the body runs on the state inside the transaction; an error rolls everything back. The
  body is one step on one state, which is what \<open>writeSerializable\<close> promises on both engines and
  what \<open>write\<close> gives on SQLite, whose writer pool holds a single connection. On Postgres \<open>write\<close> runs
  at read committed: a body that checks and then acts may then see, at its check, a state that an
  overlapping transaction has left by the time it acts. Statements about sequences of steps are
  therefore statements about transactions that run one after another.
\<close>

definition writeTx :: "permit option \<Rightarrow> string \<Rightarrow> (txn \<Rightarrow> 's \<Rightarrow> 's result) \<Rightarrow> 's \<Rightarrow> 's result" where
  "writeTx p now fn st = fn (begin_tx p now) st"

lemma begin_tx_simps [simp]:
  "tx_permit (begin_tx p now) = p" "tx_at (begin_tx p now) = now"
  "tx_actor (begin_tx (Some q) now) = permit_Actor q"
  by (simp_all add: begin_tx_def)

lemma tx_authorize_Inr [simp]:
  "tx_authorize t ty i = Inr u \<longleftrightarrow> (\<exists>p. tx_permit t = Some p \<and> Covers p ty i)"
  by (simp add: tx_authorize_def split: option.splits)

lemma tx_log_Inr:
  "tx_log t ty i action d b rows = Inr rows' \<longleftrightarrow>
     (\<exists>p. tx_permit t = Some p \<and> Covers p ty i) \<and> row_accepted (log_row t ty i action d b)
     \<and> rows' = rows @ [log_row t ty i action d b]"
  by (auto simp: tx_log_def bind_result_Inr)

lemma logCreate_Inr:
  "logCreate t ty i e rows = Inr rows' \<Longrightarrow>
     (\<exists>p. tx_permit t = Some p \<and> Covers p ty i)
     \<and> rows' = rows @ [log_row t ty i ''create'' (Snapshot (snapshotJSON e)) []]"
  by (simp add: logCreate_def logCreateBatch_def tx_log_Inr)

lemma logUpdate_Inr:
  "logUpdate t ty i before after rows = Inr rows' \<Longrightarrow>
     (\<exists>p. tx_permit t = Some p \<and> Covers p ty i)
     \<and> (rows' = rows \<or> (\<exists>c. rows' = rows @ [log_row t ty i ''update'' (Changes c) []]))"
  by (auto simp: logUpdate_def logUpdateBatch_def bind_result_Inr tx_log_Inr split: option.splits)

section \<open>Reading a row back from its trail\<close>

text \<open>What the trail may show of a row: its audited columns, the redacted ones masked.\<close>

definition visible :: "audited \<Rightarrow> string \<Rightarrow> column_value option" where
  "visible r name =
     map_option (\<lambda>(v, ent). if IsRedacted ent name then VText Redacted else v)
       (map_of (auditFields (au_fields r)) name)"

primrec apply_changes ::
  "field_change list \<Rightarrow> (string \<Rightarrow> column_value option) \<Rightarrow> (string \<Rightarrow> column_value option)" where
  "apply_changes [] m = m"
| "apply_changes (c # cs) m = apply_changes cs (m(fst c \<mapsto> snd (snd c)))"

fun replay_diff :: "diff \<Rightarrow> (string \<Rightarrow> column_value option) \<Rightarrow> string \<Rightarrow> column_value option" where
  "replay_diff (Snapshot flds) m = map_of flds"
| "replay_diff (Changes changes) m = apply_changes changes m"
| "replay_diff (Literal text) m = m"

definition replay :: "changeLog list \<Rightarrow> string \<Rightarrow> column_value option" where
  "replay rows = fold (\<lambda>r m. replay_diff (cl_Diff r) m) rows Map.empty"

text \<open>Two values of one Go type have the same fields in the same order.\<close>

definition shape :: "audited \<Rightarrow> (string \<times> string) list" where
  "shape r = map (\<lambda>(ent, tag, v). (ent, tag)) (au_fields r)"

lemma keys_update: "keys (AList.update k v m) = (if k \<in> set (keys m) then keys m else keys m @ [k])"
  by (induction m) auto

lemma distinct_auditFields: "distinct (keys (auditFields flds))"
proof -
  have "distinct (keys (fold (\<lambda>(entity, tag, v) out.
          if List.member unaudited_tags tag then out else AList.update tag (v, entity) out) flds m))"
    if "distinct (keys m)" for m :: "(column_value \<times> string) gomap"
    using that by (induction flds arbitrary: m) (auto simp: keys_update split: prod.splits)
  then show ?thesis by (simp add: auditFields_def)
qed

lemma auditFields_same_shape:
  assumes "map (\<lambda>(ent, tag, v). (ent, tag)) fs = map (\<lambda>(ent, tag, v). (ent, tag)) gs"
  shows "map (\<lambda>(n, (v, e)). (n, e)) (auditFields fs) = map (\<lambda>(n, (v, e)). (n, e)) (auditFields gs)"
proof -
  let ?step = "\<lambda>(entity, tag, v) out.
          if List.member unaudited_tags tag then out else AList.update tag (v, entity) out"
  let ?names = "map (\<lambda>(n, (v, e)). (n, e))"
  have upd: "?names (AList.update k (v, e) m) = AList.update k e (?names m)" for k v e and m :: "(column_value \<times> string) gomap"
    by (induction m) auto
  have "?names (fold ?step fs m) = ?names (fold ?step gs m')"
    if "?names m = ?names m'" for m m' :: "(column_value \<times> string) gomap"
    using assms that
  proof (induction fs gs arbitrary: m m' rule: list_induct2')
    case (4 x xs y ys)
    obtain e t v where x: "x = (e, t, v)" by (cases x)
    obtain w where y: "y = (e, t, w)" using "4.prems" x by (cases y) auto
    have "?names (?step x m) = ?names (?step y m')"
      using "4.prems" by (simp add: x y upd)
    with "4.IH" "4.prems" show ?case by simp
  qed auto
  then show ?thesis by (simp add: auditFields_def)
qed

lemma map_of_names:
  "map (\<lambda>(n, (v, e)). (n, e)) m = map (\<lambda>(n, (v, e)). (n, e)) m' \<Longrightarrow>
   map_option snd (map_of m k) = map_option snd (map_of m' k)"
proof (induction m m' rule: list_induct2')
  case (4 x xs y ys)
  then show ?case by (cases x; cases y) auto
qed auto

text \<open>Applying the changes of an update to the visible old row gives the visible new row.\<close>

lemma apply_changes_append: "apply_changes (cs @ ds) m = apply_changes ds (apply_changes cs m)"
  by (induction cs arbitrary: m) auto

lemma field_changes_Nil: "field_changes before [] = []"
  by (simp add: field_changes_def)

lemma field_changes_Cons:
  "field_changes before ((n, (v, ent)) # after) =
     (let old = fst (get_or (VNull, []) (map_of before) n) in
      if old = v then [] else if IsRedacted ent n then [(n, VText Redacted, VText Redacted)] else [(n, old, v)])
     @ field_changes before after"
  by (simp add: field_changes_def Let_def)

lemma replay_changes_gen:
  "distinct (keys after) \<Longrightarrow> apply_changes (field_changes before after) m k =
     (case map_of after k of
        None \<Rightarrow> m k
      | Some (v, ent) \<Rightarrow>
          if fst (get_or (VNull, []) (map_of before) k) = v then m k
          else Some (if IsRedacted ent k then VText Redacted else v))"
proof (induction after arbitrary: m)
  case (Cons x after)
  obtain n v ent where x: "x = (n, (v, ent))" by (cases x) auto
  from Cons.prems x have n: "map_of after n = None" by (simp add: map_of_eq_None_iff)
  show ?case
  proof (cases "k = n")
    case True
    with Cons n show ?thesis by (simp add: x field_changes_Cons apply_changes_append Let_def)
  next
    case False
    with Cons show ?thesis
      by (auto simp: x field_changes_Cons apply_changes_append Let_def split: option.splits)
  qed
qed (simp add: field_changes_Nil)

lemma replay_changes:
  assumes "shape before = shape after" "m k = visible before k"
  shows "apply_changes (field_changes (auditFields (au_fields before)) (auditFields (au_fields after))) m k = visible after k"
proof -
  let ?b = "map_of (auditFields (au_fields before)) k" and ?a = "map_of (auditFields (au_fields after)) k"
  have "map_option snd ?b = map_option snd ?a"
    by (rule map_of_names, rule auditFields_same_shape) (use assms(1) in \<open>simp add: shape_def\<close>)
  then show ?thesis
    using assms(2) by (cases ?b; cases ?a) (auto simp: replay_changes_gen distinct_auditFields visible_def)
qed

lemma replay_append: "replay (rows @ [r]) = replay_diff (cl_Diff r) (replay rows)"
  by (simp add: replay_def)

lemma replay_snapshot: "map_of (snapshotJSON entity) = visible entity"
  by (rule ext) (simp add: snapshotJSON_def visible_def map_of_map_snd [where f = "\<lambda>name (v, ent).
        if IsRedacted ent name then VText Redacted else v", simplified split_def] split_def)

text \<open>The entries about one row, and how the two kinds of entry continue them.\<close>

definition entries_of :: "string \<Rightarrow> string \<Rightarrow> changeLog list \<Rightarrow> changeLog list" where
  "entries_of ty i rows = filter (\<lambda>r. cl_EntityType r = ty \<and> cl_EntityID r = i) rows"

lemma entries_of_append [simp]: "entries_of ty i (rows @ new) = entries_of ty i rows @ entries_of ty i new"
  by (simp add: entries_of_def)

lemma entries_of_row [simp]:
  "entries_of ty i [log_row t ty' i' a d b] = (if ty' = ty \<and> i' = i then [log_row t ty' i' a d b] else [])"
  by (simp add: entries_of_def log_row_def)

lemma log_row_diff [simp]: "cl_Diff (log_row t ty i a d b) = d"
  by (simp add: log_row_def)

lemma logCreate_replay:
  assumes "logCreate t ty i entity rows = Inr rows'"
  shows "replay (entries_of ty i rows') = visible entity"
    and "(ty', i') \<noteq> (ty, i) \<Longrightarrow> entries_of ty' i' rows' = entries_of ty' i' rows"
  using logCreate_Inr [OF assms] by (auto simp: replay_append replay_snapshot)

lemma logUpdate_replay:
  assumes "logUpdate t ty i before after rows = Inr rows'"
  shows "replay (entries_of ty i rows') =
      apply_changes (field_changes (auditFields (au_fields before)) (auditFields (au_fields after))) (replay (entries_of ty i rows))"
    and "(ty', i') \<noteq> (ty, i) \<Longrightarrow> entries_of ty' i' rows' = entries_of ty' i' rows"
  using assms by (auto simp: logUpdate_def logUpdateBatch_def bind_result_Inr diffJSON_def tx_log_Inr Let_def
      replay_append split: if_splits option.splits)

section \<open>Redaction\<close>

definition diff_shows :: "diff \<Rightarrow> string \<Rightarrow> column_value \<Rightarrow> bool" where
  "diff_shows d name v \<longleftrightarrow>
     (case d of Snapshot flds \<Rightarrow> (name, v) \<in> set flds
      | Changes cs \<Rightarrow> \<exists>old new. (name, old, new) \<in> set cs \<and> (v = old \<or> v = new)
      | Literal _ \<Rightarrow> False)"

lemma auditFields_entity:
  "(name, (v, ent)) \<in> set (auditFields flds) \<Longrightarrow> (ent, name, v) \<in> set flds"
proof -
  have "(name, (v, ent)) \<in> set (fold (\<lambda>(entity, tag, v) out.
          if List.member unaudited_tags tag then out else AList.update tag (v, entity) out) flds m)
        \<Longrightarrow> (ent, name, v) \<in> set flds \<or> (name, (v, ent)) \<in> set m" for m :: "(column_value \<times> string) gomap"
  proof (induction flds arbitrary: m)
    case (Cons x flds)
    obtain e t w where x: "x = (e, t, w)" by (cases x)
    have "(name, (v, ent)) \<in> set (AList.update t (w, e) m) \<Longrightarrow>
            (name, (v, ent)) = (t, (w, e)) \<or> (name, (v, ent)) \<in> set m"
      by (induction m) (auto split: if_splits)
    with Cons x show ?case by (fastforce split: if_splits)
  qed simp
  from this [of "[]"] show "(name, (v, ent)) \<in> set (auditFields flds) \<Longrightarrow> (ent, name, v) \<in> set flds"
    by (simp add: auditFields_def)
qed

lemma redacted_entry:
  assumes "logUpdate t ty i before after rows = Inr rows' \<or> logCreate t ty i after rows = Inr rows'"
    and "r \<in> set rows' - set rows"
    and "\<And>ent v. (ent, name, v) \<in> set (au_fields after) \<Longrightarrow> IsRedacted ent name"
    and "diff_shows (cl_Diff r) name v"
  shows "v = VText Redacted"
proof -
  have red: "IsRedacted ent name" if "(name, (w, ent)) \<in> set (auditFields (au_fields after))" for w ent
    using auditFields_entity [OF that] assms(3) by blast
  from assms(1,2) consider
    (create) "cl_Diff r = Snapshot (snapshotJSON after)"
  | (update) "cl_Diff r = Changes (field_changes (auditFields (au_fields before)) (auditFields (au_fields after)))"
    by (auto simp: logCreate_def logCreateBatch_def logUpdate_def logUpdateBatch_def bind_result_Inr
        diffJSON_def tx_log_Inr log_row_def Let_def split: if_splits option.splits)
  then show ?thesis
  proof cases
    case create
    with assms(4) red show ?thesis by (auto simp: diff_shows_def snapshotJSON_def split: if_splits)
  next
    case update
    with assms(4) red show ?thesis
      by (auto simp: diff_shows_def field_changes_def Let_def split: if_splits prod.splits)
  qed
qed

text \<open>
  A secret never reaches the trail: no entry written for an update or a creation shows, for a
  column that is redacted in the struct that declares it, anything but the placeholder.
\<close>

theorem audit_redacts:
  assumes "logUpdate t ty i before after rows = Inr rows' \<or> logCreate t ty i after rows = Inr rows'"
    and "r \<in> set rows' - set rows"
    and "\<And>ent v. (ent, name, v) \<in> set (au_fields after) \<Longrightarrow> IsRedacted ent name"
    and "diff_shows (cl_Diff r) name v"
  shows "v = VText Redacted"
  using assms by (rule redacted_entry)

text \<open>An account that is renamed and then promoted.\<close>

definition demo_account :: "string \<Rightarrow> string \<Rightarrow> int \<Rightarrow> audited" where
  "demo_account name role version =
     \<lparr>au_type = ''AppUser'', au_fields = [(''AppUser'', ''id'', VText ''u1''), (''AppUser'', ''username'', VText name),
        (''AppUser'', ''role'', VText role), (''AppUser'', ''row_version'', VInt version)]\<rparr>"

definition demo_tx :: txn where
  "demo_tx = begin_tx (Some (administratorPermit \<lparr>act_ID = ''root'', act_Name = ''root'', act_Kind = ActorKindUser\<rparr>)) ''2026-01-01T00:00:00Z''"

definition demo_rows :: "changeLog list" where
  "demo_rows = map (\<lambda>(a, d). log_row demo_tx ''app_user'' ''u1'' a d [])
     [(''create'', Snapshot [(''id'', VText ''u1''), (''username'', VText Redacted), (''role'', VText ''observer'')]),
      (''update'', Changes [(''username'', VText Redacted, VText Redacted)]),
      (''update'', Changes [(''role'', VText ''observer'', VText ''administrator'')])]"

theorem audit_redacts_witness:
  "diff_shows (cl_Diff (demo_rows ! 1)) ''username'' (VText Redacted)
   \<and> \<not> diff_shows (cl_Diff (demo_rows ! 1)) ''username'' (VText ''anna'')"
proof (rule conjI)
  show "diff_shows (cl_Diff (demo_rows ! 1)) ''username'' (VText Redacted)"
    by (simp add: demo_rows_def log_row_def diff_shows_def)
  have log: "logUpdate demo_tx ''app_user'' ''u1'' (demo_account ''ann'' ''observer'' 1)
          (demo_account ''anna'' ''observer'' 2) (take 1 demo_rows) = Inr (take 2 demo_rows)"
    by code_simp
  have "VText ''anna'' = VText Redacted" if "diff_shows (cl_Diff (demo_rows ! 1)) ''username'' (VText ''anna'')"
  proof (rule audit_redacts [OF disjI1 [OF log] _ _ that])
    show "demo_rows ! 1 \<in> set (take 2 demo_rows) - set (take 1 demo_rows)"
      by (simp add: demo_rows_def log_row_def)
    show "\<And>ent v. (ent, ''username'', v) \<in> set (au_fields (demo_account ''anna'' ''observer'' 2)) \<Longrightarrow>
             IsRedacted ent ''username''"
      by (auto simp: demo_account_def IsRedacted_def RedactedFieldsByEntity_def)
  qed
  then show "\<not> diff_shows (cl_Diff (demo_rows ! 1)) ''username'' (VText ''anna'')"
    by (auto simp: Redacted_def)
qed

end
