(* ===== verification/Timestamp.thy ===== *)
theory Timestamp
  imports Errors
begin

text \<open>
  Stored times: internal/domain/time.go over the package time. A \<open>time.Time\<close> is the number of
  nanoseconds since the Unix epoch. The calendar is the proleptic Gregorian one; \<open>FormatTime\<close>
  prints to the second and \<open>ParseTime\<close> reads what \<open>time.Parse\<close> reads for that layout, which is more
  than \<open>FormatTime\<close> prints: an hour of one digit, and a fraction of a second after the seconds.
\<close>

section \<open>The calendar\<close>

definition leap :: "int \<Rightarrow> bool" where
  "leap y \<longleftrightarrow> y mod 4 = 0 \<and> (y mod 100 \<noteq> 0 \<or> y mod 400 = 0)"

text \<open>Days from the first day of year 0 to the first day of year \<open>y\<close>.\<close>

definition days_before_year :: "int \<Rightarrow> int" where
  "days_before_year y = 365 * y + (y + 3) div 4 - (y + 99) div 100 + (y + 399) div 400"

definition month_lengths :: "int \<Rightarrow> int list" where
  "month_lengths y = [31, if leap y then 29 else 28, 31, 30, 31, 30, 31, 31, 30, 31, 30, 31]"

text \<open>The year of a day: an estimate from the length of 400 years, and a correction.\<close>

definition year_of_day :: "int \<Rightarrow> int" where
  "year_of_day n =
     (let y = (400 * n) div 146097 in
      if days_before_year (y + 1) \<le> n then y + 1 else if n < days_before_year y then y - 1 else y)"

fun month_day :: "int list \<Rightarrow> int \<Rightarrow> int \<Rightarrow> int \<times> int" where
  "month_day [] m d = (m, d + 1)"
| "month_day (l # ls) m d = (if d < l then (m, d + 1) else month_day ls (m + 1) (d - l))"

definition civil_of_day :: "int \<Rightarrow> int \<times> int \<times> int" where
  "civil_of_day n =
     (let y = year_of_day n; (m, d) = month_day (month_lengths y) 1 (n - days_before_year y) in (y, m, d))"

definition day_of_civil :: "int \<Rightarrow> int \<Rightarrow> int \<Rightarrow> int" where
  "day_of_civil y m d = days_before_year y + sum_list (take (nat (m - 1)) (month_lengths y)) + (d - 1)"

definition epoch_day :: int where
  "epoch_day = 719528"

section \<open>Formatting\<close>

definition digit :: "int \<Rightarrow> char" where
  "digit n = char_of (48 + nat (n mod 10))"

definition pad2 :: "int \<Rightarrow> string" where
  "pad2 n = [digit (n div 10), digit n]"

definition pad4 :: "int \<Rightarrow> string" where
  "pad4 n = pad2 (n div 100) @ pad2 (n mod 100)"

definition year_text :: "int \<Rightarrow> string" where
  "year_text y =
     (if 0 \<le> y \<and> y \<le> 9999 then pad4 y
      else if y < 0 then CHR ''-'' # (if y \<ge> -9999 then pad4 (- y) else itoa (- y))
      else itoa y)"

definition date_text :: "int \<Rightarrow> string" where
  "date_text n =
     (let (y, m, d) = civil_of_day n in year_text y @ CHR ''-'' # pad2 m @ CHR ''-'' # pad2 d)"

definition clock_text :: "int \<Rightarrow> string" where
  "clock_text s =
     pad2 (s div 3600) @ CHR '':'' # pad2 (s div 60 mod 60) @ CHR '':'' # pad2 (s mod 60)"

definition FormatTime :: "int \<Rightarrow> string" where
  "FormatTime t =
     (let secs = t div 10 ^ 9 in
      date_text (secs div 86400 + epoch_day) @ CHR ''T'' # clock_text (secs mod 86400) @ ''Z'')"

definition FormatDate :: "int \<Rightarrow> string" where
  "FormatDate t = date_text (t div 10 ^ 9 div 86400 + epoch_day)"

section \<open>Parsing\<close>

text \<open>\<open>getnum\<close> of package time: two digits, or one when the layout does not fix the width.\<close>

definition getnum :: "bool \<Rightarrow> string \<Rightarrow> (int \<times> string) option" where
  "getnum fixed s =
     (case s of
        a # b # r \<Rightarrow>
          if \<not> is_digit a then None
          else if is_digit b then Some (10 * digit_value a + digit_value b, r)
          else if fixed then None else Some (digit_value a, b # r)
      | [a] \<Rightarrow> if is_digit a \<and> \<not> fixed then Some (digit_value a, []) else None
      | [] \<Rightarrow> None)"

definition getyear :: "string \<Rightarrow> (int \<times> string) option" where
  "getyear s =
     (if length s < 4 \<or> \<not> list_all is_digit (take 4 s) then None
      else Some (decimal_value (take 4 s), drop 4 s))"

definition skip :: "char \<Rightarrow> string \<Rightarrow> string option" where
  "skip c s = (case s of x # r \<Rightarrow> if x = c then Some r else None | [] \<Rightarrow> None)"

text \<open>
  The fraction that \<open>time.Parse\<close> accepts after the seconds although the layout has none: a point
  or a comma and digits, of which the first nine count.
\<close>

definition getfraction :: "string \<Rightarrow> int \<times> string" where
  "getfraction s =
     (case s of
        p # c # r \<Rightarrow>
          if (p = CHR ''.'' \<or> p = CHR '','') \<and> is_digit c then
            (let ds = takeWhile is_digit (c # r); kept = take 9 ds
             in (decimal_value kept * 10 ^ (9 - length kept), drop (length ds) (c # r)))
          else (0, s)
      | _ \<Rightarrow> (0, s))"

definition days_in :: "int \<Rightarrow> int \<Rightarrow> int" where
  "days_in y m = month_lengths y ! nat (m - 1)"

definition parse_date :: "string \<Rightarrow> (int \<times> string) option" where
  "parse_date s =
     Option.bind (getyear s) (\<lambda>(y, s1).
     Option.bind (skip CHR ''-'' s1) (\<lambda>s2.
     Option.bind (getnum True s2) (\<lambda>(m, s3).
     Option.bind (skip CHR ''-'' s3) (\<lambda>s4.
     Option.bind (getnum True s4) (\<lambda>(d, s5).
       if m < 1 \<or> 12 < m \<or> d < 1 \<or> days_in y m < d then None
       else Some (day_of_civil y m d, s5))))))"

definition parse_clock :: "string \<Rightarrow> (int \<times> int \<times> string) option" where
  "parse_clock s =
     Option.bind (getnum False s) (\<lambda>(h, s1).
     Option.bind (skip CHR '':'' s1) (\<lambda>s2.
     Option.bind (getnum True s2) (\<lambda>(m, s3).
     Option.bind (skip CHR '':'' s3) (\<lambda>s4.
     Option.bind (getnum True s4) (\<lambda>(sec, s5).
       if 24 \<le> h \<or> 60 \<le> m \<or> 60 \<le> sec then None
       else (let (ns, s6) = getfraction s5 in Some (3600 * h + 60 * m + sec, ns, s6)))))))"

definition ParseTime :: "string \<Rightarrow> int option" where
  "ParseTime s =
     Option.bind (parse_date s) (\<lambda>(day, s1).
     Option.bind (skip CHR ''T'' s1) (\<lambda>s2.
     Option.bind (parse_clock s2) (\<lambda>(secs, ns, s3).
       if s3 = ''Z'' then Some (((day - epoch_day) * 86400 + secs) * 10 ^ 9 + ns) else None)))"

definition ParseDate :: "string \<Rightarrow> int option" where
  "ParseDate s =
     Option.bind (parse_date s) (\<lambda>(day, s1).
       if s1 = [] then Some ((day - epoch_day) * 86400 * 10 ^ 9) else None)"

definition NullableTime :: "int option \<Rightarrow> string option" where
  "NullableTime t = map_option FormatTime t"

text \<open>The normalised date beside the error; an empty text is no date.\<close>

definition checkDate :: "string \<Rightarrow> string option \<Rightarrow> string option \<times> fieldError list" where
  "checkDate field value =
     (case value of
        None \<Rightarrow> (None, [])
      | Some v \<Rightarrow>
          let trimmed = trim_space v in
          if trimmed = [] then (None, [])
          else if ParseDate trimmed = None
          then (Some v, [(field, ''must be a real date in the form 2006-01-02'')])
          else (Some trimmed, []))"

text \<open>The instants whose year has four digits.\<close>

definition storable :: "int \<Rightarrow> bool" where
  "storable t \<longleftrightarrow> - 62167219200 \<le> t div 10 ^ 9 \<and> t div 10 ^ 9 < 253402300800"

section \<open>Days and dates\<close>


lemma ceil_step:
  fixes y k :: int
  assumes "0 < k" "j + 1 = k"
  shows "(y + 1 + j) div k = (y + j) div k + of_bool (y mod k = 0)"
proof -
  define q r where "q = y div k" and "r = y mod k"
  have y: "y = k * q + r" "0 \<le> r" "r < k" using assms by (auto simp: q_def r_def)
  have "(y + 1 + j) div k = q + 1"
    using y assms by (intro int_div_pos_eq [where r = r]) (auto simp: algebra_simps)
  moreover have "(y + j) div k = (if r = 0 then q else q + 1)"
    using y assms by (auto intro!: int_div_pos_eq [where r = "if r = 0 then j else r - 1"] simp: algebra_simps)
  ultimately show ?thesis by (simp add: r_def)
qed

lemma ceil_bounds: "0 < k \<Longrightarrow> y \<le> k * ((y + (k - 1)) div k)" "0 < k \<Longrightarrow> k * ((y + (k - 1)) div k) \<le> y + (k - 1)" for y k :: int
  using pos_mod_bound [of k "y + (k - 1)"] pos_mod_sign [of k "y + (k - 1)"] mult_div_mod_eq [of k "y + (k - 1)"]
  by linarith+

lemma year_length:
  "days_before_year (y + 1) = days_before_year y + (if leap y then 366 else 365)"
proof -
  have d: "(100 :: int) dvd 400" "(4 :: int) dvd 100" by simp_all
  have bools: "(c \<Longrightarrow> b) \<Longrightarrow> (b \<Longrightarrow> a) \<Longrightarrow>
      of_bool a - of_bool b + of_bool c = (of_bool (a \<and> (\<not> b \<or> c)) :: int)" for a b c
    by (cases a; cases b; cases c) simp_all
  have days: "of_bool (y mod 4 = 0) - of_bool (y mod 100 = 0) + of_bool (y mod 400 = 0) = (of_bool (leap y) :: int)"
    unfolding leap_def
    by (rule bools [OF dvd_trans [OF d(1), of y, unfolded dvd_eq_mod_eq_0]
                       dvd_trans [OF d(2), of y, unfolded dvd_eq_mod_eq_0]])
  have arith: "A' = A + a \<Longrightarrow> B' = B + b \<Longrightarrow> C' = C + c \<Longrightarrow> a - b + c = l \<Longrightarrow>
      365 * (x + 1) + A' - B' + C' = (365 * x + A - B + C) + (365 + l)" for A A' B B' C C' a b c l x :: int
    by simp
  have "days_before_year (y + 1) = days_before_year y + (365 + of_bool (leap y))"
    unfolding days_before_year_def by (rule arith [OF ceil_step ceil_step ceil_step days]) simp_all
  then show ?thesis by simp
qed

lemma year_of_day_bounds:
  "days_before_year (year_of_day n) \<le> n \<and> n < days_before_year (year_of_day n + 1)"
proof -
  define y where "y = (400 * n) div 146097"
  have y: "146097 * y \<le> 400 * n" "400 * n < 146097 * y + 146097"
    using pos_mod_bound [of 146097 "400 * n"] pos_mod_sign [of 146097 "400 * n"] mult_div_mod_eq [of 146097 "400 * n"]
    unfolding y_def by linarith+
  have low: "days_before_year (y - 1) \<le> n"
    using y ceil_bounds [of 4 "y - 1"] ceil_bounds [of 100 "y - 1"] ceil_bounds [of 400 "y - 1"]
    by (simp add: days_before_year_def)
  have high: "n < days_before_year (y + 2)"
    using y ceil_bounds [of 4 "y + 2"] ceil_bounds [of 100 "y + 2"] ceil_bounds [of 400 "y + 2"]
    by (simp add: days_before_year_def)
  show ?thesis
    using low high unfolding year_of_day_def Let_def y_def [symmetric] by (simp add: add.assoc)
qed

lemma days_before_year_mono: "y \<le> z \<Longrightarrow> days_before_year y \<le> days_before_year z"
proof (induction z rule: int_ge_induct)
  case (step z)
  then show ?case by (simp add: year_length)
qed simp

lemma year_of_day_unique:
  assumes "days_before_year y \<le> n" "n < days_before_year (y + 1)"
  shows "year_of_day n = y"
proof (rule antisym)
  show "year_of_day n \<le> y"
    using year_of_day_bounds [of n] assms(2) days_before_year_mono [of "y + 1" "year_of_day n"] by linarith
  show "y \<le> year_of_day n"
    using year_of_day_bounds [of n] assms(1) days_before_year_mono [of "year_of_day n + 1" y] by linarith
qed

lemma sum_month_lengths: "sum_list (month_lengths y) = (if leap y then 366 else 365)"
  by (simp add: month_lengths_def)

lemma month_lengths_bounds: "l \<in> set (month_lengths y) \<Longrightarrow> 28 \<le> l \<and> l \<le> 31"
  by (auto simp: month_lengths_def split: if_splits)

lemma length_month_lengths [simp]: "length (month_lengths y) = 12"
  by (simp add: month_lengths_def)

lemma month_day_spec:
  "0 \<le> d \<Longrightarrow> d < sum_list ls \<Longrightarrow> month_day ls m d = (m', d') \<Longrightarrow>
     m \<le> m' \<and> m' < m + int (length ls) \<and> 1 \<le> d' \<and> d' \<le> ls ! nat (m' - m)
     \<and> sum_list (take (nat (m' - m)) ls) + (d' - 1) = d"
proof (induction ls m d rule: month_day.induct)
  case (2 l ls m d)
  show ?case
  proof (cases "d < l")
    case False
    with 2 have "m + 1 \<le> m'" and rest: "m' < m + 1 + int (length ls)" "1 \<le> d'"
      "d' \<le> ls ! nat (m' - (m + 1))" "sum_list (take (nat (m' - (m + 1))) ls) + (d' - 1) = d - l"
      by auto
    then have "nat (m' - m) = Suc (nat (m' - (m + 1)))" by linarith
    with rest \<open>m + 1 \<le> m'\<close> show ?thesis by simp
  qed (use 2 in auto)
qed simp

lemma month_day_sum:
  "(\<And>l. l \<in> set ls \<Longrightarrow> 0 \<le> l) \<Longrightarrow> i < length ls \<Longrightarrow> 0 \<le> d \<Longrightarrow> d < ls ! i \<Longrightarrow>
     month_day ls m (sum_list (take i ls) + d) = (m + int i, d + 1)"
proof (induction i arbitrary: ls m)
  case 0
  then show ?case by (cases ls) auto
next
  case (Suc i)
  then obtain l ls' where ls: "ls = l # ls'" by (cases ls) auto
  have nonneg: "0 \<le> x" if "x \<in> set (take i ls')" for x
    using that Suc.prems(1) ls by (auto dest: in_set_takeD)
  have "0 \<le> sum_list (take i ls')" by (rule sum_list_nonneg) (rule nonneg)
  with Suc ls show ?case by auto
qed

lemma month_day_less:
  "0 \<le> d \<Longrightarrow> d < e \<Longrightarrow> e < sum_list ls \<Longrightarrow> (\<And>l. l \<in> set ls \<Longrightarrow> 0 \<le> l) \<Longrightarrow>
   month_day ls m d = (m1, d1) \<Longrightarrow> month_day ls m e = (m2, d2) \<Longrightarrow> m1 < m2 \<or> (m1 = m2 \<and> d1 < d2)"
proof (induction ls arbitrary: m d e)
  case (Cons l ls)
  consider "e < l" | "d < l" "l \<le> e" | "l \<le> d" by linarith
  then show ?case
  proof cases
    case 2
    with Cons.prems month_day_spec [of "e - l" ls "m + 1" m2 d2] show ?thesis by auto
  next
    case 3
    with Cons.prems Cons.IH [of "d - l" "e - l" "m + 1"] show ?thesis by auto
  qed (use Cons.prems in auto)
qed simp

text \<open>A day and its date.\<close>

lemma doy_bounds:
  "0 \<le> n - days_before_year (year_of_day n)"
  "n - days_before_year (year_of_day n) < sum_list (month_lengths (year_of_day n))"
  using year_of_day_bounds [of n] year_length [of "year_of_day n"] by (simp_all add: sum_month_lengths)

lemma civil_of_day_valid:
  assumes "civil_of_day n = (y, m, d)"
  shows "1 \<le> m" "m \<le> 12" "1 \<le> d" "d \<le> days_in y m" "day_of_civil y m d = n"
proof -
  from assms have y: "y = year_of_day n" and md: "month_day (month_lengths y) 1 (n - days_before_year y) = (m, d)"
    by (auto simp: civil_of_day_def Let_def split: prod.splits)
  from month_day_spec [OF _ _ md] doy_bounds [of n] y
  show "1 \<le> m" "m \<le> 12" "1 \<le> d" "d \<le> days_in y m" "day_of_civil y m d = n"
    by (auto simp: days_in_def day_of_civil_def)
qed

lemma day_of_civil_inverse:
  assumes "1 \<le> m" "m \<le> 12" "1 \<le> d" "d \<le> days_in y m"
  shows "civil_of_day (day_of_civil y m d) = (y, m, d)"
proof -
  let ?i = "nat (m - 1)" and ?L = "month_lengths y"
  have i: "?i < length ?L" using assms by simp
  have nonneg: "\<And>l. l \<in> set ?L \<Longrightarrow> 0 \<le> l" using month_lengths_bounds by force
  have md: "month_day ?L 1 (sum_list (take ?i ?L) + (d - 1)) = (m, d)"
    using month_day_sum [OF nonneg i, of "d - 1" 1] assms by (simp add: days_in_def)
  have "sum_list ?L = sum_list (take ?i ?L) + sum_list (drop ?i ?L)"
    by (metis append_take_drop_id sum_list_append)
  moreover have "?L ! ?i \<le> sum_list (drop ?i ?L)"
    using i nonneg by (metis Cons_nth_drop_Suc add.right_neutral add_left_mono in_set_dropD sum_list.Cons sum_list_nonneg)
  moreover have "0 \<le> sum_list (take ?i ?L)"
    by (rule sum_list_nonneg) (use nonneg in \<open>auto dest: in_set_takeD\<close>)
  ultimately have "year_of_day (day_of_civil y m d) = y"
    using assms by (intro year_of_day_unique) (auto simp: day_of_civil_def year_length sum_month_lengths days_in_def split: if_splits)
  with md show ?thesis by (simp add: civil_of_day_def day_of_civil_def)
qed

lemma civil_of_day_less:
  assumes "n < k" "civil_of_day n = (y1, m1, d1)" "civil_of_day k = (y2, m2, d2)"
  shows "y1 < y2 \<or> (y1 = y2 \<and> (m1 < m2 \<or> (m1 = m2 \<and> d1 < d2)))"
proof -
  from assms have y: "y1 = year_of_day n" "y2 = year_of_day k"
    and md: "month_day (month_lengths y1) 1 (n - days_before_year y1) = (m1, d1)"
      "month_day (month_lengths y2) 1 (k - days_before_year y2) = (m2, d2)"
    by (auto simp: civil_of_day_def Let_def split: prod.splits)
  have "y1 \<le> y2"
    using assms(1) year_of_day_bounds [of n] year_of_day_bounds [of k] days_before_year_mono [of "y2 + 1" y1]
    unfolding y by linarith
  moreover have "m1 < m2 \<or> (m1 = m2 \<and> d1 < d2)" if eq: "y1 = y2"
  proof (rule month_day_less [OF _ _ _ _ md(1) md(2) [folded eq]])
    show "0 \<le> n - days_before_year y1" using doy_bounds [of n] y by simp
    show "n - days_before_year y1 < k - days_before_year y1" using assms(1) by simp
    show "k - days_before_year y1 < sum_list (month_lengths y1)" using doy_bounds [of k] y eq by simp
    show "\<And>l. l \<in> set (month_lengths y1) \<Longrightarrow> 0 \<le> l" using month_lengths_bounds by force
  qed
  ultimately show ?thesis by auto
qed

section \<open>Order of the stored text\<close>

lemma fixed_less:
  fixes u v x y :: string
  shows "length u = length v \<Longrightarrow> u @ x < v @ y \<longleftrightarrow> u < v \<or> (u = v \<and> x < y)"
  by (induction u v rule: list_induct2) auto

lemma radix_less:
  fixes a b k :: int
  assumes "0 < k"
  shows "a div k < b div k \<or> (a div k = b div k \<and> a mod k < b mod k) \<longleftrightarrow> a < b"
proof -
  have eq: "a = k * (a div k) + a mod k" "b = k * (b div k) + b mod k" by simp_all
  consider "a div k < b div k" | "a div k = b div k" | "b div k < a div k" by linarith
  then show ?thesis
  proof cases
    case 1
    then show ?thesis using zdiv_mono1 [of b a k] assms by (cases "a < b") auto
  next
    case 2
    have "a < b \<longleftrightarrow> a mod k < b mod k" by (subst eq(1), subst eq(2)) (simp only: 2 add_less_cancel_left)
    with 2 show ?thesis by simp
  next
    case 3
    then show ?thesis using zdiv_mono1 [of a b k] assms by auto
  qed
qed

lemma fixed_eq: "length u = length v \<Longrightarrow> u @ x = v @ y \<longleftrightarrow> u = v \<and> x = y"
  by simp

lemma digit_of: "0 \<le> n \<Longrightarrow> n < 10 \<Longrightarrow> (of_char (digit n) :: nat) = 48 + nat n"
  by (simp add: digit_def)

lemma digit_less: "0 \<le> a \<Longrightarrow> a < 10 \<Longrightarrow> 0 \<le> b \<Longrightarrow> b < 10 \<Longrightarrow> digit a < digit b \<longleftrightarrow> a < b"
  by (auto simp: less_char_def digit_of)

lemma digit_mod [simp]: "digit (n mod 10) = digit n"
  by (simp add: digit_def)

lemma digit_eq: "0 \<le> a \<Longrightarrow> a < 10 \<Longrightarrow> 0 \<le> b \<Longrightarrow> b < 10 \<Longrightarrow> digit a = digit b \<longleftrightarrow> a = b"
  by (metis digit_less less_irrefl linorder_neq_iff)

lemma pad2_less:
  assumes "0 \<le> a" "a < 100" "0 \<le> b" "b < 100"
  shows "pad2 a < pad2 b \<longleftrightarrow> a < b"
proof -
  have div: "0 \<le> a div 10" "a div 10 < 10" "0 \<le> b div 10" "b div 10 < 10" using assms by auto
  have mod: "0 \<le> a mod 10" "a mod 10 < 10" "0 \<le> b mod 10" "b mod 10 < 10" by auto
  have "pad2 a < pad2 b \<longleftrightarrow> a div 10 < b div 10 \<or> (a div 10 = b div 10 \<and> a mod 10 < b mod 10)"
    using digit_less [OF div(1,2,3,4)] digit_eq [OF div(1,2,3,4)] digit_less [OF mod] by (simp add: pad2_def)
  also have "\<dots> \<longleftrightarrow> a < b" by (rule radix_less) simp
  finally show ?thesis .
qed

lemma pad2_eq: "0 \<le> a \<Longrightarrow> a < 100 \<Longrightarrow> 0 \<le> b \<Longrightarrow> b < 100 \<Longrightarrow> pad2 a = pad2 b \<longleftrightarrow> a = b"
  by (metis pad2_less less_irrefl linorder_neq_iff)

lemma length_pad2 [simp]: "length (pad2 n) = 2" "length (pad4 n) = 4"
  by (simp_all add: pad2_def pad4_def)

lemma pad4_less:
  assumes "0 \<le> a" "a \<le> 9999" "0 \<le> b" "b \<le> 9999"
  shows "pad4 a < pad4 b \<longleftrightarrow> a < b"
proof -
  have "0 \<le> a div 100" "a div 100 < 100" "0 \<le> b div 100" "b div 100 < 100"
       "0 \<le> a mod 100" "a mod 100 < 100" "0 \<le> b mod 100" "b mod 100 < 100" using assms by auto
  then have "pad4 a < pad4 b \<longleftrightarrow> a div 100 < b div 100 \<or> (a div 100 = b div 100 \<and> a mod 100 < b mod 100)"
    by (simp add: pad4_def fixed_less pad2_less pad2_eq)
  also have "\<dots> \<longleftrightarrow> a < b" by (rule radix_less) simp
  finally show ?thesis .
qed

lemma pad4_eq: "0 \<le> a \<Longrightarrow> a \<le> 9999 \<Longrightarrow> 0 \<le> b \<Longrightarrow> b \<le> 9999 \<Longrightarrow> pad4 a = pad4 b \<longleftrightarrow> a = b"
  by (metis pad4_less less_irrefl linorder_neq_iff)


lemma storable_day:
  assumes "storable t"
  shows "0 \<le> year_of_day (t div 10 ^ 9 div 86400 + epoch_day)"
    and "year_of_day (t div 10 ^ 9 div 86400 + epoch_day) \<le> 9999"
proof -
  let ?n = "t div 10 ^ 9 div 86400 + epoch_day"
  have "- 719528 \<le> t div 10 ^ 9 div 86400" "t div 10 ^ 9 div 86400 < 2932897"
    using assms zdiv_mono1 [of "- 62167219200" "t div 10 ^ 9" 86400] zdiv_mono1 [of "t div 10 ^ 9" 253402300799 86400]
    unfolding storable_def by auto
  then have n: "days_before_year 0 \<le> ?n" "?n < days_before_year 10000"
    by (simp_all add: epoch_day_def days_before_year_def)
  show "0 \<le> year_of_day ?n"
    using n year_of_day_bounds [of ?n] days_before_year_mono [of "year_of_day ?n + 1" 0] by linarith
  show "year_of_day ?n \<le> 9999"
    using n year_of_day_bounds [of ?n] days_before_year_mono [of 10000 "year_of_day ?n"] by linarith
qed

lemma days_in_le: "1 \<le> m \<Longrightarrow> m \<le> 12 \<Longrightarrow> days_in y m \<le> 31"
  using month_lengths_bounds [of "month_lengths y ! nat (m - 1)" y] by (simp add: days_in_def)

lemma date_text_less:
  assumes "n < k" "0 \<le> year_of_day n" "year_of_day n \<le> 9999" "0 \<le> year_of_day k" "year_of_day k \<le> 9999"
  shows "date_text n < date_text k"
proof -
  obtain y1 m1 d1 where c1: "civil_of_day n = (y1, m1, d1)" by (cases "civil_of_day n")
  obtain y2 m2 d2 where c2: "civil_of_day k = (y2, m2, d2)" by (cases "civil_of_day k")
  have y: "y1 = year_of_day n" "y2 = year_of_day k"
    using c1 c2 by (auto simp: civil_of_day_def Let_def split: prod.splits)
  note v1 = civil_of_day_valid [OF c1] days_in_le [of m1 y1] and v2 = civil_of_day_valid [OF c2] days_in_le [of m2 y2]
  show ?thesis
    using civil_of_day_less [OF assms(1) c1 c2] v1 v2 assms(2-5) unfolding y [symmetric]
    by (auto simp: date_text_def c1 c2 year_text_def fixed_less pad4_less pad4_eq pad2_less pad2_eq)
qed

lemma length_date_text: "0 \<le> year_of_day n \<Longrightarrow> year_of_day n \<le> 9999 \<Longrightarrow> length (date_text n) = 10"
  by (simp add: date_text_def civil_of_day_def year_text_def Let_def split: prod.splits)

lemma clock_text_less:
  assumes "0 \<le> s" "s < t" "t < 86400"
  shows "clock_text s < clock_text t"
proof -
  have h: "0 \<le> s div 3600" "s div 3600 < 100" "0 \<le> t div 3600" "t div 3600 < 100" using assms by auto
  have m: "0 \<le> s div 60 mod 60" "s div 60 mod 60 < 100" "0 \<le> t div 60 mod 60" "t div 60 mod 60 < 100"
    using pos_mod_bound [of 60 "s div 60"] pos_mod_bound [of 60 "t div 60"] by simp_all
  have c: "0 \<le> s mod 60" "s mod 60 < 100" "0 \<le> t mod 60" "t mod 60 < 100"
    using pos_mod_bound [of 60 s] pos_mod_bound [of 60 t] by simp_all
  have hm: "u div 3600 = u div 60 div 60" for u :: int by (simp add: zdiv_zmult2_eq [of 60 u 60, simplified])
  have "s div 3600 < t div 3600 \<or> (s div 3600 = t div 3600 \<and>
          (s div 60 mod 60 < t div 60 mod 60 \<or> (s div 60 mod 60 = t div 60 mod 60 \<and> s mod 60 < t mod 60)))"
    using radix_less [of 60 s t] radix_less [of 60 "s div 60" "t div 60"] assms(2)
    unfolding hm by (metis mult_div_mod_eq zero_less_numeral)
  then show ?thesis
    unfolding clock_text_def by (auto simp: fixed_less pad2_less [OF h] pad2_eq [OF h] pad2_less [OF m] pad2_eq [OF m] pad2_less [OF c])
qed

lemma FormatTime_less:
  assumes "storable s" "storable t" "s div 10 ^ 9 < t div 10 ^ 9"
  shows "FormatTime s < FormatTime t"
proof -
  let ?a = "s div 10 ^ 9" and ?b = "t div 10 ^ 9"
  note ys = storable_day [OF assms(1)] and yt = storable_day [OF assms(2)]
  have len: "length (date_text (?a div 86400 + epoch_day)) = length (date_text (?b div 86400 + epoch_day))"
    using ys yt by (simp only: length_date_text)
  from assms(3) radix_less [of 86400 ?a ?b]
  consider "?a div 86400 < ?b div 86400" | "?a div 86400 = ?b div 86400" "?a mod 86400 < ?b mod 86400"
    by (auto simp del: mod_less_divisor)
  then show ?thesis
  proof cases
    case 1
    then have "?a div 86400 + epoch_day < ?b div 86400 + epoch_day" by (rule add_strict_right_mono)
    then have "date_text (?a div 86400 + epoch_day) < date_text (?b div 86400 + epoch_day)"
      by (rule date_text_less [OF _ ys yt])
    then show ?thesis by (simp only: FormatTime_def Let_def fixed_less [OF len] simp_thms)
  next
    case 2
    have "clock_text (?a mod 86400) < clock_text (?b mod 86400)"
      by (rule clock_text_less) (use 2 in simp_all)
    moreover have "length (clock_text u) = length (clock_text v)" for u v by (simp add: clock_text_def)
    ultimately have "clock_text (?a mod 86400) @ ''Z'' < clock_text (?b mod 86400) @ ''Z''" by (simp add: fixed_less)
    then show ?thesis by (simp only: FormatTime_def Let_def 2(1) fixed_less [OF refl] less_list_code simp_thms)
  qed
qed


lemma FormatTime_floor: "FormatTime (t div 10 ^ 9 * 10 ^ 9) = FormatTime t"
  by (simp add: FormatTime_def)

lemma FormatTime_less_iff:
  assumes "storable s" "storable t"
  shows "FormatTime s < FormatTime t \<longleftrightarrow> s div 10 ^ 9 < t div 10 ^ 9"
proof -
  consider "s div 10 ^ 9 < t div 10 ^ 9" | "s div 10 ^ 9 = t div 10 ^ 9" | "t div 10 ^ 9 < s div 10 ^ 9" by linarith
  then show ?thesis
  proof cases
    case 1
    with FormatTime_less [OF assms] show ?thesis by simp
  next
    case 2
    then have "FormatTime s = FormatTime t" by (metis FormatTime_floor)
    with 2 show ?thesis by simp
  next
    case 3
    with FormatTime_less [OF assms(2,1)] show ?thesis by simp
  qed
qed

text \<open>
  Stored times sort as text: for instants whose year has four digits, one text is smaller than
  the other, byte by byte, exactly when its instant lies in an earlier second. (C35)
\<close>

theorem stored_time_order:
  assumes "storable s" "storable t"
  shows "FormatTime s < FormatTime t \<longleftrightarrow> s div 10 ^ 9 < t div 10 ^ 9"
  using assms by (rule FormatTime_less_iff)

theorem stored_time_order_witness:
  "FormatTime (1767258000 * 10 ^ 9) < FormatTime (1767261600 * 10 ^ 9)
   \<and> FormatTime (1767258000 * 10 ^ 9) = ''2026-01-01T09:00:00Z''"
  using stored_time_order [of "1767258000 * 10 ^ 9" "1767261600 * 10 ^ 9"]
  by (simp add: storable_def) code_simp

section \<open>Reading back\<close>

lemma is_digit_digit [simp]: "is_digit (digit n)"
  unfolding digit_def by (rule digit_char) (simp add: nat_less_iff)

lemma digit_value_digit [simp]: "digit_value (digit n) = n mod 10"
proof -
  have "nat (n mod 10) < 10" by (simp add: nat_less_iff)
  from digit_value_char [OF this] show ?thesis by (simp add: digit_def)
qed

lemma getnum_pad2 [simp]:
  assumes "0 \<le> n" "n < 100"
  shows "getnum fixed (pad2 n @ r) = Some (n, r)"
proof -
  from assms have "n div 10 mod 10 = n div 10" by (simp add: mod_pos_pos_trivial)
  then show ?thesis by (simp add: getnum_def pad2_def)
qed

lemma decimal_value_pad4:
  assumes "0 \<le> y" "y \<le> 9999"
  shows "decimal_value (pad4 y) = y"
proof -
  have "decimal_value (pad4 y) = 10 * (10 * (10 * (y div 100 div 10 mod 10) + y div 100 mod 10)
          + y mod 100 div 10 mod 10) + y mod 100 mod 10"
    by (simp add: decimal_value_def pad4_def pad2_def)
  also have "y div 100 div 10 mod 10 = y div 100 div 10" using assms by (simp add: mod_pos_pos_trivial)
  also have "y mod 100 div 10 mod 10 = y mod 100 div 10" by (simp add: mod_pos_pos_trivial)
  also have "10 * (10 * (10 * (y div 100 div 10) + y div 100 mod 10) + y mod 100 div 10) + y mod 100 mod 10
      = 100 * (10 * (y div 100 div 10) + y div 100 mod 10) + (10 * (y mod 100 div 10) + y mod 100 mod 10)"
    by simp
  also have "\<dots> = 100 * (y div 100) + y mod 100" by (simp only: mult_div_mod_eq)
  also have "\<dots> = y" by (rule mult_div_mod_eq)
  finally show ?thesis .
qed

lemma getyear_pad4 [simp]: "0 \<le> y \<Longrightarrow> y \<le> 9999 \<Longrightarrow> getyear (pad4 y @ r) = Some (y, r)"
  by (simp add: getyear_def decimal_value_pad4) (simp add: pad4_def pad2_def)

lemma parse_date_text:
  assumes "0 \<le> year_of_day n" "year_of_day n \<le> 9999"
  shows "parse_date (date_text n @ r) = Some (n, r)"
proof -
  obtain y m d where c: "civil_of_day n = (y, m, d)" by (cases "civil_of_day n")
  then have y: "y = year_of_day n" by (auto simp: civil_of_day_def Let_def split: prod.splits)
  note v = civil_of_day_valid [OF c] days_in_le [of m y]
  show ?thesis using v assms
    by (simp add: parse_date_def date_text_def c year_text_def y [symmetric] skip_def)
qed

lemma parse_clock_text:
  assumes "0 \<le> s" "s < 86400"
  shows "parse_clock (clock_text s @ ''Z'') = Some (s, 0, ''Z'')"
proof -
  have h: "0 \<le> s div 3600" "s div 3600 < 24" using assms by auto
  have m: "0 \<le> s div 60 mod 60" "s div 60 mod 60 < 60" by simp_all
  have c: "0 \<le> s mod 60" "s mod 60 < 60" by simp_all
  have ring: "3600 * x + 60 * y + z = 60 * (60 * x + y) + z" for x y z :: int by simp
  have e: "3600 * (s div 3600) + 60 * (s div 60 mod 60) + s mod 60 = s"
    unfolding zdiv_zmult2_eq [of 60 s 60, simplified] ring by (simp only: mult_div_mod_eq)
  have *: "parse_clock ((pad2 hh @ CHR '':'' # pad2 mm @ CHR '':'' # pad2 ss) @ ''Z'') = Some (3600 * hh + 60 * mm + ss, 0, ''Z'')"
    if "0 \<le> hh" "hh < 24" "0 \<le> mm" "mm < 60" "0 \<le> ss" "ss < 60" for hh mm ss
    using that by (simp add: parse_clock_def skip_def getfraction_def)
  from * [OF h m c] e show ?thesis by (simp only: clock_text_def)
qed

lemma ParseTime_FormatTime:
  assumes "storable t"
  shows "ParseTime (FormatTime t) = Some (t - t mod 10 ^ 9)"
proof -
  let ?a = "t div 10 ^ 9"
  note y = storable_day [OF assms]
  have "(?a div 86400 * 86400 + ?a mod 86400) * 10 ^ 9 = t - t mod 10 ^ 9"
    by (simp only: div_mult_mod_eq minus_mod_eq_div_mult)
  then show ?thesis
    by (simp only: ParseTime_def FormatTime_def Let_def append_assoc append_Cons parse_date_text [OF y]
        bind.bind_lunit skip_def prod.case list.case if_True refl) (simp add: parse_clock_text)
qed

text \<open>
  A stored time reads back: \<open>ParseTime\<close> of the text of an instant gives the instant truncated to
  its second, and \<open>ParseDate\<close> of the text of its day gives the start of the day.
\<close>

theorem stored_time_roundtrip:
  assumes "storable t"
  shows "ParseTime (FormatTime t) = Some (t - t mod 10 ^ 9)
         \<and> ParseDate (FormatDate t) = Some (t - t mod (86400 * 10 ^ 9))"
proof
  let ?a = "t div 10 ^ 9"
  note y = storable_day [OF assms]
  show "ParseTime (FormatTime t) = Some (t - t mod 10 ^ 9)" using assms by (rule ParseTime_FormatTime)
  have "?a div 86400 * 86400 * 10 ^ 9 = t - t mod (86400 * 10 ^ 9)"
    by (simp add: minus_mod_eq_div_mult div_mult2_eq [symmetric] flip: zdiv_zmult2_eq)
  then show "ParseDate (FormatDate t) = Some (t - t mod (86400 * 10 ^ 9))"
    using parse_date_text [OF y, of "[]"] by (simp add: ParseDate_def FormatDate_def)
qed

theorem stored_time_roundtrip_witness:
  "ParseTime (FormatTime 1767258000250000000) = Some 1767258000000000000"
  using stored_time_roundtrip [of 1767258000250000000] by (simp add: storable_def)

end
