(* ===== verification/Projects.thy ===== *)
theory Projects
  imports Trail Timestamp
begin

text \<open>
  Projects and who may write what: the project and link constructors of internal/domain/project.go
  and the store operations of internal/store/projects.go and user_projects.go, on the tables they
  touch with the constraints of the migrations. Each operation runs in one transaction, writes its
  entries of the audit trail and either returns the new state or leaves the old one.
\<close>

section \<open>Rows\<close>

record project =
  pr_ID :: string
  pr_Code :: string
  pr_Name :: string
  pr_Description :: "string option"
  pr_TeamID :: "string option"
  pr_PricedForVCPU :: "int option"
  pr_PricedForMemoryMB :: "int option"
  pr_Lifecycle :: string
  pr_CreatedAt :: string
  pr_UpdatedAt :: string
  pr_RowVersion :: int

definition IsRetired :: "project \<Rightarrow> bool" where
  "IsRetired p \<longleftrightarrow> pr_Lifecycle p = LifecycleRetired"

definition ProjectOwns :: string where "ProjectOwns = ''owns''"
definition ProjectUses :: string where "ProjectUses = ''uses''"

definition ProjectRelations :: "string list" where
  "ProjectRelations = [ProjectOwns, ProjectUses]"

definition ProjectLifecycles :: "string list" where
  "ProjectLifecycles = [LifecyclePlanned, LifecycleActive, LifecycleDeprecated, LifecycleRetired]"

text \<open>
  \<open>ProjectAssetLink\<close>, \<open>ProjectServiceLink\<close> and \<open>ProjectCircuitLink\<close> have the same fields but for the
  name of the linked entity's column; the three tables are told apart by \<open>linkTable\<close>.
\<close>

datatype linkTable = ProjectAsset | ProjectService | ProjectCircuit

record projectLink =
  ln_ProjectID :: string
  ln_EntityID :: string
  ln_Relation :: string
  ln_Note :: "string option"
  ln_Lifecycle :: string
  ln_CreatedAt :: string
  ln_UpdatedAt :: string

fun table_name :: "linkTable \<Rightarrow> string" where
  "table_name ProjectAsset = ''project_asset''"
| "table_name ProjectService = ''project_service''"
| "table_name ProjectCircuit = ''project_circuit''"

fun column_name :: "linkTable \<Rightarrow> string" where
  "column_name ProjectAsset = ''asset_id''"
| "column_name ProjectService = ''service_id''"
| "column_name ProjectCircuit = ''circuit_id''"

fun struct_name :: "linkTable \<Rightarrow> string" where
  "struct_name ProjectAsset = ''ProjectAssetLink''"
| "struct_name ProjectService = ''ProjectServiceLink''"
| "struct_name ProjectCircuit = ''ProjectCircuitLink''"

text \<open>The table the column references.\<close>

fun linked_type :: "linkTable \<Rightarrow> string" where
  "linked_type ProjectAsset = ''asset''"
| "linked_type ProjectService = ''service''"
| "linked_type ProjectCircuit = ''circuit''"

record userProjectRow =
  up_ID :: string
  up_UserID :: string
  up_ProjectID :: string
  up_Lifecycle :: string
  up_CreatedAt :: string
  up_UpdatedAt :: string
  up_RowVersion :: int

section \<open>Constructors\<close>

record projectSpec =
  ps_Code :: string
  ps_Name :: string
  ps_Description :: "string option"
  ps_TeamID :: "string option"
  ps_Lifecycle :: string
  ps_PricedForVCPU :: "int option"
  ps_PricedForMemoryMB :: "int option"

definition checkPositive :: "string \<Rightarrow> int option \<Rightarrow> fieldError list" where
  "checkPositive field v =
     (case v of None \<Rightarrow> []
      | Some n \<Rightarrow>
          if n \<le> 0 then [(field, ''must be greater than zero, or left empty if nobody has measured it'')]
          else [])"

definition blankToNil :: "string option \<Rightarrow> string option" where
  "blankToNil v =
     (case v of None \<Rightarrow> None | Some s \<Rightarrow> if trim_space s = [] then None else Some (trim_space s))"

definition NewProject :: "string \<Rightarrow> projectSpec \<Rightarrow> int \<Rightarrow> project result" where
  "NewProject pid spec now =
     (let code = to_lower (trim_space (ps_Code spec));
          lifecycle = (if trim_space (ps_Lifecycle spec) = [] then LifecycleActive else trim_space (ps_Lifecycle spec)) in
      validated
        (checkRequired ''code'' code @ checkRequired ''name'' (ps_Name spec)
         @ checkEnum ''lifecycle'' lifecycle ProjectLifecycles
         @ checkPositive ''priced_for_vcpu'' (ps_PricedForVCPU spec)
         @ checkPositive ''priced_for_memory_mb'' (ps_PricedForMemoryMB spec))
        \<lparr>pr_ID = pid, pr_Code = trim_space code, pr_Name = trim_space (ps_Name spec),
         pr_Description = ps_Description spec, pr_TeamID = blankToNil (ps_TeamID spec),
         pr_PricedForVCPU = ps_PricedForVCPU spec, pr_PricedForMemoryMB = ps_PricedForMemoryMB spec,
         pr_Lifecycle = lifecycle, pr_CreatedAt = FormatTime now, pr_UpdatedAt = FormatTime now,
         pr_RowVersion = 0\<rparr>)"

text \<open>The normalised relation and the errors of its check.\<close>

definition checkRelation :: "string \<Rightarrow> string \<times> fieldError list" where
  "checkRelation r =
     (let relation = to_lower (trim_space r) in
      (relation, if relation = [] then [(''relation'', ''is required'')]
                 else checkEnum ''relation'' relation ProjectRelations))"

definition NewProjectLink ::
  "linkTable \<Rightarrow> string \<Rightarrow> string \<Rightarrow> string \<Rightarrow> string option \<Rightarrow> int \<Rightarrow> projectLink result" where
  "NewProjectLink table projectID entityID relation note now =
     validated
       (checkRequired ''project_id'' projectID @ checkRequired (column_name table) entityID
        @ snd (checkRelation relation))
       \<lparr>ln_ProjectID = projectID, ln_EntityID = entityID, ln_Relation = fst (checkRelation relation),
        ln_Note = note, ln_Lifecycle = LifecycleActive, ln_CreatedAt = FormatTime now,
        ln_UpdatedAt = FormatTime now\<rparr>"

section \<open>The tables\<close>

record searchDoc =
  sd_EntityType :: string
  sd_EntityID :: string
  sd_Title :: string
  sd_Subtitle :: string
  sd_Body :: string

text \<open>
  \<open>es_entities\<close>, \<open>es_teams\<close> and \<open>es_users\<close> are the ids of the rows that foreign keys refer to;
  \<open>es_tags\<close> are the tag ids of a project in \<open>entity_tag\<close>.
\<close>

record estate =
  es_projects :: "project list"
  es_links :: "linkTable \<Rightarrow> projectLink list"
  es_assignments :: "userProjectRow list"
  es_entities :: "linkTable \<Rightarrow> string list"
  es_teams :: "string list"
  es_users :: "string list"
  es_tags :: "string \<Rightarrow> string list"
  es_index :: "searchDoc list"
  es_log :: "changeLog list"

definition get_project :: "estate \<Rightarrow> string \<Rightarrow> project option" where
  "get_project e pid = find (\<lambda>q. pr_ID q = pid) (es_projects e)"

definition same_link :: "string \<Rightarrow> string \<Rightarrow> projectLink \<Rightarrow> bool" where
  "same_link pid i l \<longleftrightarrow> ln_ProjectID l = pid \<and> ln_EntityID l = i"

definition get_link :: "estate \<Rightarrow> linkTable \<Rightarrow> string \<Rightarrow> string \<Rightarrow> projectLink option" where
  "get_link e table pid i = find (same_link pid i) (es_links e table)"

definition active_owner :: "projectLink \<Rightarrow> bool" where
  "active_owner l \<longleftrightarrow> ln_Relation l = ProjectOwns \<and> ln_Lifecycle l = LifecycleActive"

definition logging :: "(changeLog list \<Rightarrow> changeLog list result) \<Rightarrow> estate \<Rightarrow> estate result" where
  "logging f e = bind_result (f (es_log e)) (\<lambda>rows. Inr (e\<lparr>es_log := rows\<rparr>))"

definition indexEntity :: "searchDoc \<Rightarrow> estate \<Rightarrow> estate" where
  "indexEntity doc e =
     e\<lparr>es_index := filter (\<lambda>d. \<not> (sd_EntityType d = sd_EntityType doc \<and> sd_EntityID d = sd_EntityID doc))
         (es_index e) @ [doc]\<rparr>"

section \<open>Audited values\<close>

definition project_columns :: "project \<Rightarrow> (string \<times> column_value) list" where
  "project_columns p =
     [(''id'', VText (pr_ID p)), (''code'', VText (pr_Code p)), (''name'', VText (pr_Name p)),
      (''description'', opt_text (pr_Description p)), (''team_id'', opt_text (pr_TeamID p)),
      (''priced_for_vcpu'', opt_int (pr_PricedForVCPU p)),
      (''priced_for_memory_mb'', opt_int (pr_PricedForMemoryMB p)),
      (''lifecycle'', VText (pr_Lifecycle p)), (''created_at'', VText (pr_CreatedAt p)),
      (''updated_at'', VText (pr_UpdatedAt p)), (''row_version'', VInt (pr_RowVersion p))]"

definition project_row :: "project \<Rightarrow> audited" where
  "project_row p =
     \<lparr>au_type = ''Project'', au_fields = map (\<lambda>(tag, v). (''Project'', tag, v)) (project_columns p)\<rparr>"

definition auditedProject :: "project \<Rightarrow> string \<Rightarrow> audited" where
  "auditedProject p tags =
     \<lparr>au_type = ''projectAudit'',
      au_fields = map (\<lambda>(tag, v). (''Project'', tag, v)) (project_columns p) @ [(''projectAudit'', ''tags'', VText tags)]\<rparr>"

definition link_row :: "linkTable \<Rightarrow> projectLink \<Rightarrow> audited" where
  "link_row table l =
     \<lparr>au_type = struct_name table,
      au_fields = map (\<lambda>(tag, v). (struct_name table, tag, v))
        [(''project_id'', VText (ln_ProjectID l)), (column_name table, VText (ln_EntityID l)),
         (''relation'', VText (ln_Relation l)), (''note'', opt_text (ln_Note l)),
         (''lifecycle'', VText (ln_Lifecycle l)), (''created_at'', VText (ln_CreatedAt l)),
         (''updated_at'', VText (ln_UpdatedAt l))]\<rparr>"

definition assignment_row :: "userProjectRow \<Rightarrow> audited" where
  "assignment_row r =
     \<lparr>au_type = ''userProjectRow'',
      au_fields = map (\<lambda>(tag, v). (''userProjectRow'', tag, v))
        [(''id'', VText (up_ID r)), (''user_id'', VText (up_UserID r)),
         (''project_id'', VText (up_ProjectID r)), (''lifecycle'', VText (up_Lifecycle r)),
         (''created_at'', VText (up_CreatedAt r)), (''updated_at'', VText (up_UpdatedAt r)),
         (''row_version'', VInt (up_RowVersion r))]\<rparr>"

text \<open>The tag ids of a project, sorted and joined.\<close>

definition foldEntityTags :: "string list \<Rightarrow> string" where
  "foldEntityTags ids = join '','' (sort ids)"

definition entityTagsAudit :: "estate \<Rightarrow> string \<Rightarrow> string" where
  "entityTagsAudit e pid = foldEntityTags (es_tags e pid)"

section \<open>Statements\<close>

text \<open>
  The constraints of the migrations: a CHECK or a foreign key that fails is \<open>ErrInvalid\<close>, a unique
  index is \<open>ErrConflict\<close>, as \<open>translateWriteErr\<close> reports them.
\<close>

definition project_checks :: "project \<Rightarrow> bool" where
  "project_checks p \<longleftrightarrow>
     pr_Code p \<noteq> [] \<and> pr_Name p \<noteq> [] \<and> oneOf (pr_Lifecycle p) ProjectLifecycles
     \<and> (case pr_PricedForVCPU p of None \<Rightarrow> True | Some n \<Rightarrow> 0 < n)
     \<and> (case pr_PricedForMemoryMB p of None \<Rightarrow> True | Some n \<Rightarrow> 0 < n)"

definition team_known :: "estate \<Rightarrow> project \<Rightarrow> bool" where
  "team_known e p \<longleftrightarrow> (case pr_TeamID p of None \<Rightarrow> True | Some tm \<Rightarrow> List.member (es_teams e) tm)"

definition insert_project :: "project \<Rightarrow> estate \<Rightarrow> estate result" where
  "insert_project p e =
     bind_result (require (project_checks p) (ErrInvalid [])) (\<lambda>_.
     bind_result (require (list_all (\<lambda>q. pr_ID q \<noteq> pr_ID p \<and> pr_Code q \<noteq> pr_Code p) (es_projects e)) ErrConflict) (\<lambda>_.
     bind_result (require (team_known e p) (ErrInvalid [])) (\<lambda>_.
       Inr (e\<lparr>es_projects := es_projects e @ [p]\<rparr>))))"

text \<open>The columns the UPDATE sets; the row keeps its id and its creation time.\<close>

definition update_project :: "project \<Rightarrow> estate \<Rightarrow> estate result" where
  "update_project p e =
     bind_result (require (project_checks p) (ErrInvalid [])) (\<lambda>_.
     bind_result (require (list_all (\<lambda>q. pr_ID q \<noteq> pr_ID p \<longrightarrow> pr_Code q \<noteq> pr_Code p) (es_projects e)) ErrConflict) (\<lambda>_.
     bind_result (require (team_known e p) (ErrInvalid [])) (\<lambda>_.
       Inr (e\<lparr>es_projects := update_where (\<lambda>q. pr_ID q = pr_ID p)
              (\<lambda>q. p\<lparr>pr_CreatedAt := pr_CreatedAt q, pr_RowVersion := pr_RowVersion q + 1\<rparr>) (es_projects e)\<rparr>))))"

definition link_checks :: "projectLink \<Rightarrow> bool" where
  "link_checks l \<longleftrightarrow> oneOf (ln_Relation l) ProjectRelations \<and> oneOf (ln_Lifecycle l) [LifecycleActive, LifecycleRetired]"

text \<open>\<open>INSERT ... ON CONFLICT DO UPDATE\<close>: an existing row keeps its creation time.\<close>

definition upsert_link :: "linkTable \<Rightarrow> projectLink \<Rightarrow> estate \<Rightarrow> estate result" where
  "upsert_link table l e =
     (let rows = es_links e table; mine = same_link (ln_ProjectID l) (ln_EntityID l) in
      bind_result (require (link_checks l) (ErrInvalid [])) (\<lambda>_.
      bind_result (require (active_owner l \<longrightarrow>
          list_all (\<lambda>r. mine r \<or> ln_EntityID r \<noteq> ln_EntityID l \<or> \<not> active_owner r) rows) ErrConflict) (\<lambda>_.
      bind_result (require (get_project e (ln_ProjectID l) \<noteq> None \<and> List.member (es_entities e table) (ln_EntityID l))
          (ErrInvalid [])) (\<lambda>_.
        Inr (e\<lparr>es_links := (es_links e)(table :=
               if list_ex mine rows then update_where mine (\<lambda>r. l\<lparr>ln_CreatedAt := ln_CreatedAt r\<rparr>) rows
               else rows @ [l])\<rparr>)))))"

definition retire_links :: "linkTable \<Rightarrow> (projectLink \<Rightarrow> bool) \<Rightarrow> string \<Rightarrow> estate \<Rightarrow> estate" where
  "retire_links table P now e =
     e\<lparr>es_links := (es_links e)(table :=
         update_where P (\<lambda>l. l\<lparr>ln_Lifecycle := LifecycleRetired, ln_UpdatedAt := now\<rparr>) (es_links e table))\<rparr>"

section \<open>Operations on projects\<close>

definition project_doc :: "project \<Rightarrow> searchDoc" where
  "project_doc p =
     \<lparr>sd_EntityType = ''project'', sd_EntityID = pr_ID p, sd_Title = pr_Name p, sd_Subtitle = pr_Code p, sd_Body = []\<rparr>"

definition CreateProject :: "permit option \<Rightarrow> string \<Rightarrow> project \<Rightarrow> estate \<Rightarrow> estate result" where
  "CreateProject permit at p0 =
     (let p = p0\<lparr>pr_RowVersion := 1\<rparr> in
      writeTx permit at (\<lambda>t e.
        bind_result (insert_project p e) (\<lambda>e1.
        bind_result (logging (logCreate t ''project'' (pr_ID p) (auditedProject p [])) e1) (\<lambda>e2.
          Inr (indexEntity (project_doc p) e2)))))"

text \<open>A version that moved makes the UPDATE touch no row.\<close>

definition UpdateProject :: "permit option \<Rightarrow> string \<Rightarrow> project \<Rightarrow> estate \<Rightarrow> estate result" where
  "UpdateProject permit at p0 =
     writeTx permit at (\<lambda>t e.
       case get_project e (pr_ID p0) of
         None \<Rightarrow> Inl ErrNotFound
       | Some before \<Rightarrow>
           let p = p0\<lparr>pr_CreatedAt := pr_CreatedAt before\<rparr>; tags = entityTagsAudit e (pr_ID p) in
           if pr_RowVersion before \<noteq> pr_RowVersion p then Inl ErrStale
           else
             bind_result (update_project p e) (\<lambda>e1.
             bind_result (logging (logUpdate t ''project'' (pr_ID p) (auditedProject before tags) (auditedProject p tags)) e1) (\<lambda>e2.
               Inr (indexEntity (project_doc p) e2))))"

definition link_id :: "string \<Rightarrow> string \<Rightarrow> string" where
  "link_id pid i = pid @ CHR ''/'' # i"

definition released_diff :: diff where
  "released_diff = Literal ''{\"lifecycle\":[\"active\",\"retired\"],\"reason\":[\"\",\"project retired\"]}''"

definition retired_diff :: diff where
  "retired_diff = Literal ''{\"lifecycle\":[\"active\",\"retired\"]}''"

definition active_link_of :: "string \<Rightarrow> projectLink \<Rightarrow> bool" where
  "active_link_of pid l \<longleftrightarrow> ln_ProjectID l = pid \<and> ln_Lifecycle l = LifecycleActive"

fun log_released :: "txn \<Rightarrow> linkTable \<Rightarrow> string \<Rightarrow> string list \<Rightarrow> changeLog list \<Rightarrow> changeLog list result" where
  "log_released t table pid [] rows = Inr rows"
| "log_released t table pid (i # ids) rows =
     bind_result (tx_log t (table_name table) (link_id pid i) ''retire'' released_diff [] rows)
       (log_released t table pid ids)"

definition releaseLinks :: "txn \<Rightarrow> linkTable \<Rightarrow> string \<Rightarrow> string \<Rightarrow> estate \<Rightarrow> estate result" where
  "releaseLinks t table pid now e =
     (let ids = sort (map ln_EntityID (filter (active_link_of pid) (es_links e table))) in
      if ids = [] then Inr e
      else logging (log_released t table pid ids) (retire_links table (active_link_of pid) now e))"

definition RetireProject :: "permit option \<Rightarrow> string \<Rightarrow> string \<Rightarrow> string \<Rightarrow> estate \<Rightarrow> estate result" where
  "RetireProject permit at now pid =
     writeTx permit at (\<lambda>t e.
       case get_project e pid of
         None \<Rightarrow> Inl ErrNotFound
       | Some before \<Rightarrow>
           if IsRetired before then Inr e
           else
             let e1 = e\<lparr>es_projects := update_where (\<lambda>q. pr_ID q = pid)
                    (\<lambda>q. q\<lparr>pr_Lifecycle := LifecycleRetired, pr_UpdatedAt := now, pr_RowVersion := pr_RowVersion q + 1\<rparr>)
                    (es_projects e)\<rparr>;
                 after = before\<lparr>pr_Lifecycle := LifecycleRetired, pr_UpdatedAt := now\<rparr> in
             bind_result (logging (logUpdate t ''project'' pid (project_row before) (project_row after)) e1) (\<lambda>e2.
             bind_result (releaseLinks t ProjectAsset pid now e2) (releaseLinks t ProjectService pid now)))"

section \<open>Operations on links\<close>

text \<open>The query finds another project's active \<open>owns\<close> link whose project exists.\<close>

definition checkOwnerFree :: "estate \<Rightarrow> linkTable \<Rightarrow> string \<Rightarrow> string \<Rightarrow> unit result" where
  "checkOwnerFree e table entityID projectID =
     require (\<not> list_ex (\<lambda>l. ln_EntityID l = entityID \<and> active_owner l \<and> ln_ProjectID l \<noteq> projectID
                \<and> get_project e (ln_ProjectID l) \<noteq> None) (es_links e table)) ErrConflict"

definition LinkProject :: "linkTable \<Rightarrow> permit option \<Rightarrow> string \<Rightarrow> projectLink \<Rightarrow> estate \<Rightarrow> estate result" where
  "LinkProject table permit at l =
     writeTx permit at (\<lambda>t e.
       bind_result (if ln_Relation l = ProjectOwns then checkOwnerFree e table (ln_EntityID l) (ln_ProjectID l) else Inr ()) (\<lambda>_.
       bind_result (upsert_link table l e) (\<lambda>e1.
         let lid = link_id (ln_ProjectID l) (ln_EntityID l) in
         case get_link e table (ln_ProjectID l) (ln_EntityID l) of
           Some before \<Rightarrow> logging (logUpdate t (table_name table) lid (link_row table before) (link_row table l)) e1
         | None \<Rightarrow> logging (logCreate t (table_name table) lid (link_row table l)) e1)))"

definition LinkProjectAsset :: "permit option \<Rightarrow> string \<Rightarrow> projectLink \<Rightarrow> estate \<Rightarrow> estate result" where
  "LinkProjectAsset = LinkProject ProjectAsset"

definition LinkProjectService :: "permit option \<Rightarrow> string \<Rightarrow> projectLink \<Rightarrow> estate \<Rightarrow> estate result" where
  "LinkProjectService = LinkProject ProjectService"

definition LinkProjectCircuit :: "permit option \<Rightarrow> string \<Rightarrow> projectLink \<Rightarrow> estate \<Rightarrow> estate result" where
  "LinkProjectCircuit = LinkProject ProjectCircuit"

definition retireLink :: "permit option \<Rightarrow> string \<Rightarrow> string \<Rightarrow> linkTable \<Rightarrow> string \<Rightarrow> string \<Rightarrow> estate \<Rightarrow> estate result" where
  "retireLink permit at now table projectID entityID =
     writeTx permit at (\<lambda>t e.
       case get_link e table projectID entityID of
         None \<Rightarrow> Inl ErrNotFound
       | Some l \<Rightarrow>
           if ln_Lifecycle l = LifecycleRetired then Inr e
           else
             logging (tx_log t (table_name table) (link_id projectID entityID) ''retire'' retired_diff [])
               (retire_links table (same_link projectID entityID) now e))"

section \<open>Assignments\<close>

definition held_by :: "string \<Rightarrow> string \<Rightarrow> userProjectRow \<Rightarrow> bool" where
  "held_by userID projectID r \<longleftrightarrow>
     up_UserID r = userID \<and> up_ProjectID r = projectID \<and> up_Lifecycle r = LifecycleActive"

definition insert_assignment :: "userProjectRow \<Rightarrow> estate \<Rightarrow> estate result" where
  "insert_assignment r e =
     bind_result (require (list_all (\<lambda>q. up_ID q \<noteq> up_ID r \<and> \<not> held_by (up_UserID r) (up_ProjectID r) q)
         (es_assignments e)) ErrConflict) (\<lambda>_.
     bind_result (require (List.member (es_users e) (up_UserID r) \<and> get_project e (up_ProjectID r) \<noteq> None)
         (ErrInvalid [])) (\<lambda>_.
       Inr (e\<lparr>es_assignments := es_assignments e @ [r]\<rparr>)))"

text \<open>\<open>newID\<close> is the id that \<open>NewID\<close> generates.\<close>

definition AssignProject ::
  "permit option \<Rightarrow> string \<Rightarrow> string \<Rightarrow> string \<Rightarrow> string \<Rightarrow> string \<Rightarrow> estate \<Rightarrow> estate result" where
  "AssignProject permit at now newID userID projectID =
     writeTx permit at (\<lambda>t e.
       if list_ex (held_by userID projectID) (es_assignments e) then Inr e
       else
         let row = \<lparr>up_ID = newID, up_UserID = userID, up_ProjectID = projectID, up_Lifecycle = LifecycleActive,
                    up_CreatedAt = now, up_UpdatedAt = now, up_RowVersion = 1\<rparr> in
         bind_result (insert_assignment row e)
           (logging (logCreate t ''user_project'' (link_id userID projectID) (assignment_row row))))"

definition ReleaseProject ::
  "permit option \<Rightarrow> string \<Rightarrow> string \<Rightarrow> string \<Rightarrow> string \<Rightarrow> estate \<Rightarrow> estate result" where
  "ReleaseProject permit at now userID projectID =
     writeTx permit at (\<lambda>t e.
       case find (held_by userID projectID) (es_assignments e) of
         None \<Rightarrow> Inr e
       | Some r \<Rightarrow>
           logging (tx_log t ''user_project'' (link_id userID projectID) ''retire'' retired_diff [])
             (e\<lparr>es_assignments := update_where (\<lambda>q. up_ID q = up_ID r)
                 (\<lambda>q. q\<lparr>up_Lifecycle := LifecycleRetired, up_UpdatedAt := now, up_RowVersion := up_RowVersion q + 1\<rparr>)
                 (es_assignments e)\<rparr>))"

section \<open>Queries for permits\<close>

definition live_project :: "estate \<Rightarrow> string \<Rightarrow> bool" where
  "live_project e pid \<longleftrightarrow> list_ex (\<lambda>p. pr_ID p = pid \<and> \<not> IsRetired p) (es_projects e)"

definition projects_for_user :: "estate \<Rightarrow> string \<Rightarrow> string list" where
  "projects_for_user e userID =
     sort (map up_ProjectID (filter (\<lambda>r. up_UserID r = userID \<and> up_Lifecycle r = LifecycleActive
        \<and> live_project e (up_ProjectID r)) (es_assignments e)))"

definition idChunkSize :: nat where "idChunkSize = 500"

fun chunks :: "nat \<Rightarrow> 'a list \<Rightarrow> 'a list list" where
  "chunks n xs = (if n = 0 \<or> xs = [] then [] else take n xs # chunks n (drop n xs))"

declare chunks.simps [simp del]

definition chunkIDs :: "string list \<Rightarrow> string list list" where
  "chunkIDs ids = (if length ids \<le> idChunkSize then [ids] else chunks idChunkSize ids)"

text \<open>One query per chunk; an id already collected is skipped.\<close>

definition linked_ids :: "estate \<Rightarrow> linkTable \<Rightarrow> string list \<Rightarrow> string list" where
  "linked_ids e table chunk =
     remdups (map ln_EntityID (filter (\<lambda>l. List.member chunk (ln_ProjectID l) \<and> ln_Lifecycle l = LifecycleActive
        \<and> live_project e (ln_ProjectID l)) (es_links e table)))"

definition entityIDsForProjects :: "estate \<Rightarrow> linkTable \<Rightarrow> string list \<Rightarrow> string list" where
  "entityIDsForProjects e table projectIDs =
     (if projectIDs = [] then []
      else fold (\<lambda>chunk out. fold (\<lambda>i out. if List.member out i then out else out @ [i]) (linked_ids e table chunk) out)
             (chunkIDs projectIDs) [])"

definition store_resolver :: "estate \<Rightarrow> projectResolver" where
  "store_resolver e =
     \<lparr>ProjectsForUser = (\<lambda>u. Inr (projects_for_user e u)),
      AssetIDsForProjects = (\<lambda>ps. Inr (entityIDsForProjects e ProjectAsset ps)),
      ServiceIDsForProjects = (\<lambda>ps. Inr (entityIDsForProjects e ProjectService ps)),
      CircuitIDsForProjects = (\<lambda>ps. Inr (entityIDsForProjects e ProjectCircuit ps))\<rparr>"

section \<open>Vocabulary of the properties\<close>

text \<open>An active assignment to a live project, and an active link to a live project.\<close>

definition holds :: "estate \<Rightarrow> string \<Rightarrow> string \<Rightarrow> bool" where
  "holds e userID q \<longleftrightarrow> list_ex (held_by userID q) (es_assignments e) \<and> live_project e q"

definition linked :: "estate \<Rightarrow> linkTable \<Rightarrow> string \<Rightarrow> string \<Rightarrow> bool" where
  "linked e tb q i \<longleftrightarrow>
     list_ex (\<lambda>l. same_link q i l \<and> ln_Lifecycle l = LifecycleActive) (es_links e tb) \<and> live_project e q"

text \<open>The operations that write, and how they run.\<close>

datatype project_op =
  OpCreate project
| OpUpdate project
| OpRetire string string
| OpLink linkTable projectLink
| OpRetireLink string linkTable string string
| OpAssign string string string string
| OpRelease string string string

fun run_op :: "permit option \<Rightarrow> string \<Rightarrow> project_op \<Rightarrow> estate \<Rightarrow> estate result" where
  "run_op p at (OpCreate r) = CreateProject p at r"
| "run_op p at (OpUpdate r) = UpdateProject p at r"
| "run_op p at (OpRetire now pid) = RetireProject p at now pid"
| "run_op p at (OpLink tb l) = LinkProject tb p at l"
| "run_op p at (OpRetireLink now tb pid i) = retireLink p at now tb pid i"
| "run_op p at (OpAssign now newID u pid) = AssignProject p at now newID u pid"
| "run_op p at (OpRelease now u pid) = ReleaseProject p at now u pid"

text \<open>
  The rows an operation may change, their audited columns, and the type and id under which the
  trail records them.
\<close>

datatype row_ref = LinkRow linkTable string string | ProjectRow string | AssignmentRow string string

fun row_value :: "estate \<Rightarrow> row_ref \<Rightarrow> (column_value \<times> string) gomap option" where
  "row_value e (LinkRow tb q i) = map_option (\<lambda>l. auditFields (au_fields (link_row tb l))) (get_link e tb q i)"
| "row_value e (ProjectRow q) = map_option (\<lambda>p. auditFields (au_fields (project_row p))) (get_project e q)"
| "row_value e (AssignmentRow u q) =
     map_option (\<lambda>r. auditFields (au_fields (assignment_row r))) (find (held_by u q) (es_assignments e))"

fun row_type :: "row_ref \<Rightarrow> string" where
  "row_type (LinkRow tb q i) = table_name tb"
| "row_type (ProjectRow q) = ''project''"
| "row_type (AssignmentRow u q) = ''user_project''"

fun row_id :: "row_ref \<Rightarrow> string" where
  "row_id (LinkRow tb q i) = link_id q i"
| "row_id (ProjectRow q) = q"
| "row_id (AssignmentRow u q) = link_id u q"

definition authorised_entry :: "permit option \<Rightarrow> string \<Rightarrow> changeLog \<Rightarrow> bool" where
  "authorised_entry p at r \<longleftrightarrow>
     (case p of None \<Rightarrow> False
      | Some q \<Rightarrow> Covers q (cl_EntityType r) (cl_EntityID r) \<and> cl_Actor r = act_ID (permit_Actor q)
                \<and> cl_ActorKind r = act_Kind (permit_Actor q) \<and> cl_At r = at)"

text \<open>The constraints of the tables.\<close>

definition one_owner :: "projectLink list \<Rightarrow> bool" where
  "one_owner rows \<longleftrightarrow>
     (\<forall>l \<in> set rows. \<forall>m \<in> set rows.
        active_owner l \<and> active_owner m \<and> ln_EntityID l = ln_EntityID m \<longrightarrow> ln_ProjectID l = ln_ProjectID m)"

definition one_assignment :: "userProjectRow list \<Rightarrow> bool" where
  "one_assignment rows \<longleftrightarrow>
     (\<forall>r \<in> set rows. \<forall>s \<in> set rows.
        held_by (up_UserID r) (up_ProjectID r) r \<and> held_by (up_UserID r) (up_ProjectID r) s \<longrightarrow> up_ID r = up_ID s)"

definition links_ok :: "estate \<Rightarrow> linkTable \<Rightarrow> bool" where
  "links_ok e tb \<longleftrightarrow>
     distinct (map (\<lambda>l. (ln_ProjectID l, ln_EntityID l)) (es_links e tb))
     \<and> one_owner (es_links e tb)
     \<and> (\<forall>l \<in> set (es_links e tb). link_checks l)
     \<and> ln_ProjectID ` set (es_links e tb) \<subseteq> pr_ID ` set (es_projects e)
     \<and> ln_EntityID ` set (es_links e tb) \<subseteq> set (es_entities e tb)"

definition assignments_ok :: "estate \<Rightarrow> bool" where
  "assignments_ok e \<longleftrightarrow>
     distinct (map up_ID (es_assignments e))
     \<and> one_assignment (es_assignments e)
     \<and> up_UserID ` set (es_assignments e) \<subseteq> set (es_users e)
     \<and> up_ProjectID ` set (es_assignments e) \<subseteq> pr_ID ` set (es_projects e)"

definition wf_estate :: "estate \<Rightarrow> bool" where
  "wf_estate e \<longleftrightarrow>
     distinct (map pr_ID (es_projects e)) \<and> distinct (map pr_Code (es_projects e))
     \<and> (\<forall>p \<in> set (es_projects e). project_checks p) \<and> (\<forall>tb. links_ok e tb) \<and> assignments_ok e"

text \<open>One successful operation of any caller.\<close>

inductive project_step :: "estate \<Rightarrow> estate \<Rightarrow> bool" where
  step: "run_op p at op e = Inr e' \<Longrightarrow> project_step e e'"

text \<open>
  One successful operation of a project owner among \<open>us\<close>, under the permit minted for the request
  in the current state.
\<close>

inductive owner_step :: "string list \<Rightarrow> string set \<Rightarrow> estate \<Rightarrow> estate \<Rightarrow> bool" for admins us where
  owner: "usr_ID u \<in> us \<Longrightarrow> \<not> isAdministrator (NewAuthorizer admins (store_resolver e)) u \<Longrightarrow>
     mintPermit (NewAuthorizer admins (store_resolver e)) (Some u) = Inr p \<Longrightarrow>
     run_op (Some p) at op e = Inr e' \<Longrightarrow> owner_step admins us e e'"

inductive_cases owner_stepE: "owner_step admins us e e'"
inductive_cases project_stepE: "project_step e e'"

text \<open>The entities that some user among \<open>us\<close> may write as the owner of a project.\<close>

definition owner_scope :: "estate \<Rightarrow> string set \<Rightarrow> (linkTable \<times> string) set" where
  "owner_scope e us = {(tb, i). \<exists>u \<in> us. \<exists>q. holds e u q \<and> linked e tb q i}"

text \<open>What every operation must show: the trail grows by authorised entries and names every row that changed.\<close>

definition recorded :: "permit option \<Rightarrow> string \<Rightarrow> estate \<Rightarrow> estate \<Rightarrow> bool" where
  "recorded p at e e' \<longleftrightarrow>
     (\<exists>new. es_log e' = es_log e @ new \<and> (\<forall>r \<in> set new. authorised_entry p at r)
        \<and> (\<forall>x. row_value e x \<noteq> row_value e' x \<longrightarrow>
             (\<exists>r \<in> set new. cl_EntityType r = row_type x \<and> cl_EntityID r = row_id x)))"

text \<open>An estate with one project that owns a circuit and one owner, for the witnesses.\<close>

definition demo_estate :: estate where
  "demo_estate =
     \<lparr>es_projects = [\<lparr>pr_ID = ''p1'', pr_Code = ''orders'', pr_Name = ''Orders'', pr_Description = None, pr_TeamID = None,
                      pr_PricedForVCPU = None, pr_PricedForMemoryMB = None, pr_Lifecycle = ''active'',
                      pr_CreatedAt = ''2026-01-01T09:00:00Z'', pr_UpdatedAt = ''2026-01-01T09:00:00Z'', pr_RowVersion = 1\<rparr>],
      es_links = (\<lambda>_. [])(ProjectCircuit := [\<lparr>ln_ProjectID = ''p1'', ln_EntityID = ''c1'', ln_Relation = ''owns'', ln_Note = None,
                    ln_Lifecycle = ''active'', ln_CreatedAt = ''2026-01-01T09:00:00Z'', ln_UpdatedAt = ''2026-01-01T09:00:00Z''\<rparr>]),
      es_assignments = [\<lparr>up_ID = ''r1'', up_UserID = ''u1'', up_ProjectID = ''p1'', up_Lifecycle = ''active'',
                         up_CreatedAt = ''2026-01-01T09:00:00Z'', up_UpdatedAt = ''2026-01-01T09:00:00Z'', up_RowVersion = 1\<rparr>],
      es_entities = (\<lambda>_. [''c1'', ''c2'']), es_teams = [], es_users = [''u1''], es_tags = (\<lambda>_. []), es_index = [], es_log = []\<rparr>"

definition demo_admin :: permit where
  "demo_admin = administratorPermit \<lparr>act_ID = ''root'', act_Name = ''root'', act_Kind = ''user''\<rparr>"

definition demo_owner :: appUser where
  "demo_owner = \<lparr>usr_ID = ''u1'', usr_Username = ''ana'', usr_DisplayName = None, usr_Email = None,
     usr_Source = ''local'', usr_PasswordHash = None, usr_IsActive = True, usr_LastLoginAt = None,
     usr_CreatedAt = [], usr_Role = RoleProjectOwner, usr_CanSeeCosts = False, usr_Subject = None\<rparr>"

definition demo_time :: string where "demo_time = ''2026-01-02T09:00:00Z''"

definition demo_retired :: "estate result" where
  "demo_retired = RetireProject (Some demo_admin) demo_time demo_time ''p1'' demo_estate"

definition demo_link :: projectLink where
  "demo_link = \<lparr>ln_ProjectID = ''p1'', ln_EntityID = ''c1'', ln_Relation = ProjectOwns, ln_Note = None,
     ln_Lifecycle = LifecycleActive, ln_CreatedAt = demo_time, ln_UpdatedAt = demo_time\<rparr>"

definition demo_relinked :: "estate result" where
  "demo_relinked = LinkProject ProjectCircuit (Some demo_admin) demo_time demo_link demo_estate"

end
