(* ===== verification/Projects_Props.thy ===== *)
theory Projects_Props
  imports Projects
begin

text \<open>
  What the project operations guarantee: the table invariants, what a permit of a project owner
  covers, that project owners cannot widen their own scope, and that every change is authorised
  and recorded.
\<close>

section \<open>Permits minted from a resolver\<close>

lemma ex_table: "(\<exists>tb. P tb) \<longleftrightarrow> P ProjectAsset \<or> P ProjectService \<or> P ProjectCircuit"
  by (metis linkTable.exhaust)

lemma link_tables: "map_of projectLinkTables t = Some lt \<longleftrightarrow> (\<exists>tb. t = table_name tb \<and> lt = linked_type tb)"
  by (auto simp: ex_table projectLinkTables_def)

lemma linked_type_inj: "linked_type a = linked_type b \<Longrightarrow> a = b"
  by (cases a; cases b) simp_all

lemma class_linked_type [simp]: "ScopeClassOf (linked_type tb) = ScopeProjectLinked"
  by (cases tb) simp_all

text \<open>
  The contract of the interface \<open>ProjectResolver\<close>: \<open>held\<close> and \<open>linked\<close> are the facts the queries
  report, and no query fails.
\<close>

locale project_resolver =
  fixes res :: projectResolver
    and held :: "string \<Rightarrow> string \<Rightarrow> bool"
    and linked :: "linkTable \<Rightarrow> string \<Rightarrow> string \<Rightarrow> bool"
  assumes projects: "\<exists>ps. ProjectsForUser res u = Inr ps \<and> set ps = {q. held u q}"
    and assets: "\<exists>ids. AssetIDsForProjects res ps = Inr ids \<and> set ids = {i. \<exists>q \<in> set ps. linked ProjectAsset q i}"
    and services: "\<exists>ids. ServiceIDsForProjects res ps = Inr ids \<and> set ids = {i. \<exists>q \<in> set ps. linked ProjectService q i}"
    and circuits: "\<exists>ids. CircuitIDsForProjects res ps = Inr ids \<and> set ids = {i. \<exists>q \<in> set ps. linked ProjectCircuit q i}"
begin

lemma mint_owner:
  assumes "usr_IsActive u" "\<not> isAdministrator az u" "usr_Role u = RoleProjectOwner" "az_projects az = res"
  obtains ps ents where "mintPermit az (Some u) = Inr (scopedPermit (UserActor u) ps ents)"
    "set ps = {q. held (usr_ID u) q}"
    "\<And>t i. ents t i \<longleftrightarrow> (\<exists>tb q. t = linked_type tb \<and> held (usr_ID u) q \<and> linked tb q i)"
proof -
  obtain ps where ps: "ProjectsForUser res (usr_ID u) = Inr ps" "set ps = {q. held (usr_ID u) q}"
    using projects by blast
  obtain a where a: "AssetIDsForProjects res ps = Inr a" "set a = {i. \<exists>q \<in> set ps. linked ProjectAsset q i}"
    using assets by blast
  obtain s where s: "ServiceIDsForProjects res ps = Inr s" "set s = {i. \<exists>q \<in> set ps. linked ProjectService q i}"
    using services by blast
  obtain c where c: "CircuitIDsForProjects res ps = Inr c" "set c = {i. \<exists>q \<in> set ps. linked ProjectCircuit q i}"
    using circuits by blast
  let ?ents = "entities_of [(''asset'', a), (''service'', s), (''circuit'', c)]"
  have "?ents t i \<longleftrightarrow> (\<exists>tb q. t = linked_type tb \<and> held (usr_ID u) q \<and> linked tb q i)" for t i
    by (cases "t = ''asset''"; cases "t = ''service''"; cases "t = ''circuit''")
      (use a(2) s(2) c(2) ps(2) in \<open>simp_all add: get_or_def ex_table\<close>)
  with that [of ps ?ents] ps a s c assms show thesis by (simp add: mintPermit_def)
qed

lemma mint_iff:
  assumes "az_projects az = res"
  shows "(\<exists>p. mintPermit az u = Inr p) \<longleftrightarrow> CanWrite az u"
proof (cases u)
  case (Some v)
  show ?thesis
  proof (cases "usr_IsActive v \<and> \<not> isAdministrator az v \<and> usr_Role v = RoleProjectOwner")
    case True
    then obtain p where "mintPermit az (Some v) = Inr p" using mint_owner [of v az] assms by metis
    with True Some show ?thesis by (simp add: CanWrite_def)
  qed (use Some in \<open>auto simp: mintPermit_def CanWrite_def\<close>)
qed (simp add: mintPermit_def CanWrite_def)

end

section \<open>The store as a resolver\<close>

lemma concat_chunks: "0 < n \<Longrightarrow> concat (chunks n xs) = xs"
  by (induction n xs rule: chunks.induct) (subst chunks.simps, auto)

lemma length_chunks: "c \<in> set (chunks n xs) \<Longrightarrow> length c \<le> n"
proof (induction n xs rule: chunks.induct)
  case (1 n xs)
  then show ?case by (subst (asm) (2) chunks.simps) (auto split: if_splits)
qed

lemma set_collect:
  "set (fold (\<lambda>i out. if i \<in> set out then out else out @ [i]) ids out) = set out \<union> set ids"
  by (induction ids arbitrary: out) auto

lemma distinct_collect:
  "distinct out \<Longrightarrow> distinct (fold (\<lambda>i out. if i \<in> set out then out else out @ [i]) ids out)"
  by (induction ids arbitrary: out) auto

lemma set_entityIDsForProjects:
  "set (entityIDsForProjects e tb ps) = {i. \<exists>q \<in> set ps. linked e tb q i}"
proof -
  have chunk: "set (linked_ids e tb chunk) = {i. \<exists>q \<in> set chunk. linked e tb q i}" for chunk
    by (auto simp: linked_ids_def linked_def list_ex_iff same_link_def)
  have "set (fold (\<lambda>chunk out. fold (\<lambda>i out. if List.member out i then out else out @ [i]) (linked_ids e tb chunk) out)
          cs out) = set out \<union> {i. \<exists>q \<in> set (concat cs). linked e tb q i}" for cs out
    by (induction cs arbitrary: out) (auto simp: set_collect chunk)
  moreover have "concat (chunkIDs ps) = ps" by (simp add: chunkIDs_def concat_chunks idChunkSize_def)
  ultimately have "set (fold (\<lambda>chunk out. fold (\<lambda>i out. if List.member out i then out else out @ [i])
      (linked_ids e tb chunk) out) (chunkIDs ps) []) = {i. \<exists>q \<in> set ps. linked e tb q i}"
    by (metis (no_types) list.set(1) sup_bot_left)
  then show ?thesis by (simp only: entityIDsForProjects_def split: if_split) simp
qed

interpretation store: project_resolver "store_resolver e" "holds e" "linked e" for e
proof
  show "\<exists>ps. ProjectsForUser (store_resolver e) u = Inr ps \<and> set ps = {q. holds e u q}" for u
    by (auto simp: store_resolver_def projects_for_user_def holds_def list_ex_iff held_by_def)
qed (simp_all add: store_resolver_def set_entityIDsForProjects)

text \<open>
  A caller may write exactly when a permit can be minted for them: the answer that the pages use to
  show their buttons and the permit that the writes need never disagree.
\<close>

theorem can_write_iff_permit:
  "(\<exists>p. mintPermit (NewAuthorizer admins (store_resolver e)) user = Inr p)
     \<longleftrightarrow> CanWrite (NewAuthorizer admins (store_resolver e)) user"
  by (rule store.mint_iff) (simp add: NewAuthorizer_def)

text \<open>
  The scope of a project owner: the permit minted for an active owner covers the assets, services
  and circuits actively linked to a live project that the owner is actively assigned to, the link
  rows between such an entity and such a project, and nothing else; however many projects the
  owner holds, splitting the queries into chunks changes nothing. (C28)
\<close>

theorem owner_permit_scope:
  assumes "usr_IsActive u" "usr_Role u = RoleProjectOwner"
    and "\<not> isAdministrator (NewAuthorizer admins (store_resolver e)) u"
  shows "\<exists>p. mintPermit (NewAuthorizer admins (store_resolver e)) (Some u) = Inr p
     \<and> (\<forall>t i. Covers p t i \<longleftrightarrow>
          (\<exists>tb q. t = linked_type tb \<and> holds e (usr_ID u) q \<and> linked e tb q i)
          \<or> (\<exists>tb q j r. t = table_name tb \<and> i = q @ CHR ''/'' # j \<and> CHR ''/'' \<notin> set q
               \<and> holds e (usr_ID u) q \<and> holds e (usr_ID u) r \<and> linked e tb r j))"
proof -
  let ?az = "NewAuthorizer admins (store_resolver e)"
  obtain ps ents where mint: "mintPermit ?az (Some u) = Inr (scopedPermit (UserActor u) ps ents)"
    and ps: "set ps = {q. holds e (usr_ID u) q}"
    and ents: "\<And>t i. ents t i \<longleftrightarrow> (\<exists>tb q. t = linked_type tb \<and> holds e (usr_ID u) q \<and> linked e tb q i)"
    using store.mint_owner [of u ?az e] assms by (auto simp: NewAuthorizer_def)
  have "Covers (scopedPermit (UserActor u) ps ents) t i \<longleftrightarrow>
          (\<exists>tb q. t = linked_type tb \<and> holds e (usr_ID u) q \<and> linked e tb q i)
          \<or> (\<exists>tb q j r. t = table_name tb \<and> i = q @ CHR ''/'' # j \<and> CHR ''/'' \<notin> set q
               \<and> holds e (usr_ID u) q \<and> holds e (usr_ID u) r \<and> linked e tb r j)" for t i
  proof -
    have "(ScopeClassOf t = ScopeProjectLinked \<or> ScopeClassOf t = ScopeSubjectDerived) \<and> ents t i
        \<longleftrightarrow> (\<exists>tb q. t = linked_type tb \<and> holds e (usr_ID u) q \<and> linked e tb q i)"
      using class_linked_type unfolding ents by metis
    moreover have "(\<exists>q lt j. map_of projectLinkTables t = Some lt \<and> i = q @ CHR ''/'' # j \<and> CHR ''/'' \<notin> set q
          \<and> q \<in> set ps \<and> ents lt j)
        \<longleftrightarrow> (\<exists>tb q j r. t = table_name tb \<and> i = q @ CHR ''/'' # j \<and> CHR ''/'' \<notin> set q
               \<and> holds e (usr_ID u) q \<and> holds e (usr_ID u) r \<and> linked e tb r j)"
      unfolding ents ps link_tables mem_Collect_eq using linked_type_inj by blast
    ultimately show ?thesis by (simp only: Covers.simps scoped_Covers_iff)
  qed
  with mint show ?thesis by blast
qed

section \<open>The trail\<close>

lemma logging_Inr: "logging f e = Inr e' \<longleftrightarrow> (\<exists>rows. f (es_log e) = Inr rows \<and> e' = e\<lparr>es_log := rows\<rparr>)"
  by (auto simp: logging_def bind_result_Inr)

lemma tx_log_entry:
  assumes "tx_log (begin_tx p at) ty i action d b rows = Inr rows'"
  shows "\<exists>r. rows' = rows @ [r] \<and> authorised_entry p at r \<and> cl_EntityType r = ty \<and> cl_EntityID r = i"
  using assms by (auto simp: tx_log_Inr authorised_entry_def log_row_def)

lemma logCreate_entry:
  "logCreate (begin_tx p at) ty i a rows = Inr rows' \<Longrightarrow>
     \<exists>r. rows' = rows @ [r] \<and> authorised_entry p at r \<and> cl_EntityType r = ty \<and> cl_EntityID r = i"
  unfolding logCreate_def logCreateBatch_def by (rule tx_log_entry)

lemma logUpdate_entry:
  assumes "logUpdate (begin_tx p at) ty i before after rows = Inr rows'"
  shows "(rows' = rows \<and> field_changes (auditFields (au_fields before)) (auditFields (au_fields after)) = [])
     \<or> (\<exists>r. rows' = rows @ [r] \<and> authorised_entry p at r \<and> cl_EntityType r = ty \<and> cl_EntityID r = i)"
  using assms tx_log_entry [of p at ty i "''update''" _ "[]" rows rows']
  by (auto simp: logUpdate_def logUpdateBatch_def bind_result_Inr diffJSON_def Let_def split: option.splits if_splits)

lemma logUpdate_covers:
  "logUpdate (begin_tx p at) ty i before after rows = Inr rows' \<Longrightarrow> \<exists>q. p = Some q \<and> Covers q ty i"
  using logUpdate_Inr [of "begin_tx p at"] by fastforce

lemma recorded_refl [simp]: "recorded p at e e"
  by (simp add: recorded_def)

lemma recorded_trans:
  assumes "recorded p at e1 e2" "recorded p at e2 e3"
  shows "recorded p at e1 e3"
proof -
  obtain new where a: "es_log e2 = es_log e1 @ new" "\<forall>r \<in> set new. authorised_entry p at r"
    "\<And>x. row_value e1 x \<noteq> row_value e2 x \<Longrightarrow> \<exists>r \<in> set new. cl_EntityType r = row_type x \<and> cl_EntityID r = row_id x"
    using assms(1) unfolding recorded_def by blast
  obtain more where b: "es_log e3 = es_log e2 @ more" "\<forall>r \<in> set more. authorised_entry p at r"
    "\<And>x. row_value e2 x \<noteq> row_value e3 x \<Longrightarrow> \<exists>r \<in> set more. cl_EntityType r = row_type x \<and> cl_EntityID r = row_id x"
    using assms(2) unfolding recorded_def by blast
  have "\<exists>r \<in> set (new @ more). cl_EntityType r = row_type x \<and> cl_EntityID r = row_id x"
    if "row_value e1 x \<noteq> row_value e3 x" for x
    using that a(3) [of x] b(3) [of x] by (cases "row_value e1 x = row_value e2 x") auto
  then show ?thesis
    unfolding recorded_def by (intro exI [of _ "new @ more"]) (use a b in auto)
qed

lemma row_value_more [simp]:
  "row_value (e\<lparr>es_log := l\<rparr>) x = row_value e x"
  "row_value (indexEntity doc e) x = row_value e x"
  by (cases x; simp add: get_link_def get_project_def indexEntity_def)+

lemma recorded_index [simp]: "recorded p at e (indexEntity doc e') = recorded p at e e'"
  by (simp add: recorded_def) (simp add: indexEntity_def)

lemma recorded_one:
  assumes "es_log e' = es_log e"
    and "\<exists>r. rows' = es_log e @ [r] \<and> authorised_entry p at r \<and> cl_EntityType r = row_type x0 \<and> cl_EntityID r = row_id x0"
    and "\<And>x. x \<noteq> x0 \<Longrightarrow> row_value e x = row_value e' x"
  shows "recorded p at e (e'\<lparr>es_log := rows'\<rparr>)"
proof -
  obtain r where r: "rows' = es_log e @ [r]" "authorised_entry p at r" "cl_EntityType r = row_type x0" "cl_EntityID r = row_id x0"
    using assms(2) by blast
  show ?thesis
    unfolding recorded_def using r assms(1,3) by (intro exI [of _ "[r]"]) (simp, metis)
qed

lemma recorded_none:
  assumes "es_log e' = es_log e" "\<And>x. row_value e x = row_value e' x"
  shows "recorded p at e (e'\<lparr>es_log := es_log e\<rparr>)"
  unfolding recorded_def by (rule exI [of _ "[]"]) (use assms in auto)

lemma find_append: "find P (xs @ ys) = (case find P xs of None \<Rightarrow> find P ys | Some x \<Rightarrow> Some x)"
  by (induction xs) auto

lemma find_update_where:
  "(\<And>r. r \<in> set rows \<Longrightarrow> P r \<Longrightarrow> Q (f r) = Q r) \<Longrightarrow>
   find Q (update_where P f rows) = map_option (\<lambda>r. if P r then f r else r) (find Q rows)"
  by (induction rows) (auto simp: update_where_def)

section \<open>Every change is recorded\<close>

lemma link_columns:
  "auditFields (au_fields (link_row tb l)) =
     [(''project_id'', VText (ln_ProjectID l), struct_name tb), (column_name tb, VText (ln_EntityID l), struct_name tb),
      (''relation'', VText (ln_Relation l), struct_name tb), (''note'', opt_text (ln_Note l), struct_name tb),
      (''lifecycle'', VText (ln_Lifecycle l), struct_name tb), (''created_at'', VText (ln_CreatedAt l), struct_name tb)]"
  by (cases tb) (simp_all add: auditFields_def link_row_def unaudited_tags_def)

lemma link_unchanged:
  "field_changes (auditFields (au_fields (link_row tb a))) (auditFields (au_fields (link_row tb b))) = [] \<Longrightarrow>
   auditFields (au_fields (link_row tb a)) = auditFields (au_fields (link_row tb b))"
  unfolding link_columns
  by (cases tb) (simp_all add: field_changes_Cons field_changes_Nil Let_def split: if_splits)

lemma project_columns_audited:
  "auditFields (au_fields (project_row p)) =
     map (\<lambda>(tag, v). (tag, v, ''Project'')) (filter (\<lambda>(tag, v). tag \<notin> {''updated_at'', ''row_version''}) (project_columns p))"
  by (simp add: auditFields_def project_row_def project_columns_def unaudited_tags_def)

lemma project_audit_columns:
  "auditFields (au_fields (auditedProject p tags)) =
     auditFields (au_fields (project_row p)) @ [(''tags'', VText tags, ''projectAudit'')]"
  by (simp add: auditFields_def project_row_def auditedProject_def project_columns_def unaudited_tags_def)

lemma project_unchanged:
  "field_changes (auditFields (au_fields (auditedProject a tags))) (auditFields (au_fields (auditedProject b tags))) = [] \<Longrightarrow>
   auditFields (au_fields (project_row a)) = auditFields (au_fields (project_row b))"
  unfolding project_audit_columns project_columns_audited project_columns_def
  by (simp add: field_changes_Cons field_changes_Nil Let_def split: if_splits)

lemma row_value_links:
  "row_value (e\<lparr>es_links := (es_links e)(tb := rows)\<rparr>) x =
     (case x of LinkRow tb' q i \<Rightarrow>
        if tb' = tb then map_option (\<lambda>l. auditFields (au_fields (link_row tb l))) (find (same_link q i) rows)
        else row_value e x
      | _ \<Rightarrow> row_value e x)"
  by (cases x) (simp_all add: get_link_def get_project_def)

lemma get_project_None: "get_project e q = None \<longleftrightarrow> q \<notin> pr_ID ` set (es_projects e)"
  by (auto simp: get_project_def find_None_iff)

lemma upsert_link_Inr:
  assumes "upsert_link tb l e = Inr e'"
  shows "e' = e\<lparr>es_links := (es_links e)(tb :=
           if list_ex (same_link (ln_ProjectID l) (ln_EntityID l)) (es_links e tb)
           then update_where (same_link (ln_ProjectID l) (ln_EntityID l)) (\<lambda>r. l\<lparr>ln_CreatedAt := ln_CreatedAt r\<rparr>) (es_links e tb)
           else es_links e tb @ [l])\<rparr>"
    and "link_checks l" "ln_ProjectID l \<in> pr_ID ` set (es_projects e)" "ln_EntityID l \<in> set (es_entities e tb)"
    and "\<And>r. active_owner l \<Longrightarrow> r \<in> set (es_links e tb) \<Longrightarrow> active_owner r \<Longrightarrow> ln_EntityID r = ln_EntityID l \<Longrightarrow>
           ln_ProjectID r = ln_ProjectID l"
  using assms unfolding upsert_link_def Let_def
  by (auto simp: get_project_None list_all_iff same_link_def)

lemma get_link_upsert:
  assumes "upsert_link tb l e = Inr e'"
  shows "get_link e' tb' q i =
     (if tb' = tb \<and> same_link q i l
      then Some (case get_link e tb q i of None \<Rightarrow> l | Some r \<Rightarrow> l\<lparr>ln_CreatedAt := ln_CreatedAt r\<rparr>)
      else get_link e tb' q i)"
proof -
  let ?mine = "same_link (ln_ProjectID l) (ln_EntityID l)"
  let ?new = "\<lambda>r. l\<lparr>ln_CreatedAt := ln_CreatedAt r\<rparr>"
  show ?thesis
  proof (cases "tb' = tb \<and> same_link q i l")
    case True
    then have qi: "q = ln_ProjectID l" "i = ln_EntityID l" by (simp_all add: same_link_def)
    have "find ?mine (update_where ?mine ?new rows) = map_option ?new (find ?mine rows)" for rows
      by (induction rows) (auto simp: update_where_def same_link_def)
    moreover have "list_ex ?mine rows \<longleftrightarrow> find ?mine rows \<noteq> None" for rows
      by (induction rows) simp_all
    ultimately show ?thesis
      using True unfolding upsert_link_Inr(1) [OF assms] get_link_def qi
      by (cases "find ?mine (es_links e tb)") (simp_all add: find_append)
  next
    case False
    have "find (same_link q i) (update_where ?mine ?new rows) = find (same_link q i) rows"
      if "\<not> same_link q i l" for rows
      using that by (induction rows) (auto simp: update_where_def same_link_def)
    with False show ?thesis
      unfolding upsert_link_Inr(1) [OF assms] get_link_def
      by (auto simp: find_append split: option.splits)
  qed
qed

lemma LinkProject_recorded:
  assumes "LinkProject tb p at l e = Inr e'"
  shows "recorded p at e e'"
proof -
  let ?lid = "link_id (ln_ProjectID l) (ln_EntityID l)"
  obtain e1 where up: "upsert_link tb l e = Inr e1"
    and log: "(case get_link e tb (ln_ProjectID l) (ln_EntityID l) of
        Some before \<Rightarrow> logging (logUpdate (begin_tx p at) (table_name tb) ?lid (link_row tb before) (link_row tb l)) e1
      | None \<Rightarrow> logging (logCreate (begin_tx p at) (table_name tb) ?lid (link_row tb l)) e1) = Inr e'"
    using assms by (auto simp: LinkProject_def writeTx_def bind_result_Inr Let_def)
  have e1: "es_log e1 = es_log e" by (simp add: upsert_link_Inr(1) [OF up])
  have other: "row_value e x = row_value e1 x" if "x \<noteq> LinkRow tb (ln_ProjectID l) (ln_EntityID l)" for x
    using that get_link_upsert [OF up] upsert_link_Inr(1) [OF up]
    by (cases x) (auto simp: same_link_def get_project_def)
  have one: "recorded p at e (e1\<lparr>es_log := rows\<rparr>)"
    if "\<exists>r. rows = es_log e @ [r] \<and> authorised_entry p at r \<and> cl_EntityType r = table_name tb \<and> cl_EntityID r = ?lid" for rows
    using that other by (intro recorded_one [OF e1, of rows p at "LinkRow tb (ln_ProjectID l) (ln_EntityID l)"]) simp_all
  show ?thesis
  proof (cases "get_link e tb (ln_ProjectID l) (ln_EntityID l)")
    case None
    with log one show ?thesis by (auto simp: logging_Inr e1 dest!: logCreate_entry)
  next
    case (Some before)
    then obtain rows where rows: "logUpdate (begin_tx p at) (table_name tb) ?lid (link_row tb before) (link_row tb l) (es_log e) = Inr rows"
      and e': "e' = e1\<lparr>es_log := rows\<rparr>"
      using log by (auto simp: logging_Inr e1)
    from logUpdate_entry [OF rows] show ?thesis
    proof (elim disjE conjE)
      assume r: "rows = es_log e"
        and fc: "field_changes (auditFields (au_fields (link_row tb before))) (auditFields (au_fields (link_row tb l))) = []"
      from fc have "auditFields (au_fields (link_row tb before)) = auditFields (au_fields (link_row tb l))"
        by (rule link_unchanged)
      then have "row_value e x = row_value e1 x" for x
        using other [of x] Some get_link_upsert [OF up] by (cases "x = LinkRow tb (ln_ProjectID l) (ln_EntityID l)") (auto simp: link_columns same_link_def)
      then show ?thesis unfolding e' r by (rule recorded_none [OF e1])
    qed (use one e' in blast)
  qed
qed

lemma get_link_retire:
  "(\<And>l. l \<in> set (es_links e tb) \<Longrightarrow> P l \<Longrightarrow> ln_ProjectID l = pid) \<Longrightarrow>
   get_link (retire_links tb P now e) tb' q i =
     (if tb' = tb then map_option (\<lambda>l. if P l then l\<lparr>ln_Lifecycle := LifecycleRetired, ln_UpdatedAt := now\<rparr> else l)
        (get_link e tb q i) else get_link e tb' q i)"
  by (simp add: retire_links_def get_link_def) (subst find_update_where, auto simp: same_link_def)

lemma retireLink_recorded:
  assumes "retireLink p at now tb pid i e = Inr e'"
  shows "recorded p at e e'"
proof -
  let ?e1 = "retire_links tb (same_link pid i) now e"
  have "e' = e \<or> logging (tx_log (begin_tx p at) (table_name tb) (link_id pid i) ''retire'' retired_diff []) ?e1 = Inr e'"
    using assms by (cases "get_link e tb pid i") (simp_all add: retireLink_def writeTx_def split: if_splits)
  then consider "e' = e" | rows where "tx_log (begin_tx p at) (table_name tb) (link_id pid i) ''retire'' retired_diff [] (es_log ?e1) = Inr rows"
      "e' = ?e1\<lparr>es_log := rows\<rparr>"
    unfolding logging_Inr by blast
  then show ?thesis
  proof cases
    case 2
    have e1: "es_log ?e1 = es_log e" by (simp add: retire_links_def)
    have hit: "same_link pid i l \<longleftrightarrow> pid = q \<and> i = j" if "get_link e tb q j = Some l" for l q j
      using that by (auto simp: get_link_def find_Some_iff same_link_def)
    have get: "get_link ?e1 tb' q j = (if tb' = tb then map_option (\<lambda>l. if same_link pid i l
        then l\<lparr>ln_Lifecycle := LifecycleRetired, ln_UpdatedAt := now\<rparr> else l) (get_link e tb q j) else get_link e tb' q j)" for tb' q j
      by (rule get_link_retire [of _ _ _ pid]) (simp add: same_link_def)
    have "row_value e x = row_value ?e1 x" if "x \<noteq> LinkRow tb pid i" for x
    proof (cases x)
      case (LinkRow tb' q j)
      with that hit [of q j] show ?thesis
        by (cases "get_link e tb q j") (auto simp: get)
    qed (simp_all add: retire_links_def get_project_def)
    with tx_log_entry [OF 2(1)] show ?thesis
      unfolding 2(2) by (intro recorded_one [OF e1, of _ p at "LinkRow tb pid i"]) (simp_all add: e1)
  qed simp
qed

lemma log_released_entries:
  "log_released (begin_tx p at) tb pid ids rows = Inr rows' \<Longrightarrow>
     \<exists>new. rows' = rows @ new \<and> (\<forall>r \<in> set new. authorised_entry p at r)
       \<and> (\<forall>i \<in> set ids. \<exists>r \<in> set new. cl_EntityType r = table_name tb \<and> cl_EntityID r = link_id pid i)"
proof (induction ids arbitrary: rows)
  case (Cons i ids)
  then obtain rows1 where one: "tx_log (begin_tx p at) (table_name tb) (link_id pid i) ''retire'' released_diff [] rows = Inr rows1"
    and rest: "log_released (begin_tx p at) tb pid ids rows1 = Inr rows'"
    by (auto simp: bind_result_Inr)
  obtain r where r: "rows1 = rows @ [r]" "authorised_entry p at r" "cl_EntityType r = table_name tb" "cl_EntityID r = link_id pid i"
    using tx_log_entry [OF one] by blast
  obtain new where "rows' = rows1 @ new" "\<forall>r \<in> set new. authorised_entry p at r"
    "\<forall>i \<in> set ids. \<exists>r \<in> set new. cl_EntityType r = table_name tb \<and> cl_EntityID r = link_id pid i"
    using Cons.IH [OF rest] by blast
  with r show ?case by (intro exI [of _ "r # new"]) auto
qed simp

lemma releaseLinks_recorded:
  assumes "releaseLinks (begin_tx p at) tb pid now e = Inr e'"
  shows "recorded p at e e'"
proof -
  let ?e1 = "retire_links tb (active_link_of pid) now e"
  let ?ids = "sort (map ln_EntityID (filter (active_link_of pid) (es_links e tb)))"
  have "e' = e \<or> logging (log_released (begin_tx p at) tb pid ?ids) ?e1 = Inr e'"
    using assms by (simp add: releaseLinks_def Let_def split: if_splits)
  then consider "e' = e" | rows where "log_released (begin_tx p at) tb pid ?ids (es_log ?e1) = Inr rows" "e' = ?e1\<lparr>es_log := rows\<rparr>"
    unfolding logging_Inr by blast
  then show ?thesis
  proof cases
    case 2
    have e1: "es_log ?e1 = es_log e" by (simp add: retire_links_def)
    have hit: "q = pid \<and> j \<in> set ?ids" if "get_link e tb q j = Some l" "active_link_of pid l" for l q j
      using that by (auto simp: get_link_def find_Some_iff same_link_def active_link_of_def)
    have get: "get_link ?e1 tb' q j = (if tb' = tb then map_option (\<lambda>l. if active_link_of pid l
        then l\<lparr>ln_Lifecycle := LifecycleRetired, ln_UpdatedAt := now\<rparr> else l) (get_link e tb q j) else get_link e tb' q j)" for tb' q j
      by (rule get_link_retire [of _ _ _ pid]) (simp add: active_link_of_def)
    have changed: "\<exists>j \<in> set ?ids. x = LinkRow tb pid j" if "row_value e x \<noteq> row_value ?e1 x" for x
    proof (cases x)
      case (LinkRow tb' q j)
      with that hit [of q j] show ?thesis
        by (cases "get_link e tb q j") (auto simp: get split: if_splits)
    qed (use that in \<open>simp_all add: retire_links_def get_project_def\<close>)
    obtain new where "rows = es_log e @ new" "\<forall>r \<in> set new. authorised_entry p at r"
      "\<forall>i \<in> set ?ids. \<exists>r \<in> set new. cl_EntityType r = table_name tb \<and> cl_EntityID r = link_id pid i"
      using log_released_entries [OF 2(1)] e1 by metis
    with changed show ?thesis
      unfolding recorded_def 2(2) by (intro exI [of _ new]) fastforce
  qed simp
qed

lemma find_project_update:
  "(\<And>q. pr_ID q = pid \<Longrightarrow> pr_ID (f q) = pid) \<Longrightarrow>
   find (\<lambda>r. pr_ID r = q) (update_where (\<lambda>r. pr_ID r = pid) f rows) =
     (if q = pid then map_option f (find (\<lambda>r. pr_ID r = q) rows) else find (\<lambda>r. pr_ID r = q) rows)"
  by (induction rows) (auto simp: update_where_def)

lemma row_value_projects:
  "(\<And>q. q \<noteq> pid \<Longrightarrow> get_project (e\<lparr>es_projects := ps\<rparr>) q = get_project e q) \<Longrightarrow> x \<noteq> ProjectRow pid \<Longrightarrow>
   row_value e x = row_value (e\<lparr>es_projects := ps\<rparr>) x"
  by (cases x) (auto simp: get_link_def)

lemma CreateProject_recorded:
  assumes "CreateProject p at r e = Inr e'"
  shows "recorded p at e e'"
proof -
  let ?r = "r\<lparr>pr_RowVersion := 1\<rparr>"
  let ?e1 = "e\<lparr>es_projects := es_projects e @ [?r]\<rparr>"
  obtain rows where log: "logCreate (begin_tx p at) ''project'' (pr_ID r) (auditedProject ?r []) (es_log e) = Inr rows"
    and e': "e' = indexEntity (project_doc ?r) (?e1\<lparr>es_log := rows\<rparr>)"
    using assms by (auto simp: CreateProject_def Let_def writeTx_def insert_project_def bind_result_Inr logging_Inr)
  have "recorded p at e (?e1\<lparr>es_log := rows\<rparr>)"
  proof (rule recorded_one [of _ _ _ _ _ "ProjectRow (pr_ID r)"])
    show "row_value e x = row_value ?e1 x" if "x \<noteq> ProjectRow (pr_ID r)" for x
      by (rule row_value_projects [OF _ that]) (simp add: get_project_def find_append split: option.splits)
  qed (use logCreate_entry [OF log] in simp_all)
  then show ?thesis by (simp add: e')
qed

lemma UpdateProject_recorded:
  assumes "UpdateProject p at r e = Inr e'"
  shows "recorded p at e e'"
proof -
  let ?tags = "entityTagsAudit e (pr_ID r)"
  obtain before where before: "get_project e (pr_ID r) = Some before"
    using assms by (auto simp: UpdateProject_def writeTx_def split: option.splits)
  let ?r = "r\<lparr>pr_CreatedAt := pr_CreatedAt before\<rparr>"
  let ?new = "\<lambda>q. r\<lparr>pr_CreatedAt := pr_CreatedAt q, pr_RowVersion := pr_RowVersion q + 1\<rparr>"
  let ?e1 = "e\<lparr>es_projects := update_where (\<lambda>q. pr_ID q = pr_ID r) ?new (es_projects e)\<rparr>"
  obtain rows where log: "logUpdate (begin_tx p at) ''project'' (pr_ID r) (auditedProject before ?tags) (auditedProject ?r ?tags) (es_log e) = Inr rows"
    and e': "e' = indexEntity (project_doc ?r) (?e1\<lparr>es_log := rows\<rparr>)"
    using assms before
    by (auto simp: UpdateProject_def Let_def writeTx_def update_project_def bind_result_Inr logging_Inr split: if_splits)
  have get: "get_project ?e1 q = (if q = pr_ID r then map_option ?new (get_project e q) else get_project e q)" for q
    by (simp add: get_project_def find_project_update)
  have other: "row_value e x = row_value ?e1 x" if "x \<noteq> ProjectRow (pr_ID r)" for x
    by (rule row_value_projects [OF _ that]) (simp add: get)
  have "recorded p at e (?e1\<lparr>es_log := rows\<rparr>)"
    using logUpdate_entry [OF log]
  proof (elim disjE conjE)
    assume r: "rows = es_log e" and fc: "field_changes (auditFields (au_fields (auditedProject before ?tags)))
        (auditFields (au_fields (auditedProject ?r ?tags))) = []"
    have "row_value e (ProjectRow (pr_ID r)) = row_value ?e1 (ProjectRow (pr_ID r))"
      using project_unchanged [OF fc] before by (simp add: get project_columns_audited project_columns_def)
    with other have "row_value e x = row_value ?e1 x" for x by (cases "x = ProjectRow (pr_ID r)") auto
    then show ?thesis unfolding r by (rule recorded_none [rotated]) simp
  qed (use other in \<open>intro recorded_one [of _ _ _ _ _ "ProjectRow (pr_ID r)"], simp_all\<close>)
  then show ?thesis by (simp add: e')
qed

lemma RetireProject_recorded:
  assumes "RetireProject p at now pid e = Inr e'"
  shows "recorded p at e e'"
proof (cases "get_project e pid")
  case None
  with assms show ?thesis by (simp add: RetireProject_def writeTx_def)
next
  case (Some before)
  let ?new = "\<lambda>q. q\<lparr>pr_Lifecycle := LifecycleRetired, pr_UpdatedAt := now, pr_RowVersion := pr_RowVersion q + 1\<rparr>"
  let ?e1 = "e\<lparr>es_projects := update_where (\<lambda>q. pr_ID q = pid) ?new (es_projects e)\<rparr>"
  let ?after = "before\<lparr>pr_Lifecycle := LifecycleRetired, pr_UpdatedAt := now\<rparr>"
  show ?thesis
  proof (cases "IsRetired before")
    case True
    with assms Some show ?thesis by (simp add: RetireProject_def writeTx_def)
  next
    case False
    obtain rows e2 where log: "logUpdate (begin_tx p at) ''project'' pid (project_row before) (project_row ?after) (es_log e) = Inr rows"
      and r1: "releaseLinks (begin_tx p at) ProjectAsset pid now (?e1\<lparr>es_log := rows\<rparr>) = Inr e2"
      and r2: "releaseLinks (begin_tx p at) ProjectService pid now e2 = Inr e'"
      using assms Some False by (auto simp: RetireProject_def Let_def writeTx_def bind_result_Inr logging_Inr)
    have changes: "field_changes (auditFields (au_fields (project_row before))) (auditFields (au_fields (project_row ?after))) \<noteq> []"
      using False by (simp add: project_columns_audited project_columns_def field_changes_Cons Let_def IsRetired_def)
    have get: "get_project ?e1 q = (if q = pid then map_option ?new (get_project e q) else get_project e q)" for q
      by (simp add: get_project_def find_project_update)
    have "recorded p at e (?e1\<lparr>es_log := rows\<rparr>)"
    proof (rule recorded_one [of _ _ _ _ _ "ProjectRow pid"])
      show "row_value e x = row_value ?e1 x" if "x \<noteq> ProjectRow pid" for x
        by (rule row_value_projects [OF _ that]) (simp add: get)
    qed (use logUpdate_entry [OF log] changes in simp_all)
    then show ?thesis
      using releaseLinks_recorded [OF r1] releaseLinks_recorded [OF r2] by (blast intro: recorded_trans)
  qed
qed

lemma AssignProject_recorded:
  assumes "AssignProject p at now newID u q e = Inr e'"
  shows "recorded p at e e'"
proof (cases "list_ex (held_by u q) (es_assignments e)")
  case True
  with assms show ?thesis by (simp add: AssignProject_def writeTx_def)
next
  case False
  let ?row = "\<lparr>up_ID = newID, up_UserID = u, up_ProjectID = q, up_Lifecycle = LifecycleActive,
                    up_CreatedAt = now, up_UpdatedAt = now, up_RowVersion = 1\<rparr>"
  let ?e1 = "e\<lparr>es_assignments := es_assignments e @ [?row]\<rparr>"
  obtain rows where log: "logCreate (begin_tx p at) ''user_project'' (link_id u q) (assignment_row ?row) (es_log e) = Inr rows"
    and e': "e' = ?e1\<lparr>es_log := rows\<rparr>"
    using assms False by (auto simp: AssignProject_def writeTx_def Let_def insert_assignment_def bind_result_Inr logging_Inr)
  have "row_value e x = row_value ?e1 x" if "x \<noteq> AssignmentRow u q" for x
    using that by (cases x) (auto simp: get_link_def get_project_def find_append held_by_def split: option.splits)
  then show ?thesis
    unfolding e' using logCreate_entry [OF log] by (intro recorded_one [of _ _ _ _ _ "AssignmentRow u q"]) simp_all
qed

lemma ReleaseProject_recorded:
  assumes "ReleaseProject p at now u q e = Inr e'" "distinct (map up_ID (es_assignments e))"
  shows "recorded p at e e'"
proof (cases "find (held_by u q) (es_assignments e)")
  case None
  with assms show ?thesis by (simp add: ReleaseProject_def writeTx_def)
next
  case (Some r)
  let ?new = "\<lambda>q. q\<lparr>up_Lifecycle := LifecycleRetired, up_UpdatedAt := now, up_RowVersion := up_RowVersion q + 1\<rparr>"
  let ?e1 = "e\<lparr>es_assignments := update_where (\<lambda>q. up_ID q = up_ID r) ?new (es_assignments e)\<rparr>"
  obtain rows where log: "tx_log (begin_tx p at) ''user_project'' (link_id u q) ''retire'' retired_diff [] (es_log e) = Inr rows"
    and e': "e' = ?e1\<lparr>es_log := rows\<rparr>"
    using assms(1) Some by (auto simp: ReleaseProject_def writeTx_def logging_Inr)
  from Some have r: "r \<in> set (es_assignments e)" "held_by u q r" by (auto simp: find_Some_iff)
  have same: "s = r" if "s \<in> set (es_assignments e)" "up_ID s = up_ID r" for s
    using assms(2) r(1) that by (meson distinct_map inj_onD)
  have find: "find (held_by v w) (update_where (\<lambda>q. up_ID q = up_ID r) ?new rows) = find (held_by v w) rows"
    if "\<not> (v = u \<and> w = q)" "set rows \<subseteq> set (es_assignments e)" for v w rows
    using that(2)
  proof (induction rows)
    case (Cons s rows)
    have "\<not> held_by v w r" "\<not> held_by v w (?new s)" using r(2) that(1) by (auto simp: held_by_def)
    with Cons same [of s] show ?case by (auto simp: update_where_def)
  qed (simp add: update_where_def)
  have "row_value e x = row_value ?e1 x" if "x \<noteq> AssignmentRow u q" for x
    using that by (cases x) (auto simp: get_link_def get_project_def find)
  then show ?thesis
    unfolding e' using tx_log_entry [OF log] by (intro recorded_one [of _ _ _ _ _ "AssignmentRow u q"]) simp_all
qed

lemmas op_recorded =
  CreateProject_recorded UpdateProject_recorded RetireProject_recorded LinkProject_recorded
  retireLink_recorded AssignProject_recorded ReleaseProject_recorded

text \<open>
  Every change is authorised and recorded: when a project operation succeeds, the trail grows by
  entries whose type and id the caller's permit covers, made out to the permit's actor at the time
  of the transaction, and every link, project or assignment whose audited columns changed has an
  entry among them under its own type and id. Without a permit nothing changes. (C8)
\<close>

theorem every_change_recorded:
  assumes "run_op p at op e = Inr e'" "wf_estate e"
  shows "\<exists>new. es_log e' = es_log e @ new \<and> (\<forall>r \<in> set new. authorised_entry p at r)
     \<and> (\<forall>x. row_value e x \<noteq> row_value e' x \<longrightarrow>
          (\<exists>r \<in> set new. cl_EntityType r = row_type x \<and> cl_EntityID r = row_id x))"
proof -
  have "recorded p at e e'"
    using assms by (cases op) (simp_all add: op_recorded wf_estate_def assignments_ok_def)
  then show ?thesis by (simp only: recorded_def)
qed

section \<open>Witnesses\<close>

lemma all_table: "(\<forall>tb. P tb) \<longleftrightarrow> P ProjectAsset \<and> P ProjectService \<and> P ProjectCircuit"
  by (metis linkTable.exhaust)

lemma demo_estate_wf: "wf_estate demo_estate"
  unfolding wf_estate_def links_ok_def all_table by code_simp

lemma demo_retire_link:
  "case run_op (Some demo_admin) ''2026-01-02T09:00:00Z'' (OpRetireLink ''2026-01-02T09:00:00Z'' ProjectCircuit ''p1'' ''c1'') demo_estate of
     Inl _ \<Rightarrow> False
   | Inr e' \<Rightarrow> row_value demo_estate (LinkRow ProjectCircuit ''p1'' ''c1'') \<noteq> row_value e' (LinkRow ProjectCircuit ''p1'' ''c1'')"
  by code_simp

theorem every_change_recorded_witness:
  "\<exists>e' r. run_op (Some demo_admin) ''2026-01-02T09:00:00Z'' (OpRetireLink ''2026-01-02T09:00:00Z'' ProjectCircuit ''p1'' ''c1'') demo_estate = Inr e'
     \<and> r \<in> set (es_log e') \<and> cl_EntityType r = ''project_circuit'' \<and> cl_EntityID r = link_id ''p1'' ''c1''"
proof -
  let ?op = "OpRetireLink ''2026-01-02T09:00:00Z'' ProjectCircuit ''p1'' ''c1''"
  obtain e' where e': "run_op (Some demo_admin) ''2026-01-02T09:00:00Z'' ?op demo_estate = Inr e'"
    "row_value demo_estate (LinkRow ProjectCircuit ''p1'' ''c1'') \<noteq> row_value e' (LinkRow ProjectCircuit ''p1'' ''c1'')"
    using demo_retire_link by (auto split: sum.splits simp del: run_op.simps row_value.simps)
  from every_change_recorded [OF e'(1) demo_estate_wf] e'(2)
  obtain new r where "es_log e' = es_log demo_estate @ new" "r \<in> set new" "cl_EntityType r = ''project_circuit''"
    "cl_EntityID r = link_id ''p1'' ''c1''"
    by (metis row_type.simps(1) row_id.simps(1) table_name.simps(3))
  with e'(1) show ?thesis by (metis UnCI set_append)
qed

theorem owner_permit_scope_witness:
  "\<exists>p. mintPermit (NewAuthorizer [] (store_resolver demo_estate)) (Some demo_owner) = Inr p
     \<and> Covers p ''circuit'' ''c1'' \<and> \<not> Covers p ''circuit'' ''c2''"
proof -
  have u: "usr_IsActive demo_owner" "usr_Role demo_owner = RoleProjectOwner"
    "\<not> isAdministrator (NewAuthorizer [] (store_resolver demo_estate)) demo_owner"
    by code_simp+
  have c: "\<not> list_ex (\<lambda>l. ln_EntityID l = ''c2'') (es_links demo_estate ProjectCircuit)"
    "holds demo_estate ''u1'' ''p1''" "linked demo_estate ProjectCircuit ''p1'' ''c1''"
    by code_simp+
  have "\<not> linked demo_estate ProjectCircuit q ''c2''" for q
    using c(1) by (auto simp: linked_def list_ex_iff same_link_def)
  moreover have "''circuit'' \<noteq> table_name tb" "linked_type tb = ''circuit'' \<longleftrightarrow> tb = ProjectCircuit" for tb
    by (cases tb; simp)+
  ultimately show ?thesis
    using owner_permit_scope [OF u] c(2,3) by (metis demo_owner_def appUser.select_convs(1) linked_type.simps(3))
qed

end
