(* ===== verification/Project_Tables.thy ===== *)
theory Project_Tables
  imports Projects_Props
begin

text \<open>
  The constraints of the project tables as an invariant of every operation, and what follows from
  them for owners: who owns an entity, how far the operations on projects can extend a project
  owner's scope, and what retiring a project releases.
\<close>

section \<open>Table invariants\<close>

lemma distinct_update_where:
  assumes "distinct (map k rows)" "distinct (map c rows)"
    and "\<And>r. r \<in> set rows \<Longrightarrow> k r = a \<Longrightarrow> c (f r) = v" "\<And>r. r \<in> set rows \<Longrightarrow> k r \<noteq> a \<Longrightarrow> c r \<noteq> v"
  shows "distinct (map c (update_where (\<lambda>r. k r = a) f rows))"
  using assms
proof (induction rows)
  case (Cons r rows)
  have "k s \<noteq> a" if "k r = a" "s \<in> set rows" for s
    using Cons.prems(1) that by (metis distinct.simps(2) list.simps(9) image_eqI list.set_map)
  then have same: "update_where (\<lambda>r. k r = a) f rows = rows" if "k r = a"
    using that by (auto simp: update_where_def intro: map_idI)
  show ?case
  proof (cases "k r = a")
    case True
    have "c s \<noteq> v" if "s \<in> set rows" for s
      using Cons.prems(4) [of s] that True \<open>\<And>s. k r = a \<Longrightarrow> s \<in> set rows \<Longrightarrow> k s \<noteq> a\<close> by simp
    with Cons.prems True have "c (f r) \<notin> c ` set rows" by auto
    moreover have "update_where (\<lambda>r. k r = a) f (r # rows) = f r # rows"
      using same [OF True] True by (simp add: update_where_def)
    ultimately show ?thesis using Cons.prems(2) by simp
  next
    case False
    have new: "c r \<noteq> c (if k s = a then f s else s)" if "s \<in> set rows" for s
      using Cons.prems that False by auto
    have "c r \<notin> c ` set (update_where (\<lambda>r. k r = a) f rows)"
    proof
      assume "c r \<in> c ` set (update_where (\<lambda>r. k r = a) f rows)"
      then obtain q where "q \<in> set rows" "c r = c (if k q = a then f q else q)" unfolding update_where_def by auto
      with new [of q] show False by simp
    qed
    moreover have "distinct (map c (update_where (\<lambda>r. k r = a) f rows))" using Cons by simp
    moreover have "update_where (\<lambda>r. k r = a) f (r # rows) = r # update_where (\<lambda>r. k r = a) f rows"
      using False by (simp add: update_where_def)
    ultimately show ?thesis by simp
  qed
qed (simp add: update_where_def)

lemma wf_log_index [simp]:
  "wf_estate (e\<lparr>es_log := rows\<rparr>) = wf_estate e" "wf_estate (indexEntity doc e) = wf_estate e"
  by (simp_all add: wf_estate_def links_ok_def assignments_ok_def indexEntity_def)

lemma links_ok_projects:
  "links_ok e tb \<Longrightarrow> pr_ID ` set (es_projects e) \<subseteq> pr_ID ` set ps \<Longrightarrow> links_ok (e\<lparr>es_projects := ps\<rparr>) tb"
  by (simp add: links_ok_def) (elim conjE, erule (1) subset_trans)

lemma assignments_ok_projects:
  "assignments_ok e \<Longrightarrow> pr_ID ` set (es_projects e) \<subseteq> pr_ID ` set ps \<Longrightarrow> assignments_ok (e\<lparr>es_projects := ps\<rparr>)"
  by (simp add: assignments_ok_def) (elim conjE, erule (1) subset_trans)

lemma wf_projects:
  assumes "wf_estate e" "distinct (map pr_ID ps)" "distinct (map pr_Code ps)" "\<forall>p \<in> set ps. project_checks p"
    "pr_ID ` set (es_projects e) \<subseteq> pr_ID ` set ps"
  shows "wf_estate (e\<lparr>es_projects := ps\<rparr>)"
  using assms by (simp add: wf_estate_def links_ok_projects assignments_ok_projects)

lemma wf_links:
  assumes "wf_estate e" "links_ok (e\<lparr>es_links := (es_links e)(tb := rows)\<rparr>) tb"
  shows "wf_estate (e\<lparr>es_links := (es_links e)(tb := rows)\<rparr>)"
proof -
  let ?e = "e\<lparr>es_links := (es_links e)(tb := rows)\<rparr>"
  have "links_ok ?e tb' \<longleftrightarrow> links_ok e tb'" if "tb' \<noteq> tb" for tb'
    using that by (simp add: links_ok_def)
  with assms have "links_ok ?e tb'" for tb' unfolding wf_estate_def by (cases "tb' = tb") auto
  with assms(1) show ?thesis by (simp add: wf_estate_def assignments_ok_def)
qed

lemma links_ok_upsert:
  assumes "links_ok e tb" "upsert_link tb l e = Inr e'"
  shows "links_ok e' tb"
proof -
  let ?mine = "same_link (ln_ProjectID l) (ln_EntityID l)"
  let ?new = "\<lambda>r. l\<lparr>ln_CreatedAt := ln_CreatedAt r\<rparr>"
  note up = upsert_link_Inr [OF assms(2)]
  let ?rows = "es_links e' tb"
  have rows: "?rows = (if list_ex ?mine (es_links e tb) then update_where ?mine ?new (es_links e tb) else es_links e tb @ [l])"
    by (simp add: up(1))
  have keys: "map (\<lambda>l. (ln_ProjectID l, ln_EntityID l)) (update_where ?mine ?new (es_links e tb)) =
      map (\<lambda>l. (ln_ProjectID l, ln_EntityID l)) (es_links e tb)"
    by (auto simp: update_where_def same_link_def)
  have l: "l = l\<lparr>ln_CreatedAt := ln_CreatedAt l\<rparr>" by simp
  have mem: "r \<in> set (es_links e tb) \<and> \<not> ?mine r \<or> (\<exists>c. r = l\<lparr>ln_CreatedAt := c\<rparr>)" if "r \<in> set ?rows" for r
  proof (cases "list_ex ?mine (es_links e tb)")
    case True
    with that obtain q where q: "q \<in> set (es_links e tb)" "r = (if ?mine q then ?new q else q)"
      unfolding rows by (auto simp: in_update_where)
    then show ?thesis by (cases "?mine q") auto
  next
    case False
    with that consider "r = l" | "r \<in> set (es_links e tb)" "\<not> ?mine r" unfolding rows by (auto simp: list_ex_iff)
    then show ?thesis using l by cases metis+
  qed
  have own: "ln_ProjectID r = ln_ProjectID s"
    if "r \<in> set ?rows" "s \<in> set ?rows" "active_owner r" "active_owner s" "ln_EntityID r = ln_EntityID s" for r s
  proof -
    have old: "\<lbrakk>r \<in> set (es_links e tb); s \<in> set (es_links e tb)\<rbrakk> \<Longrightarrow> ln_ProjectID r = ln_ProjectID s"
      using assms(1) that unfolding links_ok_def one_owner_def by blast
    have upd: "active_owner (l\<lparr>ln_CreatedAt := c\<rparr>) = active_owner l" for c by (simp add: active_owner_def)
    from mem [OF that(1)] mem [OF that(2)] that(3-5) old up(5) [of r] up(5) [of s] show ?thesis by (auto simp: upd)
  qed
  have keep: "link_checks r \<and> ln_ProjectID r \<in> pr_ID ` set (es_projects e) \<and> ln_EntityID r \<in> set (es_entities e tb)"
    if "r \<in> set ?rows" for r
    using mem [OF that]
  proof
    assume "r \<in> set (es_links e tb) \<and> \<not> ?mine r"
    with assms(1) show ?thesis unfolding links_ok_def by blast
  next
    assume "\<exists>c. r = l\<lparr>ln_CreatedAt := c\<rparr>"
    with up(2-4) show ?thesis by (auto simp: link_checks_def)
  qed
  have "distinct (map (\<lambda>l. (ln_ProjectID l, ln_EntityID l)) ?rows)"
    using assms(1) unfolding rows by (auto simp: keys links_ok_def list_ex_iff same_link_def)
  moreover have "es_projects e' = es_projects e" "es_entities e' = es_entities e" by (simp_all add: up(1))
  moreover have "one_owner ?rows" using own unfolding one_owner_def by blast
  ultimately show ?thesis using keep unfolding links_ok_def by (simp add: image_subset_iff)
qed

lemma links_ok_retire:
  assumes "links_ok e tb"
  shows "links_ok (retire_links tb P now e) tb"
proof -
  let ?f = "\<lambda>l. l\<lparr>ln_Lifecycle := LifecycleRetired, ln_UpdatedAt := now\<rparr>"
  let ?rows = "update_where P ?f (es_links e tb)"
  have "map (\<lambda>l. (ln_ProjectID l, ln_EntityID l)) ?rows = map (\<lambda>l. (ln_ProjectID l, ln_EntityID l)) (es_links e tb)"
    by (rule map_update_where) simp
  moreover have mem: "\<exists>q \<in> set (es_links e tb). ln_ProjectID r = ln_ProjectID q \<and> ln_EntityID r = ln_EntityID q
      \<and> (active_owner r \<longrightarrow> active_owner q) \<and> (link_checks q \<longrightarrow> link_checks r)" if "r \<in> set ?rows" for r
    using that by (force simp: in_update_where active_owner_def link_checks_def oneOf_def split: if_splits)
  moreover have "one_owner ?rows"
    unfolding one_owner_def
  proof (intro ballI impI)
    fix r s
    assume rs: "r \<in> set ?rows" "s \<in> set ?rows" "active_owner r \<and> active_owner s \<and> ln_EntityID r = ln_EntityID s"
    obtain r' where r': "r' \<in> set (es_links e tb)" "ln_ProjectID r = ln_ProjectID r'" "ln_EntityID r = ln_EntityID r'" "active_owner r'"
      using mem [OF rs(1)] rs(3) by blast
    obtain s' where s': "s' \<in> set (es_links e tb)" "ln_ProjectID s = ln_ProjectID s'" "ln_EntityID s = ln_EntityID s'" "active_owner s'"
      using mem [OF rs(2)] rs(3) by blast
    from r'(1,4) s'(1,4) assms have "ln_EntityID r' = ln_EntityID s' \<Longrightarrow> ln_ProjectID r' = ln_ProjectID s'"
      unfolding links_ok_def one_owner_def by blast
    with r' s' rs(3) show "ln_ProjectID r = ln_ProjectID s" by simp
  qed
  moreover have "link_checks r \<and> ln_ProjectID r \<in> pr_ID ` set (es_projects e) \<and> ln_EntityID r \<in> set (es_entities e tb)"
    if r: "r \<in> set ?rows" for r
  proof -
    obtain q where "q \<in> set (es_links e tb)" "ln_ProjectID r = ln_ProjectID q" "ln_EntityID r = ln_EntityID q"
      "link_checks q \<longrightarrow> link_checks r"
      using mem [OF r] by blast
    with assms show ?thesis by (simp add: links_ok_def image_subset_iff)
  qed
  ultimately show ?thesis using assms unfolding links_ok_def by (simp add: retire_links_def image_subset_iff)
qed

lemma wf_retire_links: "wf_estate e \<Longrightarrow> wf_estate (retire_links tb P now e)"
  using wf_links [of e tb] links_ok_retire [of e tb P now] by (simp add: retire_links_def wf_estate_def)

lemma wf_releaseLinks: "releaseLinks t tb pid now e = Inr e' \<Longrightarrow> wf_estate e \<Longrightarrow> wf_estate e'"
  by (auto simp: releaseLinks_def Let_def logging_Inr wf_retire_links split: if_splits)

lemma wf_LinkProject:
  assumes "LinkProject tb p at l e = Inr e'" "wf_estate e"
  shows "wf_estate e'"
proof -
  obtain e1 rows where up: "upsert_link tb l e = Inr e1" and e': "e' = e1\<lparr>es_log := rows\<rparr>"
    using assms(1) by (auto simp: LinkProject_def writeTx_def bind_result_Inr Let_def logging_Inr split: option.splits)
  have "wf_estate e1"
    using wf_links [OF assms(2), of tb] links_ok_upsert [OF _ up] assms(2) unfolding upsert_link_Inr(1) [OF up] wf_estate_def
    by blast
  then show ?thesis by (simp add: e')
qed

lemma wf_retireLink:
  assumes "retireLink p at now tb pid i e = Inr e'" "wf_estate e"
  shows "wf_estate e'"
  using assms by (cases "get_link e tb pid i") (auto simp: retireLink_def writeTx_def logging_Inr wf_retire_links split: if_splits)

lemma wf_CreateProject:
  assumes "CreateProject p at r e = Inr e'" "wf_estate e"
  shows "wf_estate e'"
proof -
  let ?ps = "es_projects e @ [r\<lparr>pr_RowVersion := 1\<rparr>]"
  obtain rows where e': "e' = indexEntity (project_doc (r\<lparr>pr_RowVersion := 1\<rparr>)) (e\<lparr>es_projects := ?ps, es_log := rows\<rparr>)"
    and ok: "project_checks (r\<lparr>pr_RowVersion := 1\<rparr>)" "list_all (\<lambda>q. pr_ID q \<noteq> pr_ID r \<and> pr_Code q \<noteq> pr_Code r) (es_projects e)"
    using assms(1) by (auto simp: CreateProject_def Let_def writeTx_def insert_project_def bind_result_Inr logging_Inr)
  have "wf_estate (e\<lparr>es_projects := ?ps\<rparr>)"
    by (rule wf_projects [OF assms(2)]) (use assms(2) ok in \<open>auto simp: wf_estate_def list_all_iff\<close>)
  then show ?thesis by (simp add: e')
qed

lemma wf_project_update:
  assumes "wf_estate e" "\<And>q. pr_ID q = pid \<Longrightarrow> pr_ID (f q) = pid" "\<And>q. q \<in> set (es_projects e) \<Longrightarrow> pr_ID q = pid \<Longrightarrow> pr_Code (f q) = c"
    and "\<And>q. q \<in> set (es_projects e) \<Longrightarrow> pr_ID q \<noteq> pid \<Longrightarrow> pr_Code q \<noteq> c"
    and "\<And>q. q \<in> set (es_projects e) \<Longrightarrow> pr_ID q = pid \<Longrightarrow> project_checks (f q)"
  shows "wf_estate (e\<lparr>es_projects := update_where (\<lambda>q. pr_ID q = pid) f (es_projects e)\<rparr>)"
proof (rule wf_projects [OF assms(1)])
  let ?ps = "update_where (\<lambda>q. pr_ID q = pid) f (es_projects e)"
  have ids: "map pr_ID ?ps = map pr_ID (es_projects e)" using assms(2) by (auto simp: update_where_def)
  then show "distinct (map pr_ID ?ps)" using assms(1) by (simp add: wf_estate_def)
  show "pr_ID ` set (es_projects e) \<subseteq> pr_ID ` set ?ps" using ids by (metis list.set_map order_refl)
  show "distinct (map pr_Code ?ps)"
    by (rule distinct_update_where [of pr_ID _ pr_Code pid f c]) (use assms in \<open>auto simp: wf_estate_def\<close>)
  show "\<forall>p \<in> set ?ps. project_checks p"
    using assms(1,5) by (auto simp: in_update_where wf_estate_def)
qed

lemma wf_UpdateProject:
  assumes "UpdateProject p at r e = Inr e'" "wf_estate e"
  shows "wf_estate e'"
proof -
  obtain before where before: "get_project e (pr_ID r) = Some before"
    using assms(1) by (auto simp: UpdateProject_def writeTx_def split: option.splits)
  let ?r = "r\<lparr>pr_CreatedAt := pr_CreatedAt before\<rparr>"
  let ?new = "\<lambda>q. r\<lparr>pr_CreatedAt := pr_CreatedAt q, pr_RowVersion := pr_RowVersion q + 1\<rparr>"
  obtain rows where e': "e' = indexEntity (project_doc ?r)
      (e\<lparr>es_projects := update_where (\<lambda>q. pr_ID q = pr_ID r) ?new (es_projects e), es_log := rows\<rparr>)"
    and ok: "project_checks ?r" "list_all (\<lambda>q. pr_ID q \<noteq> pr_ID r \<longrightarrow> pr_Code q \<noteq> pr_Code r) (es_projects e)"
    using assms(1) before
    by (auto simp: UpdateProject_def Let_def writeTx_def update_project_def bind_result_Inr logging_Inr split: if_splits)
  have "project_checks (?new q)" for q using ok(1) by (simp add: project_checks_def)
  then have "wf_estate (e\<lparr>es_projects := update_where (\<lambda>q. pr_ID q = pr_ID r) ?new (es_projects e)\<rparr>)"
    using ok(2) by (intro wf_project_update [OF assms(2), where c = "pr_Code r"]) (auto simp: list_all_iff)
  then show ?thesis by (simp add: e')
qed

lemma wf_RetireProject:
  assumes "RetireProject p at now pid e = Inr e'" "wf_estate e"
  shows "wf_estate e'"
proof (cases "get_project e pid")
  case None
  with assms show ?thesis by (simp add: RetireProject_def writeTx_def)
next
  case (Some before)
  let ?new = "\<lambda>q. q\<lparr>pr_Lifecycle := LifecycleRetired, pr_UpdatedAt := now, pr_RowVersion := pr_RowVersion q + 1\<rparr>"
  let ?e1 = "e\<lparr>es_projects := update_where (\<lambda>q. pr_ID q = pid) ?new (es_projects e)\<rparr>"
  from Some have before: "before \<in> set (es_projects e)" "pr_ID before = pid" by (auto simp: get_project_def find_Some_iff)
  have dist: "distinct (map pr_ID (es_projects e))" "distinct (map pr_Code (es_projects e))" "\<forall>p \<in> set (es_projects e). project_checks p"
    using assms(2) by (auto simp: wf_estate_def)
  have only: "q = before" if "q \<in> set (es_projects e)" "pr_ID q = pid" for q
    using dist(1) before that by (metis distinct_map inj_onD)
  have code: "q = before" if "q \<in> set (es_projects e)" "pr_Code q = pr_Code before" for q
    using dist(2) before(1) that by (metis distinct_map inj_onD)
  have "project_checks q \<Longrightarrow> project_checks (?new q)" for q by (simp add: project_checks_def oneOf_def ProjectLifecycles_def)
  then have "wf_estate ?e1"
    using only code before(2) dist(3) by (intro wf_project_update [OF assms(2), where c = "pr_Code before"]) auto
  moreover have "e' = e \<or> (\<exists>rows e2. releaseLinks (begin_tx p at) ProjectAsset pid now (?e1\<lparr>es_log := rows\<rparr>) = Inr e2
      \<and> releaseLinks (begin_tx p at) ProjectService pid now e2 = Inr e')"
    using assms(1) Some by (auto simp: RetireProject_def Let_def writeTx_def bind_result_Inr logging_Inr split: if_splits)
  ultimately show ?thesis using assms(2) by (auto dest!: wf_releaseLinks)
qed

lemma wf_assignments:
  assumes "wf_estate e" "assignments_ok (e\<lparr>es_assignments := rows\<rparr>)"
  shows "wf_estate (e\<lparr>es_assignments := rows\<rparr>)"
proof -
  have "links_ok (e\<lparr>es_assignments := rows\<rparr>) tb = links_ok e tb" for tb by (simp add: links_ok_def)
  with assms show ?thesis by (simp add: wf_estate_def)
qed

lemma wf_AssignProject:
  assumes "AssignProject p at now newID u q e = Inr e'" "wf_estate e"
  shows "wf_estate e'"
proof (cases "list_ex (held_by u q) (es_assignments e)")
  case True
  with assms show ?thesis by (simp add: AssignProject_def writeTx_def)
next
  case False
  let ?row = "\<lparr>up_ID = newID, up_UserID = u, up_ProjectID = q, up_Lifecycle = LifecycleActive,
                    up_CreatedAt = now, up_UpdatedAt = now, up_RowVersion = 1\<rparr>"
  let ?rows = "es_assignments e @ [?row]"
  obtain rows where e': "e' = e\<lparr>es_assignments := ?rows, es_log := rows\<rparr>"
    and ok: "list_all (\<lambda>r. up_ID r \<noteq> newID \<and> \<not> held_by u q r) (es_assignments e)" "u \<in> set (es_users e)" "get_project e q \<noteq> None"
    using assms(1) False by (auto simp: AssignProject_def writeTx_def Let_def insert_assignment_def bind_result_Inr logging_Inr)
  have a: "assignments_ok e" using assms(2) by (simp add: wf_estate_def)
  have one: "one_assignment (es_assignments e)" using a by (simp add: assignments_ok_def)
  have "one_assignment ?rows"
    unfolding one_assignment_def
  proof (intro ballI impI, elim conjE)
    fix s t
    assume st: "s \<in> set ?rows" "t \<in> set ?rows" "held_by (up_UserID s) (up_ProjectID s) s" "held_by (up_UserID s) (up_ProjectID s) t"
    show "up_ID s = up_ID t"
    proof (cases "s = ?row \<or> t = ?row")
      case True
      then have "held_by u q s" "held_by u q t" using st(3,4) by (auto simp: held_by_def)
      with st(1,2) ok(1) show ?thesis by (auto simp: list_all_iff)
    next
      case False
      with st(1,2) have "s \<in> set (es_assignments e)" "t \<in> set (es_assignments e)" by simp_all
      with st(3,4) one show ?thesis unfolding one_assignment_def by blast
    qed
  qed
  with a ok have "assignments_ok (e\<lparr>es_assignments := ?rows\<rparr>)"
    by (auto simp: assignments_ok_def list_all_iff get_project_None)
  from wf_assignments [OF assms(2) this] show ?thesis by (simp add: e')
qed

lemma wf_ReleaseProject:
  assumes "ReleaseProject p at now u q e = Inr e'" "wf_estate e"
  shows "wf_estate e'"
proof (cases "find (held_by u q) (es_assignments e)")
  case None
  with assms show ?thesis by (simp add: ReleaseProject_def writeTx_def)
next
  case (Some r)
  let ?new = "\<lambda>q. q\<lparr>up_Lifecycle := LifecycleRetired, up_UpdatedAt := now, up_RowVersion := up_RowVersion q + 1\<rparr>"
  let ?rows = "update_where (\<lambda>q. up_ID q = up_ID r) ?new (es_assignments e)"
  obtain rows where e': "e' = e\<lparr>es_assignments := ?rows, es_log := rows\<rparr>"
    using assms(1) Some by (auto simp: ReleaseProject_def writeTx_def logging_Inr)
  have a: "assignments_ok e" using assms(2) by (simp add: wf_estate_def)
  have mem: "\<exists>t \<in> set (es_assignments e). up_ID s = up_ID t \<and> up_UserID s = up_UserID t \<and> up_ProjectID s = up_ProjectID t
      \<and> (\<forall>v w. held_by v w s \<longrightarrow> held_by v w t)" if s: "s \<in> set ?rows" for s
  proof -
    obtain t where "t \<in> set (es_assignments e)" "s = (if up_ID t = up_ID r then ?new t else t)"
      using s unfolding in_update_where by blast
    then show ?thesis by (intro bexI [of _ t]) (auto simp: held_by_def)
  qed
  have "map up_ID ?rows = map up_ID (es_assignments e)" "map up_UserID ?rows = map up_UserID (es_assignments e)"
    "map up_ProjectID ?rows = map up_ProjectID (es_assignments e)"
    by (rule map_update_where; simp)+
  moreover from this have "up_UserID ` set ?rows = up_UserID ` set (es_assignments e)"
    "up_ProjectID ` set ?rows = up_ProjectID ` set (es_assignments e)"
    by (metis list.set_map)+
  moreover have "one_assignment ?rows"
    unfolding one_assignment_def
  proof (intro ballI impI, elim conjE)
    fix s t
    assume st: "s \<in> set ?rows" "t \<in> set ?rows" "held_by (up_UserID s) (up_ProjectID s) s" "held_by (up_UserID s) (up_ProjectID s) t"
    obtain s' where s': "s' \<in> set (es_assignments e)" "up_ID s = up_ID s'" "held_by (up_UserID s) (up_ProjectID s) s'"
      using mem [OF st(1)] st(3) by blast
    obtain t' where t': "t' \<in> set (es_assignments e)" "up_ID t = up_ID t'" "held_by (up_UserID s) (up_ProjectID s) t'"
      using mem [OF st(2)] st(4) by blast
    have "up_UserID s' = up_UserID s" "up_ProjectID s' = up_ProjectID s" using s'(3) by (auto simp: held_by_def)
    with s' t' have h: "held_by (up_UserID s') (up_ProjectID s') s'" "held_by (up_UserID s') (up_ProjectID s') t'" by simp_all
    from a have "one_assignment (es_assignments e)" by (simp add: assignments_ok_def)
    with h s'(1) t'(1) have "up_ID s' = up_ID t'" unfolding one_assignment_def by blast
    with s'(2) t'(2) show "up_ID s = up_ID t" by simp
  qed
  ultimately have "assignments_ok (e\<lparr>es_assignments := ?rows\<rparr>)" using a by (simp add: assignments_ok_def)
  from wf_assignments [OF assms(2) this] show ?thesis by (simp add: e')
qed

lemmas wf_ops =
  wf_CreateProject wf_UpdateProject wf_RetireProject wf_LinkProject wf_retireLink wf_AssignProject wf_ReleaseProject

lemma wf_run_op: "run_op p at op e = Inr e' \<Longrightarrow> wf_estate e \<Longrightarrow> wf_estate e'"
  by (cases op) (auto dest: wf_ops)

interpretation tables: step_invariant project_step wf_estate
  by unfold_locales (auto elim!: project_stepE dest: wf_run_op)

text \<open>
  The tables stay consistent: from a consistent estate, no sequence of operations by any callers
  breaks a key, a foreign key or a check, and an asset, service or circuit never has two active
  owners.
\<close>

theorem tables_stay_consistent:
  assumes "wf_estate e" "project_step\<^sup>*\<^sup>* e e'"
  shows "wf_estate e' \<and> (\<forall>tb i. length (filter (\<lambda>l. active_owner l \<and> ln_EntityID l = i) (es_links e' tb)) \<le> 1)"
proof (intro conjI allI)
  show wf: "wf_estate e'" using tables.reachable assms by blast
  fix tb i
  let ?own = "filter (\<lambda>l. active_owner l \<and> ln_EntityID l = i) (es_links e' tb)"
  have ok: "one_owner (es_links e' tb)" "distinct (map (\<lambda>l. (ln_ProjectID l, ln_EntityID l)) (es_links e' tb))"
    using wf by (auto simp: wf_estate_def links_ok_def)
  show "length ?own \<le> 1"
  proof (rule ccontr)
    assume "\<not> length ?own \<le> 1"
    then obtain l m rest where own: "?own = l # m # rest" by (cases ?own; cases "tl ?own") auto
    then have lm: "l \<in> set ?own" "m \<in> set ?own" by simp_all
    then have "ln_ProjectID l = ln_ProjectID m" using ok(1) unfolding one_owner_def by auto
    moreover have "ln_EntityID l = ln_EntityID m" using lm by simp
    moreover have "distinct (map (\<lambda>l. (ln_ProjectID l, ln_EntityID l)) ?own)" using ok(2) by (rule distinct_map_filter)
    ultimately show False by (simp add: own)
  qed
qed

section \<open>Project owners\<close>

lemma linked_iff: "linked e tb q i \<longleftrightarrow>
    (\<exists>l \<in> set (es_links e tb). same_link q i l \<and> ln_Lifecycle l = LifecycleActive) \<and> live_project e q"
  by (simp add: linked_def list_ex_iff)

lemma live_project_cong: "es_projects e' = es_projects e \<Longrightarrow> live_project e' q = live_project e q"
  by (simp add: live_project_def)

lemma holds_cong: "es_projects e' = es_projects e \<Longrightarrow> es_assignments e' = es_assignments e \<Longrightarrow> holds e' u q = holds e u q"
  by (simp add: holds_def live_project_def)

lemma linked_upsert:
  assumes "upsert_link tb l e = Inr e'" "linked e' tb' q i"
  shows "linked e tb' q i \<or> (tb' = tb \<and> q = ln_ProjectID l \<and> i = ln_EntityID l)"
proof -
  note up = upsert_link_Inr(1) [OF assms(1)]
  have live: "live_project e' q = live_project e q" by (rule live_project_cong) (simp add: up)
  obtain r where r: "r \<in> set (es_links e' tb')" "same_link q i r" "ln_Lifecycle r = LifecycleActive" "live_project e q"
    using assms(2) unfolding linked_iff live by blast
  show ?thesis
  proof (cases "r \<in> set (es_links e tb')")
    case True
    with r show ?thesis unfolding linked_iff by blast
  next
    case False
    with r(1) have "tb' = tb" "same_link (ln_ProjectID l) (ln_EntityID l) r"
      by (auto simp: up in_update_where same_link_def split: if_splits)
    with r(2) show ?thesis by (simp add: same_link_def)
  qed
qed

lemma linked_retire:
  assumes "linked (retire_links tb P now e) tb' q i"
  shows "linked e tb' q i"
proof -
  let ?e = "retire_links tb P now e"
  have live: "live_project ?e q = live_project e q" by (rule live_project_cong) (simp add: retire_links_def)
  obtain r where r: "r \<in> set (es_links ?e tb')" "same_link q i r" "ln_Lifecycle r = LifecycleActive" "live_project e q"
    using assms unfolding linked_iff live by blast
  then have "r \<in> set (es_links e tb')" by (auto simp: retire_links_def in_update_where split: if_splits)
  with r show ?thesis unfolding linked_iff by blast
qed

text \<open>A scoped permit changes nothing but links of an entity in its scope.\<close>

lemma scoped_op:
  assumes "run_op (Some (scopedPermit a ps ents)) at op e = Inr e'" "\<forall>p \<in> set (es_projects e). CHR ''/'' \<notin> set (pr_ID p)"
  shows "es_projects e' = es_projects e" "es_assignments e' = es_assignments e"
    "linked e' tb q i \<Longrightarrow> linked e tb q i \<or> ents (linked_type tb) i"
proof -
  have "es_projects e' = es_projects e \<and> es_assignments e' = es_assignments e
    \<and> (\<forall>tb q i. linked e' tb q i \<longrightarrow> linked e tb q i \<or> ents (linked_type tb) i)"
  proof (cases op)
    case (OpCreate r)
    with assms(1) show ?thesis
      by (auto simp: CreateProject_def Let_def writeTx_def bind_result_Inr logging_Inr scoped_estate_refused dest!: logCreate_Inr)
  next
    case (OpUpdate r)
    with assms(1) show ?thesis
      by (auto simp: UpdateProject_def Let_def writeTx_def bind_result_Inr logging_Inr scoped_estate_refused
          dest!: logUpdate_covers split: option.splits if_splits)
  next
    case (OpRetire now pid)
    with assms(1) show ?thesis
      by (auto simp: RetireProject_def Let_def writeTx_def bind_result_Inr logging_Inr scoped_estate_refused
          dest!: logUpdate_covers split: option.splits if_splits)
  next
    case (OpLink table l)
    obtain e1 rows where up: "upsert_link table l e = Inr e1" and e': "e' = e1\<lparr>es_log := rows\<rparr>"
      and cov: "scoped_Covers ps ents (table_name table) (link_id (ln_ProjectID l) (ln_EntityID l))"
      using assms(1) OpLink
      by (auto simp: LinkProject_def writeTx_def bind_result_Inr Let_def logging_Inr dest!: logCreate_Inr logUpdate_covers split: option.splits)
    have slash: "CHR ''/'' \<notin> set (ln_ProjectID l)" using upsert_link_Inr(3) [OF up] assms(2) by auto
    have "map_of projectLinkTables (table_name table) = Some (linked_type table)" by (auto simp: link_tables)
    from scoped_Covers_link [OF this slash] cov have "ents (linked_type table) (ln_EntityID l)"
      by (simp add: link_id_def)
    moreover have "linked e' tb q i = linked e1 tb q i" for tb q i by (simp add: e' linked_def live_project_def)
    ultimately have "linked e' tb q i \<longrightarrow> linked e tb q i \<or> ents (linked_type tb) i" for tb q i
      using linked_upsert [OF up, of tb q i] by blast
    then show ?thesis by (simp add: e' upsert_link_Inr(1) [OF up])
  next
    case (OpRetireLink now table pid i)
    then have "e' = e \<or> (\<exists>rows. e' = (retire_links table (same_link pid i) now e)\<lparr>es_log := rows\<rparr>)"
      using assms(1) by (cases "get_link e table pid i") (auto simp: retireLink_def writeTx_def logging_Inr split: if_splits)
    moreover have "linked (e1\<lparr>es_log := rows\<rparr>) tb q i = linked e1 tb q i" for e1 rows tb q i
      by (simp add: linked_def live_project_def)
    moreover have "es_projects (retire_links table P now e) = es_projects e"
      "es_assignments (retire_links table P now e) = es_assignments e" for P
      by (simp_all add: retire_links_def)
    ultimately show ?thesis using linked_retire [of table "same_link pid i" now e] by (elim disjE exE) simp_all
  next
    case (OpAssign now newID u pid)
    with assms(1) show ?thesis
      by (auto simp: AssignProject_def Let_def writeTx_def bind_result_Inr logging_Inr scoped_estate_refused
          dest!: logCreate_Inr split: if_splits)
  next
    case (OpRelease now u pid)
    with assms(1) show ?thesis
      by (auto simp: ReleaseProject_def writeTx_def logging_Inr tx_log_Inr scoped_estate_refused split: option.splits)
  qed
  then show "es_projects e' = es_projects e" "es_assignments e' = es_assignments e"
    "linked e' tb q i \<Longrightarrow> linked e tb q i \<or> ents (linked_type tb) i" by blast+
qed

lemma owner_step_scope:
  assumes "owner_step admins us e e'" "\<forall>p \<in> set (es_projects e). CHR ''/'' \<notin> set (pr_ID p)"
  shows "owner_scope e' us \<subseteq> owner_scope e us \<and> es_projects e' = es_projects e"
  using assms(1)
proof (rule owner_stepE)
  let ?az = "NewAuthorizer admins (store_resolver e)"
  fix u p at op
  assume u: "usr_ID u \<in> us" "\<not> isAdministrator ?az u" "mintPermit ?az (Some u) = Inr p"
    and run: "run_op (Some p) at op e = Inr e'"
  have act: "usr_IsActive u" and role: "usr_Role u = RoleProjectOwner"
    using u(2,3) by (auto simp: mintPermit_def split: if_splits)
  have az: "az_projects ?az = store_resolver e" by (simp add: NewAuthorizer_def)
  obtain ps ents where mint: "mintPermit ?az (Some u) = Inr (scopedPermit (UserActor u) ps ents)"
    and ents: "\<And>t i. ents t i \<longleftrightarrow> (\<exists>tb q. t = linked_type tb \<and> holds e (usr_ID u) q \<and> linked e tb q i)"
    using store.mint_owner [OF act u(2) role az] by metis
  from mint u(3) have p: "p = scopedPermit (UserActor u) ps ents" by simp
  note op = scoped_op [OF run [unfolded p] assms(2)]
  have "\<exists>v \<in> us. \<exists>q. holds e v q \<and> linked e tb q i" if "v \<in> us" "holds e' v q" "linked e' tb q i" for v q tb i
    using op(3) [OF that(3)]
  proof
    assume "linked e tb q i"
    with that(1,2) show ?thesis unfolding holds_cong [OF op(1,2)] by blast
  next
    assume "ents (linked_type tb) i"
    then obtain tb' q' where "linked_type tb = linked_type tb'" "holds e (usr_ID u) q'" "linked e tb' q' i"
      unfolding ents by blast
    with u(1) show ?thesis using linked_type_inj by blast
  qed
  with op(1) show ?thesis by (auto simp: owner_scope_def)
qed

section \<open>Retiring a project\<close>

lemma sort_eq_Nil: "sort xs = [] \<longleftrightarrow> xs = []" for xs :: "string list"
  by (metis set_sort set_empty)

lemma released_inactive:
  "l \<in> set (update_where (active_link_of pid) (\<lambda>l. l\<lparr>ln_Lifecycle := LifecycleRetired, ln_UpdatedAt := now\<rparr>) rows) \<Longrightarrow>
   \<not> active_link_of pid l"
  by (erule in_update_whereE) (simp_all add: active_link_of_def)

lemma releaseLinks_links:
  assumes "releaseLinks t tb pid now e = Inr e'"
  shows "es_links e' = (es_links e)(tb := update_where (active_link_of pid)
           (\<lambda>l. l\<lparr>ln_Lifecycle := LifecycleRetired, ln_UpdatedAt := now\<rparr>) (es_links e tb))"
    and "es_projects e' = es_projects e"
proof -
  have id: "update_where P f rows = rows" if "filter P rows = []" for P f and rows :: "projectLink list"
    using that by (induction rows) (auto simp: update_where_def split: if_splits)
  show "es_links e' = (es_links e)(tb := update_where (active_link_of pid)
           (\<lambda>l. l\<lparr>ln_Lifecycle := LifecycleRetired, ln_UpdatedAt := now\<rparr>) (es_links e tb))"
    using assms by (auto simp: releaseLinks_def Let_def logging_Inr retire_links_def id sort_eq_Nil split: if_splits)
  show "es_projects e' = es_projects e"
    using assms by (auto simp: releaseLinks_def Let_def logging_Inr retire_links_def split: if_splits)
qed

lemma RetireProject_links:
  assumes "RetireProject p at now pid e = Inr e'" "live_project e pid" "distinct (map pr_ID (es_projects e))"
  shows "\<not> live_project e' pid"
    "es_links e' = (es_links e)
       (ProjectAsset := update_where (active_link_of pid) (\<lambda>l. l\<lparr>ln_Lifecycle := LifecycleRetired, ln_UpdatedAt := now\<rparr>) (es_links e ProjectAsset),
        ProjectService := update_where (active_link_of pid) (\<lambda>l. l\<lparr>ln_Lifecycle := LifecycleRetired, ln_UpdatedAt := now\<rparr>) (es_links e ProjectService))"
    "map pr_ID (es_projects e') = map pr_ID (es_projects e)"
proof -
  obtain before where before: "get_project e pid = Some before"
    using assms(1) by (auto simp: RetireProject_def writeTx_def split: option.splits)
  let ?new = "\<lambda>q. q\<lparr>pr_Lifecycle := LifecycleRetired, pr_UpdatedAt := now, pr_RowVersion := pr_RowVersion q + 1\<rparr>"
  let ?ps = "update_where (\<lambda>q. pr_ID q = pid) ?new (es_projects e)"
  obtain r where r: "r \<in> set (es_projects e)" "pr_ID r = pid" "\<not> IsRetired r"
    using assms(2) by (auto simp: live_project_def list_ex_iff)
  have "before \<in> set (es_projects e)" "pr_ID before = pid" using before by (auto simp: get_project_def find_Some_iff)
  with r assms(3) have "\<not> IsRetired before" by (metis distinct_map inj_onD)
  with before assms(1) obtain rows e1 where
    r1: "releaseLinks (begin_tx p at) ProjectAsset pid now (e\<lparr>es_projects := ?ps, es_log := rows\<rparr>) = Inr e1"
    and r2: "releaseLinks (begin_tx p at) ProjectService pid now e1 = Inr e'"
    by (auto simp: RetireProject_def Let_def writeTx_def bind_result_Inr logging_Inr)
  have ps: "es_projects e' = ?ps" using releaseLinks_links(2) [OF r1] releaseLinks_links(2) [OF r2] by simp
  have "IsRetired q" if "q \<in> set ?ps" "pr_ID q = pid" for q
    using that(1) by (rule in_update_whereE) (use that(2) in \<open>simp_all add: IsRetired_def\<close>)
  then show "\<not> live_project e' pid" by (auto simp: live_project_def ps list_ex_iff)
  show "map pr_ID (es_projects e') = map pr_ID (es_projects e)" unfolding ps by (rule map_update_where) simp
  show "es_links e' = (es_links e)
       (ProjectAsset := update_where (active_link_of pid) (\<lambda>l. l\<lparr>ln_Lifecycle := LifecycleRetired, ln_UpdatedAt := now\<rparr>) (es_links e ProjectAsset),
        ProjectService := update_where (active_link_of pid) (\<lambda>l. l\<lparr>ln_Lifecycle := LifecycleRetired, ln_UpdatedAt := now\<rparr>) (es_links e ProjectService))"
    using releaseLinks_links(1) [OF r1] releaseLinks_links(1) [OF r2] by simp
qed

text \<open>
  Retiring a live project retires it, leaves it no active link to an asset or a service, so that
  another project may own them, and takes its holders' scope over it away at once; but it leaves
  every link to a circuit as it was.
\<close>

theorem retire_project_releases:
  assumes "RetireProject p at now pid e = Inr e'" "live_project e pid" "wf_estate e"
  shows "(\<forall>tb l. l \<in> set (es_links e' tb) \<and> active_link_of pid l \<longrightarrow> tb = ProjectCircuit)
     \<and> (\<forall>u. \<not> holds e' u pid) \<and> (\<forall>tb i. \<not> linked e' tb pid i)
     \<and> es_links e' ProjectCircuit = es_links e ProjectCircuit"
proof -
  have "distinct (map pr_ID (es_projects e))" using assms(3) by (simp add: wf_estate_def)
  note ret = RetireProject_links [OF assms(1,2) this]
  have "tb = ProjectCircuit" if "l \<in> set (es_links e' tb)" "active_link_of pid l" for tb l
  proof (cases tb)
    case ProjectAsset
    with that(1) have "\<not> active_link_of pid l" unfolding ret(2) by (intro released_inactive) simp
    with that(2) show ?thesis by simp
  next
    case ProjectService
    with that(1) have "\<not> active_link_of pid l" unfolding ret(2) by (intro released_inactive) simp
    with that(2) show ?thesis by simp
  qed
  moreover have "\<not> holds e' u pid" "\<not> linked e' tb pid i" for u tb i
    using ret(1) by (simp_all add: holds_def linked_def)
  moreover have "es_links e' ProjectCircuit = es_links e ProjectCircuit" by (simp add: ret(2))
  ultimately show ?thesis by blast
qed

text \<open>
  A circuit stays bound to a retired project: after an owner of a circuit is retired, making any
  other project the owner of the circuit is refused as a conflict, whatever the caller's permit,
  although the retired project no longer gives anybody scope over the circuit. (C38)
\<close>

theorem retired_owner_blocks_circuit:
  assumes "RetireProject p at now pid e = Inr e'" "live_project e pid" "wf_estate e"
    and "l \<in> set (es_links e ProjectCircuit)" "active_owner l" "ln_ProjectID l = pid"
    and "ln_EntityID m = ln_EntityID l" "ln_Relation m = ProjectOwns" "ln_ProjectID m \<noteq> pid"
  shows "LinkProjectCircuit q at' m e' = Inl ErrConflict"
proof -
  have "distinct (map pr_ID (es_projects e))" using assms(3) by (simp add: wf_estate_def)
  note ret = RetireProject_links [OF assms(1,2) this]
  have l: "l \<in> set (es_links e' ProjectCircuit)" using assms(4) by (simp add: ret(2))
  have "pid \<in> pr_ID ` set (es_projects e')"
    using assms(2) ret(3) by (metis (mono_tags, lifting) imageI list.set_map live_project_def list_ex_iff)
  then have "get_project e' pid \<noteq> None" by (simp add: get_project_None)
  with l assms(5-9) have "checkOwnerFree e' ProjectCircuit (ln_EntityID m) (ln_ProjectID m) = Inl ErrConflict"
    by (auto simp: checkOwnerFree_def require_def list_ex_iff)
  with assms(8) show ?thesis by (simp add: LinkProjectCircuit_def LinkProject_def writeTx_def)
qed

text \<open>
  Linking again misreports the creation: when a link that exists is written again later, the trail
  records that its creation time changed to the new one, but the row keeps the old creation time.
\<close>

theorem relink_trail_disagrees:
  assumes "LinkProject tb p at l e = Inr e'" "get_link e tb (ln_ProjectID l) (ln_EntityID l) = Some before"
    and "ln_CreatedAt l \<noteq> ln_CreatedAt before"
  shows "(\<exists>after. get_link e' tb (ln_ProjectID l) (ln_EntityID l) = Some after \<and> ln_CreatedAt after = ln_CreatedAt before)
     \<and> (\<exists>r c. es_log e' = es_log e @ [r] \<and> cl_Diff r = Changes c
          \<and> (''created_at'', VText (ln_CreatedAt before), VText (ln_CreatedAt l)) \<in> set c)"
proof -
  let ?lid = "link_id (ln_ProjectID l) (ln_EntityID l)"
  obtain e1 rows where up: "upsert_link tb l e = Inr e1"
    and log: "logUpdate (begin_tx p at) (table_name tb) ?lid (link_row tb before) (link_row tb l) (es_log e1) = Inr rows"
    and e': "e' = e1\<lparr>es_log := rows\<rparr>"
    using assms(1,2) by (auto simp: LinkProject_def writeTx_def bind_result_Inr Let_def logging_Inr)
  have e1: "es_log e1 = es_log e" by (simp add: upsert_link_Inr(1) [OF up])
  let ?c = "field_changes (auditFields (au_fields (link_row tb before))) (auditFields (au_fields (link_row tb l)))"
  have c: "(''created_at'', VText (ln_CreatedAt before), VText (ln_CreatedAt l)) \<in> set ?c"
    unfolding link_columns using assms(3)
    by (cases tb) (simp_all add: field_changes_Cons field_changes_Nil Let_def IsRedacted_def RedactedFields_def RedactedFieldsByEntity_def)
  then have "?c \<noteq> []" by auto
  with log have "\<exists>r. rows = es_log e @ [r] \<and> cl_Diff r = Changes ?c"
    by (auto simp: logUpdate_def logUpdateBatch_def bind_result_Inr diffJSON_def Let_def tx_log_Inr e1 log_row_def split: if_splits)
  with c have trail: "\<exists>r c. es_log e' = es_log e @ [r] \<and> cl_Diff r = Changes c
          \<and> (''created_at'', VText (ln_CreatedAt before), VText (ln_CreatedAt l)) \<in> set c"
    by (auto simp: e')
  have "get_link e' tb (ln_ProjectID l) (ln_EntityID l) = Some (l\<lparr>ln_CreatedAt := ln_CreatedAt before\<rparr>)"
    using get_link_upsert [OF up, of tb "ln_ProjectID l" "ln_EntityID l"] assms(2)
    by (simp add: e' same_link_def get_link_def)
  with trail show ?thesis by simp
qed

section \<open>Witnesses of the table properties\<close>

lemma demo_runs:
  "\<exists>e. demo_retired = Inr e" "\<exists>e. demo_relinked = Inr e"
proof -
  have "case demo_retired of Inl _ \<Rightarrow> False | Inr _ \<Rightarrow> True" "case demo_relinked of Inl _ \<Rightarrow> False | Inr _ \<Rightarrow> True" by code_simp+
  then show "\<exists>e. demo_retired = Inr e" "\<exists>e. demo_relinked = Inr e" by (auto split: sum.splits)
qed

theorem tables_stay_consistent_witness:
  "\<exists>e. demo_retired = Inr e \<and> wf_estate e"
proof -
  obtain e where e: "demo_retired = Inr e" using demo_runs(1) by blast
  then have "project_step\<^sup>*\<^sup>* demo_estate e"
    unfolding demo_retired_def using step [of _ _ "OpRetire demo_time ''p1''"] by (metis r_into_rtranclp run_op.simps(3))
  with tables_stay_consistent [OF demo_estate_wf] e show ?thesis by blast
qed

lemma demo_live: "live_project demo_estate ''p1''"
  by code_simp

theorem retire_project_releases_witness:
  "\<exists>e. demo_retired = Inr e \<and> \<not> holds e ''u1'' ''p1'' \<and> es_links e ProjectCircuit = es_links demo_estate ProjectCircuit"
proof -
  obtain e where e: "demo_retired = Inr e" using demo_runs(1) by blast
  from retire_project_releases [OF this [unfolded demo_retired_def] demo_live demo_estate_wf] e show ?thesis by blast
qed

theorem retired_owner_blocks_circuit_witness:
  "\<exists>e. demo_retired = Inr e
     \<and> LinkProjectCircuit (Some demo_admin) demo_time (demo_link\<lparr>ln_ProjectID := ''p2''\<rparr>) e = Inl ErrConflict"
proof -
  obtain e where e: "demo_retired = Inr e" using demo_runs(1) by blast
  define l where "l = hd (es_links demo_estate ProjectCircuit)"
  have l: "List.member (es_links demo_estate ProjectCircuit) l" "active_owner l" "ln_ProjectID l = ''p1''"
    "ln_EntityID (demo_link\<lparr>ln_ProjectID := ''p2''\<rparr>) = ln_EntityID l"
    unfolding l_def by code_simp+
  from l(1) have mem: "l \<in> set (es_links demo_estate ProjectCircuit)" by simp
  from retired_owner_blocks_circuit [OF e [unfolded demo_retired_def] demo_live demo_estate_wf mem l(2-4)] e
  show ?thesis by (intro exI [of _ e]) (simp add: demo_link_def)
qed

theorem relink_trail_disagrees_witness:
  "\<exists>e r c. demo_relinked = Inr e \<and> es_log e = es_log demo_estate @ [r] \<and> cl_Diff r = Changes c
     \<and> (''created_at'', VText ''2026-01-01T09:00:00Z'', VText ''2026-01-02T09:00:00Z'') \<in> set c"
proof -
  obtain e where e: "demo_relinked = Inr e" using demo_runs(2) by blast
  define before where "before = hd (es_links demo_estate ProjectCircuit)"
  have b: "get_link demo_estate ProjectCircuit (ln_ProjectID demo_link) (ln_EntityID demo_link) = Some before"
    "ln_CreatedAt demo_link \<noteq> ln_CreatedAt before" "ln_CreatedAt before = ''2026-01-01T09:00:00Z''"
    "ln_CreatedAt demo_link = ''2026-01-02T09:00:00Z''"
    unfolding before_def by code_simp+
  from relink_trail_disagrees [OF e [unfolded demo_relinked_def] b(1,2)] e show ?thesis unfolding b(3,4) by blast
qed

end
