(* ===== verification/Project_Trail.thy ===== *)
theory Project_Trail
  imports Project_Tables
begin

text \<open>
  The audit trail of a project: from its creation on, replaying what the operations of
  internal/store/projects.go and user_projects.go logged about a project gives the row the table
  holds. The link tables are different: their retirements are logged as fixed texts and linking
  again logs a creation time that is not stored (theorem \<open>relink_trail_disagrees\<close>).
\<close>

section \<open>What the operations log about a project\<close>

abbreviation project_entries :: "string \<Rightarrow> estate \<Rightarrow> changeLog list" where
  "project_entries i e \<equiv> entries_of ''project'' i (es_log e)"

lemma table_name_project [simp]: "table_name tb \<noteq> ''project''"
  by (cases tb) simp_all

lemma visible_audited:
  assumes "visible (project_row p) k = Some v"
  shows "visible (auditedProject q tags) k = visible (project_row q) k"
proof -
  have "k \<noteq> ''tags''" using assms by (auto simp: visible_def project_columns_audited project_columns_def split: if_splits)
  then show ?thesis by (simp add: visible_def project_audit_columns map_add_def split: option.splits)
qed

text \<open>The audited columns are the same for all projects, and neither of the two the trail leaves out.\<close>

lemma visible_unversioned [simp]:
  "visible (project_row (p\<lparr>pr_RowVersion := n\<rparr>)) = visible (project_row p)"
  "visible (project_row (p\<lparr>pr_UpdatedAt := u\<rparr>)) = visible (project_row p)"
  by (rule ext, simp add: visible_def project_columns_audited project_columns_def)+

lemma visible_dom: "visible (project_row p) k = None \<longleftrightarrow> visible (project_row q) k = None"
  by (simp add: visible_def project_columns_audited project_columns_def)

lemma project_shapes:
  "shape (project_row p) = shape (project_row q)" "shape (auditedProject p tags) = shape (auditedProject q tags')"
  by (simp_all add: shape_def project_row_def auditedProject_def project_columns_def)

text \<open>A project whose trail gives its row, or one that has neither.\<close>

definition trail_ok :: "string \<Rightarrow> estate \<Rightarrow> bool" where
  "trail_ok i e \<longleftrightarrow>
     (case get_project e i of
        None \<Rightarrow> project_entries i e = []
      | Some p \<Rightarrow> \<forall>k v. visible (project_row p) k = Some v \<longrightarrow> replay (project_entries i e) k = Some v)"

lemma trail_ok_same:
  "get_project e' i = get_project e i \<Longrightarrow> project_entries i e' = project_entries i e \<Longrightarrow> trail_ok i e' = trail_ok i e"
  by (simp add: trail_ok_def split: option.splits)

lemma trail_index [simp]: "trail_ok i (indexEntity doc e) = trail_ok i e"
  by (simp add: trail_ok_def get_project_def indexEntity_def split: option.splits)

text \<open>An update of the row of a project that is logged against the row before it.\<close>

lemma trail_update:
  assumes "trail_ok i e" "get_project e pid = Some before"
    and "logUpdate t ''project'' pid b a (es_log e) = Inr rows" "shape b = shape a"
    and "\<And>k v. visible (project_row before) k = Some v \<Longrightarrow> visible b k = Some v"
    and "\<And>k v. visible (project_row after) k = Some v \<Longrightarrow> visible a k = Some v"
    and "get_project e' pid = Some after" "\<And>q. q \<noteq> pid \<Longrightarrow> get_project e' q = get_project e q" "es_log e' = rows"
  shows "trail_ok i e'"
proof (cases "i = pid")
  case True
  have "replay (project_entries i e') k = Some v" if v: "visible (project_row after) k = Some v" for k v
  proof -
    obtain w where w: "visible (project_row before) k = Some w" using v visible_dom [of after k before] by (cases "visible (project_row before) k") auto
    with assms(1,2) True have "replay (project_entries i e) k = Some w" by (simp add: trail_ok_def)
    with assms(5) [OF w] have "replay (project_entries i e) k = visible b k" by simp
    from replay_changes [OF assms(4), of "replay (project_entries i e)" k, OF this] assms(6) [OF v] show ?thesis
      using logUpdate_replay(1) [OF assms(3)] by (simp add: True assms(9))
  qed
  with True assms(7) show ?thesis by (simp add: trail_ok_def)
next
  case False
  with logUpdate_replay(2) [OF assms(3), of "''project''" i] assms(1,8,9) trail_ok_same [of e' i e] show ?thesis by simp
qed

lemma trail_CreateProject:
  assumes "CreateProject p at r e = Inr e'" "trail_ok i e"
  shows "trail_ok i e'"
proof -
  let ?r = "r\<lparr>pr_RowVersion := 1\<rparr>"
  obtain rows where log: "logCreate (begin_tx p at) ''project'' (pr_ID r) (auditedProject ?r []) (es_log e) = Inr rows"
    and new: "list_all (\<lambda>q. pr_ID q \<noteq> pr_ID r) (es_projects e)"
    and e': "e' = indexEntity (project_doc ?r) (e\<lparr>es_projects := es_projects e @ [?r], es_log := rows\<rparr>)"
    using assms(1) by (auto simp: CreateProject_def Let_def writeTx_def insert_project_def bind_result_Inr logging_Inr list_all_iff)
  have none: "get_project e (pr_ID r) = None" using new by (auto simp: get_project_None list_all_iff)
  show ?thesis
  proof (cases "i = pr_ID r")
    case True
    with none have "get_project (e\<lparr>es_projects := es_projects e @ [?r], es_log := rows\<rparr>) i = Some ?r"
      by (simp add: get_project_def find_append)
    with True logCreate_replay(1) [OF log] visible_audited
    have "trail_ok i (e\<lparr>es_projects := es_projects e @ [?r], es_log := rows\<rparr>)"
      by (simp add: trail_ok_def del: visible_unversioned)
    then show ?thesis by (simp add: e')
  next
    case False
    then have "get_project (e\<lparr>es_projects := es_projects e @ [?r], es_log := rows\<rparr>) i = get_project e i"
      by (simp add: get_project_def find_append split: option.splits)
    moreover have "project_entries i (e\<lparr>es_projects := es_projects e @ [?r], es_log := rows\<rparr>) = project_entries i e"
      using False logCreate_replay(2) [OF log, of "''project''" i] by simp
    ultimately have "trail_ok i (e\<lparr>es_projects := es_projects e @ [?r], es_log := rows\<rparr>)"
      using assms(2) trail_ok_same by metis
    then show ?thesis by (simp add: e')
  qed
qed

lemma trail_UpdateProject:
  assumes "UpdateProject p at r e = Inr e'" "trail_ok i e"
  shows "trail_ok i e'"
proof -
  let ?tags = "entityTagsAudit e (pr_ID r)"
  obtain before where before: "get_project e (pr_ID r) = Some before"
    using assms(1) by (auto simp: UpdateProject_def writeTx_def split: option.splits)
  let ?r = "r\<lparr>pr_CreatedAt := pr_CreatedAt before\<rparr>"
  let ?new = "\<lambda>q. r\<lparr>pr_CreatedAt := pr_CreatedAt q, pr_RowVersion := pr_RowVersion q + 1\<rparr>"
  let ?e1 = "e\<lparr>es_projects := update_where (\<lambda>q. pr_ID q = pr_ID r) ?new (es_projects e)\<rparr>"
  obtain rows where log: "logUpdate (begin_tx p at) ''project'' (pr_ID r) (auditedProject before ?tags) (auditedProject ?r ?tags) (es_log e) = Inr rows"
    and e': "e' = indexEntity (project_doc ?r) (?e1\<lparr>es_log := rows\<rparr>)"
    using assms(1) before
    by (auto simp: UpdateProject_def Let_def writeTx_def update_project_def bind_result_Inr logging_Inr split: if_splits)
  have "get_project (?e1\<lparr>es_log := rows\<rparr>) q = (if q = pr_ID r then map_option ?new (get_project e q) else get_project e q)" for q
    by (simp add: get_project_def find_project_update)
  moreover have "visible (project_row (?new before)) = visible (project_row ?r)" by simp
  ultimately have "trail_ok i (?e1\<lparr>es_log := rows\<rparr>)"
    using before visible_audited
    by (intro trail_update [OF assms(2) before log project_shapes(2), of "?new before"]) (simp_all del: visible_unversioned)
  then show ?thesis by (simp add: e')
qed

lemma releaseLinks_projects:
  assumes "releaseLinks t tb pid now e = Inr e'"
  shows "es_projects e' = es_projects e" "project_entries i e' = project_entries i e"
proof -
  have rel: "entries_of ''project'' i rows' = entries_of ''project'' i rows"
    if "log_released t tb pid ids rows = Inr rows'" for ids rows rows'
    using that by (induction ids arbitrary: rows) (auto simp: bind_result_Inr tx_log_Inr)
  show "es_projects e' = es_projects e" "project_entries i e' = project_entries i e"
    using assms rel by (auto simp: releaseLinks_def Let_def logging_Inr retire_links_def split: if_splits)
qed

lemma trail_RetireProject:
  assumes "RetireProject p at now pid e = Inr e'" "trail_ok i e"
  shows "trail_ok i e'"
proof -
  obtain before where before: "get_project e pid = Some before"
    using assms(1) by (auto simp: RetireProject_def writeTx_def split: option.splits)
  let ?new = "\<lambda>q. q\<lparr>pr_Lifecycle := LifecycleRetired, pr_UpdatedAt := now, pr_RowVersion := pr_RowVersion q + 1\<rparr>"
  let ?e1 = "e\<lparr>es_projects := update_where (\<lambda>q. pr_ID q = pid) ?new (es_projects e)\<rparr>"
  let ?after = "before\<lparr>pr_Lifecycle := LifecycleRetired, pr_UpdatedAt := now\<rparr>"
  show ?thesis
  proof (cases "IsRetired before")
    case True
    with assms before show ?thesis by (simp add: RetireProject_def writeTx_def)
  next
    case False
    obtain rows e2 where log: "logUpdate (begin_tx p at) ''project'' pid (project_row before) (project_row ?after) (es_log e) = Inr rows"
      and r1: "releaseLinks (begin_tx p at) ProjectAsset pid now (?e1\<lparr>es_log := rows\<rparr>) = Inr e2"
      and r2: "releaseLinks (begin_tx p at) ProjectService pid now e2 = Inr e'"
      using assms(1) before False by (auto simp: RetireProject_def Let_def writeTx_def bind_result_Inr logging_Inr)
    have "get_project (?e1\<lparr>es_log := rows\<rparr>) q = (if q = pid then map_option ?new (get_project e q) else get_project e q)" for q
      by (simp add: get_project_def find_project_update)
    then have "trail_ok i (?e1\<lparr>es_log := rows\<rparr>)"
      using before by (intro trail_update [OF assms(2) before log project_shapes(1), of "?new before"]) simp_all
    moreover have "trail_ok i e' = trail_ok i (?e1\<lparr>es_log := rows\<rparr>)"
      using releaseLinks_projects [OF r1] releaseLinks_projects [OF r2]
      by (intro trail_ok_same) (simp_all add: get_project_def)
    ultimately show ?thesis by simp
  qed
qed

text \<open>The operations on links and assignments touch neither the projects nor their entries.\<close>

lemma trail_others:
  "LinkProject tb p at l e = Inr e' \<Longrightarrow> trail_ok i e' = trail_ok i e"
  "retireLink p at now tb q j e = Inr e' \<Longrightarrow> trail_ok i e' = trail_ok i e"
  "AssignProject p at now newID u q e = Inr e' \<Longrightarrow> trail_ok i e' = trail_ok i e"
  "ReleaseProject p at now u q e = Inr e' \<Longrightarrow> trail_ok i e' = trail_ok i e"
proof -
  have upsert: "upsert_link tb l e = Inr e1 \<Longrightarrow> es_projects e1 = es_projects e \<and> es_log e1 = es_log e" for e1
    by (auto simp: upsert_link_def Let_def)
  have created: "logCreate t ty j r rows = Inr rows' \<Longrightarrow> ty \<noteq> ''project'' \<Longrightarrow> entries_of ''project'' i rows' = entries_of ''project'' i rows"
    for t ty j r rows rows' by (rule logCreate_replay(2)) auto
  have updated: "logUpdate t ty j b r rows = Inr rows' \<Longrightarrow> ty \<noteq> ''project'' \<Longrightarrow> entries_of ''project'' i rows' = entries_of ''project'' i rows"
    for t ty j b r rows rows' by (rule logUpdate_replay(2)) auto
  note foreign = created updated
  show "LinkProject tb p at l e = Inr e' \<Longrightarrow> trail_ok i e' = trail_ok i e"
    by (rule trail_ok_same)
      (auto simp: LinkProject_def writeTx_def bind_result_Inr Let_def logging_Inr get_project_def
        dest!: upsert foreign split: option.splits)
  show "retireLink p at now tb q j e = Inr e' \<Longrightarrow> trail_ok i e' = trail_ok i e"
    by (rule trail_ok_same)
      (auto simp: retireLink_def writeTx_def logging_Inr get_project_def tx_log_Inr retire_links_def split: option.splits if_splits)
  show "AssignProject p at now newID u q e = Inr e' \<Longrightarrow> trail_ok i e' = trail_ok i e"
    by (rule trail_ok_same)
      (auto simp: AssignProject_def writeTx_def bind_result_Inr Let_def logging_Inr get_project_def insert_assignment_def
        dest!: foreign split: if_splits)
  show "ReleaseProject p at now u q e = Inr e' \<Longrightarrow> trail_ok i e' = trail_ok i e"
    by (rule trail_ok_same)
      (auto simp: ReleaseProject_def writeTx_def logging_Inr get_project_def tx_log_Inr split: option.splits)
qed

interpretation trail: step_invariant project_step "trail_ok i" for i
proof
  fix e e'
  assume "project_step e e'" and ok: "trail_ok i e"
  then obtain p at op where "run_op p at op e = Inr e'" by (auto elim: project_stepE)
  with ok show "trail_ok i e'"
    by (cases op) (auto simp: trail_others dest: trail_CreateProject trail_UpdateProject trail_RetireProject)
qed

section \<open>Properties\<close>

text \<open>
  The audit trail of a project is complete: take a project id that no row has and no entry of the
  trail names, and any sequence of operations on projects, links and assignments, running one after
  another; when the project then exists, replaying the entries of type \<open>project\<close> under its id, from
  its creation on, gives the stored row on every audited column, although updates that change
  nothing leave no entry. The tags, which are not a column of the row, are left out. (C10)
\<close>

theorem project_trail_replays:
  assumes "project_step\<^sup>*\<^sup>* e e'" "get_project e i = None" "entries_of ''project'' i (es_log e) = []"
    and "get_project e' i = Some p" "visible (project_row p) column = Some v"
  shows "replay (entries_of ''project'' i (es_log e')) column = Some v"
proof -
  have "trail_ok i e" using assms(2,3) by (simp add: trail_ok_def)
  from trail.reachable [OF assms(1) this] assms(4,5) show ?thesis by (simp add: trail_ok_def)
qed

text \<open>A project that is created, renamed and retired.\<close>

definition demo_history :: "estate result" where
  "demo_history =
     bind_result (run_op (Some demo_admin) demo_time (OpCreate \<lparr>pr_ID = ''p9'', pr_Code = ''crm'', pr_Name = ''Customers'', pr_Description = None,
        pr_TeamID = None, pr_PricedForVCPU = None, pr_PricedForMemoryMB = None, pr_Lifecycle = LifecycleActive,
        pr_CreatedAt = demo_time, pr_UpdatedAt = demo_time, pr_RowVersion = 0\<rparr>) demo_estate) (\<lambda>e1.
     bind_result (run_op (Some demo_admin) demo_time (OpUpdate \<lparr>pr_ID = ''p9'', pr_Code = ''crm'', pr_Name = ''CRM'', pr_Description = None,
        pr_TeamID = None, pr_PricedForVCPU = Some 8, pr_PricedForMemoryMB = None, pr_Lifecycle = LifecycleActive,
        pr_CreatedAt = [], pr_UpdatedAt = demo_time, pr_RowVersion = 1\<rparr>) e1)
     (run_op (Some demo_admin) demo_time (OpRetire demo_time ''p9'')))"

theorem project_trail_replays_witness:
  "\<exists>e. demo_history = Inr e \<and> replay (entries_of ''project'' ''p9'' (es_log e)) ''name'' = Some (VText ''CRM'')
     \<and> replay (entries_of ''project'' ''p9'' (es_log e)) ''lifecycle'' = Some (VText LifecycleRetired)"
proof -
  have "case demo_history of Inl _ \<Rightarrow> False | Inr e \<Rightarrow>
      (case get_project e ''p9'' of None \<Rightarrow> False | Some p \<Rightarrow>
        visible (project_row p) ''name'' = Some (VText ''CRM'') \<and> visible (project_row p) ''lifecycle'' = Some (VText LifecycleRetired))"
    by code_simp
  then obtain e p where e: "demo_history = Inr e" "get_project e ''p9'' = Some p"
    "visible (project_row p) ''name'' = Some (VText ''CRM'')" "visible (project_row p) ''lifecycle'' = Some (VText LifecycleRetired)"
    by (auto split: sum.splits option.splits)
  have "project_step\<^sup>*\<^sup>* demo_estate e"
    using e(1) unfolding demo_history_def bind_result_Inr by (meson project_step.step converse_rtranclp_into_rtranclp r_into_rtranclp)
  moreover have "get_project demo_estate ''p9'' = None" "entries_of ''project'' ''p9'' (es_log demo_estate) = []" by code_simp+
  ultimately show ?thesis using project_trail_replays [OF _ _ _ e(2)] e by blast
qed

end
