(* ===== verification/Containment.thy ===== *)
theory Containment
  imports Text "HOL-Library.Product_Lexorder"
begin

text \<open>
  The containment tree and its flattened form: the statements of internal/store/assets.go that
  maintain \<open>asset_closure\<close>, on the rows of that table (ancestor, descendant, depth), and what they
  have to agree with, the ancestors that following the parent column gives.
\<close>

section \<open>The statements\<close>

type_synonym closure = "(string \<times> string \<times> int) list"

definition descendants :: "closure \<Rightarrow> string \<Rightarrow> string list" where
  "descendants cl i = map (\<lambda>(a, d, n). d) (filter (\<lambda>(a, d, n). a = i) cl)"

text \<open>The self row of a new node and one row for each ancestor of its parent.\<close>

definition leaf_rows :: "closure \<Rightarrow> string \<Rightarrow> string option \<Rightarrow> closure" where
  "leaf_rows cl i parent =
     (i, i, 0) #
     (case parent of
        None \<Rightarrow> []
      | Some p \<Rightarrow> if p = [] then [] else map (\<lambda>(a, d, n). (a, i, n + 1)) (filter (\<lambda>(a, d, n). d = p) (cl @ [(i, i, 0)])))"

text \<open>Detach: the rows from outside the subtree into it go.\<close>

definition detach :: "closure \<Rightarrow> string \<Rightarrow> closure" where
  "detach cl i =
     filter (\<lambda>(a, d, n). \<not> (List.member (descendants cl i) d \<and> \<not> List.member (descendants cl i) a)) cl"

text \<open>Reattach: every ancestor of the new parent with every descendant of the moved node.\<close>

definition attach_rows :: "closure \<Rightarrow> string \<Rightarrow> string \<Rightarrow> closure" where
  "attach_rows cl i p =
     concat (map (\<lambda>(a, d, n). map (\<lambda>(a', d', m). (a, d', n + m + 1)) (filter (\<lambda>(a', d', m). a' = i) cl))
       (filter (\<lambda>(a, d, n). d = p) cl))"

definition closure_keys :: "closure \<Rightarrow> (string \<times> string) list" where
  "closure_keys cl = map (\<lambda>(a, d, n). (a, d)) cl"

lemma closure_keys_append [simp]: "closure_keys (cl @ cl') = closure_keys cl @ closure_keys cl'" "closure_keys [] = []"
  by (simp_all add: closure_keys_def)

section \<open>Following parents\<close>

fun nth_parent :: "(string \<Rightarrow> string option) \<Rightarrow> nat \<Rightarrow> string \<Rightarrow> string option" where
  "nth_parent par 0 d = Some d"
| "nth_parent par (Suc n) d = (case par d of None \<Rightarrow> None | Some p \<Rightarrow> nth_parent par n p)"

definition inside :: "(string \<Rightarrow> string option) \<Rightarrow> string \<Rightarrow> string \<Rightarrow> bool" where
  "inside par d a \<longleftrightarrow> (\<exists>n. nth_parent par n d = Some a)"

text \<open>
  The specification of the table: its rows are the ancestors of each node with their distance,
  itself at none, and there is one row for a pair.
\<close>

definition mirrors :: "string set \<Rightarrow> (string \<Rightarrow> string option) \<Rightarrow> closure \<Rightarrow> bool" where
  "mirrors ids par cl \<longleftrightarrow>
     distinct (closure_keys cl)
     \<and> set cl = {(a, d, int n) | a d n. d \<in> ids \<and> nth_parent par n d = Some a}"

definition closed_tree :: "string set \<Rightarrow> (string \<Rightarrow> string option) \<Rightarrow> bool" where
  "closed_tree ids par \<longleftrightarrow> (\<forall>d \<in> ids. \<forall>p. par d = Some p \<longrightarrow> p \<in> ids)"

lemma nth_parent_add: "nth_parent par (m + n) d = Option.bind (nth_parent par m d) (nth_parent par n)"
  by (induction m arbitrary: d) (auto split: option.splits)

lemma nth_parent_in:
  assumes "closed_tree ids par" "d \<in> ids" "nth_parent par n d = Some a"
  shows "a \<in> ids"
  using assms(2,3)
proof (induction n arbitrary: d)
  case (Suc n)
  then obtain p where "par d = Some p" "nth_parent par n p = Some a" by (auto split: option.splits)
  with Suc assms(1) show ?case by (auto simp: closed_tree_def)
qed simp

lemma inside_refl [simp]: "inside par d d"
  by (auto simp: inside_def intro: exI [of _ 0])

lemma inside_trans: "inside par d b \<Longrightarrow> inside par b a \<Longrightarrow> inside par d a"
proof -
  assume "inside par d b" "inside par b a"
  then obtain m n where "nth_parent par m d = Some b" "nth_parent par n b = Some a" by (auto simp: inside_def)
  then have "nth_parent par (m + n) d = Some a" by (simp add: nth_parent_add)
  then show ?thesis unfolding inside_def by blast
qed

section \<open>What an exact table tells\<close>

lemma mirrors_mem: "mirrors ids par cl \<Longrightarrow> (a, d, k) \<in> set cl \<longleftrightarrow> d \<in> ids \<and> (\<exists>n. k = int n \<and> nth_parent par n d = Some a)"
  by (auto simp: mirrors_def)

lemma mirrors_depth:
  assumes "mirrors ids par cl" "d \<in> ids" "nth_parent par m d = Some a" "nth_parent par n d = Some a"
  shows "m = n"
proof -
  have "(a, d, int m) \<in> set cl" "(a, d, int n) \<in> set cl" using assms mirrors_mem by blast+
  moreover have "distinct (map (\<lambda>(a, d, n). (a, d)) cl)"
    using assms(1) unfolding mirrors_def closure_keys_def by blast
  then have "inj_on (\<lambda>(a, d, n). (a, d)) (set cl)" by (simp add: distinct_map)
  ultimately show ?thesis
    using inj_onD [of "\<lambda>(a, d, n). (a, d)" "set cl" "(a, d, int m)" "(a, d, int n)"] by simp
qed

lemma mirrors_descendants:
  "mirrors ids par cl \<Longrightarrow> d \<in> set (descendants cl i) \<longleftrightarrow> d \<in> ids \<and> inside par d i"
  by (auto simp: descendants_def inside_def mirrors_mem image_iff split: prod.splits)

text \<open>A node strictly above another is not inside it.\<close>

lemma no_loop:
  assumes "mirrors ids par cl" "closed_tree ids par" "d \<in> ids" "nth_parent par n d = Some a" "inside par a d"
  shows "n = 0"
proof -
  from assms(5) obtain m where "nth_parent par m a = Some d" by (auto simp: inside_def)
  with assms(4) have "nth_parent par (n + m) d = Some d" by (simp add: nth_parent_add)
  from mirrors_depth [OF assms(1,3) this, of 0] show ?thesis by simp
qed

text \<open>Every chain of parents ends.\<close>

lemma chain_ends:
  assumes "mirrors ids par cl" "d \<in> ids"
  shows "\<exists>n. nth_parent par n d = None"
proof (rule ccontr)
  assume "\<nexists>n. nth_parent par n d = None"
  then have "(the (nth_parent par n d), d, int n) \<in> set cl" for n
    using assms by (simp add: mirrors_mem)
  then have "range (\<lambda>n. (the (nth_parent par n d), d, int n)) \<subseteq> set cl" by auto
  moreover have "inj (\<lambda>n. (the (nth_parent par n d), d, int n))" by (rule injI) simp
  ultimately show False using finite_subset [OF _ finite_set] finite_imageD [of _ UNIV] infinite_UNIV_nat by blast
qed

section \<open>A new leaf\<close>

lemma nth_parent_cong:
  assumes "\<And>e. inside par d e \<Longrightarrow> par' e = par e"
  shows "nth_parent par' n d = nth_parent par n d"
  using assms
proof (induction n arbitrary: d)
  case (Suc n)
  have "par' d = par d" using Suc.prems [of d] by simp
  moreover have "nth_parent par' n p = nth_parent par n p" if "par d = Some p" for p
  proof (rule Suc.IH)
    fix e assume "inside par p e"
    moreover have "nth_parent par (Suc 0) d = Some p" using that by simp
    then have "inside par d p" unfolding inside_def by blast
    ultimately show "par' e = par e" using Suc.prems inside_trans by blast
  qed
  ultimately show ?case by (simp split: option.splits)
qed simp

lemma inside_in: "closed_tree ids par \<Longrightarrow> d \<in> ids \<Longrightarrow> inside par d a \<Longrightarrow> a \<in> ids"
  by (auto simp: inside_def dest: nth_parent_in)

lemma nth_parent_new:
  assumes "closed_tree ids par" "i \<notin> ids" "d \<in> ids"
  shows "nth_parent (par(i := q)) n d = nth_parent par n d"
proof (rule nth_parent_cong)
  fix e assume "inside par d e"
  with assms have "e \<noteq> i" by (auto dest: inside_in)
  then show "(par(i := q)) e = par e" by simp
qed

text \<open>Keys of the rows about one descendant or one ancestor.\<close>

definition ancestors_of :: "closure \<Rightarrow> string \<Rightarrow> string list" where
  "ancestors_of cl p = map fst (filter (\<lambda>(a, d, n). d = p) cl)"

lemma distinct_ancestors:
  assumes "distinct (closure_keys cl)"
  shows "distinct (ancestors_of cl p)"
proof -
  have "map (\<lambda>(a, d, n). (a, d)) (filter (\<lambda>(a, d, n). d = p) cl) = map (\<lambda>a. (a, p)) (ancestors_of cl p)"
    by (induction cl) (auto simp: ancestors_of_def)
  then have "distinct (map (\<lambda>a. (a, p)) (ancestors_of cl p))"
    using distinct_map_filter [OF assms [unfolded closure_keys_def]] by metis
  then show ?thesis by (simp add: distinct_map)
qed

lemma distinct_descendants:
  assumes "distinct (closure_keys cl)"
  shows "distinct (descendants cl i)"
proof -
  have "map (\<lambda>(a, d, n). (a, d)) (filter (\<lambda>(a, d, n). a = i) cl) = map (Pair i) (descendants cl i)"
    by (induction cl) (auto simp: descendants_def)
  then have "distinct (map (Pair i) (descendants cl i))"
    using distinct_map_filter [OF assms [unfolded closure_keys_def]] by metis
  then show ?thesis by (simp add: distinct_map)
qed

lemma set_closure_keys: "(a, d) \<in> set (closure_keys cl) \<longleftrightarrow> (\<exists>n. (a, d, n) \<in> set cl)"
  by (force simp: closure_keys_def)

lemma in_ancestors: "a \<in> set (ancestors_of cl p) \<longleftrightarrow> (\<exists>n. (a, p, n) \<in> set cl)"
  by (force simp: ancestors_of_def)

lemma in_descendants: "d \<in> set (descendants cl i) \<longleftrightarrow> (\<exists>n. (i, d, n) \<in> set cl)"
  by (force simp: descendants_def)

lemma leaf_row_keys:
  "closure_keys (leaf_rows cl i (Some p)) = (i, i) # (if p = [] then [] else map (\<lambda>a. (a, i)) (ancestors_of (cl @ [(i, i, 0)]) p))"
  by (induction cl) (auto simp: closure_keys_def leaf_rows_def ancestors_of_def)

lemma leaf_row_mem:
  assumes "p \<noteq> []" "p \<noteq> i"
  shows "(a, d, k) \<in> set (leaf_rows cl i (Some p)) \<longleftrightarrow> d = i \<and> (a = i \<and> k = 0 \<or> (\<exists>n. k = n + 1 \<and> (a, p, n) \<in> set cl))"
  using assms by (force simp: leaf_rows_def)

lemma mirrors_leaf:
  assumes m: "mirrors ids par cl" and c: "closed_tree ids par" and i: "i \<notin> ids"
    and q: "\<And>p. q = Some p \<Longrightarrow> p \<in> ids \<and> p \<noteq> []"
  shows "mirrors (insert i ids) (par(i := q)) (cl @ leaf_rows cl i q)"
proof -
  let ?par = "par(i := q)"
  have old: "nth_parent ?par n d = nth_parent par n d" if "d \<in> ids" for n d
    using nth_parent_new [OF c i that] .
  have notin: "(a, d, k) \<in> set cl \<Longrightarrow> d \<noteq> i \<and> a \<noteq> i" for a d k
    using mirrors_mem [OF m] i nth_parent_in [OF c] by blast
  have mem: "(a, d, k) \<in> set (leaf_rows cl i q) \<longleftrightarrow> d = i \<and> (\<exists>n. k = int n \<and> nth_parent ?par n i = Some a)" for a d k
  proof (cases q)
    case None
    have "nth_parent ?par n i = Some a \<longleftrightarrow> n = 0 \<and> a = i" for n using None by (cases n) auto
    then show ?thesis using None by (auto simp: leaf_rows_def)
  next
    case (Some p)
    with q i have p: "p \<in> ids" "p \<noteq> []" "p \<noteq> i" by auto
    have "(\<exists>n. k = int n \<and> nth_parent ?par n i = Some a)
        \<longleftrightarrow> a = i \<and> k = 0 \<or> (\<exists>n. k = int (Suc n) \<and> nth_parent par n p = Some a)"
      using Some old [OF p(1)] by (metis fun_upd_same nat.exhaust nth_parent.simps of_nat_0 option.inject option.simps(5))
    also have "\<dots> \<longleftrightarrow> a = i \<and> k = 0 \<or> (\<exists>n. k = n + 1 \<and> (a, p, n) \<in> set cl)"
      using mirrors_mem [OF m] p(1) by auto
    finally show ?thesis using Some leaf_row_mem [OF p(2,3)] by simp
  qed
  have "distinct (closure_keys (leaf_rows cl i q))"
  proof (cases q)
    case (Some p)
    with q i have p: "p \<in> ids" "p \<noteq> []" "p \<noteq> i" by auto
    have "distinct (ancestors_of cl p)" using m distinct_ancestors unfolding mirrors_def by blast
    moreover have "i \<notin> set (ancestors_of cl p)" using notin in_ancestors by blast
    moreover have "ancestors_of (cl @ [(i, i, 0)]) p = ancestors_of cl p" using p by (simp add: ancestors_of_def)
    ultimately show ?thesis using Some p by (auto simp: leaf_row_keys distinct_map inj_on_def)
  qed (simp add: leaf_rows_def closure_keys_def)
  moreover have "set (closure_keys cl) \<inter> set (closure_keys (leaf_rows cl i q)) = {}"
  proof (rule equals0I)
    fix x assume "x \<in> set (closure_keys cl) \<inter> set (closure_keys (leaf_rows cl i q))"
    then obtain a d k l where "(a, d, k) \<in> set cl" "(a, d, l) \<in> set (leaf_rows cl i q)"
      by (cases x) (auto simp: set_closure_keys)
    with notin mem show False by blast
  qed
  ultimately have "distinct (closure_keys (cl @ leaf_rows cl i q))"
    using m by (simp add: mirrors_def closure_keys_def)
  moreover have "set (cl @ leaf_rows cl i q) = {(a, d, int n) | a d n. d \<in> insert i ids \<and> nth_parent ?par n d = Some a}"
    using mem mirrors_mem [OF m] old i by (auto simp: set_eq_iff) 
  ultimately show ?thesis by (simp add: mirrors_def)
qed

section \<open>A move\<close>

lemma nth_parent_outside:
  assumes "\<not> inside par d i"
  shows "nth_parent (par(i := q)) n d = nth_parent par n d"
  by (rule nth_parent_cong) (use assms in auto)

text \<open>Up to the moved node a chain is what it was; beyond it continues at the new parent.\<close>

lemma nth_parent_below:
  assumes "mirrors ids par cl" "closed_tree ids par" "d \<in> ids" "nth_parent par k d = Some i" "n \<le> k"
  shows "nth_parent (par(i := q)) n d = nth_parent par n d"
  using assms(3-5)
proof (induction k arbitrary: d n)
  case (Suc k)
  show ?case
  proof (cases n)
    case (Suc n')
    have "d \<noteq> i" using mirrors_depth [OF assms(1) Suc.prems(1,2), of 0] by auto
    moreover obtain p where "par d = Some p" "nth_parent par k p = Some i" using Suc.prems(2) by (auto split: option.splits)
    moreover have "p \<in> ids" using calculation(2) Suc.prems(1) assms(2) by (auto simp: closed_tree_def)
    ultimately show ?thesis using Suc.IH [of p n'] Suc.prems(3) Suc by simp
  qed simp
qed simp

lemma nth_parent_beyond:
  assumes "mirrors ids par cl" "closed_tree ids par" "d \<in> ids" "nth_parent par k d = Some i"
    and "\<And>p. q = Some p \<Longrightarrow> \<not> inside par p i"
  shows "nth_parent (par(i := q)) (Suc (k + n)) d = (case q of None \<Rightarrow> None | Some p \<Rightarrow> nth_parent par n p)"
proof -
  have "nth_parent (par(i := q)) k d = Some i" using nth_parent_below [OF assms(1-4)] assms(4) by simp
  then have "nth_parent (par(i := q)) (k + Suc n) d = nth_parent (par(i := q)) (Suc n) i" by (simp only: nth_parent_add) simp
  then show ?thesis using assms(5) by (auto simp: nth_parent_outside split: option.splits)
qed

lemma inside_below:
  assumes "mirrors ids par cl" "closed_tree ids par" "d \<in> ids" "i \<in> ids" "nth_parent par k d = Some i" "nth_parent par n d = Some a"
  shows "inside par a i \<longleftrightarrow> n \<le> k"
proof
  assume "n \<le> k"
  then have "nth_parent par (n + (k - n)) d = Some i" using assms(5) by simp
  then have "nth_parent par (k - n) a = Some i" using assms(6) by (simp only: nth_parent_add) simp
  then show "inside par a i" unfolding inside_def by blast
next
  assume ins: "inside par a i"
  show "n \<le> k"
  proof (rule ccontr)
    assume "\<not> n \<le> k"
    then have "nth_parent par (k + (n - k)) d = Some a" using assms(6) by simp
    then have "nth_parent par (n - k) i = Some a" using assms(5) by (simp only: nth_parent_add) simp
    from no_loop [OF assms(1,2,4) this ins] \<open>\<not> n \<le> k\<close> show False by simp
  qed
qed

lemma detach_mem:
  assumes "mirrors ids par cl"
  shows "(a, d, x) \<in> set (detach cl i)
     \<longleftrightarrow> (a, d, x) \<in> set cl \<and> \<not> (d \<in> ids \<and> inside par d i \<and> \<not> (a \<in> ids \<and> inside par a i))"
  using mirrors_descendants [OF assms] by (auto simp: detach_def)

lemma attach_mem:
  "(a, d, x) \<in> set (attach_rows cl i p) \<longleftrightarrow> (\<exists>n m. (a, p, n) \<in> set cl \<and> (i, d, m) \<in> set cl \<and> x = n + m + 1)"
  by (force simp: attach_rows_def)

lemma attach_keys: "closure_keys (attach_rows cl i p) = List.product (ancestors_of cl p) (descendants cl i)"
  by (simp add: closure_keys_def attach_rows_def ancestors_of_def descendants_def product_concat_map map_concat comp_def
      case_prod_beta')

definition moved_rows :: "closure \<Rightarrow> string \<Rightarrow> string option \<Rightarrow> closure" where
  "moved_rows cl i q = detach cl i @ (case q of None \<Rightarrow> [] | Some p \<Rightarrow> attach_rows (detach cl i) i p)"

lemma moved_mem:
  assumes m: "mirrors ids par cl" and c: "closed_tree ids par" and i: "i \<in> ids"
    and q: "\<And>p. q = Some p \<Longrightarrow> p \<in> ids \<and> \<not> inside par p i"
  shows "(a, d, x) \<in> set (moved_rows cl i q)
     \<longleftrightarrow> (a, d, x) \<in> set cl \<and> (inside par d i \<longrightarrow> inside par a i)
       \<or> (\<exists>p n k. q = Some p \<and> (a, p, n) \<in> set cl \<and> (i, d, k) \<in> set cl \<and> x = n + k + 1)"
proof -
  have keep: "(b, p, n) \<in> set (detach cl i) \<longleftrightarrow> (b, p, n) \<in> set cl" if "q = Some p" for b p n
    using q [OF that] by (simp add: detach_mem [OF m])
  have own: "(i, e, k) \<in> set (detach cl i) \<longleftrightarrow> (i, e, k) \<in> set cl" for e k
    using i by (simp add: detach_mem [OF m])
  have "b \<in> ids \<and> e \<in> ids" if "(b, e, k) \<in> set cl" for b e k
    using that nth_parent_in [OF c] by (auto simp: mirrors_mem [OF m])
  then have "(a, d, x) \<in> set (detach cl i) \<longleftrightarrow> (a, d, x) \<in> set cl \<and> (inside par d i \<longrightarrow> inside par a i)"
    by (auto simp: detach_mem [OF m])
  then have det: "(a, d, x) \<in> set (detach cl i) \<longleftrightarrow> (a, d, x) \<in> set cl \<and> (inside par d i \<longrightarrow> inside par a i)" .
  show ?thesis
  proof (cases q)
    case (Some p)
    then show ?thesis using det keep [OF Some] own by (simp add: moved_rows_def attach_mem)
  qed (use det in \<open>simp add: moved_rows_def\<close>)
qed

lemma moved_distinct:
  assumes m: "mirrors ids par cl" and i: "i \<in> ids" and q: "\<And>p. q = Some p \<Longrightarrow> p \<in> ids \<and> \<not> inside par p i"
  shows "distinct (closure_keys (moved_rows cl i q))"
proof -
  from m have "distinct (map (\<lambda>(a, d, n). (a, d)) cl)" unfolding mirrors_def closure_keys_def by blast
  then have d: "distinct (closure_keys (detach cl i))"
    unfolding closure_keys_def detach_def by (rule distinct_map_filter)
  moreover have "set (closure_keys (detach cl i)) \<inter> set (closure_keys (attach_rows (detach cl i) i p)) = {}" if "q = Some p" for p
  proof (rule equals0I)
    fix y assume "y \<in> set (closure_keys (detach cl i)) \<inter> set (closure_keys (attach_rows (detach cl i) i p))"
    then obtain a e k l where "(a, e, k) \<in> set (detach cl i)" "(a, e, l) \<in> set (attach_rows (detach cl i) i p)"
      by (cases y) (auto simp: set_closure_keys)
    then obtain n j where "(a, e, k) \<in> set (detach cl i)" "(a, p, n) \<in> set cl" "(i, e, j) \<in> set cl"
      by (auto simp: attach_mem detach_mem [OF m])
    then have "inside par a i" "inside par p a" by (auto simp: detach_mem [OF m] mirrors_mem [OF m] inside_def)
    with q [OF that] inside_trans show False by blast
  qed
  ultimately show ?thesis using distinct_ancestors [OF d] distinct_descendants [OF d]
    by (auto simp: moved_rows_def attach_keys distinct_product split: option.splits)
qed

lemma mirrors_move:
  assumes m: "mirrors ids par cl" and c: "closed_tree ids par" and i: "i \<in> ids"
    and q: "\<And>p. q = Some p \<Longrightarrow> p \<in> ids \<and> \<not> inside par p i"
  shows "mirrors ids (par(i := q)) (moved_rows cl i q)"
proof -
  have "(a, d, x) \<in> set (moved_rows cl i q) \<longleftrightarrow> d \<in> ids \<and> (\<exists>n. x = int n \<and> nth_parent (par(i := q)) n d = Some a)" for a d x
  proof (cases "d \<in> ids \<and> inside par d i")
    case False
    then show ?thesis using nth_parent_outside
      by (auto simp: moved_mem [OF m c i q] mirrors_mem [OF m] inside_def)
  next
    case True
    then obtain k where d: "d \<in> ids" and k: "nth_parent par k d = Some i" by (auto simp: inside_def)
    have below: "nth_parent (par(i := q)) n d = nth_parent par n d" if "n \<le> k" for n
      using nth_parent_below [OF m c d k that] .
    have beyond: "nth_parent (par(i := q)) (Suc (k + n)) d = (case q of None \<Rightarrow> None | Some p \<Rightarrow> nth_parent par n p)" for n
      by (rule nth_parent_beyond [OF m c d k]) (use q in blast)
    have "(i, d, y) \<in> set cl \<longleftrightarrow> y = int k" for y
      using mirrors_depth [OF m d k] k d unfolding mirrors_mem [OF m] by blast
    then have "(a, d, x) \<in> set (moved_rows cl i q) \<longleftrightarrow>
        (a, d, x) \<in> set cl \<and> inside par a i \<or> (\<exists>p n. q = Some p \<and> (a, p, n) \<in> set cl \<and> x = n + int k + 1)"
      using True by (simp add: moved_mem [OF m c i q])
    also have "\<dots> \<longleftrightarrow> (\<exists>n. x = int n \<and> nth_parent par n d = Some a \<and> n \<le> k)
        \<or> (\<exists>p n. q = Some p \<and> x = int n + int k + 1 \<and> nth_parent par n p = Some a)"
      unfolding mirrors_mem [OF m] using inside_below [OF m c d i k] d q by blast
    also have "\<dots> \<longleftrightarrow> (\<exists>n. x = int n \<and> nth_parent (par(i := q)) n d = Some a)"
    proof -
      have "(\<exists>n. P n) \<longleftrightarrow> (\<exists>n \<le> k. P n) \<or> (\<exists>n. P (Suc (k + n)))" for P
        by (metis add_Suc less_natE linorder_not_less)
      note split = this [of "\<lambda>n. x = int n \<and> nth_parent (par(i := q)) n d = Some a"]
      show ?thesis unfolding split beyond using below by (auto simp: algebra_simps split: option.splits)
    qed
    finally show ?thesis using d by simp
  qed
  then have "set (moved_rows cl i q) = {(a, d, int n) | a d n. d \<in> ids \<and> nth_parent (par(i := q)) n d = Some a}"
    by auto
  then show ?thesis using moved_distinct [OF m i q] by (simp add: mirrors_def)
qed

end
