(* ===== verification/Racks.thy ===== *)
theory Racks
  imports Errors
begin

text \<open>
  Where a box sits in a rack and whether two of them are in the same place: rack.go of
  internal/domain.
\<close>

definition FaceFront :: string where "FaceFront = ''front''"
definition FaceRear :: string where "FaceRear = ''rear''"
definition Faces :: "string list" where "Faces = [FaceFront, FaceRear]"
definition MaxRackUnits :: int where "MaxRackUnits = 60"
definition DefaultRackUnits :: int where "DefaultRackUnits = 42"

record placement =
  pl_AssetID :: string
  pl_Name :: string
  pl_Kind :: string
  pl_Position :: int
  pl_Height :: int
  pl_FullDepth :: bool
  pl_Face :: string
  pl_HeightKnown :: bool

definition Top :: "placement \<Rightarrow> int" where
  "Top p = pl_Position p + pl_Height p - 1"

definition Occupies :: "placement \<Rightarrow> int \<Rightarrow> string \<Rightarrow> bool" where
  "Occupies p unit face \<longleftrightarrow>
     \<not> (unit < pl_Position p \<or> Top p < unit) \<and> (pl_FullDepth p \<or> pl_Face p = face)"

definition Overlaps :: "placement \<Rightarrow> placement \<Rightarrow> bool" where
  "Overlaps p other \<longleftrightarrow>
     pl_AssetID p \<noteq> pl_AssetID other
     \<and> list_ex (\<lambda>unit. list_ex (\<lambda>face. Occupies p unit face \<and> Occupies other unit face) Faces)
         [pl_Position p..Top p]"

definition CheckPlacement :: "placement \<Rightarrow> int \<Rightarrow> placement list \<Rightarrow> unit result" where
  "CheckPlacement p rackUnits existing =
     bind_result (validated
       ((if pl_Position p \<le> 0 then [(''rack_position'', ''is the lowest unit the box occupies, counting from the floor'')]
         else if MaxRackUnits < pl_Position p then [(''rack_position'', ''is higher than any rack'')] else [])
        @ (if pl_Face p \<noteq> [] \<and> \<not> List.member Faces (pl_Face p) then [(''rack_face'', ''must be front or rear'')] else [])) ()) (\<lambda>_.
     if 0 < rackUnits \<and> rackUnits < Top p then
       Inl (ErrInvalid [(''rack_position'', if 1 < pl_Height p then ''would reach past the top of the rack'' else ''is past the top of the rack'')])
     else if list_ex (Overlaps p) existing then Inl (ErrInvalid [(''rack_position'', ''something is already there'')])
     else Inr ())"

section \<open>The checks decide\<close>

text \<open>Two boxes are in each other's way exactly when some unit and face is covered by both.\<close>

lemma Overlaps_iff:
  "Overlaps p other \<longleftrightarrow>
     pl_AssetID p \<noteq> pl_AssetID other
     \<and> (\<exists>unit face. face \<in> set Faces \<and> Occupies p unit face \<and> Occupies other unit face)"
proof -
  have "Occupies p unit face \<Longrightarrow> unit \<in> {pl_Position p..Top p}" for unit face by (auto simp: Occupies_def)
  then show ?thesis unfolding Overlaps_def list_ex_iff set_upto by blast
qed

lemma Overlaps_sym: "Overlaps p other \<longleftrightarrow> Overlaps other p"
  unfolding Overlaps_iff by metis

text \<open>
  A position is accepted exactly when it is a unit a rack can have, the face is one of the two or
  open, the box ends below the top of a rack of recorded height, and no unit of either face is
  covered both by it and by another box.
\<close>

lemma CheckPlacement_ok_iff:
  "CheckPlacement p rackUnits existing = Inr () \<longleftrightarrow>
     0 < pl_Position p \<and> pl_Position p \<le> MaxRackUnits \<and> (pl_Face p = [] \<or> pl_Face p \<in> set Faces)
     \<and> (0 < rackUnits \<longrightarrow> Top p \<le> rackUnits)
     \<and> (\<forall>other \<in> set existing. pl_AssetID other = pl_AssetID p
          \<or> \<not> (\<exists>unit face. face \<in> set Faces \<and> Occupies p unit face \<and> Occupies other unit face))"
proof -
  have "CheckPlacement p rackUnits existing = Inr () \<longleftrightarrow>
      0 < pl_Position p \<and> pl_Position p \<le> MaxRackUnits \<and> (pl_Face p = [] \<or> pl_Face p \<in> set Faces)
      \<and> (0 < rackUnits \<longrightarrow> Top p \<le> rackUnits) \<and> \<not> list_ex (Overlaps p) existing"
    by (auto simp: CheckPlacement_def bind_result_Inr not_less split: if_splits)
  then show ?thesis unfolding list_ex_iff Overlaps_iff by fastforce
qed

end
