(* ===== verification/Assets.thy ===== *)
theory Assets
  imports Projects Containment Racks
begin

text \<open>
  Assets: asset.go and the parts of network.go and reach.go of internal/domain they touch, the
  operations of internal/store/assets.go that write them, with rack space (racks.go), the components
  a device type brings (device_type_components.go), lookups (vocabulary.go, teams.go) and the search
  index, on the tables with their constraints. The project tables are those of Projects.
\<close>

section \<open>Rows\<close>

record asset =
  as_ID :: string
  as_Kind :: string
  as_Name :: string
  as_ParentID :: "string option"
  as_Serial :: "string option"
  as_AssetTag :: "string option"
  as_Vendor :: "string option"
  as_Model :: "string option"
  as_DeviceTypeID :: "string option"
  as_UHeight :: "int option"
  as_RackPosition :: "int option"
  as_RackFace :: "string option"
  as_UsableDepthMM :: "int option"
  as_WidthMM :: "int option"
  as_MaxLoadGrams :: "int option"
  as_CPUCores :: "int option"
  as_MemoryMB :: "int option"
  as_VCPUProvisioned :: "int option"
  as_VCPUAllocated :: "int option"
  as_MemoryProvisionedMB :: "int option"
  as_MemoryAllocatedMB :: "int option"
  as_StorageKind :: "string option"
  as_RawCapacityGB :: "int option"
  as_ReplacesAssetID :: "string option"
  as_Lifecycle :: string
  as_TeamID :: "string option"
  as_ManagerRole :: "string option"
  as_EOLDate :: "string option"
  as_Attrs :: string
  as_CreatedAt :: string
  as_UpdatedAt :: string
  as_RowVersion :: int

definition AssetLifecycles :: "string list" where
  "AssetLifecycles = [LifecyclePlanned, LifecycleActive, LifecycleMaintenance, LifecycleDeprecated, LifecycleRetired]"

definition live :: "asset \<Rightarrow> bool" where
  "live a \<longleftrightarrow> as_Lifecycle a \<noteq> LifecycleRetired"

text \<open>The new team and role beside the errors.\<close>

definition checkResponsibility ::
  "string option \<Rightarrow> string option \<Rightarrow> string option \<times> string option \<times> fieldError list" where
  "checkResponsibility teamID managerRole =
     (let team = blankToNil teamID; role = map_option (\<lambda>r. to_lower (trim_space r)) (blankToNil managerRole) in
      (team, role, if role \<noteq> None \<and> team = None then [(''manager_role'', ''needs a team'')] else []))"

definition Validate :: "asset \<Rightarrow> asset result" where
  "Validate a =
     (let eol = checkDate ''eol_date'' (as_EOLDate a);
          resp = checkResponsibility (as_TeamID a) (as_ManagerRole a) in
      validated
        (checkRequired ''name'' (as_Name a) @ checkVocabulary ''kind'' (as_Kind a)
         @ checkEnum ''lifecycle'' (as_Lifecycle a) AssetLifecycles
         @ (if as_ParentID a = Some (as_ID a) then [(''parent_id'', ''an asset cannot contain itself'')] else [])
         @ (if as_ReplacesAssetID a = Some (as_ID a) then [(''replaces_asset_id'', ''an asset cannot replace itself'')] else [])
         @ snd eol
         @ checkPositive ''cpu_cores'' (as_CPUCores a) @ checkPositive ''memory_mb'' (as_MemoryMB a)
         @ checkPositive ''vcpu_provisioned'' (as_VCPUProvisioned a) @ checkPositive ''vcpu_allocated'' (as_VCPUAllocated a)
         @ checkPositive ''raw_capacity_gb'' (as_RawCapacityGB a)
         @ checkPositive ''memory_provisioned_mb'' (as_MemoryProvisionedMB a)
         @ checkPositive ''memory_allocated_mb'' (as_MemoryAllocatedMB a)
         @ checkMillimetres ''usable_depth_mm'' (as_UsableDepthMM a) @ checkMillimetres ''width_mm'' (as_WidthMM a)
         @ checkGrams ''max_load_grams'' (as_MaxLoadGrams a)
         @ snd (snd resp))
        (a\<lparr>as_Name := trim_space (as_Name a), as_Kind := trim_space (as_Kind a),
           as_ReplacesAssetID :=
             (case as_ReplacesAssetID a of None \<Rightarrow> None | Some r \<Rightarrow> if trim_space r = [] then None else Some r),
           as_EOLDate := fst eol, as_TeamID := fst resp, as_ManagerRole := fst (snd resp),
           as_Attrs := (if trim_space (as_Attrs a) = [] then ''{}'' else as_Attrs a)\<rparr>))"

record environment =
  en_ID :: string
  en_Code :: string

text \<open>Of an environment and of a catalogued device type only the columns read here are kept.\<close>

record deviceType =
  dt_ID :: string
  dt_UHeight :: "int option"
  dt_FullDepth :: bool

record deviceTypeComponent =
  dc_ID :: string
  dc_DeviceTypeID :: string
  dc_Kind :: string
  dc_Name :: string
  dc_Position :: int
  dc_FormFactor :: "string option"
  dc_SpeedMbps :: "int option"
  dc_IsMgmt :: bool
  dc_Lifecycle :: string
  dc_CreatedAt :: string
  dc_UpdatedAt :: string
  dc_RowVersion :: int

definition ComponentKindInterface :: string where "ComponentKindInterface = ''interface''"

record iface =
  if_ID :: string
  if_AssetID :: string
  if_Name :: string
  if_FormFactor :: string
  if_SpeedMbps :: "int option"
  if_MAC :: "string option"
  if_MTU :: "int option"
  if_LagParentID :: "string option"
  if_IsMgmt :: bool
  if_Enabled :: bool
  if_Lifecycle :: string
  if_CreatedAt :: "string option"
  if_UpdatedAt :: "string option"
  if_RowVersion :: int

definition iface_errors :: "iface \<Rightarrow> fieldError list" where
  "iface_errors i =
     checkRequired ''name'' (if_Name i) @ checkRequired ''asset_id'' (if_AssetID i)
     @ checkVocabulary ''form_factor'' (if_FormFactor i)
     @ (case if_SpeedMbps i of None \<Rightarrow> []
        | Some s \<Rightarrow> if s \<le> 0 then [(''speed_mbps'', ''must be a positive number of megabits, or blank'')] else [])
     @ (case if_MTU i of None \<Rightarrow> []
        | Some m \<Rightarrow> if m < 68 \<or> 65535 < m then [(''mtu'', ''must be between 68 and 65535, or blank'')] else [])
     @ (if if_LagParentID i = Some (if_ID i) then [(''lag_parent_id'', ''a port cannot be bonded into itself'')] else [])
     @ (if if_Lifecycle i \<noteq> LifecycleActive \<and> if_Lifecycle i \<noteq> LifecycleRetired then [(''lifecycle'', ''is not a lifecycle'')] else [])"

definition NewInterface :: "string \<Rightarrow> string \<Rightarrow> string \<Rightarrow> string \<Rightarrow> iface result" where
  "NewInterface iid assetID name formFactor =
     (let i = \<lparr>if_ID = iid, if_AssetID = assetID, if_Name = name, if_FormFactor = formFactor, if_SpeedMbps = None,
               if_MAC = None, if_MTU = None, if_LagParentID = None, if_IsMgmt = False, if_Enabled = True,
               if_Lifecycle = LifecycleActive, if_CreatedAt = None, if_UpdatedAt = None, if_RowVersion = 0\<rparr> in
      validated (iface_errors i)
        (i\<lparr>if_Name := trim_space name, if_FormFactor := trim_space formFactor\<rparr>))"

text \<open>The edges that name an asset; their provenance columns are left out.\<close>

record groupMember =
  gm_GroupID :: string
  gm_AssetID :: string
  gm_Role :: string
  gm_Lifecycle :: string
  gm_CreatedAt :: string
  gm_UpdatedAt :: string

record attachment =
  at_ID :: string
  at_AssetID :: string
  at_GroupID :: string
  at_Plane :: string
  at_Lifecycle :: string
  at_UpdatedAt :: string

record attachmentMember =
  am_AttachmentID :: string
  am_AssetID :: string
  am_InterfaceID :: "string option"

record cable =
  lk_ID :: string
  lk_AInterfaceID :: string
  lk_BInterfaceID :: string
  lk_Lifecycle :: string

section \<open>The tables\<close>

text \<open>
  \<open>iv_estate\<close> holds the project tables, the search index and the audit trail; the entities its links
  refer to are the rows of \<open>iv_assets\<close>. \<open>iv_custom\<close> is the folded custom values of an asset and
  \<open>iv_tags\<close> its tag ids; nothing here writes them, nor the lookup tables.
\<close>

record inventory =
  iv_estate :: estate
  iv_assets :: "asset list"
  iv_closure :: closure
  iv_memberships :: "(string \<times> string) list"
  iv_environments :: "environment list"
  iv_kinds :: "string list"
  iv_roles :: "string list"
  iv_storageKinds :: "string list"
  iv_formFactors :: "string list"
  iv_types :: "deviceType list"
  iv_components :: "deviceTypeComponent list"
  iv_interfaces :: "iface list"
  iv_cables :: "cable list"
  iv_members :: "groupMember list"
  iv_attachments :: "attachment list"
  iv_pins :: "attachmentMember list"
  iv_custom :: "string \<Rightarrow> string"
  iv_tags :: "string \<Rightarrow> string list"

definition get_asset :: "inventory \<Rightarrow> string \<Rightarrow> asset option" where
  "get_asset db i = find (\<lambda>a. as_ID a = i) (iv_assets db)"

definition GetAsset :: "inventory \<Rightarrow> string \<Rightarrow> asset result" where
  "GetAsset db i = (case get_asset db i of None \<Rightarrow> Inl ErrNotFound | Some a \<Rightarrow> Inr a)"

definition asset_ids :: "inventory \<Rightarrow> string list" where
  "asset_ids db = map as_ID (iv_assets db)"

definition log_inventory :: "(changeLog list \<Rightarrow> changeLog list result) \<Rightarrow> inventory \<Rightarrow> inventory result" where
  "log_inventory f db = bind_result (logging f (iv_estate db)) (\<lambda>e. Inr (db\<lparr>iv_estate := e\<rparr>))"

text \<open>The environments of an asset, in the order of their codes.\<close>

definition codes_of :: "inventory \<Rightarrow> string \<Rightarrow> string list" where
  "codes_of db i =
     sort (map en_Code (filter (\<lambda>e. List.member (iv_memberships db) (i, en_ID e)) (iv_environments db)))"

definition environmentCodes :: "inventory \<Rightarrow> string list \<Rightarrow> string list" where
  "environmentCodes db ids = map en_Code (filter (\<lambda>e. List.member ids (en_ID e)) (iv_environments db))"

section \<open>Audited values\<close>

definition asset_columns :: "asset \<Rightarrow> (string \<times> string \<times> column_value) list" where
  "asset_columns a =
     map (\<lambda>(tag, v). (''Asset'', tag, v))
       [(''id'', VText (as_ID a)), (''kind'', VText (as_Kind a)), (''name'', VText (as_Name a)),
        (''parent_id'', opt_text (as_ParentID a)), (''serial'', opt_text (as_Serial a)),
        (''asset_tag'', opt_text (as_AssetTag a)), (''vendor'', opt_text (as_Vendor a)),
        (''model'', opt_text (as_Model a)), (''device_type_id'', opt_text (as_DeviceTypeID a)),
        (''u_height'', opt_int (as_UHeight a)), (''rack_position'', opt_int (as_RackPosition a)),
        (''rack_face'', opt_text (as_RackFace a)), (''usable_depth_mm'', opt_int (as_UsableDepthMM a)),
        (''width_mm'', opt_int (as_WidthMM a)), (''max_load_grams'', opt_int (as_MaxLoadGrams a)),
        (''cpu_cores'', opt_int (as_CPUCores a)), (''memory_mb'', opt_int (as_MemoryMB a)),
        (''vcpu_provisioned'', opt_int (as_VCPUProvisioned a)), (''vcpu_allocated'', opt_int (as_VCPUAllocated a)),
        (''memory_provisioned_mb'', opt_int (as_MemoryProvisionedMB a)),
        (''memory_allocated_mb'', opt_int (as_MemoryAllocatedMB a)),
        (''storage_kind'', opt_text (as_StorageKind a)), (''raw_capacity_gb'', opt_int (as_RawCapacityGB a)),
        (''replaces_asset_id'', opt_text (as_ReplacesAssetID a)), (''lifecycle'', VText (as_Lifecycle a)),
        (''team_id'', opt_text (as_TeamID a)), (''manager_role'', opt_text (as_ManagerRole a)),
        (''eol_date'', opt_text (as_EOLDate a)), (''attrs'', VText (as_Attrs a)),
        (''created_at'', VText (as_CreatedAt a)), (''updated_at'', VText (as_UpdatedAt a)),
        (''row_version'', VInt (as_RowVersion a))]"

definition asset_row :: "asset \<Rightarrow> audited" where
  "asset_row a = \<lparr>au_type = ''Asset'', au_fields = asset_columns a\<rparr>"

definition auditedAsset :: "asset \<Rightarrow> string list \<Rightarrow> string \<Rightarrow> string \<Rightarrow> audited" where
  "auditedAsset a codes custom tags =
     \<lparr>au_type = ''assetAudit'',
      au_fields = asset_columns a @ [(''assetAudit'', ''environments'', VText (join '','' (sort codes))),
        (''assetAudit'', ''custom_fields'', VText custom), (''assetAudit'', ''tags'', VText tags)]\<rparr>"

definition iface_row :: "iface \<Rightarrow> audited" where
  "iface_row i =
     \<lparr>au_type = ''Interface'',
      au_fields = map (\<lambda>(tag, v). (''Interface'', tag, v))
        [(''id'', VText (if_ID i)), (''asset_id'', VText (if_AssetID i)), (''name'', VText (if_Name i)),
         (''form_factor'', VText (if_FormFactor i)), (''speed_mbps'', opt_int (if_SpeedMbps i)),
         (''mac'', opt_text (if_MAC i)), (''mtu'', opt_int (if_MTU i)), (''lag_parent_id'', opt_text (if_LagParentID i)),
         (''is_mgmt'', VBool (if_IsMgmt i)), (''enabled'', VBool (if_Enabled i)), (''lifecycle'', VText (if_Lifecycle i)),
         (''created_at'', opt_text (if_CreatedAt i)), (''updated_at'', opt_text (if_UpdatedAt i)),
         (''row_version'', VInt (if_RowVersion i))]\<rparr>"

section \<open>Checks before a write\<close>

definition requireVocabulary :: "string list \<Rightarrow> string \<Rightarrow> string \<Rightarrow> unit result" where
  "requireVocabulary codes field value =
     require (List.member codes value) (ErrInvalid [(field, ''must be one of '' @ join '', '' codes)])"

definition requireRole :: "inventory \<Rightarrow> string option \<Rightarrow> unit result" where
  "requireRole db role =
     (case role of None \<Rightarrow> Inr ()
      | Some r \<Rightarrow> if r = [] then Inr () else requireVocabulary (iv_roles db) ''manager_role'' r)"

text \<open>The messages quote the name where these say \<open>that\<close>.\<close>

definition requireUniqueSiblingName ::
  "inventory \<Rightarrow> string \<Rightarrow> string \<Rightarrow> string option \<Rightarrow> string \<Rightarrow> string \<Rightarrow> unit result" where
  "requireUniqueSiblingName db field name parentID lifecycle excludeID =
     (if lifecycle = LifecycleRetired then Inr ()
      else
        require (\<not> list_ex (\<lambda>a. as_ParentID a = parentID \<and> as_Name a = name \<and> live a \<and> as_ID a \<noteq> excludeID) (iv_assets db))
          (ErrInvalid [(field,
             if field = ''parent_id'' then ''that destination already contains something called that''
             else if parentID = None then ''another top-level asset is already called that''
             else ''something here is already called that'')]))"

definition replacementChainMax :: nat where "replacementChainMax = 20"

text \<open>The walk with the hops it has left and the ids it has seen.\<close>

fun walk_replaces :: "inventory \<Rightarrow> nat \<Rightarrow> string list \<Rightarrow> string \<Rightarrow> unit result" where
  "walk_replaces db 0 seen i = Inl ErrConflict"
| "walk_replaces db (Suc hops) seen i =
     (if List.member seen i then Inl ErrConflict
      else
        (case get_asset db i of
           None \<Rightarrow> Inr ()
         | Some a \<Rightarrow>
             (case as_ReplacesAssetID a of
                None \<Rightarrow> Inr ()
              | Some r \<Rightarrow> if r = [] then Inr () else walk_replaces db hops (i # seen) r)))"

definition requireNoReplacementCycle :: "inventory \<Rightarrow> string \<Rightarrow> string option \<Rightarrow> unit result" where
  "requireNoReplacementCycle db assetID replaces =
     (case replaces of None \<Rightarrow> Inr ()
      | Some r \<Rightarrow> if r = [] then Inr () else walk_replaces db replacementChainMax [assetID] r)"

section \<open>Rack space\<close>

definition device_type :: "inventory \<Rightarrow> asset \<Rightarrow> deviceType option" where
  "device_type db a =
     (case as_DeviceTypeID a of None \<Rightarrow> None | Some t \<Rightarrow> find (\<lambda>d. dt_ID d = t) (iv_types db))"

definition placementOf :: "inventory \<Rightarrow> asset \<Rightarrow> int \<Rightarrow> placement" where
  "placementOf db a position =
     (let height = (case device_type db a of None \<Rightarrow> None | Some d \<Rightarrow> dt_UHeight d);
          depth = (case device_type db a of None \<Rightarrow> False | Some d \<Rightarrow> dt_FullDepth d);
          known = (case height of None \<Rightarrow> False | Some h \<Rightarrow> 0 < h);
          faced = (case as_RackFace a of None \<Rightarrow> False | Some f \<Rightarrow> f \<noteq> []) in
      \<lparr>pl_AssetID = as_ID a, pl_Name = as_Name a, pl_Kind = as_Kind a, pl_Position = position,
       pl_Height = (if known then the height else 1),
       pl_FullDepth = (if faced then depth else True),
       pl_Face = (if faced then the (as_RackFace a) else FaceFront), pl_HeightKnown = known\<rparr>)"

definition AssetListLimit :: nat where "AssetListLimit = 500"

text \<open>\<open>ListAssets\<close> with the filter of the rack: live children by kind and name, up to the limit.\<close>

definition rack_contents :: "inventory \<Rightarrow> string \<Rightarrow> asset list" where
  "rack_contents db rack =
     take AssetListLimit (sort_key (\<lambda>a. (as_Kind a, as_Name a))
       (filter (\<lambda>a. live a \<and> as_ParentID a = Some rack) (iv_assets db)))"

definition placements :: "inventory \<Rightarrow> string \<Rightarrow> string \<Rightarrow> placement list" where
  "placements db rack exclude =
     concat (map (\<lambda>a. case as_RackPosition a of None \<Rightarrow> [] | Some n \<Rightarrow> if as_ID a = exclude then [] else [placementOf db a n])
       (rack_contents db rack))"

definition requireFreeRackSpace :: "inventory \<Rightarrow> asset \<Rightarrow> unit result" where
  "requireFreeRackSpace db a =
     (case (as_RackPosition a, as_ParentID a) of
        (Some position, Some parent) \<Rightarrow>
          (case get_asset db parent of
             None \<Rightarrow> Inr ()
           | Some rack \<Rightarrow>
               CheckPlacement (placementOf db a position) (case as_UHeight rack of None \<Rightarrow> 0 | Some h \<Rightarrow> h)
                 (placements db parent (as_ID a)))
      | _ \<Rightarrow> Inr ())"

section \<open>Statements\<close>

text \<open>The CHECK constraints of the migrations, then their foreign keys.\<close>

definition positive_or_null :: "int option \<Rightarrow> bool" where
  "positive_or_null v \<longleftrightarrow> (case v of None \<Rightarrow> True | Some n \<Rightarrow> 0 < n)"

definition units_or_null :: "int option \<Rightarrow> bool" where
  "units_or_null v \<longleftrightarrow> (case v of None \<Rightarrow> True | Some n \<Rightarrow> 0 < n \<and> n \<le> 60)"

definition asset_checks :: "asset \<Rightarrow> bool" where
  "asset_checks a \<longleftrightarrow>
     oneOf (as_Lifecycle a) AssetLifecycles
     \<and> units_or_null (as_UHeight a) \<and> units_or_null (as_RackPosition a)
     \<and> (case as_RackFace a of None \<Rightarrow> True | Some f \<Rightarrow> oneOf f Faces)
     \<and> (case as_EOLDate a of None \<Rightarrow> True | Some d \<Rightarrow> length d = 10 \<and> d ! 4 = CHR ''-'' \<and> d ! 7 = CHR ''-'')
     \<and> list_all positive_or_null [as_UsableDepthMM a, as_WidthMM a, as_MaxLoadGrams a, as_CPUCores a, as_MemoryMB a,
         as_VCPUProvisioned a, as_VCPUAllocated a, as_MemoryProvisionedMB a, as_MemoryAllocatedMB a, as_RawCapacityGB a]"

definition known_or_null :: "string list \<Rightarrow> string option \<Rightarrow> bool" where
  "known_or_null codes v \<longleftrightarrow> (case v of None \<Rightarrow> True | Some c \<Rightarrow> List.member codes c)"

text \<open>A row may refer to itself; \<open>ids\<close> are the rows there once the statement is done.\<close>

definition asset_refs :: "inventory \<Rightarrow> string list \<Rightarrow> asset \<Rightarrow> bool" where
  "asset_refs db ids a \<longleftrightarrow>
     List.member (iv_kinds db) (as_Kind a) \<and> known_or_null ids (as_ParentID a) \<and> known_or_null ids (as_ReplacesAssetID a)
     \<and> known_or_null (map dt_ID (iv_types db)) (as_DeviceTypeID a) \<and> known_or_null (iv_storageKinds db) (as_StorageKind a)
     \<and> known_or_null (es_teams (iv_estate db)) (as_TeamID a) \<and> known_or_null (iv_roles db) (as_ManagerRole a)"

text \<open>The two unique indexes on the names of live siblings.\<close>

definition siblings_clash :: "asset \<Rightarrow> asset \<Rightarrow> bool" where
  "siblings_clash a b \<longleftrightarrow> live a \<and> live b \<and> as_ParentID a = as_ParentID b \<and> as_Name a = as_Name b"

definition insert_asset :: "asset \<Rightarrow> inventory \<Rightarrow> inventory result" where
  "insert_asset a db =
     bind_result (require (asset_checks a) (ErrInvalid [])) (\<lambda>_.
     bind_result (require (list_all (\<lambda>b. as_ID b \<noteq> as_ID a \<and> \<not> siblings_clash a b) (iv_assets db)) ErrConflict) (\<lambda>_.
     bind_result (require (asset_refs db (as_ID a # asset_ids db) a) (ErrInvalid [])) (\<lambda>_.
       let e = iv_estate db in
       Inr (db\<lparr>iv_assets := iv_assets db @ [a],
               iv_estate := e\<lparr>es_entities := (es_entities e)(ProjectAsset := es_entities e ProjectAsset @ [as_ID a])\<rparr>\<rparr>))))"

text \<open>An UPDATE of one row by \<open>f\<close>; a row that is not there is no error.\<close>

definition update_asset :: "string \<Rightarrow> (asset \<Rightarrow> asset) \<Rightarrow> inventory \<Rightarrow> inventory result" where
  "update_asset i f db =
     (case get_asset db i of
        None \<Rightarrow> Inr db
      | Some a \<Rightarrow>
          bind_result (require (asset_checks (f a)) (ErrInvalid [])) (\<lambda>_.
          bind_result (require (list_all (\<lambda>b. as_ID b = i \<or> \<not> siblings_clash (f a) b) (iv_assets db)) ErrConflict) (\<lambda>_.
          bind_result (require (asset_refs db (asset_ids db) (f a)) (ErrInvalid [])) (\<lambda>_.
            Inr (db\<lparr>iv_assets := update_where (\<lambda>b. as_ID b = i) f (iv_assets db)\<rparr>)))))"

definition insert_closure :: "closure \<Rightarrow> inventory \<Rightarrow> inventory result" where
  "insert_closure rows db =
     bind_result (require (distinct (closure_keys (iv_closure db @ rows))) ErrConflict) (\<lambda>_.
     bind_result (require (list_all (\<lambda>(a, d, n). List.member (asset_ids db) a \<and> List.member (asset_ids db) d) rows) (ErrInvalid [])) (\<lambda>_.
       Inr (db\<lparr>iv_closure := iv_closure db @ rows\<rparr>)))"

definition insertClosureForNewNode :: "string \<Rightarrow> string option \<Rightarrow> inventory \<Rightarrow> inventory result" where
  "insertClosureForNewNode i parentID db =
     bind_result (insert_closure [(i, i, 0)] db) (\<lambda>db1.
     case parentID of
       None \<Rightarrow> Inr db1
     | Some p \<Rightarrow>
         if p = [] then Inr db1
         else insert_closure (map (\<lambda>(a, d, n). (a, i, n + 1)) (filter (\<lambda>(a, d, n). d = p) (iv_closure db1))) db1)"

definition setAssetEnvironments :: "string \<Rightarrow> string list option \<Rightarrow> inventory \<Rightarrow> inventory result" where
  "setAssetEnvironments i environmentIDs db =
     (case environmentIDs of
        None \<Rightarrow> Inr db
      | Some ids \<Rightarrow>
          each_result (\<lambda>env d.
              if env = [] then Inr d
              else
                bind_result (require (\<not> List.member (iv_memberships d) (i, env)) ErrConflict) (\<lambda>_.
                bind_result (require (List.member (map en_ID (iv_environments d)) env \<and> List.member (asset_ids d) i) (ErrInvalid [])) (\<lambda>_.
                  Inr (d\<lparr>iv_memberships := iv_memberships d @ [(i, env)]\<rparr>))))
            ids (db\<lparr>iv_memberships := filter (\<lambda>m. fst m \<noteq> i) (iv_memberships db)\<rparr>))"

section \<open>Components of a device type\<close>

definition ListDeviceTypeComponents :: "inventory \<Rightarrow> string \<Rightarrow> deviceTypeComponent list" where
  "ListDeviceTypeComponents db t =
     sort_key (\<lambda>c. (dc_Kind c, dc_Position c, dc_Name c))
       (filter (\<lambda>c. dc_DeviceTypeID c = t \<and> dc_Lifecycle c = LifecycleActive) (iv_components db))"

definition template_ifaces :: "inventory \<Rightarrow> string \<Rightarrow> deviceTypeComponent list" where
  "template_ifaces db t = filter (\<lambda>c. dc_Kind c = ComponentKindInterface) (ListDeviceTypeComponents db t)"

text \<open>A component of this kind always has a form factor; without one the code would panic.\<close>

definition newInterfaceFromTemplate :: "string \<Rightarrow> string \<Rightarrow> deviceTypeComponent \<Rightarrow> string \<Rightarrow> iface result" where
  "newInterfaceFromTemplate iid assetID c now =
     (case dc_FormFactor c of
        None \<Rightarrow> Inl ErrDriver
      | Some ff \<Rightarrow>
          bind_result (NewInterface iid assetID (dc_Name c) ff) (\<lambda>i.
            Inr (i\<lparr>if_SpeedMbps := dc_SpeedMbps c, if_IsMgmt := dc_IsMgmt c, if_RowVersion := 1,
                   if_CreatedAt := Some now, if_UpdatedAt := Some now\<rparr>)))"

definition insert_iface :: "iface \<Rightarrow> inventory \<Rightarrow> inventory result" where
  "insert_iface i db =
     bind_result (require (oneOf (if_Lifecycle i) [LifecycleActive, LifecycleRetired]) (ErrInvalid [])) (\<lambda>_.
     bind_result (require (list_all (\<lambda>j. if_ID j \<noteq> if_ID i \<and> \<not> (if_AssetID j = if_AssetID i \<and> if_Name j = if_Name i))
         (iv_interfaces db)) ErrConflict) (\<lambda>_.
     bind_result (require (List.member (asset_ids db) (if_AssetID i) \<and> List.member (iv_formFactors db) (if_FormFactor i)
         \<and> known_or_null (map if_ID (iv_interfaces db)) (if_LagParentID i)) (ErrInvalid [])) (\<lambda>_.
       Inr (db\<lparr>iv_interfaces := iv_interfaces db @ [i]\<rparr>))))"

definition instantiateInterfaceComponents ::
  "txn \<Rightarrow> string \<Rightarrow> (deviceTypeComponent \<times> string) list \<Rightarrow> string \<Rightarrow> inventory \<Rightarrow> inventory result" where
  "instantiateInterfaceComponents t assetID entries now =
     each_result (\<lambda>(c, iid) db.
       if dc_Kind c \<noteq> ComponentKindInterface then Inl ErrDriver
       else
         bind_result (newInterfaceFromTemplate iid assetID c now) (\<lambda>i.
         bind_result (insert_iface i db) (log_inventory (logCreate t ''interface'' (if_ID i) (iface_row i))))) entries"

text \<open>\<open>fresh\<close> are the ids that \<open>NewID\<close> generates, one after the other.\<close>

definition instantiateComponents ::
  "txn \<Rightarrow> (nat \<Rightarrow> string) \<Rightarrow> asset \<Rightarrow> string list option \<Rightarrow> inventory \<Rightarrow> inventory result" where
  "instantiateComponents t fresh a plannedIDs db =
     (case as_DeviceTypeID a of
        None \<Rightarrow> Inr db
      | Some dt \<Rightarrow>
          let ifaces = template_ifaces db dt in
          bind_result
            (case plannedIDs of
               None \<Rightarrow> Inr (map fresh [0..<length ifaces])
             | Some ids \<Rightarrow> if length ids \<noteq> length ifaces then Inl ErrConflict else Inr ids)
            (\<lambda>ids. instantiateInterfaceComponents t (as_ID a) (zip ifaces ids) (tx_at t) db))"

section \<open>Creating\<close>

definition optional_text :: "string option \<Rightarrow> string list" where
  "optional_text v = (case v of None \<Rightarrow> [] | Some s \<Rightarrow> if s = [] then [] else [s])"

definition indexAsset :: "asset \<Rightarrow> inventory \<Rightarrow> inventory" where
  "indexAsset a db =
     db\<lparr>iv_estate := indexEntity
          \<lparr>sd_EntityType = ''asset'', sd_EntityID = as_ID a, sd_Title = as_Name a, sd_Subtitle = as_Kind a,
           sd_Body = join '' '' ([as_Kind a] @ concat (map optional_text [as_Serial a, as_AssetTag a, as_Vendor a, as_Model a]))\<rparr>
          (iv_estate db)\<rparr>"

definition insertAsset ::
  "txn \<Rightarrow> (nat \<Rightarrow> string) \<Rightarrow> asset \<Rightarrow> string list option \<Rightarrow> string list \<Rightarrow> string list option \<Rightarrow> inventory \<Rightarrow> inventory result" where
  "insertAsset t fresh a environmentIDs codes plannedIDs db =
     bind_result (requireVocabulary (iv_kinds db) ''kind'' (as_Kind a)) (\<lambda>_.
     bind_result (requireRole db (as_ManagerRole a)) (\<lambda>_.
     bind_result (requireUniqueSiblingName db ''name'' (as_Name a) (as_ParentID a) (as_Lifecycle a) (as_ID a)) (\<lambda>_.
     bind_result (requireNoReplacementCycle db (as_ID a) (as_ReplacesAssetID a)) (\<lambda>_.
     bind_result (insert_asset a db) (\<lambda>db1.
     bind_result (insertClosureForNewNode (as_ID a) (as_ParentID a) db1) (\<lambda>db2.
     bind_result (setAssetEnvironments (as_ID a) environmentIDs db2) (\<lambda>db3.
     bind_result (log_inventory (logCreate t ''asset'' (as_ID a) (auditedAsset a codes [] [])) db3) (\<lambda>db4.
     bind_result (instantiateComponents t fresh a plannedIDs db4) (\<lambda>db5.
       Inr (indexAsset a db5))))))))))"

text \<open>
  Each operation reads what it needs before its transaction begins; \<open>create_tx\<close> and the like are
  the transactions, on whatever state they find.
\<close>

definition create_tx ::
  "permit option \<Rightarrow> string \<Rightarrow> (nat \<Rightarrow> string) \<Rightarrow> asset \<Rightarrow> string list option \<Rightarrow> string list \<Rightarrow> inventory \<Rightarrow> inventory result" where
  "create_tx p now fresh a environmentIDs codes =
     writeTx p now (\<lambda>t. insertAsset t fresh a environmentIDs codes None)"

definition CreateAsset ::
  "permit option \<Rightarrow> string \<Rightarrow> (nat \<Rightarrow> string) \<Rightarrow> asset \<Rightarrow> string list option \<Rightarrow> inventory \<Rightarrow> inventory result" where
  "CreateAsset p now fresh a0 environmentIDs db =
     bind_result (Validate (a0\<lparr>as_RowVersion := 1\<rparr>)) (\<lambda>a.
     bind_result (requireFreeRackSpace db a) (\<lambda>_.
       create_tx p now fresh a environmentIDs
         (case environmentIDs of None \<Rightarrow> [] | Some ids \<Rightarrow> environmentCodes db ids) db))"

definition insert_link :: "linkTable \<Rightarrow> projectLink \<Rightarrow> estate \<Rightarrow> estate result" where
  "insert_link table l e =
     (let rows = es_links e table in
      bind_result (require (link_checks l) (ErrInvalid [])) (\<lambda>_.
      bind_result (require (list_all (\<lambda>r. \<not> same_link (ln_ProjectID l) (ln_EntityID l) r
          \<and> \<not> (active_owner l \<and> active_owner r \<and> ln_EntityID r = ln_EntityID l)) rows) ErrConflict) (\<lambda>_.
      bind_result (require (get_project e (ln_ProjectID l) \<noteq> None \<and> List.member (es_entities e table) (ln_EntityID l))
          (ErrInvalid [])) (\<lambda>_.
        Inr (e\<lparr>es_links := (es_links e)(table := rows @ [l])\<rparr>)))))"

definition insertProjectAssetLink :: "txn \<Rightarrow> string \<Rightarrow> string \<Rightarrow> inventory \<Rightarrow> inventory result" where
  "insertProjectAssetLink t projectID assetID db =
     (let l = \<lparr>ln_ProjectID = projectID, ln_EntityID = assetID, ln_Relation = ProjectOwns, ln_Note = None,
               ln_Lifecycle = LifecycleActive, ln_CreatedAt = tx_at t, ln_UpdatedAt = tx_at t\<rparr> in
      bind_result (insert_link ProjectAsset l (iv_estate db)) (\<lambda>e.
        log_inventory (logCreate t ''project_asset'' (link_id projectID assetID) (link_row ProjectAsset l)) (db\<lparr>iv_estate := e\<rparr>)))"

text \<open>The ids are drawn before the transaction, one for each interface the template had then.\<close>

definition create_in_project_tx ::
  "permit \<Rightarrow> string \<Rightarrow> (nat \<Rightarrow> string) \<Rightarrow> string \<Rightarrow> asset \<Rightarrow> string list option \<Rightarrow> inventory \<Rightarrow> inventory result" where
  "create_in_project_tx p now fresh projectID a plannedIDs =
     writeTx (Some (scopedPermit (permit_Actor p) [projectID]
         (entities_of [(''asset'', [as_ID a]), (''interface'', case plannedIDs of None \<Rightarrow> [] | Some ids \<Rightarrow> ids)]))) now (\<lambda>t db.
       bind_result (insertAsset t fresh a None [] plannedIDs db)
         (insertProjectAssetLink t projectID (as_ID a)))"

definition CreateAssetInProject ::
  "permit option \<Rightarrow> string \<Rightarrow> (nat \<Rightarrow> string) \<Rightarrow> string \<Rightarrow> asset \<Rightarrow> inventory \<Rightarrow> inventory result" where
  "CreateAssetInProject p now fresh projectID a0 db =
     bind_result (Validate (a0\<lparr>as_RowVersion := 1\<rparr>)) (\<lambda>a.
     case p of
       None \<Rightarrow> Inl ErrForbidden
     | Some q \<Rightarrow>
         if \<not> PermitHoldsProject q projectID then Inl ErrForbidden
         else
           bind_result (requireFreeRackSpace db a) (\<lambda>_.
             let planned =
                   (case as_DeviceTypeID a of None \<Rightarrow> None
                    | Some dt \<Rightarrow>
                        let n = length (template_ifaces db dt) in if n = 0 then None else Some (map fresh [0..<n])) in
             create_in_project_tx q now fresh projectID a planned db))"

section \<open>Editing\<close>

text \<open>The UPDATE keeps the parent and the creation time of the row.\<close>

definition update_tx ::
  "permit option \<Rightarrow> string \<Rightarrow> asset \<Rightarrow> string list \<Rightarrow> string list \<Rightarrow> string list option \<Rightarrow> asset \<Rightarrow> inventory \<Rightarrow> inventory result" where
  "update_tx p now before beforeCodes afterCodes environmentIDs a =
     writeTx p now (\<lambda>t db.
       bind_result (requireVocabulary (iv_kinds db) ''kind'' (as_Kind a)) (\<lambda>_.
       bind_result (requireRole db (as_ManagerRole a)) (\<lambda>_.
       bind_result (requireUniqueSiblingName db ''name'' (as_Name a) (as_ParentID a) (as_Lifecycle a) (as_ID a)) (\<lambda>_.
       bind_result (requireNoReplacementCycle db (as_ID a) (as_ReplacesAssetID a)) (\<lambda>_.
       case get_asset db (as_ID a) of
         None \<Rightarrow> Inl ErrStale
       | Some row \<Rightarrow>
           if as_RowVersion row \<noteq> as_RowVersion a then Inl ErrStale
           else
             bind_result (update_asset (as_ID a)
                 (\<lambda>r. a\<lparr>as_ParentID := as_ParentID r, as_CreatedAt := as_CreatedAt r, as_RowVersion := as_RowVersion r + 1\<rparr>) db) (\<lambda>db1.
             bind_result (setAssetEnvironments (as_ID a) environmentIDs db1) (\<lambda>db2.
             let custom = iv_custom db2 (as_ID a); tags = foldEntityTags (iv_tags db2 (as_ID a)) in
             bind_result (log_inventory (logUpdate t ''asset'' (as_ID a) (auditedAsset before beforeCodes custom tags)
                 (auditedAsset (a\<lparr>as_RowVersion := as_RowVersion a + 1\<rparr>) afterCodes custom tags)) db2) (\<lambda>db3.
               Inr (indexAsset a db3)))))))))"

definition UpdateAsset ::
  "permit option \<Rightarrow> string \<Rightarrow> asset \<Rightarrow> string list option \<Rightarrow> inventory \<Rightarrow> inventory result" where
  "UpdateAsset p now a0 environmentIDs db =
     bind_result (Validate a0) (\<lambda>a1.
     bind_result (GetAsset db (as_ID a1)) (\<lambda>before.
       let a = a1\<lparr>as_CreatedAt := as_CreatedAt before, as_ParentID := as_ParentID before, as_UpdatedAt := now\<rparr>;
           beforeCodes = codes_of db (as_ID a) in
       bind_result (requireFreeRackSpace db a) (\<lambda>_.
         update_tx p now before beforeCodes
           (case environmentIDs of None \<Rightarrow> beforeCodes | Some ids \<Rightarrow> environmentCodes db ids) environmentIDs a db)))"

section \<open>Retiring\<close>

definition retire_diff :: "string \<Rightarrow> diff" where
  "retire_diff old =
     Literal (''{\"lifecycle\":{\"old\":\"'' @ old @ ''\",\"new\":\"retired\"}}'')"

definition log_retired :: "txn \<Rightarrow> string \<Rightarrow> string \<Rightarrow> string \<Rightarrow> inventory \<Rightarrow> inventory result" where
  "log_retired t entityType i old = log_inventory (tx_log t entityType i ''retire'' (retire_diff old) [])"

definition retire_members :: "txn \<Rightarrow> string \<Rightarrow> string \<Rightarrow> inventory \<Rightarrow> inventory result" where
  "retire_members t now i db =
     each_result (\<lambda>g d.
         log_retired t ''net_group_member'' (link_id g i) LifecycleActive
           (d\<lparr>iv_members := update_where (\<lambda>m. gm_GroupID m = g \<and> gm_AssetID m = i)
                (\<lambda>m. m\<lparr>gm_Lifecycle := LifecycleRetired, gm_UpdatedAt := now\<rparr>) (iv_members d)\<rparr>))
       (map gm_GroupID (filter (\<lambda>m. gm_AssetID m = i \<and> gm_Lifecycle m = LifecycleActive) (iv_members db))) db"

text \<open>The attachments of the asset and those it is pinned to.\<close>

definition attachments_naming :: "inventory \<Rightarrow> string \<Rightarrow> string list" where
  "attachments_naming db i =
     map at_ID (filter (\<lambda>n. at_Lifecycle n = LifecycleActive
         \<and> (at_AssetID n = i \<or> list_ex (\<lambda>m. am_AttachmentID m = at_ID n \<and> am_AssetID m = i) (iv_pins db)))
       (iv_attachments db))"

definition retireRows :: "txn \<Rightarrow> string \<Rightarrow> string list \<Rightarrow> inventory \<Rightarrow> inventory result" where
  "retireRows t now ids =
     each_result (\<lambda>i d.
         log_retired t ''net_attachment'' i LifecycleActive
           (d\<lparr>iv_attachments := update_where (\<lambda>n. at_ID n = i)
                (\<lambda>n. n\<lparr>at_Lifecycle := LifecycleRetired, at_UpdatedAt := now\<rparr>) (iv_attachments d)\<rparr>)) ids"

definition ports_of :: "inventory \<Rightarrow> string \<Rightarrow> string list" where
  "ports_of db i = map if_ID (filter (\<lambda>f. if_AssetID f = i) (iv_interfaces db))"

definition cables_naming :: "inventory \<Rightarrow> string \<Rightarrow> string list" where
  "cables_naming db i =
     map lk_ID (filter (\<lambda>l. lk_Lifecycle l = LifecycleActive
         \<and> (List.member (ports_of db i) (lk_AInterfaceID l) \<or> List.member (ports_of db i) (lk_BInterfaceID l)))
       (iv_cables db))"

definition retire_cables :: "txn \<Rightarrow> string list \<Rightarrow> inventory \<Rightarrow> inventory result" where
  "retire_cables t ids =
     each_result (\<lambda>i d.
         log_retired t ''link'' i LifecycleActive
           (d\<lparr>iv_cables := update_where (\<lambda>l. lk_ID l = i) (\<lambda>l. l\<lparr>lk_Lifecycle := LifecycleRetired\<rparr>) (iv_cables d)\<rparr>)) ids"

definition retireAssetTopology :: "txn \<Rightarrow> string \<Rightarrow> string \<Rightarrow> inventory \<Rightarrow> inventory result" where
  "retireAssetTopology t now i db =
     bind_result (retire_members t now i db) (\<lambda>db1.
     bind_result (retireRows t now (attachments_naming db1 i) db1) (\<lambda>db2.
       retire_cables t (cables_naming db2 i) db2))"

definition retire_tx :: "permit option \<Rightarrow> string \<Rightarrow> string \<Rightarrow> string \<Rightarrow> inventory \<Rightarrow> inventory result" where
  "retire_tx p now before i =
     writeTx p now (\<lambda>t db.
       bind_result (update_asset i
           (\<lambda>a. a\<lparr>as_Lifecycle := LifecycleRetired, as_UpdatedAt := now, as_RowVersion := as_RowVersion a + 1\<rparr>) db) (\<lambda>db1.
       bind_result (log_retired t ''asset'' i before db1) (retireAssetTopology t now i)))"

definition RetireAsset :: "permit option \<Rightarrow> string \<Rightarrow> string \<Rightarrow> inventory \<Rightarrow> inventory result" where
  "RetireAsset p now i db =
     bind_result (GetAsset db i) (\<lambda>before.
       if as_Lifecycle before = LifecycleRetired then Inr db
       else retire_tx p now (as_Lifecycle before) i db)"

section \<open>Moving\<close>

definition reparent_tx ::
  "permit option \<Rightarrow> string \<Rightarrow> asset \<Rightarrow> string \<Rightarrow> string option \<Rightarrow> inventory \<Rightarrow> inventory result" where
  "reparent_tx p now before i newParentID =
     writeTx p now (\<lambda>t db.
       bind_result
         (case newParentID of
            None \<Rightarrow> Inr ()
          | Some q \<Rightarrow>
              bind_result (tx_authorize t ''asset'' q) (\<lambda>_.
                require (\<not> list_ex (\<lambda>(a, d, n). a = i \<and> d = q) (iv_closure db))
                  (ErrInvalid [(''parent_id'', ''that asset is inside this one'')]))) (\<lambda>_.
       bind_result (requireUniqueSiblingName db ''parent_id'' (as_Name before) newParentID (as_Lifecycle before) i) (\<lambda>_.
       bind_result
         (let db1 = db\<lparr>iv_closure := detach (iv_closure db) i\<rparr> in
          case newParentID of None \<Rightarrow> Inr db1 | Some q \<Rightarrow> insert_closure (attach_rows (iv_closure db1) i q) db1) (\<lambda>db2.
       bind_result (update_asset i
           (\<lambda>a. a\<lparr>as_ParentID := newParentID, as_UpdatedAt := now, as_RowVersion := as_RowVersion a + 1\<rparr>) db2) (\<lambda>db3.
         log_inventory (logUpdate t ''asset'' i (asset_row before) (asset_row (before\<lparr>as_ParentID := newParentID\<rparr>))) db3)))))"

definition ReparentAsset :: "permit option \<Rightarrow> string \<Rightarrow> string \<Rightarrow> string option \<Rightarrow> inventory \<Rightarrow> inventory result" where
  "ReparentAsset p now i newParentID0 db =
     bind_result (GetAsset db i) (\<lambda>before.
       let newParentID = (if newParentID0 = Some [] then None else newParentID0) in
       if newParentID = Some i then Inl (ErrInvalid [(''parent_id'', ''an asset cannot contain itself'')])
       else reparent_tx p now before i newParentID db)"

section \<open>Queries on the tree\<close>

definition SubtreeIDs :: "inventory \<Rightarrow> string list \<Rightarrow> string list" where
  "SubtreeIDs db assetIDs = remdups (map (\<lambda>(a, d, n). d) (filter (\<lambda>(a, d, n). List.member assetIDs a) (iv_closure db)))"

definition Ancestors :: "inventory \<Rightarrow> string \<Rightarrow> asset list" where
  "Ancestors db assetID =
     concat (map (\<lambda>(a, d, n). case get_asset db a of None \<Rightarrow> [] | Some r \<Rightarrow> [r])
       (sort_key (\<lambda>(a, d, n). - n) (filter (\<lambda>(a, d, n). d = assetID \<and> 0 < n) (iv_closure db))))"

end
