(* ===== verification/Portfolio.thy ===== *)
theory Portfolio
  imports Assets
begin

text \<open>
  Services and circuits as the store writes them: \<open>Service\<close> of internal/domain/service.go and
  \<open>Circuit\<close> of internal/domain/circuit.go with their validation, and the operations of
  internal/store/services.go and internal/store/circuits.go that create, edit and retire them,
  inside a project or not. The portfolio is the inventory of assets, whose estate holds the project
  tables, with the tables of services and circuits. Instances of services, terminations of circuits
  and the providers' own rows are not part of it; of a provider only its id is kept, and of an
  environment its lifecycle.
\<close>

section \<open>Services\<close>

record service =
  sv_ID :: string
  sv_Code :: string
  sv_Name :: string
  sv_Kind :: string
  sv_EnvironmentID :: string
  sv_Availability :: string
  sv_MinHealthy :: "int option"
  sv_FailoverMode :: "string option"
  sv_Tier :: int
  sv_RTOMinutes :: "int option"
  sv_RPOMinutes :: "int option"
  sv_TeamID :: "string option"
  sv_ManagerRole :: "string option"
  sv_Lifecycle :: string
  sv_EOLDate :: "string option"
  sv_Attrs :: string
  sv_CreatedAt :: string
  sv_UpdatedAt :: string
  sv_RowVersion :: int

definition Availabilities :: "string list" where
  "Availabilities = [''standalone'', ''active_active'', ''active_passive'', ''quorum'', ''sharded'']"

definition FailoverModes :: "string list" where
  "FailoverModes = [''auto'', ''manual'', ''none'']"

definition ServiceLifecycles :: "string list" where
  "ServiceLifecycles = [LifecyclePlanned, LifecycleActive, LifecycleDeprecated, LifecycleRetired]"

definition validateService :: "service \<Rightarrow> service result" where
  "validateService s =
     (let eol = checkDate ''eol_date'' (sv_EOLDate s);
          resp = checkResponsibility (sv_TeamID s) (sv_ManagerRole s) in
      validated
        (checkRequired ''code'' (sv_Code s) @ checkRequired ''name'' (sv_Name s) @ checkVocabulary ''kind'' (sv_Kind s)
         @ checkEnum ''availability'' (sv_Availability s) Availabilities
         @ checkEnum ''lifecycle'' (sv_Lifecycle s) ServiceLifecycles
         @ checkRequired ''environment_id'' (sv_EnvironmentID s)
         @ (if sv_Tier s < 1 \<or> 4 < sv_Tier s then [(''tier'', ''must be between 1 and 4'')] else [])
         @ (case sv_FailoverMode s of None \<Rightarrow> []
            | Some m \<Rightarrow> if m = [] then [] else checkEnum ''failover_mode'' m FailoverModes)
         @ snd eol @ snd (snd resp)
         @ (if sv_Availability s = ''active_active''
            then (case sv_MinHealthy s of
                    None \<Rightarrow> [(''min_healthy'', ''is required for active_active'')]
                  | Some n \<Rightarrow> if n < 1 then [(''min_healthy'', ''must be at least 1'')] else [])
            else [])
         @ (if sv_Availability s = ''active_passive'' \<and> (sv_FailoverMode s = None \<or> sv_FailoverMode s = Some [])
            then [(''failover_mode'', ''is required for active_passive'')] else []))
        (s\<lparr>sv_Code := to_lower (trim_space (sv_Code s)), sv_Name := trim_space (sv_Name s),
           sv_Kind := trim_space (sv_Kind s), sv_EOLDate := fst eol, sv_TeamID := fst resp, sv_ManagerRole := fst (snd resp),
           sv_Attrs := (if trim_space (sv_Attrs s) = [] then ''{}'' else sv_Attrs s)\<rparr>))"

section \<open>Circuits\<close>

record circuit =
  ci_ID :: string
  ci_CID :: string
  ci_ProviderID :: string
  ci_ServiceType :: "string option"
  ci_CommitMbps :: "int option"
  ci_InstallDate :: "string option"
  ci_ContractEnd :: "string option"
  ci_Description :: "string option"
  ci_Lifecycle :: string
  ci_CreatedAt :: "string option"
  ci_UpdatedAt :: "string option"
  ci_RowVersion :: int

text \<open>The messages of the first two fields and of the commit are shortened.\<close>

definition validateCircuit :: "circuit \<Rightarrow> circuit result" where
  "validateCircuit c =
     (let install = checkDate ''install_date'' (ci_InstallDate c); contract = checkDate ''contract_end'' (ci_ContractEnd c) in
      validated
        ((if trim_space (ci_CID c) = [] then [(''cid'', ''a circuit needs an identifier'')] else [])
         @ (if trim_space (ci_ProviderID c) = [] then [(''provider_id'', ''a circuit needs a provider'')] else [])
         @ snd install @ snd contract
         @ (case ci_CommitMbps c of None \<Rightarrow> []
            | Some n \<Rightarrow> if n \<le> 0 then [(''commit_mbps'', ''a positive number of megabits, or blank'')] else [])
         @ (case (fst install, fst contract) of
              (Some i, Some e) \<Rightarrow>
                if e < i then [(''contract_end'', ''the contract ends before the circuit was installed'')] else []
            | _ \<Rightarrow> [])
         @ (if ci_Lifecycle c \<noteq> LifecycleActive \<and> ci_Lifecycle c \<noteq> LifecycleRetired
            then [(''lifecycle'', ci_Lifecycle c @ '' is not a lifecycle'')] else []))
        (c\<lparr>ci_InstallDate := fst install, ci_ContractEnd := fst contract\<rparr>))"

definition NewCircuit :: "string \<Rightarrow> string \<Rightarrow> string \<Rightarrow> circuit result" where
  "NewCircuit i cid providerID =
     validateCircuit \<lparr>ci_ID = i, ci_CID = trim_space cid, ci_ProviderID = providerID, ci_ServiceType = None,
       ci_CommitMbps = None, ci_InstallDate = None, ci_ContractEnd = None, ci_Description = None,
       ci_Lifecycle = LifecycleActive, ci_CreatedAt = None, ci_UpdatedAt = None, ci_RowVersion = 0\<rparr>"

section \<open>Tables\<close>

record portfolio =
  pf_inventory :: inventory
  pf_services :: "service list"
  pf_circuits :: "circuit list"
  pf_providers :: "string list"
  pf_serviceKinds :: "string list"
  pf_environments :: "(string \<times> string) list"
  pf_custom :: "string \<Rightarrow> string"
  pf_tags :: "string \<Rightarrow> string list"

abbreviation pf_estate :: "portfolio \<Rightarrow> estate" where
  "pf_estate pf \<equiv> iv_estate (pf_inventory pf)"

definition with_estate :: "(estate \<Rightarrow> estate result) \<Rightarrow> portfolio \<Rightarrow> portfolio result" where
  "with_estate f pf =
     bind_result (f (pf_estate pf)) (\<lambda>e. Inr (pf\<lparr>pf_inventory := (pf_inventory pf)\<lparr>iv_estate := e\<rparr>\<rparr>))"

definition with_inventory :: "(inventory \<Rightarrow> inventory result) \<Rightarrow> portfolio \<Rightarrow> portfolio result" where
  "with_inventory f pf = bind_result (f (pf_inventory pf)) (\<lambda>db. Inr (pf\<lparr>pf_inventory := db\<rparr>))"

definition GetService :: "portfolio \<Rightarrow> string \<Rightarrow> service result" where
  "GetService pf i = (case find (\<lambda>s. sv_ID s = i) (pf_services pf) of None \<Rightarrow> Inl ErrNotFound | Some s \<Rightarrow> Inr s)"

definition GetCircuit :: "portfolio \<Rightarrow> string \<Rightarrow> circuit result" where
  "GetCircuit pf i = (case find (\<lambda>c. ci_ID c = i) (pf_circuits pf) of None \<Rightarrow> Inl ErrNotFound | Some c \<Rightarrow> Inr c)"

text \<open>The environments with their lifecycles; an unknown one and a withdrawn one are refused.\<close>

definition requireAssignableEnvironment :: "portfolio \<Rightarrow> string \<Rightarrow> string option \<Rightarrow> string option \<Rightarrow> unit result" where
  "requireAssignableEnvironment pf field next current =
     (case next of
        None \<Rightarrow> Inr ()
      | Some n \<Rightarrow>
          if n = [] \<or> current = Some n then Inr ()
          else
            (case map_of (pf_environments pf) n of
               None \<Rightarrow> Inl (ErrInvalid [(field, ''choose an environment'')])
             | Some lifecycle \<Rightarrow>
                 if lifecycle = LifecycleRetired then Inl (ErrInvalid [(field, ''that environment has been withdrawn'')])
                 else Inr ()))"

text \<open>The CHECK on a date: its length and its dashes.\<close>

definition date_shape :: "string option \<Rightarrow> bool" where
  "date_shape d \<longleftrightarrow> (case d of None \<Rightarrow> True | Some s \<Rightarrow> length s = 10 \<and> s ! 4 = CHR ''-'' \<and> s ! 7 = CHR ''-'')"

definition service_checks :: "service \<Rightarrow> bool" where
  "service_checks s \<longleftrightarrow>
     oneOf (sv_Availability s) Availabilities \<and> (case sv_FailoverMode s of None \<Rightarrow> True | Some m \<Rightarrow> oneOf m FailoverModes)
     \<and> 1 \<le> sv_Tier s \<and> sv_Tier s \<le> 4 \<and> oneOf (sv_Lifecycle s) ServiceLifecycles \<and> date_shape (sv_EOLDate s)"

definition service_refs :: "portfolio \<Rightarrow> service \<Rightarrow> bool" where
  "service_refs pf s \<longleftrightarrow>
     List.member (pf_serviceKinds pf) (sv_Kind s) \<and> map_of (pf_environments pf) (sv_EnvironmentID s) \<noteq> None
     \<and> known_or_null (es_teams (pf_estate pf)) (sv_TeamID s) \<and> known_or_null (iv_roles (pf_inventory pf)) (sv_ManagerRole s)"

definition insert_service :: "service \<Rightarrow> portfolio \<Rightarrow> portfolio result" where
  "insert_service s pf =
     bind_result (require (service_checks s) (ErrInvalid [])) (\<lambda>_.
     bind_result (require (list_all (\<lambda>r. sv_ID r \<noteq> sv_ID s \<and> sv_Code r \<noteq> sv_Code s) (pf_services pf)) ErrConflict) (\<lambda>_.
     bind_result (require (service_refs pf s) (ErrInvalid [])) (\<lambda>_.
       with_estate (\<lambda>e. Inr (e\<lparr>es_entities := (es_entities e)(ProjectService := es_entities e ProjectService @ [sv_ID s])\<rparr>))
         (pf\<lparr>pf_services := pf_services pf @ [s]\<rparr>))))"

definition circuit_checks :: "circuit \<Rightarrow> bool" where
  "circuit_checks c \<longleftrightarrow>
     (case ci_CommitMbps c of None \<Rightarrow> True | Some n \<Rightarrow> 0 < n) \<and> date_shape (ci_InstallDate c) \<and> date_shape (ci_ContractEnd c)
     \<and> oneOf (ci_Lifecycle c) [LifecycleActive, LifecycleRetired] \<and> ci_CreatedAt c \<noteq> None \<and> ci_UpdatedAt c \<noteq> None"

text \<open>The unique index on the identifiers of one provider, live circuits only.\<close>

definition circuits_clash :: "circuit \<Rightarrow> circuit \<Rightarrow> bool" where
  "circuits_clash c d \<longleftrightarrow>
     ci_Lifecycle c \<noteq> LifecycleRetired \<and> ci_Lifecycle d \<noteq> LifecycleRetired
     \<and> ci_ProviderID c = ci_ProviderID d \<and> ci_CID c = ci_CID d"

definition insert_circuit :: "circuit \<Rightarrow> portfolio \<Rightarrow> portfolio result" where
  "insert_circuit c pf =
     bind_result (require (circuit_checks c) (ErrInvalid [])) (\<lambda>_.
     bind_result (require (list_all (\<lambda>d. ci_ID d \<noteq> ci_ID c \<and> \<not> circuits_clash c d) (pf_circuits pf)) ErrConflict) (\<lambda>_.
     bind_result (require (List.member (pf_providers pf) (ci_ProviderID c)) (ErrInvalid [])) (\<lambda>_.
       with_estate (\<lambda>e. Inr (e\<lparr>es_entities := (es_entities e)(ProjectCircuit := es_entities e ProjectCircuit @ [ci_ID c])\<rparr>))
         (pf\<lparr>pf_circuits := pf_circuits pf @ [c]\<rparr>))))"

section \<open>Audited values\<close>

definition auditedService :: "service \<Rightarrow> string \<Rightarrow> string \<Rightarrow> audited" where
  "auditedService s custom tags =
     \<lparr>au_type = ''serviceAudit'',
      au_fields = map (\<lambda>(tag, v). (''Service'', tag, v))
        [(''id'', VText (sv_ID s)), (''code'', VText (sv_Code s)), (''name'', VText (sv_Name s)), (''kind'', VText (sv_Kind s)),
         (''environment_id'', VText (sv_EnvironmentID s)), (''availability'', VText (sv_Availability s)),
         (''min_healthy'', opt_int (sv_MinHealthy s)), (''failover_mode'', opt_text (sv_FailoverMode s)),
         (''tier'', VInt (sv_Tier s)), (''rto_minutes'', opt_int (sv_RTOMinutes s)), (''rpo_minutes'', opt_int (sv_RPOMinutes s)),
         (''team_id'', opt_text (sv_TeamID s)), (''manager_role'', opt_text (sv_ManagerRole s)),
         (''lifecycle'', VText (sv_Lifecycle s)), (''eol_date'', opt_text (sv_EOLDate s)), (''attrs'', VText (sv_Attrs s)),
         (''created_at'', VText (sv_CreatedAt s)), (''updated_at'', VText (sv_UpdatedAt s)), (''row_version'', VInt (sv_RowVersion s))]
        @ [(''serviceAudit'', ''custom_fields'', VText custom), (''serviceAudit'', ''tags'', VText tags)]\<rparr>"

definition circuit_row :: "circuit \<Rightarrow> audited" where
  "circuit_row c =
     \<lparr>au_type = ''Circuit'',
      au_fields = map (\<lambda>(tag, v). (''Circuit'', tag, v))
        [(''id'', VText (ci_ID c)), (''cid'', VText (ci_CID c)), (''provider_id'', VText (ci_ProviderID c)),
         (''service_type'', opt_text (ci_ServiceType c)), (''commit_mbps'', opt_int (ci_CommitMbps c)),
         (''install_date'', opt_text (ci_InstallDate c)), (''contract_end'', opt_text (ci_ContractEnd c)),
         (''description'', opt_text (ci_Description c)), (''lifecycle'', VText (ci_Lifecycle c)),
         (''created_at'', opt_text (ci_CreatedAt c)), (''updated_at'', opt_text (ci_UpdatedAt c)),
         (''row_version'', VInt (ci_RowVersion c))]\<rparr>"

definition log_portfolio :: "(changeLog list \<Rightarrow> changeLog list result) \<Rightarrow> portfolio \<Rightarrow> portfolio result" where
  "log_portfolio f = with_estate (logging f)"

definition indexService :: "service \<Rightarrow> portfolio \<Rightarrow> portfolio result" where
  "indexService s =
     with_estate (\<lambda>e. Inr (indexEntity \<lparr>sd_EntityType = ''service'', sd_EntityID = sv_ID s, sd_Title = sv_Name s,
       sd_Subtitle = sv_Code s, sd_Body = sv_Kind s @ '' '' @ sv_Availability s\<rparr> e))"

definition index_circuit :: "circuit \<Rightarrow> portfolio \<Rightarrow> portfolio result" where
  "index_circuit c =
     with_estate (\<lambda>e. Inr (indexEntity \<lparr>sd_EntityType = ''circuit'', sd_EntityID = ci_ID c, sd_Title = ci_CID c,
       sd_Subtitle = (case ci_ServiceType c of None \<Rightarrow> [] | Some ty \<Rightarrow> ty), sd_Body = ci_CID c\<rparr> e))"

text \<open>The link row of something created inside a project, never an upsert.\<close>

definition insert_project_link :: "linkTable \<Rightarrow> txn \<Rightarrow> string \<Rightarrow> string \<Rightarrow> portfolio \<Rightarrow> portfolio result" where
  "insert_project_link table t projectID entityID pf =
     (let l = \<lparr>ln_ProjectID = projectID, ln_EntityID = entityID, ln_Relation = ProjectOwns, ln_Note = None,
               ln_Lifecycle = LifecycleActive, ln_CreatedAt = tx_at t, ln_UpdatedAt = tx_at t\<rparr> in
      bind_result (with_estate (insert_link table l) pf)
        (log_portfolio (logCreate t (table_name table) (link_id projectID entityID) (link_row table l))))"

definition insertProjectServiceLink :: "txn \<Rightarrow> string \<Rightarrow> string \<Rightarrow> portfolio \<Rightarrow> portfolio result" where
  "insertProjectServiceLink = insert_project_link ProjectService"

definition insertProjectCircuitLink :: "txn \<Rightarrow> string \<Rightarrow> string \<Rightarrow> portfolio \<Rightarrow> portfolio result" where
  "insertProjectCircuitLink = insert_project_link ProjectCircuit"

section \<open>Operations on services\<close>

definition insertService :: "txn \<Rightarrow> service \<Rightarrow> portfolio \<Rightarrow> portfolio result" where
  "insertService t s pf =
     bind_result (requireVocabulary (pf_serviceKinds pf) ''kind'' (sv_Kind s)) (\<lambda>_.
     bind_result (requireAssignableEnvironment pf ''environment_id'' (Some (sv_EnvironmentID s)) None) (\<lambda>_.
     bind_result (requireRole (pf_inventory pf) (sv_ManagerRole s)) (\<lambda>_.
     bind_result (insert_service s pf) (\<lambda>pf1.
     bind_result (log_portfolio (logCreate t ''service'' (sv_ID s) (auditedService s [] [])) pf1) (indexService s)))))"

definition CreateService :: "permit option \<Rightarrow> string \<Rightarrow> service \<Rightarrow> portfolio \<Rightarrow> portfolio result" where
  "CreateService p now s0 pf =
     bind_result (validateService (s0\<lparr>sv_RowVersion := 1\<rparr>)) (\<lambda>s.
       writeTx p now (\<lambda>t. insertService t s) pf)"

definition CreateServiceInProject :: "permit option \<Rightarrow> string \<Rightarrow> string \<Rightarrow> service \<Rightarrow> portfolio \<Rightarrow> portfolio result" where
  "CreateServiceInProject p now projectID s0 pf =
     bind_result (validateService (s0\<lparr>sv_RowVersion := 1\<rparr>)) (\<lambda>s.
     case p of
       None \<Rightarrow> Inl ErrForbidden
     | Some q \<Rightarrow>
         if \<not> PermitHoldsProject q projectID then Inl ErrForbidden
         else
           writeTx (Some (scopedPermit (permit_Actor q) [projectID] (entities_of [(''service'', [sv_ID s])]))) now
             (\<lambda>t pf. bind_result (insertService t s pf) (insertProjectServiceLink t projectID (sv_ID s))) pf)"

text \<open>The UPDATE keeps the creation time; \<open>before\<close> was read before the transaction.\<close>

definition update_service_tx :: "permit option \<Rightarrow> string \<Rightarrow> service \<Rightarrow> service \<Rightarrow> portfolio \<Rightarrow> portfolio result" where
  "update_service_tx p now before s =
     writeTx p now (\<lambda>t pf.
       bind_result (requireAssignableEnvironment pf ''environment_id'' (Some (sv_EnvironmentID s)) (Some (sv_EnvironmentID before))) (\<lambda>_.
       bind_result (requireVocabulary (pf_serviceKinds pf) ''kind'' (sv_Kind s)) (\<lambda>_.
       bind_result (requireRole (pf_inventory pf) (sv_ManagerRole s)) (\<lambda>_.
       case find (\<lambda>r. sv_ID r = sv_ID s \<and> sv_RowVersion r = sv_RowVersion s) (pf_services pf) of
         None \<Rightarrow> Inl ErrStale
       | Some row \<Rightarrow>
           bind_result (require (service_checks s) (ErrInvalid [])) (\<lambda>_.
           bind_result (require (list_all (\<lambda>r. sv_ID r = sv_ID s \<or> sv_Code r \<noteq> sv_Code s) (pf_services pf)) ErrConflict) (\<lambda>_.
           bind_result (require (service_refs pf s) (ErrInvalid [])) (\<lambda>_.
             let pf1 = pf\<lparr>pf_services := update_where (\<lambda>r. sv_ID r = sv_ID s)
                   (\<lambda>r. s\<lparr>sv_CreatedAt := sv_CreatedAt r, sv_RowVersion := sv_RowVersion r + 1\<rparr>) (pf_services pf)\<rparr>;
                 custom = pf_custom pf1 (sv_ID s); tags = foldEntityTags (pf_tags pf1 (sv_ID s)) in
             bind_result (log_portfolio (logUpdate t ''service'' (sv_ID s) (auditedService before custom tags)
                 (auditedService (s\<lparr>sv_RowVersion := sv_RowVersion s + 1\<rparr>) custom tags)) pf1) (indexService s))))))))"

definition UpdateService :: "permit option \<Rightarrow> string \<Rightarrow> service \<Rightarrow> portfolio \<Rightarrow> portfolio result" where
  "UpdateService p now s0 pf =
     bind_result (validateService s0) (\<lambda>s1.
     bind_result (GetService pf (sv_ID s1)) (\<lambda>before.
       update_service_tx p now before (s1\<lparr>sv_CreatedAt := sv_CreatedAt before, sv_UpdatedAt := now\<rparr>) pf))"

definition RetireService :: "permit option \<Rightarrow> string \<Rightarrow> string \<Rightarrow> portfolio \<Rightarrow> portfolio result" where
  "RetireService p now i pf =
     bind_result (GetService pf i) (\<lambda>before.
       if sv_Lifecycle before = LifecycleRetired then Inr pf
       else
         writeTx p now (\<lambda>t pf.
           log_portfolio (tx_log t ''service'' i ''retire'' (retire_diff (sv_Lifecycle before)) [])
             (pf\<lparr>pf_services := update_where (\<lambda>r. sv_ID r = i)
                (\<lambda>r. r\<lparr>sv_Lifecycle := LifecycleRetired, sv_UpdatedAt := now, sv_RowVersion := sv_RowVersion r + 1\<rparr>)
                (pf_services pf)\<rparr>)) pf)"

section \<open>Operations on circuits\<close>

definition insertCircuit :: "txn \<Rightarrow> circuit \<Rightarrow> portfolio \<Rightarrow> portfolio result" where
  "insertCircuit t c pf =
     bind_result (insert_circuit c pf) (\<lambda>pf1.
     bind_result (log_portfolio (logCreate t ''circuit'' (ci_ID c) (circuit_row c)) pf1) (index_circuit c))"

definition CreateCircuit :: "permit option \<Rightarrow> string \<Rightarrow> circuit \<Rightarrow> portfolio \<Rightarrow> portfolio result" where
  "CreateCircuit p now c0 pf =
     bind_result (validateCircuit c0) (\<lambda>c1.
       let c = c1\<lparr>ci_RowVersion := 1, ci_CreatedAt := Some now, ci_UpdatedAt := Some now\<rparr> in
       writeTx p now (\<lambda>t. insertCircuit t c) pf)"

definition CreateCircuitInProject :: "permit option \<Rightarrow> string \<Rightarrow> string \<Rightarrow> circuit \<Rightarrow> portfolio \<Rightarrow> portfolio result" where
  "CreateCircuitInProject p now projectID c0 pf =
     bind_result (validateCircuit c0) (\<lambda>c1.
     case p of
       None \<Rightarrow> Inl ErrForbidden
     | Some q \<Rightarrow>
         if \<not> PermitHoldsProject q projectID then Inl ErrForbidden
         else
           let c = c1\<lparr>ci_RowVersion := 1, ci_CreatedAt := Some now, ci_UpdatedAt := Some now\<rparr> in
           writeTx (Some (scopedPermit (permit_Actor q) [projectID] (entities_of [(''circuit'', [ci_ID c])]))) now
             (\<lambda>t pf. bind_result (insertCircuit t c pf) (insertProjectCircuitLink t projectID (ci_ID c))) pf)"

text \<open>The UPDATE sets neither the lifecycle nor the creation time.\<close>

definition update_circuit_tx :: "permit option \<Rightarrow> string \<Rightarrow> circuit \<Rightarrow> circuit \<Rightarrow> portfolio \<Rightarrow> portfolio result" where
  "update_circuit_tx p now before c =
     writeTx p now (\<lambda>t pf.
       case find (\<lambda>r. ci_ID r = ci_ID c \<and> ci_RowVersion r = ci_RowVersion c) (pf_circuits pf) of
         None \<Rightarrow> Inl ErrStale
       | Some row \<Rightarrow>
           let new = c\<lparr>ci_Lifecycle := ci_Lifecycle row, ci_CreatedAt := ci_CreatedAt row, ci_RowVersion := ci_RowVersion row + 1\<rparr> in
           bind_result (require (circuit_checks new) (ErrInvalid [])) (\<lambda>_.
           bind_result (require (list_all (\<lambda>d. ci_ID d = ci_ID c \<or> \<not> circuits_clash new d) (pf_circuits pf)) ErrConflict) (\<lambda>_.
           bind_result (require (List.member (pf_providers pf) (ci_ProviderID c)) (ErrInvalid [])) (\<lambda>_.
           bind_result (log_portfolio (logUpdate t ''circuit'' (ci_ID c) (circuit_row before)
                 (circuit_row (c\<lparr>ci_RowVersion := ci_RowVersion c + 1\<rparr>)))
               (pf\<lparr>pf_circuits := update_where (\<lambda>r. ci_ID r = ci_ID c) (\<lambda>_. new) (pf_circuits pf)\<rparr>)) (index_circuit c)))))"

definition UpdateCircuit :: "permit option \<Rightarrow> string \<Rightarrow> circuit \<Rightarrow> portfolio \<Rightarrow> portfolio result" where
  "UpdateCircuit p now c0 pf =
     bind_result (validateCircuit c0) (\<lambda>c1.
     bind_result (GetCircuit pf (ci_ID c1)) (\<lambda>before.
       update_circuit_tx p now before (c1\<lparr>ci_UpdatedAt := Some now\<rparr>) pf))"

definition RetireCircuit :: "permit option \<Rightarrow> string \<Rightarrow> string \<Rightarrow> portfolio \<Rightarrow> portfolio result" where
  "RetireCircuit p now i pf =
     bind_result (GetCircuit pf i) (\<lambda>before.
       if ci_Lifecycle before = LifecycleRetired then Inr pf
       else
         writeTx p now (\<lambda>t pf.
           if \<not> list_ex (\<lambda>r. ci_ID r = i \<and> ci_RowVersion r = ci_RowVersion before) (pf_circuits pf) then Inl ErrStale
           else
             log_portfolio (logUpdate t ''circuit'' i (circuit_row before)
                 (circuit_row (before\<lparr>ci_Lifecycle := LifecycleRetired, ci_UpdatedAt := Some now\<rparr>)))
               (pf\<lparr>pf_circuits := update_where (\<lambda>r. ci_ID r = i)
                  (\<lambda>r. r\<lparr>ci_Lifecycle := LifecycleRetired, ci_UpdatedAt := Some now, ci_RowVersion := ci_RowVersion r + 1\<rparr>)
                  (pf_circuits pf)\<rparr>)) pf)"

section \<open>Requests\<close>

text \<open>
  The requests of this surface and how they run: the operations on projects, links and assignments,
  on assets, on services and on circuits.
\<close>

datatype request =
  ProjectReq project_op
| CreateAssetReq "nat \<Rightarrow> string" asset "string list option"
| CreateAssetInProjectReq "nat \<Rightarrow> string" string asset
| UpdateAssetReq asset "string list option"
| RetireAssetReq string
| ReparentAssetReq string "string option"
| CreateServiceReq service
| CreateServiceInProjectReq string service
| UpdateServiceReq service
| RetireServiceReq string
| CreateCircuitReq circuit
| CreateCircuitInProjectReq string circuit
| UpdateCircuitReq circuit
| RetireCircuitReq string

fun handle :: "permit option \<Rightarrow> string \<Rightarrow> request \<Rightarrow> portfolio \<Rightarrow> portfolio result" where
  "handle p now (ProjectReq op) = with_estate (run_op p now op)"
| "handle p now (CreateAssetReq fresh a envs) = with_inventory (CreateAsset p now fresh a envs)"
| "handle p now (CreateAssetInProjectReq fresh projectID a) = with_inventory (CreateAssetInProject p now fresh projectID a)"
| "handle p now (UpdateAssetReq a envs) = with_inventory (UpdateAsset p now a envs)"
| "handle p now (RetireAssetReq i) = with_inventory (RetireAsset p now i)"
| "handle p now (ReparentAssetReq i q) = with_inventory (ReparentAsset p now i q)"
| "handle p now (CreateServiceReq s) = CreateService p now s"
| "handle p now (CreateServiceInProjectReq projectID s) = CreateServiceInProject p now projectID s"
| "handle p now (UpdateServiceReq s) = UpdateService p now s"
| "handle p now (RetireServiceReq i) = RetireService p now i"
| "handle p now (CreateCircuitReq c) = CreateCircuit p now c"
| "handle p now (CreateCircuitInProjectReq projectID c) = CreateCircuitInProject p now projectID c"
| "handle p now (UpdateCircuitReq c) = UpdateCircuit p now c"
| "handle p now (RetireCircuitReq i) = RetireCircuit p now i"

text \<open>
  One request of a user among \<open>us\<close> who is not an administrator, under the permit minted for it in
  the current state.
\<close>

inductive owner_act :: "string list \<Rightarrow> string set \<Rightarrow> portfolio \<Rightarrow> portfolio \<Rightarrow> bool" for admins us where
  act: "usr_ID u \<in> us \<Longrightarrow> \<not> isAdministrator (NewAuthorizer admins (store_resolver (pf_estate pf))) u \<Longrightarrow>
     mintPermit (NewAuthorizer admins (store_resolver (pf_estate pf))) (Some u) = Inr p \<Longrightarrow>
     handle (Some p) now req pf = Inr pf' \<Longrightarrow> owner_act admins us pf pf'"

inductive_cases owner_actE: "owner_act admins us pf pf'"

text \<open>The rows of the three tables that a project can own.\<close>

fun entity_ids :: "portfolio \<Rightarrow> linkTable \<Rightarrow> string list" where
  "entity_ids pf ProjectAsset = asset_ids (pf_inventory pf)"
| "entity_ids pf ProjectService = map sv_ID (pf_services pf)"
| "entity_ids pf ProjectCircuit = map ci_ID (pf_circuits pf)"

end
