(* ===== verification/Assets_Effects.thy ===== *)
theory Assets_Effects
  imports Assets
begin

text \<open>
  What each transaction on assets does to the rows of the tree: the effect of a successful run on
  the asset rows, the closure table and the ids projects may link to, and on the audit trail.
\<close>

section \<open>Statements that leave the tree alone\<close>

definition core :: "inventory \<Rightarrow> asset list \<times> closure \<times> string list" where
  "core db = (iv_assets db, iv_closure db, es_entities (iv_estate db) ProjectAsset)"

lemma each_result_keeps:
  assumes "\<And>x s s'. f x s = Inr s' \<Longrightarrow> g s' = g s" "each_result f xs s = Inr s'"
  shows "g s' = g s"
  using assms(2) by (induction xs arbitrary: s) (auto simp: bind_result_Inr dest: assms(1))

lemma log_inventory_Inr:
  "log_inventory f db = Inr db' \<longleftrightarrow>
     (\<exists>rows. f (es_log (iv_estate db)) = Inr rows \<and> db' = db\<lparr>iv_estate := (iv_estate db)\<lparr>es_log := rows\<rparr>\<rparr>)"
  by (auto simp: log_inventory_def logging_def bind_result_Inr)

lemma core_log: "log_inventory f db = Inr db' \<Longrightarrow> core db' = core db"
  by (auto simp: log_inventory_Inr core_def)

lemma core_retired: "log_retired t ty i old db = Inr db' \<Longrightarrow> core db' = core db"
  unfolding log_retired_def by (rule core_log)

lemma environments_only:
  assumes "setAssetEnvironments i envs db = Inr db'"
  shows "db'\<lparr>iv_memberships := []\<rparr> = db\<lparr>iv_memberships := []\<rparr>"
proof (cases envs)
  case (Some ids)
  let ?step = "\<lambda>env d. if env = [] then Inr d
      else bind_result (require (\<not> List.member (iv_memberships d) (i, env)) ErrConflict) (\<lambda>_.
           bind_result (require (List.member (map en_ID (iv_environments d)) env \<and> List.member (asset_ids d) i) (ErrInvalid [])) (\<lambda>_.
             Inr (d\<lparr>iv_memberships := iv_memberships d @ [(i, env)]\<rparr>)))"
  have "d'\<lparr>iv_memberships := []\<rparr> = d\<lparr>iv_memberships := []\<rparr>" if "?step x d = Inr d'" for x d d'
    using that by (auto split: if_splits)
  from each_result_keeps [of ?step "\<lambda>d. d\<lparr>iv_memberships := []\<rparr>", OF this] assms Some show ?thesis
    by (auto simp: setAssetEnvironments_def)
qed (use assms in \<open>simp add: setAssetEnvironments_def\<close>)

lemma core_environments:
  assumes "setAssetEnvironments i envs db = Inr db'"
  shows "core db' = core db"
proof -
  have "core (d\<lparr>iv_memberships := []\<rparr>) = core d" for d by (simp add: core_def)
  with environments_only [OF assms] show ?thesis by metis
qed

lemma core_ifaces: "instantiateInterfaceComponents t aid entries now db = Inr db' \<Longrightarrow> core db' = core db"
  unfolding instantiateInterfaceComponents_def
proof (rule each_result_keeps [where g = core])
  fix x s s'
  assume "(case x of (c, iid) \<Rightarrow> \<lambda>db. if dc_Kind c \<noteq> ComponentKindInterface then Inl ErrDriver
       else bind_result (newInterfaceFromTemplate iid aid c now) (\<lambda>i.
         bind_result (insert_iface i db) (log_inventory (logCreate t ''interface'' (if_ID i) (iface_row i))))) s = Inr s'"
  then show "core s' = core s"
    by (auto simp: bind_result_Inr insert_iface_def core_def dest: core_log split: prod.splits if_splits)
qed

lemma core_components: "instantiateComponents t fresh a planned db = Inr db' \<Longrightarrow> core db' = core db"
  by (auto simp: instantiateComponents_def Let_def bind_result_Inr dest: core_ifaces split: option.splits)

lemma core_index [simp]: "core (indexAsset a db) = core db"
  by (simp add: core_def indexAsset_def indexEntity_def)

lemma core_link: "insertProjectAssetLink t pid aid db = Inr db' \<Longrightarrow> core db' = core db"
  by (auto simp: insertProjectAssetLink_def Let_def bind_result_Inr insert_link_def log_inventory_Inr core_def)

lemma core_topology: "retireAssetTopology t now i db = Inr db' \<Longrightarrow> core db' = core db"
proof -
  have members: "core d' = core d" if "retire_members t now i d = Inr d'" for d d'
    using that unfolding retire_members_def
    by (rule each_result_keeps [where g = core, rotated]) (auto dest!: core_retired simp: core_def)
  have rows: "core d' = core d" if "retireRows t now ids d = Inr d'" for d d' ids
    using that unfolding retireRows_def
    by (rule each_result_keeps [where g = core, rotated]) (auto dest!: core_retired simp: core_def)
  have cables: "core d' = core d" if "retire_cables t ids d = Inr d'" for d d' ids
    using that unfolding retire_cables_def
    by (rule each_result_keeps [where g = core, rotated]) (auto dest!: core_retired simp: core_def)
  assume "retireAssetTopology t now i db = Inr db'"
  then show ?thesis by (auto simp: retireAssetTopology_def bind_result_Inr dest!: members rows cables)
qed

section \<open>Creating\<close>

lemma requires_Inr:
  "requireVocabulary codes field v = Inr () \<longleftrightarrow> v \<in> set codes"
  "CheckPlacement p u ps = Inr r \<Longrightarrow> r = ()"
  by (simp_all add: requireVocabulary_def)

lemma insert_asset_Inr:
  assumes "insert_asset a db = Inr db'"
  shows "core db' = (iv_assets db @ [a], iv_closure db, es_entities (iv_estate db) ProjectAsset @ [as_ID a])
     \<and> as_ID a \<notin> set (asset_ids db) \<and> (\<forall>b \<in> set (iv_assets db). \<not> siblings_clash a b)
     \<and> asset_checks a \<and> asset_refs db (as_ID a # asset_ids db) a
     \<and> iv_closure db' = iv_closure db \<and> es_log (iv_estate db') = es_log (iv_estate db)"
  using assms by (auto simp: insert_asset_def Let_def core_def asset_ids_def list_all_iff)

lemma insert_closure_Inr:
  "insert_closure rows db = Inr db' \<Longrightarrow> db' = db\<lparr>iv_closure := iv_closure db @ rows\<rparr>"
  by (simp add: insert_closure_def)

lemma new_node_Inr:
  assumes "insertClosureForNewNode i parent db = Inr db'"
  shows "db' = db\<lparr>iv_closure := iv_closure db @ leaf_rows (iv_closure db) i parent\<rparr>"
proof -
  let ?self = "db\<lparr>iv_closure := iv_closure db @ [(i, i, 0)]\<rparr>"
  from assms obtain db1 where "insert_closure [(i, i, 0)] db = Inr db1"
    and rest: "(case parent of None \<Rightarrow> Inr db1 | Some p \<Rightarrow> if p = [] then Inr db1
         else insert_closure (map (\<lambda>(a, d, n). (a, i, n + 1)) (filter (\<lambda>(a, d, n). d = p) (iv_closure db1))) db1) = Inr db'"
    by (auto simp: insertClosureForNewNode_def bind_result_Inr)
  then have "db1 = ?self" by (simp add: insert_closure_Inr)
  with rest show ?thesis
    by (auto simp: leaf_rows_def dest!: insert_closure_Inr split: option.splits if_splits)
qed

lemma insertAsset_effect:
  assumes "insertAsset t fresh a envs codes planned db = Inr db'"
  shows "core db' = (iv_assets db @ [a], iv_closure db @ leaf_rows (iv_closure db) (as_ID a) (as_ParentID a),
          es_entities (iv_estate db) ProjectAsset @ [as_ID a])
     \<and> as_ID a \<notin> set (asset_ids db) \<and> as_ID a \<noteq> [] \<and> (\<forall>b \<in> set (iv_assets db). \<not> siblings_clash a b)
     \<and> asset_refs db (as_ID a # asset_ids db) a \<and> requireNoReplacementCycle db (as_ID a) (as_ReplacesAssetID a) = Inr ()"
proof -
  from assms obtain db1 db2 db3 db4 db5 where
    rep: "requireNoReplacementCycle db (as_ID a) (as_ReplacesAssetID a) = Inr ()"
    and 1: "insert_asset a db = Inr db1" and 2: "insertClosureForNewNode (as_ID a) (as_ParentID a) db1 = Inr db2"
    and 3: "setAssetEnvironments (as_ID a) envs db2 = Inr db3"
    and 4: "log_inventory (logCreate t ''asset'' (as_ID a) (auditedAsset a codes [] [])) db3 = Inr db4"
    and 5: "instantiateComponents t fresh a planned db4 = Inr db5" and db': "db' = indexAsset a db5"
    by (auto simp: insertAsset_def bind_result_Inr)
  from 3 4 5 db' have "core db' = core db2" using core_environments core_log core_components by simp
  moreover from 4 have "as_ID a \<noteq> []"
    by (auto simp: log_inventory_Inr logCreate_def logCreateBatch_def tx_log_Inr row_accepted_def log_row_def)
  ultimately show ?thesis using insert_asset_Inr [OF 1] new_node_Inr [OF 2] rep by (simp add: core_def)
qed

section \<open>Changing a row\<close>

lemma get_asset_in: "get_asset db i = Some a \<Longrightarrow> a \<in> set (iv_assets db) \<and> as_ID a = i"
  by (auto simp: get_asset_def find_Some_iff)

lemma get_asset_None: "get_asset db i = None \<longleftrightarrow> i \<notin> set (asset_ids db)"
  by (auto simp: get_asset_def find_None_iff asset_ids_def)

lemma update_asset_Inr:
  assumes "update_asset i f db = Inr db'"
  shows "core db' = (update_where (\<lambda>b. as_ID b = i) f (iv_assets db), iv_closure db, es_entities (iv_estate db) ProjectAsset)
     \<and> iv_estate db' = iv_estate db
     \<and> (\<forall>a. get_asset db i = Some a \<longrightarrow> asset_refs db (asset_ids db) (f a) \<and> asset_checks (f a)
            \<and> (\<forall>b \<in> set (iv_assets db). as_ID b = i \<or> \<not> siblings_clash (f a) b))"
proof (cases "get_asset db i")
  case None
  then have "update_where (\<lambda>b. as_ID b = i) f (iv_assets db) = iv_assets db"
    by (auto simp: get_asset_def find_None_iff update_where_def intro!: map_idI)
  with None assms show ?thesis by (simp add: update_asset_def core_def)
qed (use assms in \<open>auto simp: update_asset_def core_def list_all_iff\<close>)

lemma update_tx_effect:
  assumes "update_tx p now before bc ac envs a db = Inr db'"
  shows "\<exists>f. core db' = (update_where (\<lambda>b. as_ID b = as_ID a) f (iv_assets db), iv_closure db,
               es_entities (iv_estate db) ProjectAsset)
     \<and> (\<forall>r. as_ID (f r) = as_ID a \<and> as_ParentID (f r) = as_ParentID r \<and> as_ReplacesAssetID (f r) = as_ReplacesAssetID a)
     \<and> (\<forall>r. get_asset db (as_ID a) = Some r \<longrightarrow> asset_refs db (asset_ids db) (f r)
            \<and> (\<forall>b \<in> set (iv_assets db). as_ID b = as_ID a \<or> \<not> siblings_clash (f r) b))
     \<and> requireNoReplacementCycle db (as_ID a) (as_ReplacesAssetID a) = Inr ()"
proof -
  let ?f = "\<lambda>r. a\<lparr>as_ParentID := as_ParentID r, as_CreatedAt := as_CreatedAt r, as_RowVersion := as_RowVersion r + 1\<rparr>"
  from assms obtain db1 db2 db3 custom tags where
    rep: "requireNoReplacementCycle db (as_ID a) (as_ReplacesAssetID a) = Inr ()"
    and 1: "update_asset (as_ID a) ?f db = Inr db1" and 2: "setAssetEnvironments (as_ID a) envs db1 = Inr db2"
    and 3: "log_inventory (logUpdate (begin_tx p now) ''asset'' (as_ID a) (auditedAsset before bc custom tags)
        (auditedAsset (a\<lparr>as_RowVersion := as_RowVersion a + 1\<rparr>) ac custom tags)) db2 = Inr db3"
    and db': "db' = indexAsset a db3"
    by (auto simp: update_tx_def writeTx_def bind_result_Inr Let_def split: option.splits if_splits)
  from 2 3 db' have "core db' = core db1" using core_environments core_log by simp
  with update_asset_Inr [OF 1] rep show ?thesis by (intro exI [of _ ?f]) auto
qed

lemma retire_tx_effect:
  assumes "retire_tx p now old i db = Inr db'"
  shows "\<exists>f. core db' = (update_where (\<lambda>b. as_ID b = i) f (iv_assets db), iv_closure db, es_entities (iv_estate db) ProjectAsset)
     \<and> (\<forall>r. as_ID (f r) = as_ID r \<and> as_ParentID (f r) = as_ParentID r \<and> as_ReplacesAssetID (f r) = as_ReplacesAssetID r
            \<and> \<not> live (f r))"
proof -
  let ?f = "\<lambda>a. a\<lparr>as_Lifecycle := LifecycleRetired, as_UpdatedAt := now, as_RowVersion := as_RowVersion a + 1\<rparr>"
  from assms obtain db1 db2 where "update_asset i ?f db = Inr db1" "log_retired (begin_tx p now) ''asset'' i old db1 = Inr db2"
    "retireAssetTopology (begin_tx p now) now i db2 = Inr db'"
    by (auto simp: retire_tx_def writeTx_def bind_result_Inr)
  then show ?thesis using update_asset_Inr core_retired core_topology
    by (intro exI [of _ ?f]) (simp add: live_def)
qed

lemma reparent_tx_effect:
  assumes "reparent_tx p now before i q db = Inr db'"
  shows "\<exists>f. core db' = (update_where (\<lambda>b. as_ID b = i) f (iv_assets db), moved_rows (iv_closure db) i q,
               es_entities (iv_estate db) ProjectAsset)
     \<and> (\<forall>r. as_ID (f r) = as_ID r \<and> as_ParentID (f r) = q \<and> as_ReplacesAssetID (f r) = as_ReplacesAssetID r)
     \<and> (\<forall>r. get_asset db i = Some r \<longrightarrow> asset_refs db (asset_ids db) (f r)
            \<and> (\<forall>b \<in> set (iv_assets db). as_ID b = i \<or> \<not> siblings_clash (f r) b))
     \<and> (\<forall>p'. q = Some p' \<longrightarrow> (\<forall>n. (i, p', n) \<notin> set (iv_closure db)))"
proof -
  let ?f = "\<lambda>a. a\<lparr>as_ParentID := q, as_UpdatedAt := now, as_RowVersion := as_RowVersion a + 1\<rparr>"
  let ?det = "db\<lparr>iv_closure := detach (iv_closure db) i\<rparr>"
  from assms obtain db2 db3 where
    fresh: "\<forall>p'. q = Some p' \<longrightarrow> \<not> list_ex (\<lambda>(a, d, n). a = i \<and> d = p') (iv_closure db)"
    and 2: "(case q of None \<Rightarrow> Inr ?det | Some p' \<Rightarrow> insert_closure (attach_rows (iv_closure ?det) i p') ?det) = Inr db2"
    and 3: "update_asset i ?f db2 = Inr db3"
    and 4: "log_inventory (logUpdate (begin_tx p now) ''asset'' i (asset_row before) (asset_row (before\<lparr>as_ParentID := q\<rparr>))) db3 = Inr db'"
    by (auto simp: reparent_tx_def writeTx_def bind_result_Inr Let_def split: option.splits)
  have db2: "db2 = db\<lparr>iv_closure := moved_rows (iv_closure db) i q\<rparr>"
    using 2 by (auto simp: moved_rows_def dest: insert_closure_Inr split: option.splits)
  have same: "get_asset db2 i = get_asset db i" "asset_ids db2 = asset_ids db" "asset_refs db2 ids a = asset_refs db ids a" for ids a
    by (simp_all add: db2 get_asset_def asset_ids_def asset_refs_def)
  from update_asset_Inr [OF 3] core_log [OF 4] same fresh show ?thesis
    by (intro exI [of _ ?f]) (auto simp: db2 list_ex_iff)
qed

end
