(* ===== verification/Assets_Props.thy ===== *)
theory Assets_Props
  imports Assets_Effects
begin

text \<open>
  Invariants of the inventory under any sequence of transactions, whatever was read before each: the
  closure table is the containment tree, the lineage of replacements has no loop, live siblings
  have different names. What retiring and moving an asset guarantee.
\<close>

section \<open>The tree and the lineage of a state\<close>

definition parent_of :: "asset list \<Rightarrow> string \<Rightarrow> string option" where
  "parent_of rows i = Option.bind (find (\<lambda>a. as_ID a = i) rows) as_ParentID"

text \<open>An empty predecessor is none, as the walk has it.\<close>

definition replaces_of :: "asset list \<Rightarrow> string \<Rightarrow> string option" where
  "replaces_of rows i =
     Option.bind (find (\<lambda>a. as_ID a = i) rows)
       (\<lambda>a. case as_ReplacesAssetID a of None \<Rightarrow> None | Some r \<Rightarrow> if r = [] then None else Some r)"

definition loop_free :: "(string \<Rightarrow> string option) \<Rightarrow> bool" where
  "loop_free par \<longleftrightarrow> (\<forall>d n. nth_parent par n d = Some d \<longrightarrow> n = 0)"

definition tree_ok :: "asset list \<Rightarrow> closure \<Rightarrow> bool" where
  "tree_ok rows cl \<longleftrightarrow>
     distinct (map as_ID rows) \<and> [] \<notin> set (map as_ID rows)
     \<and> closed_tree (set (map as_ID rows)) (parent_of rows)
     \<and> mirrors (set (map as_ID rows)) (parent_of rows) cl"

definition lineage_ok :: "asset list \<Rightarrow> bool" where
  "lineage_ok rows \<longleftrightarrow>
     closed_tree (set (map as_ID rows)) (replaces_of rows) \<and> loop_free (replaces_of rows)"

definition names_ok :: "asset list \<Rightarrow> bool" where
  "names_ok rows \<longleftrightarrow> (\<forall>a \<in> set rows. \<forall>b \<in> set rows. siblings_clash a b \<longrightarrow> as_ID a = as_ID b)"

definition inventory_ok :: "inventory \<Rightarrow> bool" where
  "inventory_ok db \<longleftrightarrow>
     tree_ok (iv_assets db) (iv_closure db) \<and> lineage_ok (iv_assets db) \<and> names_ok (iv_assets db)
     \<and> set (es_entities (iv_estate db) ProjectAsset) = set (asset_ids db)"

lemma find_append_new:
  "i \<notin> set (map as_ID rows) \<Longrightarrow> find (\<lambda>b. as_ID b = j) (rows @ [a])
     = (if j = as_ID a \<and> j \<notin> set (map as_ID rows) then Some a else find (\<lambda>b. as_ID b = j) rows)"
  by (induction rows) auto

lemma find_missing: "find (\<lambda>b. as_ID b = j) rows = None \<longleftrightarrow> j \<notin> set (map as_ID rows)"
  by (auto simp: find_None_iff)

lemma parent_of_append: "as_ID a \<notin> set (map as_ID rows) \<Longrightarrow> parent_of (rows @ [a]) = (parent_of rows)(as_ID a := as_ParentID a)"
  by (rule ext) (simp add: parent_of_def find_append_new)

lemma replaces_of_append:
  "as_ID a \<notin> set (map as_ID rows) \<Longrightarrow> replaces_of (rows @ [a]) = (replaces_of rows)
     (as_ID a := case as_ReplacesAssetID a of None \<Rightarrow> None | Some r \<Rightarrow> if r = [] then None else Some r)"
  by (rule ext) (simp add: replaces_of_def find_append_new)

lemma find_update:
  assumes "\<And>r. r \<in> set rows \<Longrightarrow> as_ID r = i \<Longrightarrow> as_ID (f r) = i"
  shows "find (\<lambda>a. as_ID a = j) (update_where (\<lambda>b. as_ID b = i) f rows)
     = (if j = i then map_option f (find (\<lambda>a. as_ID a = j) rows) else find (\<lambda>a. as_ID a = j) rows)"
  using assms by (induction rows) (auto simp: update_where_def)

lemma ids_update_asset:
  assumes "\<And>r. r \<in> set rows \<Longrightarrow> as_ID r = i \<Longrightarrow> as_ID (f r) = i"
  shows "map as_ID (update_where (\<lambda>b. as_ID b = i) f rows) = map as_ID rows"
  using assms by (auto simp: update_where_def)

section \<open>Loops\<close>

lemma nth_parent_repeat: "nth_parent par n d = Some d \<Longrightarrow> nth_parent par (m * n) d = Some d"
  by (induction m) (simp_all add: nth_parent_add)

lemma inside_upd: "inside par d i \<Longrightarrow> inside (par(i := q)) d i"
proof -
  assume "inside par d i"
  then obtain k where "nth_parent par k d = Some i" by (auto simp: inside_def)
  then have "\<exists>n. nth_parent (par(i := q)) n d = Some i"
  proof (induction k arbitrary: d)
    case (Suc k)
    show ?case
    proof (cases "d = i")
      case False
      from Suc.prems obtain p where "par d = Some p" "nth_parent par k p = Some i" by (auto split: option.splits)
      from Suc.IH [OF this(2)] obtain n where "nth_parent (par(i := q)) n p = Some i" by blast
      moreover have "(par(i := q)) d = Some p" using False \<open>par d = Some p\<close> by simp
      ultimately have "nth_parent (par(i := q)) (Suc n) d = Some i" by (simp only: nth_parent.simps option.case)
      then show ?thesis by blast
    qed (auto intro: exI [of _ 0])
  qed (auto intro: exI [of _ 0])
  then show ?thesis by (simp add: inside_def)
qed

text \<open>Pointing a node at a chain that does not contain it makes no loop.\<close>

lemma loop_free_upd:
  assumes "loop_free par" "\<And>p. q = Some p \<Longrightarrow> \<not> inside par p i"
  shows "loop_free (par(i := q))"
  unfolding loop_free_def
proof (intro allI impI)
  fix d n
  assume loop: "nth_parent (par(i := q)) n d = Some d"
  show "n = 0"
  proof (cases "inside par d i")
    case False
    with loop assms(1) show ?thesis by (auto simp: nth_parent_outside loop_free_def)
  next
    case True
    then have "inside (par(i := q)) d i" by (rule inside_upd)
    then obtain k where k: "nth_parent (par(i := q)) k d = Some i" unfolding inside_def by blast
    show ?thesis
    proof (rule ccontr)
      assume n: "n \<noteq> 0"
      have "k + (Suc k * n - k) = Suc k * n" using n by (cases n) (auto simp: algebra_simps)
      with nth_parent_repeat [OF loop, of "Suc k"] k have "nth_parent (par(i := q)) (Suc k * n - k) i = Some d"
        using nth_parent_add [of "par(i := q)" k "Suc k * n - k" d] by simp
      with k have "nth_parent (par(i := q)) ((Suc k * n - k) + k) i = Some i" by (simp add: nth_parent_add)
      moreover have "(Suc k * n - k) + k = Suc (Suc k * n - 1)" using n by (cases n) auto
      ultimately obtain p where "q = Some p" "nth_parent (par(i := q)) (Suc k * n - 1) p = Some i"
        by (auto split: option.splits)
      with assms(2) show False by (auto simp: nth_parent_outside inside_def)
    qed
  qed
qed

section \<open>The walk along a lineage\<close>

lemma inside_step: "par d = Some p \<Longrightarrow> inside par d x \<longleftrightarrow> x = d \<or> inside par p x"
proof -
  assume p: "par d = Some p"
  have "(\<exists>n. nth_parent par n d = Some x) \<longleftrightarrow> nth_parent par 0 d = Some x \<or> (\<exists>n. nth_parent par (Suc n) d = Some x)"
    by (metis not0_implies_Suc)
  then show ?thesis using p by (auto simp: inside_def)
qed

lemma inside_end: "par d = None \<Longrightarrow> inside par d x \<longleftrightarrow> x = d"
proof -
  assume "par d = None"
  then have "nth_parent par n d = Some x \<longleftrightarrow> n = 0 \<and> x = d" for n by (cases n) auto
  then show ?thesis by (simp add: inside_def)
qed

lemma walk_replaces_clear:
  "walk_replaces db hops seen i = Inr () \<Longrightarrow> x \<in> set seen \<Longrightarrow> \<not> inside (replaces_of (iv_assets db)) i x"
proof (induction hops arbitrary: seen i)
  case (Suc hops)
  have i: "i \<notin> set seen" using Suc.prems(1) by (auto split: if_splits)
  show ?case
  proof (cases "replaces_of (iv_assets db) i")
    case None
    with i Suc.prems(2) show ?thesis by (auto simp: inside_end)
  next
    case (Some r)
    with Suc.prems(1) i have "walk_replaces db hops (i # seen) r = Inr ()"
      by (auto simp: replaces_of_def get_asset_def split: option.splits bind_splits if_splits)
    from Suc.IH [OF this] Suc.prems(2) i Some show ?thesis by (auto simp: inside_step)
  qed
qed simp

lemma no_replacement_cycle:
  assumes "requireNoReplacementCycle db i q = Inr ()"
    "(case q of None \<Rightarrow> None | Some r \<Rightarrow> if r = [] then None else Some r) = Some p"
  shows "\<not> inside (replaces_of (iv_assets db)) p i"
  using assms walk_replaces_clear [of db replacementChainMax "[i]" p i]
  by (auto simp: requireNoReplacementCycle_def split: option.splits if_splits)

section \<open>A new asset\<close>

lemma closed_tree_upd:
  assumes "closed_tree ids par" "\<And>p. q = Some p \<Longrightarrow> p \<in> insert i ids"
  shows "closed_tree (insert i ids) (par(i := q))"
  using assms by (auto simp: closed_tree_def)

lemma tree_ok_append:
  assumes "tree_ok rows cl" "as_ID a \<notin> set (map as_ID rows)" "as_ID a \<noteq> []"
    and "\<And>p. as_ParentID a = Some p \<Longrightarrow> p \<in> set (map as_ID rows)"
  shows "tree_ok (rows @ [a]) (cl @ leaf_rows cl (as_ID a) (as_ParentID a))"
proof -
  let ?ids = "set (map as_ID rows)"
  have known: "p \<in> ?ids \<and> p \<noteq> []" if "as_ParentID a = Some p" for p
    using assms(1,4) that unfolding tree_ok_def by metis
  have "mirrors (insert (as_ID a) ?ids) ((parent_of rows)(as_ID a := as_ParentID a)) (cl @ leaf_rows cl (as_ID a) (as_ParentID a))"
    by (rule mirrors_leaf) (use assms known in \<open>simp_all add: tree_ok_def\<close>)
  moreover have "closed_tree (insert (as_ID a) ?ids) ((parent_of rows)(as_ID a := as_ParentID a))"
    by (rule closed_tree_upd) (use assms in \<open>auto simp: tree_ok_def\<close>)
  ultimately show ?thesis using assms parent_of_append [OF assms(2)] by (auto simp: tree_ok_def)
qed

lemma lineage_ok_append:
  assumes "lineage_ok rows" "as_ID a \<notin> set (map as_ID rows)"
    and "\<And>p. as_ReplacesAssetID a = Some p \<Longrightarrow> p \<in> insert (as_ID a) (set (map as_ID rows))"
    and "\<And>p. (case as_ReplacesAssetID a of None \<Rightarrow> None | Some r \<Rightarrow> if r = [] then None else Some r) = Some p
           \<Longrightarrow> \<not> inside (replaces_of rows) p (as_ID a)"
  shows "lineage_ok (rows @ [a])"
proof -
  let ?q = "case as_ReplacesAssetID a of None \<Rightarrow> None | Some r \<Rightarrow> if r = [] then None else Some r"
  have "loop_free ((replaces_of rows)(as_ID a := ?q))"
    by (rule loop_free_upd) (use assms in \<open>auto simp: lineage_ok_def\<close>)
  moreover have "closed_tree (insert (as_ID a) (set (map as_ID rows))) ((replaces_of rows)(as_ID a := ?q))"
    by (rule closed_tree_upd) (use assms in \<open>auto simp: lineage_ok_def split: option.splits if_splits\<close>)
  ultimately show ?thesis using replaces_of_append [OF assms(2)] by (simp add: lineage_ok_def)
qed

lemma siblings_clash_sym: "siblings_clash a b \<longleftrightarrow> siblings_clash b a"
  by (auto simp: siblings_clash_def)

lemma names_ok_append: "names_ok rows \<Longrightarrow> \<forall>b \<in> set rows. \<not> siblings_clash a b \<Longrightarrow> names_ok (rows @ [a])"
  unfolding names_ok_def
proof (intro ballI impI)
  fix x y
  assume "\<forall>a \<in> set rows. \<forall>b \<in> set rows. siblings_clash a b \<longrightarrow> as_ID a = as_ID b" "\<forall>b \<in> set rows. \<not> siblings_clash a b"
    "x \<in> set (rows @ [a])" "y \<in> set (rows @ [a])" "siblings_clash x y"
  then show "as_ID x = as_ID y"
    by (cases "x = a"; cases "y = a") (auto dest: siblings_clash_sym [THEN iffD1])
qed

lemma inventory_ok_core: "core db' = core db \<Longrightarrow> inventory_ok db' = inventory_ok db"
  by (simp add: core_def inventory_ok_def asset_ids_def)

lemma insertAsset_ok:
  assumes "insertAsset t fresh a envs codes planned db = Inr db'" "inventory_ok db" "as_ParentID a \<noteq> Some (as_ID a)"
  shows "inventory_ok db'"
proof -
  note e = insertAsset_effect [OF assms(1)]
  have refs: "p \<in> insert (as_ID a) (set (map as_ID (iv_assets db)))" if "as_ParentID a = Some p \<or> as_ReplacesAssetID a = Some p" for p
    using e that by (auto simp: asset_refs_def known_or_null_def asset_ids_def)
  have "tree_ok (iv_assets db @ [a]) (iv_closure db @ leaf_rows (iv_closure db) (as_ID a) (as_ParentID a))"
    by (rule tree_ok_append) (use assms(2,3) e refs in \<open>auto simp: inventory_ok_def asset_ids_def\<close>)
  moreover have "lineage_ok (iv_assets db @ [a])"
  proof (rule lineage_ok_append)
    show "\<not> inside (replaces_of (iv_assets db)) p (as_ID a)"
      if "(case as_ReplacesAssetID a of None \<Rightarrow> None | Some r \<Rightarrow> if r = [] then None else Some r) = Some p" for p
      using no_replacement_cycle [OF _ that] e by blast
  qed (use assms(2) e refs in \<open>simp_all add: inventory_ok_def asset_ids_def\<close>)
  moreover have "names_ok (iv_assets db @ [a])"
    using assms(2) e by (intro names_ok_append) (simp_all add: inventory_ok_def)
  ultimately show ?thesis using assms(2) e by (simp add: inventory_ok_def core_def asset_ids_def)
qed

section \<open>A changed asset\<close>

lemma parent_of_update:
  assumes "\<And>r. r \<in> set rows \<Longrightarrow> as_ID r = i \<Longrightarrow> as_ID (f r) = i" "i \<in> set (map as_ID rows)"
    and "\<And>r. as_ParentID (f r) = q"
  shows "parent_of (update_where (\<lambda>b. as_ID b = i) f rows) = (parent_of rows)(i := q)"
proof
  fix j
  obtain r where "find (\<lambda>a. as_ID a = i) rows = Some r" using assms(2) find_missing [of i rows] by auto
  then show "parent_of (update_where (\<lambda>b. as_ID b = i) f rows) j = ((parent_of rows)(i := q)) j"
    using assms(3) by (simp add: parent_of_def find_update [OF assms(1)])
qed

lemma parent_of_keep:
  assumes "\<And>r. r \<in> set rows \<Longrightarrow> as_ID r = i \<Longrightarrow> as_ID (f r) = i" "\<And>r. as_ParentID (f r) = as_ParentID r"
  shows "parent_of (update_where (\<lambda>b. as_ID b = i) f rows) = parent_of rows"
proof
  fix j
  show "parent_of (update_where (\<lambda>b. as_ID b = i) f rows) j = parent_of rows j"
    using assms(2) by (cases "find (\<lambda>a. as_ID a = j) rows") (auto simp: parent_of_def find_update [OF assms(1)])
qed

lemma replaces_of_keep:
  assumes "\<And>r. r \<in> set rows \<Longrightarrow> as_ID r = i \<Longrightarrow> as_ID (f r) = i" "\<And>r. as_ReplacesAssetID (f r) = as_ReplacesAssetID r"
  shows "replaces_of (update_where (\<lambda>b. as_ID b = i) f rows) = replaces_of rows"
proof
  fix j
  show "replaces_of (update_where (\<lambda>b. as_ID b = i) f rows) j = replaces_of rows j"
    using assms(2) by (cases "find (\<lambda>a. as_ID a = j) rows") (auto simp: replaces_of_def find_update [OF assms(1)])
qed

lemma replaces_of_update:
  assumes "\<And>r. r \<in> set rows \<Longrightarrow> as_ID r = i \<Longrightarrow> as_ID (f r) = i" "i \<in> set (map as_ID rows)"
    and "\<And>r. as_ReplacesAssetID (f r) = q"
  shows "replaces_of (update_where (\<lambda>b. as_ID b = i) f rows)
     = (replaces_of rows)(i := case q of None \<Rightarrow> None | Some r \<Rightarrow> if r = [] then None else Some r)"
proof
  fix j
  obtain r where "find (\<lambda>a. as_ID a = i) rows = Some r" using assms(2) find_missing [of i rows] by auto
  then show "replaces_of (update_where (\<lambda>b. as_ID b = i) f rows) j
      = ((replaces_of rows)(i := case q of None \<Rightarrow> None | Some r \<Rightarrow> if r = [] then None else Some r)) j"
    using assms(3) by (simp add: replaces_of_def find_update [OF assms(1)])
qed

lemma names_ok_update:
  assumes "names_ok rows" "distinct (map as_ID rows)" "\<And>r. r \<in> set rows \<Longrightarrow> as_ID r = i \<Longrightarrow> as_ID (f r) = i"
    and "\<And>r. r \<in> set rows \<Longrightarrow> as_ID r = i \<Longrightarrow> \<forall>b \<in> set rows. as_ID b = i \<or> \<not> siblings_clash (f r) b"
  shows "names_ok (update_where (\<lambda>b. as_ID b = i) f rows)"
  unfolding names_ok_def in_update_where
proof (intro ballI impI)
  fix a b assume "a \<in> set (update_where (\<lambda>b. as_ID b = i) f rows)" "b \<in> set (update_where (\<lambda>b. as_ID b = i) f rows)"
    and clash: "siblings_clash a b"
  then obtain a0 b0 where "a0 \<in> set rows" "a = (if as_ID a0 = i then f a0 else a0)" "b0 \<in> set rows" "b = (if as_ID b0 = i then f b0 else b0)"
    by (auto simp: in_update_where)
  with clash show "as_ID a = as_ID b"
    using assms(1,3,4) siblings_clash_sym unfolding names_ok_def by (smt (verit, best))
qed

lemma lineage_ok_update:
  assumes "lineage_ok rows" "i \<in> set (map as_ID rows)"
    and "\<And>r. as_ID (f r) = i" "\<And>r. as_ReplacesAssetID (f r) = q" "\<And>p. q = Some p \<Longrightarrow> p \<in> set (map as_ID rows)"
    and "\<And>p. (case q of None \<Rightarrow> None | Some r \<Rightarrow> if r = [] then None else Some r) = Some p \<Longrightarrow> \<not> inside (replaces_of rows) p i"
  shows "lineage_ok (update_where (\<lambda>b. as_ID b = i) f rows)"
proof -
  let ?q = "case q of None \<Rightarrow> None | Some r \<Rightarrow> if r = [] then None else Some r"
  have ids: "map as_ID (update_where (\<lambda>b. as_ID b = i) f rows) = map as_ID rows" by (rule ids_update_asset) (simp add: assms(3))
  have rep: "replaces_of (update_where (\<lambda>b. as_ID b = i) f rows) = (replaces_of rows)(i := ?q)"
    by (rule replaces_of_update) (use assms in simp_all)
  have "loop_free ((replaces_of rows)(i := ?q))"
    by (rule loop_free_upd) (use assms in \<open>simp_all add: lineage_ok_def\<close>)
  moreover have "closed_tree (insert i (set (map as_ID rows))) ((replaces_of rows)(i := ?q))"
    by (rule closed_tree_upd) (use assms in \<open>auto simp: lineage_ok_def split: option.splits if_splits\<close>)
  moreover have "insert i (set (map as_ID rows)) = set (map as_ID rows)" using assms(2) by auto
  ultimately show ?thesis using ids rep unfolding lineage_ok_def by metis
qed

lemma find_distinct: "distinct (map as_ID rows) \<Longrightarrow> r \<in> set rows \<Longrightarrow> find (\<lambda>a. as_ID a = as_ID r) rows = Some r"
  by (induction rows) auto

lemma update_ok:
  assumes "update_tx p now before bc ac envs a db = Inr db'" "inventory_ok db"
  shows "inventory_ok db'"
proof (cases "as_ID a \<in> set (asset_ids db)")
  case False
  then have "get_asset db (as_ID a) = None" by (simp add: get_asset_None)
  with assms(1) show ?thesis by (auto simp: update_tx_def writeTx_def bind_result_Inr)
next
  case True
  let ?rows = "iv_assets db" and ?i = "as_ID a"
  from update_tx_effect [OF assms(1)] obtain f where
    c: "core db' = (update_where (\<lambda>b. as_ID b = ?i) f ?rows, iv_closure db, es_entities (iv_estate db) ProjectAsset)"
    and f: "\<And>r. as_ID (f r) = ?i" "\<And>r. as_ParentID (f r) = as_ParentID r" "\<And>r. as_ReplacesAssetID (f r) = as_ReplacesAssetID a"
    and refs: "\<And>r. get_asset db ?i = Some r \<Longrightarrow> asset_refs db (asset_ids db) (f r)
            \<and> (\<forall>b \<in> set ?rows. as_ID b = ?i \<or> \<not> siblings_clash (f r) b)"
    and rep: "requireNoReplacementCycle db ?i (as_ReplacesAssetID a) = Inr ()"
    by blast
  have ids: "map as_ID (update_where (\<lambda>b. as_ID b = ?i) f ?rows) = map as_ID ?rows" by (rule ids_update_asset) (simp add: f)
  have one: "get_asset db ?i = Some r" if "r \<in> set ?rows" "as_ID r = ?i" for r
    using that assms(2) find_distinct [of ?rows r] by (simp add: inventory_ok_def tree_ok_def get_asset_def)
  obtain r where r: "get_asset db ?i = Some r" using True get_asset_None by fastforce
  have "tree_ok (update_where (\<lambda>b. as_ID b = ?i) f ?rows) (iv_closure db)"
    using assms(2) parent_of_keep [of ?rows ?i f] f ids unfolding inventory_ok_def tree_ok_def by metis
  moreover have "lineage_ok (update_where (\<lambda>b. as_ID b = ?i) f ?rows)"
  proof (rule lineage_ok_update)
    show "\<not> inside (replaces_of ?rows) q ?i"
      if "(case as_ReplacesAssetID a of None \<Rightarrow> None | Some r \<Rightarrow> if r = [] then None else Some r) = Some q" for q
      using no_replacement_cycle [OF rep that] .
    show "q \<in> set (map as_ID ?rows)" if "as_ReplacesAssetID a = Some q" for q
      using refs [OF r] that f(3) by (simp add: asset_refs_def known_or_null_def asset_ids_def)
  qed (use assms(2) f True in \<open>simp_all add: inventory_ok_def asset_ids_def\<close>)
  moreover have "names_ok (update_where (\<lambda>b. as_ID b = ?i) f ?rows)"
    by (rule names_ok_update) (use assms(2) f one refs in \<open>simp_all add: inventory_ok_def tree_ok_def\<close>)
  ultimately show ?thesis using assms(2) c ids by (simp add: inventory_ok_def core_def asset_ids_def)
qed

lemma keep_ok:
  assumes c: "core db' = (update_where (\<lambda>b. as_ID b = i) f (iv_assets db), cl, es_entities (iv_estate db) ProjectAsset)"
    and db: "inventory_ok db" and f: "\<And>r. as_ID (f r) = as_ID r" "\<And>r. as_ReplacesAssetID (f r) = as_ReplacesAssetID r"
    and tree: "tree_ok (update_where (\<lambda>b. as_ID b = i) f (iv_assets db)) cl"
    and names: "\<And>r. get_asset db i = Some r \<Longrightarrow> \<forall>b \<in> set (iv_assets db). as_ID b = i \<or> \<not> siblings_clash (f r) b"
  shows "inventory_ok db'"
proof -
  let ?rows = "iv_assets db"
  have ids: "map as_ID (update_where (\<lambda>b. as_ID b = i) f ?rows) = map as_ID ?rows" by (rule map_update_where) (rule f(1))
  have one: "get_asset db i = Some r" if "r \<in> set ?rows" "as_ID r = i" for r
    using that db find_distinct [of ?rows r] by (simp add: inventory_ok_def tree_ok_def get_asset_def)
  have "lineage_ok (update_where (\<lambda>b. as_ID b = i) f ?rows)"
    using db replaces_of_keep [of ?rows i f] f ids unfolding inventory_ok_def lineage_ok_def by metis
  moreover have "names_ok (update_where (\<lambda>b. as_ID b = i) f ?rows)"
    by (rule names_ok_update) (use db f one names in \<open>simp_all add: inventory_ok_def tree_ok_def\<close>)
  ultimately show ?thesis using db c ids tree by (simp add: inventory_ok_def core_def asset_ids_def)
qed

lemma retire_ok:
  assumes "retire_tx p now old i db = Inr db'" "inventory_ok db"
  shows "inventory_ok db'"
proof -
  from retire_tx_effect [OF assms(1)] obtain f where
    c: "core db' = (update_where (\<lambda>b. as_ID b = i) f (iv_assets db), iv_closure db, es_entities (iv_estate db) ProjectAsset)"
    and f: "\<And>r. as_ID (f r) = as_ID r" "\<And>r. as_ParentID (f r) = as_ParentID r"
      "\<And>r. as_ReplacesAssetID (f r) = as_ReplacesAssetID r" "\<And>r. \<not> live (f r)"
    by blast
  have ids: "map as_ID (update_where (\<lambda>b. as_ID b = i) f (iv_assets db)) = map as_ID (iv_assets db)"
    by (rule map_update_where) (rule f(1))
  show ?thesis
  proof (rule keep_ok [OF c assms(2)])
    show "tree_ok (update_where (\<lambda>b. as_ID b = i) f (iv_assets db)) (iv_closure db)"
      using assms(2) parent_of_keep [of "iv_assets db" i f] f ids unfolding inventory_ok_def tree_ok_def by metis
  qed (use f in \<open>simp_all add: siblings_clash_def\<close>)
qed

lemma moved_rows_missing:
  assumes "mirrors ids par cl" "closed_tree ids par" "i \<notin> ids"
  shows "moved_rows cl i q = cl"
proof -
  have no: "(i, d, n) \<notin> set cl" for d n using assms nth_parent_in [OF assms(2)] by (auto simp: mirrors_mem)
  then have "descendants cl i = []" by (auto simp: descendants_def filter_empty_conv)
  then have "detach cl i = cl" by (simp add: detach_def)
  moreover have "attach_rows cl i p = []" for p using no by (auto simp: attach_rows_def filter_empty_conv)
  ultimately show ?thesis by (simp add: moved_rows_def split: option.splits)
qed

lemma reparent_ok:
  assumes "reparent_tx p now before i q db = Inr db'" "inventory_ok db"
  shows "inventory_ok db'"
proof -
  let ?rows = "iv_assets db" and ?cl = "iv_closure db"
  from reparent_tx_effect [OF assms(1)] obtain f where
    c: "core db' = (update_where (\<lambda>b. as_ID b = i) f ?rows, moved_rows ?cl i q, es_entities (iv_estate db) ProjectAsset)"
    and f: "\<And>r. as_ID (f r) = as_ID r" "\<And>r. as_ParentID (f r) = q" "\<And>r. as_ReplacesAssetID (f r) = as_ReplacesAssetID r"
    and refs: "\<And>r. get_asset db i = Some r \<Longrightarrow> asset_refs db (asset_ids db) (f r)
            \<and> (\<forall>b \<in> set ?rows. as_ID b = i \<or> \<not> siblings_clash (f r) b)"
    and out: "\<And>p' n. q = Some p' \<Longrightarrow> (i, p', n) \<notin> set ?cl"
    by blast
  have ids: "map as_ID (update_where (\<lambda>b. as_ID b = i) f ?rows) = map as_ID ?rows" by (rule map_update_where) (rule f(1))
  have t: "mirrors (set (map as_ID ?rows)) (parent_of ?rows) ?cl" "closed_tree (set (map as_ID ?rows)) (parent_of ?rows)"
    using assms(2) by (simp_all add: inventory_ok_def tree_ok_def)
  have "tree_ok (update_where (\<lambda>b. as_ID b = i) f ?rows) (moved_rows ?cl i q)"
  proof (cases "i \<in> set (map as_ID ?rows)")
    case True
    have par: "parent_of (update_where (\<lambda>b. as_ID b = i) f ?rows) = (parent_of ?rows)(i := q)"
      by (rule parent_of_update) (use f True in simp_all)
    obtain r where r: "get_asset db i = Some r" using True get_asset_None [of db i] by (auto simp: asset_ids_def)
    have q: "p' \<in> set (map as_ID ?rows)" if "q = Some p'" for p'
      using refs [OF r] f(2) that by (simp add: asset_refs_def known_or_null_def asset_ids_def)
    have q': "p' \<in> set (map as_ID ?rows) \<and> \<not> inside (parent_of ?rows) p' i" if "q = Some p'" for p'
      using q [OF that] out [OF that] mirrors_mem [OF t(1)] unfolding inside_def by blast
    have "closed_tree (insert i (set (map as_ID ?rows))) ((parent_of ?rows)(i := q))"
      by (rule closed_tree_upd [OF t(2)]) (use q in auto)
    moreover have "insert i (set (map as_ID ?rows)) = set (map as_ID ?rows)" using True by auto
    ultimately have "closed_tree (set (map as_ID ?rows)) ((parent_of ?rows)(i := q))" by simp
    with mirrors_move [OF t True q'] assms(2) show ?thesis
      unfolding tree_ok_def ids par inventory_ok_def by blast
  next
    case False
    then have "update_where (\<lambda>b. as_ID b = i) f ?rows = ?rows" by (auto simp: update_where_def intro!: map_idI)
    with moved_rows_missing [OF t False] assms(2) show ?thesis by (simp add: inventory_ok_def)
  qed
  from keep_ok [OF c assms(2) _ _ this] f refs show ?thesis by blast
qed

section \<open>Reachable states\<close>

text \<open>One transaction on the inventory, with whatever was read before it.\<close>

inductive inventory_step :: "inventory \<Rightarrow> inventory \<Rightarrow> bool" where
  create: "Validate a0 = Inr a \<Longrightarrow> create_tx p now fresh a envs codes db = Inr db' \<Longrightarrow> inventory_step db db'"
| create_in_project: "Validate a0 = Inr a \<Longrightarrow> create_in_project_tx q now fresh projectID a planned db = Inr db' \<Longrightarrow> inventory_step db db'"
| update: "update_tx p now before bc ac envs a db = Inr db' \<Longrightarrow> inventory_step db db'"
| retire: "retire_tx p now old i db = Inr db' \<Longrightarrow> inventory_step db db'"
| reparent: "reparent_tx p now before i q db = Inr db' \<Longrightarrow> inventory_step db db'"

text \<open>The operations of the store are such steps.\<close>

lemma CreateAsset_step: "CreateAsset p now fresh a envs db = Inr db' \<Longrightarrow> inventory_step db db'"
  by (auto simp: CreateAsset_def bind_result_Inr intro: inventory_step.create)

lemma CreateAssetInProject_step: "CreateAssetInProject p now fresh projectID a db = Inr db' \<Longrightarrow> inventory_step db db'"
  by (auto simp: CreateAssetInProject_def bind_result_Inr Let_def intro: inventory_step.create_in_project split: option.splits if_splits)

lemma UpdateAsset_step: "UpdateAsset p now a envs db = Inr db' \<Longrightarrow> inventory_step db db'"
  by (auto simp: UpdateAsset_def bind_result_Inr Let_def intro: inventory_step.update)

lemma RetireAsset_step: "RetireAsset p now i db = Inr db' \<Longrightarrow> inventory_step\<^sup>*\<^sup>* db db'"
  by (auto simp: RetireAsset_def bind_result_Inr intro: inventory_step.retire split: if_splits)

lemma ReparentAsset_step: "ReparentAsset p now i q db = Inr db' \<Longrightarrow> inventory_step db db'"
  by (auto simp: ReparentAsset_def bind_result_Inr Let_def intro: inventory_step.reparent split: if_splits)

lemma Validate_parent: "Validate a0 = Inr a \<Longrightarrow> as_ParentID a \<noteq> Some (as_ID a)"
  by (auto simp: Validate_def Let_def split: if_splits)

lemma inventory_step_ok: "inventory_step db db' \<Longrightarrow> inventory_ok db \<Longrightarrow> inventory_ok db'"
proof (induction rule: inventory_step.induct)
  case (create a0 a p now fresh envs codes db db')
  then show ?case using insertAsset_ok Validate_parent by (simp add: create_tx_def writeTx_def)
next
  case (create_in_project a0 a q now fresh projectID planned db db')
  then obtain t db1 where "insertAsset t fresh a None [] planned db = Inr db1" "insertProjectAssetLink t projectID (as_ID a) db1 = Inr db'"
    by (auto simp: create_in_project_tx_def writeTx_def bind_result_Inr)
  with create_in_project insertAsset_ok Validate_parent inventory_ok_core core_link show ?case by metis
qed (auto intro: update_ok retire_ok reparent_ok)

interpretation inventories: step_invariant inventory_step inventory_ok
  by unfold_locales (rule inventory_step_ok)

end
