(* ===== verification/Asset_Rules.thy ===== *)
theory Asset_Rules
  imports Assets_Props Projects_Props
begin

text \<open>
  The rules on assets: the closure table, the lineage, what retiring and editing do to the edges
  that name an asset, who may move one, and what creating one inside a project grants.
\<close>

section \<open>The tree and the lineage\<close>

text \<open>
  The flattened tree is the tree: from consistent tables on, after any sequence of transactions on
  assets that run one after another, as the single writer connection of SQLite runs them, and
  whatever was read before each of them began, the closure table has exactly one row for each asset
  and each of its ancestors, with their distance; containment has no loop; and the ids the impact
  analysis takes down together with some assets are exactly the assets at or below them. The
  sequence is needed: at read committed on Postgres two moves that overlap are outside of it. (C5)
\<close>

theorem closure_is_containment:
  assumes "inventory_step\<^sup>*\<^sup>* db db'" "inventory_ok db"
  shows "distinct (closure_keys (iv_closure db'))
     \<and> (\<forall>a d k. (a, d, k) \<in> set (iv_closure db') \<longleftrightarrow>
          d \<in> set (asset_ids db') \<and> (\<exists>n. k = int n \<and> nth_parent (parent_of (iv_assets db')) n d = Some a))
     \<and> (\<forall>d \<in> set (asset_ids db'). \<exists>n. nth_parent (parent_of (iv_assets db')) n d = None)
     \<and> (\<forall>ids. set (SubtreeIDs db' ids) =
          {d \<in> set (asset_ids db'). \<exists>a \<in> set ids. inside (parent_of (iv_assets db')) d a})"
proof -
  from inventories.reachable [OF assms] have m: "mirrors (set (asset_ids db')) (parent_of (iv_assets db')) (iv_closure db')"
    by (simp add: inventory_ok_def tree_ok_def asset_ids_def)
  have "set (SubtreeIDs db' ids) = {d \<in> set (asset_ids db'). \<exists>a \<in> set ids. inside (parent_of (iv_assets db')) d a}" for ids
  proof -
    have "set (SubtreeIDs db' ids) = {d. \<exists>a \<in> set ids. d \<in> set (descendants (iv_closure db') a)}"
      by (force simp: SubtreeIDs_def descendants_def)
    then show ?thesis using mirrors_descendants [OF m] by auto
  qed
  moreover have "distinct (closure_keys (iv_closure db'))" using m unfolding mirrors_def by blast
  ultimately show ?thesis using mirrors_mem [OF m] chain_ends [OF m] by (intro conjI allI ballI) simp_all
qed

text \<open>
  A lineage does not loop: from consistent tables on, after any sequence of transactions that
  create, edit, retire and move assets and that run one after another, as the single writer
  connection of SQLite runs them, following the replaced assets from any asset never comes back to
  it. The sequence is needed: two overlapping edits on Postgres can close a loop. (C12)
\<close>

theorem lineage_never_loops:
  assumes "inventory_step\<^sup>*\<^sup>* db db'" "inventory_ok db" "0 < n"
  shows "nth_parent (replaces_of (iv_assets db')) n i \<noteq> Some i"
  using inventories.reachable [OF assms(1,2)] assms(3)
  unfolding inventory_ok_def lineage_ok_def loop_free_def by blast

text \<open>
  Why the order matters: on the state before either, the check lets one asset replace another and
  the other replace the first, so two edits that both read that state both pass.
\<close>

lemma overlapping_edits_both_pass:
  assumes "get_asset db i = Some a" "get_asset db j = Some b" "as_ReplacesAssetID a = None" "as_ReplacesAssetID b = None" "i \<noteq> j"
  shows "requireNoReplacementCycle db i (Some j) = Inr () \<and> requireNoReplacementCycle db j (Some i) = Inr ()"
proof -
  obtain n where n: "replacementChainMax = Suc n" by (auto simp: replacementChainMax_def)
  have "walk_replaces db (Suc n) [i] j = Inr ()" "walk_replaces db (Suc n) [j] i = Inr ()"
    using assms by simp_all
  then show ?thesis by (simp add: requireNoReplacementCycle_def n)
qed

section \<open>Edges that name an asset\<close>

definition live_edge :: "inventory \<Rightarrow> string \<Rightarrow> bool" where
  "live_edge db i \<longleftrightarrow>
     (\<exists>m \<in> set (iv_members db). gm_AssetID m = i \<and> gm_Lifecycle m = LifecycleActive)
     \<or> (\<exists>n \<in> set (iv_attachments db). at_Lifecycle n = LifecycleActive
          \<and> (at_AssetID n = i \<or> (\<exists>m \<in> set (iv_pins db). am_AttachmentID m = at_ID n \<and> am_AssetID m = i)))
     \<or> (\<exists>l \<in> set (iv_cables db). lk_Lifecycle l = LifecycleActive
          \<and> (\<exists>f \<in> set (iv_interfaces db). if_AssetID f = i \<and> (if_ID f = lk_AInterfaceID l \<or> if_ID f = lk_BInterfaceID l)))"

lemma attachments_naming_empty:
  "attachments_naming db i = [] \<longleftrightarrow>
     \<not> (\<exists>n \<in> set (iv_attachments db). at_Lifecycle n = LifecycleActive
          \<and> (at_AssetID n = i \<or> (\<exists>m \<in> set (iv_pins db). am_AttachmentID m = at_ID n \<and> am_AssetID m = i)))"
  by (auto simp: attachments_naming_def filter_empty_conv list_ex_iff)

lemma cables_naming_empty:
  "cables_naming db i = [] \<longleftrightarrow>
     \<not> (\<exists>l \<in> set (iv_cables db). lk_Lifecycle l = LifecycleActive
          \<and> (\<exists>f \<in> set (iv_interfaces db). if_AssetID f = i \<and> (if_ID f = lk_AInterfaceID l \<or> if_ID f = lk_BInterfaceID l)))"
  unfolding cables_naming_def ports_of_def by (force simp: filter_empty_conv)

lemma live_edge_iff:
  "live_edge db i \<longleftrightarrow>
     (\<exists>m \<in> set (iv_members db). gm_AssetID m = i \<and> gm_Lifecycle m = LifecycleActive)
     \<or> attachments_naming db i \<noteq> [] \<or> cables_naming db i \<noteq> []"
  by (simp add: live_edge_def attachments_naming_empty cables_naming_empty)

definition edges :: "inventory \<Rightarrow> groupMember list \<times> attachment list \<times> attachmentMember list \<times> iface list \<times> cable list" where
  "edges db = (iv_members db, iv_attachments db, iv_pins db, iv_interfaces db, iv_cables db)"

lemma live_edge_cong: "edges db = edges db' \<Longrightarrow> live_edge db i = live_edge db' i"
  by (simp add: edges_def live_edge_def)

lemma edges_log: "log_inventory f db = Inr db' \<Longrightarrow> edges db' = edges db"
  by (auto simp: log_inventory_Inr edges_def)

lemma edges_retired: "log_retired t ty i old db = Inr db' \<Longrightarrow> edges db' = edges db"
  unfolding log_retired_def by (rule edges_log)

lemma edges_index: "edges (indexAsset a db) = edges db"
  by (simp add: edges_def indexAsset_def)

lemma edges_environments:
  assumes "setAssetEnvironments i envs db = Inr db'"
  shows "edges db' = edges db"
proof -
  have "edges (d\<lparr>iv_memberships := []\<rparr>) = edges d" for d by (simp add: edges_def)
  with environments_only [OF assms] show ?thesis by metis
qed

lemma edges_update: "update_asset i f db = Inr db' \<Longrightarrow> edges db' = edges db"
  by (auto simp: update_asset_def edges_def split: option.splits)

text \<open>
  A loop that withdraws the rows of the listed keys: what is still active afterwards was there
  before and is not listed.
\<close>

lemma each_result_clears:
  assumes "\<And>k s s' r. f k s = Inr s' \<Longrightarrow> r \<in> set (rows s') \<Longrightarrow> A r \<Longrightarrow> r \<in> set (rows s) \<and> key r \<noteq> k"
    and "each_result f ks s = Inr s'" "r \<in> set (rows s')" "A r"
  shows "r \<in> set (rows s) \<and> key r \<notin> set ks"
  using assms(2)
proof (induction ks arbitrary: s)
  case (Cons k ks)
  then obtain s1 where "f k s = Inr s1" "each_result f ks s1 = Inr s'" by (auto simp: bind_result_Inr)
  with Cons.IH [of s1] assms(1) [of k s s1 r] assms(4) show ?case by simp
qed (use assms(3) in simp)

lemma retire_members_edges:
  assumes "retire_members t now i db = Inr db'"
  shows "(\<forall>m \<in> set (iv_members db'). \<not> (gm_AssetID m = i \<and> gm_Lifecycle m = LifecycleActive))
     \<and> snd (edges db') = snd (edges db)"
proof
  let ?step = "\<lambda>g d. log_retired t ''net_group_member'' (link_id g i) LifecycleActive
           (d\<lparr>iv_members := update_where (\<lambda>m. gm_GroupID m = g \<and> gm_AssetID m = i)
                (\<lambda>m. m\<lparr>gm_Lifecycle := LifecycleRetired, gm_UpdatedAt := now\<rparr>) (iv_members d)\<rparr>)"
  note run = assms [unfolded retire_members_def]
  show "\<forall>m \<in> set (iv_members db'). \<not> (gm_AssetID m = i \<and> gm_Lifecycle m = LifecycleActive)"
  proof (intro ballI notI)
    fix m assume m: "m \<in> set (iv_members db')" "gm_AssetID m = i \<and> gm_Lifecycle m = LifecycleActive"
    have "m \<in> set (iv_members db) \<and> gm_GroupID m \<notin>
        set (map gm_GroupID (filter (\<lambda>m. gm_AssetID m = i \<and> gm_Lifecycle m = LifecycleActive) (iv_members db)))"
    proof (rule each_result_clears [where rows = iv_members and key = gm_GroupID and A = "\<lambda>m. gm_AssetID m = i \<and> gm_Lifecycle m = LifecycleActive", OF _ run m])
      fix g d d' r
      assume step: "?step g d = Inr d'" and r: "r \<in> set (iv_members d')" "gm_AssetID r = i \<and> gm_Lifecycle r = LifecycleActive"
      from edges_retired [OF step] r(1) show "r \<in> set (iv_members d) \<and> gm_GroupID r \<noteq> g"
        unfolding edges_def by simp (erule in_update_whereE, use r(2) in auto)
    qed
    with m show False by auto
  qed
  show "snd (edges db') = snd (edges db)"
    using run by (rule each_result_keeps [where g = "\<lambda>d. snd (edges d)", rotated]) (auto dest!: edges_retired simp: edges_def)
qed

lemma retireRows_edges:
  assumes "retireRows t now ids db = Inr db'"
  shows "(\<forall>n \<in> set (iv_attachments db'). at_Lifecycle n = LifecycleActive \<longrightarrow> n \<in> set (iv_attachments db) \<and> at_ID n \<notin> set ids)
     \<and> iv_members db' = iv_members db \<and> iv_pins db' = iv_pins db \<and> iv_interfaces db' = iv_interfaces db \<and> iv_cables db' = iv_cables db"
proof
  let ?step = "\<lambda>i d. log_retired t ''net_attachment'' i LifecycleActive
           (d\<lparr>iv_attachments := update_where (\<lambda>n. at_ID n = i)
                (\<lambda>n. n\<lparr>at_Lifecycle := LifecycleRetired, at_UpdatedAt := now\<rparr>) (iv_attachments d)\<rparr>)"
  note run = assms [unfolded retireRows_def]
  show "\<forall>n \<in> set (iv_attachments db'). at_Lifecycle n = LifecycleActive \<longrightarrow> n \<in> set (iv_attachments db) \<and> at_ID n \<notin> set ids"
  proof (intro ballI impI)
    fix n assume n: "n \<in> set (iv_attachments db')" "at_Lifecycle n = LifecycleActive"
    show "n \<in> set (iv_attachments db) \<and> at_ID n \<notin> set ids"
    proof (rule each_result_clears [where rows = iv_attachments and key = at_ID and A = "\<lambda>n. at_Lifecycle n = LifecycleActive", OF _ run n])
      fix k d d' r
      assume step: "?step k d = Inr d'" and r: "r \<in> set (iv_attachments d')" "at_Lifecycle r = LifecycleActive"
      from edges_retired [OF step] r(1) show "r \<in> set (iv_attachments d) \<and> at_ID r \<noteq> k"
        unfolding edges_def by simp (erule in_update_whereE, use r(2) in auto)
    qed
  qed
  have "(iv_members db', iv_pins db', iv_interfaces db', iv_cables db') = (iv_members db, iv_pins db, iv_interfaces db, iv_cables db)"
    using run by (rule each_result_keeps [where g = "\<lambda>d. (iv_members d, iv_pins d, iv_interfaces d, iv_cables d)", rotated])
      (auto dest!: edges_retired simp: edges_def)
  then show "iv_members db' = iv_members db \<and> iv_pins db' = iv_pins db \<and> iv_interfaces db' = iv_interfaces db \<and> iv_cables db' = iv_cables db"
    by simp
qed

lemma retire_cables_edges:
  assumes "retire_cables t ids db = Inr db'"
  shows "(\<forall>l \<in> set (iv_cables db'). lk_Lifecycle l = LifecycleActive \<longrightarrow> l \<in> set (iv_cables db) \<and> lk_ID l \<notin> set ids)
     \<and> iv_members db' = iv_members db \<and> iv_attachments db' = iv_attachments db \<and> iv_pins db' = iv_pins db \<and> iv_interfaces db' = iv_interfaces db"
proof
  let ?step = "\<lambda>i d. log_retired t ''link'' i LifecycleActive
           (d\<lparr>iv_cables := update_where (\<lambda>l. lk_ID l = i) (\<lambda>l. l\<lparr>lk_Lifecycle := LifecycleRetired\<rparr>) (iv_cables d)\<rparr>)"
  note run = assms [unfolded retire_cables_def]
  show "\<forall>l \<in> set (iv_cables db'). lk_Lifecycle l = LifecycleActive \<longrightarrow> l \<in> set (iv_cables db) \<and> lk_ID l \<notin> set ids"
  proof (intro ballI impI)
    fix l assume l: "l \<in> set (iv_cables db')" "lk_Lifecycle l = LifecycleActive"
    show "l \<in> set (iv_cables db) \<and> lk_ID l \<notin> set ids"
    proof (rule each_result_clears [where rows = iv_cables and key = lk_ID and A = "\<lambda>l. lk_Lifecycle l = LifecycleActive", OF _ run l])
      fix k d d' r
      assume step: "?step k d = Inr d'" and r: "r \<in> set (iv_cables d')" "lk_Lifecycle r = LifecycleActive"
      from edges_retired [OF step] r(1) show "r \<in> set (iv_cables d) \<and> lk_ID r \<noteq> k"
        unfolding edges_def by simp (erule in_update_whereE, use r(2) in auto)
    qed
  qed
  have "(iv_members db', iv_attachments db', iv_pins db', iv_interfaces db') = (iv_members db, iv_attachments db, iv_pins db, iv_interfaces db)"
    using run by (rule each_result_keeps [where g = "\<lambda>d. (iv_members d, iv_attachments d, iv_pins d, iv_interfaces d)", rotated])
      (auto dest!: edges_retired simp: edges_def)
  then show "iv_members db' = iv_members db \<and> iv_attachments db' = iv_attachments db \<and> iv_pins db' = iv_pins db \<and> iv_interfaces db' = iv_interfaces db"
    by simp
qed

lemma topology_unplugged:
  assumes "retireAssetTopology t now i db = Inr db'"
  shows "\<not> live_edge db' i"
proof -
  from assms obtain db1 db2 where 1: "retire_members t now i db = Inr db1"
    and 2: "retireRows t now (attachments_naming db1 i) db1 = Inr db2" and 3: "retire_cables t (cables_naming db2 i) db2 = Inr db'"
    by (auto simp: retireAssetTopology_def bind_result_Inr)
  have "\<not> (gm_AssetID m = i \<and> gm_Lifecycle m = LifecycleActive)" if "m \<in> set (iv_members db')" for m
    using that retire_members_edges [OF 1] retireRows_edges [OF 2] retire_cables_edges [OF 3] by simp
  moreover have "attachments_naming db' i = []"
  proof -
    have False if n: "n \<in> set (iv_attachments db')" "at_Lifecycle n = LifecycleActive"
        "at_AssetID n = i \<or> list_ex (\<lambda>m. am_AttachmentID m = at_ID n \<and> am_AssetID m = i) (iv_pins db')" for n
    proof -
      have "n \<in> set (iv_attachments db1)" "at_ID n \<notin> set (attachments_naming db1 i)" "iv_pins db' = iv_pins db1"
        using n retireRows_edges [OF 2] retire_cables_edges [OF 3] by simp_all
      with n show False unfolding attachments_naming_def by auto
    qed
    then show ?thesis unfolding attachments_naming_def by (auto simp: filter_empty_conv)
  qed
  moreover have "cables_naming db' i = []"
  proof -
    have ports: "ports_of db' i = ports_of db2 i" using retire_cables_edges [OF 3] by (simp add: ports_of_def)
    have False if l: "l \<in> set (iv_cables db')" "lk_Lifecycle l = LifecycleActive"
        "List.member (ports_of db' i) (lk_AInterfaceID l) \<or> List.member (ports_of db' i) (lk_BInterfaceID l)" for l
    proof -
      have "l \<in> set (iv_cables db2)" "lk_ID l \<notin> set (cables_naming db2 i)"
        using l retire_cables_edges [OF 3] by simp_all
      with l ports show False unfolding cables_naming_def by auto
    qed
    then show ?thesis unfolding cables_naming_def by (auto simp: filter_empty_conv)
  qed
  ultimately show ?thesis by (auto simp: live_edge_iff)
qed

text \<open>
  Retiring an asset that is not retired unplugs it: afterwards the asset is retired and no
  membership in a group, no attachment it has or is pinned to and no cable of one of its ports is
  active. Retiring an asset that is retired already changes nothing, so edges that an edit of the
  lifecycle left active stay active. (C6)
\<close>

theorem retired_asset_unplugged:
  assumes "RetireAsset p now i db = Inr db'" "get_asset db i = Some a"
  shows "if live a then (\<exists>r. get_asset db' i = Some r \<and> \<not> live r) \<and> \<not> live_edge db' i else db' = db"
proof (cases "live a")
  case False
  with assms show ?thesis by (simp add: RetireAsset_def GetAsset_def live_def)
next
  case True
  note assms = assms True
  let ?f = "\<lambda>a. a\<lparr>as_Lifecycle := LifecycleRetired, as_UpdatedAt := now, as_RowVersion := as_RowVersion a + 1\<rparr>"
  from assms obtain db1 db2 where 1: "update_asset i ?f db = Inr db1"
    and 2: "log_retired (begin_tx p now) ''asset'' i (as_Lifecycle a) db1 = Inr db2"
    and 3: "retireAssetTopology (begin_tx p now) now i db2 = Inr db'"
    by (auto simp: RetireAsset_def GetAsset_def live_def retire_tx_def writeTx_def bind_result_Inr)
  have "iv_assets db' = update_where (\<lambda>b. as_ID b = i) ?f (iv_assets db)"
    using update_asset_Inr [OF 1] core_retired [OF 2] core_topology [OF 3] by (simp add: core_def)
  then have "get_asset db' i = Some (?f a)"
    using assms(2) find_update [of "iv_assets db" i ?f i] by (simp add: get_asset_def)
  with topology_unplugged [OF 3] True show ?thesis by (simp add: live_def)
qed

text \<open>
  Editing an asset into retirement does not unplug it: the edit form offers the lifecycle
  \<open>retired\<close>, \<open>UpdateAsset\<close> stores it, and whatever edge named the asset stays active.
\<close>

theorem edit_to_retired_keeps_edges:
  assumes "UpdateAsset p now a envs db = Inr db'" "as_Lifecycle a = LifecycleRetired"
  shows "(\<exists>r. get_asset db' (as_ID a) = Some r \<and> \<not> live r) \<and> (live_edge db' (as_ID a) \<longleftrightarrow> live_edge db (as_ID a))"
proof -
  from assms(1) obtain a1 before b bc ac where v: "Validate a = Inr a1"
    and b: "b = a1\<lparr>as_CreatedAt := as_CreatedAt before, as_ParentID := as_ParentID before, as_UpdatedAt := now\<rparr>"
    and tx: "update_tx p now before bc ac envs b db = Inr db'"
    by (auto simp: UpdateAsset_def bind_result_Inr Let_def)
  have id: "as_ID b = as_ID a" "as_Lifecycle b = LifecycleRetired"
    using v b assms(2) by (auto simp: Validate_def Let_def)
  let ?f = "\<lambda>r. b\<lparr>as_ParentID := as_ParentID r, as_CreatedAt := as_CreatedAt r, as_RowVersion := as_RowVersion r + 1\<rparr>"
  from tx obtain db1 db2 db3 row custom tags where row: "get_asset db (as_ID b) = Some row"
    and 1: "update_asset (as_ID b) ?f db = Inr db1" and 2: "setAssetEnvironments (as_ID b) envs db1 = Inr db2"
    and 3: "log_inventory (logUpdate (begin_tx p now) ''asset'' (as_ID b) (auditedAsset before bc custom tags)
        (auditedAsset (b\<lparr>as_RowVersion := as_RowVersion b + 1\<rparr>) ac custom tags)) db2 = Inr db3"
    and db': "db' = indexAsset b db3"
    by (auto simp: update_tx_def writeTx_def bind_result_Inr Let_def split: option.splits if_splits)
  have "iv_assets db' = update_where (\<lambda>r. as_ID r = as_ID b) ?f (iv_assets db)"
    using update_asset_Inr [OF 1] core_environments [OF 2] core_log [OF 3] db' core_index [of b db3] by (simp add: core_def)
  then have "get_asset db' (as_ID b) = Some (?f row)"
    using row find_update [of "iv_assets db" "as_ID b" ?f "as_ID b"] by (simp add: get_asset_def)
  moreover have "edges db' = edges db"
    using edges_update [OF 1] edges_environments [OF 2] edges_log [OF 3] db' by (simp add: edges_index)
  ultimately show ?thesis using id live_edge_cong [of db' db] by (simp add: live_def)
qed

text \<open>
  A move needs both ends: whoever moves an asset holds a permit for it and for the asset it is
  moved into.
\<close>

theorem move_needs_both_ends:
  assumes "ReparentAsset p now i (Some q) db = Inr db'" "q \<noteq> []"
  shows "\<exists>permit. p = Some permit \<and> Covers permit ''asset'' i \<and> Covers permit ''asset'' q"
proof -
  from assms obtain before db3 where
    "\<exists>permit. p = Some permit \<and> Covers permit ''asset'' q"
    and "log_inventory (logUpdate (begin_tx p now) ''asset'' i (asset_row before) (asset_row (before\<lparr>as_ParentID := Some q\<rparr>))) db3 = Inr db'"
    by (auto simp: ReparentAsset_def reparent_tx_def writeTx_def bind_result_Inr Let_def split: if_splits)
  then show ?thesis by (auto simp: log_inventory_Inr dest!: logUpdate_Inr)
qed

section \<open>Creating inside a project\<close>

text \<open>The rows a permit is minted from.\<close>

definition scope_rows :: "inventory \<Rightarrow> project list \<times> (linkTable \<Rightarrow> projectLink list) \<times> userProjectRow list" where
  "scope_rows db = (es_projects (iv_estate db), es_links (iv_estate db), es_assignments (iv_estate db))"

lemma scope_log: "log_inventory f db = Inr db' \<Longrightarrow> scope_rows db' = scope_rows db"
  by (auto simp: log_inventory_Inr scope_rows_def)

lemma scope_components: "instantiateComponents t fresh a planned db = Inr db' \<Longrightarrow> scope_rows db' = scope_rows db"
proof -
  have "scope_rows d' = scope_rows d" if "instantiateInterfaceComponents t aid entries now d = Inr d'" for aid entries now d d'
    using that unfolding instantiateInterfaceComponents_def
    by (rule each_result_keeps [where g = scope_rows, rotated])
      (auto simp: bind_result_Inr insert_iface_def scope_rows_def dest!: scope_log split: prod.splits if_splits)
  then show "instantiateComponents t fresh a planned db = Inr db' \<Longrightarrow> scope_rows db' = scope_rows db"
    by (auto simp: instantiateComponents_def Let_def bind_result_Inr split: option.splits)
qed

lemma scope_insertAsset:
  assumes "insertAsset t fresh a envs codes planned db = Inr db'"
  shows "scope_rows db' = scope_rows db"
proof -
  from assms obtain db1 db2 db3 db4 db5 where 1: "insert_asset a db = Inr db1"
    and 2: "insertClosureForNewNode (as_ID a) (as_ParentID a) db1 = Inr db2"
    and 3: "setAssetEnvironments (as_ID a) envs db2 = Inr db3"
    and 4: "log_inventory (logCreate t ''asset'' (as_ID a) (auditedAsset a codes [] [])) db3 = Inr db4"
    and 5: "instantiateComponents t fresh a planned db4 = Inr db5" and db': "db' = indexAsset a db5"
    by (auto simp: insertAsset_def bind_result_Inr)
  have "scope_rows (d\<lparr>iv_memberships := []\<rparr>) = scope_rows d" for d by (simp add: scope_rows_def)
  with environments_only [OF 3] have "scope_rows db3 = scope_rows db2" by metis
  moreover have "scope_rows db1 = scope_rows db" using 1 by (auto simp: insert_asset_def Let_def scope_rows_def)
  moreover have "scope_rows db2 = scope_rows db1" using new_node_Inr [OF 2] by (simp add: scope_rows_def)
  ultimately show ?thesis using scope_log [OF 4] scope_components [OF 5] db'
    by (simp add: scope_rows_def indexAsset_def indexEntity_def)
qed

lemma created_in_project:
  assumes "CreateAssetInProject p now fresh projectID a0 db = Inr db'"
  obtains q l where "p = Some q" "PermitHoldsProject q projectID" "as_ID a0 \<notin> set (asset_ids db)"
    "asset_ids db' = asset_ids db @ [as_ID a0]"
    "ln_ProjectID l = projectID" "ln_EntityID l = as_ID a0" "active_owner l"
    "scope_rows db' = (es_projects (iv_estate db),
        (es_links (iv_estate db))(ProjectAsset := es_links (iv_estate db) ProjectAsset @ [l]), es_assignments (iv_estate db))"
proof -
  from assms obtain a q planned t db1 where v: "Validate (a0\<lparr>as_RowVersion := 1\<rparr>) = Inr a"
    and q: "p = Some q" "PermitHoldsProject q projectID"
    and ins: "insertAsset t fresh a None [] planned db = Inr db1"
    and lnk: "insertProjectAssetLink t projectID (as_ID a) db1 = Inr db'"
    by (auto simp: CreateAssetInProject_def create_in_project_tx_def writeTx_def bind_result_Inr Let_def
        split: option.splits if_splits)
  have id: "as_ID a = as_ID a0" using v by (auto simp: Validate_def Let_def)
  let ?l = "\<lparr>ln_ProjectID = projectID, ln_EntityID = as_ID a, ln_Relation = ProjectOwns, ln_Note = None,
               ln_Lifecycle = LifecycleActive, ln_CreatedAt = tx_at t, ln_UpdatedAt = tx_at t\<rparr>"
  from lnk obtain e where e: "insert_link ProjectAsset ?l (iv_estate db1) = Inr e"
    and lg: "log_inventory (logCreate t ''project_asset'' (link_id projectID (as_ID a)) (link_row ProjectAsset ?l)) (db1\<lparr>iv_estate := e\<rparr>) = Inr db'"
    by (auto simp: insertProjectAssetLink_def Let_def bind_result_Inr)
  have "scope_rows db' = scope_rows (db1\<lparr>iv_estate := e\<rparr>)" using scope_log [OF lg] by simp
  also have "\<dots> = (es_projects (iv_estate db1), (es_links (iv_estate db1))(ProjectAsset := es_links (iv_estate db1) ProjectAsset @ [?l]),
      es_assignments (iv_estate db1))"
    using e by (auto simp: insert_link_def Let_def scope_rows_def)
  finally have "scope_rows db' = (es_projects (iv_estate db),
      (es_links (iv_estate db))(ProjectAsset := es_links (iv_estate db) ProjectAsset @ [?l]), es_assignments (iv_estate db))"
    using scope_insertAsset [OF ins] by (simp add: scope_rows_def)
  moreover have "asset_ids db' = asset_ids db @ [as_ID a]" "as_ID a \<notin> set (asset_ids db)"
    using insertAsset_effect [OF ins] core_link [OF lnk] by (simp_all add: core_def asset_ids_def)
  ultimately show thesis using that [of q ?l] q id by (simp add: active_owner_def)
qed

lemma linked_after:
  assumes "es_projects e' = es_projects e" "es_links e' = (es_links e)(ProjectAsset := es_links e ProjectAsset @ [l])"
    "ln_Lifecycle l = LifecycleActive"
  shows "linked e' tb q i \<longleftrightarrow>
     linked e tb q i \<or> tb = ProjectAsset \<and> q = ln_ProjectID l \<and> i = ln_EntityID l \<and> live_project e q"
  using assms by (auto simp: linked_def same_link_def live_project_def get_project_def)

text \<open>
  Creating an asset inside a project grants its owner that asset and nothing else: whoever succeeds
  holds the project; the asset is new; and the permit minted afterwards for a project owner who
  holds that project covers an asset, a service or a circuit exactly when it did before or it is
  the new asset.
\<close>

theorem created_asset_is_all_they_gain:
  assumes "CreateAssetInProject p now fresh projectID a0 db = Inr db'"
    and "usr_IsActive u" "usr_Role u = RoleProjectOwner" "to_lower (usr_Username u) \<notin> set (map (\<lambda>n. to_lower (trim_space n)) admins)"
    and "holds (iv_estate db) (usr_ID u) projectID"
  shows "(\<exists>q. p = Some q \<and> PermitHoldsProject q projectID) \<and> as_ID a0 \<notin> set (asset_ids db)
     \<and> (\<exists>old new. mintPermit (NewAuthorizer admins (store_resolver (iv_estate db))) (Some u) = Inr old
          \<and> mintPermit (NewAuthorizer admins (store_resolver (iv_estate db'))) (Some u) = Inr new
          \<and> (\<forall>tb i. Covers new (linked_type tb) i \<longleftrightarrow> Covers old (linked_type tb) i \<or> tb = ProjectAsset \<and> i = as_ID a0))"
proof -
  from assms(1) obtain q l where q: "p = Some q" "PermitHoldsProject q projectID" "as_ID a0 \<notin> set (asset_ids db)"
    and l: "ln_ProjectID l = projectID" "ln_EntityID l = as_ID a0" "active_owner l"
    and rows: "scope_rows db' = (es_projects (iv_estate db),
        (es_links (iv_estate db))(ProjectAsset := es_links (iv_estate db) ProjectAsset @ [l]), es_assignments (iv_estate db))"
    by (rule created_in_project)
  let ?e = "iv_estate db" and ?e' = "iv_estate db'"
  have holds: "holds ?e' v r \<longleftrightarrow> holds ?e v r" for v r
    using rows by (simp add: scope_rows_def holds_def live_project_def get_project_def)
  have linked: "linked ?e' tb r i \<longleftrightarrow> linked ?e tb r i \<or> tb = ProjectAsset \<and> r = projectID \<and> i = as_ID a0 \<and> live_project ?e r" for tb r i
    using linked_after [of ?e' ?e l] rows l by (simp add: scope_rows_def active_owner_def)
  have minted: "\<exists>m. mintPermit (NewAuthorizer admins (store_resolver e)) (Some u) = Inr m
      \<and> (\<forall>tb i. Covers m (linked_type tb) i \<longleftrightarrow> (\<exists>r. holds e (usr_ID u) r \<and> linked e tb r i))" for e
  proof -
    have na: "\<not> isAdministrator (NewAuthorizer admins (store_resolver e)) u"
      using assms(3,4) by (simp add: isAdministrator_def NewAuthorizer_def RoleProjectOwner_def RoleAdministrator_def)
    obtain ps ents where m: "mintPermit (NewAuthorizer admins (store_resolver e)) (Some u) = Inr (scopedPermit (UserActor u) ps ents)"
      and "set ps = {r. holds e (usr_ID u) r}"
      and ents: "\<And>t i. ents t i \<longleftrightarrow> (\<exists>tb r. t = linked_type tb \<and> holds e (usr_ID u) r \<and> linked e tb r i)"
      by (rule store.mint_owner [OF assms(2) na assms(3), of e]) (simp_all add: NewAuthorizer_def)
    have "Covers (scopedPermit (UserActor u) ps ents) (linked_type tb) i \<longleftrightarrow> (\<exists>r. holds e (usr_ID u) r \<and> linked e tb r i)" for tb i
      using linked_type_inj by (auto simp: scoped_Covers_def ents)
    with m show ?thesis by blast
  qed
  obtain old where old: "mintPermit (NewAuthorizer admins (store_resolver ?e)) (Some u) = Inr old"
      "\<forall>tb i. Covers old (linked_type tb) i \<longleftrightarrow> (\<exists>r. holds ?e (usr_ID u) r \<and> linked ?e tb r i)"
    using minted [of ?e] by blast
  obtain new where new: "mintPermit (NewAuthorizer admins (store_resolver ?e')) (Some u) = Inr new"
      "\<forall>tb i. Covers new (linked_type tb) i \<longleftrightarrow> (\<exists>r. holds ?e' (usr_ID u) r \<and> linked ?e' tb r i)"
    using minted [of ?e'] by blast
  have live: "live_project ?e projectID" using assms(5) by (simp add: holds_def)
  have "Covers new (linked_type tb) i \<longleftrightarrow> Covers old (linked_type tb) i \<or> tb = ProjectAsset \<and> i = as_ID a0" for tb i
    unfolding new(2) [rule_format] old(2) [rule_format] holds linked using assms(5) live by blast
  with q old(1) new(1) show ?thesis by blast
qed

end
