(* ===== verification/Asset_Examples.thy ===== *)
theory Asset_Examples
  imports Asset_Rules
begin

text \<open>
  A small inventory built by the operations themselves: instances of the theorems on assets, and a
  box that is moved onto another.
\<close>

definition demo_machine :: "string \<Rightarrow> string \<Rightarrow> string option \<Rightarrow> int option \<Rightarrow> asset" where
  "demo_machine i kind parent position =
     \<lparr>as_ID = i, as_Kind = kind, as_Name = i, as_ParentID = parent, as_Serial = None, as_AssetTag = None, as_Vendor = None,
      as_Model = None, as_DeviceTypeID = None, as_UHeight = None, as_RackPosition = position, as_RackFace = None,
      as_UsableDepthMM = None, as_WidthMM = None, as_MaxLoadGrams = None, as_CPUCores = None, as_MemoryMB = None,
      as_VCPUProvisioned = None, as_VCPUAllocated = None, as_MemoryProvisionedMB = None, as_MemoryAllocatedMB = None,
      as_StorageKind = None, as_RawCapacityGB = None, as_ReplacesAssetID = None, as_Lifecycle = LifecycleActive,
      as_TeamID = None, as_ManagerRole = None, as_EOLDate = None, as_Attrs = ''{}'', as_CreatedAt = ''t'', as_UpdatedAt = ''t'',
      as_RowVersion = 1\<rparr>"

definition demo_stock :: inventory where
  "demo_stock =
     \<lparr>iv_estate =
        \<lparr>es_projects = [\<lparr>pr_ID = ''p1'', pr_Code = ''p1'', pr_Name = ''One'', pr_Description = None, pr_TeamID = None,
             pr_PricedForVCPU = None, pr_PricedForMemoryMB = None, pr_Lifecycle = LifecycleActive, pr_CreatedAt = ''t'',
             pr_UpdatedAt = ''t'', pr_RowVersion = 1\<rparr>],
         es_links = \<lambda>_. [],
         es_assignments = [\<lparr>up_ID = ''x'', up_UserID = ''u1'', up_ProjectID = ''p1'', up_Lifecycle = LifecycleActive,
             up_CreatedAt = ''t'', up_UpdatedAt = ''t'', up_RowVersion = 1\<rparr>],
         es_entities = \<lambda>_. [], es_teams = [], es_users = [''u1''], es_tags = \<lambda>_. [], es_index = [], es_log = []\<rparr>,
      iv_assets = [], iv_closure = [], iv_memberships = [], iv_environments = [], iv_kinds = [''rack'', ''server''],
      iv_roles = [], iv_storageKinds = [], iv_formFactors = [], iv_types = [], iv_components = [], iv_interfaces = [],
      iv_cables = [],
      iv_members = [\<lparr>gm_GroupID = ''g'', gm_AssetID = ''s1'', gm_Role = ''member'', gm_Lifecycle = LifecycleActive,
        gm_CreatedAt = ''t'', gm_UpdatedAt = ''t''\<rparr>],
      iv_attachments = [], iv_pins = [], iv_custom = \<lambda>_. [], iv_tags = \<lambda>_. []\<rparr>"

definition demo_operator :: "permit option" where
  "demo_operator = Some (administratorPermit \<lparr>act_ID = ''u0'', act_Name = ''root'', act_Kind = ActorKindUser\<rparr>)"

definition demo_fresh :: "nat \<Rightarrow> string" where
  "demo_fresh n = ''i'' @ replicate n CHR ''x''"

definition demo_create :: "asset \<Rightarrow> inventory \<Rightarrow> inventory result" where
  "demo_create a = CreateAsset demo_operator ''t'' demo_fresh a None"

definition demo_racked :: "inventory result" where
  "demo_racked =
     bind_result (demo_create (demo_machine ''ra'' ''rack'' None None) demo_stock) (\<lambda>d1.
     bind_result (demo_create (demo_machine ''rb'' ''rack'' None None) d1) (\<lambda>d2.
     bind_result (demo_create (demo_machine ''s1'' ''server'' (Some ''ra'') (Some 10)) d2)
       (demo_create (demo_machine ''s2'' ''server'' (Some ''rb'') (Some 10)))))"

definition demo_moved :: "inventory result" where
  "demo_moved = bind_result demo_racked (ReparentAsset demo_operator ''t'' ''s1'' (Some ''rb''))"

text \<open>
  A move does not look at the rack it ends in: a box keeps its position, so it may land on another
  one, where the same box could not have been created or edited to.
\<close>

theorem moved_box_overlaps:
  "case demo_racked of Inl _ \<Rightarrow> False
   | Inr d \<Rightarrow>
       (case ReparentAsset demo_operator ''t'' ''s1'' (Some ''rb'') d of
          Inl _ \<Rightarrow> False
        | Inr db \<Rightarrow> list_ex (\<lambda>p. list_ex (Overlaps p) (placements db ''rb'' ''s2'')) (placements db ''rb'' ''s1''))
       \<and> (case demo_create (demo_machine ''s3'' ''server'' (Some ''rb'') (Some 10)) d of
            Inl e \<Rightarrow> e = ErrInvalid [(''rack_position'', ''something is already there'')] | Inr _ \<Rightarrow> False)"
  by code_simp

section \<open>Instances\<close>

lemma demo_stock_ok: "inventory_ok demo_stock"
proof -
  have none: "iv_assets demo_stock = []" "iv_closure demo_stock = []"
    "es_entities (iv_estate demo_stock) ProjectAsset = []" by (simp_all add: demo_stock_def)
  have "nth_parent (\<lambda>_. None) n d \<noteq> Some d" if "0 < n" for n and d :: string
    using that by (cases n) simp_all
  moreover have "replaces_of [] = (\<lambda>_. None)" by (rule ext) (simp add: replaces_of_def)
  ultimately have "loop_free (replaces_of [])" unfolding loop_free_def by (metis gr0I)
  then show ?thesis
    by (simp add: inventory_ok_def tree_ok_def lineage_ok_def names_ok_def mirrors_def closed_tree_def closure_keys_def
        asset_ids_def none)
qed

lemma demo_moved_reached: "\<exists>db. demo_moved = Inr db \<and> inventory_step\<^sup>*\<^sup>* demo_stock db \<and> iv_closure db \<noteq> []
    \<and> List.member (iv_closure db) (''rb'', ''s1'', 1) \<and> set (SubtreeIDs db [''rb'']) = {''rb'', ''s1'', ''s2''}"
proof -
  have "case demo_moved of Inl _ \<Rightarrow> False | Inr db \<Rightarrow> iv_closure db \<noteq> [] \<and> List.member (iv_closure db) (''rb'', ''s1'', 1)
      \<and> set (SubtreeIDs db [''rb'']) = {''rb'', ''s1'', ''s2''}"
    by code_simp
  then obtain db where db: "demo_moved = Inr db" "iv_closure db \<noteq> []" "List.member (iv_closure db) (''rb'', ''s1'', 1)"
      "set (SubtreeIDs db [''rb'']) = {''rb'', ''s1'', ''s2''}" by (auto split: sum.splits)
  from db(1) obtain d1 d2 d3 d4 where "demo_create (demo_machine ''ra'' ''rack'' None None) demo_stock = Inr d1"
    "demo_create (demo_machine ''rb'' ''rack'' None None) d1 = Inr d2"
    "demo_create (demo_machine ''s1'' ''server'' (Some ''ra'') (Some 10)) d2 = Inr d3"
    "demo_create (demo_machine ''s2'' ''server'' (Some ''rb'') (Some 10)) d3 = Inr d4"
    "ReparentAsset demo_operator ''t'' ''s1'' (Some ''rb'') d4 = Inr db"
    by (auto simp: demo_moved_def demo_racked_def bind_result_Inr)
  then have "inventory_step demo_stock d1" "inventory_step d1 d2" "inventory_step d2 d3" "inventory_step d3 d4" "inventory_step d4 db"
    by (auto simp: demo_create_def intro: CreateAsset_step ReparentAsset_step)
  then have "inventory_step\<^sup>*\<^sup>* demo_stock db" by (meson converse_rtranclp_into_rtranclp rtranclp.rtrancl_refl)
  with db show ?thesis by blast
qed

theorem closure_is_containment_witness:
  "\<exists>db. demo_moved = Inr db \<and> (''rb'', ''s1'', 1) \<in> set (iv_closure db)
     \<and> (\<exists>n. nth_parent (parent_of (iv_assets db)) n ''s1'' = Some ''rb'')
     \<and> inside (parent_of (iv_assets db)) ''s1'' ''rb''"
proof -
  obtain db where db: "demo_moved = Inr db" "inventory_step\<^sup>*\<^sup>* demo_stock db" "(''rb'', ''s1'', 1) \<in> set (iv_closure db)"
    using demo_moved_reached by auto
  from closure_is_containment [OF db(2) demo_stock_ok] db(3)
  have "\<exists>n. nth_parent (parent_of (iv_assets db)) n ''s1'' = Some ''rb''" by blast
  with db show ?thesis unfolding inside_def by blast
qed

theorem lineage_never_loops_witness:
  "\<exists>db. demo_moved = Inr db \<and> (\<forall>i. nth_parent (replaces_of (iv_assets db)) 1 i \<noteq> Some i)"
proof -
  obtain db where db: "demo_moved = Inr db" "inventory_step\<^sup>*\<^sup>* demo_stock db" using demo_moved_reached by auto
  from lineage_never_loops [OF db(2) demo_stock_ok zero_less_one] db(1) show ?thesis by blast
qed

definition demo_unplugged :: "inventory result" where
  "demo_unplugged = bind_result demo_racked (RetireAsset demo_operator ''t'' ''s1'')"

theorem retired_asset_unplugged_witness:
  "\<exists>d db. demo_racked = Inr d \<and> live_edge d ''s1'' \<and> demo_unplugged = Inr db \<and> \<not> live_edge db ''s1''"
proof -
  have "case demo_racked of Inl _ \<Rightarrow> False | Inr d \<Rightarrow>
      (case get_asset d ''s1'' of None \<Rightarrow> False | Some a \<Rightarrow> live a) \<and> length (iv_members d) = 1
      \<and> gm_AssetID (hd (iv_members d)) = ''s1'' \<and> gm_Lifecycle (hd (iv_members d)) = LifecycleActive" by code_simp
  then obtain d a where d: "demo_racked = Inr d" "get_asset d ''s1'' = Some a" "live a" "live_edge d ''s1''"
    by (auto simp: live_edge_def length_Suc_conv split: sum.splits option.splits)
  have "case demo_unplugged of Inl _ \<Rightarrow> False | Inr _ \<Rightarrow> True" by code_simp
  then obtain db where db: "demo_unplugged = Inr db" by (auto split: sum.splits)
  then have "RetireAsset demo_operator ''t'' ''s1'' d = Inr db" unfolding demo_unplugged_def d(1) bind_result_simps .
  from retired_asset_unplugged [OF this d(2)] d db show ?thesis by auto
qed

definition demo_edited :: "inventory result" where
  "demo_edited =
     bind_result demo_racked (UpdateAsset demo_operator ''t''
       ((demo_machine ''s1'' ''server'' (Some ''ra'') (Some 10))\<lparr>as_Lifecycle := LifecycleRetired\<rparr>) None)"

theorem edit_to_retired_keeps_edges_witness:
  "\<exists>db r. demo_edited = Inr db \<and> get_asset db ''s1'' = Some r \<and> \<not> live r \<and> live_edge db ''s1''"
proof -
  let ?a = "(demo_machine ''s1'' ''server'' (Some ''ra'') (Some 10))\<lparr>as_Lifecycle := LifecycleRetired\<rparr>"
  have "case demo_racked of Inl _ \<Rightarrow> False | Inr d \<Rightarrow> length (iv_members d) = 1
      \<and> gm_AssetID (hd (iv_members d)) = ''s1'' \<and> gm_Lifecycle (hd (iv_members d)) = LifecycleActive" by code_simp
  then obtain d where d: "demo_racked = Inr d" "live_edge d ''s1''"
    by (auto simp: live_edge_def length_Suc_conv split: sum.splits)
  have "case demo_edited of Inl _ \<Rightarrow> False | Inr _ \<Rightarrow> True" by code_simp
  then obtain db where db: "demo_edited = Inr db" by (auto split: sum.splits)
  then have "UpdateAsset demo_operator ''t'' ?a None d = Inr db" unfolding demo_edited_def d(1) bind_result_simps .
  from edit_to_retired_keeps_edges [OF this] d(2) db show ?thesis by (auto simp: demo_machine_def)
qed

theorem move_needs_both_ends_witness:
  "\<exists>permit db. demo_moved = Inr db \<and> demo_operator = Some permit \<and> Covers permit ''asset'' ''s1'' \<and> Covers permit ''asset'' ''rb''"
proof -
  obtain d db where "demo_racked = Inr d" "demo_moved = Inr db" "ReparentAsset demo_operator ''t'' ''s1'' (Some ''rb'') d = Inr db"
    using demo_moved_reached by (auto simp: demo_moved_def bind_result_Inr)
  with move_needs_both_ends [of demo_operator "''t''" "''s1''" "''rb''" d db] show ?thesis by auto
qed

definition demo_pat :: appUser where
  "demo_pat =
     \<lparr>usr_ID = ''u1'', usr_Username = ''pat'', usr_DisplayName = None, usr_Email = None, usr_Source = ''local'',
      usr_PasswordHash = None, usr_IsActive = True, usr_LastLoginAt = None, usr_CreatedAt = ''t'', usr_Role = RoleProjectOwner,
      usr_CanSeeCosts = False, usr_Subject = None\<rparr>"

definition demo_owned :: "inventory result" where
  "demo_owned =
     bind_result (mintPermit (NewAuthorizer [] (store_resolver (iv_estate demo_stock))) (Some demo_pat)) (\<lambda>p.
       CreateAssetInProject (Some p) ''t'' demo_fresh ''p1'' (demo_machine ''vm'' ''server'' None None) demo_stock)"

theorem created_asset_is_all_they_gain_witness:
  "\<exists>db new. demo_owned = Inr db
     \<and> mintPermit (NewAuthorizer [] (store_resolver (iv_estate db))) (Some demo_pat) = Inr new \<and> Covers new ''asset'' ''vm''"
proof -
  have "case demo_owned of Inl _ \<Rightarrow> False | Inr _ \<Rightarrow> True" by code_simp
  then obtain db where db: "demo_owned = Inr db" by (auto split: sum.splits)
  then obtain p where run: "CreateAssetInProject (Some p) ''t'' demo_fresh ''p1'' (demo_machine ''vm'' ''server'' None None) demo_stock = Inr db"
    by (auto simp: demo_owned_def bind_result_Inr)
  have holds: "holds (iv_estate demo_stock) (usr_ID demo_pat) ''p1''" by code_simp
  have u: "usr_IsActive demo_pat" "usr_Role demo_pat = RoleProjectOwner" by (simp_all add: demo_pat_def)
  have "to_lower (usr_Username demo_pat) \<notin> set (map (\<lambda>n. to_lower (trim_space n)) [])" by simp
  from created_asset_is_all_they_gain [OF run u this holds]
  obtain new where new: "mintPermit (NewAuthorizer [] (store_resolver (iv_estate db))) (Some demo_pat) = Inr new"
      "Covers new (linked_type ProjectAsset) (as_ID (demo_machine ''vm'' ''server'' None None))"
    by blast
  have "linked_type ProjectAsset = ''asset''" "as_ID (demo_machine ''vm'' ''server'' None None) = ''vm''"
    by (simp_all add: demo_machine_def)
  with db new show ?thesis by metis
qed

end
