(* ===== verification/Owner_Reach.thy ===== *)
theory Owner_Reach
  imports Portfolio Project_Tables Asset_Examples
begin

text \<open>
  What project owners can come to write: no request of theirs on projects, links, assignments,
  assets, services and circuits gives them an entity that existed before; they gain what they
  create inside their own projects and nothing else.
\<close>

section \<open>Requests that leave the scope alone\<close>

lemma with_estate_Inr:
  "with_estate f pf = Inr pf' \<longleftrightarrow>
     (\<exists>e. f (pf_estate pf) = Inr e \<and> pf' = pf\<lparr>pf_inventory := (pf_inventory pf)\<lparr>iv_estate := e\<rparr>\<rparr>)"
  by (auto simp: with_estate_def bind_result_Inr)

lemma with_inventory_Inr:
  "with_inventory f pf = Inr pf' \<longleftrightarrow> (\<exists>db. f (pf_inventory pf) = Inr db \<and> pf' = pf\<lparr>pf_inventory := db\<rparr>)"
  by (auto simp: with_inventory_def bind_result_Inr)

text \<open>
  From one portfolio to the next: rows of the three tables stay, projects and assignments are the
  same, and whatever is newly linked is newly created.
\<close>

definition links_only_new :: "portfolio \<Rightarrow> portfolio \<Rightarrow> bool" where
  "links_only_new pf pf' \<longleftrightarrow>
     (\<forall>tb. set (entity_ids pf tb) \<subseteq> set (entity_ids pf' tb))
     \<and> es_projects (pf_estate pf') = es_projects (pf_estate pf)
     \<and> es_assignments (pf_estate pf') = es_assignments (pf_estate pf)
     \<and> (\<forall>tb q i. linked (pf_estate pf') tb q i \<longrightarrow>
          linked (pf_estate pf) tb q i \<or> i \<in> set (entity_ids pf' tb) - set (entity_ids pf tb))"

lemma linked_rows:
  assumes "es_projects e' = es_projects e" "es_links e' = es_links e"
  shows "linked e' tb q i = linked e tb q i"
  using assms by (simp add: linked_iff live_project_def)

lemma same_scope:
  assumes "scope_rows (pf_inventory pf') = scope_rows (pf_inventory pf)"
    and "\<And>tb. set (entity_ids pf tb) \<subseteq> set (entity_ids pf' tb)"
  shows "links_only_new pf pf'"
  using assms linked_rows [of "pf_estate pf'" "pf_estate pf"] by (auto simp: links_only_new_def scope_rows_def)

lemma added_link:
  assumes "scope_rows (pf_inventory pf') = (es_projects (pf_estate pf),
      (es_links (pf_estate pf))(table := es_links (pf_estate pf) table @ [l]), es_assignments (pf_estate pf))"
    and "\<And>tb. set (entity_ids pf tb) \<subseteq> set (entity_ids pf' tb)"
    and "ln_EntityID l \<in> set (entity_ids pf' table)" "ln_EntityID l \<notin> set (entity_ids pf table)"
  shows "links_only_new pf pf'"
proof -
  have rows: "es_projects (pf_estate pf') = es_projects (pf_estate pf)" "es_assignments (pf_estate pf') = es_assignments (pf_estate pf)"
    "es_links (pf_estate pf') = (es_links (pf_estate pf))(table := es_links (pf_estate pf) table @ [l])"
    using assms(1) by (simp_all add: scope_rows_def)
  have "linked (pf_estate pf) tb q i \<or> i \<in> set (entity_ids pf' tb) - set (entity_ids pf tb)"
    if "linked (pf_estate pf') tb q i" for tb q i
    using that rows assms(3,4) by (auto simp: linked_iff live_project_def same_link_def split: if_splits)
  with assms(2) rows(1,2) show ?thesis by (auto simp: links_only_new_def)
qed

section \<open>Assets\<close>

lemma scope_topology: "retireAssetTopology t now i db = Inr db' \<Longrightarrow> scope_rows db' = scope_rows db"
proof -
  have retired: "log_retired t ty i old d = Inr d' \<Longrightarrow> scope_rows d' = scope_rows d" for ty i old d d'
    unfolding log_retired_def by (rule scope_log)
  have members: "scope_rows d' = scope_rows d" if "retire_members t now i d = Inr d'" for d d'
    using that unfolding retire_members_def
    by (rule each_result_keeps [where g = scope_rows, rotated]) (auto dest!: retired simp: scope_rows_def)
  have rows: "scope_rows d' = scope_rows d" if "retireRows t now ids d = Inr d'" for d d' ids
    using that unfolding retireRows_def
    by (rule each_result_keeps [where g = scope_rows, rotated]) (auto dest!: retired simp: scope_rows_def)
  have cables: "scope_rows d' = scope_rows d" if "retire_cables t ids d = Inr d'" for d d' ids
    using that unfolding retire_cables_def
    by (rule each_result_keeps [where g = scope_rows, rotated]) (auto dest!: retired simp: scope_rows_def)
  assume "retireAssetTopology t now i db = Inr db'"
  then show ?thesis by (auto simp: retireAssetTopology_def bind_result_Inr dest!: members rows cables)
qed

lemma scope_update_tx:
  assumes "update_tx p now before bc ac envs a db = Inr db'"
  shows "scope_rows db' = scope_rows db"
proof -
  let ?f = "\<lambda>r. a\<lparr>as_ParentID := as_ParentID r, as_CreatedAt := as_CreatedAt r, as_RowVersion := as_RowVersion r + 1\<rparr>"
  from assms obtain db1 db2 db3 g where
    1: "update_asset (as_ID a) ?f db = Inr db1" and 2: "setAssetEnvironments (as_ID a) envs db1 = Inr db2"
    and 3: "log_inventory g db2 = Inr db3" and db': "db' = indexAsset a db3"
    by (auto simp: update_tx_def writeTx_def bind_result_Inr Let_def split: option.splits if_splits)
  have "scope_rows (d\<lparr>iv_memberships := []\<rparr>) = scope_rows d" for d by (simp add: scope_rows_def)
  with environments_only [OF 2] have "scope_rows db2 = scope_rows db1" by metis
  with update_asset_Inr [OF 1] scope_log [OF 3] db' show ?thesis
    by (simp add: scope_rows_def indexAsset_def indexEntity_def)
qed

lemma scope_retire_tx: "retire_tx p now old i db = Inr db' \<Longrightarrow> scope_rows db' = scope_rows db"
  by (auto simp: retire_tx_def writeTx_def bind_result_Inr log_retired_def scope_rows_def
      dest!: scope_topology scope_log update_asset_Inr)

lemma scope_reparent_tx: "reparent_tx p now before i q db = Inr db' \<Longrightarrow> scope_rows db' = scope_rows db"
  by (auto simp: reparent_tx_def writeTx_def bind_result_Inr Let_def scope_rows_def insert_closure_Inr
      dest!: scope_log update_asset_Inr insert_closure_Inr split: option.splits)

lemma ids_after_update: "(\<And>r. r \<in> set rows \<Longrightarrow> P r \<Longrightarrow> k (f r) = k r) \<Longrightarrow> map k (update_where P f rows) = map k rows"
  by (induction rows) (auto simp: update_where_def)

lemma asset_ids_kept:
  "update_tx p now before bc ac envs a db = Inr db' \<Longrightarrow> asset_ids db' = asset_ids db"
  "retire_tx p now old i db = Inr db' \<Longrightarrow> asset_ids db' = asset_ids db"
  "reparent_tx p now before i q db = Inr db' \<Longrightarrow> asset_ids db' = asset_ids db"
proof -
  have *: "asset_ids db' = asset_ids db" if "iv_assets db' = update_where (\<lambda>b. as_ID b = j) f (iv_assets db)"
    "\<And>r. as_ID r = j \<Longrightarrow> as_ID (f r) = as_ID r" for j f
    using that by (simp add: asset_ids_def ids_after_update)
  show "update_tx p now before bc ac envs a db = Inr db' \<Longrightarrow> asset_ids db' = asset_ids db"
    using * [of "as_ID a"] by (auto simp: core_def dest!: update_tx_effect)
  show "retire_tx p now old i db = Inr db' \<Longrightarrow> asset_ids db' = asset_ids db"
    using * [of i] by (auto simp: core_def dest!: retire_tx_effect)
  show "reparent_tx p now before i q db = Inr db' \<Longrightarrow> asset_ids db' = asset_ids db"
    using * [of i] by (auto simp: core_def dest!: reparent_tx_effect)
qed

lemma asset_request:
  assumes "with_inventory f pf = Inr pf'"
    and "\<And>db. f (pf_inventory pf) = Inr db \<Longrightarrow> scope_rows db = scope_rows (pf_inventory pf) \<and> set (asset_ids (pf_inventory pf)) \<subseteq> set (asset_ids db)"
  shows "links_only_new pf pf'"
proof (rule same_scope)
  from assms obtain db where db: "pf' = pf\<lparr>pf_inventory := db\<rparr>"
    "scope_rows db = scope_rows (pf_inventory pf)" "set (asset_ids (pf_inventory pf)) \<subseteq> set (asset_ids db)"
    by (auto simp: with_inventory_Inr)
  then show "scope_rows (pf_inventory pf') = scope_rows (pf_inventory pf)" by simp
  show "set (entity_ids pf tb) \<subseteq> set (entity_ids pf' tb)" for tb using db by (cases tb) simp_all
qed

lemma asset_requests:
  "handle p now (CreateAssetReq fresh a envs) pf = Inr pf' \<Longrightarrow> links_only_new pf pf'"
  "handle p now (UpdateAssetReq a envs) pf = Inr pf' \<Longrightarrow> links_only_new pf pf'"
  "handle p now (RetireAssetReq i) pf = Inr pf' \<Longrightarrow> links_only_new pf pf'"
  "handle p now (ReparentAssetReq i q) pf = Inr pf' \<Longrightarrow> links_only_new pf pf'"
proof -
  have created: "asset_ids db' = asset_ids db @ [as_ID b]" if "insertAsset t fresh b envs codes planned db = Inr db'"
    for t b codes planned and db db' :: inventory
    using insertAsset_effect [OF that] by (simp add: core_def asset_ids_def)
  show "handle p now (CreateAssetReq fresh a envs) pf = Inr pf' \<Longrightarrow> links_only_new pf pf'"
    by (simp, erule asset_request)
      (auto simp: CreateAsset_def create_tx_def writeTx_def bind_result_Inr dest: scope_insertAsset created)
  show "handle p now (UpdateAssetReq a envs) pf = Inr pf' \<Longrightarrow> links_only_new pf pf'"
    by (simp, erule asset_request)
      (auto simp: UpdateAsset_def bind_result_Inr Let_def dest: scope_update_tx asset_ids_kept(1))
  show "handle p now (RetireAssetReq i) pf = Inr pf' \<Longrightarrow> links_only_new pf pf'"
    by (simp, erule asset_request)
      (auto simp: RetireAsset_def bind_result_Inr dest: scope_retire_tx asset_ids_kept(2) split: if_splits)
  show "handle p now (ReparentAssetReq i q) pf = Inr pf' \<Longrightarrow> links_only_new pf pf'"
    by (simp, erule asset_request)
      (auto simp: ReparentAsset_def bind_result_Inr Let_def dest: scope_reparent_tx asset_ids_kept(3) split: if_splits)
qed

lemma asset_in_project_request:
  assumes "handle p now (CreateAssetInProjectReq fresh projectID a) pf = Inr pf'"
  shows "links_only_new pf pf'"
proof -
  from assms obtain db where db: "CreateAssetInProject p now fresh projectID a (pf_inventory pf) = Inr db"
    and pf': "pf' = pf\<lparr>pf_inventory := db\<rparr>"
    by (auto simp: with_inventory_Inr)
  from created_in_project [OF db] obtain l where l: "ln_EntityID l = as_ID a" "as_ID a \<notin> set (asset_ids (pf_inventory pf))"
    "asset_ids db = asset_ids (pf_inventory pf) @ [as_ID a]"
    "scope_rows db = (es_projects (pf_estate pf),
        (es_links (pf_estate pf))(ProjectAsset := es_links (pf_estate pf) ProjectAsset @ [l]), es_assignments (pf_estate pf))"
    by metis
  have "set (entity_ids pf tb) \<subseteq> set (entity_ids pf' tb)" for tb using l(3) by (cases tb) (auto simp: pf')
  with l show ?thesis by (intro added_link [of pf' pf ProjectAsset l]) (simp_all add: pf')
qed

section \<open>Services and circuits\<close>

lemmas portfolio_simps = with_estate_Inr log_portfolio_def logging_Inr indexService_def index_circuit_def indexEntity_def scope_rows_def

lemma insertService_effect:
  assumes "insertService t s pf = Inr pf'"
  shows "scope_rows (pf_inventory pf') = scope_rows (pf_inventory pf)" "pf_services pf' = pf_services pf @ [s]"
    "pf_circuits pf' = pf_circuits pf" "iv_assets (pf_inventory pf') = iv_assets (pf_inventory pf)"
    "sv_ID s \<notin> set (entity_ids pf ProjectService)"
proof -
  from assms obtain pf1 pf2 where 1: "insert_service s pf = Inr pf1"
    and 2: "log_portfolio (logCreate t ''service'' (sv_ID s) (auditedService s [] [])) pf1 = Inr pf2" and 3: "indexService s pf2 = Inr pf'"
    by (auto simp: insertService_def bind_result_Inr)
  from 1 have ins: "scope_rows (pf_inventory pf1) = scope_rows (pf_inventory pf)" "pf_services pf1 = pf_services pf @ [s]"
    "pf_circuits pf1 = pf_circuits pf" "iv_assets (pf_inventory pf1) = iv_assets (pf_inventory pf)"
    "sv_ID s \<notin> set (entity_ids pf ProjectService)"
    by (auto simp: insert_service_def portfolio_simps list_all_iff)
  from 2 3 have "scope_rows (pf_inventory pf') = scope_rows (pf_inventory pf1)" "pf_services pf' = pf_services pf1"
    "pf_circuits pf' = pf_circuits pf1" "iv_assets (pf_inventory pf') = iv_assets (pf_inventory pf1)"
    by (auto simp: portfolio_simps)
  with ins show "scope_rows (pf_inventory pf') = scope_rows (pf_inventory pf)" "pf_services pf' = pf_services pf @ [s]"
    "pf_circuits pf' = pf_circuits pf" "iv_assets (pf_inventory pf') = iv_assets (pf_inventory pf)"
    "sv_ID s \<notin> set (entity_ids pf ProjectService)" by simp_all
qed

lemma insertCircuit_effect:
  assumes "insertCircuit t c pf = Inr pf'"
  shows "scope_rows (pf_inventory pf') = scope_rows (pf_inventory pf)" "pf_circuits pf' = pf_circuits pf @ [c]"
    "pf_services pf' = pf_services pf" "iv_assets (pf_inventory pf') = iv_assets (pf_inventory pf)"
    "ci_ID c \<notin> set (entity_ids pf ProjectCircuit)"
proof -
  from assms obtain pf1 pf2 where 1: "insert_circuit c pf = Inr pf1"
    and 2: "log_portfolio (logCreate t ''circuit'' (ci_ID c) (circuit_row c)) pf1 = Inr pf2" and 3: "index_circuit c pf2 = Inr pf'"
    by (auto simp: insertCircuit_def bind_result_Inr)
  from 1 have ins: "scope_rows (pf_inventory pf1) = scope_rows (pf_inventory pf)" "pf_circuits pf1 = pf_circuits pf @ [c]"
    "pf_services pf1 = pf_services pf" "iv_assets (pf_inventory pf1) = iv_assets (pf_inventory pf)"
    "ci_ID c \<notin> set (entity_ids pf ProjectCircuit)"
    by (auto simp: insert_circuit_def portfolio_simps list_all_iff)
  from 2 3 have "scope_rows (pf_inventory pf') = scope_rows (pf_inventory pf1)" "pf_circuits pf' = pf_circuits pf1"
    "pf_services pf' = pf_services pf1" "iv_assets (pf_inventory pf') = iv_assets (pf_inventory pf1)"
    by (auto simp: portfolio_simps)
  with ins show "scope_rows (pf_inventory pf') = scope_rows (pf_inventory pf)" "pf_circuits pf' = pf_circuits pf @ [c]"
    "pf_services pf' = pf_services pf" "iv_assets (pf_inventory pf') = iv_assets (pf_inventory pf)"
    "ci_ID c \<notin> set (entity_ids pf ProjectCircuit)" by simp_all
qed

lemma project_link_effect:
  assumes "insert_project_link table t projectID i pf = Inr pf'"
  obtains l where "ln_EntityID l = i"
    "scope_rows (pf_inventory pf') = (es_projects (pf_estate pf),
        (es_links (pf_estate pf))(table := es_links (pf_estate pf) table @ [l]), es_assignments (pf_estate pf))"
    "\<And>tb. entity_ids pf' tb = entity_ids pf tb"
proof -
  let ?l = "\<lparr>ln_ProjectID = projectID, ln_EntityID = i, ln_Relation = ProjectOwns, ln_Note = None,
               ln_Lifecycle = LifecycleActive, ln_CreatedAt = tx_at t, ln_UpdatedAt = tx_at t\<rparr>"
  from assms have "scope_rows (pf_inventory pf') = (es_projects (pf_estate pf),
      (es_links (pf_estate pf))(table := es_links (pf_estate pf) table @ [?l]), es_assignments (pf_estate pf))"
    and same: "pf_services pf' = pf_services pf" "pf_circuits pf' = pf_circuits pf" "iv_assets (pf_inventory pf') = iv_assets (pf_inventory pf)"
    by (auto simp: insert_project_link_def Let_def bind_result_Inr insert_link_def portfolio_simps)
  moreover from same have "entity_ids pf' tb = entity_ids pf tb" for tb by (cases tb) (simp_all add: asset_ids_def)
  ultimately show thesis using that [of ?l] by simp
qed

text \<open>Something is inserted and then linked.\<close>

lemma created_and_linked:
  assumes "insert_project_link table t projectID i pf1 = Inr pf'" "scope_rows (pf_inventory pf1) = scope_rows (pf_inventory pf)"
    and "\<And>tb. set (entity_ids pf tb) \<subseteq> set (entity_ids pf1 tb)" "i \<in> set (entity_ids pf1 table)" "i \<notin> set (entity_ids pf table)"
  shows "links_only_new pf pf'"
proof -
  from project_link_effect [OF assms(1)] obtain l where l: "ln_EntityID l = i"
    "scope_rows (pf_inventory pf') = (es_projects (pf_estate pf1),
        (es_links (pf_estate pf1))(table := es_links (pf_estate pf1) table @ [l]), es_assignments (pf_estate pf1))"
    "\<And>tb. entity_ids pf' tb = entity_ids pf1 tb" by metis
  with assms(2-5) show ?thesis by (intro added_link [of pf' pf table l]) (simp_all add: scope_rows_def)
qed

lemma kept_rows:
  assumes "scope_rows (pf_inventory pf') = scope_rows (pf_inventory pf)" "map sv_ID (pf_services pf') = map sv_ID (pf_services pf)"
    "map ci_ID (pf_circuits pf') = map ci_ID (pf_circuits pf)" "iv_assets (pf_inventory pf') = iv_assets (pf_inventory pf)"
  shows "links_only_new pf pf'"
proof -
  have "set (entity_ids pf tb) \<subseteq> set (entity_ids pf' tb)" for tb
    using assms(2-4) by (cases tb) (simp_all add: asset_ids_def del: set_map)
  with assms(1) show ?thesis by (rule same_scope)
qed

lemma service_requests:
  "handle p now (CreateServiceReq s) pf = Inr pf' \<Longrightarrow> links_only_new pf pf'"
  "handle p now (CreateServiceInProjectReq projectID s) pf = Inr pf' \<Longrightarrow> links_only_new pf pf'"
  "handle p now (UpdateServiceReq s) pf = Inr pf' \<Longrightarrow> links_only_new pf pf'"
  "handle p now (RetireServiceReq i) pf = Inr pf' \<Longrightarrow> links_only_new pf pf'"
proof -
  have grown: "set (entity_ids pf tb) \<subseteq> set (entity_ids pf1 tb)"
    if "pf_services pf1 = pf_services pf @ [r]" "pf_circuits pf1 = pf_circuits pf" "iv_assets (pf_inventory pf1) = iv_assets (pf_inventory pf)"
    for pf1 r tb using that by (cases tb) (auto simp: asset_ids_def)
  show "links_only_new pf pf'" if "handle p now (CreateServiceReq s) pf = Inr pf'"
  proof -
    from that obtain t r where "insertService t r pf = Inr pf'" by (auto simp: CreateService_def writeTx_def bind_result_Inr)
    note eff = insertService_effect [OF this]
    show ?thesis by (rule same_scope [OF eff(1) grown [OF eff(2-4)]])
  qed
  show "links_only_new pf pf'" if "handle p now (CreateServiceInProjectReq projectID s) pf = Inr pf'"
  proof -
    from that obtain t r pf1 where ins: "insertService t r pf = Inr pf1"
      and link: "insert_project_link ProjectService t projectID (sv_ID r) pf1 = Inr pf'"
      by (auto simp: CreateServiceInProject_def insertProjectServiceLink_def writeTx_def bind_result_Inr split: option.splits if_splits)
    note eff = insertService_effect [OF ins]
    show ?thesis by (rule created_and_linked [OF link eff(1) grown [OF eff(2-4)] _ eff(5)]) (simp add: eff(2))
  qed
  show "links_only_new pf pf'" if "handle p now (UpdateServiceReq s) pf = Inr pf'"
    by (rule kept_rows, use that in \<open>auto simp: UpdateService_def update_service_tx_def writeTx_def bind_result_Inr Let_def
        portfolio_simps ids_after_update split: option.splits\<close>)
  show "links_only_new pf pf'" if "handle p now (RetireServiceReq i) pf = Inr pf'"
    by (rule kept_rows, use that in \<open>auto simp: RetireService_def writeTx_def bind_result_Inr portfolio_simps
        ids_after_update split: if_splits\<close>)
qed

lemma circuit_requests:
  "handle p now (CreateCircuitReq c) pf = Inr pf' \<Longrightarrow> links_only_new pf pf'"
  "handle p now (CreateCircuitInProjectReq projectID c) pf = Inr pf' \<Longrightarrow> links_only_new pf pf'"
  "handle p now (UpdateCircuitReq c) pf = Inr pf' \<Longrightarrow> links_only_new pf pf'"
  "handle p now (RetireCircuitReq i) pf = Inr pf' \<Longrightarrow> links_only_new pf pf'"
proof -
  have grown: "set (entity_ids pf tb) \<subseteq> set (entity_ids pf1 tb)"
    if "pf_circuits pf1 = pf_circuits pf @ [r]" "pf_services pf1 = pf_services pf" "iv_assets (pf_inventory pf1) = iv_assets (pf_inventory pf)"
    for pf1 r tb using that by (cases tb) (auto simp: asset_ids_def)
  show "links_only_new pf pf'" if "handle p now (CreateCircuitReq c) pf = Inr pf'"
  proof -
    from that obtain t r where "insertCircuit t r pf = Inr pf'" by (auto simp: CreateCircuit_def writeTx_def bind_result_Inr Let_def)
    note eff = insertCircuit_effect [OF this]
    show ?thesis by (rule same_scope [OF eff(1) grown [OF eff(2-4)]])
  qed
  show "links_only_new pf pf'" if "handle p now (CreateCircuitInProjectReq projectID c) pf = Inr pf'"
  proof -
    from that obtain t r pf1 where ins: "insertCircuit t r pf = Inr pf1"
      and link: "insert_project_link ProjectCircuit t projectID (ci_ID r) pf1 = Inr pf'"
      by (fastforce simp: CreateCircuitInProject_def insertProjectCircuitLink_def writeTx_def bind_result_Inr Let_def split: option.splits if_splits)
    note eff = insertCircuit_effect [OF ins]
    show ?thesis by (rule created_and_linked [OF link eff(1) grown [OF eff(2-4)] _ eff(5)]) (simp add: eff(2))
  qed
  show "links_only_new pf pf'" if "handle p now (UpdateCircuitReq c) pf = Inr pf'"
    by (rule kept_rows, use that in \<open>auto simp: UpdateCircuit_def update_circuit_tx_def writeTx_def bind_result_Inr Let_def
        portfolio_simps ids_after_update split: option.splits\<close>)
  show "links_only_new pf pf'" if "handle p now (RetireCircuitReq i) pf = Inr pf'"
    by (rule kept_rows, use that in \<open>auto simp: RetireCircuit_def writeTx_def bind_result_Inr portfolio_simps
        ids_after_update split: if_splits\<close>)
qed

section \<open>Whole histories\<close>

lemma request_links:
  assumes "handle p now req pf = Inr pf'" "\<nexists>op. req = ProjectReq op"
  shows "links_only_new pf pf'"
  using assms by (cases req) (simp_all del: handle.simps add: asset_requests asset_in_project_request service_requests circuit_requests)

text \<open>What one request, and then a history of them, may add to what a group can write.\<close>

definition reach_grows_by_creation :: "string set \<Rightarrow> portfolio \<Rightarrow> portfolio \<Rightarrow> bool" where
  "reach_grows_by_creation us pf pf' \<longleftrightarrow>
     owner_scope (pf_estate pf') us \<subseteq>
       owner_scope (pf_estate pf) us \<union> {(tb, i). i \<in> set (entity_ids pf' tb) - set (entity_ids pf tb)}
     \<and> (\<forall>tb. set (entity_ids pf tb) \<subseteq> set (entity_ids pf' tb))
     \<and> es_projects (pf_estate pf') = es_projects (pf_estate pf)"

lemma owner_act_reach:
  assumes "owner_act admins us pf pf'" "\<forall>p \<in> set (es_projects (pf_estate pf)). CHR ''/'' \<notin> set (pr_ID p)"
  shows "reach_grows_by_creation us pf pf'"
  using assms(1)
proof (rule owner_actE)
  fix u p now req
  assume u: "usr_ID u \<in> us" "\<not> isAdministrator (NewAuthorizer admins (store_resolver (pf_estate pf))) u"
    "mintPermit (NewAuthorizer admins (store_resolver (pf_estate pf))) (Some u) = Inr p"
    and run: "handle (Some p) now req pf = Inr pf'"
  show ?thesis
  proof (cases "\<exists>op. req = ProjectReq op")
    case True
    then obtain op e where "run_op (Some p) now op (pf_estate pf) = Inr e"
      and pf': "pf' = pf\<lparr>pf_inventory := (pf_inventory pf)\<lparr>iv_estate := e\<rparr>\<rparr>"
      using run by (auto simp: with_estate_Inr)
    with u have "owner_step admins us (pf_estate pf) e" by (rule_tac owner_step.owner)
    from owner_step_scope [OF this assms(2)]
    have "owner_scope e us \<subseteq> owner_scope (pf_estate pf) us" "es_projects e = es_projects (pf_estate pf)" by auto
    moreover have "entity_ids pf' tb = entity_ids pf tb" for tb by (cases tb) (simp_all add: pf' asset_ids_def)
    ultimately show ?thesis by (auto simp: reach_grows_by_creation_def pf')
  next
    case False
    note links = request_links [OF run False, unfolded links_only_new_def]
    have "holds (pf_estate pf') v q = holds (pf_estate pf) v q" for v q
      using links by (simp add: holds_def live_project_def)
    with links show ?thesis unfolding reach_grows_by_creation_def owner_scope_def by blast
  qed
qed

lemma reach_trans:
  assumes "reach_grows_by_creation us a b" "reach_grows_by_creation us b c"
  shows "reach_grows_by_creation us a c"
proof -
  have ids: "set (entity_ids a tb) \<subseteq> set (entity_ids b tb)" "set (entity_ids b tb) \<subseteq> set (entity_ids c tb)" for tb
    using assms unfolding reach_grows_by_creation_def by blast+
  have "(tb, i) \<in> owner_scope (pf_estate a) us \<or> i \<in> set (entity_ids c tb) - set (entity_ids a tb)"
    if "(tb, i) \<in> owner_scope (pf_estate c) us" for tb i
  proof -
    from that assms(2) have "(tb, i) \<in> owner_scope (pf_estate b) us \<or> i \<in> set (entity_ids c tb) - set (entity_ids b tb)"
      unfolding reach_grows_by_creation_def by blast
    moreover have "(tb, i) \<in> owner_scope (pf_estate a) us \<or> i \<in> set (entity_ids b tb) - set (entity_ids a tb)"
      if "(tb, i) \<in> owner_scope (pf_estate b) us"
      using that assms(1) unfolding reach_grows_by_creation_def by blast
    ultimately show ?thesis using ids by blast
  qed
  then have "owner_scope (pf_estate c) us \<subseteq>
      owner_scope (pf_estate a) us \<union> {(tb, i). i \<in> set (entity_ids c tb) - set (entity_ids a tb)}" by auto
  moreover have "\<forall>tb. set (entity_ids a tb) \<subseteq> set (entity_ids c tb)" using ids by blast
  moreover have "es_projects (pf_estate c) = es_projects (pf_estate a)"
    using assms by (simp add: reach_grows_by_creation_def)
  ultimately show ?thesis unfolding reach_grows_by_creation_def by blast
qed

text \<open>
  Project owners cannot widen their reach over what exists: after any sequence of requests of a
  group of people who are not administrators, each under the permit minted for it, on projects,
  links, assignments, assets, services and circuits, creating inside a project included, an asset,
  service or circuit that somebody of the group may write as the owner of a project was so
  writable at the start or did not exist then. Project ids contain no slash, as the generated ids
  do not, and the requests run one after another. (C4)
\<close>

theorem owners_never_escalate:
  assumes "(owner_act admins us)\<^sup>*\<^sup>* pf pf'" "\<forall>p \<in> set (es_projects (pf_estate pf)). CHR ''/'' \<notin> set (pr_ID p)"
    and "(tb, i) \<in> owner_scope (pf_estate pf') us"
  shows "(tb, i) \<in> owner_scope (pf_estate pf) us \<or> i \<in> set (entity_ids pf' tb) \<and> i \<notin> set (entity_ids pf tb)"
proof -
  from assms(1) have "reach_grows_by_creation us pf pf'"
  proof (induction rule: rtranclp_induct)
    case base
    show ?case by (simp add: reach_grows_by_creation_def)
  next
    case (step b c)
    then have "es_projects (pf_estate b) = es_projects (pf_estate pf)" by (simp add: reach_grows_by_creation_def)
    with assms(2) owner_act_reach [OF step.hyps(2)] have "reach_grows_by_creation us b c" by simp
    with step.IH show ?case by (rule reach_trans)
  qed
  with assms(3) show ?thesis unfolding reach_grows_by_creation_def by blast
qed

text \<open>Pat, who owns a project, orders a circuit inside it and may then write that circuit.\<close>

definition demo_portfolio :: portfolio where
  "demo_portfolio =
     \<lparr>pf_inventory = demo_stock, pf_services = [], pf_circuits = [], pf_providers = [''carrier''], pf_serviceKinds = [''web''],
      pf_environments = [(''prod'', LifecycleActive)], pf_custom = (\<lambda>_. []), pf_tags = (\<lambda>_. [])\<rparr>"

definition demo_circuit :: circuit where
  "demo_circuit =
     \<lparr>ci_ID = ''c7'', ci_CID = ''LON-7'', ci_ProviderID = ''carrier'', ci_ServiceType = None, ci_CommitMbps = Some 100,
      ci_InstallDate = Some ''2026-01-05'', ci_ContractEnd = Some ''2029-01-05'', ci_Description = None,
      ci_Lifecycle = LifecycleActive, ci_CreatedAt = None, ci_UpdatedAt = None, ci_RowVersion = 0\<rparr>"

definition demo_ordered :: "portfolio result" where
  "demo_ordered =
     bind_result (mintPermit (NewAuthorizer [] (store_resolver (pf_estate demo_portfolio))) (Some demo_pat)) (\<lambda>p.
       handle (Some p) ''2026-01-02T09:00:00Z'' (CreateCircuitInProjectReq ''p1'' demo_circuit) demo_portfolio)"

lemma owner_scope_linked:
  "u \<in> us \<Longrightarrow> holds e u q \<Longrightarrow> linked e tb q i \<Longrightarrow> (tb, i) \<in> owner_scope e us"
  by (auto simp: owner_scope_def)

theorem owners_never_escalate_witness:
  "\<exists>pf. demo_ordered = Inr pf \<and> (ProjectCircuit, ''c7'') \<in> owner_scope (pf_estate pf) {''u1''}
     \<and> ((ProjectCircuit, ''c7'') \<in> owner_scope (pf_estate demo_portfolio) {''u1''}
        \<or> ''c7'' \<in> set (entity_ids pf ProjectCircuit) \<and> ''c7'' \<notin> set (entity_ids demo_portfolio ProjectCircuit))"
proof -
  have "case demo_ordered of Inl _ \<Rightarrow> False | Inr pf \<Rightarrow>
      holds (pf_estate pf) ''u1'' ''p1'' \<and> linked (pf_estate pf) ProjectCircuit ''p1'' ''c7''" by code_simp
  then obtain pf where pf: "demo_ordered = Inr pf" "holds (pf_estate pf) ''u1'' ''p1''" "linked (pf_estate pf) ProjectCircuit ''p1'' ''c7''"
    by (auto split: sum.splits)
  from pf(1) obtain p where mint: "mintPermit (NewAuthorizer [] (store_resolver (pf_estate demo_portfolio))) (Some demo_pat) = Inr p"
    and run: "handle (Some p) ''2026-01-02T09:00:00Z'' (CreateCircuitInProjectReq ''p1'' demo_circuit) demo_portfolio = Inr pf"
    unfolding demo_ordered_def bind_result_Inr by blast
  have "usr_ID demo_pat \<in> {''u1''}" "\<not> isAdministrator (NewAuthorizer [] (store_resolver (pf_estate demo_portfolio))) demo_pat"
    by code_simp+
  then have "(owner_act [] {''u1''})\<^sup>*\<^sup>* demo_portfolio pf"
    using mint run by (intro r_into_rtranclp) (rule owner_act.act)
  moreover have "\<forall>p \<in> set (es_projects (pf_estate demo_portfolio)). CHR ''/'' \<notin> set (pr_ID p)" by code_simp
  moreover have "(ProjectCircuit, ''c7'') \<in> owner_scope (pf_estate pf) {''u1''}" using pf(2,3) by (intro owner_scope_linked) simp_all
  ultimately show ?thesis using owners_never_escalate pf(1) by blast
qed

end
