(* ===== verification/Observed.thy ===== *)
theory Observed
  imports Complex_Main Actors Timestamp
begin

text \<open>
  What monitoring reports: health states, observations, flapping, staleness and operator overrides
  of internal/domain/observed.go, and the environment scopes and state vocabularies of
  internal/domain/agent.go. A time is a number of nanoseconds since the epoch; stored times are
  text.
\<close>

section \<open>Durations\<close>

definition Second :: int where "Second = 10 ^ 9"
definition Minute :: int where "Minute = 60 * Second"
definition Hour :: int where "Hour = 60 * Minute"

text \<open>\<open>Time.Sub\<close> saturates at the range of a duration.\<close>

definition duration_sub :: "int \<Rightarrow> int \<Rightarrow> int" where
  "duration_sub t u = max (- (2 ^ 63)) (min (2 ^ 63 - 1) (t - u))"

section \<open>Double-precision numbers\<close>

text \<open>
  The nearest double of a rational number that is at least one, ties to even: 53 significant bits.
  The comparison of the flap rate is the only arithmetic of this kind, and all its values are at
  least one.
\<close>

fun ilog2 :: "nat \<Rightarrow> nat" where
  "ilog2 n = (if n < 2 then 0 else Suc (ilog2 (n div 2)))"

declare ilog2.simps [simp del]

definition round_even :: "rat \<Rightarrow> int" where
  "round_even x =
     (let n = \<lfloor>x\<rfloor>; r = x - of_int n in
      if r < 1 / 2 then n else if 1 / 2 < r then n + 1 else if even n then n else n + 1)"

definition f64 :: "rat \<Rightarrow> rat" where
  "f64 x = (let e = ilog2 (nat \<lfloor>x\<rfloor>) in of_int (round_even (x * 2 ^ 52 / 2 ^ e)) * 2 ^ e / 2 ^ 52)"

section \<open>Health states\<close>

definition HealthUp :: string where "HealthUp = ''up''"
definition HealthDegraded :: string where "HealthDegraded = ''degraded''"
definition HealthDown :: string where "HealthDown = ''down''"
definition HealthUnknown :: string where "HealthUnknown = ''unknown''"

definition HealthStates :: "string list" where
  "HealthStates = [HealthUp, HealthDegraded, HealthDown, HealthUnknown]"

definition Valid :: "string \<Rightarrow> bool" where
  "Valid h \<longleftrightarrow> List.member HealthStates h"

text \<open>The state, or the errors of its check.\<close>

definition ParseHealthState :: "string \<Rightarrow> fieldError list" where
  "ParseHealthState v =
     (if Valid v then []
      else [(''state'', quoted v @ '' is not a health state; map it at the adapter to one of '' @ join '', '' HealthStates)])"

definition ObservableAsset :: string where "ObservableAsset = ''asset''"
definition ObservableServiceInstance :: string where "ObservableServiceInstance = ''service_instance''"

definition ObservableEntityTypes :: "string list" where
  "ObservableEntityTypes = [ObservableAsset, ObservableServiceInstance]"

definition TransitionChange :: string where "TransitionChange = ''transition''"
definition TransitionFlapOpen :: string where "TransitionFlapOpen = ''flap_open''"
definition TransitionFlapClose :: string where "TransitionFlapClose = ''flap_close''"

definition FlapThreshold :: int where "FlapThreshold = 5"
definition FlapWindow :: int where "FlapWindow = 5 * Minute"
definition MaxIntervalSeconds :: int where "MaxIntervalSeconds = 6 * 60 * 60"
definition MaxClockSkew :: int where "MaxClockSkew = 300 * Second"
definition StaleAfterIntervals :: int where "StaleAfterIntervals = 3"

section \<open>Observations\<close>

record observation =
  obs_ObservationID :: string
  obs_EntityType :: string
  obs_EntityID :: string
  obs_Reporter :: string
  obs_State :: string
  obs_ReportedAt :: string
  obs_IntervalSeconds :: int

record observationSpec =
  spec_ObservationID :: string
  spec_EntityType :: string
  spec_EntityID :: string
  spec_State :: string
  spec_ReportedAt :: string
  spec_IntervalSeconds :: int

definition checkReporter :: "string \<Rightarrow> string \<Rightarrow> fieldError list" where
  "checkReporter field reporter =
     (let trimmed = trim_space reporter in
      if trimmed = [] then checkRequired field reporter
      else
        (if contains_any trimmed reserved_bytes then [(field, ''must not contain a colon or whitespace'')] else [])
        @ (if trimmed \<noteq> to_lower trimmed
           then [(field, ''must be lower case, like every other identifier read from the environment'')] else []))"

text \<open>
  The reported time that is stored, with the errors of its check: the text as it came, or the
  server's own time for a clock slightly ahead.
\<close>

definition check_reported_at :: "string \<Rightarrow> int \<Rightarrow> string \<times> fieldError list" where
  "check_reported_at s now =
     (let reportedAt = trim_space s in
      if reportedAt = [] then (reportedAt, checkRequired ''reported_at'' s)
      else
        (case ParseTime reportedAt of
           None \<Rightarrow> (reportedAt, [(''reported_at'', ''must be RFC3339 UTC to the second, like 2006-01-02T15:04:05Z'')])
         | Some t \<Rightarrow>
             if now + MaxClockSkew < t then (reportedAt, [(''reported_at'', ''is more than 5m0s ahead of the server clock'')])
             else if now < t then (FormatTime now, [])
             else (reportedAt, [])))"

definition check_interval :: "int \<Rightarrow> fieldError list" where
  "check_interval n =
     (if n \<le> 0 then [(''interval_seconds'', ''is required and must be positive: without a declared cadence a reading can never be shown as stale'')]
      else if MaxIntervalSeconds < n then
        [(''interval_seconds'', ''is '' @ itoa n @ '', above the '' @ itoa MaxIntervalSeconds
            @ '' second ceiling: a reporter may not declare its own staleness horizon'')]
      else [])"

definition NewObservation :: "observationSpec \<Rightarrow> string \<Rightarrow> int \<Rightarrow> observation result" where
  "NewObservation spec reporter now =
     validated
       (checkEnum ''entity_type'' (spec_EntityType spec) ObservableEntityTypes
        @ checkRequired ''entity_id'' (spec_EntityID spec) @ checkReporter ''reporter'' reporter
        @ ParseHealthState (spec_State spec) @ snd (check_reported_at (spec_ReportedAt spec) now)
        @ check_interval (spec_IntervalSeconds spec))
       \<lparr>obs_ObservationID = trim_space (spec_ObservationID spec), obs_EntityType = spec_EntityType spec,
        obs_EntityID = trim_space (spec_EntityID spec), obs_Reporter = trim_space reporter, obs_State = spec_State spec,
        obs_ReportedAt = fst (check_reported_at (spec_ReportedAt spec) now),
        obs_IntervalSeconds = spec_IntervalSeconds spec\<rparr>"

text \<open>Stored times compare as text.\<close>

definition Supersedes :: "observation \<Rightarrow> string \<Rightarrow> bool" where
  "Supersedes obs storedReportedAt \<longleftrightarrow> storedReportedAt < obs_ReportedAt obs"

section \<open>Readings\<close>

record assetHealth =
  ah_EntityType :: string
  ah_EntityID :: string
  ah_Reporter :: string
  ah_State :: string
  ah_StateSince :: string
  ah_ReportedAt :: string
  ah_LastReportAt :: string
  ah_IntervalSeconds :: "int option"
  ah_ObservationID :: "string option"
  ah_FlapSince :: "string option"
  ah_FlapCount :: "int option"
  ah_FlapFirstState :: "string option"
  ah_FlapSeen :: "string option"

definition Flapping :: "assetHealth \<Rightarrow> bool" where
  "Flapping h \<longleftrightarrow> (case ah_FlapSince h of None \<Rightarrow> False | Some s \<Rightarrow> s \<noteq> [])"

definition FlapOpenedAt :: "assetHealth \<Rightarrow> string" where
  "FlapOpenedAt h = (if \<not> Flapping h then [] else (case ah_FlapSince h of None \<Rightarrow> [] | Some s \<Rightarrow> s))"

definition FlapTransitions :: "assetHealth \<Rightarrow> int" where
  "FlapTransitions h = (case ah_FlapCount h of None \<Rightarrow> 0 | Some n \<Rightarrow> n)"

text \<open>Canonical order, each state once.\<close>

definition EncodeHealthStates :: "string list \<Rightarrow> string" where
  "EncodeHealthStates states = join '','' (filter (\<lambda>s. List.member states s) HealthStates)"

definition DecodeHealthStates :: "string \<Rightarrow> string list" where
  "DecodeHealthStates v = (if v = [] then [] else filter Valid (split_at CHR '','' v))"

definition FlapStates :: "assetHealth \<Rightarrow> string list" where
  "FlapStates h = (case ah_FlapSeen h of None \<Rightarrow> [] | Some v \<Rightarrow> DecodeHealthStates v)"

definition SawDuringEpisode :: "assetHealth \<Rightarrow> string \<Rightarrow> bool" where
  "SawDuringEpisode h state \<longleftrightarrow> List.member (FlapStates h) state"

text \<open>
  \<open>float64(*h.FlapCount) >= float64(FlapThreshold)*windows*FlapCloseHysteresis\<close>, each operation rounded;
  halving is exact.
\<close>

definition rate_qualifies :: "int \<Rightarrow> int \<Rightarrow> bool" where
  "rate_qualifies n elapsed \<longleftrightarrow>
     (let windows = f64 (f64 (of_int elapsed) / of_int FlapWindow) in
      f64 (of_int FlapThreshold * windows) / 2 \<le> (if n < 1 then of_int n else f64 (of_int n)))"

definition FlapRateQualifies :: "assetHealth \<Rightarrow> int \<Rightarrow> bool" where
  "FlapRateQualifies h now =
     (case (ah_FlapCount h, ah_FlapSince h) of
        (Some n, Some text) \<Rightarrow>
          (case ParseTime text of
             None \<Rightarrow> False
           | Some since \<Rightarrow>
               let elapsed = duration_sub now since in
               elapsed \<le> FlapWindow \<or> rate_qualifies n elapsed)
      | _ \<Rightarrow> False)"

definition FlapSettled :: "assetHealth \<Rightarrow> int \<Rightarrow> bool" where
  "FlapSettled h now =
     (if \<not> Flapping h then False
      else
        (case ParseTime (ah_StateSince h) of
           None \<Rightarrow> True
         | Some since \<Rightarrow> since + FlapWindow \<le> now \<or> \<not> FlapRateQualifies h now))"

definition FlapQualifies :: "int \<Rightarrow> bool" where
  "FlapQualifies transitionsInWindow \<longleftrightarrow> FlapThreshold < transitionsInWindow"

definition FlapWindowStart :: "int \<Rightarrow> int" where
  "FlapWindowStart now = now - FlapWindow"

definition StaleAfter :: "assetHealth \<Rightarrow> int option" where
  "StaleAfter h =
     (case ah_IntervalSeconds h of
        None \<Rightarrow> None
      | Some n \<Rightarrow>
          if n \<le> 0 then None
          else map_option (\<lambda>last. last + i64 (i64 (StaleAfterIntervals * n) * Second)) (ParseTime (ah_LastReportAt h)))"

definition IsStale :: "assetHealth \<Rightarrow> int \<Rightarrow> bool" where
  "IsStale h now = (case StaleAfter h of None \<Rightarrow> True | Some horizon \<Rightarrow> horizon < now)"

definition DisplayState :: "assetHealth \<Rightarrow> int \<Rightarrow> string" where
  "DisplayState h now = (if IsStale h now then HealthUnknown else ah_State h)"

record observedTransition =
  ot_EntityType :: string
  ot_EntityID :: string
  ot_Reporter :: string
  ot_Kind :: string
  ot_FromState :: "string option"
  ot_ToState :: string
  ot_At :: string
  ot_FlapCount :: "int option"
  ot_WindowStart :: "string option"
  ot_WindowEnd :: "string option"
  ot_FirstState :: "string option"
  ot_LastState :: "string option"
  ot_SettledState :: "string option"

record unmatchedObservation =
  um_EntityType :: string
  um_EntityRef :: string
  um_Reporter :: string
  um_State :: string
  um_ReportedAt :: string
  um_FirstSeenAt :: string
  um_LastSeenAt :: string
  um_ReportCount :: int

section \<open>Overrides\<close>

definition OverrideActive :: string where "OverrideActive = ''active''"
definition OverrideCleared :: string where "OverrideCleared = ''cleared''"

definition OverrideLifecycles :: "string list" where
  "OverrideLifecycles = [OverrideActive, OverrideCleared]"

definition MaxOverrideDuration :: int where "MaxOverrideDuration = 24 * Hour"

record healthOverride =
  ho_ID :: string
  ho_EntityType :: string
  ho_EntityID :: string
  ho_AssertedState :: string
  ho_Reason :: string
  ho_Actor :: string
  ho_Lifecycle :: string
  ho_CreatedAt :: string
  ho_UpdatedAt :: string
  ho_ExpiresAt :: string

record healthOverrideSpec =
  hs_EntityType :: string
  hs_EntityID :: string
  hs_AssertedState :: string
  hs_Reason :: string
  hs_ExpiresAt :: int

text \<open>The zero \<open>time.Time\<close>, the first instant of year 1.\<close>

definition zero_time :: int where
  "zero_time = - 62135596800 * Second"

text \<open>\<open>Validate\<close>: its errors, and the override with its reason trimmed.\<close>

definition override_errors :: "healthOverride \<Rightarrow> fieldError list" where
  "override_errors ov =
     checkEnum ''entity_type'' (ho_EntityType ov) ObservableEntityTypes
     @ checkRequired ''entity_id'' (ho_EntityID ov)
     @ checkEnum ''lifecycle'' (ho_Lifecycle ov) OverrideLifecycles
     @ (if Valid (ho_AssertedState ov) then [] else checkEnum ''asserted_state'' (ho_AssertedState ov) HealthStates)
     @ checkRequired ''reason'' (ho_Reason ov)
     @ checkRequired ''actor'' (ho_Actor ov)
     @ (if ho_ExpiresAt ov \<le> ho_CreatedAt ov then [(''expires_at'', ''must be after the override was created'')] else [])
     @ (let baseline = (if ho_CreatedAt ov < ho_UpdatedAt ov then ho_UpdatedAt ov else ho_CreatedAt ov) in
        case (ParseTime baseline, ParseTime (ho_ExpiresAt ov)) of
          (Some decided, Some expires) \<Rightarrow>
            if MaxOverrideDuration < duration_sub expires decided
            then [(''expires_at'', ''is more than 24h0m0s after the last decision: an override that outlives an incident hides the next one'')]
            else []
        | _ \<Rightarrow> [])"

definition trim_reason :: "healthOverride \<Rightarrow> healthOverride" where
  "trim_reason ov = ov\<lparr>ho_Reason := trim_space (ho_Reason ov)\<rparr>"

definition check_expiry :: "int \<Rightarrow> int \<Rightarrow> fieldError list" where
  "check_expiry expires now =
     (if expires = zero_time then [(''expires_at'', ''is required: an override with no end is how a real outage stays invisible for six weeks'')]
      else if expires \<le> now then [(''expires_at'', ''must be in the future'')]
      else if now + MaxOverrideDuration < expires then [(''expires_at'', ''must be no more than 24h0m0s from now'')]
      else [])"

definition asserted_errors :: "string \<Rightarrow> fieldError list" where
  "asserted_errors state = map (\<lambda>(f, m). (''asserted_state'', m)) (ParseHealthState state)"

definition NewHealthOverride :: "string \<Rightarrow> healthOverrideSpec \<Rightarrow> actor \<Rightarrow> int \<Rightarrow> healthOverride result" where
  "NewHealthOverride oid spec actor now =
     (let ov = \<lparr>ho_ID = oid, ho_EntityType = hs_EntityType spec, ho_EntityID = hs_EntityID spec,
           ho_AssertedState = (if Valid (hs_AssertedState spec) then hs_AssertedState spec else []),
           ho_Reason = hs_Reason spec, ho_Actor = trim_space (act_ID actor), ho_Lifecycle = OverrideActive,
           ho_CreatedAt = FormatTime now, ho_UpdatedAt = FormatTime now, ho_ExpiresAt = FormatTime (hs_ExpiresAt spec)\<rparr> in
      validated
        ((if act_Kind actor \<noteq> ActorKindUser
          then [(''actor'', ''only a signed-in operator may override an observation, not a '' @ act_Kind actor @ '' actor'')] else [])
         @ checkRequired ''actor'' (act_ID actor)
         @ asserted_errors (hs_AssertedState spec) @ check_expiry (hs_ExpiresAt spec) now @ override_errors ov)
        (trim_reason ov))"

definition Amend :: "healthOverride \<Rightarrow> healthOverrideSpec \<Rightarrow> actor \<Rightarrow> int \<Rightarrow> healthOverride result" where
  "Amend ov spec actor now =
     bind_result (validated
        ((if act_Kind actor \<noteq> ActorKindUser
          then [(''actor'', ''only a signed-in operator may amend an override, not a '' @ act_Kind actor @ '' actor'')] else [])
         @ (if ho_Lifecycle ov \<noteq> OverrideActive
            then [(''lifecycle'', ''this override has been cleared; write a new one and say why'')] else [])
         @ asserted_errors (hs_AssertedState spec) @ check_expiry (hs_ExpiresAt spec) now) ()) (\<lambda>_.
       let amended = ov\<lparr>ho_AssertedState := hs_AssertedState spec, ho_Reason := hs_Reason spec,
             ho_ExpiresAt := FormatTime (hs_ExpiresAt spec), ho_UpdatedAt := FormatTime now\<rparr> in
       validated (override_errors amended) (trim_reason amended))"

definition Clear :: "healthOverride \<Rightarrow> actor \<Rightarrow> int \<Rightarrow> healthOverride result" where
  "Clear ov actor now =
     validated
       ((if act_Kind actor \<noteq> ActorKindUser
         then [(''actor'', ''only a signed-in operator may clear an override, not a '' @ act_Kind actor @ '' actor'')] else [])
        @ (if ho_Lifecycle ov \<noteq> OverrideActive then [(''lifecycle'', ''this override has already been cleared'')] else []))
       (ov\<lparr>ho_Lifecycle := OverrideCleared, ho_UpdatedAt := FormatTime now\<rparr>)"

definition IsActiveAt :: "healthOverride \<Rightarrow> int \<Rightarrow> bool" where
  "IsActiveAt ov now \<longleftrightarrow> ho_Lifecycle ov = OverrideActive \<and> FormatTime now < ho_ExpiresAt ov"

definition noon :: int where "noon = 1767268800 * 10 ^ 9"

section \<open>Episode states\<close>

text \<open>
  The states of an episode survive their column: decoding the encoded text gives the states that
  were encoded, each once and in the canonical order.
\<close>

theorem seen_states_roundtrip:
  "DecodeHealthStates (EncodeHealthStates states) = filter (\<lambda>s. s \<in> set states) HealthStates"
proof -
  let ?ps = "filter (\<lambda>s. s \<in> set states) HealthStates"
  have words: "list_all (\<lambda>s. CHR '','' \<notin> set s \<and> s \<noteq> []) HealthStates" by code_simp
  have enc: "EncodeHealthStates states = join '','' ?ps" by (simp add: EncodeHealthStates_def)
  have valid: "filter Valid ?ps = ?ps" unfolding filter_id_conv by (simp add: Valid_def)
  show ?thesis
  proof (cases "?ps = []")
    case True
    then show ?thesis unfolding enc DecodeHealthStates_def by simp
  next
    case False
    have split: "split_at CHR '','' (join '','' ?ps) = ?ps"
      by (rule split_at_join [OF False]) (use words in \<open>auto simp: list_all_iff\<close>)
    have "join '','' ?ps \<noteq> []"
    proof
      assume "join '','' ?ps = []"
      with split have "?ps = [[]]" by simp
      then have "[] \<in> set ?ps" by simp
      then have "[] \<in> set HealthStates" by simp
      with words show False by (auto simp: list_all_iff)
    qed
    then show ?thesis unfolding enc DecodeHealthStates_def by (simp only: split valid if_False)
  qed
qed

section \<open>Overrides\<close>

lemma active_before_expiry:
  assumes "ho_ExpiresAt ov = FormatTime x" "IsActiveAt ov t" "storable t" "storable x"
  shows "t < x"
proof -
  have "t div 10 ^ 9 < x div 10 ^ 9" using assms FormatTime_less_iff by (simp add: IsActiveAt_def)
  then show ?thesis by (metis linorder_not_le zdiv_mono1 zero_less_numeral zero_less_power)
qed

text \<open>
  An override never outlives a day: after an override is written or amended, it is in force only
  before the end that the operator gave, and less than 24 hours after that decision; once cleared
  it is never in force.
\<close>

theorem override_is_bounded:
  assumes "NewHealthOverride oid spec actor now = Inr ov \<or> Amend ov0 spec actor now = Inr ov"
    and "storable (hs_ExpiresAt spec)" "storable t"
  shows "(IsActiveAt ov t \<longrightarrow> t < hs_ExpiresAt spec \<and> t < now + MaxOverrideDuration)
     \<and> (\<forall>actor2 now2 ov2. Clear ov actor2 now2 = Inr ov2 \<longrightarrow> \<not> IsActiveAt ov2 t)"
proof -
  have exp: "ho_ExpiresAt ov = FormatTime (hs_ExpiresAt spec)" "hs_ExpiresAt spec \<le> now + MaxOverrideDuration"
    using assms(1)
    by (auto simp: NewHealthOverride_def Amend_def Let_def bind_result_Inr trim_reason_def check_expiry_def split: if_splits)
  moreover have "\<not> IsActiveAt ov2 t" if "Clear ov actor2 now2 = Inr ov2" for actor2 now2 ov2
    using that by (auto simp: Clear_def IsActiveAt_def OverrideActive_def OverrideCleared_def)
  ultimately show ?thesis using active_before_expiry [OF exp(1) _ assms(3,2)] by fastforce
qed

theorem override_is_bounded_witness:
  "\<not> IsActiveAt \<lparr>ho_ID = ''o1'', ho_EntityType = ''asset'', ho_EntityID = ''a1'', ho_AssertedState = ''up'', ho_Reason = ''planned work'',
       ho_Actor = ''u1'', ho_Lifecycle = OverrideActive, ho_CreatedAt = FormatTime noon, ho_UpdatedAt = FormatTime noon,
       ho_ExpiresAt = FormatTime (noon + Hour)\<rparr> (noon + 25 * Hour)"
proof -
  let ?spec = "\<lparr>hs_EntityType = ''asset'', hs_EntityID = ''a1'', hs_AssertedState = ''up'', hs_Reason = ''planned work'',
      hs_ExpiresAt = noon + Hour\<rparr>"
  let ?ov = "\<lparr>ho_ID = ''o1'', ho_EntityType = ''asset'', ho_EntityID = ''a1'', ho_AssertedState = ''up'', ho_Reason = ''planned work'',
       ho_Actor = ''u1'', ho_Lifecycle = OverrideActive, ho_CreatedAt = FormatTime noon, ho_UpdatedAt = FormatTime noon,
       ho_ExpiresAt = FormatTime (noon + Hour)\<rparr>"
  have new: "NewHealthOverride ''o1'' ?spec \<lparr>act_ID = ''u1'', act_Name = ''ana'', act_Kind = ActorKindUser\<rparr> noon = Inr ?ov"
    by code_simp
  have st: "storable (hs_ExpiresAt ?spec)" "storable (noon + 25 * Hour)" "\<not> noon + 25 * Hour < noon + MaxOverrideDuration"
    by code_simp+
  from override_is_bounded [OF disjI1 [OF new] st(1,2)] st(3) show ?thesis by blast
qed

end
