(* ===== verification/Agents.thy ===== *)
theory Agents
  imports Observed
begin

text \<open>
  What a monitoring credential may say: environment scopes and state vocabularies of
  internal/domain/agent.go.
\<close>

section \<open>Scopes\<close>

type_synonym environmentScope = "string list"

definition code_separators :: "char list" where
  "code_separators = [CHR '','', CHR '':'', CHR ''|'', CHR '' '', CHR 0x09, CHR 0x0A]"

fun scope_codes :: "string list \<Rightarrow> string list \<Rightarrow> fieldError list \<Rightarrow> string list \<times> fieldError list" where
  "scope_codes [] out ve = (out, ve)"
| "scope_codes (raw # codes) out ve =
     (let code = to_lower (trim_space raw) in
      if code = [] then scope_codes codes out ve
      else if contains_any code code_separators
      then scope_codes codes out (ve @ [(''environments'', quoted code @ '' is not an environment code'')])
      else if List.member out code then scope_codes codes out ve
      else scope_codes codes (out @ [code]) ve)"

definition NewEnvironmentScope :: "string list \<Rightarrow> environmentScope result" where
  "NewEnvironmentScope codes =
     (let (out, ve) = scope_codes codes [] [] in
      validated
        (ve @ (if out = [] then [(''environments'', ''a monitoring credential must be scoped to at least one environment; there is no wildcard'')] else []))
        (sort out))"

definition IsEmpty :: "environmentScope \<Rightarrow> bool" where
  "IsEmpty s \<longleftrightarrow> s = []"

definition Canonical :: "environmentScope \<Rightarrow> string \<Rightarrow> string option" where
  "Canonical s code = find (\<lambda>c. c = to_lower (trim_space code)) s"

definition Allows :: "environmentScope \<Rightarrow> string \<Rightarrow> bool" where
  "Allows s code \<longleftrightarrow> Canonical s code \<noteq> None"

definition AllowsAny :: "environmentScope \<Rightarrow> string list \<Rightarrow> bool" where
  "AllowsAny s codes \<longleftrightarrow> list_ex (Allows s) codes"

definition AllowsAll :: "environmentScope \<Rightarrow> string list \<Rightarrow> bool" where
  "AllowsAll s codes \<longleftrightarrow> codes \<noteq> [] \<and> list_all (Allows s) codes"

section \<open>Vocabularies\<close>

record healthVocabulary =
  hv_name :: string
  hv_words :: "string gomap"

definition VocabularyInvctl :: string where "VocabularyInvctl = ''invctl''"

definition healthVocabularies :: "healthVocabulary gomap" where
  "healthVocabularies =
     [(VocabularyInvctl, \<lparr>hv_name = VocabularyInvctl,
        hv_words = [(HealthUp, HealthUp), (HealthDegraded, HealthDegraded), (HealthDown, HealthDown), (HealthUnknown, HealthUnknown)]\<rparr>),
      (''prometheus'', \<lparr>hv_name = ''prometheus'',
        hv_words = [(''firing'', HealthDown), (''pending'', HealthDegraded), (''inactive'', HealthUp), (''resolved'', HealthUp)]\<rparr>),
      (''kubernetes'', \<lparr>hv_name = ''kubernetes'',
        hv_words = [(''Ready'', HealthUp), (''NotReady'', HealthDown), (''SchedulingDisabled'', HealthDegraded), (''Unknown'', HealthUnknown)]\<rparr>),
      (''nagios'', \<lparr>hv_name = ''nagios'',
        hv_words = [(''0'', HealthUp), (''1'', HealthDegraded), (''2'', HealthDown), (''3'', HealthUnknown)]\<rparr>)]"

definition EchoLimit :: nat where "EchoLimit = 64"

definition Echo :: "string \<Rightarrow> string" where
  "Echo v = (if length v \<le> EchoLimit then v else take EchoLimit v @ ''...'')"

definition vocabularyName :: "healthVocabulary \<Rightarrow> string" where
  "vocabularyName v = (if hv_name v = [] then ''(unset)'' else hv_name v)"

definition Map :: "healthVocabulary \<Rightarrow> string \<Rightarrow> string result" where
  "Map v raw =
     (case map_of (hv_words v) raw of
        Some state \<Rightarrow> Inr state
      | None \<Rightarrow> Inl (ErrInvalid [(''state'', quoted (Echo raw) @ '' is not a state in the '' @ vocabularyName v
                  @ '' vocabulary; map it at the adapter to one of '' @ join '', '' HealthStates)]))"

definition Words :: "healthVocabulary \<Rightarrow> string list" where
  "Words v = sort (keys (hv_words v))"

definition VocabularyNames :: "string list" where
  "VocabularyNames = sort (keys healthVocabularies)"

definition LookupVocabulary :: "string \<Rightarrow> healthVocabulary result" where
  "LookupVocabulary name =
     (let look = map_of healthVocabularies (if trim_space name = [] then VocabularyInvctl else name) in
      case look of Some v \<Rightarrow> Inr v | None \<Rightarrow> Inl (ErrInvalid []))"

section \<open>Properties\<close>

lemma scope_codes_distinct:
  "distinct out \<Longrightarrow> [] \<notin> set out \<Longrightarrow>
     distinct (fst (scope_codes codes out ve)) \<and> [] \<notin> set (fst (scope_codes codes out ve))"
proof (induction codes arbitrary: out ve)
  case (Cons raw codes)
  let ?code = "to_lower (trim_space raw)"
  consider "?code = []" | "?code \<noteq> []" "contains_any ?code code_separators"
    | "?code \<noteq> []" "\<not> contains_any ?code code_separators" "?code \<in> set out"
    | "?code \<noteq> []" "\<not> contains_any ?code code_separators" "?code \<notin> set out" by blast
  then show ?case using Cons by cases (simp_all del: contains_any_iff)
qed simp

text \<open>
  A scope never admits more than it lists: a credential reports on an entity only when every
  environment of the entity is among the codes of its scope, an entity in no environment is refused
  to all, and a scope that validates is a sorted list of distinct, non-empty codes.
\<close>

theorem scope_is_closed:
  assumes "NewEnvironmentScope codes = Inr s"
  shows "sorted s \<and> distinct s \<and> s \<noteq> [] \<and> [] \<notin> set s \<and> \<not> AllowsAll s []
     \<and> (\<forall>envs. AllowsAll s envs \<longrightarrow> (\<lambda>e. to_lower (trim_space e)) ` set envs \<subseteq> set s)"
proof -
  obtain out ve where sc: "scope_codes codes [] [] = (out, ve)" by (cases "scope_codes codes [] []")
  with assms have s: "s = sort out" "out \<noteq> []" by (auto simp: NewEnvironmentScope_def split: if_splits)
  moreover have "distinct out" "[] \<notin> set out" using scope_codes_distinct [of "[]" codes "[]"] sc by simp_all
  moreover have "sort out \<noteq> []" using s(2) by (metis set_empty set_sort)
  moreover have "to_lower (trim_space e) \<in> set s" if "Allows s e" for e
    using that by (auto simp: Allows_def Canonical_def find_None_iff)
  ultimately show ?thesis by (auto simp: AllowsAll_def list_all_iff)
qed

theorem scope_is_closed_witness:
  "\<exists>s. NewEnvironmentScope ['' Prod '', ''dev'', ''prod''] = Inr s \<and> distinct s \<and> \<not> AllowsAll s []"
proof -
  have "case NewEnvironmentScope ['' Prod '', ''dev'', ''prod''] of Inl _ \<Rightarrow> False | Inr _ \<Rightarrow> True" by code_simp
  then obtain s where "NewEnvironmentScope ['' Prod '', ''dev'', ''prod''] = Inr s" by (auto split: sum.splits)
  with scope_is_closed [OF this] show ?thesis by blast
qed

text \<open>Every word of every vocabulary means a health state.\<close>

lemma vocabulary_total:
  assumes "LookupVocabulary name = Inr v" "Map v raw = Inr state"
  shows "Valid state"
proof -
  have words: "\<forall>(n, v) \<in> set healthVocabularies. \<forall>(w, s) \<in> set (hv_words v). Valid s" by code_simp
  obtain n where "(n, v) \<in> set healthVocabularies"
    using assms(1) by (auto simp: LookupVocabulary_def Let_def dest!: map_of_SomeD split: option.splits)
  moreover have "(raw, state) \<in> set (hv_words v)"
    using assms(2) by (auto simp: Map_def dest!: map_of_SomeD split: option.splits)
  ultimately show ?thesis using words by fastforce
qed

end
