(* ===== verification/Recorder.thy ===== *)
theory Recorder
  imports Agents
begin

text \<open>
  The recorder of observed health: internal/store/observed.go. The state is the three tables it
  writes, the rows of the inventory it looks up and the in-memory buffer of a recorder. Each
  database transaction is one function on the state; a report runs at most one of them after
  reading the buffer, so that any interleaving of reports and flushes is a sequence of these
  functions.
\<close>

section \<open>State\<close>

record healthKey =
  hk_EntityType :: string
  hk_EntityID :: string
  hk_Reporter :: string

record pendingBump =
  pb_reportedAt :: string
  pb_lastReportAt :: string
  pb_observationID :: string
  pb_intervalSeconds :: int

text \<open>
  \<open>rs_instances\<close> pairs a service instance with its host asset, \<open>rs_environments\<close> an asset with the
  codes of its environments in order.
\<close>

record recorder =
  rs_health :: "assetHealth list"
  rs_transitions :: "observedTransition list"
  rs_unmatched :: "unmatchedObservation list"
  rs_assets :: "string list"
  rs_instances :: "(string \<times> string) list"
  rs_environments :: "string \<Rightarrow> string list"
  rs_pending :: "(healthKey \<times> pendingBump) list"

datatype disposition = ObservationTransitioned | ObservationUnchanged | ObservationDuplicate | ObservationStale

record observedReading =
  or_Health :: assetHealth
  or_Display :: string
  or_Stale :: bool
  or_StaleSince :: string

record observationResult =
  res_Disposition :: disposition
  res_Reading :: "observedReading option"

definition key_of :: "assetHealth \<Rightarrow> healthKey" where
  "key_of h = \<lparr>hk_EntityType = ah_EntityType h, hk_EntityID = ah_EntityID h, hk_Reporter = ah_Reporter h\<rparr>"

definition obs_key :: "observation \<Rightarrow> healthKey" where
  "obs_key obs = \<lparr>hk_EntityType = obs_EntityType obs, hk_EntityID = obs_EntityID obs, hk_Reporter = obs_Reporter obs\<rparr>"

definition transition_key :: "observedTransition \<Rightarrow> healthKey" where
  "transition_key t = \<lparr>hk_EntityType = ot_EntityType t, hk_EntityID = ot_EntityID t, hk_Reporter = ot_Reporter t\<rparr>"

definition readHealth :: "recorder \<Rightarrow> healthKey \<Rightarrow> assetHealth option" where
  "readHealth st key = find (\<lambda>h. key_of h = key) (rs_health st)"

section \<open>Readings\<close>

definition newObservedReading :: "assetHealth \<Rightarrow> int \<Rightarrow> observedReading" where
  "newObservedReading h now =
     \<lparr>or_Health = h, or_Display = DisplayState h now, or_Stale = IsStale h now,
      or_StaleSince =
        (if \<not> IsStale h now then []
         else (case StaleAfter h of Some horizon \<Rightarrow> FormatTime horizon | None \<Rightarrow> ah_LastReportAt h))\<rparr>"

definition settled :: "disposition \<Rightarrow> assetHealth option \<Rightarrow> int \<Rightarrow> observationResult" where
  "settled d health now = \<lparr>res_Disposition = d, res_Reading = map_option (\<lambda>h. newObservedReading h now) health\<rparr>"

definition optionalText :: "string \<Rightarrow> string option" where
  "optionalText v = (if v = [] then None else Some v)"

definition bumpFor :: "observation \<Rightarrow> int \<Rightarrow> pendingBump" where
  "bumpFor obs now =
     \<lparr>pb_reportedAt = obs_ReportedAt obs, pb_lastReportAt = FormatTime now,
      pb_observationID = obs_ObservationID obs, pb_intervalSeconds = obs_IntervalSeconds obs\<rparr>"

definition applyBump :: "assetHealth \<Rightarrow> pendingBump \<Rightarrow> assetHealth" where
  "applyBump stored bump =
     stored\<lparr>ah_ReportedAt := (if ah_ReportedAt stored < pb_reportedAt bump then pb_reportedAt bump else ah_ReportedAt stored),
       ah_LastReportAt := (if ah_LastReportAt stored < pb_lastReportAt bump then pb_lastReportAt bump else ah_LastReportAt stored),
       ah_ObservationID := optionalText (pb_observationID bump),
       ah_IntervalSeconds := (if 0 < pb_intervalSeconds bump then Some (pb_intervalSeconds bump) else ah_IntervalSeconds stored)\<rparr>"

text \<open>The stored row under the buffered report.\<close>

definition currentReading :: "recorder \<Rightarrow> healthKey \<Rightarrow> assetHealth option" where
  "currentReading st key =
     (case readHealth st key of
        None \<Rightarrow> None
      | Some stored \<Rightarrow>
          (case map_of (rs_pending st) key of None \<Rightarrow> Some stored | Some bump \<Rightarrow> Some (applyBump stored bump)))"

definition classify :: "observation \<Rightarrow> assetHealth option \<Rightarrow> disposition" where
  "classify obs current =
     (case current of
        None \<Rightarrow> ObservationTransitioned
      | Some h \<Rightarrow>
          if obs_ObservationID obs \<noteq> [] \<and> ah_ObservationID h = Some (obs_ObservationID obs) then ObservationDuplicate
          else if \<not> Supersedes obs (ah_ReportedAt h) then ObservationStale
          else if ah_State h \<noteq> obs_State obs then ObservationTransitioned
          else ObservationUnchanged)"

section \<open>Flapping\<close>

record flapEpisode =
  fe_since :: string
  fe_count :: int
  fe_first :: string
  fe_seen :: "string list"

definition no_episode :: flapEpisode where
  "no_episode = \<lparr>fe_since = [], fe_count = 0, fe_first = [], fe_seen = []\<rparr>"

definition episode_open :: "flapEpisode \<Rightarrow> bool" where
  "episode_open e \<longleftrightarrow> fe_since e \<noteq> []"

definition applyTo :: "flapEpisode \<Rightarrow> assetHealth \<Rightarrow> assetHealth" where
  "applyTo e h =
     (if \<not> episode_open e
      then h\<lparr>ah_FlapSince := None, ah_FlapCount := None, ah_FlapFirstState := None, ah_FlapSeen := None\<rparr>
      else h\<lparr>ah_FlapSince := Some (fe_since e), ah_FlapCount := Some (fe_count e),
             ah_FlapFirstState := Some (fe_first e), ah_FlapSeen := Some (EncodeHealthStates (fe_seen e))\<rparr>)"

definition withState :: "flapEpisode \<Rightarrow> string \<Rightarrow> flapEpisode" where
  "withState e state = e\<lparr>fe_count := fe_count e + 1, fe_seen := fe_seen e @ [state]\<rparr>"

definition episodeFrom :: "assetHealth \<Rightarrow> flapEpisode" where
  "episodeFrom h =
     (if \<not> Flapping h then no_episode
      else \<lparr>fe_since = FlapOpenedAt h, fe_count = FlapTransitions h,
            fe_first = (case ah_FlapFirstState h of None \<Rightarrow> [] | Some s \<Rightarrow> s), fe_seen = FlapStates h\<rparr>)"

record flapClosure =
  fc_episode :: flapEpisode
  fc_last :: string
  fc_settled :: string

record flapPlan =
  fp_closing :: "flapClosure option"
  fp_opens :: bool
  fp_emit :: bool
  fp_episode :: flapEpisode

definition planFlap :: "assetHealth option \<Rightarrow> string \<Rightarrow> string \<Rightarrow> int \<Rightarrow> int \<Rightarrow> flapPlan" where
  "planFlap current to ts churn now =
     (case current of
        None \<Rightarrow> \<lparr>fp_closing = None, fp_opens = False, fp_emit = True, fp_episode = no_episode\<rparr>
      | Some h0 \<Rightarrow>
          let settledClose = (if FlapSettled h0 now
                then Some \<lparr>fc_episode = episodeFrom h0, fc_last = ah_State h0, fc_settled = ah_State h0\<rparr> else None);
              h = (if FlapSettled h0 now then applyTo no_episode h0 else h0) in
          if Flapping h then
            if SawDuringEpisode h to
            then \<lparr>fp_closing = settledClose, fp_opens = False, fp_emit = False, fp_episode = withState (episodeFrom h) to\<rparr>
            else \<lparr>fp_closing = Some \<lparr>fc_episode = withState (episodeFrom h) to, fc_last = ah_State h, fc_settled = to\<rparr>,
                  fp_opens = False, fp_emit = True, fp_episode = no_episode\<rparr>
          else if settledClose = None \<and> FlapQualifies (churn + 1)
          then \<lparr>fp_closing = None, fp_opens = True, fp_emit = False,
                fp_episode = \<lparr>fe_since = ts, fe_count = 1, fe_first = ah_State h, fe_seen = [ah_State h, to]\<rparr>\<rparr>
          else \<lparr>fp_closing = settledClose, fp_opens = False, fp_emit = True, fp_episode = no_episode\<rparr>)"

section \<open>Statements\<close>

text \<open>The constraints of the tables, which the database reports as \<open>ErrInvalid\<close>.\<close>

definition health_checks :: "assetHealth \<Rightarrow> bool" where
  "health_checks h \<longleftrightarrow>
     List.member ObservableEntityTypes (ah_EntityType h) \<and> Valid (ah_State h)
     \<and> (case ah_IntervalSeconds h of None \<Rightarrow> True | Some n \<Rightarrow> 0 < n)
     \<and> (case (ah_FlapSince h, ah_FlapCount h, ah_FlapFirstState h, ah_FlapSeen h) of
          (None, None, None, None) \<Rightarrow> True
        | (Some _, Some n, Some s, Some _) \<Rightarrow> 0 < n \<and> Valid s
        | _ \<Rightarrow> False)"

definition opt_valid :: "string option \<Rightarrow> bool" where
  "opt_valid s = (case s of None \<Rightarrow> True | Some v \<Rightarrow> Valid v)"

definition transition_checks :: "observedTransition \<Rightarrow> bool" where
  "transition_checks t \<longleftrightarrow>
     List.member ObservableEntityTypes (ot_EntityType t)
     \<and> List.member [TransitionChange, TransitionFlapOpen, TransitionFlapClose] (ot_Kind t)
     \<and> opt_valid (ot_FromState t) \<and> Valid (ot_ToState t)
     \<and> (case ot_FlapCount t of None \<Rightarrow> True | Some n \<Rightarrow> 0 < n)
     \<and> opt_valid (ot_FirstState t) \<and> opt_valid (ot_LastState t) \<and> opt_valid (ot_SettledState t)
     \<and> (ot_Kind t \<noteq> TransitionFlapClose \<or>
          ot_FlapCount t \<noteq> None \<and> ot_WindowStart t \<noteq> None \<and> ot_WindowEnd t \<noteq> None
          \<and> ot_FirstState t \<noteq> None \<and> ot_LastState t \<noteq> None \<and> ot_SettledState t \<noteq> None)"

text \<open>
  The upsert replaces a row only by one reported later; the flag is whether a row was written.
\<close>

definition upsertHealth :: "assetHealth \<Rightarrow> recorder \<Rightarrow> (bool \<times> recorder) result" where
  "upsertHealth h st =
     bind_result (require (health_checks h) (ErrInvalid [])) (\<lambda>_.
       case readHealth st (key_of h) of
         None \<Rightarrow> Inr (True, st\<lparr>rs_health := rs_health st @ [h]\<rparr>)
       | Some old \<Rightarrow>
           if ah_ReportedAt old < ah_ReportedAt h
           then Inr (True, st\<lparr>rs_health := update_where (\<lambda>r. key_of r = key_of h) (\<lambda>_. h) (rs_health st)\<rparr>)
           else Inr (False, st))"

definition bumpHealth :: "healthKey \<Rightarrow> pendingBump \<Rightarrow> recorder \<Rightarrow> recorder" where
  "bumpHealth key bump st =
     st\<lparr>rs_health := update_where (\<lambda>h. key_of h = key \<and> ah_ReportedAt h \<le> pb_reportedAt bump)
         (\<lambda>h. h\<lparr>ah_LastReportAt := pb_lastReportAt bump, ah_ReportedAt := pb_reportedAt bump,
               ah_ObservationID := optionalText (pb_observationID bump),
               ah_IntervalSeconds := (if 0 < pb_intervalSeconds bump then Some (pb_intervalSeconds bump) else None)\<rparr>)
         (rs_health st)\<rparr>"

definition clearFlap :: "healthKey \<Rightarrow> recorder \<Rightarrow> recorder" where
  "clearFlap key st = st\<lparr>rs_health := update_where (\<lambda>h. key_of h = key) (applyTo no_episode) (rs_health st)\<rparr>"

definition countRecentTransitions :: "recorder \<Rightarrow> healthKey \<Rightarrow> string \<Rightarrow> int" where
  "countRecentTransitions st key windowStart =
     int (length (filter (\<lambda>t. transition_key t = key \<and> List.member [TransitionChange, TransitionFlapOpen] (ot_Kind t)
       \<and> windowStart \<le> ot_At t) (rs_transitions st)))"

definition insert_transition :: "observedTransition \<Rightarrow> recorder \<Rightarrow> recorder result" where
  "insert_transition t st =
     bind_result (require (transition_checks t) (ErrInvalid [])) (\<lambda>_.
       Inr (st\<lparr>rs_transitions := rs_transitions st @ [t]\<rparr>))"

definition plain_transition :: "healthKey \<Rightarrow> string \<Rightarrow> string option \<Rightarrow> string \<Rightarrow> string \<Rightarrow> observedTransition" where
  "plain_transition key kind from to ts =
     \<lparr>ot_EntityType = hk_EntityType key, ot_EntityID = hk_EntityID key, ot_Reporter = hk_Reporter key, ot_Kind = kind,
      ot_FromState = from, ot_ToState = to, ot_At = ts, ot_FlapCount = None, ot_WindowStart = None, ot_WindowEnd = None,
      ot_FirstState = None, ot_LastState = None, ot_SettledState = None\<rparr>"

definition recordTransition :: "healthKey \<Rightarrow> string option \<Rightarrow> string \<Rightarrow> string \<Rightarrow> recorder \<Rightarrow> recorder result" where
  "recordTransition key from to ts = insert_transition (plain_transition key TransitionChange from to ts)"

definition recordFlapOpen :: "healthKey \<Rightarrow> flapEpisode \<Rightarrow> string \<Rightarrow> string \<Rightarrow> recorder \<Rightarrow> recorder result" where
  "recordFlapOpen key episode to ts =
     insert_transition (plain_transition key TransitionFlapOpen (Some (fe_first episode)) to ts)"

definition flap_close_row :: "healthKey \<Rightarrow> flapClosure \<Rightarrow> string \<Rightarrow> observedTransition" where
  "flap_close_row key c ts =
     (plain_transition key TransitionFlapClose (Some (fe_first (fc_episode c))) (fc_settled c) ts)
       \<lparr>ot_FlapCount := Some (fe_count (fc_episode c)), ot_WindowStart := Some (fe_since (fc_episode c)),
        ot_WindowEnd := Some ts, ot_FirstState := Some (fe_first (fc_episode c)), ot_LastState := Some (fc_last c),
        ot_SettledState := Some (fc_settled c)\<rparr>"

definition recordFlapClose :: "healthKey \<Rightarrow> flapClosure \<Rightarrow> string \<Rightarrow> recorder \<Rightarrow> recorder result" where
  "recordFlapClose key c ts = insert_transition (flap_close_row key c ts)"

section \<open>Transactions\<close>

definition forget :: "healthKey \<Rightarrow> recorder \<Rightarrow> recorder" where
  "forget key st = st\<lparr>rs_pending := filter (\<lambda>(k, b). k \<noteq> key) (rs_pending st)\<rparr>"

definition new_health :: "healthKey \<Rightarrow> observation \<Rightarrow> flapEpisode \<Rightarrow> string \<Rightarrow> assetHealth" where
  "new_health key obs episode ts =
     applyTo episode
       \<lparr>ah_EntityType = hk_EntityType key, ah_EntityID = hk_EntityID key, ah_Reporter = hk_Reporter key,
        ah_State = obs_State obs, ah_StateSince = ts, ah_ReportedAt = obs_ReportedAt obs, ah_LastReportAt = ts,
        ah_IntervalSeconds = Some (obs_IntervalSeconds obs), ah_ObservationID = optionalText (obs_ObservationID obs),
        ah_FlapSince = None, ah_FlapCount = None, ah_FlapFirstState = None, ah_FlapSeen = None\<rparr>"

text \<open>The rows of the ledger that a plan writes, once the reading is stored.\<close>

definition record_plan :: "healthKey \<Rightarrow> flapPlan \<Rightarrow> assetHealth option \<Rightarrow> string \<Rightarrow> string \<Rightarrow> recorder \<Rightarrow> recorder result" where
  "record_plan key plan current to ts st =
     bind_result (case fp_closing plan of None \<Rightarrow> Inr st | Some c \<Rightarrow> recordFlapClose key c ts st) (\<lambda>st1.
       if fp_opens plan then recordFlapOpen key (fp_episode plan) to ts st1
       else if fp_emit plan then recordTransition key (map_option ah_State current) to ts st1
       else Inr st1)"

definition writeThrough :: "healthKey \<Rightarrow> observation \<Rightarrow> int \<Rightarrow> recorder \<Rightarrow> (observationResult \<times> recorder) result" where
  "writeThrough key obs now st =
     (let ts = FormatTime now; current = readHealth st key in
      bind_result
        (case classify obs current of
           ObservationDuplicate \<Rightarrow> Inr (settled ObservationDuplicate current now, st)
         | ObservationStale \<Rightarrow> Inr (settled ObservationStale current now, st)
         | ObservationUnchanged \<Rightarrow>
             let bump = bumpFor obs now in
             Inr (settled ObservationUnchanged (map_option (\<lambda>h. applyBump h bump) current) now, bumpHealth key bump st)
         | ObservationTransitioned \<Rightarrow>
             let churn = countRecentTransitions st key (FormatTime (FlapWindowStart now));
                 plan = planFlap current (obs_State obs) ts churn now;
                 health = new_health key obs (fp_episode plan) ts in
             bind_result (upsertHealth health st) (\<lambda>(applied, st1).
               if \<not> applied then Inr (settled ObservationStale (readHealth st1 key) now, st1)
               else
                 bind_result (record_plan key plan current (obs_State obs) ts st1) (\<lambda>st2.
                   Inr (settled ObservationTransitioned (Some health) now, st2))))
        (\<lambda>(out, st'). Inr (out, forget key st')))"

text \<open>\<open>current\<close> is the reading the report was classified against, before the transaction.\<close>

definition closeSettledEpisode ::
  "healthKey \<Rightarrow> observation \<Rightarrow> assetHealth option \<Rightarrow> int \<Rightarrow> recorder \<Rightarrow> (observationResult \<times> recorder) result" where
  "closeSettledEpisode key obs current now st =
     (let ts = FormatTime now; bump = bumpFor obs now in
      case readHealth st key of
        None \<Rightarrow> Inr (settled ObservationUnchanged current now, st)
      | Some fresh \<Rightarrow>
          bind_result
            (if FlapSettled fresh now
             then
               bind_result (recordFlapClose key
                   \<lparr>fc_episode = episodeFrom fresh, fc_last = ah_State fresh, fc_settled = ah_State fresh\<rparr> ts st) (\<lambda>st1.
                 Inr (applyTo no_episode fresh, clearFlap key st1))
             else Inr (fresh, st)) (\<lambda>(h, st2).
            Inr (settled ObservationUnchanged (Some (applyBump h bump)) now, forget key (bumpHealth key bump st2))))"

definition buffer :: "healthKey \<Rightarrow> observation \<Rightarrow> int \<Rightarrow> recorder \<Rightarrow> recorder" where
  "buffer key obs now st =
     (let bump = bumpFor obs now in
      case map_of (rs_pending st) key of
        Some prev \<Rightarrow>
          if pb_reportedAt prev \<le> pb_reportedAt bump
          then st\<lparr>rs_pending := map (\<lambda>(k, b). (k, if k = key then bump else b)) (rs_pending st)\<rparr> else st
      | None \<Rightarrow> st\<lparr>rs_pending := rs_pending st @ [(key, bump)]\<rparr>)"

definition MaxUnmatchedPerReporter :: nat where "MaxUnmatchedPerReporter = 500"

text \<open>
  \<open>queueUnmatched\<close> counts the rows of the reporter and then upserts one. The two statements share a
  transaction; they are kept apart here because \<open>observedTx\<close> asks for no isolation level.
\<close>

definition unmatched_full :: "observation \<Rightarrow> recorder \<Rightarrow> bool" where
  "unmatched_full obs st \<longleftrightarrow>
     MaxUnmatchedPerReporter \<le> length (filter (\<lambda>u. um_Reporter u = obs_Reporter obs) (rs_unmatched st))"

definition unmatchedUpsert :: "observation \<Rightarrow> int \<Rightarrow> recorder \<Rightarrow> recorder" where
  "unmatchedUpsert obs now st =
     (let ts = FormatTime now;
          mine = (\<lambda>u. um_EntityType u = obs_EntityType obs \<and> um_EntityRef u = obs_EntityID obs \<and> um_Reporter u = obs_Reporter obs) in
      if list_ex mine (rs_unmatched st)
      then st\<lparr>rs_unmatched := update_where mine
             (\<lambda>u. u\<lparr>um_State := obs_State obs, um_ReportedAt := obs_ReportedAt obs, um_LastSeenAt := ts,
                   um_ReportCount := um_ReportCount u + 1\<rparr>) (rs_unmatched st)\<rparr>
      else st\<lparr>rs_unmatched := rs_unmatched st @
             [\<lparr>um_EntityType = obs_EntityType obs, um_EntityRef = obs_EntityID obs, um_Reporter = obs_Reporter obs,
               um_State = obs_State obs, um_ReportedAt = obs_ReportedAt obs, um_FirstSeenAt = ts, um_LastSeenAt = ts,
               um_ReportCount = 1\<rparr>]\<rparr>)"

definition queueUnmatched :: "observation \<Rightarrow> int \<Rightarrow> recorder \<Rightarrow> recorder" where
  "queueUnmatched obs now st = (if unmatched_full obs st then st else unmatchedUpsert obs now st)"

section \<open>Reports\<close>

definition observationReporter :: "actor \<Rightarrow> string result" where
  "observationReporter actor =
     bind_result (validated (ValidateActor actor) ()) (\<lambda>_.
       case CredentialID actor of
         Some cid \<Rightarrow> Inr cid
       | None \<Rightarrow> Inl (ErrInvalid [(''actor'', ''an observation is attributed to a monitoring credential, not a ''
                  @ act_Kind actor @ '' actor; build one with domain.AgentActor'')]))"

definition observableExists :: "recorder \<Rightarrow> observation \<Rightarrow> bool result" where
  "observableExists st obs =
     (if obs_EntityType obs = ObservableAsset then Inr (List.member (rs_assets st) (obs_EntityID obs))
      else if obs_EntityType obs = ObservableServiceInstance
      then Inr (map_of (rs_instances st) (obs_EntityID obs) \<noteq> None)
      else Inl (ErrInvalid []))"

definition entityEnvironments :: "recorder \<Rightarrow> observation \<Rightarrow> string list result" where
  "entityEnvironments st obs =
     (if obs_EntityType obs = ObservableAsset then Inr (rs_environments st (obs_EntityID obs))
      else if obs_EntityType obs = ObservableServiceInstance
      then Inr (case map_of (rs_instances st) (obs_EntityID obs) of None \<Rightarrow> [] | Some host \<Rightarrow> rs_environments st host)
      else Inl (ErrInvalid []))"

definition authoriseScope :: "recorder \<Rightarrow> environmentScope \<Rightarrow> observation \<Rightarrow> unit result" where
  "authoriseScope st scope obs =
     bind_result (entityEnvironments st obs) (\<lambda>codes. require (AllowsAll scope codes) ErrForbidden)"

text \<open>What a report leads to once the reading it is classified against is known.\<close>

definition dispatch :: "healthKey \<Rightarrow> observation \<Rightarrow> int \<Rightarrow> recorder \<Rightarrow> (observationResult \<times> recorder) result" where
  "dispatch key obs now st =
     (let current = currentReading st key in
      case classify obs current of
        ObservationDuplicate \<Rightarrow> Inr (settled ObservationDuplicate current now, st)
      | ObservationStale \<Rightarrow> Inr (settled ObservationStale current now, st)
      | ObservationUnchanged \<Rightarrow>
          (case current of
             None \<Rightarrow> Inr (settled ObservationUnchanged None now, st)
           | Some h \<Rightarrow>
               if FlapSettled h now then closeSettledEpisode key obs current now st
               else Inr (settled ObservationUnchanged (Some (applyBump h (bumpFor obs now))) now, buffer key obs now st))
      | ObservationTransitioned \<Rightarrow> writeThrough key obs now st)"

text \<open>The state after the report, and its result. A failed transaction leaves the state.\<close>

definition RecordObservation ::
  "actor \<Rightarrow> environmentScope \<Rightarrow> observationSpec \<Rightarrow> int \<Rightarrow> recorder \<Rightarrow> recorder \<times> observationResult result" where
  "RecordObservation actor scope spec now st =
     (case observationReporter actor of
        Inl err \<Rightarrow> (st, Inl err)
      | Inr reporter \<Rightarrow>
          if IsEmpty scope
          then (st, Inl (ErrInvalid [(''scope'', ''a monitoring credential must arrive with its environment scope; this one has none'')]))
          else
            (case NewObservation spec reporter now of
               Inl err \<Rightarrow> (st, Inl err)
             | Inr obs \<Rightarrow>
                 (case observableExists st obs of
                    Inl err \<Rightarrow> (st, Inl err)
                  | Inr known \<Rightarrow>
                      if \<not> known then (queueUnmatched obs now st, Inl ErrNotFound)
                      else
                        (case authoriseScope st scope obs of
                           Inl err \<Rightarrow> (st, Inl err)
                         | Inr _ \<Rightarrow>
                             (case dispatch (obs_key obs) obs now st of
                                Inl err \<Rightarrow> (st, Inl err)
                              | Inr (out, st') \<Rightarrow> (st', Inr out))))))"

section \<open>Flushing\<close>

text \<open>
  \<open>Flush\<close> takes the buffer, writes every entry in the order of the keys, and puts the entries back
  when the transaction fails, unless a newer report was buffered in the meantime.
\<close>

definition key_less :: "healthKey \<Rightarrow> healthKey \<Rightarrow> bool" where
  "key_less a b =
     (if hk_EntityType a \<noteq> hk_EntityType b then hk_EntityType a < hk_EntityType b
      else if hk_EntityID a \<noteq> hk_EntityID b then hk_EntityID a < hk_EntityID b
      else hk_Reporter a < hk_Reporter b)"

definition flush_take :: "recorder \<Rightarrow> (healthKey \<times> pendingBump) list \<times> recorder" where
  "flush_take st = (rs_pending st, st\<lparr>rs_pending := []\<rparr>)"

definition flush_write :: "(healthKey \<times> pendingBump) list \<Rightarrow> recorder \<Rightarrow> recorder" where
  "flush_write pending st =
     fold (\<lambda>key st. case map_of pending key of None \<Rightarrow> st | Some bump \<Rightarrow> bumpHealth key bump st)
       (go_sort key_less (map fst pending)) st"

definition restore :: "(healthKey \<times> pendingBump) list \<Rightarrow> recorder \<Rightarrow> recorder" where
  "restore pending st =
     fold (\<lambda>(key, bump) st.
       case map_of (rs_pending st) key of
         Some newer \<Rightarrow>
           if pb_reportedAt bump \<le> pb_reportedAt newer then st
           else st\<lparr>rs_pending := map (\<lambda>(k, b). (k, if k = key then bump else b)) (rs_pending st)\<rparr>
       | None \<Rightarrow> st\<lparr>rs_pending := rs_pending st @ [(key, bump)]\<rparr>) pending st"

text \<open>\<open>committed\<close> is whether the database accepts the transaction.\<close>

definition Flush :: "bool \<Rightarrow> recorder \<Rightarrow> recorder \<times> nat result" where
  "Flush committed st =
     (let (pending, st1) = flush_take st in
      if pending = [] then (st1, Inr 0)
      else if committed then (flush_write pending st1, Inr (length pending))
      else (restore pending st1, Inl ErrDriver))"

definition GetObservedState :: "recorder \<Rightarrow> int \<Rightarrow> string \<Rightarrow> string \<Rightarrow> observedReading list" where
  "GetObservedState st now entityType entityID =
     map (\<lambda>h. newObservedReading h now)
       (sort_key ah_Reporter (filter (\<lambda>h. ah_EntityType h = entityType \<and> ah_EntityID h = entityID) (rs_health st)))"

section \<open>Vocabulary of the properties\<close>

text \<open>What a bump makes of a row, and the rows that a plan adds to the ledger.\<close>

definition bumped :: "pendingBump \<Rightarrow> assetHealth \<Rightarrow> assetHealth" where
  "bumped bump h =
     h\<lparr>ah_LastReportAt := pb_lastReportAt bump, ah_ReportedAt := pb_reportedAt bump,
       ah_ObservationID := optionalText (pb_observationID bump),
       ah_IntervalSeconds := (if 0 < pb_intervalSeconds bump then Some (pb_intervalSeconds bump) else None)\<rparr>"

definition plan_rows :: "healthKey \<Rightarrow> flapPlan \<Rightarrow> assetHealth option \<Rightarrow> string \<Rightarrow> string \<Rightarrow> observedTransition list" where
  "plan_rows key plan current to ts =
     (case fp_closing plan of None \<Rightarrow> [] | Some c \<Rightarrow> [flap_close_row key c ts])
     @ (if fp_opens plan then [plain_transition key TransitionFlapOpen (Some (fe_first (fp_episode plan))) to ts]
        else if fp_emit plan then [plain_transition key TransitionChange (map_option ah_State current) to ts] else [])"

text \<open>What \<open>NewObservation\<close> guarantees of an observation.\<close>

definition obs_ok :: "observation \<Rightarrow> bool" where
  "obs_ok obs \<longleftrightarrow> List.member ObservableEntityTypes (obs_EntityType obs) \<and> Valid (obs_State obs) \<and> 0 < obs_IntervalSeconds obs"

text \<open>
  The ledger of a key: the changes of state that the transition rows and the open episode account
  for. A row counts one; a closed episode stands for the changes it absorbed after its opening row,
  less the last one when that has its own row; an open episode for those absorbed so far.
\<close>

definition row_weight :: "observedTransition \<Rightarrow> int" where
  "row_weight t =
     (if ot_Kind t \<noteq> TransitionFlapClose then 1
      else (case ot_FlapCount t of None \<Rightarrow> 0 | Some n \<Rightarrow> n) - 1 - (if ot_SettledState t \<noteq> ot_LastState t then 1 else 0))"

definition open_weight :: "assetHealth option \<Rightarrow> int" where
  "open_weight h = (case h of None \<Rightarrow> 0 | Some r \<Rightarrow> if Flapping r then FlapTransitions r - 1 else 0)"

definition ledger :: "recorder \<Rightarrow> healthKey \<Rightarrow> int" where
  "ledger st key = sum_list (map row_weight (filter (\<lambda>t. transition_key t = key) (rs_transitions st)))
     + open_weight (readHealth st key)"

text \<open>The rows satisfy their constraints and an episode has an opening time.\<close>

definition wf_recorder :: "recorder \<Rightarrow> bool" where
  "wf_recorder st \<longleftrightarrow> (\<forall>h \<in> set (rs_health st). health_checks h \<and> ah_FlapSince h \<noteq> Some [])
     \<and> (\<forall>t \<in> set (rs_transitions st). transition_checks t)"

text \<open>
  The atomic steps of any number of recorders on one database: transactions of reports, flushes of
  arbitrary buffers, and the changes of a buffer.
\<close>

inductive recorder_step :: "recorder \<Rightarrow> recorder \<Rightarrow> bool" where
  written: "obs_ok obs \<Longrightarrow> writeThrough (obs_key obs) obs now st = Inr (out, st') \<Longrightarrow> recorder_step st st'"
| closed: "obs_ok obs \<Longrightarrow> closeSettledEpisode (obs_key obs) obs current now st = Inr (out, st') \<Longrightarrow> recorder_step st st'"
| buffered: "recorder_step st (buffer key obs now st)"
| forgotten: "recorder_step st (forget key st)"
| queued: "recorder_step st (queueUnmatched obs now st)"
| taken: "recorder_step st (snd (flush_take st))"
| flushed: "recorder_step st (flush_write pending st)"
| restored: "recorder_step st (restore pending st)"

inductive_cases recorder_stepE: "recorder_step st st'"

text \<open>A reading that is later, or the same report again.\<close>

definition forward :: "assetHealth \<Rightarrow> assetHealth \<Rightarrow> bool" where
  "forward h h' \<longleftrightarrow> ah_ReportedAt h \<le> ah_ReportedAt h' \<and> (ah_State h' \<noteq> ah_State h \<longrightarrow> ah_ReportedAt h < ah_ReportedAt h')"

text \<open>An open episode that the tables accept.\<close>

definition episode_ok :: "flapEpisode \<Rightarrow> bool" where
  "episode_ok e \<longleftrightarrow> (episode_open e \<longrightarrow> 0 < fe_count e \<and> Valid (fe_first e))"

text \<open>Concrete states for the witnesses.\<close>

definition demo_now :: int where "demo_now = 1767258000 * 10 ^ 9"

definition demo_store :: recorder where
  "demo_store = \<lparr>rs_health = [], rs_transitions = [], rs_unmatched = [], rs_assets = [''a1''], rs_instances = [],
     rs_environments = (\<lambda>_. [''prod'']), rs_pending = []\<rparr>"

definition demo_agent :: actor where
  "demo_agent = \<lparr>act_ID = ''monitor:prom'', act_Name = ''monitor:prom'', act_Kind = ActorKindAgent\<rparr>"

definition demo_spec :: "string \<Rightarrow> string \<Rightarrow> observationSpec" where
  "demo_spec ts state = \<lparr>spec_ObservationID = [], spec_EntityType = ''asset'', spec_EntityID = ''a1'', spec_State = state,
     spec_ReportedAt = ts, spec_IntervalSeconds = 60\<rparr>"

definition demo_key :: healthKey where
  "demo_key = \<lparr>hk_EntityType = ''asset'', hk_EntityID = ''a1'', hk_Reporter = ''prom''\<rparr>"

definition demo_report :: "recorder \<times> observationResult result" where
  "demo_report = RecordObservation demo_agent [''prod''] (demo_spec ''2026-01-01T08:59:00Z'' ''up'') demo_now demo_store"

definition demo_obs :: "string \<Rightarrow> observation" where
  "demo_obs state = \<lparr>obs_ObservationID = [], obs_EntityType = ''asset'', obs_EntityID = ''a1'', obs_Reporter = ''prom'',
     obs_State = state, obs_ReportedAt = ''2026-01-01T08:59:00Z'', obs_IntervalSeconds = 60\<rparr>"

definition demo_row :: assetHealth where
  "demo_row = \<lparr>ah_EntityType = ''asset'', ah_EntityID = ''a1'', ah_Reporter = ''prom'', ah_State = ''down'',
     ah_StateSince = FormatTime (demo_now - 600 * Second), ah_ReportedAt = ''2026-01-01T08:50:00Z'',
     ah_LastReportAt = ''2026-01-01T08:50:00Z'', ah_IntervalSeconds = Some 60, ah_ObservationID = None,
     ah_FlapSince = Some ''2026-01-01T08:40:00Z'', ah_FlapCount = Some 7, ah_FlapFirstState = Some ''up'',
     ah_FlapSeen = Some ''up,down''\<rparr>"

definition demo_flapping :: recorder where
  "demo_flapping = demo_store\<lparr>rs_health := [demo_row]\<rparr>"

definition demo_pending :: recorder where
  "demo_pending = demo_flapping\<lparr>rs_pending := [(demo_key, bumpFor (demo_obs ''down'') demo_now)]\<rparr>"

end
