(* ===== verification/Recorder_Props.thy ===== *)
theory Recorder_Props
  imports Recorder
begin

text \<open>
  What the recorder guarantees: the ledger accounts for every change of state, readings only move
  forward under any interleaving, a credential writes only its own readings within its scope, and
  a settled episode is closed by the next report.
\<close>

section \<open>Observations and rows\<close>

lemma NewObservation_ok:
  assumes "NewObservation spec reporter now = Inr obs"
  shows "obs_ok obs"
  using assms
  by (auto simp: NewObservation_def obs_ok_def ParseHealthState_def check_interval_def Let_def split: if_splits)

lemma FormatTime_nonempty [simp]: "FormatTime t \<noteq> []"
  by (simp add: FormatTime_def Let_def)

lemma key_of_applyTo [simp]: "key_of (applyTo e h) = key_of h"
  by (simp add: key_of_def applyTo_def)

lemma applyTo_simps [simp]:
  "ah_State (applyTo e h) = ah_State h" "ah_ReportedAt (applyTo e h) = ah_ReportedAt h"
  "ah_StateSince (applyTo e h) = ah_StateSince h" "ah_IntervalSeconds (applyTo e h) = ah_IntervalSeconds h"
  "ah_EntityType (applyTo e h) = ah_EntityType h"
  by (simp_all add: applyTo_def)

lemma Flapping_applyTo [simp]: "Flapping (applyTo e h) \<longleftrightarrow> episode_open e"
  by (simp add: Flapping_def applyTo_def episode_open_def)

lemma FlapTransitions_applyTo: "episode_open e \<Longrightarrow> FlapTransitions (applyTo e h) = fe_count e"
  by (simp add: FlapTransitions_def applyTo_def)

lemma no_episode_closed [simp]: "\<not> episode_open no_episode"
  by (simp add: episode_open_def no_episode_def)

lemma FlapSettled_Flapping: "FlapSettled h now \<Longrightarrow> Flapping h"
  by (simp add: FlapSettled_def split: if_splits)

lemma FlapOpenedAt_nonempty [simp]: "FlapOpenedAt h \<noteq> [] \<longleftrightarrow> Flapping h"
  by (auto simp: FlapOpenedAt_def Flapping_def split: option.splits)

lemma episodeFrom_simps [simp]:
  "episode_open (episodeFrom h) \<longleftrightarrow> Flapping h"
  "Flapping h \<Longrightarrow> fe_count (episodeFrom h) = FlapTransitions h"
  by (auto simp: episodeFrom_def episode_open_def no_episode_def)

lemma withState_simps [simp]:
  "episode_open (withState e s) \<longleftrightarrow> episode_open e" "fe_count (withState e s) = fe_count e + 1"
  "fe_first (withState e s) = fe_first e" "fe_since (withState e s) = fe_since e"
  by (simp_all add: withState_def episode_open_def)

lemma key_of_new_health [simp]: "key_of (new_health key obs e ts) = key"
  by (simp add: new_health_def) (simp add: key_of_def)

lemma new_health_simps [simp]:
  "ah_State (new_health key obs e ts) = obs_State obs" "ah_ReportedAt (new_health key obs e ts) = obs_ReportedAt obs"
  "ah_IntervalSeconds (new_health key obs e ts) = Some (obs_IntervalSeconds obs)"
  "Flapping (new_health key obs e ts) \<longleftrightarrow> episode_open e"
  by (simp_all add: new_health_def)

section \<open>The health table\<close>

lemma find_health_update:
  "(\<And>h. key_of (f h) = key_of h) \<Longrightarrow>
   find (\<lambda>h. key_of h = k) (update_where P f rows) = map_option (\<lambda>h. if P h then f h else h) (find (\<lambda>h. key_of h = k) rows)"
  by (induction rows) (auto simp: update_where_def)

lemma bumped_simps [simp]:
  "key_of (bumped b h) = key_of h" "ah_State (bumped b h) = ah_State h" "ah_StateSince (bumped b h) = ah_StateSince h"
  "ah_ReportedAt (bumped b h) = pb_reportedAt b" "Flapping (bumped b h) = Flapping h"
  "FlapTransitions (bumped b h) = FlapTransitions h" "ah_FlapSince (bumped b h) = ah_FlapSince h"
  by (simp_all add: bumped_def key_of_def Flapping_def FlapTransitions_def)

lemma readHealth_bump:
  "readHealth (bumpHealth key bump st) k =
     map_option (\<lambda>h. if k = key \<and> ah_ReportedAt h \<le> pb_reportedAt bump then bumped bump h else h) (readHealth st k)"
proof -
  have "find (\<lambda>h. key_of h = k) (update_where (\<lambda>h. key_of h = key \<and> ah_ReportedAt h \<le> pb_reportedAt bump) (bumped bump) rows)
      = map_option (\<lambda>h. if k = key \<and> ah_ReportedAt h \<le> pb_reportedAt bump then bumped bump h else h) (find (\<lambda>h. key_of h = k) rows)"
    for rows by (induction rows) (auto simp: update_where_def)
  then show ?thesis by (simp add: readHealth_def bumpHealth_def bumped_def [abs_def])
qed

lemma readHealth_clear:
  "readHealth (clearFlap key st) k = map_option (\<lambda>h. if k = key then applyTo no_episode h else h) (readHealth st k)"
proof -
  have "find (\<lambda>h. key_of h = k) (update_where (\<lambda>h. key_of h = key) (applyTo no_episode) rows)
      = map_option (\<lambda>h. if k = key then applyTo no_episode h else h) (find (\<lambda>h. key_of h = k) rows)"
    for rows by (induction rows) (auto simp: update_where_def)
  then show ?thesis by (simp add: readHealth_def clearFlap_def)
qed

lemma readHealth_upsert:
  assumes "upsertHealth h st = Inr (applied, st')"
  shows "health_checks h"
    and "readHealth st' k = (if applied \<and> k = key_of h then Some h else readHealth st k)"
    and "applied \<longleftrightarrow> (case readHealth st (key_of h) of None \<Rightarrow> True | Some old \<Rightarrow> ah_ReportedAt old < ah_ReportedAt h)"
    and "rs_transitions st' = rs_transitions st" "rs_pending st' = rs_pending st"
    and "\<And>r. r \<in> set (rs_health st') \<Longrightarrow> r = h \<or> r \<in> set (rs_health st)"
proof -
  have upd: "find (\<lambda>h. key_of h = k) (update_where (\<lambda>r. key_of r = key_of h) (\<lambda>_. h) rows) =
      (if k = key_of h \<and> find (\<lambda>r. key_of r = k) rows \<noteq> None then Some h else find (\<lambda>h. key_of h = k) rows)" for rows
    by (induction rows) (auto simp: update_where_def)
  have app: "find (\<lambda>h. key_of h = k) (rows @ [h]) =
      (case find (\<lambda>h. key_of h = k) rows of None \<Rightarrow> if key_of h = k then Some h else None | Some r \<Rightarrow> Some r)" for rows
    by (induction rows) auto
  show "health_checks h" using assms by (simp add: upsertHealth_def)
  from assms consider "readHealth st (key_of h) = None" "applied" "st' = st\<lparr>rs_health := rs_health st @ [h]\<rparr>"
    | old where "readHealth st (key_of h) = Some old" "applied" "ah_ReportedAt old < ah_ReportedAt h"
        "st' = st\<lparr>rs_health := update_where (\<lambda>r. key_of r = key_of h) (\<lambda>_. h) (rs_health st)\<rparr>"
    | old where "readHealth st (key_of h) = Some old" "\<not> applied" "\<not> ah_ReportedAt old < ah_ReportedAt h" "st' = st"
    by (auto simp: upsertHealth_def split: option.splits if_splits)
  note cs = this
  show "readHealth st' k = (if applied \<and> k = key_of h then Some h else readHealth st k)"
    by (rule cs) (auto simp: readHealth_def upd app split: option.splits)
  show "applied \<longleftrightarrow> (case readHealth st (key_of h) of None \<Rightarrow> True | Some old \<Rightarrow> ah_ReportedAt old < ah_ReportedAt h)"
    by (rule cs) simp_all
  show "rs_transitions st' = rs_transitions st" by (rule cs) simp_all
  show "rs_pending st' = rs_pending st" by (rule cs) simp_all
  show "r = h \<or> r \<in> set (rs_health st)" if "r \<in> set (rs_health st')" for r
    by (rule cs) (use that in \<open>auto elim: in_update_whereE\<close>)
qed

lemma forget_simps [simp]:
  "rs_health (forget key st) = rs_health st" "rs_transitions (forget key st) = rs_transitions st"
  "rs_unmatched (forget key st) = rs_unmatched st" "readHealth (forget key st) k = readHealth st k"
  by (simp_all add: forget_def readHealth_def)

lemma bump_simps [simp]:
  "rs_transitions (bumpHealth key b st) = rs_transitions st" "rs_unmatched (bumpHealth key b st) = rs_unmatched st"
  "rs_pending (bumpHealth key b st) = rs_pending st"
  by (simp_all add: bumpHealth_def)

lemma clear_simps [simp]: "rs_transitions (clearFlap key st) = rs_transitions st" "rs_pending (clearFlap key st) = rs_pending st"
  by (simp_all add: clearFlap_def)

section \<open>Transactions\<close>

lemma record_plan_Inr:
  "record_plan key plan current to ts st = Inr st' \<longleftrightarrow>
     (\<forall>t \<in> set (plan_rows key plan current to ts). transition_checks t)
     \<and> st' = st\<lparr>rs_transitions := rs_transitions st @ plan_rows key plan current to ts\<rparr>"
  by (auto simp: record_plan_def plan_rows_def recordFlapClose_def recordFlapOpen_def recordTransition_def
      insert_transition_def bind_result_Inr split: option.splits)

lemma row_keys [simp]:
  "transition_key (plain_transition key kind from to ts) = key" "transition_key (flap_close_row key c ts) = key"
  by (simp_all add: transition_key_def plain_transition_def flap_close_row_def)

lemma plan_rows_key: "t \<in> set (plan_rows key plan current to ts) \<Longrightarrow> transition_key t = key"
  by (auto simp: plan_rows_def split: option.splits if_splits)

abbreviation plan_of :: "recorder \<Rightarrow> healthKey \<Rightarrow> observation \<Rightarrow> int \<Rightarrow> flapPlan" where
  "plan_of st key obs now \<equiv>
     planFlap (readHealth st key) (obs_State obs) (FormatTime now)
       (countRecentTransitions st key (FormatTime (FlapWindowStart now))) now"

lemma change_applies:
  assumes "classify obs (readHealth st key) = ObservationTransitioned" "upsertHealth (new_health key obs e ts) st = Inr (applied, st1)"
  shows "applied"
  using assms(1) readHealth_upsert(3) [OF assms(2)]
  by (auto simp: classify_def Supersedes_def split: option.splits if_splits)

lemma writeThrough_cases:
  assumes "writeThrough key obs now st = Inr (out, st')"
  obtains (none) "st' = forget key st" "res_Disposition out \<in> {ObservationDuplicate, ObservationStale}"
      "classify obs (readHealth st key) \<noteq> ObservationTransitioned"
  | (bump) "st' = forget key (bumpHealth key (bumpFor obs now) st)" "res_Disposition out = ObservationUnchanged"
      "classify obs (readHealth st key) = ObservationUnchanged"
  | (change) st1 st2 where "classify obs (readHealth st key) = ObservationTransitioned" "res_Disposition out = ObservationTransitioned"
      "upsertHealth (new_health key obs (fp_episode (plan_of st key obs now)) (FormatTime now)) st = Inr (True, st1)"
      "record_plan key (plan_of st key obs now) (readHealth st key) (obs_State obs) (FormatTime now) st1 = Inr st2"
      "st' = forget key st2"
      "out = settled ObservationTransitioned (Some (new_health key obs (fp_episode (plan_of st key obs now)) (FormatTime now))) now"
  using assms
  by (cases "classify obs (readHealth st key)")
    (auto simp: writeThrough_def Let_def bind_result_Inr settled_def dest: change_applies split: if_splits)

text \<open>Each kind of plan accounts for exactly one change.\<close>

lemma plan_weight:
  assumes "\<And>h. current = Some h \<Longrightarrow> ah_State h \<noteq> to" "ts \<noteq> []"
  shows "sum_list (map row_weight (plan_rows key (planFlap current to ts churn now) current to ts))
     + (let e = fp_episode (planFlap current to ts churn now) in if episode_open e then fe_count e - 1 else 0)
     = open_weight current + 1"
proof (cases current)
  case None
  then show ?thesis
    by (simp add: planFlap_def plan_rows_def row_weight_def plain_transition_def open_weight_def TransitionChange_def TransitionFlapClose_def)
next
  case (Some h)
  with assms(1) have ne: "ah_State h \<noteq> to" by blast
  note defs = Some planFlap_def plan_rows_def row_weight_def plain_transition_def flap_close_row_def open_weight_def Let_def
    TransitionChange_def TransitionFlapClose_def TransitionFlapOpen_def
  consider (settled) "FlapSettled h now" | (seen) "\<not> FlapSettled h now" "Flapping h" "SawDuringEpisode h to"
    | (novel) "\<not> FlapSettled h now" "Flapping h" "\<not> SawDuringEpisode h to"
    | (opens) "\<not> FlapSettled h now" "\<not> Flapping h" "FlapQualifies (churn + 1)"
    | (plain) "\<not> FlapSettled h now" "\<not> Flapping h" "\<not> FlapQualifies (churn + 1)" by blast
  then show ?thesis
  proof cases
    case settled
    with FlapSettled_Flapping [OF settled] show ?thesis by (simp add: defs)
  next
    case seen
    then show ?thesis by (simp add: defs)
  next
    case novel
    with ne show ?thesis by (simp add: defs)
  next
    case opens
    with assms(2) show ?thesis by (simp add: defs episode_open_def)
  next
    case plain
    then show ?thesis by (simp add: defs)
  qed
qed

lemma ledger_cong:
  "rs_transitions st' = rs_transitions st \<Longrightarrow> open_weight (readHealth st' k) = open_weight (readHealth st k) \<Longrightarrow>
   ledger st' k = ledger st k"
  by (simp add: ledger_def)

lemma open_weight_bump: "open_weight (readHealth (bumpHealth key b st) k) = open_weight (readHealth st k)"
  by (cases "readHealth st k") (simp_all add: readHealth_bump open_weight_def)

lemma writeThrough_ledger:
  assumes "writeThrough key obs now st = Inr (out, st')"
  shows "ledger st' k = ledger st k + (if res_Disposition out = ObservationTransitioned \<and> k = key then 1 else 0)"
  using assms
proof (cases rule: writeThrough_cases)
  case none
  then show ?thesis by (auto simp: ledger_def)
next
  case bump
  then show ?thesis by (auto simp: open_weight_bump intro: ledger_cong)
next
  case (change st1 st2)
  let ?plan = "plan_of st key obs now"
  let ?h = "new_health key obs (fp_episode ?plan) (FormatTime now)"
  let ?rows = "plan_rows key ?plan (readHealth st key) (obs_State obs) (FormatTime now)"
  note up = readHealth_upsert [OF change(3)]
  have st2: "st2 = st1\<lparr>rs_transitions := rs_transitions st1 @ ?rows\<rparr>" using change(4) by (simp add: record_plan_Inr)
  have ne: "ah_State h \<noteq> obs_State obs" if "readHealth st key = Some h" for h
    using change(1) that by (auto simp: classify_def split: if_splits)
  have read: "readHealth st' k = (if k = key then Some ?h else readHealth st k)"
    using up(2) [of k] by (simp add: change(5) st2 readHealth_def)
  have trans: "rs_transitions st' = rs_transitions st @ ?rows" by (simp add: change(5) st2 up(4))
  have open_new: "open_weight (Some ?h) = (let e = fp_episode ?plan in if episode_open e then fe_count e - 1 else 0)"
    by (simp add: open_weight_def new_health_def FlapTransitions_applyTo)
  have filter: "filter (\<lambda>t. transition_key t = k) ?rows = (if k = key then ?rows else [])"
    using plan_rows_key by (auto simp: filter_empty_conv filter_id_conv)
  from plan_weight [where current = "readHealth st key" and to = "obs_State obs" and key = key and ts = "FormatTime now", OF ne]
  have "sum_list (map row_weight ?rows) + open_weight (Some ?h) = open_weight (readHealth st key) + 1"
    unfolding open_new by simp
  then show ?thesis by (auto simp: ledger_def trans read filter change(2))
qed

lemma closeSettled_cases:
  assumes "closeSettledEpisode key obs current now st = Inr (out, st')"
  obtains (none) "readHealth st key = None" "st' = st" "res_Disposition out = ObservationUnchanged"
  | (closing) fresh where "readHealth st key = Some fresh" "FlapSettled fresh now" "res_Disposition out = ObservationUnchanged"
      "transition_checks (flap_close_row key \<lparr>fc_episode = episodeFrom fresh, fc_last = ah_State fresh, fc_settled = ah_State fresh\<rparr> (FormatTime now))"
      "st' = forget key (bumpHealth key (bumpFor obs now) (clearFlap key
         (st\<lparr>rs_transitions := rs_transitions st @ [flap_close_row key
            \<lparr>fc_episode = episodeFrom fresh, fc_last = ah_State fresh, fc_settled = ah_State fresh\<rparr> (FormatTime now)]\<rparr>)))"
  | (kept) fresh where "readHealth st key = Some fresh" "\<not> FlapSettled fresh now" "res_Disposition out = ObservationUnchanged"
      "st' = forget key (bumpHealth key (bumpFor obs now) st)"
  using assms
  by (cases "readHealth st key")
    (auto simp: closeSettledEpisode_def Let_def bind_result_Inr settled_def recordFlapClose_def insert_transition_def split: if_splits)

lemma closeSettled_ledger:
  assumes "closeSettledEpisode key obs current now st = Inr (out, st')"
  shows "ledger st' k = ledger st k \<and> res_Disposition out = ObservationUnchanged"
  using assms
proof (cases rule: closeSettled_cases)
  case (closing fresh)
  let ?row = "flap_close_row key \<lparr>fc_episode = episodeFrom fresh, fc_last = ah_State fresh, fc_settled = ah_State fresh\<rparr> (FormatTime now)"
  have fl: "Flapping fresh" using FlapSettled_Flapping closing(2) by blast
  then have row: "row_weight ?row = FlapTransitions fresh - 1"
    by (simp add: row_weight_def flap_close_row_def plain_transition_def)
  have read: "readHealth (st\<lparr>rs_transitions := ts\<rparr>) k = readHealth st k" for ts by (simp add: readHealth_def)
  have "open_weight (readHealth st' k) = (if k = key then 0 else open_weight (readHealth st k))"
    using closing(1) by (cases "readHealth st k") (auto simp: closing(5) open_weight_bump readHealth_clear read, auto simp: open_weight_def)
  moreover have "open_weight (readHealth st key) = FlapTransitions fresh - 1"
    using closing(1) fl by (simp add: open_weight_def)
  ultimately show ?thesis using closing(3) row by (auto simp: ledger_def closing(5))
next
  case none
  then show ?thesis by simp
next
  case (kept fresh)
  then show ?thesis by (simp add: ledger_def open_weight_bump)
qed

lemma buffer_simps [simp]:
  "rs_health (buffer key obs now st) = rs_health st" "rs_transitions (buffer key obs now st) = rs_transitions st"
  "rs_unmatched (buffer key obs now st) = rs_unmatched st" "readHealth (buffer key obs now st) k = readHealth st k"
  by (auto simp: buffer_def Let_def readHealth_def split: option.splits)

lemma dispatch_cases:
  assumes "dispatch key obs now st = Inr (out, st')"
  obtains (none) "st' = st" "res_Disposition out \<noteq> ObservationTransitioned"
      "classify obs (currentReading st key) \<in> {ObservationDuplicate, ObservationStale} \<or> currentReading st key = None"
  | (settle) h where "closeSettledEpisode key obs (Some h) now st = Inr (out, st')" "currentReading st key = Some h" "FlapSettled h now"
  | (buffered) "st' = buffer key obs now st" "res_Disposition out = ObservationUnchanged"
      "\<And>h. currentReading st key = Some h \<Longrightarrow> \<not> FlapSettled h now"
  | (through) "writeThrough key obs now st = Inr (out, st')" "classify obs (currentReading st key) = ObservationTransitioned"
  using assms
  by (cases "classify obs (currentReading st key)")
    (auto simp: dispatch_def Let_def settled_def split: option.splits if_splits)

lemma dispatch_ledger:
  assumes "dispatch key obs now st = Inr (out, st')"
  shows "ledger st' k = ledger st k + (if res_Disposition out = ObservationTransitioned \<and> k = key then 1 else 0)"
  using assms
proof (cases rule: dispatch_cases)
  case none
  then show ?thesis by simp
next
  case (settle h)
  with closeSettled_ledger [OF settle(1), of k] show ?thesis by simp
next
  case buffered
  then show ?thesis by (simp add: ledger_def)
next
  case through
  then show ?thesis by (simp add: writeThrough_ledger)
qed

lemma dispatch_reading:
  assumes "dispatch key obs now st = Inr (out, st')" "res_Disposition out = ObservationTransitioned"
  shows "map_option (\<lambda>x. key_of (or_Health x)) (res_Reading out) = Some key"
  using assms(1)
proof (cases rule: dispatch_cases)
  case (settle h)
  with closeSettled_ledger [OF settle(1)] assms(2) show ?thesis by simp
next
  case through
  from through(1) show ?thesis
    by (cases rule: writeThrough_cases) (use assms(2) in \<open>auto simp: settled_def newObservedReading_def\<close>)
qed (use assms(2) in simp_all)

lemma queueUnmatched_simps [simp]:
  "rs_health (queueUnmatched obs now st) = rs_health st" "rs_transitions (queueUnmatched obs now st) = rs_transitions st"
  "rs_pending (queueUnmatched obs now st) = rs_pending st"
  by (simp_all add: queueUnmatched_def unmatchedUpsert_def Let_def)

lemma RecordObservation_cases:
  assumes "RecordObservation actor scope spec now st = (st', r)"
  obtains (refused) err where "st' = st" "r = Inl err"
  | (unknown) obs where "st' = queueUnmatched obs now st" "r = Inl ErrNotFound" "obs_ok obs"
  | (reported) reporter obs out codes where "observationReporter actor = Inr reporter" "NewObservation spec reporter now = Inr obs"
      "entityEnvironments st obs = Inr codes" "AllowsAll scope codes"
      "dispatch (obs_key obs) obs now st = Inr (out, st')" "r = Inr out"
  using assms NewObservation_ok
  by (auto simp: RecordObservation_def authoriseScope_def bind_result_Inr split: sum.splits if_splits prod.splits)

text \<open>
  Nothing is lost in a flap: counting a row of the ledger as one change, a closed episode as the
  changes it says it absorbed and an open one as those absorbed so far, every report that changes
  the state of a reading adds exactly one, and nothing else - a repetition, a late or duplicate
  report, the closing of a settled episode, a refused report - adds or removes any. (C7)
\<close>

theorem ledger_accounts_for_changes:
  assumes "RecordObservation actor scope spec now st = (st', r)"
  shows "ledger st' k = ledger st k +
     (case r of Inl _ \<Rightarrow> 0
      | Inr out \<Rightarrow> if res_Disposition out = ObservationTransitioned
                 \<and> map_option (\<lambda>x. key_of (or_Health x)) (res_Reading out) = Some k then 1 else 0)"
  using assms
proof (cases rule: RecordObservation_cases)
  case (refused err)
  then show ?thesis by simp
next
  case (unknown obs)
  then show ?thesis by (simp add: ledger_def readHealth_def)
next
  case (reported reporter obs out codes)
  have "res_Disposition out = ObservationTransitioned \<Longrightarrow>
      map_option (\<lambda>x. key_of (or_Health x)) (res_Reading out) = Some (obs_key obs)"
    using reported(5) by (rule dispatch_reading)
  with dispatch_ledger [OF reported(5), of k] reported(6) show ?thesis by auto
qed

section \<open>Readings only move forward\<close>

lemma forward_trans: "forward a b \<Longrightarrow> forward b c \<Longrightarrow> forward a c"
  by (auto simp: forward_def)

lemma bump_forward:
  assumes "readHealth st k = Some h"
  shows "\<exists>h'. readHealth (bumpHealth key b st) k = Some h' \<and> forward h h'"
  using assms by (auto simp: readHealth_bump forward_def)

lemma flush_forward:
  assumes "readHealth st k = Some h"
  shows "\<exists>h'. readHealth (flush_write pending st) k = Some h' \<and> forward h h'"
proof -
  have "\<exists>h'. readHealth (fold (\<lambda>key st. case map_of pending key of None \<Rightarrow> st | Some bump \<Rightarrow> bumpHealth key bump st) ks st) k = Some h'
      \<and> forward h h'" if "readHealth st k = Some h" for ks st h
    using that
  proof (induction ks arbitrary: st h)
    case (Cons key ks)
    let ?st = "case map_of pending key of None \<Rightarrow> st | Some bump \<Rightarrow> bumpHealth key bump st"
    have "\<exists>h1. readHealth ?st k = Some h1 \<and> forward h h1"
      using Cons.prems bump_forward by (auto simp: forward_def split: option.splits)
    then obtain h1 where h1: "readHealth ?st k = Some h1" "forward h h1" by blast
    with Cons.IH [OF h1(1)] show ?case using forward_trans by auto
  qed (simp add: forward_def)
  with assms show ?thesis by (simp add: flush_write_def)
qed

lemma restore_simps [simp]: "rs_health (restore pending st) = rs_health st" "rs_transitions (restore pending st) = rs_transitions st"
  "rs_unmatched (restore pending st) = rs_unmatched st"
proof -
  have "rs_health (restore pending st) = rs_health st \<and> rs_transitions (restore pending st) = rs_transitions st
      \<and> rs_unmatched (restore pending st) = rs_unmatched st"
    unfolding restore_def by (induction pending arbitrary: st) (auto split: option.splits)
  then show "rs_health (restore pending st) = rs_health st" "rs_transitions (restore pending st) = rs_transitions st"
    "rs_unmatched (restore pending st) = rs_unmatched st" by simp_all
qed

lemma readHealth_cong: "rs_health st' = rs_health st \<Longrightarrow> readHealth st' k = readHealth st k"
  by (simp add: readHealth_def)

lemma writeThrough_forward:
  assumes "writeThrough key obs now st = Inr (out, st')" "readHealth st k = Some h"
  shows "\<exists>h'. readHealth st' k = Some h' \<and> forward h h'"
  using assms(1)
proof (cases rule: writeThrough_cases)
  case none
  with assms(2) show ?thesis by (simp add: forward_def)
next
  case bump
  with bump_forward [OF assms(2)] show ?thesis by simp
next
  case (change st1 st2)
  note up = readHealth_upsert [OF change(3)]
  have "readHealth st' k = readHealth st1 k" using change(4,5) by (simp add: record_plan_Inr readHealth_def)
  with up(2) [of k] up(3) assms(2) show ?thesis by (auto simp: forward_def)
qed

lemma closeSettled_forward:
  assumes "closeSettledEpisode key obs current now st = Inr (out, st')" "readHealth st k = Some h"
  shows "\<exists>h'. readHealth st' k = Some h' \<and> forward h h'"
  using assms(1)
proof (cases rule: closeSettled_cases)
  case none
  with assms(2) show ?thesis by (simp add: forward_def)
next
  case (kept fresh)
  with bump_forward [OF assms(2)] show ?thesis by simp
next
  case (closing fresh)
  let ?st = "st\<lparr>rs_transitions := rs_transitions st @ [flap_close_row key
            \<lparr>fc_episode = episodeFrom fresh, fc_last = ah_State fresh, fc_settled = ah_State fresh\<rparr> (FormatTime now)]\<rparr>"
  have "readHealth ?st k = Some h" using assms(2) by (simp add: readHealth_def)
  then obtain h1 where "readHealth (clearFlap key ?st) k = Some h1" "forward h h1"
    by (auto simp: readHealth_clear forward_def)
  with bump_forward [of "clearFlap key ?st" k h1 key "bumpFor obs now"] show ?thesis
    unfolding closing(5) forget_simps using forward_trans by blast
qed

interpretation readings: forward_rows recorder_step readHealth forward
proof
  show "forward r r" for r by (simp add: forward_def)
  show "forward a b \<Longrightarrow> forward b c \<Longrightarrow> forward a c" for a b c by (rule forward_trans)
  show "\<exists>h'. readHealth t k = Some h' \<and> forward h h'" if "recorder_step s t" "readHealth s k = Some h" for s t k h
    using that(1)
  proof cases
    case (written obs now out)
    then show ?thesis using writeThrough_forward that(2) by blast
  next
    case (closed obs current now out)
    then show ?thesis using closeSettled_forward that(2) by blast
  next
    case (flushed pending)
    then show ?thesis using flush_forward that(2) by blast
  qed (use that(2) in \<open>auto simp: forward_def readHealth_def flush_take_def\<close>)
qed

text \<open>
  Late reports never win: under any interleaving of the transactions of any number of recorders,
  with flushes of any buffers, a stored reading is never removed, its report time never goes back,
  and its state only changes to one that was reported strictly later. (C9)
\<close>

theorem readings_move_forward:
  assumes "recorder_step\<^sup>*\<^sup>* st st'" "readHealth st k = Some h"
  shows "\<exists>h'. readHealth st' k = Some h' \<and> ah_ReportedAt h \<le> ah_ReportedAt h'
     \<and> (ah_State h' \<noteq> ah_State h \<longrightarrow> ah_ReportedAt h < ah_ReportedAt h')"
  using readings.reachable_forward [OF assms] by (simp only: forward_def)

section \<open>Whose readings\<close>

lemma readHealth_other [simp]:
  "k \<noteq> key \<Longrightarrow> readHealth (bumpHealth key b st) k = readHealth st k"
  "k \<noteq> key \<Longrightarrow> readHealth (clearFlap key st) k = readHealth st k"
  "readHealth (st\<lparr>rs_transitions := ts\<rparr>) k = readHealth st k"
proof -
  show "k \<noteq> key \<Longrightarrow> readHealth (bumpHealth key b st) k = readHealth st k"
    by (cases "readHealth st k") (simp_all add: readHealth_bump)
  show "k \<noteq> key \<Longrightarrow> readHealth (clearFlap key st) k = readHealth st k"
    by (cases "readHealth st k") (simp_all add: readHealth_clear)
  show "readHealth (st\<lparr>rs_transitions := ts\<rparr>) k = readHealth st k" by (simp add: readHealth_def)
qed

lemma writeThrough_other:
  assumes "writeThrough key obs now st = Inr (out, st')" "k \<noteq> key"
  shows "readHealth st' k = readHealth st k"
  using assms(1)
proof (cases rule: writeThrough_cases)
  case (change st1 st2)
  have "readHealth st' k = readHealth st1 k" using change(4,5) by (simp add: record_plan_Inr readHealth_def)
  with readHealth_upsert(2) [OF change(3), of k] assms(2) show ?thesis by simp
qed (use assms(2) in simp_all)

lemma closeSettled_other:
  assumes "closeSettledEpisode key obs current now st = Inr (out, st')" "k \<noteq> key"
  shows "readHealth st' k = readHealth st k"
  using assms(1)
proof (cases rule: closeSettled_cases)
  case (closing fresh)
  then show ?thesis using assms(2) by simp
qed (use assms(2) in simp_all)

lemma dispatch_other:
  assumes "dispatch key obs now st = Inr (out, st')" "k \<noteq> key"
  shows "readHealth st' k = readHealth st k"
  using assms(1)
  by (cases rule: dispatch_cases) (use assms(2) writeThrough_other closeSettled_other in auto)

text \<open>
  A credential writes its own readings, within its scope: a report changes a stored reading only
  when it comes from a monitoring credential whose scope covers every environment of the entity,
  and the reading it changes is the one of that entity and that credential. A refused report
  changes no reading. (C29)
\<close>

theorem reports_are_authorised:
  assumes "RecordObservation actor scope spec now st = (st', r)" "readHealth st' k \<noteq> readHealth st k"
  shows "\<exists>reporter obs codes out. CredentialID actor = Some reporter \<and> NewObservation spec reporter now = Inr obs
     \<and> k = obs_key obs \<and> entityEnvironments st obs = Inr codes \<and> AllowsAll scope codes \<and> r = Inr out"
  using assms(1)
proof (cases rule: RecordObservation_cases)
  case (refused err)
  with assms(2) show ?thesis by simp
next
  case (unknown obs)
  with assms(2) show ?thesis by (simp add: readHealth_def)
next
  case (reported reporter obs out codes)
  have "k = obs_key obs" using dispatch_other [OF reported(5)] assms(2) by blast
  moreover have "CredentialID actor = Some reporter"
    using reported(1) by (auto simp: observationReporter_def bind_result_Inr split: option.splits)
  ultimately show ?thesis using reported by blast
qed

section \<open>New states and settled episodes\<close>

lemma plan_novel:
  "(\<exists>t \<in> set (plan_rows key (planFlap current to ts churn now) current to ts). ot_ToState t = to \<and> ot_Kind t \<noteq> TransitionFlapClose)
   \<or> (\<exists>h. current = Some h \<and> Flapping h \<and> \<not> FlapSettled h now \<and> SawDuringEpisode h to)"
proof (cases current)
  case None
  then show ?thesis by (simp add: planFlap_def plan_rows_def plain_transition_def TransitionChange_def TransitionFlapClose_def)
next
  case (Some h)
  then show ?thesis
    by (cases "FlapSettled h now"; cases "Flapping h"; cases "SawDuringEpisode h to"; cases "FlapQualifies (churn + 1)")
      (simp_all add: planFlap_def plan_rows_def plain_transition_def flap_close_row_def Let_def TransitionChange_def
        TransitionFlapClose_def TransitionFlapOpen_def FlapSettled_Flapping)
qed

lemma plan_settled:
  assumes "FlapSettled h now"
  shows "\<not> episode_open (fp_episode (planFlap (Some h) to ts churn now))"
    and "flap_close_row key \<lparr>fc_episode = episodeFrom h, fc_last = ah_State h, fc_settled = ah_State h\<rparr> ts
       \<in> set (plan_rows key (planFlap (Some h) to ts churn now) (Some h) to ts)"
  using assms by (simp_all add: planFlap_def plan_rows_def Let_def)

text \<open>
  A state that is new to an episode is never absorbed by it: a report that changes the state of a
  reading either adds a row that names the new state, or the reading was in an open episode that
  had already seen that state.
\<close>

theorem new_states_are_recorded:
  assumes "dispatch key obs now st = Inr (out, st')" "res_Disposition out = ObservationTransitioned"
  shows "(\<exists>new. rs_transitions st' = rs_transitions st @ new
       \<and> (\<exists>t \<in> set new. transition_key t = key \<and> ot_ToState t = obs_State obs \<and> ot_Kind t \<noteq> TransitionFlapClose))
     \<or> (\<exists>h. readHealth st key = Some h \<and> Flapping h \<and> \<not> FlapSettled h now \<and> SawDuringEpisode h (obs_State obs))"
  using assms(1)
proof (cases rule: dispatch_cases)
  case (settle h)
  with closeSettled_ledger [OF settle(1)] assms(2) show ?thesis by simp
next
  case through
  from through(1) show ?thesis
  proof (cases rule: writeThrough_cases)
    case (change st1 st2)
    have "rs_transitions st' = rs_transitions st @ plan_rows key (plan_of st key obs now) (readHealth st key) (obs_State obs) (FormatTime now)"
      using change(4,5) readHealth_upsert(4) [OF change(3)] by (simp add: record_plan_Inr)
    moreover from plan_novel [of key "readHealth st key" "obs_State obs" "FormatTime now"
        "countRecentTransitions st key (FormatTime (FlapWindowStart now))" now]
    have "(\<exists>t \<in> set (plan_rows key (plan_of st key obs now) (readHealth st key) (obs_State obs) (FormatTime now)).
        transition_key t = key \<and> ot_ToState t = obs_State obs \<and> ot_Kind t \<noteq> TransitionFlapClose)
      \<or> (\<exists>h. readHealth st key = Some h \<and> Flapping h \<and> \<not> FlapSettled h now \<and> SawDuringEpisode h (obs_State obs))"
      using plan_rows_key by meson
    ultimately show ?thesis by blast
  qed (use assms(2) in auto)
qed (use assms(2) in simp_all)

end
