(* ===== verification/Recorder_Rows.thy ===== *)
theory Recorder_Rows
  imports Recorder_Props
begin

text \<open>
  Progress of the recorder: its rows stay within the constraints of the tables so that no report is
  refused, a quiet episode is closed, the buffer behaves; and concrete runs.
\<close>

section \<open>Rows stay well typed\<close>

lemma flapping_columns:
  assumes "health_checks h" "Flapping h"
  shows "0 < FlapTransitions h" "Valid (fe_first (episodeFrom h))"
  using assms by (auto simp: health_checks_def Flapping_def FlapTransitions_def episodeFrom_def split: option.splits)

lemma checks_bumped: "health_checks h \<Longrightarrow> health_checks (bumped b h)"
  by (simp add: health_checks_def bumped_def)

lemma checks_cleared: "health_checks h \<Longrightarrow> health_checks (applyTo no_episode h)"
  by (simp add: health_checks_def applyTo_def)

lemma episode_ok_from: "health_checks h \<Longrightarrow> episode_ok (episodeFrom h)"
  by (auto simp: episode_ok_def flapping_columns)

lemma episode_ok_with: "episode_ok e \<Longrightarrow> episode_ok (withState e s)"
  by (auto simp: episode_ok_def)

lemma plan_episode_ok:
  assumes "\<And>h. current = Some h \<Longrightarrow> health_checks h"
  shows "episode_ok (fp_episode (planFlap current to ts churn now))"
proof (cases current)
  case None
  then show ?thesis by (simp add: planFlap_def episode_ok_def)
next
  case (Some h)
  with assms have h: "health_checks h" by simp
  then have "Valid (ah_State h)" by (simp add: health_checks_def)
  with Some h show ?thesis
    by (auto simp: planFlap_def Let_def episode_ok_with episode_ok_from) (simp_all add: episode_ok_def)
qed

lemma close_row_checks:
  assumes "health_checks h" "Flapping h" "Valid s" "Valid l" "hk_EntityType key \<in> set ObservableEntityTypes"
    and "e = episodeFrom h \<or> e = withState (episodeFrom h) s'"
  shows "transition_checks (flap_close_row key \<lparr>fc_episode = e, fc_last = l, fc_settled = s\<rparr> ts)"
proof -
  have "0 < fe_count e" "Valid (fe_first e)" using assms(1,2,6) flapping_columns [OF assms(1,2)] by auto
  with assms(3-5) show ?thesis
    by (simp add: transition_checks_def flap_close_row_def plain_transition_def opt_valid_def)
qed

lemma plan_rows_checks:
  assumes "\<And>h. current = Some h \<Longrightarrow> health_checks h" "Valid to" "hk_EntityType key \<in> set ObservableEntityTypes"
    and "t \<in> set (plan_rows key (planFlap current to ts churn now) current to ts)"
  shows "transition_checks t"
proof -
  have plain: "transition_checks (plain_transition key kind f to ts)"
    if "opt_valid f" "kind = TransitionChange \<or> kind = TransitionFlapOpen" for kind f
    using that assms(2,3)
    by (auto simp: transition_checks_def plain_transition_def opt_valid_def TransitionChange_def TransitionFlapOpen_def TransitionFlapClose_def)
  show ?thesis
  proof (cases current)
    case None
    with assms(4) plain show ?thesis by (auto simp: planFlap_def plan_rows_def opt_valid_def)
  next
    case (Some h)
    with assms(1) have h: "health_checks h" by simp
    then have v: "Valid (ah_State h)" by (simp add: health_checks_def)
    note closing = close_row_checks [OF h _ _ _ assms(3)]
    have prior: "opt_valid (Some (ah_State h))" using v by (simp add: opt_valid_def)
    show ?thesis
      using assms(4) Some v plain [OF prior] assms(2) FlapSettled_Flapping [of h now]
        closing [where e = "episodeFrom h"] closing [where e = "withState (episodeFrom h) to" and s' = to]
      by (auto simp: planFlap_def plan_rows_def Let_def split: if_splits)
  qed
qed

lemma wf_health: "wf_recorder st \<Longrightarrow> readHealth st k = Some h \<Longrightarrow> health_checks h"
  by (auto simp: wf_recorder_def readHealth_def find_Some_iff)

lemma wf_bump: "wf_recorder st \<Longrightarrow> wf_recorder (bumpHealth key b st)"
  using checks_bumped [of _ b]
  by (auto simp: wf_recorder_def bumpHealth_def bumped_def [symmetric] elim!: in_update_whereE)

lemma wf_clear: "wf_recorder st \<Longrightarrow> wf_recorder (clearFlap key st)"
  by (auto simp: wf_recorder_def clearFlap_def checks_cleared elim!: in_update_whereE) (simp add: applyTo_def)

lemma wf_forget [simp]: "wf_recorder (forget key st) = wf_recorder st"
  by (simp add: wf_recorder_def)

lemma new_health_checks:
  assumes "obs_ok obs" "episode_ok e" "hk_EntityType key = obs_EntityType obs"
  shows "health_checks (new_health key obs e ts)" "ah_FlapSince (new_health key obs e ts) \<noteq> Some []"
  using assms by (auto simp: health_checks_def new_health_def applyTo_def obs_ok_def episode_ok_def episode_open_def)

lemma upsert_total: "health_checks h \<Longrightarrow> \<exists>applied st'. upsertHealth h st = Inr (applied, st')"
  by (cases "readHealth st (key_of h)") (auto simp: upsertHealth_def require_def)

lemma writeThrough_progress:
  assumes "wf_recorder st" "obs_ok obs"
  shows "\<exists>out st'. writeThrough (obs_key obs) obs now st = Inr (out, st') \<and> wf_recorder st'"
proof (cases "classify obs (readHealth st (obs_key obs))")
  case ObservationTransitioned
  let ?key = "obs_key obs" and ?ts = "FormatTime now"
  let ?plan = "plan_of st ?key obs now"
  let ?h = "new_health ?key obs (fp_episode ?plan) ?ts"
  have key: "hk_EntityType ?key = obs_EntityType obs" by (simp add: obs_key_def)
  note cur = wf_health [OF assms(1)]
  have hc: "health_checks ?h" "ah_FlapSince ?h \<noteq> Some []"
    using new_health_checks [OF assms(2) plan_episode_ok [OF cur] key] by simp_all
  obtain applied st1 where up: "upsertHealth ?h st = Inr (applied, st1)"
    using upsert_total [OF hc(1)] by blast
  note U = readHealth_upsert [OF up]
  have wf1: "wf_recorder st1" using assms(1) U(4,6) hc unfolding wf_recorder_def by metis
  have rows: "\<forall>t \<in> set (plan_rows ?key ?plan (readHealth st ?key) (obs_State obs) ?ts). transition_checks t"
    by (intro ballI, erule plan_rows_checks [rotated 3]) (use cur assms(2) key in \<open>auto simp: obs_ok_def\<close>)
  have rec: "record_plan ?key ?plan (readHealth st ?key) (obs_State obs) ?ts st1
      = Inr (st1\<lparr>rs_transitions := rs_transitions st1 @ plan_rows ?key ?plan (readHealth st ?key) (obs_State obs) ?ts\<rparr>)"
    using rows by (simp add: record_plan_Inr)
  have wf2: "wf_recorder (st1\<lparr>rs_transitions := rs_transitions st1 @ plan_rows ?key ?plan (readHealth st ?key) (obs_State obs) ?ts\<rparr>)"
    using wf1 rows by (auto simp: wf_recorder_def)
  show ?thesis
    using ObservationTransitioned up rec wf1 wf2 by (cases applied) (simp_all add: writeThrough_def Let_def)
qed (use assms(1) in \<open>simp_all add: writeThrough_def Let_def wf_bump\<close>)

lemma closeSettled_progress:
  assumes "wf_recorder st" "obs_ok obs"
  shows "\<exists>out st'. closeSettledEpisode (obs_key obs) obs current now st = Inr (out, st') \<and> wf_recorder st'"
proof (cases "readHealth st (obs_key obs)")
  case None
  with assms show ?thesis by (simp add: closeSettledEpisode_def Let_def)
next
  case (Some h)
  let ?row = "flap_close_row (obs_key obs) \<lparr>fc_episode = episodeFrom h, fc_last = ah_State h, fc_settled = ah_State h\<rparr> (FormatTime now)"
  have h: "health_checks h" using wf_health [OF assms(1) Some] .
  have "hk_EntityType (obs_key obs) \<in> set ObservableEntityTypes" using assms(2) by (simp add: obs_ok_def obs_key_def)
  with h have row: "transition_checks ?row" if "FlapSettled h now"
    using close_row_checks [OF h FlapSettled_Flapping [OF that], of "ah_State h" "ah_State h"] by (simp add: health_checks_def)
  then have "wf_recorder (st\<lparr>rs_transitions := rs_transitions st @ [?row]\<rparr>)" if "FlapSettled h now"
    using assms(1) that by (auto simp: wf_recorder_def)
  with Some row assms(1) show ?thesis
    by (cases "FlapSettled h now") (simp_all add: closeSettledEpisode_def Let_def recordFlapClose_def insert_transition_def require_def wf_bump wf_clear)
qed

text \<open>
  Reports are never refused by the database: from rows that satisfy their constraints, a report that
  validates is dispatched to an outcome without an error, be it a change, a repetition or a stale
  or duplicate report that is discarded, and the rows satisfy their constraints again. The states,
  counts and columns that an episode writes are always ones the tables accept. (C30)
\<close>

theorem recorder_progress:
  assumes "wf_recorder st" "NewObservation spec reporter now = Inr obs"
  shows "\<exists>out st'. dispatch (obs_key obs) obs now st = Inr (out, st') \<and> wf_recorder st'"
proof -
  have ok: "obs_ok obs" using NewObservation_ok [OF assms(2)] .
  have buf: "wf_recorder (buffer (obs_key obs) obs now st)" using assms(1) by (simp add: wf_recorder_def)
  show ?thesis
    using writeThrough_progress [OF assms(1) ok] closeSettled_progress [OF assms(1) ok] assms(1) buf
    by (cases "classify obs (currentReading st (obs_key obs))"; cases "currentReading st (obs_key obs)")
      (auto simp: dispatch_def Let_def)
qed

section \<open>Settled episodes\<close>

lemma FlapSettled_bump: "FlapSettled (applyBump h b) now = FlapSettled h now"
proof -
  have "Flapping (applyBump h b) = Flapping h" "FlapRateQualifies (applyBump h b) now = FlapRateQualifies h now"
    "ah_StateSince (applyBump h b) = ah_StateSince h"
    by (simp_all add: applyBump_def Flapping_def FlapRateQualifies_def)
  then show ?thesis by (simp add: FlapSettled_def split: option.splits)
qed

lemma currentReading_Some:
  assumes "readHealth st key = Some h"
  shows "\<exists>c. currentReading st key = Some c \<and> ah_State c = ah_State h \<and> ah_ReportedAt h \<le> ah_ReportedAt c
     \<and> FlapSettled c now = FlapSettled h now"
proof -
  have "ah_State (applyBump h b) = ah_State h" "ah_ReportedAt h \<le> ah_ReportedAt (applyBump h b)" for b
    by (auto simp: applyBump_def)
  with assms FlapSettled_bump show ?thesis by (cases "map_of (rs_pending st) key") (simp_all add: currentReading_def)
qed

lemma quiet_settles:
  assumes "Flapping h" "ah_StateSince h = FormatTime t" "storable t" "t + FlapWindow \<le> now"
  shows "FlapSettled h now"
proof -
  have "ParseTime (ah_StateSince h) = Some (t - t mod 10 ^ 9)" using ParseTime_FormatTime [OF assms(3)] assms(2) by simp
  moreover have "0 \<le> t mod 10 ^ 9" by simp
  then have "t - t mod 10 ^ 9 + FlapWindow \<le> now" using assms(4) by linarith
  ultimately show ?thesis using assms(1) by (simp only: FlapSettled_def option.case) simp
qed

text \<open>
  A quiet episode ends: when a flapping reading has not changed for the flap window, the next report
  that is newer than the reading closes the episode, whatever it says - the reading is no longer
  flapping and the ledger has the row that closes the episode in the state it had settled in. (C31)
\<close>

theorem quiet_episode_closes:
  assumes "wf_recorder st" "NewObservation spec reporter now = Inr obs" "readHealth st (obs_key obs) = Some h"
    and "Flapping h" "ah_StateSince h = FormatTime t" "storable t" "t + FlapWindow \<le> now"
    and "classify obs (currentReading st (obs_key obs)) \<in> {ObservationTransitioned, ObservationUnchanged}"
    and "ah_ObservationID h \<noteq> Some (obs_ObservationID obs)"
  shows "\<exists>out st' h' row. dispatch (obs_key obs) obs now st = Inr (out, st')
     \<and> readHealth st' (obs_key obs) = Some h' \<and> \<not> Flapping h'
     \<and> row \<in> set (rs_transitions st') \<and> transition_key row = obs_key obs \<and> ot_Kind row = TransitionFlapClose
     \<and> ot_SettledState row = Some (ah_State h) \<and> ot_FlapCount row = Some (FlapTransitions h)"
proof -
  let ?key = "obs_key obs"
  let ?row = "flap_close_row ?key \<lparr>fc_episode = episodeFrom h, fc_last = ah_State h, fc_settled = ah_State h\<rparr> (FormatTime now)"
  have settles: "FlapSettled h now" using quiet_settles [OF assms(4-7)] .
  obtain out st' where d: "dispatch ?key obs now st = Inr (out, st')" using recorder_progress [OF assms(1,2)] by blast
  obtain c where c: "currentReading st ?key = Some c" "ah_State c = ah_State h" "ah_ReportedAt h \<le> ah_ReportedAt c" "FlapSettled c now"
    using currentReading_Some [OF assms(3), of now] settles by blast
  have row: "ot_Kind ?row = TransitionFlapClose" "ot_SettledState ?row = Some (ah_State h)" "ot_FlapCount ?row = Some (FlapTransitions h)"
    using assms(4) by (simp_all add: flap_close_row_def plain_transition_def)
  have "?row \<in> set (rs_transitions st') \<and> (\<exists>h'. readHealth st' ?key = Some h' \<and> \<not> Flapping h')"
    using d
  proof (cases rule: dispatch_cases)
    case none
    with assms(8) c(1) show ?thesis by auto
  next
    case buffered
    with c show ?thesis by blast
  next
    case (settle h0)
    from settle(1) show ?thesis
    proof (cases rule: closeSettled_cases)
      case (closing fresh)
      with assms(3) show ?thesis by (auto simp: readHealth_bump readHealth_clear)
    qed (use assms(3) settles in auto)
  next
    case through
    have newer: "ah_ReportedAt h < obs_ReportedAt obs" "ah_State h \<noteq> obs_State obs"
      using through(2) c(1-3) by (auto simp: classify_def Supersedes_def split: if_splits)
    have cl: "classify obs (readHealth st ?key) = ObservationTransitioned"
      using newer assms(3,9) by (simp add: classify_def Supersedes_def)
    from through(1) show ?thesis
    proof (cases rule: writeThrough_cases)
      case (change st1 st2)
      note P = plan_settled [OF settles]
      have "readHealth st' ?key = Some (new_health ?key obs (fp_episode (plan_of st ?key obs now)) (FormatTime now))"
        using change(4,5) readHealth_upsert(2) [OF change(3), of ?key] by (simp add: record_plan_Inr)
      moreover have "?row \<in> set (rs_transitions st')"
        using change(4,5) P(2) assms(3) by (simp add: record_plan_Inr)
      ultimately show ?thesis using P(1) assms(3) by simp
    qed (use cl in auto)
  qed
  with d row show ?thesis by (metis row_keys(2))
qed

section \<open>The buffer\<close>

lemma flush_read:
  assumes "distinct ks"
  shows "readHealth (fold (\<lambda>key st. case map_of pending key of None \<Rightarrow> st | Some bump \<Rightarrow> bumpHealth key bump st) ks st) k =
     (case map_of pending k of
        Some bump \<Rightarrow> if k \<in> set ks then readHealth (bumpHealth k bump st) k else readHealth st k
      | None \<Rightarrow> readHealth st k)"
  using assms
proof (induction ks arbitrary: st)
  case (Cons key ks)
  then show ?case
    by (cases "k = key"; cases "map_of pending key"; cases "map_of pending k") (auto simp: readHealth_bump option.map_ident)
qed (simp split: option.splits)

lemma applyBump_bumped:
  assumes "ah_ReportedAt h \<le> pb_reportedAt b" "ah_LastReportAt h \<le> pb_lastReportAt b" "0 < pb_intervalSeconds b"
  shows "applyBump h b = bumped b h"
proof -
  have "(if ah_ReportedAt h < pb_reportedAt b then pb_reportedAt b else ah_ReportedAt h) = pb_reportedAt b"
    "(if ah_LastReportAt h < pb_lastReportAt b then pb_lastReportAt b else ah_LastReportAt h) = pb_lastReportAt b"
    using assms(1,2) by auto
  with assms(3) show ?thesis by (simp add: applyBump_def bumped_def)
qed

lemma restore_empty:
  assumes "distinct (map fst pending)" "rs_pending st = []"
  shows "rs_pending (restore pending st) = pending"
proof -
  have *: "rs_pending (fold (\<lambda>(key, bump) st.
       case map_of (rs_pending st) key of
         Some newer \<Rightarrow>
           if pb_reportedAt bump \<le> pb_reportedAt newer then st
           else st\<lparr>rs_pending := map (\<lambda>(k, b). (k, if k = key then bump else b)) (rs_pending st)\<rparr>
       | None \<Rightarrow> st\<lparr>rs_pending := rs_pending st @ [(key, bump)]\<rparr>) xs s) = rs_pending s @ xs"
    if "distinct (map fst (rs_pending s @ xs))" for xs s
    using that
  proof (induction xs arbitrary: s)
    case (Cons x xs)
    obtain key bump where x: "x = (key, bump)" by (cases x)
    with Cons.prems have "map_of (rs_pending s) key = None" by (auto simp: map_of_eq_None_iff)
    with Cons x show ?case by simp
  qed simp
  from * [of st pending] assms show ?thesis by (simp add: restore_def)
qed

text \<open>
  A flush keeps the readings that reports are classified against: while the buffer holds at most
  one report per reading, none older than the stored one and each with a positive interval, a
  committed flush empties the buffer and stores for every reading exactly what the next report
  would have been compared with, so that \<open>GetObservedState\<close>, which reads the table alone, then shows
  it; and whether or not the flush commits, the next report is compared with the same reading as
  before. (C32)
\<close>

theorem flush_keeps_readings:
  assumes "distinct (map fst (rs_pending st))"
    and "\<forall>k b h. map_of (rs_pending st) k = Some b \<and> readHealth st k = Some h \<longrightarrow>
           ah_ReportedAt h \<le> pb_reportedAt b \<and> ah_LastReportAt h \<le> pb_lastReportAt b \<and> 0 < pb_intervalSeconds b"
  shows "currentReading (fst (Flush committed st)) k = currentReading st k
     \<and> (committed \<longrightarrow> readHealth (fst (Flush committed st)) k = currentReading st k \<and> rs_pending (fst (Flush committed st)) = [])"
proof (cases "rs_pending st = []")
  case True
  then have "currentReading st k = readHealth st k" by (simp add: currentReading_def split: option.splits)
  with True show ?thesis
    by (simp add: Flush_def flush_take_def currentReading_def readHealth_def split: option.splits)
next
  case False
  let ?st1 = "st\<lparr>rs_pending := []\<rparr>" and ?p = "rs_pending st"
  have read1: "readHealth ?st1 k = readHealth st k" for k by (simp add: readHealth_def)
  show ?thesis
  proof (cases committed)
    case True
    let ?st2 = "flush_write ?p ?st1"
    have none: "rs_pending ?st2 = []"
    proof -
      have "rs_pending (fold (\<lambda>key st. case map_of ?p key of None \<Rightarrow> st | Some bump \<Rightarrow> bumpHealth key bump st) ks s) = rs_pending s" for ks s
        by (induction ks arbitrary: s) (auto split: option.splits)
      then show ?thesis by (simp add: flush_write_def)
    qed
    have "readHealth ?st2 k = currentReading st k"
    proof (cases "map_of ?p k")
      case None
      then show ?thesis
        using assms(1) by (cases "readHealth st k") (simp_all add: flush_write_def flush_read read1 currentReading_def)
    next
      case (Some b)
      then have "k \<in> fst ` set ?p" by (force dest: map_of_SomeD)
      with Some assms(1) have "readHealth ?st2 k = readHealth (bumpHealth k b ?st1) k"
        by (simp add: flush_write_def flush_read)
      with Some assms(2) show ?thesis
        by (cases "readHealth st k") (auto simp: readHealth_bump read1 currentReading_def applyBump_bumped)
    qed
    moreover have "currentReading ?st2 k = readHealth ?st2 k" by (simp add: currentReading_def none split: option.splits)
    ultimately show ?thesis using True False none by (simp add: Flush_def flush_take_def)
  next
    case False
    have pend: "rs_pending (restore ?p ?st1) = ?p" using restore_empty [OF assms(1), of ?st1] by simp
    have same: "currentReading s k = currentReading st k" if "rs_health s = rs_health st" "rs_pending s = ?p" for s
      unfolding currentReading_def readHealth_def that by (rule refl)
    have "currentReading (restore ?p ?st1) k = currentReading st k" by (rule same) (simp, rule pend)
    with False \<open>?p \<noteq> []\<close> show ?thesis by (simp add: Flush_def flush_take_def)
  qed
qed

section \<open>Witnesses\<close>

text \<open>
  A reported time that is not in the stored format blocks newer reports: a report stamped
  \<open>2026-01-01T9:00:00Z\<close> is accepted as nine o'clock and stored as it came; a report of an outage an
  hour later, at \<open>2026-01-01T10:00:00Z\<close>, compares below it as text, is answered as stale, and the
  reading stays up.
\<close>

theorem unpadded_hour_blocks_reports:
  "(let (st1, r1) = RecordObservation demo_agent [''prod''] (demo_spec ''2026-01-01T9:00:00Z'' ''up'') demo_now demo_store;
        (st2, r2) = RecordObservation demo_agent [''prod''] (demo_spec ''2026-01-01T10:00:00Z'' ''down'') (demo_now + Hour) st1 in
    map_option obs_ok (case NewObservation (demo_spec ''2026-01-01T9:00:00Z'' ''up'') ''prom'' demo_now of Inl _ \<Rightarrow> None | Inr x \<Rightarrow> Some x) = Some True
    \<and> ParseTime ''2026-01-01T9:00:00Z'' = Some demo_now \<and> ParseTime ''2026-01-01T10:00:00Z'' = Some (demo_now + Hour)
    \<and> (case r2 of Inl _ \<Rightarrow> False | Inr out \<Rightarrow> res_Disposition out = ObservationStale)
    \<and> map_option ah_State (currentReading st2 demo_key) = Some HealthUp)"
  by code_simp

lemma demo_report_ok:
  "\<exists>st out. demo_report = (st, Inr out) \<and> res_Disposition out = ObservationTransitioned
     \<and> map_option (\<lambda>x. key_of (or_Health x)) (res_Reading out) = Some demo_key \<and> readHealth st demo_key \<noteq> readHealth demo_store demo_key
     \<and> ledger demo_store demo_key = 0"
proof -
  have "case demo_report of (st, r) \<Rightarrow> (case r of Inl _ \<Rightarrow> False | Inr out \<Rightarrow> res_Disposition out = ObservationTransitioned
     \<and> map_option (\<lambda>x. key_of (or_Health x)) (res_Reading out) = Some demo_key \<and> readHealth st demo_key \<noteq> readHealth demo_store demo_key
     \<and> ledger demo_store demo_key = 0)"
    by code_simp
  then show ?thesis by (auto split: prod.splits sum.splits)
qed

theorem ledger_accounts_for_changes_witness:
  "\<exists>st r. demo_report = (st, r) \<and> ledger st demo_key = 1"
proof -
  obtain st out where d: "demo_report = (st, Inr out)" "res_Disposition out = ObservationTransitioned"
    "map_option (\<lambda>x. key_of (or_Health x)) (res_Reading out) = Some demo_key" "ledger demo_store demo_key = 0"
    using demo_report_ok by blast
  from ledger_accounts_for_changes [OF d(1) [unfolded demo_report_def], of demo_key] d(2-4) have "ledger st demo_key = 1" by simp
  with d(1) show ?thesis by blast
qed

theorem reports_are_authorised_witness:
  "\<exists>st out. demo_report = (st, Inr out) \<and> CredentialID demo_agent \<noteq> None"
proof -
  obtain st out where d: "demo_report = (st, Inr out)" "readHealth st demo_key \<noteq> readHealth demo_store demo_key"
    using demo_report_ok by blast
  from reports_are_authorised [OF d(1) [unfolded demo_report_def] d(2)] d(1) show ?thesis by auto
qed

lemma demo_obs_new: "NewObservation (demo_spec ''2026-01-01T08:59:00Z'' ''up'') ''prom'' demo_now = Inr (demo_obs ''up'')"
  by code_simp

lemma demo_obs_key: "obs_key (demo_obs state) = demo_key"
  by (simp add: obs_key_def demo_obs_def demo_key_def)

theorem recorder_progress_witness:
  "\<exists>out st. dispatch (obs_key (demo_obs ''up'')) (demo_obs ''up'') demo_now demo_store = Inr (out, st) \<and> wf_recorder st"
proof -
  have "wf_recorder demo_store" by (simp add: wf_recorder_def demo_store_def)
  from recorder_progress [OF this demo_obs_new] show ?thesis .
qed

theorem new_states_are_recorded_witness:
  "\<exists>out st t. dispatch demo_key (demo_obs ''up'') demo_now demo_store = Inr (out, st) \<and> t \<in> set (rs_transitions st) \<and> ot_ToState t = ''up''"
proof -
  have "case dispatch demo_key (demo_obs ''up'') demo_now demo_store of Inl _ \<Rightarrow> False
     | Inr (out, st) \<Rightarrow> res_Disposition out = ObservationTransitioned" "readHealth demo_store demo_key = None" by code_simp+
  then obtain out st where d: "dispatch demo_key (demo_obs ''up'') demo_now demo_store = Inr (out, st)"
    "res_Disposition out = ObservationTransitioned" "readHealth demo_store demo_key = None"
    by (auto split: sum.splits)
  from new_states_are_recorded [OF d(1,2)] d(3) obtain new t where
    "rs_transitions st = rs_transitions demo_store @ new" "t \<in> set new" "ot_ToState t = obs_State (demo_obs ''up'')" by auto
  with d(1) show ?thesis by (auto simp: demo_obs_def)
qed

theorem quiet_episode_closes_witness:
  "\<exists>out st h row. dispatch demo_key (demo_obs ''up'') demo_now demo_flapping = Inr (out, st)
     \<and> readHealth st demo_key = Some h \<and> \<not> Flapping h \<and> row \<in> set (rs_transitions st) \<and> ot_FlapCount row = Some 7"
proof -
  have wf: "wf_recorder demo_flapping" unfolding wf_recorder_def by code_simp
  have h: "readHealth demo_flapping (obs_key (demo_obs ''up'')) = Some demo_row" "Flapping demo_row"
    "storable (demo_now - 600 * Second)" "demo_now - 600 * Second + FlapWindow \<le> demo_now"
    "List.member [ObservationTransitioned, ObservationUnchanged] (classify (demo_obs ''up'') (currentReading demo_flapping (obs_key (demo_obs ''up''))))"
    "ah_ObservationID demo_row \<noteq> Some (obs_ObservationID (demo_obs ''up''))" "FlapTransitions demo_row = 7"
    by code_simp+
  have since: "ah_StateSince demo_row = FormatTime (demo_now - 600 * Second)" by (simp add: demo_row_def)
  have cl: "classify (demo_obs ''up'') (currentReading demo_flapping (obs_key (demo_obs ''up''))) \<in> {ObservationTransitioned, ObservationUnchanged}"
    using h(5) by simp
  from quiet_episode_closes [OF wf demo_obs_new h(1,2) since h(3,4) cl h(6)] show ?thesis
    unfolding demo_obs_key h(7) by blast
qed

theorem readings_move_forward_witness:
  "\<exists>h. readHealth (bumpHealth demo_key (bumpFor (demo_obs ''down'') demo_now) demo_flapping) demo_key = Some h
     \<and> ah_ReportedAt demo_row \<le> ah_ReportedAt h"
proof -
  let ?b = "bumpFor (demo_obs ''down'') demo_now"
  have step: "recorder_step demo_flapping (flush_write [(demo_key, ?b)] demo_flapping)" by (rule recorder_step.flushed)
  have eq: "flush_write [(demo_key, ?b)] demo_flapping = bumpHealth demo_key ?b demo_flapping"
    by (simp add: flush_write_def go_sort_def)
  have "readHealth demo_flapping demo_key = Some demo_row" by code_simp
  moreover from step have "recorder_step\<^sup>*\<^sup>* demo_flapping (bumpHealth demo_key ?b demo_flapping)" unfolding eq by (rule r_into_rtranclp)
  ultimately show ?thesis using readings_move_forward by blast
qed

theorem flush_keeps_readings_witness:
  "currentReading (fst (Flush True demo_pending)) demo_key = currentReading demo_pending demo_key"
proof -
  have d: "distinct (map fst (rs_pending demo_pending))" by (simp add: demo_pending_def)
  have b: "ah_ReportedAt demo_row \<le> pb_reportedAt (bumpFor (demo_obs ''down'') demo_now)"
    "ah_LastReportAt demo_row \<le> pb_lastReportAt (bumpFor (demo_obs ''down'') demo_now)"
    "0 < pb_intervalSeconds (bumpFor (demo_obs ''down'') demo_now)"
    "readHealth demo_pending demo_key = Some demo_row"
    by code_simp+
  have "ah_ReportedAt h \<le> pb_reportedAt x \<and> ah_LastReportAt h \<le> pb_lastReportAt x \<and> 0 < pb_intervalSeconds x"
    if "map_of (rs_pending demo_pending) k = Some x" "readHealth demo_pending k = Some h" for k x h
    using that b by (auto simp: demo_pending_def split: if_splits)
  then have "\<forall>k x h. map_of (rs_pending demo_pending) k = Some x \<and> readHealth demo_pending k = Some h \<longrightarrow>
      ah_ReportedAt h \<le> pb_reportedAt x \<and> ah_LastReportAt h \<le> pb_lastReportAt x \<and> 0 < pb_intervalSeconds x" by blast
  from flush_keeps_readings [OF d this, where committed = True and k = demo_key] show ?thesis by blast
qed

end
