(* ===== verification/Drift_Queue.thy ===== *)
theory Drift_Queue
  imports Recorder_Rows
begin

text \<open>
  The queue of reports about things the inventory does not have, under overlapping transactions.
  \<open>queueUnmatched\<close> counts and then inserts in a transaction of \<open>observedTx\<close>, which runs at read
  committed on Postgres: a transaction that has counted acts on a count that others may have made
  wrong since. The state is the database with the transactions that have counted and have yet to
  commit, at most as many as the writer pool has connections: one on SQLite, sixteen on Postgres
  (internal/store/db.go).
\<close>

section \<open>Overlapping reports\<close>

type_synonym open_report = "observation \<times> int"

text \<open>
  A transaction counts, and is then open; an open one commits its upsert or gives up; and the other
  writers of the table, which is the pruning of old rows, only remove rows.
\<close>

inductive drift_step :: "nat \<Rightarrow> recorder \<times> open_report list \<Rightarrow> recorder \<times> open_report list \<Rightarrow> bool" for k where
  counted: "length pending < k \<Longrightarrow> \<not> unmatched_full obs st \<Longrightarrow> drift_step k (st, pending) (st, pending @ [(obs, now)])"
| committed: "(obs, now) \<in> set pending \<Longrightarrow>
     drift_step k (st, pending) (unmatchedUpsert obs now st, remove1 (obs, now) pending)"
| abandoned: "r \<in> set pending \<Longrightarrow> drift_step k (st, pending) (st, remove1 r pending)"
| others: "rs_unmatched st' = filter P (rs_unmatched st) \<Longrightarrow> drift_step k (st, pending) (st', pending)"

inductive_cases drift_stepE: "drift_step k s t"

definition queued :: "string \<Rightarrow> recorder \<Rightarrow> nat" where
  "queued rep st = length (filter (\<lambda>u. um_Reporter u = rep) (rs_unmatched st))"

definition open_for :: "string \<Rightarrow> open_report list \<Rightarrow> nat" where
  "open_for rep pending = length (filter (\<lambda>r. obs_Reporter (fst r) = rep) pending)"

text \<open>The rows of a reporter and its open transactions together stay within the limit and the pool.\<close>

definition drift_ok :: "nat \<Rightarrow> recorder \<times> open_report list \<Rightarrow> bool" where
  "drift_ok k s \<longleftrightarrow>
     length (snd s) \<le> k \<and> (\<forall>rep. queued rep (fst s) + open_for rep (snd s) < MaxUnmatchedPerReporter + k)"

lemma queued_upsert:
  "queued rep (unmatchedUpsert obs now st) \<le> queued rep st + (if obs_Reporter obs = rep then 1 else 0)"
proof -
  have upd: "length (filter (\<lambda>u. um_Reporter u = rep) (update_where P f rows)) = length (filter (\<lambda>u. um_Reporter u = rep) rows)"
    if "\<And>u. um_Reporter (f u) = um_Reporter u" for P f rows
    using that by (induction rows) (auto simp: update_where_def)
  show ?thesis by (simp add: queued_def unmatchedUpsert_def Let_def upd)
qed

lemma open_for_remove:
  "r \<in> set pending \<Longrightarrow> open_for rep pending = open_for rep (remove1 r pending) + (if obs_Reporter (fst r) = rep then 1 else 0)"
  by (induction pending) (auto simp: open_for_def)

lemma open_for_le: "open_for rep pending \<le> length pending"
  by (simp add: open_for_def)

interpretation drift: step_invariant "drift_step k" "drift_ok k" for k
proof
  fix s t
  assume "drift_step k s t" and ok: "drift_ok k s"
  from this(1) show "drift_ok k t"
  proof cases
    case (counted pending obs st now)
    have "queued rep st + open_for rep (pending @ [(obs, now)]) < MaxUnmatchedPerReporter + k" for rep
    proof (cases "obs_Reporter obs = rep")
      case True
      with counted have "queued rep st < MaxUnmatchedPerReporter" by (auto simp: unmatched_full_def queued_def)
      moreover have "open_for rep (pending @ [(obs, now)]) \<le> Suc (length pending)" using open_for_le [of rep "pending @ [(obs, now)]"] by simp
      ultimately show ?thesis using counted(3) by linarith
    qed (use ok counted in \<open>simp add: drift_ok_def open_for_def\<close>)
    with counted show ?thesis by (simp add: drift_ok_def)
  next
    case (committed obs now pending st)
    have "queued rep (unmatchedUpsert obs now st) + open_for rep (remove1 (obs, now) pending) < MaxUnmatchedPerReporter + k" for rep
    proof -
      have "queued rep st + open_for rep pending < MaxUnmatchedPerReporter + k" using ok committed by (simp add: drift_ok_def)
      with queued_upsert [of rep obs now st] open_for_remove [OF committed(3), of rep] show ?thesis by (simp split: if_splits)
    qed
    moreover have "length (remove1 (obs, now) pending) \<le> k" using ok committed by (auto simp: drift_ok_def length_remove1)
    ultimately show ?thesis using committed by (simp add: drift_ok_def)
  next
    case (abandoned r pending st)
    have "queued rep st + open_for rep (remove1 r pending) < MaxUnmatchedPerReporter + k" for rep
    proof -
      have "queued rep st + open_for rep pending < MaxUnmatchedPerReporter + k" using ok abandoned by (simp add: drift_ok_def)
      with open_for_remove [OF abandoned(3), of rep] show ?thesis by (simp split: if_splits)
    qed
    with ok abandoned show ?thesis by (auto simp: drift_ok_def length_remove1)
  next
    case (others st' P st pending)
    have "queued rep st' \<le> queued rep st" for rep
      using length_filter_le [of P "filter (\<lambda>u. um_Reporter u = rep) (rs_unmatched st)"]
      by (simp add: queued_def others(3) conj_commute)
    with ok others show ?thesis by (auto simp: drift_ok_def intro: le_less_trans add_right_mono)
  qed
qed

section \<open>Properties\<close>

text \<open>
  A credential cannot fill the drift queue: starting from an empty queue, however the transactions
  of up to \<open>k\<close> overlapping reports and the pruning of old rows interleave, each transaction counting
  before it inserts, the reports of one credential about entities that do not exist occupy at most
  \<open>MaxUnmatchedPerReporter + k - 1\<close> rows: 500 with the one writer connection of SQLite, and 515 with
  the sixteen of Postgres. (C33)
\<close>

theorem drift_queue_bounded:
  assumes "(drift_step k)\<^sup>*\<^sup>* (st, []) (st', pending)" "rs_unmatched st = []" "0 < k"
  shows "queued rep st' \<le> MaxUnmatchedPerReporter + k - 1"
proof -
  have "drift_ok k (st, [])" using assms(2,3) by (simp add: drift_ok_def queued_def open_for_def MaxUnmatchedPerReporter_def)
  from drift.reachable [OF assms(1) this] have "queued rep st' + open_for rep pending < MaxUnmatchedPerReporter + k"
    by (simp add: drift_ok_def)
  then show ?thesis by simp
qed



section \<open>Witnesses\<close>

theorem drift_queue_bounded_witness:
  "queued ''prom'' (unmatchedUpsert (demo_obs ''up'') demo_now demo_store) \<le> 500"
proof -
  have "\<not> unmatched_full (demo_obs ''up'') demo_store"
    by (simp add: unmatched_full_def demo_store_def MaxUnmatchedPerReporter_def)
  then have "drift_step 1 (demo_store, []) (demo_store, [(demo_obs ''up'', demo_now)])"
    using drift_step.counted [of "[]" 1 "demo_obs ''up''" demo_store demo_now] by simp
  moreover have "drift_step 1 (demo_store, [(demo_obs ''up'', demo_now)]) (unmatchedUpsert (demo_obs ''up'') demo_now demo_store, [])"
    using drift_step.committed [of "demo_obs ''up''" demo_now "[(demo_obs ''up'', demo_now)]" 1 demo_store] by simp
  ultimately have "(drift_step 1)\<^sup>*\<^sup>* (demo_store, []) (unmatchedUpsert (demo_obs ''up'') demo_now demo_store, [])"
    by (meson converse_rtranclp_into_rtranclp r_into_rtranclp)
  from drift_queue_bounded [OF this, of "''prom''"] show ?thesis
    by (simp add: demo_store_def MaxUnmatchedPerReporter_def)
qed



end
