(* ===== verification/Accounts.thy ===== *)
theory Accounts
  imports Trail Timestamp
begin

text \<open>
  Accounts and sign-in: the table of users with every statement that writes it (users.go and
  users_admin.go of internal/store) and the authenticators of internal/auth. The directory and the
  password hash are parameters.
\<close>

section \<open>The tables\<close>

definition UserSourceLocal :: string where "UserSourceLocal = ''local''"
definition UserSourceLDAP :: string where "UserSourceLDAP = ''ldap''"
definition UserSourceOIDC :: string where "UserSourceOIDC = ''oidc''"

record savedView =
  sv_ID :: string
  sv_UserID :: string
  sv_Entity :: string
  sv_Name :: string
  sv_Params :: string
  sv_Lifecycle :: string
  sv_CreatedAt :: string
  sv_UpdatedAt :: string
  sv_RowVersion :: int

record accounts =
  ac_users :: "appUser list"
  ac_views :: "savedView list"
  ac_log :: "changeLog list"

definition user_row :: "appUser \<Rightarrow> audited" where
  "user_row u =
     \<lparr>au_type = ''AppUser'',
      au_fields = map (\<lambda>(tag, v). (''AppUser'', tag, v))
        [(''id'', VText (usr_ID u)), (''username'', VText (usr_Username u)),
         (''display_name'', opt_text (usr_DisplayName u)), (''email'', opt_text (usr_Email u)),
         (''source'', VText (usr_Source u)), (''password_hash'', opt_text (usr_PasswordHash u)),
         (''is_active'', VBool (usr_IsActive u)), (''last_login_at'', opt_text (usr_LastLoginAt u)),
         (''created_at'', VText (usr_CreatedAt u)), (''role'', VText (usr_Role u)),
         (''can_see_costs'', VBool (usr_CanSeeCosts u)), (''subject'', opt_text (usr_Subject u))]\<rparr>"

definition log_accounts :: "(changeLog list \<Rightarrow> changeLog list result) \<Rightarrow> accounts \<Rightarrow> accounts result" where
  "log_accounts f db = bind_result (f (ac_log db)) (\<lambda>rows. Inr (db\<lparr>ac_log := rows\<rparr>))"

definition GetUser :: "accounts \<Rightarrow> string \<Rightarrow> appUser option" where
  "GetUser db uid = find (\<lambda>u. usr_ID u = uid) (ac_users db)"

definition GetUserByUsername :: "accounts \<Rightarrow> string \<Rightarrow> appUser option" where
  "GetUserByUsername db username = find (\<lambda>u. usr_Username u = to_lower username) (ac_users db)"

definition GetUserBySubject :: "accounts \<Rightarrow> string \<Rightarrow> appUser option" where
  "GetUserBySubject db subject = find (\<lambda>u. usr_Subject u = Some subject) (ac_users db)"

definition active_admin :: "appUser \<Rightarrow> bool" where
  "active_admin u \<longleftrightarrow> usr_Role u = RoleAdministrator \<and> usr_IsActive u"

definition CountActiveAdministrators :: "accounts \<Rightarrow> int" where
  "CountActiveAdministrators db = int (length (filter active_admin (ac_users db)))"

text \<open>The constraints of the table: keys on the id, the username and the subject, and two CHECKs.\<close>

definition clashes :: "appUser \<Rightarrow> appUser \<Rightarrow> bool" where
  "clashes u v \<longleftrightarrow> usr_Username u = usr_Username v \<or> usr_Subject u \<noteq> None \<and> usr_Subject u = usr_Subject v"

definition user_checks :: "appUser \<Rightarrow> bool" where
  "user_checks u \<longleftrightarrow> oneOf (usr_Source u) UserSources \<and> oneOf (usr_Role u) Roles"

definition insert_user :: "appUser \<Rightarrow> accounts \<Rightarrow> accounts result" where
  "insert_user u db =
     bind_result (require (user_checks u) (ErrInvalid [])) (\<lambda>_.
     bind_result (require (list_all (\<lambda>v. usr_ID v \<noteq> usr_ID u \<and> \<not> clashes v u) (ac_users db)) ErrConflict) (\<lambda>_.
       Inr (db\<lparr>ac_users := ac_users db @ [u]\<rparr>)))"

definition update_user :: "string \<Rightarrow> (appUser \<Rightarrow> appUser) \<Rightarrow> accounts \<Rightarrow> accounts result" where
  "update_user uid f db =
     (case GetUser db uid of
        None \<Rightarrow> Inr db
      | Some u \<Rightarrow>
          bind_result (require (user_checks (f u)) (ErrInvalid [])) (\<lambda>_.
          bind_result (require (list_all (\<lambda>v. usr_ID v = uid \<or> \<not> clashes v (f u)) (ac_users db)) ErrConflict) (\<lambda>_.
            Inr (db\<lparr>ac_users := update_where (\<lambda>v. usr_ID v = uid) f (ac_users db)\<rparr>))))"

section \<open>Accounts that sign-in creates\<close>

definition CreateUser :: "permit option \<Rightarrow> string \<Rightarrow> appUser \<Rightarrow> accounts \<Rightarrow> accounts result" where
  "CreateUser p now u =
     writeTx p now (\<lambda>t db.
       bind_result (insert_user u db)
         (log_accounts (logCreate t ''app_user'' (usr_ID u) (user_row (u\<lparr>usr_PasswordHash := None\<rparr>)))))"

definition directory_permit :: "string \<Rightarrow> permit" where
  "directory_permit name = administratorPermit \<lparr>act_ID = name, act_Name = name, act_Kind = ActorKindSystem\<rparr>"

definition nonempty :: "string \<Rightarrow> string option" where
  "nonempty s = (if s = [] then None else Some s)"

text \<open>\<open>newID\<close> is the id that \<open>NewID\<close> generates, \<open>now\<close> the formatted time of the clock.\<close>

definition UpsertLDAPUser ::
  "string \<Rightarrow> string \<Rightarrow> string \<Rightarrow> string \<Rightarrow> string \<Rightarrow> accounts \<Rightarrow> (appUser \<times> accounts) result" where
  "UpsertLDAPUser newID now username displayName email db =
     (case GetUserByUsername db username of
        Some existing \<Rightarrow> if usr_Source existing \<noteq> UserSourceLDAP then Inl ErrConflict else Inr (existing, db)
      | None \<Rightarrow>
          bind_result (NewAppUser newID username UserSourceLDAP now) (\<lambda>u0.
            let u = u0\<lparr>usr_DisplayName := nonempty displayName, usr_Email := nonempty email\<rparr> in
            bind_result (CreateUser (Some (directory_permit ''ldap'')) now u db) (\<lambda>db'. Inr (u, db'))))"

text \<open>The statement of \<open>TouchLogin\<close> is its own transaction and leaves no entry.\<close>

definition TouchLogin :: "string \<Rightarrow> string \<Rightarrow> accounts \<Rightarrow> accounts" where
  "TouchLogin now uid db =
     db\<lparr>ac_users := update_where (\<lambda>u. usr_ID u = uid) (\<lambda>u. u\<lparr>usr_LastLoginAt := Some now\<rparr>) (ac_users db)\<rparr>"

text \<open>\<open>existing\<close> was read before the transaction began.\<close>

definition updateOIDCUser ::
  "string \<Rightarrow> appUser \<Rightarrow> string \<Rightarrow> string \<Rightarrow> string \<Rightarrow> accounts \<Rightarrow> (appUser \<times> accounts) result" where
  "updateOIDCUser now existing username displayName email db =
     (let after = existing\<lparr>usr_Username := NormalizeUsername username, usr_DisplayName := nonempty displayName,
                           usr_Email := nonempty email\<rparr> in
      bind_result
        (writeTx (Some (directory_permit ''oidc'')) now (\<lambda>t db.
          bind_result (update_user (usr_ID existing)
              (\<lambda>u. u\<lparr>usr_Username := usr_Username after, usr_DisplayName := usr_DisplayName after,
                     usr_Email := usr_Email after, usr_LastLoginAt := Some now\<rparr>) db)
            (log_accounts (logUpdate t ''app_user'' (usr_ID existing)
               (user_row (existing\<lparr>usr_LastLoginAt := None\<rparr>)) (user_row (after\<lparr>usr_LastLoginAt := None\<rparr>))))) db)
        (\<lambda>db'. Inr (after\<lparr>usr_LastLoginAt := Some now\<rparr>, db')))"

definition UpsertOIDCUser ::
  "string \<Rightarrow> string \<Rightarrow> string \<Rightarrow> string \<Rightarrow> string \<Rightarrow> string \<Rightarrow> accounts \<Rightarrow> (appUser \<times> accounts) result" where
  "UpsertOIDCUser newID now subject username displayName email db =
     (case GetUserBySubject db subject of
        Some existing \<Rightarrow> updateOIDCUser now existing username displayName email db
      | None \<Rightarrow>
          (case GetUserByUsername db username of
             Some _ \<Rightarrow> Inl ErrConflict
           | None \<Rightarrow>
               bind_result (NewAppUser newID username UserSourceOIDC now) (\<lambda>u0.
                 let u = u0\<lparr>usr_Subject := Some subject, usr_DisplayName := nonempty displayName,
                            usr_Email := nonempty email\<rparr> in
                 bind_result (CreateUser (Some (directory_permit ''oidc'')) now u db) (\<lambda>db'. Inr (u, db')))))"

section \<open>Administration\<close>

definition getUser :: "accounts \<Rightarrow> string \<Rightarrow> appUser result" where
  "getUser db uid = (case GetUser db uid of None \<Rightarrow> Inl ErrNotFound | Some u \<Rightarrow> Inr u)"

definition refuseIfLastActiveAdministrator :: "accounts \<Rightarrow> unit result" where
  "refuseIfLastActiveAdministrator db = require (1 < CountActiveAdministrators db) ErrForbidden"

definition log_user_change :: "txn \<Rightarrow> appUser \<Rightarrow> (appUser \<Rightarrow> appUser) \<Rightarrow> accounts \<Rightarrow> accounts result" where
  "log_user_change t before f =
     log_accounts (logUpdate t ''app_user'' (usr_ID before) (user_row before) (user_row (f before)))"

text \<open>
  The transactions. Each reads the row again inside the transaction, whatever was read before it.
\<close>

definition set_role_tx :: "permit option \<Rightarrow> string \<Rightarrow> string \<Rightarrow> string \<Rightarrow> accounts \<Rightarrow> accounts result" where
  "set_role_tx p now uid role =
     writeTx p now (\<lambda>t db.
       bind_result (getUser db uid) (\<lambda>before.
         if usr_Role before = role then Inr db
         else
           bind_result (if active_admin before then refuseIfLastActiveAdministrator db else Inr ()) (\<lambda>_.
           bind_result (update_user uid (\<lambda>u. u\<lparr>usr_Role := role\<rparr>) db)
             (log_user_change t before (\<lambda>u. u\<lparr>usr_Role := role\<rparr>)))))"

definition SetUserRole :: "permit option \<Rightarrow> string \<Rightarrow> string \<Rightarrow> string \<Rightarrow> accounts \<Rightarrow> accounts result" where
  "SetUserRole p now uid role db =
     bind_result (getUser db uid) (\<lambda>current.
       if usr_Role current = role then Inr db
       else bind_result (validated (ValidateRole (current\<lparr>usr_Role := role\<rparr>)) ()) (\<lambda>_.
         set_role_tx p now uid role db))"

definition set_costs_tx :: "permit option \<Rightarrow> string \<Rightarrow> string \<Rightarrow> bool \<Rightarrow> accounts \<Rightarrow> accounts result" where
  "set_costs_tx p now uid canSee =
     writeTx p now (\<lambda>t db.
       bind_result (getUser db uid) (\<lambda>before.
         if usr_CanSeeCosts before = canSee then Inr db
         else bind_result (update_user uid (\<lambda>u. u\<lparr>usr_CanSeeCosts := canSee\<rparr>) db)
                (log_user_change t before (\<lambda>u. u\<lparr>usr_CanSeeCosts := canSee\<rparr>))))"

definition SetUserCostVisibility :: "permit option \<Rightarrow> string \<Rightarrow> string \<Rightarrow> bool \<Rightarrow> accounts \<Rightarrow> accounts result" where
  "SetUserCostVisibility p now uid canSee db =
     bind_result (getUser db uid) (\<lambda>current.
       if usr_CanSeeCosts current = canSee then Inr db else set_costs_tx p now uid canSee db)"

definition set_active_tx :: "permit option \<Rightarrow> string \<Rightarrow> string \<Rightarrow> bool \<Rightarrow> accounts \<Rightarrow> accounts result" where
  "set_active_tx p now uid active =
     writeTx p now (\<lambda>t db.
       bind_result (getUser db uid) (\<lambda>before.
         if usr_IsActive before = active then Inr db
         else
           bind_result (if \<not> active \<and> active_admin before then refuseIfLastActiveAdministrator db else Inr ()) (\<lambda>_.
           bind_result (update_user uid (\<lambda>u. u\<lparr>usr_IsActive := active\<rparr>) db)
             (log_user_change t before (\<lambda>u. u\<lparr>usr_IsActive := active\<rparr>)))))"

definition SetUserActive :: "permit option \<Rightarrow> string \<Rightarrow> string \<Rightarrow> bool \<Rightarrow> accounts \<Rightarrow> accounts result" where
  "SetUserActive p now uid active db =
     bind_result (getUser db uid) (\<lambda>current.
       if usr_IsActive current = active then Inr db else set_active_tx p now uid active db)"

definition scrubbedUsername :: "string \<Rightarrow> string" where
  "scrubbedUsername uid = ''scrubbed-'' @ uid"

definition scrubbed :: "string \<Rightarrow> appUser \<Rightarrow> appUser" where
  "scrubbed uid u =
     u\<lparr>usr_Username := scrubbedUsername uid, usr_DisplayName := None, usr_Email := None, usr_PasswordHash := None,
       usr_IsActive := False, usr_Subject := None\<rparr>"

definition ScrubUser :: "permit option \<Rightarrow> string \<Rightarrow> string \<Rightarrow> accounts \<Rightarrow> accounts result" where
  "ScrubUser p now uid =
     writeTx p now (\<lambda>t db.
       bind_result (getUser db uid) (\<lambda>before.
       bind_result (if active_admin before then refuseIfLastActiveAdministrator db else Inr ()) (\<lambda>_.
       bind_result (update_user uid (scrubbed uid) db) (\<lambda>db'.
         log_user_change t before (scrubbed uid)
           (db'\<lparr>ac_views := filter (\<lambda>v. sv_UserID v \<noteq> uid) (ac_views db')\<rparr>)))))"

section \<open>Authenticators\<close>

datatype auth_error = ErrInvalidCredentials | OperationalError

type_synonym authenticator = "string \<Rightarrow> string \<Rightarrow> accounts \<Rightarrow> auth_error + (appUser \<times> accounts)"

text \<open>
  \<open>compare\<close> is \<open>argon2id.ComparePasswordAndHash\<close>: \<open>None\<close> for a hash it cannot read. The comparison
  with a dummy hash only takes time and is left out.
\<close>

definition LocalAuthenticate :: "(string \<Rightarrow> string \<Rightarrow> bool option) \<Rightarrow> authenticator" where
  "LocalAuthenticate compare username password db =
     (case GetUserByUsername db username of
        None \<Rightarrow> Inl ErrInvalidCredentials
      | Some u \<Rightarrow>
          (case usr_PasswordHash u of
             None \<Rightarrow> Inl ErrInvalidCredentials
           | Some hash \<Rightarrow>
               if \<not> usr_IsActive u \<or> usr_Source u \<noteq> UserSourceLocal then Inl ErrInvalidCredentials
               else (case compare password hash of
                       None \<Rightarrow> Inl OperationalError
                     | Some match \<Rightarrow> if match then Inr (u, db) else Inl ErrInvalidCredentials)))"

definition safeUsername :: "string \<Rightarrow> bool" where
  "safeUsername username \<longleftrightarrow>
     username \<noteq> [] \<and> length username \<le> 128
     \<and> list_all (\<lambda>c. CHR ''a'' \<le> c \<and> c \<le> CHR ''z'' \<or> CHR ''A'' \<le> c \<and> c \<le> CHR ''Z''
          \<or> CHR ''0'' \<le> c \<and> c \<le> CHR ''9'' \<or> List.member ''.-_@'' c) username"

text \<open>
  \<open>bind\<close> is the directory: the simple bind with the name built from the username, \<open>None\<close> when the
  directory does not answer or answers with anything but success or bad credentials.
\<close>

definition LDAPAuthenticate :: "(string \<Rightarrow> string \<Rightarrow> bool option) \<Rightarrow> string \<Rightarrow> string \<Rightarrow> authenticator" where
  "LDAPAuthenticate bind newID now username password db =
     (if \<not> safeUsername username then Inl ErrInvalidCredentials
      else if password = [] then Inl ErrInvalidCredentials
      else
        (case bind username password of
           None \<Rightarrow> Inl OperationalError
         | Some False \<Rightarrow> Inl ErrInvalidCredentials
         | Some True \<Rightarrow>
             (case UpsertLDAPUser newID now username [] [] db of
                Inl _ \<Rightarrow> Inl OperationalError
              | Inr (u, db') \<Rightarrow> if \<not> usr_IsActive u then Inl ErrInvalidCredentials else Inr (u, db'))))"

fun try_each :: "string \<Rightarrow> authenticator list \<Rightarrow> string \<Rightarrow> string \<Rightarrow> accounts \<Rightarrow> auth_error + (appUser \<times> accounts)" where
  "try_each now [] username password db = Inl ErrInvalidCredentials"
| "try_each now (a # as) username password db =
     (case a username password db of
        Inr (u, db') \<Rightarrow> Inr (u, TouchLogin now (usr_ID u) db')
      | Inl ErrInvalidCredentials \<Rightarrow> try_each now as username password db
      | Inl OperationalError \<Rightarrow> Inl OperationalError)"

definition ChainAuthenticate :: "string \<Rightarrow> authenticator list \<Rightarrow> authenticator" where
  "ChainAuthenticate now authenticators username0 password db =
     (let username = to_lower (trim_space username0) in
      if username = [] \<or> password = [] then Inl ErrInvalidCredentials
      else try_each now authenticators username password db)"

end
