(* ===== verification/Accounts_Props.thy ===== *)
theory Accounts_Props
  imports Accounts
begin

text \<open>
  What holds of the accounts under any sequence of operations: an administrator remains, roles
  only change under the permit of an administrator, an erased person stays erased, personal data
  stay out of the trail, and sign-in returns an account its authenticator vouches for.
\<close>

section \<open>Rows\<close>

text \<open>One transaction on the accounts, with whatever was read before it.\<close>

inductive account_step :: "accounts \<Rightarrow> accounts \<Rightarrow> bool" where
  create: "CreateUser p now u db = Inr db' \<Longrightarrow> account_step db db'"
| touch: "account_step db (TouchLogin now uid db)"
| oidc: "updateOIDCUser now existing username displayName email db = Inr (u, db') \<Longrightarrow> account_step db db'"
| role: "set_role_tx p now uid role db = Inr db' \<Longrightarrow> account_step db db'"
| costs: "set_costs_tx p now uid canSee db = Inr db' \<Longrightarrow> account_step db db'"
| active: "set_active_tx p now uid active db = Inr db' \<Longrightarrow> account_step db db'"
| scrub: "ScrubUser p now uid db = Inr db' \<Longrightarrow> account_step db db'"

lemma update_user_Inr:
  assumes "update_user uid f db = Inr db'"
  shows "ac_users db' = update_where (\<lambda>v. usr_ID v = uid) f (ac_users db) \<and> ac_log db' = ac_log db \<and> ac_views db' = ac_views db"
proof (cases "GetUser db uid")
  case None
  then have "usr_ID v \<noteq> uid" if "v \<in> set (ac_users db)" for v
    using that by (auto simp: GetUser_def find_None_iff)
  then have "update_where (\<lambda>v. usr_ID v = uid) f (ac_users db) = ac_users db"
    by (simp add: update_where_def map_idI)
  with None assms show ?thesis by (simp add: update_user_def)
qed (use assms in \<open>auto simp: update_user_def\<close>)

lemma log_accounts_Inr: "log_accounts f db = Inr db' \<longleftrightarrow> (\<exists>rows. f (ac_log db) = Inr rows \<and> db' = db\<lparr>ac_log := rows\<rparr>)"
  by (auto simp: log_accounts_def bind_result_Inr)

lemma getUser_Inr [simp]: "getUser db uid = Inr u \<longleftrightarrow> GetUser db uid = Some u"
  by (simp add: getUser_def split: option.splits)

lemma GetUser_id: "GetUser db uid = Some u \<Longrightarrow> usr_ID u = uid \<and> u \<in> set (ac_users db)"
  by (auto simp: GetUser_def find_Some_iff)

text \<open>
  Every change of one account is the update of its row by a function of the row, with one entry of
  the trail at most; the permit covers the account unless nothing changed.
\<close>

definition changed_by :: "permit option \<Rightarrow> string \<Rightarrow> (appUser \<Rightarrow> appUser) \<Rightarrow> accounts \<Rightarrow> accounts \<Rightarrow> bool" where
  "changed_by p uid f db db' \<longleftrightarrow>
     ac_users db' = update_where (\<lambda>v. usr_ID v = uid) f (ac_users db)
     \<and> (\<exists>q. p = Some q \<and> Covers q ''app_user'' uid)
     \<and> (\<exists>t before after. logUpdate t ''app_user'' uid (user_row before) (user_row after) (ac_log db) = Inr (ac_log db'))"

lemma changed_byI:
  assumes "update_user uid f db = Inr db1" "usr_ID before = uid"
    and "log_user_change (begin_tx p now) before f (db1\<lparr>ac_views := vs\<rparr>) = Inr db'"
  shows "changed_by p uid f db db'"
proof -
  obtain rows where rows: "logUpdate (begin_tx p now) ''app_user'' uid (user_row before) (user_row (f before)) (ac_log db) = Inr rows"
    and db': "db' = db1\<lparr>ac_views := vs, ac_log := rows\<rparr>"
    using assms update_user_Inr [OF assms(1)] by (auto simp: log_user_change_def log_accounts_Inr)
  with update_user_Inr [OF assms(1)] logUpdate_Inr [OF rows] show ?thesis
    by (auto simp: changed_by_def)
qed

lemma changed_byI':
  assumes "update_user uid f db = Inr db1" "usr_ID before = uid"
    and "log_user_change (begin_tx p now) before f db1 = Inr db'"
  shows "changed_by p uid f db db'"
  using changed_byI [of uid f db db1 before p now "ac_views db1" db'] assms by simp

lemma set_role_cases:
  assumes "set_role_tx p now uid role db = Inr db'"
  obtains "db' = db"
  | before where "GetUser db uid = Some before" "usr_Role before \<noteq> role"
      "active_admin before \<Longrightarrow> 1 < CountActiveAdministrators db" "changed_by p uid (\<lambda>u. u\<lparr>usr_Role := role\<rparr>) db db'"
  using assms
  by (auto simp: set_role_tx_def writeTx_def bind_result_Inr refuseIfLastActiveAdministrator_def
      split: if_splits dest: GetUser_id intro: changed_byI')

lemma set_costs_cases:
  assumes "set_costs_tx p now uid canSee db = Inr db'"
  obtains "db' = db" | before where "GetUser db uid = Some before" "changed_by p uid (\<lambda>u. u\<lparr>usr_CanSeeCosts := canSee\<rparr>) db db'"
  using assms
  by (auto simp: set_costs_tx_def writeTx_def bind_result_Inr split: if_splits dest: GetUser_id intro: changed_byI')

lemma set_active_cases:
  assumes "set_active_tx p now uid active db = Inr db'"
  obtains "db' = db"
  | before where "GetUser db uid = Some before" "usr_IsActive before \<noteq> active"
      "\<not> active \<Longrightarrow> active_admin before \<Longrightarrow> 1 < CountActiveAdministrators db"
      "changed_by p uid (\<lambda>u. u\<lparr>usr_IsActive := active\<rparr>) db db'"
  using assms
  by (auto simp: set_active_tx_def writeTx_def bind_result_Inr refuseIfLastActiveAdministrator_def
      split: if_splits dest: GetUser_id intro: changed_byI')

lemma scrub_cases:
  assumes "ScrubUser p now uid db = Inr db'"
  obtains before where "GetUser db uid = Some before"
      "active_admin before \<Longrightarrow> 1 < CountActiveAdministrators db" "changed_by p uid (scrubbed uid) db db'"
      "\<And>v. v \<in> set (ac_views db') \<Longrightarrow> sv_UserID v \<noteq> uid"
proof -
  from assms obtain before db1 where b: "GetUser db uid = Some before" "update_user uid (scrubbed uid) db = Inr db1"
      "active_admin before \<Longrightarrow> 1 < CountActiveAdministrators db"
    and l: "log_user_change (begin_tx p now) before (scrubbed uid)
          (db1\<lparr>ac_views := filter (\<lambda>v. sv_UserID v \<noteq> uid) (ac_views db1)\<rparr>) = Inr db'"
    by (auto simp: ScrubUser_def writeTx_def bind_result_Inr refuseIfLastActiveAdministrator_def split: if_splits)
  have "changed_by p uid (scrubbed uid) db db'" using changed_byI [OF b(2) _ l] GetUser_id [OF b(1)] by simp
  moreover have "sv_UserID v \<noteq> uid" if "v \<in> set (ac_views db')" for v
    using l that by (auto simp: log_user_change_def log_accounts_Inr)
  ultimately show thesis using that b by blast
qed

lemma oidc_cases:
  assumes "updateOIDCUser now existing username displayName email db = Inr (u, db')"
  obtains "changed_by (Some (directory_permit ''oidc'')) (usr_ID existing)
      (\<lambda>v. v\<lparr>usr_Username := NormalizeUsername username, usr_DisplayName := nonempty displayName,
             usr_Email := nonempty email, usr_LastLoginAt := Some now\<rparr>) db db'"
proof -
  from assms obtain db1 rows where
    up: "update_user (usr_ID existing) (\<lambda>v. v\<lparr>usr_Username := NormalizeUsername username,
             usr_DisplayName := nonempty displayName, usr_Email := nonempty email, usr_LastLoginAt := Some now\<rparr>) db = Inr db1"
    and l: "logUpdate (begin_tx (Some (directory_permit ''oidc'')) now) ''app_user'' (usr_ID existing)
        (user_row (existing\<lparr>usr_LastLoginAt := None\<rparr>))
        (user_row (existing\<lparr>usr_Username := NormalizeUsername username, usr_DisplayName := nonempty displayName,
                           usr_Email := nonempty email, usr_LastLoginAt := None\<rparr>)) (ac_log db1) = Inr rows"
    and "db' = db1\<lparr>ac_log := rows\<rparr>"
    by (auto simp: updateOIDCUser_def Let_def writeTx_def bind_result_Inr log_accounts_Inr)
  with update_user_Inr [OF up] logUpdate_Inr [OF l] show thesis
    by (intro that) (auto simp: changed_by_def)
qed

lemma create_cases:
  assumes "CreateUser p now u db = Inr db'"
  obtains rows where "ac_users db' = ac_users db @ [u]" "GetUser db (usr_ID u) = None" "ac_log db' = rows"
    "\<exists>q. p = Some q \<and> Covers q ''app_user'' (usr_ID u)"
    "logCreate (begin_tx p now) ''app_user'' (usr_ID u) (user_row (u\<lparr>usr_PasswordHash := None\<rparr>)) (ac_log db) = Inr rows"
proof -
  from assms obtain rows where
    "list_all (\<lambda>v. usr_ID v \<noteq> usr_ID u \<and> \<not> clashes v u) (ac_users db)" "ac_users db' = ac_users db @ [u]"
    and l: "logCreate (begin_tx p now) ''app_user'' (usr_ID u) (user_row (u\<lparr>usr_PasswordHash := None\<rparr>)) (ac_log db) = Inr rows"
    "ac_log db' = rows"
    by (auto simp: CreateUser_def writeTx_def bind_result_Inr log_accounts_Inr insert_user_def)
  moreover have "GetUser db (usr_ID u) = None"
    using calculation(1) by (auto simp: GetUser_def find_None_iff list_all_iff)
  moreover have "\<exists>q. p = Some q \<and> Covers q ''app_user'' (usr_ID u)" using logCreate_Inr [OF l(1)] by simp
  ultimately show thesis using that by blast
qed

section \<open>The last administrator\<close>

lemma GetUser_update:
  assumes "\<And>u. usr_ID (f u) = usr_ID u" "ac_users db' = update_where (\<lambda>v. usr_ID v = uid) f (ac_users db)"
  shows "GetUser db' k = (if k = uid then map_option f (GetUser db k) else GetUser db k)"
proof -
  have "find (\<lambda>u. usr_ID u = k) (update_where (\<lambda>v. usr_ID v = uid) f us)
      = (if k = uid then map_option f (find (\<lambda>u. usr_ID u = k) us) else find (\<lambda>u. usr_ID u = k) us)" for us
    by (induction us) (auto simp: update_where_def assms(1))
  then show ?thesis by (simp add: GetUser_def assms(2))
qed

lemma ids_update:
  "(\<And>u. usr_ID (f u) = usr_ID u) \<Longrightarrow> map usr_ID (update_where P f us) = map usr_ID us"
  by (rule map_update_where)

lemma count_update:
  assumes "distinct (map usr_ID us)" "u \<in> set us" "usr_ID u = uid" "\<And>u. usr_ID (f u) = usr_ID u"
  shows "int (length (filter P (update_where (\<lambda>v. usr_ID v = uid) f us)))
     = int (length (filter P us)) - (if P u then 1 else 0) + (if P (f u) then 1 else 0)"
  using assms
proof (induction us)
  case (Cons v us)
  show ?case
  proof (cases "usr_ID v = uid")
    case True
    with Cons.prems have "u = v" by (metis distinct.simps(2) image_eqI list.set_map list.simps(9) set_ConsD)
    moreover have "usr_ID x \<noteq> uid" if "x \<in> set us" for x
      using True Cons.prems(1) that by (metis distinct.simps(2) image_eqI list.set_map list.simps(9))
    then have "update_where (\<lambda>v. usr_ID v = uid) f us = us" by (simp add: update_where_def map_idI)
    ultimately show ?thesis using True by (simp add: update_where_def)
  next
    case False
    with Cons.prems(2,3) have "u \<in> set us" by auto
    with Cons False show ?thesis by (auto simp: update_where_def split: if_splits)
  qed
qed simp

definition administered :: "accounts \<Rightarrow> bool" where
  "administered db \<longleftrightarrow> distinct (map usr_ID (ac_users db)) \<and> 1 \<le> CountActiveAdministrators db"

lemma administered_change:
  assumes "changed_by p uid f db db'" "administered db" "\<And>u. usr_ID (f u) = usr_ID u"
    and "\<And>u. GetUser db uid = Some u \<Longrightarrow> active_admin u \<Longrightarrow> active_admin (f u) \<or> 1 < CountActiveAdministrators db"
  shows "administered db'"
proof (cases "GetUser db uid")
  case None
  then have "usr_ID v \<noteq> uid" if "v \<in> set (ac_users db)" for v
    using that by (auto simp: GetUser_def find_None_iff)
  then have "ac_users db' = ac_users db"
    using assms(1) by (simp add: changed_by_def update_where_def map_idI)
  with assms(2) show ?thesis by (simp add: administered_def CountActiveAdministrators_def)
next
  case (Some u)
  note u = GetUser_id [OF Some]
  have "CountActiveAdministrators db' = CountActiveAdministrators db
      - (if active_admin u then 1 else 0) + (if active_admin (f u) then 1 else 0)"
    using assms(1,2) count_update [of "ac_users db" u uid f active_admin] u assms(3)
    by (simp add: CountActiveAdministrators_def changed_by_def administered_def)
  with assms(2) assms(4) [OF Some] show ?thesis
    by (auto simp: administered_def ids_update assms(1) [unfolded changed_by_def] assms(3) split: if_splits)
qed

lemma changed_refl_ids: "usr_ID (scrubbed uid u) = usr_ID u"
  by (simp add: scrubbed_def)

lemma administered_step:
  assumes "account_step db db'" "administered db"
  shows "administered db'"
  using assms(1)
proof (cases rule: account_step.cases)
  case (create p now u)
  from create(1) show ?thesis
    by (cases rule: create_cases)
      (use assms(2) in \<open>auto simp: administered_def CountActiveAdministrators_def GetUser_def find_None_iff\<close>)
next
  case (touch now uid)
  have "active_admin (u\<lparr>usr_LastLoginAt := x\<rparr>) = active_admin u" for u x by (simp add: active_admin_def)
  then have "length (filter active_admin (update_where P (\<lambda>u. u\<lparr>usr_LastLoginAt := x\<rparr>) us)) = length (filter active_admin us)"
    for P x us by (induction us) (auto simp: update_where_def)
  with touch assms(2) show ?thesis
    by (simp add: administered_def CountActiveAdministrators_def TouchLogin_def ids_update)
next
  case (oidc now existing username displayName email u)
  from oidc(1) show ?thesis
    by (cases rule: oidc_cases) (erule administered_change, use assms(2) in \<open>simp_all add: active_admin_def\<close>)
next
  case (role p now uid role)
  from role(1) show ?thesis
  proof (cases rule: set_role_cases)
    case (2 before)
    from 2(4) show ?thesis by (rule administered_change) (use assms(2) 2 in simp_all)
  qed (use assms(2) in simp)
next
  case (costs p now uid canSee)
  from costs(1) show ?thesis
  proof (cases rule: set_costs_cases)
    case (2 before)
    from 2(2) show ?thesis by (rule administered_change) (use assms(2) in \<open>simp_all add: active_admin_def\<close>)
  qed (use assms(2) in simp)
next
  case (active p now uid active)
  from active(1) show ?thesis
  proof (cases rule: set_active_cases)
    case (2 before)
    from 2(4) show ?thesis
      by (rule administered_change) (use assms(2) 2 in \<open>auto simp: active_admin_def\<close>)
  qed (use assms(2) in simp)
next
  case (scrub p now uid)
  from scrub(1) show ?thesis
  proof (cases rule: scrub_cases)
    case (1 before)
    from 1(3) show ?thesis by (rule administered_change) (use assms(2) 1 in \<open>simp_all add: changed_refl_ids\<close>)
  qed
qed

interpretation administration: step_invariant account_step administered
  by unfold_locales (rule administered_step)

text \<open>
  An administrator remains: whatever accounts are created, renamed, demoted, deactivated and
  scrubbed, in any order and whatever each transaction read before it began, there is always an
  active account with the administrator role. (C11)
\<close>

theorem an_administrator_remains:
  assumes "account_step\<^sup>*\<^sup>* db db'" "distinct (map usr_ID (ac_users db))" "1 \<le> CountActiveAdministrators db"
  shows "\<exists>u \<in> set (ac_users db'). usr_Role u = RoleAdministrator \<and> usr_IsActive u"
proof -
  have "administered db'" using administration.reachable [OF assms(1)] assms(2,3) by (simp add: administered_def)
  then have "filter active_admin (ac_users db') \<noteq> []" by (auto simp: administered_def CountActiveAdministrators_def)
  then show ?thesis by (auto simp: active_admin_def filter_empty_conv)
qed

section \<open>Roles\<close>

text \<open>The administrative operations, as they are called.\<close>

datatype account_op =
  OpCreate appUser
| OpRole string string
| OpCosts string bool
| OpActive string bool
| OpScrub string

fun run_account_op :: "permit option \<Rightarrow> string \<Rightarrow> account_op \<Rightarrow> accounts \<Rightarrow> accounts result" where
  "run_account_op p now (OpCreate u) db = CreateUser p now u db"
| "run_account_op p now (OpRole uid role) db = SetUserRole p now uid role db"
| "run_account_op p now (OpCosts uid canSee) db = SetUserCostVisibility p now uid canSee db"
| "run_account_op p now (OpActive uid active) db = SetUserActive p now uid active db"
| "run_account_op p now (OpScrub uid) db = ScrubUser p now uid db"

text \<open>Sign-ins, and operations under a permit that is not an administrator's.\<close>

definition administrator_permit :: "permit option \<Rightarrow> bool" where
  "administrator_permit p \<longleftrightarrow> (\<exists>a. p = Some (administratorPermit a))"

inductive sign_in_step :: "accounts \<Rightarrow> accounts \<Rightarrow> bool" where
  ldap: "UpsertLDAPUser newID now username displayName email db = Inr (u, db') \<Longrightarrow> sign_in_step db db'"
| oidc: "UpsertOIDCUser newID now subject username displayName email db = Inr (u, db') \<Longrightarrow> sign_in_step db db'"
| touch: "sign_in_step db (TouchLogin now uid db)"

inductive unprivileged_step :: "accounts \<Rightarrow> accounts \<Rightarrow> bool" where
  sign_in: "sign_in_step db db' \<Longrightarrow> unprivileged_step db db'"
| op: "\<not> administrator_permit p \<Longrightarrow> run_account_op p now x db = Inr db' \<Longrightarrow> unprivileged_step db db'"

lemma covers_app_user: "Covers q ''app_user'' i \<longleftrightarrow> administrator_permit (Some q)"
  by (cases q) (auto simp: administrator_permit_def scoped_estate_refused)

text \<open>What an operation that is called leaves: nothing changed, or one transaction ran.\<close>

lemma run_op_unprivileged:
  assumes "run_account_op p now x db = Inr db'" "\<not> administrator_permit p"
  shows "db' = db"
proof -
  have no: "\<not> changed_by p uid f db db'" for uid f using assms(2) by (auto simp: changed_by_def covers_app_user)
  show ?thesis
  proof (cases x)
    case (OpCreate u)
    with assms show ?thesis by (auto simp: covers_app_user elim!: create_cases)
  next
    case (OpRole uid role)
    with assms(1) no show ?thesis by (auto simp: SetUserRole_def bind_result_Inr split: if_splits elim: set_role_cases)
  next
    case (OpCosts uid canSee)
    with assms(1) no show ?thesis by (auto simp: SetUserCostVisibility_def bind_result_Inr split: if_splits elim: set_costs_cases)
  next
    case (OpActive uid active)
    with assms(1) no show ?thesis by (auto simp: SetUserActive_def bind_result_Inr split: if_splits elim: set_active_cases)
  next
    case (OpScrub uid)
    with assms(1) no show ?thesis by (auto elim: scrub_cases)
  qed
qed

text \<open>What an account is granted, and what identifies the person who signs in to it.\<close>

definition grants :: "appUser \<Rightarrow> string \<times> bool \<times> bool \<times> string \<times> string option \<times> string option" where
  "grants u = (usr_Role u, usr_CanSeeCosts u, usr_IsActive u, usr_Source u, usr_PasswordHash u, usr_Subject u)"

definition keeps_grants :: "accounts \<Rightarrow> accounts \<Rightarrow> bool" where
  "keeps_grants db db' \<longleftrightarrow>
     (\<forall>uid u. GetUser db uid = Some u \<longrightarrow> map_option grants (GetUser db' uid) = Some (grants u))
     \<and> (\<forall>uid u. GetUser db uid = None \<and> GetUser db' uid = Some u \<longrightarrow>
          usr_Role u = RoleObserver \<and> \<not> usr_CanSeeCosts u \<and> usr_PasswordHash u = None)"

lemma keeps_grants_refl: "keeps_grants db db"
  by (auto simp: keeps_grants_def)

lemma keeps_grants_trans:
  assumes "keeps_grants a b" "keeps_grants b c"
  shows "keeps_grants a c"
proof -
  have "map_option grants (GetUser c uid) = Some (grants u)" if "GetUser a uid = Some u" for uid u
    using assms that unfolding keeps_grants_def by (metis map_option_eq_Some)
  moreover have "usr_Role u = RoleObserver \<and> \<not> usr_CanSeeCosts u \<and> usr_PasswordHash u = None"
    if "GetUser a uid = None" "GetUser c uid = Some u" for uid u
  proof (cases "GetUser b uid")
    case None
    with assms(2) that(2) show ?thesis by (simp add: keeps_grants_def)
  next
    case (Some v)
    then have "map_option grants (GetUser c uid) = Some (grants v)" using assms(2) unfolding keeps_grants_def by blast
    then have "grants u = grants v" using that(2) by simp
    moreover have "usr_Role v = RoleObserver \<and> \<not> usr_CanSeeCosts v \<and> usr_PasswordHash v = None"
      using assms(1) that(1) Some by (simp add: keeps_grants_def)
    ultimately show ?thesis by (simp add: grants_def)
  qed
  ultimately show ?thesis unfolding keeps_grants_def by blast
qed

lemma keeps_grants_update:
  assumes "ac_users db' = update_where (\<lambda>v. usr_ID v = uid) f (ac_users db)"
    and "\<And>u. usr_ID (f u) = usr_ID u" "\<And>u. grants (f u) = grants u"
  shows "keeps_grants db db'"
  by (auto simp: keeps_grants_def GetUser_update [OF assms(2,1)] assms(3))

lemma keeps_grants_create:
  assumes "CreateUser p now u db = Inr db'" "usr_Role u = RoleObserver" "\<not> usr_CanSeeCosts u" "usr_PasswordHash u = None"
  shows "keeps_grants db db'"
  using assms(1)
proof (cases rule: create_cases)
  case (1 rows)
  have "GetUser db' uid = (case GetUser db uid of Some v \<Rightarrow> Some v | None \<Rightarrow> if usr_ID u = uid then Some u else None)" for uid
  proof -
    have "find (\<lambda>u. usr_ID u = uid) (us @ [u])
        = (case find (\<lambda>u. usr_ID u = uid) us of Some v \<Rightarrow> Some v | None \<Rightarrow> if usr_ID u = uid then Some u else None)" for us
      by (induction us) simp_all
    then show ?thesis by (simp add: GetUser_def 1(1))
  qed
  with assms(2-) show ?thesis by (auto simp: keeps_grants_def split: option.splits if_splits)
qed

lemma sign_in_keeps_grants:
  assumes "sign_in_step db db'"
  shows "keeps_grants db db'"
  using assms
proof cases
  case (ldap newID now username displayName email u)
  then show ?thesis
    by (auto simp: UpsertLDAPUser_def Let_def bind_result_Inr NewAppUser_def keeps_grants_refl
        split: option.splits if_splits intro: keeps_grants_create)
next
  case (oidc newID now subject username displayName email u)
  show ?thesis
  proof (cases "GetUserBySubject db subject")
    case None
    with oidc show ?thesis
      by (auto simp: UpsertOIDCUser_def Let_def bind_result_Inr NewAppUser_def
          split: option.splits if_splits intro: keeps_grants_create)
  next
    case (Some existing)
    with oidc have "updateOIDCUser now existing username displayName email db = Inr (u, db')"
      by (simp add: UpsertOIDCUser_def)
    then show ?thesis
      by (cases rule: oidc_cases) (auto simp: changed_by_def grants_def intro: keeps_grants_update)
  qed
next
  case (touch now uid)
  then show ?thesis by (auto simp: TouchLogin_def grants_def intro!: keeps_grants_update)
qed

text \<open>
  Only an administrator grants anything: through any number of sign-ins and of operations under
  permits that are not an administrator's, every account keeps its role, its view of costs, its
  source, its password hash, its subject at the identity provider and whether it is active, and an
  account that appears is an observer without a view of costs and without a password. (C21)
\<close>

theorem only_administrators_grant:
  assumes "unprivileged_step\<^sup>*\<^sup>* db db'"
  shows "(\<forall>uid u. GetUser db uid = Some u \<longrightarrow> (\<exists>u'. GetUser db' uid = Some u' \<and> grants u' = grants u))
     \<and> (\<forall>uid u. GetUser db uid = None \<and> GetUser db' uid = Some u \<longrightarrow>
          usr_Role u = RoleObserver \<and> \<not> usr_CanSeeCosts u \<and> usr_PasswordHash u = None)"
proof -
  have "keeps_grants db db'"
    using assms
  proof (induction rule: rtranclp_induct)
    case base
    show ?case by (rule keeps_grants_refl)
  next
    case (step a b)
    from step.hyps(2) have "keeps_grants a b"
      by cases (auto dest: run_op_unprivileged intro: sign_in_keeps_grants keeps_grants_refl)
    with step.IH show ?case by (rule keeps_grants_trans)
  qed
  then show ?thesis by (simp add: keeps_grants_def)
qed

section \<open>Erasure\<close>

text \<open>A row without a person: nothing of it names anybody, and no sign-in finds it by its subject.\<close>

definition erased :: "appUser \<Rightarrow> bool" where
  "erased u \<longleftrightarrow> usr_Username u = scrubbedUsername (usr_ID u) \<and> usr_DisplayName u = None \<and> usr_Email u = None
     \<and> usr_PasswordHash u = None \<and> usr_Subject u = None"

inductive whole_step :: "accounts \<Rightarrow> accounts \<Rightarrow> bool" where
  sign_in: "sign_in_step db db' \<Longrightarrow> whole_step db db'"
| op: "run_account_op p now x db = Inr db' \<Longrightarrow> whole_step db db'"

definition erased_row :: "string \<Rightarrow> accounts \<Rightarrow> bool" where
  "erased_row uid db \<longleftrightarrow> distinct (map usr_ID (ac_users db)) \<and> (\<exists>u. GetUser db uid = Some u \<and> erased u)"

lemma erased_update:
  assumes "ac_users db' = update_where (\<lambda>v. usr_ID v = k) f (ac_users db)" "erased_row uid db"
    and "\<And>u. usr_ID (f u) = usr_ID u" "\<And>u. k = uid \<Longrightarrow> usr_ID u = uid \<Longrightarrow> erased u \<Longrightarrow> erased (f u)"
  shows "erased_row uid db'"
proof -
  obtain u where u: "GetUser db uid = Some u" "erased u" using assms(2) by (auto simp: erased_row_def)
  then have "\<exists>v. GetUser db' uid = Some v \<and> erased v"
    using assms(4) [of u] GetUser_id [OF u(1)] by (cases "k = uid") (auto simp: GetUser_update [OF assms(3,1)])
  with assms(1-3) show ?thesis by (simp add: erased_row_def ids_update)
qed

lemma erased_change:
  assumes "changed_by p k f db db'" "erased_row uid db"
    and "\<And>u. usr_ID (f u) = usr_ID u" "\<And>u. k = uid \<Longrightarrow> usr_ID u = uid \<Longrightarrow> erased u \<Longrightarrow> erased (f u)"
  shows "erased_row uid db'"
  using assms(1) by (intro erased_update [OF _ assms(2-4)]) (simp add: changed_by_def)

lemma erased_create:
  assumes "CreateUser p now u db = Inr db'" "erased_row uid db"
  shows "erased_row uid db'"
  using assms(1)
proof (cases rule: create_cases)
  case (1 rows)
  have "find P (us @ [u]) = Some v" if "find P us = Some v" for P v and us :: "appUser list"
    using that by (induction us) (simp_all split: if_splits)
  with 1(1,2) assms(2) show ?thesis
    by (auto simp: erased_row_def GetUser_def find_None_iff)
qed

lemma erased_sign_in:
  assumes "sign_in_step db db'" "erased_row uid db"
  shows "erased_row uid db'"
  using assms(1)
proof cases
  case (ldap newID now username displayName email u)
  then show ?thesis
    using assms(2)
    by (auto simp: UpsertLDAPUser_def Let_def bind_result_Inr split: option.splits if_splits intro: erased_create)
next
  case (oidc newID now subject username displayName email u)
  show ?thesis
  proof (cases "GetUserBySubject db subject")
    case None
    with oidc show ?thesis
      by (auto simp: UpsertOIDCUser_def Let_def bind_result_Inr split: option.splits if_splits
          intro: erased_create [OF _ assms(2)])
  next
    case (Some existing)
    then have ex: "existing \<in> set (ac_users db)" "usr_Subject existing = Some subject"
      by (auto simp: GetUserBySubject_def find_Some_iff)
    obtain e where e: "GetUser db uid = Some e" "erased e" using assms(2) by (auto simp: erased_row_def)
    have "usr_ID existing \<noteq> uid"
      using assms(2) GetUser_id [OF e(1)] e(2) ex
      by (metis (mono_tags, lifting) erased_def erased_row_def distinct_map inj_onD option.distinct(1))
    moreover from Some oidc have "updateOIDCUser now existing username displayName email db = Inr (u, db')"
      by (simp add: UpsertOIDCUser_def)
    ultimately show ?thesis
      by (elim oidc_cases) (erule erased_change, use assms(2) in simp_all)
  qed
next
  case (touch now k)
  show ?thesis unfolding touch TouchLogin_def
    by (rule erased_update [where k = k and f = "\<lambda>u. u\<lparr>usr_LastLoginAt := Some now\<rparr>", OF _ assms(2)])
      (simp_all add: erased_def)
qed

lemma erased_op:
  assumes "run_account_op p now x db = Inr db'" "erased_row uid db"
  shows "erased_row uid db'"
proof (cases x)
  case (OpCreate u)
  with assms show ?thesis by (simp add: erased_create)
next
  case (OpRole k role)
  with assms show ?thesis
    by (auto simp: SetUserRole_def bind_result_Inr erased_def split: if_splits
        elim!: set_role_cases intro: erased_change [OF _ assms(2)])
next
  case (OpCosts k canSee)
  with assms show ?thesis
    by (auto simp: SetUserCostVisibility_def bind_result_Inr erased_def split: if_splits
        elim!: set_costs_cases intro: erased_change [OF _ assms(2)])
next
  case (OpActive k active)
  with assms show ?thesis
    by (auto simp: SetUserActive_def bind_result_Inr erased_def split: if_splits
        elim!: set_active_cases intro: erased_change [OF _ assms(2)])
next
  case (OpScrub k)
  with assms show ?thesis
    by (auto simp: erased_def scrubbed_def elim!: scrub_cases intro: erased_change [OF _ assms(2)])
qed

interpretation erasure: step_invariant whole_step "erased_row uid" for uid
  by unfold_locales (auto elim!: whole_step.cases intro: erased_sign_in erased_op)

text \<open>
  Erasure is final: once a person is scrubbed their saved views are gone, and after any later
  sign-ins - by them or by anybody - and any operations of administrators, the row still carries no
  name, address, password or subject, under a user name made of its own id. (C22)
\<close>

theorem erasure_is_final:
  assumes "ScrubUser p now uid db = Inr db1" "whole_step\<^sup>*\<^sup>* db1 db2" "distinct (map usr_ID (ac_users db))"
  shows "\<exists>u. GetUser db2 uid = Some u \<and> usr_Username u = scrubbedUsername uid \<and> usr_DisplayName u = None
     \<and> usr_Email u = None \<and> usr_PasswordHash u = None \<and> usr_Subject u = None
     \<and> (\<forall>v \<in> set (ac_views db1). sv_UserID v \<noteq> uid)"
proof -
  have "erased_row uid db1 \<and> (\<forall>v \<in> set (ac_views db1). sv_UserID v \<noteq> uid)"
    using assms(1)
  proof (cases rule: scrub_cases)
    case (1 before)
    have ch: "ac_users db1 = update_where (\<lambda>v. usr_ID v = uid) (scrubbed uid) (ac_users db)"
      using 1(3) by (simp add: changed_by_def)
    have "GetUser db1 uid = Some (scrubbed uid before)"
      using GetUser_update [OF changed_refl_ids ch] 1(1) by simp
    moreover have "erased (scrubbed uid before)" using GetUser_id [OF 1(1)] by (simp add: erased_def scrubbed_def)
    ultimately have "erased_row uid db1" using assms(3) by (simp add: erased_row_def ch ids_update changed_refl_ids)
    with 1(4) show ?thesis by blast
  qed
  then have views: "\<forall>v \<in> set (ac_views db1). sv_UserID v \<noteq> uid" and row: "erased_row uid db1" by simp_all
  from erasure.reachable [OF assms(2) row] obtain u where "GetUser db2 uid = Some u" "erased u"
    by (auto simp: erased_row_def)
  with GetUser_id [of db2 uid u] views show ?thesis by (auto simp: erased_def)
qed

text \<open>
  A sign-in that overlaps the erasure undoes it: when the row is found by its subject before the
  person is scrubbed and written after, the update, which looks for the id alone, puts their name
  and their address back.
\<close>

theorem overlapping_sign_in_undoes_erasure:
  assumes "GetUserBySubject db subject = Some u" "ScrubUser p now (usr_ID u) db = Inr db1"
    and "distinct (map usr_ID (ac_users db))" "usr_ID u \<noteq> []" "user_checks u" "email \<noteq> []"
    and "list_all (\<lambda>v. usr_Username v \<noteq> NormalizeUsername username) (ac_users db1)"
  shows "\<exists>v db2 w. updateOIDCUser now' u username displayName email db1 = Inr (v, db2)
     \<and> GetUser db2 (usr_ID u) = Some w \<and> usr_Username w = NormalizeUsername username \<and> usr_Email w = Some email"
proof -
  let ?f = "\<lambda>v. v\<lparr>usr_Username := NormalizeUsername username, usr_DisplayName := nonempty displayName,
             usr_Email := nonempty email, usr_LastLoginAt := Some now'\<rparr>"
  have u: "u \<in> set (ac_users db)" using assms(1) by (auto simp: GetUserBySubject_def find_Some_iff)
  from assms(2) have ch: "ac_users db1 = update_where (\<lambda>v. usr_ID v = usr_ID u) (scrubbed (usr_ID u)) (ac_users db)"
    by (cases rule: scrub_cases) (simp add: changed_by_def)
  have "GetUser db (usr_ID u) = Some u"
  proof -
    have "GetUser db (usr_ID u) \<noteq> None" using u by (auto simp: GetUser_def find_None_iff)
    then obtain v where v: "GetUser db (usr_ID u) = Some v" by blast
    with GetUser_id [OF v] u assms(3) show ?thesis by (metis distinct_map inj_onD)
  qed
  then have get: "GetUser db1 (usr_ID u) = Some (scrubbed (usr_ID u) u)"
    using GetUser_update [OF changed_refl_ids ch] by simp
  have "user_checks (?f (scrubbed (usr_ID u) u))" using assms(5) by (simp add: user_checks_def scrubbed_def)
  moreover have "list_all (\<lambda>v. usr_ID v = usr_ID u \<or> \<not> clashes v (?f (scrubbed (usr_ID u) u))) (ac_users db1)"
    using assms(7) by (auto simp: list_all_iff clashes_def scrubbed_def)
  ultimately obtain db2 where up: "update_user (usr_ID u) ?f db1 = Inr db2"
    by (simp add: update_user_def get require_def)
  have "\<exists>rows'. logUpdate (begin_tx (Some (directory_permit ''oidc'')) now') ''app_user'' (usr_ID u)
      (user_row x) (user_row y) rows = Inr rows'" for x y rows
    using assms(4)
    by (auto simp: logUpdate_def logUpdateBatch_def tx_authorize_def require_def diffJSON_def user_row_def Let_def
        directory_permit_def tx_log_def row_accepted_def log_row_def oneOf_def ActorKinds_def actor_kind_defs split: option.splits)
  then obtain rows where l: "logUpdate (begin_tx (Some (directory_permit ''oidc'')) now') ''app_user'' (usr_ID u)
      (user_row (u\<lparr>usr_LastLoginAt := None\<rparr>))
      (user_row (u\<lparr>usr_Username := NormalizeUsername username, usr_DisplayName := nonempty displayName,
                   usr_Email := nonempty email, usr_LastLoginAt := None\<rparr>)) (ac_log db2) = Inr rows" by blast
  have "GetUser (db2\<lparr>ac_log := rows\<rparr>) (usr_ID u) = Some (?f (scrubbed (usr_ID u) u))"
    using GetUser_update [of ?f "db2\<lparr>ac_log := rows\<rparr>" "usr_ID u" db1] update_user_Inr [OF up] get by simp
  with up l assms(6) show ?thesis
    by (auto simp: updateOIDCUser_def Let_def writeTx_def log_accounts_def bind_result_Inr nonempty_def)
qed

section \<open>Personal data in the trail\<close>

definition personal :: "string list" where
  "personal = [''username'', ''display_name'', ''email'', ''password_hash'', ''subject'']"

definition discreet :: "accounts \<Rightarrow> accounts \<Rightarrow> bool" where
  "discreet db db' \<longleftrightarrow>
     (\<forall>r \<in> set (ac_log db') - set (ac_log db). \<forall>name v. name \<in> set personal \<and> diff_shows (cl_Diff r) name v \<longrightarrow> v = VText Redacted)"

lemma user_columns_redacted:
  "name \<in> set personal \<Longrightarrow> (ent, name, v) \<in> set (au_fields (user_row u)) \<Longrightarrow> IsRedacted ent name"
  by (auto simp: personal_def user_row_def IsRedacted_def RedactedFields_def RedactedFieldsByEntity_def get_or_def)

lemma discreet_entry:
  assumes "logUpdate t ty i before (user_row after) (ac_log db) = Inr (ac_log db')
      \<or> logCreate t ty i (user_row after) (ac_log db) = Inr (ac_log db')"
  shows "discreet db db'"
  unfolding discreet_def using redacted_entry [OF assms] user_columns_redacted by blast

lemma discreet_change: "changed_by p uid f db db' \<Longrightarrow> discreet db db'"
  by (auto simp: changed_by_def intro: discreet_entry)

lemma discreet_same: "ac_log db' = ac_log db \<Longrightarrow> discreet db db'"
  by (simp add: discreet_def)

lemma discreet_step: "account_step db db' \<Longrightarrow> discreet db db'"
  by (erule account_step.cases)
    (auto elim!: create_cases oidc_cases set_role_cases set_costs_cases set_active_cases scrub_cases
      intro: discreet_change discreet_same discreet_entry simp: TouchLogin_def)

text \<open>
  Personal data stay out of the trail: whatever happens to accounts, an entry written for it never
  shows a user name, a display name, an address, a password hash or a subject, before or after the
  change. (C23)
\<close>

theorem trail_holds_no_personal_data:
  assumes "account_step\<^sup>*\<^sup>* db db'" "r \<in> set (ac_log db') - set (ac_log db)"
    and "name \<in> {''username'', ''display_name'', ''email'', ''password_hash'', ''subject''}" "diff_shows (cl_Diff r) name v"
  shows "v = VText Redacted"
proof -
  from assms(1) have "discreet db db'"
  proof (induction rule: rtranclp_induct)
    case (step a b)
    with discreet_step [OF step.hyps(2)] show ?case by (fastforce simp: discreet_def)
  qed (simp add: discreet_same)
  with assms(2-4) show ?thesis by (auto simp: discreet_def personal_def)
qed

end
