(* ===== verification/SignIn.thy ===== *)
theory SignIn
  imports Accounts_Props
begin

text \<open>
  What a successful sign-in vouches for, and instances of the theorems on accounts.
\<close>

section \<open>Names\<close>

lemma safe_no_space: "safeUsername s \<Longrightarrow> c \<in> set s \<Longrightarrow> \<not> is_space c"
  by (auto simp: safeUsername_def list_all_iff is_space_def less_eq_char_def)

lemma trim_space_id: "(\<And>c. c \<in> set s \<Longrightarrow> \<not> is_space c) \<Longrightarrow> trim_space s = s"
proof -
  assume no: "\<And>c. c \<in> set s \<Longrightarrow> \<not> is_space c"
  then have "dropWhile is_space s = s" "dropWhile is_space (rev s) = rev s"
    by (auto simp: dropWhile_eq_self_iff hd_rev)
  then show ?thesis by (simp add: trim_space_def)
qed

section \<open>Sign-in\<close>

lemma local_cases:
  assumes "LocalAuthenticate compare username password db = Inr (u, db')"
  shows "GetUserByUsername db username = Some u \<and> db' = db \<and> usr_IsActive u \<and> usr_Source u = UserSourceLocal
     \<and> (\<exists>hash. usr_PasswordHash u = Some hash \<and> compare password hash = Some True)"
  using assms by (auto simp: LocalAuthenticate_def split: option.splits if_splits bool.splits)

lemma ldap_cases:
  assumes "LDAPAuthenticate bind newID now username password db = Inr (u, db')" "to_lower username = username"
  shows "bind username password = Some True \<and> usr_IsActive u \<and> usr_Source u = UserSourceLDAP \<and> usr_Username u = username"
proof -
  have un: "GetUserByUsername db username = Some v \<Longrightarrow> usr_Username v = username" for v
    using assms(2) by (auto simp: GetUserByUsername_def find_Some_iff)
  have "NormalizeUsername (trim_space username) = username" if "safeUsername username"
    using trim_space_id safe_no_space [OF that] assms(2) by (simp add: NormalizeUsername_def)
  with assms(1) un show ?thesis
    by (auto simp: LDAPAuthenticate_def UpsertLDAPUser_def Let_def bind_result_Inr NewAppUser_def
        split: option.splits if_splits bool.splits sum.splits prod.splits)
qed

text \<open>
  A sign-in is vouched for by its own authenticator: with the password and the directory configured
  in any order, whoever is signed in is an active account of the name that was typed, trimmed and
  in lower case, and either a local account whose hash the password matches, or an account of the
  directory whose bind succeeded; a directory never signs anybody in as a local account. (C24)
\<close>

theorem sign_in_is_vouched_for:
  assumes "ChainAuthenticate now as username password db = Inr (u, db')"
    and "set as \<subseteq> {LocalAuthenticate compare, LDAPAuthenticate bind newID now}"
  shows "usr_IsActive u \<and> usr_Username u = to_lower (trim_space username) \<and> password \<noteq> []
     \<and> (usr_Source u = UserSourceLocal \<and> (\<exists>hash. usr_PasswordHash u = Some hash \<and> compare password hash = Some True)
        \<or> usr_Source u = UserSourceLDAP \<and> bind (to_lower (trim_space username)) password = Some True)"
proof -
  let ?name = "to_lower (trim_space username)"
  have low: "to_lower ?name = ?name" by simp
  have "usr_IsActive u \<and> usr_Username u = ?name
      \<and> (usr_Source u = UserSourceLocal \<and> (\<exists>hash. usr_PasswordHash u = Some hash \<and> compare password hash = Some True)
         \<or> usr_Source u = UserSourceLDAP \<and> bind ?name password = Some True)"
    if "try_each now as ?name password db = Inr (u, db')" "set as \<subseteq> {LocalAuthenticate compare, LDAPAuthenticate bind newID now}"
    using that
  proof (induction as)
    case (Cons a as)
    show ?case
    proof (cases "a ?name password db")
      case (Inl e)
      with Cons show ?thesis by (cases e) simp_all
    next
      case (Inr r)
      with Cons.prems(1) obtain db1 where ok: "a ?name password db = Inr (u, db1)" by (cases r) auto
      from Cons.prems(2) consider "a = LocalAuthenticate compare" | "a = LDAPAuthenticate bind newID now" by auto
      then show ?thesis
      proof cases
        case 1
        with local_cases [OF ok [unfolded 1]] low show ?thesis by (auto simp: GetUserByUsername_def find_Some_iff)
      next
        case 2
        with ldap_cases [OF ok [unfolded 2] low] show ?thesis by simp
      qed
    qed
  qed simp
  with assms show ?thesis by (auto simp: ChainAuthenticate_def Let_def split: if_splits)
qed

section \<open>Instances\<close>

definition demo_person :: "string \<Rightarrow> string \<Rightarrow> string \<Rightarrow> appUser" where
  "demo_person uid name role =
     \<lparr>usr_ID = uid, usr_Username = name, usr_DisplayName = None, usr_Email = None, usr_Source = UserSourceLocal,
      usr_PasswordHash = Some ''hash'', usr_IsActive = True, usr_LastLoginAt = None, usr_CreatedAt = ''2026-01-01T00:00:00Z'',
      usr_Role = role, usr_CanSeeCosts = False, usr_Subject = None\<rparr>"

definition demo_accounts :: accounts where
  "demo_accounts =
     \<lparr>ac_users = [demo_person ''u0'' ''root'' RoleAdministrator, demo_person ''u1'' ''second'' RoleAdministrator,
        (demo_person ''u2'' ''alex'' RoleObserver)\<lparr>usr_Source := UserSourceOIDC, usr_PasswordHash := None,
           usr_Email := Some ''alex@example.org'', usr_Subject := Some ''sub-2''\<rparr>],
      ac_views = [\<lparr>sv_ID = ''v1'', sv_UserID = ''u2'', sv_Entity = ''asset'', sv_Name = ''mine'', sv_Params = ''q=web'', sv_Lifecycle = ''active'',
        sv_CreatedAt = ''t'', sv_UpdatedAt = ''t'', sv_RowVersion = 1\<rparr>], ac_log = []\<rparr>"

definition demo_root :: "permit option" where
  "demo_root = Some (administratorPermit \<lparr>act_ID = ''u0'', act_Name = ''root'', act_Kind = ActorKindUser\<rparr>)"

lemma demo_ids: "distinct (map usr_ID (ac_users demo_accounts))"
  by code_simp

lemma demo_admins: "1 \<le> CountActiveAdministrators demo_accounts"
  by code_simp

definition demo_demoted :: "accounts result" where
  "demo_demoted = set_role_tx demo_root ''t'' ''u1'' RoleObserver demo_accounts"

lemma demo_demoted_ok: "\<exists>db. demo_demoted = Inr db \<and> map usr_Role (ac_users db) = [RoleAdministrator, RoleObserver, RoleObserver]
    \<and> set_role_tx demo_root ''t'' ''u0'' RoleObserver db = Inl ErrForbidden"
proof -
  have "case demo_demoted of Inl _ \<Rightarrow> False | Inr db \<Rightarrow> map usr_Role (ac_users db) = [RoleAdministrator, RoleObserver, RoleObserver]
    \<and> (case set_role_tx demo_root ''t'' ''u0'' RoleObserver db of Inl e \<Rightarrow> e = ErrForbidden | Inr _ \<Rightarrow> False)"
    by code_simp
  then show ?thesis by (auto split: sum.splits)
qed

theorem an_administrator_remains_witness:
  "\<exists>db. demo_demoted = Inr db \<and> (\<exists>u \<in> set (ac_users db). usr_Role u = RoleAdministrator \<and> usr_IsActive u)
     \<and> set_role_tx demo_root ''t'' ''u0'' RoleObserver db = Inl ErrForbidden"
proof -
  obtain db where db: "demo_demoted = Inr db" "set_role_tx demo_root ''t'' ''u0'' RoleObserver db = Inl ErrForbidden"
    using demo_demoted_ok by blast
  then have "account_step\<^sup>*\<^sup>* demo_accounts db" by (auto simp: demo_demoted_def intro: account_step.role)
  from an_administrator_remains [OF this demo_ids demo_admins] db show ?thesis by blast
qed

theorem only_administrators_grant_witness:
  "\<exists>db. run_account_op (Some (systemPermit ''startup'')) ''t'' (OpRole ''u2'' RoleObserver) demo_accounts = Inr db
     \<and> (\<exists>u. GetUser db ''u2'' = Some u \<and> usr_Role u = RoleObserver)
     \<and> run_account_op (Some (systemPermit ''startup'')) ''t'' (OpRole ''u2'' RoleAdministrator) demo_accounts = Inl ErrForbidden"
proof -
  have run: "run_account_op (Some (systemPermit ''startup'')) ''t'' (OpRole ''u2'' RoleObserver) demo_accounts = Inr demo_accounts"
    by (simp add: SetUserRole_def getUser_def GetUser_def demo_accounts_def demo_person_def)
  have "case run_account_op (Some (systemPermit ''startup'')) ''t'' (OpRole ''u2'' RoleAdministrator) demo_accounts of
      Inl e \<Rightarrow> e = ErrForbidden | Inr _ \<Rightarrow> False"
    by code_simp
  then have refused: "run_account_op (Some (systemPermit ''startup'')) ''t'' (OpRole ''u2'' RoleAdministrator) demo_accounts = Inl ErrForbidden"
    by (simp split: sum.splits)
  have "unprivileged_step\<^sup>*\<^sup>* demo_accounts demo_accounts"
    by (rule r_into_rtranclp, rule unprivileged_step.op [OF _ run]) (simp add: administrator_permit_def)
  note only_administrators_grant [OF this]
  moreover have "map_option usr_Role (GetUser demo_accounts ''u2'') = Some RoleObserver" by code_simp
  ultimately show ?thesis using run refused by auto
qed

definition demo_scrubbed :: "accounts result" where
  "demo_scrubbed = ScrubUser demo_root ''t'' ''u2'' demo_accounts"

definition demo_returned :: "(appUser \<times> accounts) result" where
  "demo_returned = bind_result demo_scrubbed (UpsertOIDCUser ''n9'' ''t2'' ''sub-2'' ''alex'' ''Alex'' ''alex@example.org'')"

lemma demo_scrubbed_ok: "\<exists>db. demo_scrubbed = Inr db"
proof -
  have "case demo_scrubbed of Inl _ \<Rightarrow> False | Inr _ \<Rightarrow> True" by code_simp
  then show ?thesis by (auto split: sum.splits)
qed

lemma demo_returned_ok: "\<exists>u db. demo_returned = Inr (u, db) \<and> usr_ID u = ''n9''"
proof -
  have "case demo_returned of Inl _ \<Rightarrow> False | Inr (u, db) \<Rightarrow> usr_ID u = ''n9''" by code_simp
  then show ?thesis by (auto split: sum.splits)
qed

theorem erasure_is_final_witness:
  "\<exists>u db. demo_returned = Inr (u, db) \<and> usr_ID u = ''n9''
     \<and> (\<exists>w. GetUser db ''u2'' = Some w \<and> usr_Email w = None \<and> usr_Subject w = None)"
proof -
  obtain db1 where db1: "demo_scrubbed = Inr db1" using demo_scrubbed_ok by blast
  obtain u db where db: "demo_returned = Inr (u, db)" "usr_ID u = ''n9''" using demo_returned_ok by blast
  then have "sign_in_step db1 db" by (auto simp: demo_returned_def db1 intro: sign_in_step.oidc)
  then have "whole_step\<^sup>*\<^sup>* db1 db" by (auto intro: whole_step.sign_in)
  from erasure_is_final [OF db1 [unfolded demo_scrubbed_def] this demo_ids] db show ?thesis by blast
qed

theorem overlapping_sign_in_undoes_erasure_witness:
  "\<exists>db1 v db2 w. demo_scrubbed = Inr db1
     \<and> updateOIDCUser ''t2'' (ac_users demo_accounts ! 2) ''alex'' [] ''alex@example.org'' db1 = Inr (v, db2)
     \<and> GetUser db2 ''u2'' = Some w \<and> usr_Email w = Some ''alex@example.org''"
proof -
  obtain db1 where db1: "demo_scrubbed = Inr db1" using demo_scrubbed_ok by blast
  have "case demo_scrubbed of Inl _ \<Rightarrow> False | Inr d \<Rightarrow> list_all (\<lambda>v. usr_Username v \<noteq> NormalizeUsername ''alex'') (ac_users d)"
    by code_simp
  then have free: "list_all (\<lambda>v. usr_Username v \<noteq> NormalizeUsername ''alex'') (ac_users db1)" by (simp add: db1)
  have sub: "GetUserBySubject demo_accounts ''sub-2'' = Some (ac_users demo_accounts ! 2)" by code_simp
  have u2: "usr_ID (ac_users demo_accounts ! 2) = ''u2''" "user_checks (ac_users demo_accounts ! 2)" by code_simp+
  from overlapping_sign_in_undoes_erasure [OF sub _ demo_ids _ u2(2) _ free, of demo_root "''t''" "''alex@example.org''" "''t2''" "[]"]
    db1 u2(1) show ?thesis by (auto simp: demo_scrubbed_def)
qed

theorem trail_holds_no_personal_data_witness:
  "\<exists>db r. demo_scrubbed = Inr db \<and> ac_log db = [r] \<and> diff_shows (cl_Diff r) ''email'' (VText Redacted)
     \<and> \<not> diff_shows (cl_Diff r) ''email'' (VText ''alex@example.org'')"
proof -
  obtain db where db: "demo_scrubbed = Inr db" using demo_scrubbed_ok by blast
  have "case demo_scrubbed of Inl _ \<Rightarrow> False | Inr d \<Rightarrow> length (ac_log d) = 1
      \<and> (case cl_Diff (hd (ac_log d)) of Changes cs \<Rightarrow> List.member cs (''email'', VText Redacted, VText Redacted) | _ \<Rightarrow> False)"
    by code_simp
  then obtain r where r: "ac_log db = [r]" "diff_shows (cl_Diff r) ''email'' (VText Redacted)"
    by (cases "ac_log db") (auto simp: db diff_shows_def split: diff.splits)
  have "account_step\<^sup>*\<^sup>* demo_accounts db" using db by (auto simp: demo_scrubbed_def intro: account_step.scrub)
  from trail_holds_no_personal_data [OF this, of r "''email''" "VText ''alex@example.org''"] r db show ?thesis
    by (auto simp: demo_accounts_def Redacted_def)
qed

theorem sign_in_is_vouched_for_witness:
  "\<exists>u db. ChainAuthenticate ''t'' [LDAPAuthenticate (\<lambda>_ _. Some False) ''n'' ''t'', LocalAuthenticate (\<lambda>pw h. Some (pw = ''pw''))]
       '' Root '' ''pw'' demo_accounts = Inr (u, db) \<and> usr_IsActive u \<and> usr_Username u = ''root''"
proof -
  let ?run = "ChainAuthenticate ''t'' [LDAPAuthenticate (\<lambda>_ _. Some False) ''n'' ''t'', LocalAuthenticate (\<lambda>pw h. Some (pw = ''pw''))]
       '' Root '' ''pw'' demo_accounts"
  have "case ?run of Inl _ \<Rightarrow> False | Inr _ \<Rightarrow> True" by code_simp
  then obtain u db where run: "?run = Inr (u, db)" by (auto split: sum.splits)
  have "to_lower (trim_space '' Root '') = ''root''" by code_simp
  with sign_in_is_vouched_for [OF run, of "\<lambda>pw h. Some (pw = ''pw'')" "\<lambda>_ _. Some False" "''n''"] run show ?thesis by auto
qed

end
