(* ===== verification/Sessions.thy ===== *)
theory Sessions
  imports SignIn
begin

text \<open>
  Sessions: the flow with an identity provider (auth.go of internal/web/handlers, oidc.go of
  internal/auth), the middleware that turns a session into a user and the guards behind it. The
  provider itself is two parameters: \<open>redeem\<close>, which exchanges a code and a verifier for a raw token,
  and \<open>verify\<close>, which checks signature, issuer, audience and expiry of one.
\<close>

section \<open>The values a session holds\<close>

text \<open>A key that is absent reads as the empty text, as \<open>GetString\<close> has it.\<close>

record webSession =
  ws_User :: string
  ws_State :: string
  ws_Nonce :: string
  ws_Verifier :: string

definition no_session :: webSession where
  "no_session = \<lparr>ws_User = [], ws_State = [], ws_Nonce = [], ws_Verifier = []\<rparr>"

definition Login ::
  "string \<Rightarrow> authenticator list \<Rightarrow> string \<Rightarrow> string \<Rightarrow> webSession \<times> accounts \<Rightarrow> webSession \<times> accounts" where
  "Login now authenticators username password st =
     (case ChainAuthenticate now authenticators (trim_space username) password (snd st) of
        Inl _ \<Rightarrow> st
      | Inr (u, db') \<Rightarrow> ((fst st)\<lparr>ws_User := usr_Username u\<rparr>, db'))"

definition Logout :: "webSession \<Rightarrow> webSession" where
  "Logout s = no_session"

section \<open>The identity provider\<close>

record idToken =
  it_Nonce :: string
  it_Subject :: string
  it_Claims :: "(string \<times> string \<times> string) option"

record oidcClaims =
  oc_Subject :: string
  oc_Username :: string
  oc_DisplayName :: string
  oc_Email :: string

type_synonym redeemer = "string \<Rightarrow> string \<Rightarrow> string option"
type_synonym verifier = "string \<Rightarrow> idToken option"

definition Exchange :: "redeemer \<Rightarrow> verifier \<Rightarrow> string \<Rightarrow> string \<Rightarrow> string \<Rightarrow> auth_error + oidcClaims" where
  "Exchange redeem verify code pkce nonce =
     (case redeem code pkce of
        None \<Rightarrow> Inl OperationalError
      | Some raw \<Rightarrow>
          if raw = [] then Inl ErrInvalidCredentials
          else
            (case verify raw of
               None \<Rightarrow> Inl ErrInvalidCredentials
             | Some tok \<Rightarrow>
                 if it_Nonce tok \<noteq> nonce then Inl ErrInvalidCredentials
                 else if it_Subject tok = [] then Inl ErrInvalidCredentials
                 else
                   (case it_Claims tok of
                      None \<Rightarrow> Inl OperationalError
                    | Some (username, name, email) \<Rightarrow>
                        if trim_space username = [] then Inl ErrInvalidCredentials
                        else Inr \<lparr>oc_Subject = it_Subject tok, oc_Username = username, oc_DisplayName = name, oc_Email = email\<rparr>)))"

text \<open>\<open>OIDCStart\<close> draws the three secrets; \<open>OIDCCallback\<close> takes them out before it looks at anything.\<close>

definition OIDCStart :: "string \<Rightarrow> string \<Rightarrow> string \<Rightarrow> webSession \<Rightarrow> webSession" where
  "OIDCStart state nonce pkce s = s\<lparr>ws_State := state, ws_Nonce := nonce, ws_Verifier := pkce\<rparr>"

definition OIDCCallback ::
  "redeemer \<Rightarrow> verifier \<Rightarrow> string \<Rightarrow> string \<Rightarrow> string \<Rightarrow> string \<Rightarrow> webSession \<times> accounts \<Rightarrow> webSession \<times> accounts" where
  "OIDCCallback redeem verify newID now gotState code st =
     (let s = fst st; db = snd st; s' = s\<lparr>ws_State := [], ws_Nonce := [], ws_Verifier := []\<rparr> in
      if ws_State s = [] \<or> gotState = [] \<or> ws_State s \<noteq> gotState then (s', db)
      else
        (case Exchange redeem verify code (ws_Verifier s) (ws_Nonce s) of
           Inl _ \<Rightarrow> (s', db)
         | Inr c \<Rightarrow>
             (case UpsertOIDCUser newID now (oc_Subject c) (oc_Username c) (oc_DisplayName c) (oc_Email c) db of
                Inl _ \<Rightarrow> (s', db)
              | Inr (u, db') \<Rightarrow> (if usr_IsActive u then s'\<lparr>ws_User := usr_Username u\<rparr> else s', db'))))"

section \<open>Requests\<close>

text \<open>The middleware returns the user of the request and what it leaves in the session.\<close>

definition Authenticate :: "accounts \<Rightarrow> webSession \<Rightarrow> appUser option \<times> webSession" where
  "Authenticate db s =
     (if ws_User s = [] then (None, s)
      else
        (case GetUserByUsername db (ws_User s) of
           None \<Rightarrow> (None, s\<lparr>ws_User := []\<rparr>)
         | Some u \<Rightarrow> if \<not> usr_IsActive u then (None, s\<lparr>ws_User := []\<rparr>) else (Some u, s)))"

datatype guard_answer = RedirectToLogin | Refused | Passed

definition RequireAuth :: "appUser option \<Rightarrow> guard_answer" where
  "RequireAuth user = (if user = None then RedirectToLogin else Passed)"

definition RequireWrite :: "authorizer \<Rightarrow> appUser option \<Rightarrow> guard_answer" where
  "RequireWrite az user =
     (if user = None then RedirectToLogin else if \<not> CanWrite az user then Refused else Passed)"

definition RequireCostVisibility :: "authorizer \<Rightarrow> appUser option \<Rightarrow> guard_answer" where
  "RequireCostVisibility az user =
     (if user = None then RedirectToLogin else if \<not> CanSeeCosts az user then Refused else Passed)"

definition RequireAdministrator :: "authorizer \<Rightarrow> appUser option \<Rightarrow> guard_answer" where
  "RequireAdministrator az user =
     (if user = None then RedirectToLogin else if \<not> IsAdministrator az user then Refused else Passed)"

definition safeNext :: "string \<Rightarrow> string" where
  "safeNext next =
     (if next = [] \<or> \<not> has_prefix ''/'' next \<or> has_prefix ''//'' next then []
      else if contains_any next [CHR 0x5C, CHR 0x0A, CHR 0x0D] then []
      else next)"

section \<open>The flow\<close>

lemma Exchange_Inr:
  assumes "Exchange redeem verify code pkce nonce = Inr c"
  obtains raw tok where "redeem code pkce = Some raw" "verify raw = Some tok" "it_Nonce tok = nonce"
    "it_Subject tok = oc_Subject c" "oc_Subject c \<noteq> []"
  using assms by (auto simp: Exchange_def split: option.splits if_splits)

text \<open>The row behind an account that the provider vouched for carries its subject.\<close>

lemma UpsertOIDCUser_row:
  assumes "UpsertOIDCUser newID now sub username name email db = Inr (u, db')" "distinct (map usr_ID (ac_users db))"
  shows "u \<in> set (ac_users db') \<and> usr_Subject u = Some sub"
proof (cases "GetUserBySubject db sub")
  case None
  with assms(1) show ?thesis
    by (auto simp: UpsertOIDCUser_def Let_def bind_result_Inr split: option.splits elim!: create_cases)
next
  case (Some existing)
  let ?f = "\<lambda>v. v\<lparr>usr_Username := NormalizeUsername username, usr_DisplayName := nonempty name,
             usr_Email := nonempty email, usr_LastLoginAt := Some now\<rparr>"
  from Some have ex: "existing \<in> set (ac_users db)" "usr_Subject existing = Some sub"
    by (auto simp: GetUserBySubject_def find_Some_iff)
  from Some assms(1) have up: "updateOIDCUser now existing username name email db = Inr (u, db')"
    by (simp add: UpsertOIDCUser_def)
  then have "u = ?f existing" by (auto simp: updateOIDCUser_def Let_def bind_result_Inr)
  moreover from up have "ac_users db' = update_where (\<lambda>v. usr_ID v = usr_ID existing) ?f (ac_users db)"
    by (elim oidc_cases) (simp add: changed_by_def)
  ultimately show ?thesis using ex by (force simp: update_where_def)
qed

text \<open>
  A sign-in with the identity provider completes the flow its own session started: a callback that
  changes who is signed in, or any account, presents the state that the session holds and a code
  the provider redeems for a verified token with the nonce of the session; whoever is then signed
  in is an active account with the subject of that token. Whatever its outcome, no further callback
  on the session does anything until a new flow starts. (C13)
\<close>

theorem callback_completes_its_own_start:
  assumes "OIDCCallback redeem verify newID now gotState code (s, db) = (s', db')"
    and "ws_User s' \<noteq> ws_User s \<or> db' \<noteq> db" and "distinct (map usr_ID (ac_users db))"
  shows "ws_State s \<noteq> [] \<and> gotState = ws_State s
     \<and> (\<exists>raw tok. redeem code (ws_Verifier s) = Some raw \<and> verify raw = Some tok \<and> it_Nonce tok = ws_Nonce s
          \<and> (ws_User s' = ws_User s
             \<or> (\<exists>u \<in> set (ac_users db'). usr_IsActive u \<and> usr_Subject u = Some (it_Subject tok) \<and> usr_Username u = ws_User s')))
     \<and> (\<forall>newID' now' gotState' code' db2.
          OIDCCallback redeem verify newID' now' gotState' code' (s', db2) = (s', db2))"
proof -
  let ?s = "s\<lparr>ws_State := [], ws_Nonce := [], ws_Verifier := []\<rparr>"
  have st: "ws_State s \<noteq> []" "gotState = ws_State s"
    using assms(1,2) by (auto simp: OIDCCallback_def Let_def split: if_splits)
  obtain c where c: "Exchange redeem verify code (ws_Verifier s) (ws_Nonce s) = Inr c"
    using assms(1,2) st by (cases "Exchange redeem verify code (ws_Verifier s) (ws_Nonce s)") (auto simp: OIDCCallback_def Let_def)
  obtain u where up: "UpsertOIDCUser newID now (oc_Subject c) (oc_Username c) (oc_DisplayName c) (oc_Email c) db = Inr (u, db')"
    and s': "s' = (if usr_IsActive u then ?s\<lparr>ws_User := usr_Username u\<rparr> else ?s)"
    using assms(1,2) st c
    by (cases "UpsertOIDCUser newID now (oc_Subject c) (oc_Username c) (oc_DisplayName c) (oc_Email c) db")
      (auto simp: OIDCCallback_def Let_def)
  from c obtain raw tok where "redeem code (ws_Verifier s) = Some raw" "verify raw = Some tok" "it_Nonce tok = ws_Nonce s"
    "it_Subject tok = oc_Subject c" by (rule Exchange_Inr)
  moreover have "ws_User s' = ws_User s
      \<or> (\<exists>w \<in> set (ac_users db'). usr_IsActive w \<and> usr_Subject w = Some (oc_Subject c) \<and> usr_Username w = ws_User s')"
    using UpsertOIDCUser_row [OF up assms(3)] s' by auto
  moreover have "OIDCCallback redeem verify i n g k (s', d) = (s', d)" for i n g k d
    using s' by (simp add: OIDCCallback_def Let_def split: if_splits)
  ultimately show ?thesis using st by auto
qed

text \<open>
  Deactivating an account ends its sessions: from then on no request with such a session gets past
  any guard, and the session forgets the name.
\<close>

theorem deactivation_ends_sessions:
  assumes "SetUserActive p now uid False db = Inr db'" "GetUser db uid = Some u"
    and "distinct (map usr_Username (ac_users db))"
    and "ws_User s = usr_Username u" "to_lower (usr_Username u) = usr_Username u"
  shows "fst (Authenticate db' s) = None \<and> ws_User (snd (Authenticate db' s)) = []
     \<and> RequireAuth (fst (Authenticate db' s)) = RedirectToLogin
     \<and> RequireWrite az (fst (Authenticate db' s)) = RedirectToLogin
     \<and> RequireCostVisibility az (fst (Authenticate db' s)) = RedirectToLogin
     \<and> RequireAdministrator az (fst (Authenticate db' s)) = RedirectToLogin"
proof -
  let ?off = "\<lambda>v. v\<lparr>usr_IsActive := False\<rparr>"
  have u: "u \<in> set (ac_users db)" "usr_ID u = uid" using GetUser_id [OF assms(2)] by simp_all
  have same: "v = u" if "v \<in> set (ac_users db)" "usr_Username v = usr_Username u" for v
    using assms(3) u that by (auto simp: distinct_map dest: inj_onD)
  have "\<not> usr_IsActive v" if "v \<in> set (ac_users db')" "usr_Username v = usr_Username u" for v
  proof (cases "usr_IsActive u")
    case True
    with assms(1,2) obtain db1 where "update_user uid ?off db = Inr db1"
        "log_user_change (begin_tx p now) u ?off db1 = Inr db'"
      by (auto simp: SetUserActive_def set_active_tx_def writeTx_def bind_result_Inr)
    then have "ac_users db' = update_where (\<lambda>v. usr_ID v = uid) ?off (ac_users db)"
      using changed_byI' [of uid ?off db db1 u p now db'] u by (simp add: changed_by_def)
    with that same u show ?thesis by (auto simp: update_where_def split: if_splits)
  next
    case False
    with assms(1,2) have "db' = db" by (simp add: SetUserActive_def bind_result_def getUser_def)
    with that same False show ?thesis by blast
  qed
  then have "fst (Authenticate db' s) = None \<and> ws_User (snd (Authenticate db' s)) = []"
    using assms(4,5) by (auto simp: Authenticate_def GetUserByUsername_def find_Some_iff split: option.splits)
  then show ?thesis
    by (simp add: RequireAuth_def RequireWrite_def RequireCostVisibility_def RequireAdministrator_def)
qed

section \<open>Names decide\<close>

text \<open>A provider that redeems every code for a token of the given subject and user name.\<close>

definition demo_verify :: "string \<Rightarrow> string \<Rightarrow> verifier" where
  "demo_verify sub username raw = Some \<lparr>it_Nonce = ''n'', it_Subject = sub, it_Claims = Some (username, [], [])\<rparr>"

definition demo_flow :: "string \<Rightarrow> string \<Rightarrow> string \<Rightarrow> accounts \<Rightarrow> webSession \<times> accounts" where
  "demo_flow newID sub username db =
     OIDCCallback (\<lambda>code pkce. Some code) (demo_verify sub username) newID ''t'' ''st'' ''code''
       (OIDCStart ''st'' ''n'' ''v'' no_session, db)"

definition no_projects :: projectResolver where
  "no_projects = \<lparr>ProjectsForUser = \<lambda>_. Inr [], AssetIDsForProjects = \<lambda>_. Inr [], ServiceIDsForProjects = \<lambda>_. Inr [],
     CircuitIDsForProjects = \<lambda>_. Inr []\<rparr>"

text \<open>
  A session outlives a rename: a person whose user name changes at the provider leaves a session
  that holds the old name; when another person takes that name, the session of the first stands for
  the account of the second.
\<close>

theorem session_follows_the_name:
  "(let (s1, db1) = demo_flow ''n1'' ''sub-2'' ''alex'' demo_accounts;
        (s2, db2) = demo_flow ''n2'' ''sub-2'' ''alexandra'' db1;
        (s3, db3) = demo_flow ''n3'' ''sub-3'' ''Alex'' db2 in
    map_option usr_ID (fst (Authenticate db1 s1)) = Some ''u2''
    \<and> map_option usr_ID (fst (Authenticate db2 s2)) = Some ''u2''
    \<and> map_option usr_Subject (fst (Authenticate db3 s1)) = Some (Some ''sub-3''))"
  by code_simp

text \<open>
  The name at the provider decides who administers: a person with the role of an observer who
  changes their user name at the provider to one listed in the environment, and not in use here,
  gets past the guard for administrators with the next sign-in.
\<close>

theorem renamed_person_administers:
  "(let az = NewAuthorizer [''Boss''] no_projects;
        (s1, db1) = demo_flow ''n1'' ''sub-2'' ''alex'' demo_accounts;
        (s2, db2) = demo_flow ''n2'' ''sub-2'' ''boss'' db1 in
    RequireAdministrator az (fst (Authenticate db1 s1)) = Refused
    \<and> RequireAdministrator az (fst (Authenticate db2 s2)) = Passed
    \<and> map_option usr_Role (fst (Authenticate db2 s2)) = Some RoleObserver
    \<and> map_option usr_ID (fst (Authenticate db2 s2)) = Some ''u2'')"
  by code_simp

text \<open>
  Where \<open>safeNext\<close> accepts a target, it is a path of one leading slash; a tab between two slashes,
  which browsers drop from an address, is not among what it looks for.
\<close>

lemma safeNext_path: "safeNext next \<noteq> [] \<Longrightarrow> safeNext next = next \<and> (\<exists>t. next = CHR ''/'' # t \<and> \<not> has_prefix ''/'' t)"
  by (cases "next") (auto simp: safeNext_def has_prefix_def split: if_splits)

lemma safeNext_keeps_tab: "safeNext (''/'' @ [CHR 0x09] @ ''/evil.example'') = ''/'' @ [CHR 0x09] @ ''/evil.example''"
  by code_simp

section \<open>Instances\<close>

theorem callback_completes_its_own_start_witness:
  "\<exists>s db. demo_flow ''n1'' ''sub-2'' ''alex'' demo_accounts = (s, db) \<and> ws_User s = ''alex''
     \<and> OIDCCallback (\<lambda>code pkce. Some code) (demo_verify ''sub-2'' ''alex'') ''n2'' ''t'' ''st'' ''code'' (s, db) = (s, db)"
proof -
  obtain s db where flow: "demo_flow ''n1'' ''sub-2'' ''alex'' demo_accounts = (s, db)" by (cases "demo_flow ''n1'' ''sub-2'' ''alex'' demo_accounts") auto
  have "ws_User (fst (demo_flow ''n1'' ''sub-2'' ''alex'' demo_accounts)) = ''alex''" by code_simp
  with flow have user: "ws_User s = ''alex''" by simp
  then have "ws_User s \<noteq> ws_User (OIDCStart ''st'' ''n'' ''v'' no_session) \<or> db \<noteq> demo_accounts"
    by (simp add: OIDCStart_def no_session_def)
  from callback_completes_its_own_start [OF flow [unfolded demo_flow_def] this demo_ids] flow user show ?thesis by blast
qed

theorem deactivation_ends_sessions_witness:
  "\<exists>db. SetUserActive demo_root ''t'' ''u1'' False demo_accounts = Inr db
     \<and> RequireAuth (fst (Authenticate db (no_session\<lparr>ws_User := ''second''\<rparr>))) = RedirectToLogin
     \<and> RequireAuth (fst (Authenticate demo_accounts (no_session\<lparr>ws_User := ''second''\<rparr>))) = Passed"
proof -
  have "case SetUserActive demo_root ''t'' ''u1'' False demo_accounts of Inl _ \<Rightarrow> False | Inr _ \<Rightarrow> True" by code_simp
  then obtain db where db: "SetUserActive demo_root ''t'' ''u1'' False demo_accounts = Inr db" by (auto split: sum.splits)
  have u: "GetUser demo_accounts ''u1'' = Some (demo_person ''u1'' ''second'' RoleAdministrator)" by code_simp
  have names: "distinct (map usr_Username (ac_users demo_accounts))" by code_simp
  have low: "to_lower ''second'' = ''second''" by code_simp
  have before: "RequireAuth (fst (Authenticate demo_accounts (no_session\<lparr>ws_User := ''second''\<rparr>))) = Passed" by code_simp
  from deactivation_ends_sessions [OF db u names, of "no_session\<lparr>ws_User := ''second''\<rparr>"] low db before show ?thesis
    by (simp add: demo_person_def RequireAuth_def)
qed

end
