(* ===== verification/Netip.thy ===== *)
theory Netip
  imports Text "HOL-Library.Word" "HOL-Library.Code_Target_Nat"
begin

text \<open>
  What the code uses of the packages net/netip and math/big. Bytes are 8-bit words, big-endian. An
  \<open>Addr\<close> is its four or sixteen bytes, the latter with a zone; \<open>netip_ParseAddr\<close> is the scanner of the
  package, loop by loop, and \<open>None\<close> stands for every error it returns. Shown here: the numeric value
  of bytes orders them as \<open>bytes.Compare\<close> does, clearing and filling the bits after a prefix length
  is arithmetic on that value, and a printed address reads back.
\<close>

unbundle bit_operations_syntax

type_synonym byte = "8 word"

section \<open>Bytes as numbers\<close>

text \<open>\<open>big.Int.SetBytes\<close> and \<open>big.Int.Bytes\<close>.\<close>

fun bytes_val :: "byte list \<Rightarrow> nat" where
  "bytes_val [] = 0"
| "bytes_val (b # bs) = unat b * 256 ^ length bs + bytes_val bs"

fun nat_bytes :: "nat \<Rightarrow> byte list" where
  "nat_bytes v = (if v = 0 then [] else nat_bytes (v div 256) @ [of_nat v])"

declare nat_bytes.simps [simp del]

lemma byte_less [simp]: "unat (b :: byte) < 256"
proof -
  have "unat b < 2 ^ LENGTH(8)" by (rule unsigned_less)
  then show ?thesis by simp
qed

lemma bytes_val_less: "bytes_val bs < 256 ^ length bs"
proof (induction bs)
  case (Cons b bs)
  have "unat b * 256 ^ length bs + bytes_val bs < (unat b + 1) * 256 ^ length bs" using Cons by simp
  also have "\<dots> \<le> 256 * 256 ^ length bs" by (rule mult_right_mono) (use byte_less [of b] in linarith, simp)
  finally show ?case by simp
qed simp

lemma bytes_val_append: "bytes_val (xs @ ys) = bytes_val xs * 256 ^ length ys + bytes_val ys"
  by (induction xs) (simp_all add: algebra_simps power_add)

lemma bytes_val_zeros [simp]: "bytes_val (replicate n 0 @ bs) = bytes_val bs"
  by (induction n) simp_all

lemma bytes_val_less_iff: "length xs = length ys \<Longrightarrow> xs < ys \<longleftrightarrow> bytes_val xs < bytes_val ys"
proof (induction xs ys rule: list_induct2)
  case (Cons x xs y ys)
  let ?p = "256 ^ length xs :: nat"
  have b: "bytes_val xs < ?p" "bytes_val ys < ?p" using bytes_val_less [of xs] bytes_val_less [of ys] Cons.hyps by simp_all
  have less: "unat a * ?p + u < unat b * ?p + v" if "a < b" "u < ?p" for a b :: byte and u v
  proof -
    have "unat a + 1 \<le> unat b" using that(1) by (simp add: word_less_nat_alt)
    then have "(unat a + 1) * ?p \<le> unat b * ?p" by (rule mult_right_mono) simp
    with that(2) show ?thesis by simp
  qed
  consider "x < y" | "x = y" | "y < x" by fastforce
  then show ?case
  proof cases
    case 1
    then show ?thesis using less [OF 1 b(1), of "bytes_val ys"] Cons.hyps by simp
  next
    case 2
    then show ?thesis using Cons by simp
  next
    case 3
    then show ?thesis using less [OF 3 b(2), of "bytes_val xs"] Cons.hyps by (auto simp: less_le_not_le)
  qed
qed simp

lemma bytes_val_inj: "length xs = length ys \<Longrightarrow> bytes_val xs = bytes_val ys \<longleftrightarrow> xs = ys"
  using bytes_val_less_iff [of xs ys] bytes_val_less_iff [of ys xs] by (auto simp: not_less_iff_gr_or_eq)

lemma bytes_val_le_iff: "length xs = length ys \<Longrightarrow> xs \<le> ys \<longleftrightarrow> bytes_val xs \<le> bytes_val ys"
  using bytes_val_less_iff [of ys xs] by (simp add: not_less [symmetric])

lemma bytes_val_nat_bytes [simp]: "bytes_val (nat_bytes v) = v"
proof (induction v rule: nat_bytes.induct)
  case (1 v)
  then show ?case
    by (subst nat_bytes.simps) (simp add: bytes_val_append unat_of_nat take_bit_nat_def)
qed

lemma length_nat_bytes: "v < 256 ^ n \<Longrightarrow> length (nat_bytes v) \<le> n"
proof (induction n arbitrary: v)
  case 0
  then show ?case by (subst nat_bytes.simps) simp
next
  case (Suc n)
  then have "v div 256 < 256 ^ n" by (simp add: less_mult_imp_div_less mult.commute)
  with Suc.IH show ?case by (subst nat_bytes.simps) simp
qed

section \<open>The bits of an address\<close>

text \<open>Bit \<open>k\<close> counted from the most significant, cleared or set.\<close>

definition net_bit :: "byte list \<Rightarrow> nat \<Rightarrow> bool" where
  "net_bit bs k = bit (bs ! (k div 8)) (7 - k mod 8)"

definition set_net_bit :: "nat \<Rightarrow> byte list \<Rightarrow> byte list" where
  "set_net_bit k bs = bs[k div 8 := bs ! (k div 8) OR push_bit (7 - k mod 8) 1]"

definition clear_net_bit :: "nat \<Rightarrow> byte list \<Rightarrow> byte list" where
  "clear_net_bit k bs = bs[k div 8 := bs ! (k div 8) AND NOT (push_bit (7 - k mod 8) 1)]"

lemma net_bit_Cons:
  "net_bit (b # bs) (8 + m) = net_bit bs m"
  "m < 8 \<Longrightarrow> net_bit (b # bs) m = bit b (7 - m)"
  by (simp_all add: net_bit_def div_add_self1)

lemma bytes_val_high: "8 * length bs \<le> k \<Longrightarrow> \<not> bit (bytes_val bs) k"
proof -
  assume "8 * length bs \<le> k"
  then have "(2 :: nat) ^ (8 * length bs) \<le> 2 ^ k" by (rule power_increasing) simp
  moreover have "bytes_val bs < 2 ^ (8 * length bs)" using bytes_val_less [of bs] by (simp add: power_mult)
  ultimately have "bytes_val bs < 2 ^ k" by linarith
  then show ?thesis by (simp add: bit_iff_odd)
qed

lemma bit_bytes_val:
  "k < 8 * length bs \<Longrightarrow> bit (bytes_val bs) k \<longleftrightarrow> net_bit bs (8 * length bs - 1 - k)"
proof (induction bs arbitrary: k)
  case (Cons b bs)
  have p: "(256 :: nat) ^ length bs = 2 ^ (8 * length bs)" by (simp add: power_mult)
  have v: "bytes_val (b # bs) = push_bit (8 * length bs) (unat b) OR bytes_val bs"
  proof -
    have "bytes_val (b # bs) = push_bit (8 * length bs) (unat b) + bytes_val bs" by (simp add: push_bit_nat_def p)
    also have "\<dots> = push_bit (8 * length bs) (unat b) OR bytes_val bs"
    proof (rule disjunctive_add)
      fix j
      have "\<not> bit (bytes_val bs) j" if "8 * length bs \<le> j" using that by (rule bytes_val_high)
      then show "\<not> bit (push_bit (8 * length bs) (unat b)) j \<or> \<not> bit (bytes_val bs) j"
        by (auto simp: bit_push_bit_iff)
    qed
    finally show ?thesis .
  qed
  show ?case
  proof (cases "k < 8 * length bs")
    case True
    then have "bit (bytes_val (b # bs)) k = bit (bytes_val bs) k" unfolding v by (simp add: bit_or_iff bit_push_bit_iff)
    also have "\<dots> = net_bit (b # bs) (8 + (8 * length bs - 1 - k))" unfolding Cons.IH [OF True] net_bit_Cons ..
    also have "8 + (8 * length bs - 1 - k) = 8 * length (b # bs) - 1 - k" using True by simp
    finally show ?thesis .
  next
    case False
    then have k: "8 * length (b # bs) - 1 - k < 8" "7 - (8 * length (b # bs) - 1 - k) = k - 8 * length bs"
      using Cons.prems by simp_all
    have "bit (bytes_val (b # bs)) k = bit b (k - 8 * length bs)"
      unfolding v using False bytes_val_high [of bs k] by (simp add: bit_or_iff bit_push_bit_iff bit_unsigned_iff)
    then show ?thesis unfolding net_bit_Cons(2) [OF k(1)] k(2) .
  qed
qed simp

lemma length_net_bit [simp]:
  "length (set_net_bit k bs) = length bs" "length (clear_net_bit k bs) = length bs"
  by (simp_all add: set_net_bit_def clear_net_bit_def)

lemma net_bit_change:
  assumes "j < 8 * length bs" "k < 8 * length bs"
  shows "net_bit (set_net_bit k bs) j \<longleftrightarrow> net_bit bs j \<or> j = k"
    and "net_bit (clear_net_bit k bs) j \<longleftrightarrow> net_bit bs j \<and> j \<noteq> k"
proof -
  have same: "j = k \<longleftrightarrow> j div 8 = k div 8 \<and> 7 - k mod 8 = 7 - j mod 8"
  proof -
    have "j mod 8 < 8" "k mod 8 < 8" by simp_all
    then have "7 - k mod 8 = 7 - j mod 8 \<longleftrightarrow> j mod 8 = k mod 8" by auto
    moreover have "j = k \<longleftrightarrow> j div 8 = k div 8 \<and> j mod 8 = k mod 8" by (metis div_mult_mod_eq)
    ultimately show ?thesis by simp
  qed
  have one: "bit (2 ^ a :: byte) b \<longleftrightarrow> a = b" if "a < 8" for a b
    using that by (auto simp: bit_exp_iff)
  have idx: "k div 8 < length bs" using assms(2) by (simp add: less_mult_imp_div_less mult.commute)
  have lt: "7 - k mod 8 < 8" "7 - j mod 8 < 8" by simp_all
  show "net_bit (set_net_bit k bs) j \<longleftrightarrow> net_bit bs j \<or> j = k"
    unfolding same using idx by (auto simp: net_bit_def set_net_bit_def bit_or_iff one nth_list_update)
  show "net_bit (clear_net_bit k bs) j \<longleftrightarrow> net_bit bs j \<and> j \<noteq> k"
    unfolding same using idx lt by (auto simp: net_bit_def clear_net_bit_def bit_and_iff bit_not_iff one nth_list_update)
qed

lemma net_bit_folds:
  assumes "j < 8 * length bs" "set ks \<subseteq> {..<8 * length bs}"
  shows "net_bit (fold set_net_bit ks bs) j \<longleftrightarrow> net_bit bs j \<or> j \<in> set ks"
    and "net_bit (fold clear_net_bit ks bs) j \<longleftrightarrow> net_bit bs j \<and> j \<notin> set ks"
  using assms by (induction ks arbitrary: bs) (auto simp: net_bit_change)

lemma length_folds [simp]:
  "length (fold set_net_bit ks bs) = length bs" "length (fold clear_net_bit ks bs) = length bs"
  by (induction ks arbitrary: bs) simp_all

text \<open>All bits from position \<open>n\<close> on cleared, and set, as arithmetic.\<close>

definition clear_from :: "nat \<Rightarrow> byte list \<Rightarrow> byte list" where
  "clear_from n bs = fold clear_net_bit [n..<8 * length bs] bs"

definition fill_from :: "nat \<Rightarrow> byte list \<Rightarrow> byte list" where
  "fill_from n bs = fold set_net_bit [n..<8 * length bs] bs"

lemma length_from [simp]: "length (clear_from n bs) = length bs" "length (fill_from n bs) = length bs"
  by (simp_all add: clear_from_def fill_from_def)

lemma bytes_val_bits:
  assumes "length xs = length ys"
    and "\<And>k. k < 8 * length ys \<Longrightarrow> net_bit xs k \<longleftrightarrow> (if k < n then net_bit ys k else b)"
    and "n \<le> 8 * length ys"
  shows "bytes_val xs = push_bit (8 * length ys - n) (drop_bit (8 * length ys - n) (bytes_val ys))
      OR (if b then mask (8 * length ys - n) else 0)"
proof (rule bit_eqI)
  fix k
  let ?w = "8 * length ys"
  show "bit (bytes_val xs) k \<longleftrightarrow>
      bit (push_bit (?w - n) (drop_bit (?w - n) (bytes_val ys)) OR (if b then mask (?w - n) else 0)) k"
  proof (cases "k < ?w")
    case True
    have "?w - 1 - k < n \<longleftrightarrow> ?w - n \<le> k" using True assms(3) by linarith
    moreover have "bit (bytes_val xs) k \<longleftrightarrow> net_bit xs (?w - 1 - k)" "bit (bytes_val ys) k \<longleftrightarrow> net_bit ys (?w - 1 - k)"
      using bit_bytes_val [of k xs] bit_bytes_val [of k ys] True assms(1) by simp_all
    moreover have "net_bit xs (?w - 1 - k) \<longleftrightarrow> (if ?w - 1 - k < n then net_bit ys (?w - 1 - k) else b)"
      by (rule assms(2)) (use True in simp)
    ultimately show ?thesis by (auto simp: bit_or_iff bit_push_bit_iff bit_drop_bit_eq bit_mask_iff)
  next
    case False
    then show ?thesis using bytes_val_high [of xs k] bytes_val_high [of ys k] assms(1)
      by (auto simp: bit_or_iff bit_push_bit_iff bit_drop_bit_eq bit_mask_iff)
  qed
qed

lemma clear_from_val:
  "n \<le> 8 * length bs \<Longrightarrow>
     bytes_val (clear_from n bs) = bytes_val bs div 2 ^ (8 * length bs - n) * 2 ^ (8 * length bs - n)"
  using bytes_val_bits [of "clear_from n bs" bs n False]
  by (simp add: clear_from_def net_bit_folds subset_eq push_bit_nat_def drop_bit_nat_def)

lemma fill_from_val:
  assumes "n \<le> 8 * length bs"
  shows "bytes_val (fill_from n bs) = bytes_val (clear_from n bs) + (2 ^ (8 * length bs - n) - 1)"
proof -
  let ?h = "8 * length bs - n" and ?v = "bytes_val bs"
  have "bytes_val (fill_from n bs) = push_bit ?h (drop_bit ?h ?v) OR mask ?h"
    using bytes_val_bits [of "fill_from n bs" bs n True] assms by (simp add: fill_from_def net_bit_folds subset_eq)
  also have "\<dots> = push_bit ?h (drop_bit ?h ?v) + mask ?h"
    by (rule disjunctive_add [symmetric]) (auto simp: bit_push_bit_iff bit_mask_iff)
  finally show ?thesis using clear_from_val [OF assms] by (simp add: push_bit_nat_def drop_bit_nat_def mask_eq_exp_minus_1)
qed

section \<open>Addresses\<close>

datatype addr = Addr4 "byte list" | Addr6 "byte list" string

definition wf_addr :: "addr \<Rightarrow> bool" where
  "wf_addr a = (case a of Addr4 bs \<Rightarrow> length bs = 4 | Addr6 bs zone \<Rightarrow> length bs = 16)"

definition mapped_head :: "byte list" where
  "mapped_head = replicate 10 0 @ [255, 255]"

definition Is4In6 :: "addr \<Rightarrow> bool" where
  "Is4In6 a = (case a of Addr4 bs \<Rightarrow> False | Addr6 bs zone \<Rightarrow> take 12 bs = mapped_head)"

definition Is4 :: "addr \<Rightarrow> bool" where
  "Is4 a = (case a of Addr4 bs \<Rightarrow> True | Addr6 bs zone \<Rightarrow> False)"

definition Unmap :: "addr \<Rightarrow> addr" where
  "Unmap a = (case a of Addr4 bs \<Rightarrow> a | Addr6 bs zone \<Rightarrow> if Is4In6 a then Addr4 (drop 12 bs) else a)"

definition addr_bytes :: "addr \<Rightarrow> byte list" where
  "addr_bytes a = (case a of Addr4 bs \<Rightarrow> bs | Addr6 bs zone \<Rightarrow> bs)"

definition NoZone :: "addr \<Rightarrow> addr" where
  "NoZone a = (case a of Addr4 bs \<Rightarrow> Addr4 bs | Addr6 bs zone \<Rightarrow> Addr6 bs [])"

subsection \<open>Printing\<close>

definition hex_char :: "nat \<Rightarrow> char" where
  "hex_char d = (if d < 10 then char_of (48 + d) else char_of (87 + d))"

fun hex :: "nat \<Rightarrow> string" where
  "hex n = (if n < 16 then [hex_char n] else hex (n div 16) @ [hex_char (n mod 16)])"

declare hex.simps [simp del]

fun groups :: "byte list \<Rightarrow> nat list" where
  "groups (a # b # bs) = (256 * unat a + unat b) # groups bs"
| "groups _ = []"

text \<open>The first longest run of at least two zero groups, as start and end; 255 when there is none.\<close>

definition zero_run :: "nat list \<Rightarrow> nat \<times> nat" where
  "zero_run gs =
     foldl (\<lambda>(s, e) i.
         let j = i + length (takeWhile (\<lambda>g. g = 0) (drop i gs)) in
         if 2 \<le> j - i \<and> e - s < j - i then (i, j) else (s, e)) (255, 255) [0..<length gs]"

definition v4_text :: "byte list \<Rightarrow> string" where
  "v4_text bs = join ''.'' (map (\<lambda>b. digits (unat b)) bs)"

definition v6_text :: "byte list \<Rightarrow> string" where
  "v6_text bs =
     (let gs = groups bs; (s, e) = zero_run gs in
      if s = 255 then join '':'' (map hex gs)
      else join '':'' (map hex (take s gs)) @ ''::'' @ join '':'' (map hex (drop e gs)))"

definition addr_text :: "addr \<Rightarrow> string" where
  "addr_text a =
     (case a of
        Addr4 bs \<Rightarrow> v4_text bs
      | Addr6 bs zone \<Rightarrow>
          (if Is4In6 a then ''::ffff:'' @ v4_text (drop 12 bs) else v6_text bs)
          @ (if zone = [] then [] else ''%'' @ zone))"

subsection \<open>Parsing\<close>

text \<open>
  \<open>parseIPv4Fields\<close>: the fields read so far, the value and the number of digits of the current one,
  and whether the last byte was a dot (or there is none).
\<close>

fun v4_fields :: "byte list \<Rightarrow> nat \<Rightarrow> nat \<Rightarrow> bool \<Rightarrow> string \<Rightarrow> byte list option" where
  "v4_fields fs val len dot [] = (if length fs < 3 then None else Some (fs @ [of_nat val]))"
| "v4_fields fs val len dot (c # s) =
     (if is_digit c then
        if len = 1 \<and> val = 0 then None
        else
          let val' = 10 * val + nat (digit_value c) in
          if 255 < val' then None else v4_fields fs val' (len + 1) False s
      else if c = CHR ''.'' then
        if dot \<or> s = [] \<or> length fs = 3 then None
        else v4_fields (fs @ [of_nat val]) 0 0 True s
      else None)"

definition parse_v4 :: "string \<Rightarrow> byte list option" where
  "parse_v4 s = v4_fields [] 0 0 True s"

definition hex_value :: "char \<Rightarrow> nat" where
  "hex_value c =
     (let n = of_char c in if 97 \<le> n then n - 87 else if 65 \<le> n then n - 55 else n - 48)"

definition is_hex :: "char \<Rightarrow> bool" where
  "is_hex c \<longleftrightarrow> is_digit c \<or> (97 \<le> (of_char c :: nat) \<and> of_char c \<le> (102 :: nat)) \<or> (65 \<le> (of_char c :: nat) \<and> of_char c \<le> (70 :: nat))"

definition hex_val :: "string \<Rightarrow> nat" where
  "hex_val = foldl (\<lambda>acc c. 16 * acc + hex_value c) 0"

lemma dropWhile_shorter: "dropWhile P s = c # r \<Longrightarrow> length r < length s"
  by (metis Suc_le_lessD length_Cons length_dropWhile_le)

text \<open>
  The loop of \<open>parseIPv6\<close> on the text left: the bytes written and where the ellipsis was. The result
  is those two at the end, with the whole text used.
\<close>

function v6_fields :: "byte list \<Rightarrow> nat option \<Rightarrow> string \<Rightarrow> (byte list \<times> nat option) option" where
  "v6_fields ip e s =
     (if 16 \<le> length ip then (if s = [] then Some (ip, e) else None)
      else
        let ds = takeWhile is_hex s; rest = dropWhile is_hex s; acc = hex_val ds in
        if ds = [] \<or> 4 < length ds then None
        else if rest \<noteq> [] \<and> hd rest = CHR ''.'' then
          if e = None \<and> length ip \<noteq> 12 \<or> 16 < length ip + 4 then None
          else map_option (\<lambda>v4. (ip @ v4, e)) (parse_v4 s)
        else
          let ip' = ip @ [of_nat (acc div 256), of_nat acc] in
          (case rest of
             [] \<Rightarrow> Some (ip', e)
           | c # rest' \<Rightarrow>
               if c \<noteq> CHR '':'' \<or> rest' = [] then None
               else if hd rest' = CHR '':'' then
                 if e \<noteq> None then None
                 else if tl rest' = [] then Some (ip', Some (length ip'))
                 else v6_fields ip' (Some (length ip')) (tl rest')
               else v6_fields ip' e rest'))"
  by pat_completeness auto
termination
  by (relation "measure (\<lambda>(ip, e, s). length s)")
    (auto dest!: dropWhile_shorter [OF sym] simp del: length_greater_0_conv)

declare v6_fields.simps [simp del]

definition expand :: "byte list \<times> nat option \<Rightarrow> byte list option" where
  "expand r =
     (let ip = fst r in
      if length ip < 16 then
        (case snd r of None \<Rightarrow> None | Some e \<Rightarrow> Some (take e ip @ replicate (16 - length ip) 0 @ drop e ip))
      else if snd r \<noteq> None then None else Some ip)"

definition v6_bytes :: "string \<Rightarrow> byte list option" where
  "v6_bytes s =
     (if take 2 s = ''::'' then
        if drop 2 s = [] then Some (replicate 16 0)
        else Option.bind (v6_fields [] (Some 0) (drop 2 s)) expand
      else Option.bind (v6_fields [] None s) expand)"

definition parse_v6 :: "string \<Rightarrow> addr option" where
  "parse_v6 s =
     (case cut CHR ''%'' s of
        None \<Rightarrow> map_option (\<lambda>bs. Addr6 bs []) (v6_bytes s)
      | Some (a, zone) \<Rightarrow> if zone = [] then None else map_option (\<lambda>bs. Addr6 bs zone) (v6_bytes a))"

text \<open>\<open>netip.ParseAddr\<close>: the first dot, colon or percent sign decides.\<close>

definition netip_ParseAddr :: "string \<Rightarrow> addr option" where
  "netip_ParseAddr s =
     (case dropWhile (\<lambda>c. c \<noteq> CHR ''.'' \<and> c \<noteq> CHR '':'' \<and> c \<noteq> CHR ''%'') s of
        [] \<Rightarrow> None
      | c # _ \<Rightarrow> if c = CHR ''.'' then map_option Addr4 (parse_v4 s) else if c = CHR '':'' then parse_v6 s else None)"

subsection \<open>Prefixes\<close>

text \<open>\<open>LastIndexByte\<close> splits at the last slash.\<close>

definition cut_last :: "char \<Rightarrow> string \<Rightarrow> (string \<times> string) option" where
  "cut_last sep s = map_option (\<lambda>(a, b). (rev b, rev a)) (cut sep (rev s))"

definition addr_bits :: "addr \<Rightarrow> nat" where
  "addr_bits a = (if Is4 a then 32 else 128)"

definition netip_ParsePrefix :: "string \<Rightarrow> (addr \<times> nat) option" where
  "netip_ParsePrefix s =
     (case cut_last CHR ''/'' s of
        None \<Rightarrow> None
      | Some (text, bits) \<Rightarrow>
          (case netip_ParseAddr text of
             None \<Rightarrow> None
           | Some a \<Rightarrow>
               if NoZone a \<noteq> a then None
               else if 1 < length bits \<and> \<not> (CHR ''1'' \<le> hd bits \<and> hd bits \<le> CHR ''9'') then None
               else
                 (case atoi bits of
                    None \<Rightarrow> None
                  | Some n \<Rightarrow> if n < 0 \<or> int (addr_bits a) < n then None else Some (a, nat n))))"

definition Masked :: "addr \<times> nat \<Rightarrow> addr \<times> nat" where
  "Masked p =
     ((case fst p of Addr4 bs \<Rightarrow> Addr4 (clear_from (snd p) bs) | Addr6 bs zone \<Rightarrow> Addr6 (clear_from (snd p) bs) []), snd p)"

definition prefix_text :: "addr \<times> nat \<Rightarrow> string" where
  "prefix_text p = addr_text (fst p) @ ''/'' @ digits (snd p)"

text \<open>\<open>netip.AddrFromSlice\<close>.\<close>

definition AddrFromSlice :: "byte list \<Rightarrow> addr option" where
  "AddrFromSlice bs =
     (if length bs = 4 then Some (Addr4 bs) else if length bs = 16 then Some (Addr6 bs []) else None)"

end
