(* ===== verification/Netip_Text.thy ===== *)
theory Netip_Text
  imports Netip
begin

text \<open>
  Printed addresses and prefixes read back: the canonical texts of the package net/netip, in both
  families, with the zero run of IPv6, mapped addresses and zones.
\<close>

section \<open>IPv4\<close>

lemma digits_small:
  "n < 10 \<Longrightarrow> digits n = [char_of (48 + n)]"
  "10 \<le> n \<Longrightarrow> n < 100 \<Longrightarrow> digits n = [char_of (48 + n div 10), char_of (48 + n mod 10)]"
  "100 \<le> n \<Longrightarrow> n < 1000 \<Longrightarrow> digits n = [char_of (48 + n div 100), char_of (48 + n div 10 mod 10), char_of (48 + n mod 10)]"
proof -
  show one: "digits n = [char_of (48 + n)]" if "n < 10" for n using that by (subst digits.simps) simp
  show two: "digits n = [char_of (48 + n div 10), char_of (48 + n mod 10)]" if "10 \<le> n" "n < 100" for n
    using that one [of "n div 10"] by (subst digits.simps) simp
  show "digits n = [char_of (48 + n div 100), char_of (48 + n div 10 mod 10), char_of (48 + n mod 10)]" if "100 \<le> n" "n < 1000"
    using that two [of "n div 10"] by (subst digits.simps) (simp add: div_mult2_eq [symmetric])
qed

lemma v4_digit:
  "d < 10 \<Longrightarrow> \<not> (len = 1 \<and> val = 0) \<Longrightarrow> 10 * val + d \<le> 255 \<Longrightarrow>
     v4_fields fs val len dot (char_of (48 + d) # s) = v4_fields fs (10 * val + d) (len + 1) False s"
  by auto

lemma v4_field:
  assumes "n \<le> 255"
  shows "v4_fields fs 0 0 dot (digits n @ rest) = v4_fields fs n (length (digits n)) False rest"
proof -
  consider "n < 10" | "10 \<le> n" "n < 100" | "100 \<le> n" "n < 1000" using assms by linarith
  then show ?thesis
  proof cases
    case 1
    then show ?thesis using assms by (simp add: digits_small)
  next
    case 2
    let ?a = "n div 10" and ?b = "n mod 10"
    have n: "10 * (10 * 0 + ?a) + ?b = n" by simp
    have "v4_fields fs 0 0 dot (char_of (48 + ?a) # char_of (48 + ?b) # rest)
        = v4_fields fs (10 * (10 * 0 + ?a) + ?b) (0 + 1 + 1) False rest"
      using 2 assms by (subst v4_digit, simp, simp, simp, subst v4_digit) simp_all
    then show ?thesis unfolding n using 2 by (simp add: digits_small)
  next
    case 3
    let ?a = "n div 100" and ?b = "n div 10 mod 10" and ?c = "n mod 10"
    have "?a = n div 10 div 10" by (simp add: div_mult2_eq [symmetric])
    then have n: "10 * (10 * 0 + ?a) + ?b = n div 10" by simp
    then have n': "10 * (10 * (10 * 0 + ?a) + ?b) + ?c = n" by simp
    have "v4_fields fs 0 0 dot (char_of (48 + ?a) # char_of (48 + ?b) # char_of (48 + ?c) # rest)
        = v4_fields fs (10 * 0 + ?a) (0 + 1) False (char_of (48 + ?b) # char_of (48 + ?c) # rest)"
      by (rule v4_digit) (use 3 assms in simp_all)
    also have "\<dots> = v4_fields fs (10 * (10 * 0 + ?a) + ?b) (0 + 1 + 1) False (char_of (48 + ?c) # rest)"
      by (rule v4_digit) (use 3 assms n in simp_all)
    also have "\<dots> = v4_fields fs (10 * (10 * (10 * 0 + ?a) + ?b) + ?c) (0 + 1 + 1 + 1) False rest"
      by (rule v4_digit) (use 3 assms n n' in simp_all)
    finally show ?thesis unfolding n' using 3 by (simp add: digits_small)
  qed
qed

lemma v4_text4: "v4_text [a, b, c, d] =
    digits (unat a) @ CHR ''.'' # digits (unat b) @ CHR ''.'' # digits (unat c) @ CHR ''.'' # digits (unat d)"
  by (simp add: v4_text_def)

lemma byte_le [simp]: "unat (b :: byte) \<le> 255"
  using byte_less [of b] by linarith

lemma v4_field_end: "n \<le> 255 \<Longrightarrow> v4_fields fs 0 0 dot (digits n) = v4_fields fs n (length (digits n)) False []"
  using v4_field [of n fs dot "[]"] by simp

lemma parse_v4_text:
  assumes "length bs = 4"
  shows "parse_v4 (v4_text bs) = Some bs"
proof -
  from assms obtain a b c d where bs: "bs = [a, b, c, d]" by (auto simp: length_Suc_conv numeral_eq_Suc)
  have dot: "\<not> is_digit CHR ''.''" by (simp add: is_digit_def)
  show ?thesis unfolding bs parse_v4_def v4_text4 by (simp add: v4_field v4_field_end dot)
qed

section \<open>IPv6\<close>

lemma hex_char_facts:
  assumes "d < 16"
  shows "is_hex (hex_char d)" "hex_value (hex_char d) = d"
proof -
  have "of_char (char_of (48 + d) :: char) = 48 + d" "of_char (char_of (87 + d) :: char) = 87 + d" using assms by simp_all
  then show "is_hex (hex_char d)" "hex_value (hex_char d) = d"
    using assms by (auto simp: hex_char_def is_hex_def is_digit_def hex_value_def Let_def)
qed

lemma hex_nonempty [simp]: "hex n \<noteq> []"
  by (subst hex.simps) simp

lemma hex_all: "list_all is_hex (hex n)"
  by (induction n rule: hex.induct) (subst hex.simps, simp add: hex_char_facts)

lemma hex_val_hex: "hex_val (hex n) = n"
proof (induction n rule: hex.induct)
  case (1 n)
  have snoc: "hex_val (s @ [c]) = 16 * hex_val s + hex_value c" for s c by (simp add: hex_val_def)
  show ?case
  proof (cases "n < 16")
    case True
    then show ?thesis by (subst hex.simps) (simp add: hex_val_def hex_char_facts)
  next
    case False
    with 1 show ?thesis by (subst hex.simps) (simp add: snoc hex_char_facts)
  qed
qed

lemma length_hex: "n < 16 ^ k \<Longrightarrow> 0 < k \<Longrightarrow> length (hex n) \<le> k"
proof (induction k arbitrary: n)
  case (Suc k)
  show ?case
  proof (cases "n < 16")
    case True
    then show ?thesis by (subst hex.simps) simp
  next
    case False
    with Suc.prems have "k \<noteq> 0" by (cases k) simp_all
    moreover have "n div 16 < 16 ^ k" using Suc.prems by (simp add: less_mult_imp_div_less mult.commute)
    ultimately show ?thesis using Suc.IH False by (subst hex.simps) simp
  qed
qed simp

lemma hex_alone: "takeWhile is_hex (hex n) = hex n" "dropWhile is_hex (hex n) = []"
  using hex_all [of n] by (simp_all add: list_all_iff)

lemma hex_span:
  assumes "rest = [] \<or> \<not> is_hex (hd rest)"
  shows "takeWhile is_hex (hex n @ rest) = hex n" "dropWhile is_hex (hex n @ rest) = rest"
  using assms hex_all [of n] by (cases rest; simp add: takeWhile_append2 dropWhile_append2 list_all_iff)+

definition group_bytes :: "nat list \<Rightarrow> byte list" where
  "group_bytes gs = concat (map (\<lambda>g. [of_nat (g div 256), of_nat g]) gs)"

lemma group_bytes_simps [simp]:
  "group_bytes [] = []" "group_bytes (g # gs) = [of_nat (g div 256), of_nat g] @ group_bytes gs"
  "group_bytes (gs @ hs) = group_bytes gs @ group_bytes hs"
  by (simp_all add: group_bytes_def)

lemma length_group_bytes [simp]: "length (group_bytes gs) = 2 * length gs"
  by (induction gs) simp_all

lemma group_bytes_zeros [simp]: "group_bytes (replicate n 0) = replicate (2 * n) 0"
  by (induction n) simp_all

lemma groups_facts:
  "even (length bs) \<Longrightarrow> length (groups bs) = length bs div 2 \<and> group_bytes (groups bs) = bs \<and> (\<forall>g \<in> set (groups bs). g < 16 ^ 4)"
proof (induction bs rule: groups.induct)
  case (1 a b bs)
  have "256 * unat a + unat b < 16 ^ 4" using byte_le [of a] byte_le [of b] by (simp del: byte_le byte_less)
  moreover have "of_nat ((256 * unat a + unat b) div 256) = a" using byte_less [of b] by simp
  moreover have "of_nat (256 * unat a + unat b) = b"
  proof -
    have "(256 :: byte) = 0" by simp
    then have "(256 :: byte) * a = 0" by (metis mult_zero_left)
    then show ?thesis by simp
  qed
  ultimately show ?case using 1 by simp
qed simp_all

lemma not_hex [simp]: "\<not> is_hex CHR '':''" "\<not> is_hex CHR ''.''"
  by (simp_all add: is_hex_def is_digit_def)

lemma hex_hd: "is_hex (hd (hex n @ s))" "hd (hex n @ s) \<noteq> CHR '':''"
  using hex_all [of n] not_hex(1) by (cases "hex n"; auto)+

text \<open>One group, and what may come after it.\<close>

lemma v6_group:
  assumes "length ip < 16" "g < 16 ^ 4"
  defines "ip' \<equiv> ip @ [of_nat (g div 256), of_nat g]"
  shows "v6_fields ip e (hex g) = Some (ip', e)"
    and "r \<noteq> [] \<Longrightarrow> hd r \<noteq> CHR '':'' \<Longrightarrow> v6_fields ip e (hex g @ CHR '':'' # r) = v6_fields ip' e r"
    and "v6_fields ip None (hex g @ ''::'') = Some (ip', Some (length ip'))"
    and "r \<noteq> [] \<Longrightarrow> v6_fields ip None (hex g @ ''::'' @ r) = v6_fields ip' (Some (length ip')) r"
proof -
  have len: "length (hex g) \<le> 4" using length_hex [of g 4] assms(2) by simp
  note span = hex_alone hex_span [of "CHR '':'' # r" for r, simplified]
  show "v6_fields ip e (hex g) = Some (ip', e)"
    using assms(1) len by (subst v6_fields.simps) (simp add: span hex_val_hex ip'_def Let_def)
  show "r \<noteq> [] \<Longrightarrow> hd r \<noteq> CHR '':'' \<Longrightarrow> v6_fields ip e (hex g @ CHR '':'' # r) = v6_fields ip' e r"
    using assms(1) len by (subst v6_fields.simps) (simp add: span hex_val_hex ip'_def Let_def)
  show "v6_fields ip None (hex g @ ''::'') = Some (ip', Some (length ip'))"
    using assms(1) len by (subst v6_fields.simps) (simp add: span hex_val_hex ip'_def Let_def)
  show "r \<noteq> [] \<Longrightarrow> v6_fields ip None (hex g @ ''::'' @ r) = v6_fields ip' (Some (length ip')) r"
    using assms(1) len by (subst v6_fields.simps) (simp add: span hex_val_hex ip'_def Let_def)
qed

abbreviation hexes :: "nat list \<Rightarrow> string" where
  "hexes gs \<equiv> join '':'' (map hex gs)"

lemma hexes_Cons: "gs \<noteq> [] \<Longrightarrow> hexes (g # gs) = hex g @ CHR '':'' # hexes gs"
  by (cases gs) simp_all

lemma hexes_hd: "gs \<noteq> [] \<Longrightarrow> hexes gs \<noteq> [] \<and> hd (hexes gs) \<noteq> CHR '':'' \<and> is_hex (hd (hexes gs))"
  using hex_hd [of "hd gs" "[]"] by (cases gs; cases "tl gs") (simp_all add: hex_hd)

lemma v6_fields_hexes:
  "gs \<noteq> [] \<Longrightarrow> \<forall>g \<in> set gs. g < 16 ^ 4 \<Longrightarrow> length ip + 2 * length gs \<le> 16 \<Longrightarrow>
     v6_fields ip e (hexes gs) = Some (ip @ group_bytes gs, e)"
proof (induction gs arbitrary: ip)
  case (Cons g gs)
  then have len: "length ip < 16" and g: "g < 16 ^ 4" by simp_all
  show ?case
  proof (cases "gs = []")
    case True
    then show ?thesis using v6_group(1) [OF len g] by simp
  next
    case False
    let ?ip = "ip @ [of_nat (g div 256), of_nat g]"
    have "v6_fields ip e (hexes (g # gs)) = v6_fields ?ip e (hexes gs)"
      unfolding hexes_Cons [OF False] using v6_group(2) [OF len g, of "hexes gs" e] hexes_hd [OF False] by simp
    also have "\<dots> = Some (?ip @ group_bytes gs, e)"
      by (rule Cons.IH [OF False]) (use Cons.prems in simp_all)
    finally show ?thesis by simp
  qed
qed simp

lemma v6_fields_ellipsis:
  "gs \<noteq> [] \<Longrightarrow> \<forall>g \<in> set (gs @ hs). g < 16 ^ 4 \<Longrightarrow> length ip + 2 * length (gs @ hs) < 16 \<Longrightarrow>
     v6_fields ip None (hexes gs @ ''::'' @ hexes hs)
       = Some (ip @ group_bytes (gs @ hs), Some (length ip + 2 * length gs))"
proof (induction gs arbitrary: ip)
  case (Cons g gs)
  then have len: "length ip < 16" and g: "g < 16 ^ 4" by simp_all
  let ?ip = "ip @ [of_nat (g div 256), of_nat g]"
  show ?case
  proof (cases "gs = []")
    case True
    show ?thesis
    proof (cases "hs = []")
      case h: True
      then show ?thesis using v6_group(3) [OF len g] True by simp
    next
      case False
      have "v6_fields ip None (hexes [g] @ ''::'' @ hexes hs) = v6_fields ?ip (Some (length ?ip)) (hexes hs)"
        using v6_group(4) [OF len g, of "hexes hs"] hexes_hd [OF False] by simp
      also have "\<dots> = Some (?ip @ group_bytes hs, Some (length ?ip))"
        by (rule v6_fields_hexes [OF False]) (use Cons.prems True in simp_all)
      finally show ?thesis using True by simp
    qed
  next
    case False
    have "v6_fields ip None (hexes (g # gs) @ ''::'' @ hexes hs) = v6_fields ?ip None (hexes gs @ ''::'' @ hexes hs)"
      unfolding hexes_Cons [OF False] using v6_group(2) [OF len g, of "hexes gs @ ''::'' @ hexes hs" None] hexes_hd [OF False] by simp
    also have "\<dots> = Some (?ip @ group_bytes (gs @ hs), Some (length ?ip + 2 * length gs))"
      by (rule Cons.IH [OF False]) (use Cons.prems in simp_all)
    finally show ?thesis by simp
  qed
qed simp

lemma zero_run_facts:
  assumes "zero_run gs = (s, e)" "s \<noteq> 255" "length gs < 255"
  shows "s + 2 \<le> e \<and> e \<le> length gs \<and> gs = take s gs @ replicate (e - s) 0 @ drop e gs"
proof -
  let ?ok = "\<lambda>(s, e). (s, e) = (255, 255) \<or> s + 2 \<le> e \<and> e \<le> length gs \<and> gs = take s gs @ replicate (e - s) 0 @ drop e gs"
  let ?f = "\<lambda>(s, e) i.
         let j = i + length (takeWhile (\<lambda>g. g = 0) (drop i gs)) in
         if 2 \<le> j - i \<and> e - s < j - i then (i, j) else (s, e)"
  have run: "gs = take i gs @ replicate n 0 @ drop (i + n) gs"
    if "i \<le> length gs" "n = length (takeWhile (\<lambda>g. g = 0) (drop i gs))" for i n
  proof -
    have "takeWhile (\<lambda>g. g = 0) (drop i gs) = replicate n 0"
      using that(2) by (intro replicate_eqI) (auto dest: set_takeWhileD)
    moreover have "dropWhile (\<lambda>g. g = 0) (drop i gs) = drop (i + n) gs"
      using that(2) by (simp add: dropWhile_eq_drop add.commute)
    ultimately show ?thesis by (metis append_take_drop_id takeWhile_dropWhile_id)
  qed
  have "?ok (foldl ?f a is)" if "?ok a" "set is \<subseteq> {..<length gs}" for a "is"
    using that
  proof (induction "is" arbitrary: a)
    case (Cons i "is")
    obtain s e where a: "a = (s, e)" by force
    let ?n = "length (takeWhile (\<lambda>g. g = 0) (drop i gs))"
    have "?n \<le> length (drop i gs)" by (rule length_takeWhile_le)
    moreover have "i < length gs" using Cons.prems(2) by simp
    ultimately have "i + ?n \<le> length gs" unfolding length_drop by linarith
    with run [of i ?n] Cons.prems a have "?ok (?f a i)" by (auto simp: Let_def)
    then show ?case using Cons by simp
  qed simp
  moreover have "set [0..<length gs] \<subseteq> {..<length gs}" by auto
  ultimately have "?ok (zero_run gs)" unfolding zero_run_def by simp
  with assms show ?thesis by simp
qed

section \<open>Reading back\<close>

lemma v6_text_cases:
  assumes "length bs = 16"
  obtains "v6_text bs = hexes (groups bs)"
  | gs n hs where "v6_text bs = hexes gs @ ''::'' @ hexes hs" "groups bs = gs @ replicate n 0 @ hs" "2 \<le> n"
proof -
  obtain s e where r: "zero_run (groups bs) = (s, e)" by force
  have len: "length (groups bs) = 8" using groups_facts [of bs] assms by simp
  show thesis
  proof (cases "s = 255")
    case True
    then show ?thesis using that(1) r by (simp add: v6_text_def)
  next
    case False
    from zero_run_facts [OF r False] len
    have z: "s + 2 \<le> e" "groups bs = take s (groups bs) @ replicate (e - s) 0 @ drop e (groups bs)" by simp_all
    have "v6_text bs = hexes (take s (groups bs)) @ ''::'' @ hexes (drop e (groups bs))" using r False by (simp add: v6_text_def Let_def)
    moreover have "2 \<le> e - s" using z(1) by simp
    ultimately show ?thesis using that(2) z(2) by blast
  qed
qed

lemma v6_body:
  assumes "length bs = 16"
  shows "v6_bytes (v6_text bs) = Some bs"
  using assms
proof (cases rule: v6_text_cases)
  case 1
  have len: "length (groups bs) = 8" and gb: "group_bytes (groups bs) = bs" and lt: "\<forall>g \<in> set (groups bs). g < 16 ^ 4"
    using groups_facts [of bs] assms by simp_all
  from len have ne: "groups bs \<noteq> []" by auto
  then have "take 2 (hexes (groups bs)) \<noteq> ''::''" using hexes_hd [OF ne] by (cases "hexes (groups bs)") auto
  moreover have "v6_fields [] None (hexes (groups bs)) = Some (bs, None)"
    using v6_fields_hexes [OF ne lt, of "[]" None] len gb by simp
  ultimately show ?thesis unfolding 1 using assms by (simp add: expand_def v6_bytes_def)
next
  case (2 gs n hs)
  have len: "length (groups bs) = 8" and gb: "group_bytes (groups bs) = bs" and lt: "\<forall>g \<in> set (groups bs). g < 16 ^ 4"
    using groups_facts [of bs] assms by simp_all
  have total: "length gs + n + length hs = 8" using len 2(2) by simp
  have all: "\<forall>g \<in> set (gs @ hs). g < 16 ^ 4" using lt 2(2) by auto
  have bs: "bs = group_bytes gs @ replicate (2 * n) 0 @ group_bytes hs" using gb 2(2) by simp
  show ?thesis
  proof (cases "gs = []")
    case True
    show ?thesis
    proof (cases "hs = []")
      case h: True
      then show ?thesis using 2 True bs total by (simp add: v6_bytes_def)
    next
      case False
      have "v6_fields [] (Some 0) (hexes hs) = Some (group_bytes hs, Some 0)"
        using v6_fields_hexes [OF False, of "[]" "Some 0"] all total by simp
      then show ?thesis using 2 True bs total hexes_hd [OF False] by (simp add: expand_def v6_bytes_def)
    qed
  next
    case False
    have "take 2 (hexes gs @ ''::'' @ hexes hs) \<noteq> ''::''" using hexes_hd [OF False] by (cases "hexes gs") auto
    moreover have "v6_fields [] None (hexes gs @ ''::'' @ hexes hs) = Some (group_bytes (gs @ hs), Some (2 * length gs))"
      using v6_fields_ellipsis [OF False all, of "[]"] total 2(3) by simp
    ultimately show ?thesis unfolding 2(1) using bs total 2(3) by (simp add: expand_def v6_bytes_def)
  qed
qed

lemma v6_set:
  assumes "length bs = 16"
  shows "set (v6_text bs) \<subseteq> insert CHR '':'' (Collect is_hex)"
proof -
  have h: "set (hexes gs) \<subseteq> insert CHR '':'' (Collect is_hex)" for gs
  proof (induction gs)
    case (Cons g gs)
    have "set (hex g) \<subseteq> Collect is_hex" using hex_all [of g] by (auto simp: list_all_iff)
    with Cons show ?case by (cases gs) auto
  qed simp
  from assms show ?thesis
  proof (cases rule: v6_text_cases)
    case 1
    then show ?thesis using h [of "groups bs"] by simp
  next
    case (2 gs n hs)
    then show ?thesis using h [of gs] h [of hs] by simp
  qed
qed

lemma v6_chars:
  assumes "length bs = 16"
  shows "CHR ''%'' \<notin> set (v6_text bs)" "CHR ''.'' \<notin> set (v6_text bs)" "CHR '':'' \<in> set (v6_text bs)" "CHR ''/'' \<notin> set (v6_text bs)"
proof -
  have n: "\<not> is_hex CHR ''%''" "\<not> is_hex CHR ''/''" by (simp_all add: is_hex_def is_digit_def)
  show "CHR ''%'' \<notin> set (v6_text bs)" "CHR ''.'' \<notin> set (v6_text bs)" "CHR ''/'' \<notin> set (v6_text bs)"
    using v6_set [OF assms] n by (auto simp: subset_iff)
  show "CHR '':'' \<in> set (v6_text bs)" using assms
  proof (cases rule: v6_text_cases)
    case 1
    have "length (groups bs) = 8" using groups_facts [of bs] assms by simp
    then obtain g h gs where "groups bs = g # h # gs" by (auto simp: length_Suc_conv numeral_eq_Suc)
    with 1 show ?thesis by (simp add: hexes_Cons)
  qed simp
qed

lemma first_special:
  assumes "CHR '':'' \<in> set s" "CHR ''.'' \<notin> set s" "CHR ''%'' \<notin> set s"
  shows "\<exists>r. dropWhile (\<lambda>c. c \<noteq> CHR ''.'' \<and> c \<noteq> CHR '':'' \<and> c \<noteq> CHR ''%'') (s @ t) = CHR '':'' # r"
  using assms by (induction s) auto

lemma v4_chars:
  assumes "length bs = 4"
  shows "set (v4_text bs) \<subseteq> insert CHR ''.'' (Collect is_digit)" "\<exists>r. dropWhile (\<lambda>c. c \<noteq> CHR ''.'' \<and> c \<noteq> CHR '':'' \<and> c \<noteq> CHR ''%'') (v4_text bs) = CHR ''.'' # r"
proof -
  from assms obtain a b c d where bs: "bs = [a, b, c, d]" by (auto simp: length_Suc_conv numeral_eq_Suc)
  have d: "set (digits n) \<subseteq> Collect is_digit" for n using digits_all_digit [of n] by (auto simp: list_all_iff)
  then show "set (v4_text bs) \<subseteq> insert CHR ''.'' (Collect is_digit)" unfolding bs v4_text4 by auto
  have "\<forall>x \<in> set (digits (unat a)). x \<noteq> CHR ''.'' \<and> x \<noteq> CHR '':'' \<and> x \<noteq> CHR ''%''"
    using d [of "unat a"] by (auto simp: is_digit_def)
  then show "\<exists>r. dropWhile (\<lambda>c. c \<noteq> CHR ''.'' \<and> c \<noteq> CHR '':'' \<and> c \<noteq> CHR ''%'') (v4_text bs) = CHR ''.'' # r"
    unfolding bs v4_text4 by (subst dropWhile_append2) auto
qed

lemma mapped_body:
  assumes "length v4 = 4"
  shows "Option.bind (v6_fields [] (Some 0) (''ffff:'' @ v4_text v4)) expand = Some (mapped_head @ v4)"
proof -
  from assms obtain a b c d where bs: "v4 = [a, b, c, d]" by (auto simp: length_Suc_conv numeral_eq_Suc)
  have "hex 65535 = ''ffff''" by code_simp
  then have f: "''ffff:'' @ v4_text v4 = hex 65535 @ CHR '':'' # v4_text v4" by simp
  have dig: "list_all is_digit (digits (unat a))" by (rule digits_all_digit)
  then have hexd: "\<forall>x \<in> set (digits (unat a)). is_hex x" by (simp add: list_all_iff is_hex_def)
  have hd: "v4_text v4 \<noteq> []" "hd (v4_text v4) \<noteq> CHR '':''"
    unfolding bs v4_text4 using digits_hd [of "unat a"] by (auto simp: is_digit_def)
  have ff: "(65535 :: byte) = 255" by code_simp
  have "v6_fields [] (Some 0) (''ffff:'' @ v4_text v4) = v6_fields [255, 255] (Some 0) (v4_text v4)"
    unfolding f using v6_group(2) [of "[]" 65535 "v4_text v4" "Some 0"] hd by (simp add: ff)
  also have "\<dots> = map_option (\<lambda>r. ([255, 255] @ r, Some 0)) (parse_v4 (v4_text v4))"
  proof -
    have sp: "takeWhile is_hex (v4_text v4) = digits (unat a)" "\<exists>r. dropWhile is_hex (v4_text v4) = CHR ''.'' # r"
      unfolding bs v4_text4 using hexd by (simp_all add: takeWhile_append2 dropWhile_append2)
    have "length (digits (unat a)) \<le> 4"
    proof -
      consider "unat a < 10" | "10 \<le> unat a" "unat a < 100" | "100 \<le> unat a" "unat a < 1000" using byte_less [of a] by linarith
      then show ?thesis by cases (simp_all add: digits_small)
    qed
    with sp show ?thesis by (subst v6_fields.simps) (auto simp: Let_def simp del: dropWhile_eq_Nil_conv)
  qed
  also have "\<dots> = Some ([255, 255] @ v4, Some 0)" using parse_v4_text [OF assms] by simp
  finally show ?thesis using assms by (simp add: expand_def mapped_head_def)
qed

lemma netip_ParseAddr_text:
  assumes "wf_addr a"
  shows "netip_ParseAddr (addr_text a) = Some a"
proof (cases a)
  case (Addr4 bs)
  with assms have len: "length bs = 4" by (simp add: wf_addr_def)
  from v4_chars(2) [OF len] parse_v4_text [OF len] Addr4 show ?thesis by (auto simp: netip_ParseAddr_def addr_text_def)
next
  case (Addr6 bs zone)
  with assms have len: "length bs = 16" by (simp add: wf_addr_def)
  define body where "body = (if Is4In6 a then ''::ffff:'' @ v4_text (drop 12 bs) else v6_text bs)"
  have shown: "addr_text a = body @ (if zone = [] then [] else CHR ''%'' # zone)"
    using Addr6 by (simp add: addr_text_def body_def)
  have d: "set (v4_text (drop 12 bs)) \<subseteq> insert CHR ''.'' (Collect is_digit)" by (rule v4_chars) (use len in simp)
  have "\<not> is_digit CHR ''%''" by (simp add: is_digit_def)
  then have pct: "CHR ''%'' \<notin> set body" using d v6_chars [OF len] by (auto simp: body_def)
  have colon: "\<exists>r. dropWhile (\<lambda>c. c \<noteq> CHR ''.'' \<and> c \<noteq> CHR '':'' \<and> c \<noteq> CHR ''%'') (body @ t) = CHR '':'' # r" for t
    using first_special [OF v6_chars(3,2,1) [OF len]] by (simp add: body_def)
  have "v6_bytes body = Some bs"
  proof (cases "Is4In6 a")
    case True
    then have "mapped_head @ drop 12 bs = bs" using Addr6 by (simp add: Is4In6_def) (metis append_take_drop_id)
    with True mapped_body [of "drop 12 bs"] len show ?thesis by (simp add: body_def v6_bytes_def)
  next
    case False
    then show ?thesis using v6_body [OF len] by (simp add: body_def)
  qed
  then have "parse_v6 (addr_text a) = Some (Addr6 bs zone)"
    unfolding parse_v6_def shown using cut_None [of "CHR ''%''" body] pct by (cases zone) (simp_all add: cut_append)
  moreover obtain r where "dropWhile (\<lambda>c. c \<noteq> CHR ''.'' \<and> c \<noteq> CHR '':'' \<and> c \<noteq> CHR ''%'') (addr_text a) = CHR '':'' # r"
    unfolding shown using colon by blast
  ultimately show ?thesis using Addr6 by (simp add: netip_ParseAddr_def)
qed

lemma addr_set:
  assumes "wf_addr a" "NoZone a = a"
  shows "set (addr_text a) \<subseteq> insert CHR ''.'' (insert CHR '':'' (Collect is_hex))"
proof -
  have hex: "is_digit c \<Longrightarrow> is_hex c" for c by (simp add: is_hex_def)
  have f: "is_hex CHR ''f''" by (simp add: is_hex_def)
  show ?thesis
  proof (cases a)
    case (Addr4 bs)
    then show ?thesis using v4_chars(1) [of bs] assms hex by (auto simp: wf_addr_def addr_text_def)
  next
    case (Addr6 bs zone)
    then have "length bs = 16" "zone = []" using assms by (auto simp: wf_addr_def NoZone_def)
    then show ?thesis using Addr6 v4_chars(1) [of "drop 12 bs"] v6_set [of bs] hex f by (auto simp: addr_text_def)
  qed
qed

lemma no_slash: "wf_addr a \<Longrightarrow> NoZone a = a \<Longrightarrow> CHR ''/'' \<notin> set (addr_text a)"
  using addr_set [of a] by (auto simp: is_hex_def is_digit_def)

lemma netip_ParsePrefix_text:
  assumes "wf_addr a" "NoZone a = a" "n \<le> addr_bits a"
  shows "netip_ParsePrefix (prefix_text (a, n)) = Some (a, n)"
proof -
  have "CHR ''/'' \<notin> set (digits n)" using digits_all_digit [of n] by (auto simp: list_all_iff is_digit_def)
  then have "cut_last CHR ''/'' (prefix_text (a, n)) = Some (addr_text a, digits n)"
    by (simp add: cut_last_def prefix_text_def cut_append)
  moreover have "n \<le> 128" using assms(3) by (simp add: addr_bits_def split: if_splits)
  then have "atoi (digits n) = Some (int n)" by (intro atoi_digits) simp
  moreover have "\<not> (1 < length (digits n) \<and> \<not> (CHR ''1'' \<le> hd (digits n) \<and> hd (digits n) \<le> CHR ''9''))"
  proof (cases "n = 0")
    case True
    then show ?thesis by (simp add: digits_small)
  next
    case False
    have "of_char (hd (digits n)) \<noteq> (of_char CHR ''0'' :: nat)"
      using digits_no_leading_zero [OF False] by (metis of_char_eq_iff)
    then have "49 \<le> (of_char (hd (digits n)) :: nat)" "of_char (hd (digits n)) \<le> (57 :: nat)"
      using digits_hd [of n] by (simp_all add: is_digit_def)
    then show ?thesis by (simp add: less_eq_char_def)
  qed
  ultimately show ?thesis using assms netip_ParseAddr_text [OF assms(1)] by (simp add: netip_ParsePrefix_def)
qed

end
