(* ===== verification/IP_Addr.thy ===== *)
theory IP_Addr
  imports Netip_Text
begin

text \<open>
  Addresses and networks as they are stored: ipaddr.go of internal/domain. Every address is kept as
  its canonical text, its family and its bytes, a network also with its last address, so that
  containment is a comparison of bytes. Shown here: the text is canonical, so equal texts are equal
  values, and the bytes of a network are exactly its block, except for mapped networks.
\<close>

section \<open>Definitions\<close>

record addrValue =
  av_Text :: string
  av_Family :: int
  av_Start :: "byte list"

record prefixValue =
  pv_Text :: string
  pv_Family :: int
  pv_Start :: "byte list"
  pv_End :: "byte list"
  pv_Bits :: nat

definition addr_value :: "addr \<Rightarrow> addrValue" where
  "addr_value a = \<lparr>av_Text = addr_text a, av_Family = (if Is4 a then 4 else 6), av_Start = addr_bytes a\<rparr>"

definition ParseAddr :: "string \<Rightarrow> addrValue option" where
  "ParseAddr s =
     (let trimmed = trim_space s in
      if trimmed = [] then None
      else map_option (\<lambda>a. addr_value (NoZone (Unmap a))) (netip_ParseAddr trimmed))"

definition broadcast :: "byte list \<Rightarrow> nat \<Rightarrow> byte list" where
  "broadcast start bits = fold set_net_bit [bits..<length start * 8] start"

definition prefix_value :: "addr \<times> nat \<Rightarrow> prefixValue" where
  "prefix_value p =
     (let a = NoZone (Unmap (fst p)) in
      \<lparr>pv_Text = prefix_text p, pv_Family = (if Is4 a then 4 else 6), pv_Start = addr_bytes a,
       pv_End = broadcast (addr_bytes a) (snd p), pv_Bits = snd p\<rparr>)"

definition ParsePrefix :: "string \<Rightarrow> prefixValue option" where
  "ParsePrefix s =
     (let trimmed = trim_space s in
      if trimmed = [] then None
      else map_option (\<lambda>p. prefix_value (Masked p)) (netip_ParsePrefix trimmed))"

definition ParseMAC :: "string \<Rightarrow> string option" where
  "ParseMAC s =
     (let cleaned = filter (\<lambda>c. \<not> List.member [CHR '':'', CHR ''-'', CHR ''.'', CHR '' ''] c) (to_lower (trim_space s)) in
      if length cleaned \<noteq> 12 then None
      else if \<not> list_all (\<lambda>c. is_digit c \<or> CHR ''a'' \<le> c \<and> c \<le> CHR ''f'') cleaned then None
      else Some (join '':'' (map (\<lambda>i. take 2 (drop i cleaned)) [0, 2, 4, 6, 8, 10])))"

section \<open>Well-formed values\<close>

lemma v4_fields_length: "v4_fields fs val len dot s = Some bs \<Longrightarrow> length fs \<le> 3 \<Longrightarrow> length bs = 4"
  by (induction fs val len dot s rule: v4_fields.induct) (auto simp: Let_def split: if_splits)

lemma v6_fields_length:
  "v6_fields ip e s = Some r \<Longrightarrow> even (length ip) \<Longrightarrow> length ip \<le> 16 \<Longrightarrow> length (fst r) \<le> 16"
proof (induction "length s" arbitrary: ip e s rule: less_induct)
  case less
  note eq = less.prems(1) [unfolded v6_fields.simps [of ip e s]]
  have two: "length ip + 2 \<le> 16" if "length ip < 16" using less.prems(2) that by presburger
  have again: "length (fst r) \<le> 16"
    if "v6_fields (ip @ [a, b]) e' t = Some r" "length t < length s" "length ip < 16" for a b e' t
    by (rule less.hyps [OF that(2,1)]) (use less.prems(2) two that(3) in simp_all)
  have shorter: "length rest < length s" "length (tl rest) < length s" if "dropWhile is_hex s = c # rest" for c rest
    using dropWhile_shorter [OF that] by simp_all
  show ?case
  proof (cases "16 \<le> length ip")
    case True
    then show ?thesis using eq less.prems(3) by (auto split: if_splits)
  next
    case False
    then have "length ip < 16" by simp
    with eq two again shorter show ?thesis
      by (auto simp: Let_def parse_v4_def dest!: v4_fields_length split: if_splits list.splits)
  qed
qed

lemma netip_wf: "netip_ParseAddr s = Some a \<Longrightarrow> wf_addr a"
proof -
  assume a: "netip_ParseAddr s = Some a"
  have v6: "length bs = 16" if "v6_bytes t = Some bs" for t bs
  proof -
    have "length bs = 16" if "Option.bind (v6_fields [] e u) expand = Some bs" for e u
    proof -
      from that obtain r where r: "v6_fields [] e u = Some r" "expand r = Some bs" by (auto simp: bind_eq_Some_conv)
      from v6_fields_length [OF r(1)] have "length (fst r) \<le> 16" by simp
      with r(2) show ?thesis by (auto simp: expand_def Let_def split: if_splits option.splits)
    qed
    with that show ?thesis by (auto simp: v6_bytes_def split: if_splits)
  qed
  from a show ?thesis
    by (auto simp: netip_ParseAddr_def parse_v4_def parse_v6_def wf_addr_def v6 dest: v4_fields_length
        split: if_splits list.splits option.splits)
qed

section \<open>Canonical texts\<close>

lemma trim_none: "(\<And>c. c \<in> set s \<Longrightarrow> \<not> is_space c) \<Longrightarrow> trim_space s = s"
proof -
  assume none: "\<And>c. c \<in> set s \<Longrightarrow> \<not> is_space c"
  then have "dropWhile is_space s = s" by (cases s) simp_all
  moreover have "dropWhile is_space (rev s) = rev s" using none by (cases "rev s") (simp, metis dropWhile.simps(2) list.set_intros(1) set_rev)
  ultimately show ?thesis by (simp add: trim_space_def)
qed

lemma addr_no_space: "wf_addr a \<Longrightarrow> NoZone a = a \<Longrightarrow> c \<in> set (addr_text a) \<Longrightarrow> \<not> is_space c"
  using addr_set [of a] by (auto simp: is_hex_def is_digit_def is_space_def)

lemma Unmap_facts:
  assumes "wf_addr a"
  shows "wf_addr (NoZone (Unmap a))" "NoZone (NoZone (Unmap a)) = NoZone (Unmap a)" "\<not> Is4In6 (NoZone (Unmap a))"
  using assms by (cases a; auto simp: wf_addr_def NoZone_def Unmap_def Is4In6_def)+

lemma ParseAddr_Some:
  assumes "ParseAddr s = Some v"
  obtains a where "wf_addr a" "NoZone a = a" "\<not> Is4In6 a" "v = addr_value a"
proof -
  from assms obtain z where "netip_ParseAddr (trim_space s) = Some z" "v = addr_value (NoZone (Unmap z))"
    by (auto simp: ParseAddr_def Let_def split: if_splits)
  with Unmap_facts [of z] netip_wf that show thesis by blast
qed

lemma addr_text_nonempty: "wf_addr a \<Longrightarrow> addr_text a \<noteq> []"
  using netip_ParseAddr_text [of a] by (auto simp: netip_ParseAddr_def)

lemma ParseAddr_text:
  assumes "wf_addr a" "NoZone a = a" "\<not> Is4In6 a"
  shows "ParseAddr (addr_text a) = Some (addr_value a)"
proof -
  have "trim_space (addr_text a) = addr_text a" by (rule trim_none) (rule addr_no_space [OF assms(1,2)])
  moreover have "NoZone (Unmap a) = a" using assms(2,3) by (cases a) (auto simp: Unmap_def NoZone_def)
  ultimately show ?thesis using netip_ParseAddr_text [OF assms(1)] addr_text_nonempty [OF assms(1)] by (simp add: ParseAddr_def)
qed

lemma Masked_facts:
  assumes "wf_addr (fst p)"
  shows "wf_addr (fst (Masked p))" "NoZone (fst (Masked p)) = fst (Masked p)" "snd (Masked p) = snd p"
    "addr_bits (fst (Masked p)) = addr_bits (fst p)" "Masked (Masked p) = Masked p"
proof -
  have idem: "clear_from n (clear_from n bs) = clear_from n bs" for n bs
  proof -
    have "net_bit (clear_from n (clear_from n bs)) k \<longleftrightarrow> net_bit (clear_from n bs) k" if "k < 8 * length bs" for k
      using that by (simp add: clear_from_def net_bit_folds subset_eq)
    then have "bytes_val (clear_from n (clear_from n bs)) = bytes_val (clear_from n bs)"
      using bytes_val_bits [of "clear_from n (clear_from n bs)" "clear_from n bs" "8 * length bs" False]
        bytes_val_bits [of "clear_from n bs" "clear_from n bs" "8 * length bs" False] by simp
    then show ?thesis using bytes_val_inj [of "clear_from n (clear_from n bs)" "clear_from n bs"] by simp
  qed
  show "wf_addr (fst (Masked p))" "NoZone (fst (Masked p)) = fst (Masked p)" "snd (Masked p) = snd p"
    "addr_bits (fst (Masked p)) = addr_bits (fst p)" "Masked (Masked p) = Masked p"
    using assms by (auto simp: Masked_def wf_addr_def NoZone_def addr_bits_def Is4_def idem split: addr.splits)
qed

lemma netip_prefix_wf: "netip_ParsePrefix s = Some (a, n) \<Longrightarrow> wf_addr a \<and> n \<le> addr_bits a"
  by (auto simp: netip_ParsePrefix_def split: option.splits if_splits dest: netip_wf)

lemma ParsePrefix_Some:
  assumes "ParsePrefix s = Some v"
  obtains a n where "wf_addr a" "NoZone a = a" "n \<le> addr_bits a" "Masked (a, n) = (a, n)" "v = prefix_value (a, n)"
proof -
  from assms obtain p where p: "netip_ParsePrefix (trim_space s) = Some p" "v = prefix_value (Masked p)"
    by (auto simp: ParsePrefix_def Let_def split: if_splits)
  then have "wf_addr (fst p)" "snd p \<le> addr_bits (fst p)" using netip_prefix_wf [of "trim_space s" "fst p" "snd p"] by simp_all
  with Masked_facts [of p] p that [of "fst (Masked p)" "snd (Masked p)"] show thesis unfolding prod.collapse by simp
qed

lemma ParsePrefix_text:
  assumes "wf_addr a" "NoZone a = a" "n \<le> addr_bits a" "Masked (a, n) = (a, n)"
  shows "ParsePrefix (prefix_text (a, n)) = Some (prefix_value (a, n))"
proof -
  have "\<not> is_space c" if "c \<in> set (prefix_text (a, n))" for c
    using that addr_no_space [OF assms(1,2), of c] digits_all_digit [of n]
    by (auto simp: prefix_text_def list_all_iff is_digit_def is_space_def)
  then have "trim_space (prefix_text (a, n)) = prefix_text (a, n)" by (rule trim_none)
  moreover have "prefix_text (a, n) \<noteq> []" by (simp add: prefix_text_def)
  ultimately show ?thesis using netip_ParsePrefix_text [OF assms(1-3)] assms(4) by (simp add: ParsePrefix_def)
qed

lemma ParseAddr_again: "ParseAddr s = Some v \<Longrightarrow> ParseAddr (av_Text v) = Some v"
  by (erule ParseAddr_Some) (simp add: ParseAddr_text addr_value_def)

lemma ParsePrefix_again: "ParsePrefix s = Some p \<Longrightarrow> ParsePrefix (pv_Text p) = Some p"
  by (erule ParsePrefix_Some) (simp add: ParsePrefix_text prefix_value_def Let_def)

text \<open>
  The stored text is canonical: the text of a parsed address or network parses to the same value, so
  the unique indexes on texts are indexes on addresses and networks; two addresses have the same
  text exactly when they have the same bytes. (C18)
\<close>

theorem stored_text_is_canonical:
  "(\<forall>s v. ParseAddr s = Some v \<longrightarrow> ParseAddr (av_Text v) = Some v)
   \<and> (\<forall>s p. ParsePrefix s = Some p \<longrightarrow> ParsePrefix (pv_Text p) = Some p)
   \<and> (\<forall>s t v w. ParseAddr s = Some v \<and> ParseAddr t = Some w \<longrightarrow> (av_Text v = av_Text w \<longleftrightarrow> av_Start v = av_Start w))"
proof (intro conjI allI impI)
  fix s v assume "ParseAddr s = Some v"
  then show "ParseAddr (av_Text v) = Some v" by (rule ParseAddr_again)
next
  fix s p assume "ParsePrefix s = Some p"
  then show "ParsePrefix (pv_Text p) = Some p" by (rule ParsePrefix_again)
next
  fix s t v w assume both: "ParseAddr s = Some v \<and> ParseAddr t = Some w"
  from both [THEN conjunct1] obtain a where a: "wf_addr a" "NoZone a = a" "\<not> Is4In6 a" "v = addr_value a" by (rule ParseAddr_Some)
  from both [THEN conjunct2] obtain b where b: "wf_addr b" "NoZone b = b" "\<not> Is4In6 b" "w = addr_value b" by (rule ParseAddr_Some)
  show "av_Text v = av_Text w \<longleftrightarrow> av_Start v = av_Start w"
  proof
    assume "av_Text v = av_Text w"
    then have "addr_text a = addr_text b" using a(4) b(4) by (simp add: addr_value_def)
    then have "addr_value a = addr_value b" using ParseAddr_text [OF a(1-3)] ParseAddr_text [OF b(1-3)] by simp
    then show "av_Start v = av_Start w" using a(4) b(4) by simp
  next
    assume "av_Start v = av_Start w"
    then have "addr_bytes a = addr_bytes b" using a(4) b(4) by (simp add: addr_value_def)
    then have "a = b" using a(1,2) b(1,2) by (cases a; cases b) (auto simp: addr_bytes_def wf_addr_def NoZone_def)
    then show "av_Text v = av_Text w" using a(4) b(4) by simp
  qed
qed

section \<open>Networks as blocks\<close>

lemma broadcast_fill: "broadcast start bits = fill_from bits start"
  by (simp add: broadcast_def fill_from_def mult.commute)

lemma block_iff:
  assumes "length x = length s" "n \<le> 8 * length s" "clear_from n s = s"
  shows "s \<le> x \<and> x \<le> fill_from n s \<longleftrightarrow> clear_from n x = s"
proof -
  let ?h = "8 * length s - n"
  have s: "bytes_val s div 2 ^ ?h * 2 ^ ?h = bytes_val s" using clear_from_val [OF assms(2)] assms(3) by simp
  have f: "bytes_val (fill_from n s) = bytes_val s + (2 ^ ?h - 1)" using fill_from_val [OF assms(2)] assms(3) by simp
  have c: "bytes_val (clear_from n x) = bytes_val x div 2 ^ ?h * 2 ^ ?h" using clear_from_val [of n x] assms by simp
  have "clear_from n x = s \<longleftrightarrow> bytes_val x div 2 ^ ?h * 2 ^ ?h = bytes_val s"
    using bytes_val_inj [of "clear_from n x" s] assms(1) c by simp
  also have "\<dots> \<longleftrightarrow> bytes_val s \<le> bytes_val x \<and> bytes_val x \<le> bytes_val s + (2 ^ ?h - 1)"
  proof
    assume e: "bytes_val x div 2 ^ ?h * 2 ^ ?h = bytes_val s"
    have "bytes_val x = bytes_val x div 2 ^ ?h * 2 ^ ?h + bytes_val x mod 2 ^ ?h" by (rule div_mult_mod_eq [symmetric])
    moreover have "bytes_val x mod 2 ^ ?h < 2 ^ ?h" by simp
    ultimately show "bytes_val s \<le> bytes_val x \<and> bytes_val x \<le> bytes_val s + (2 ^ ?h - 1)" using e by linarith
  next
    assume r: "bytes_val s \<le> bytes_val x \<and> bytes_val x \<le> bytes_val s + (2 ^ ?h - 1)"
    define d where "d = bytes_val x - bytes_val s"
    have "(0 :: nat) < 2 ^ ?h" by simp
    with r have d: "bytes_val x = bytes_val s + d" "d < 2 ^ ?h" unfolding d_def by linarith+
    have "(bytes_val s div 2 ^ ?h * 2 ^ ?h + d) div 2 ^ ?h = bytes_val s div 2 ^ ?h" using d(2) by simp
    with d(1) s show "bytes_val x div 2 ^ ?h * 2 ^ ?h = bytes_val s" by metis
  qed
  also have "\<dots> \<longleftrightarrow> s \<le> x \<and> x \<le> fill_from n s"
    using bytes_val_le_iff [of s x] bytes_val_le_iff [of x "fill_from n s"] assms(1) f by simp
  finally show ?thesis by simp
qed

lemma prefix_value_plain:
  assumes "wf_addr a" "NoZone a = a" "\<not> Is4In6 a"
  shows "pv_Start (prefix_value (a, n)) = addr_bytes a" "pv_End (prefix_value (a, n)) = fill_from n (addr_bytes a)"
    "pv_Family (prefix_value (a, n)) = (if Is4 a then 4 else 6)" "8 * length (addr_bytes a) = addr_bits a"
  using assms by (cases a; simp add: prefix_value_def Let_def Unmap_def NoZone_def broadcast_fill addr_bytes_def wf_addr_def addr_bits_def Is4_def)+

text \<open>A mapped address keeps its head only under a mask of at least 96 bits.\<close>

lemma mapped_bits:
  assumes "length bs = 16" "Masked (Addr6 bs [], n) = (Addr6 bs [], n)" "Is4In6 (Addr6 bs [])"
  shows "96 \<le> n"
proof (rule ccontr)
  assume "\<not> 96 \<le> n"
  have "net_bit (clear_from n bs) 95 \<longleftrightarrow> net_bit bs 95 \<and> 95 \<notin> set [n..<8 * length bs]"
    unfolding clear_from_def by (rule net_bit_folds) (use assms in auto)
  with assms \<open>\<not> 96 \<le> n\<close> have "\<not> net_bit bs 95" by (simp add: Masked_def)
  moreover have "take 12 bs = mapped_head" using assms(3) by (simp add: Is4In6_def)
  then have "bs ! 11 = mapped_head ! 11" using nth_take [of 11 12 bs] by simp
  moreover have "mapped_head ! 11 = 255" by code_simp
  ultimately show False by (simp add: net_bit_def)
qed

lemma mapped_value:
  assumes "length bs = 16" "Is4In6 (Addr6 bs [])" "96 \<le> n"
  shows "pv_Start (prefix_value (Addr6 bs [], n)) = drop 12 bs" "pv_End (prefix_value (Addr6 bs [], n)) = drop 12 bs"
    "pv_Family (prefix_value (Addr6 bs [], n)) = 4" "pv_Bits (prefix_value (Addr6 bs [], n)) = n"
  using assms by (simp_all add: prefix_value_def Let_def Unmap_def NoZone_def addr_bytes_def Is4_def broadcast_def)

lemma prefix_kinds:
  assumes "wf_addr a" "NoZone a = a" "n \<le> addr_bits a" "Masked (a, n) = (a, n)"
  obtains "\<not> Is4In6 a" "pv_Bits (prefix_value (a, n)) \<le> 8 * length (pv_Start (prefix_value (a, n)))"
  | bs where "a = Addr6 bs []" "length bs = 16" "Is4In6 a" "96 \<le> n" "length (pv_Start (prefix_value (a, n))) = 4"
proof (cases "Is4In6 a")
  case False
  then show ?thesis using that(1) prefix_value_plain(1) [OF assms(1,2) False, of n] prefix_value_plain(4) [OF assms(1,2) False] assms(3)
    by (simp add: prefix_value_def Let_def)
next
  case True
  then obtain bs where bs: "a = Addr6 bs []" "length bs = 16" using assms(1,2) by (cases a) (auto simp: Is4In6_def wf_addr_def NoZone_def)
  with mapped_bits [of bs n] assms(4) True have "96 \<le> n" by simp
  with bs True that(2) mapped_value [of bs n] show ?thesis by simp
qed

lemma prefix_block:
  assumes "ParsePrefix s = Some p" "pv_Bits p \<le> 8 * length (pv_Start p)"
  shows "length (pv_Start p) = (if pv_Family p = 4 then 4 else 16)"
    and "bytes_val (pv_End p) = bytes_val (pv_Start p) + (2 ^ (8 * length (pv_Start p) - pv_Bits p) - 1)"
    and "\<forall>x. length x = length (pv_Start p) \<longrightarrow>
           (pv_Start p \<le> x \<and> x \<le> pv_End p \<longleftrightarrow> clear_from (pv_Bits p) x = pv_Start p)"
    and "length (pv_End p) = length (pv_Start p)" "pv_Start p = clear_from (pv_Bits p) (pv_Start p)"
proof -
  from assms(1) obtain a n where a: "wf_addr a" "NoZone a = a" "n \<le> addr_bits a" "Masked (a, n) = (a, n)" "p = prefix_value (a, n)"
    by (rule ParsePrefix_Some)
  have bits: "pv_Bits p = n" using a(5) by (simp add: prefix_value_def Let_def)
  have plain: "\<not> Is4In6 a"
  proof (rule prefix_kinds [OF a(1-4)])
    fix bs assume "96 \<le> n" "length (pv_Start (prefix_value (a, n))) = 4"
    then have False using assms(2) a(5) bits by simp
    then show ?thesis ..
  qed
  note v = prefix_value_plain(1-3) [OF a(1,2) plain, of n] prefix_value_plain(4) [OF a(1,2) plain]
  have clear: "clear_from n (addr_bytes a) = addr_bytes a" using a(4) by (cases a) (auto simp: Masked_def addr_bytes_def)
  show "length (pv_Start p) = (if pv_Family p = 4 then 4 else 16)"
    using a(1) v a(5) by (cases a) (auto simp: wf_addr_def addr_bytes_def Is4_def)
  show "length (pv_End p) = length (pv_Start p)" "pv_Start p = clear_from (pv_Bits p) (pv_Start p)"
    using v a(5) clear bits by simp_all
  show "bytes_val (pv_End p) = bytes_val (pv_Start p) + (2 ^ (8 * length (pv_Start p) - pv_Bits p) - 1)"
    using fill_from_val [of n "addr_bytes a"] clear v a(3,5) bits by simp
  show "\<forall>x. length x = length (pv_Start p) \<longrightarrow>
           (pv_Start p \<le> x \<and> x \<le> pv_End p \<longleftrightarrow> clear_from (pv_Bits p) x = pv_Start p)"
    using block_iff [of _ "addr_bytes a" n] clear v a(3,5) bits by simp
qed

text \<open>
  The bytes of a network are its block: for a prefix length that fits its family, the first and last
  address span exactly the \<open>2 ^ (width - bits)\<close> addresses that agree with the network on its leading
  bits, so the range scans of the store answer containment.
\<close>

theorem network_is_its_block:
  assumes "ParsePrefix s = Some p" "pv_Bits p \<le> 8 * length (pv_Start p)"
  shows "length (pv_Start p) = (if pv_Family p = 4 then 4 else 16)
     \<and> bytes_val (pv_End p) = bytes_val (pv_Start p) + (2 ^ (8 * length (pv_Start p) - pv_Bits p) - 1)
     \<and> (\<forall>x. length x = length (pv_Start p) \<longrightarrow>
           (pv_Start p \<le> x \<and> x \<le> pv_End p \<longleftrightarrow> clear_from (pv_Bits p) x = pv_Start p))"
  using prefix_block [OF assms] by blast

text \<open>
  A network written with mapped addresses loses its block: a prefix of at least 96 bits whose address
  is an IPv4 address in IPv6 form is stored as the four bytes of that address with the prefix length
  of the longer form, and its last address is its first, however many addresses the prefix holds.
\<close>

theorem mapped_network_collapses:
  assumes "netip_ParsePrefix (trim_space s) = Some p" "Masked p = (Addr6 bs [], n)" "take 12 bs = mapped_head"
  shows "\<exists>v. ParsePrefix s = Some v \<and> pv_Family v = 4 \<and> pv_Bits v = n \<and> 96 \<le> n \<and> pv_End v = pv_Start v \<and> length (pv_Start v) = 4"
proof -
  have wf: "wf_addr (fst p)" using netip_prefix_wf [of "trim_space s" "fst p" "snd p"] assms(1) by simp
  from Masked_facts [OF wf] assms(2) have m: "length bs = 16" "Masked (Addr6 bs [], n) = (Addr6 bs [], n)" by (auto simp: wf_addr_def)
  have i: "Is4In6 (Addr6 bs [])" using assms(3) by (simp add: Is4In6_def)
  have n: "96 \<le> n" by (rule mapped_bits [OF m i])
  have ne: "trim_space s \<noteq> []" using assms(1) by (auto simp: netip_ParsePrefix_def cut_last_def)
  have "ParsePrefix s = Some (prefix_value (Addr6 bs [], n))" using assms(1,2) ne by (simp add: ParsePrefix_def)
  with mapped_value [OF m(1) i n] n m(1) show ?thesis by (intro exI [of _ "prefix_value (Addr6 bs [], n)"]) simp
qed

section \<open>Hardware addresses\<close>

lemma mac_clean:
  assumes "list_all (\<lambda>c. is_digit c \<or> CHR ''a'' \<le> c \<and> c \<le> CHR ''f'') cs" "c \<in> set cs"
  shows "c \<notin> set [CHR '':'', CHR ''-'', CHR ''.'', CHR '' '']" "lower_char c = c" "\<not> is_space c"
proof -
  have "is_digit c \<or> CHR ''a'' \<le> c \<and> c \<le> CHR ''f''" using assms by (auto simp: list_all_iff)
  then have r: "48 \<le> (of_char c :: nat) \<and> of_char c \<le> (57 :: nat) \<or> 97 \<le> (of_char c :: nat) \<and> of_char c \<le> (102 :: nat)"
    by (auto simp: is_digit_def less_eq_char_def)
  then show "c \<notin> set [CHR '':'', CHR ''-'', CHR ''.'', CHR '' '']" "lower_char c = c" "\<not> is_space c"
    by (auto simp: lower_char_def is_space_def)
qed

lemma ParseMAC_idem:
  assumes "ParseMAC s = Some m"
  shows "ParseMAC m = Some m \<and> length m = 17"
proof -
  let ?bad = "[CHR '':'', CHR ''-'', CHR ''.'', CHR '' '']"
  from assms obtain cs where cs: "length cs = 12" "list_all (\<lambda>c. is_digit c \<or> CHR ''a'' \<le> c \<and> c \<le> CHR ''f'') cs"
    and m: "m = join '':'' (map (\<lambda>i. take 2 (drop i cs)) [0, 2, 4, 6, 8, 10])"
    by (auto simp: ParseMAC_def Let_def split: if_splits)
  from cs(1) obtain a b c d e f g h i j k l where e: "cs = [a, b, c, d, e, f, g, h, i, j, k, l]"
    by (auto simp: length_Suc_conv numeral_eq_Suc)
  note clean = mac_clean [OF cs(2), unfolded e]
  have m': "m = [a, b, CHR '':'', c, d, CHR '':'', e, f, CHR '':'', g, h, CHR '':'', i, j, CHR '':'', k, l]" using m e by simp
  have in_m: "set m = insert CHR '':'' (set cs)" unfolding m' e by (simp add: insert_commute)
  have colon: "\<not> is_space CHR '':''" by (simp add: is_space_def)
  have "trim_space m = m"
  proof (rule trim_none)
    fix x assume "x \<in> set m"
    then consider "x = CHR '':''" | "x \<in> set cs" unfolding in_m by blast
    then show "\<not> is_space x" by cases (simp_all only: colon mac_clean(3) [OF cs(2)] not_False_eq_True)
  qed
  moreover have "to_lower m = m" unfolding m' to_lower_def using clean(2) by (simp add: lower_char_def)
  moreover have "filter (\<lambda>c. \<not> List.member ?bad c) m = cs" unfolding m' e using clean(1) by simp
  ultimately show ?thesis using cs m m' by (simp add: ParseMAC_def)
qed

end
