(* ===== verification/IP_Range.thy ===== *)
theory IP_Range
  imports IP_Addr Errors
begin

text \<open>
  Reservations and the allocator: iprange.go of internal/domain. \<open>FirstFreeAddress\<close> is shown to give
  the lowest usable address of a network that no span covers.
\<close>

section \<open>Definitions\<close>

record ipRange =
  rg_ID :: string
  rg_StartText :: string
  rg_EndText :: string
  rg_AddrFamily :: int
  rg_AddrStart :: "byte list"
  rg_AddrEnd :: "byte list"
  rg_VRFID :: "string option"
  rg_Role :: "string option"
  rg_Description :: "string option"
  rg_Lifecycle :: string
  rg_CreatedAt :: "string option"
  rg_UpdatedAt :: "string option"
  rg_RowVersion :: int

definition SetBounds :: "string \<Rightarrow> string \<Rightarrow> ipRange \<Rightarrow> ipRange result" where
  "SetBounds start stop r =
     (case (ParseAddr start, ParseAddr stop) of
        (Some sv, Some ev) \<Rightarrow>
          if av_Family sv \<noteq> av_Family ev then Inl (ErrInvalid 
            [(''end_text'', ''a range cannot start in IPv'' @ itoa (av_Family sv) @ '' and end in IPv'' @ itoa (av_Family ev))])
          else if av_Start ev < av_Start sv then Inl (ErrInvalid [(''end_text'', av_Text ev @ '' is before the start, '' @ av_Text sv)])
          else
            Inr (r\<lparr>rg_StartText := av_Text sv, rg_EndText := av_Text ev, rg_AddrFamily := av_Family sv,
                   rg_AddrStart := av_Start sv, rg_AddrEnd := av_Start ev\<rparr>)
      | (s, e) \<Rightarrow>
          Inl (ErrInvalid ((if s = None then [(''start_text'', ''parsing address'')] else [])
            @ (if e = None then [(''end_text'', ''parsing address'')] else []))))"

definition NewIPRange :: "string \<Rightarrow> string \<Rightarrow> string \<Rightarrow> ipRange result" where
  "NewIPRange i start stop =
     SetBounds start stop
       \<lparr>rg_ID = i, rg_StartText = [], rg_EndText = [], rg_AddrFamily = 0, rg_AddrStart = [], rg_AddrEnd = [], rg_VRFID = None,
        rg_Role = None, rg_Description = None, rg_Lifecycle = LifecycleActive, rg_CreatedAt = None, rg_UpdatedAt = None,
        rg_RowVersion = 0\<rparr>"

definition ValidateRange :: "ipRange \<Rightarrow> ipRange result" where
  "ValidateRange r =
     validated
       ((if rg_AddrStart r = [] \<or> rg_AddrEnd r = [] then [(''start_text'', ''the range has no bounds'')] else [])
        @ (if rg_Lifecycle r \<noteq> LifecycleActive \<and> rg_Lifecycle r \<noteq> LifecycleRetired then [(''lifecycle'', ''is not a lifecycle'')] else [])) r"

definition Size :: "ipRange \<Rightarrow> int" where
  "Size r =
     (if rg_AddrStart r = [] \<or> rg_AddrEnd r = [] then 0
      else int (bytes_val (rg_AddrEnd r)) - int (bytes_val (rg_AddrStart r)) + 1)"

record addrSpan =
  sp_Start :: "byte list"
  sp_End :: "byte list"

definition SpanOf :: "byte list \<Rightarrow> addrSpan" where
  "SpanOf a = \<lparr>sp_Start = a, sp_End = a\<rparr>"

definition textFromInt :: "nat \<Rightarrow> int \<Rightarrow> string" where
  "textFromInt v family =
     (let width = (if family = 6 then 16 else 4); b = nat_bytes v in
      if width < length b then []
      else
        (case AddrFromSlice (replicate (width - length b) 0 @ b) of
           None \<Rightarrow> [] | Some a \<Rightarrow> addr_text (Unmap a)))"

text \<open>The loop over the sorted spans, for addresses of \<open>len\<close> bytes.\<close>

fun free_scan :: "nat \<Rightarrow> nat \<Rightarrow> addrSpan list \<Rightarrow> nat" where
  "free_scan len candidate [] = candidate"
| "free_scan len candidate (s # ss) =
     (if length (sp_Start s) \<noteq> len \<or> length (sp_End s) \<noteq> len then free_scan len candidate ss
      else if bytes_val (sp_End s) < candidate then free_scan len candidate ss
      else if candidate < bytes_val (sp_Start s) then candidate
      else free_scan len (bytes_val (sp_End s) + 1) ss)"

definition FirstFreeAddress :: "string \<Rightarrow> addrSpan list \<Rightarrow> string option" where
  "FirstFreeAddress cidr taken =
     (case (netip_ParsePrefix cidr, ParsePrefix cidr) of
        (Some p, Some pv) \<Rightarrow>
          let edge = pv_Family pv = 4 \<and> snd p \<le> 30;
              lo = (if edge then bytes_val (pv_Start pv) + 1 else bytes_val (pv_Start pv));
              hi = (if edge then bytes_val (pv_End pv) - 1 else bytes_val (pv_End pv)) in
          if hi < lo then None
          else
            let candidate = free_scan (length (pv_Start pv)) lo (sort_key sp_Start taken) in
            if hi < candidate then None else Some (textFromInt candidate (pv_Family pv))
      | _ \<Rightarrow> None)"

section \<open>The scan\<close>

definition covered :: "nat \<Rightarrow> addrSpan list \<Rightarrow> nat \<Rightarrow> bool" where
  "covered len ss n \<longleftrightarrow>
     (\<exists>s \<in> set ss. length (sp_Start s) = len \<and> length (sp_End s) = len \<and> bytes_val (sp_Start s) \<le> n \<and> n \<le> bytes_val (sp_End s))"

lemma free_scan_correct:
  assumes "sorted (map sp_Start ss)"
  shows "candidate \<le> free_scan len candidate ss
     \<and> (\<forall>n. candidate \<le> n \<and> n < free_scan len candidate ss \<longrightarrow> covered len ss n)
     \<and> \<not> covered len ss (free_scan len candidate ss)"
  using assms
proof (induction ss arbitrary: candidate)
  case Nil
  then show ?case by (simp add: covered_def)
next
  case (Cons s ss)
  then have IH: "c \<le> free_scan len c ss" "\<And>n. c \<le> n \<Longrightarrow> n < free_scan len c ss \<Longrightarrow> covered len ss n"
    "\<not> covered len ss (free_scan len c ss)" for c by simp_all
  have step: "covered len (s # ss) n \<longleftrightarrow>
      length (sp_Start s) = len \<and> length (sp_End s) = len \<and> bytes_val (sp_Start s) \<le> n \<and> n \<le> bytes_val (sp_End s) \<or> covered len ss n" for n
    by (auto simp: covered_def)
  let ?same = "length (sp_Start s) = len \<and> length (sp_End s) = len"
  consider "\<not> ?same" | "?same" "bytes_val (sp_End s) < candidate"
    | "?same" "\<not> bytes_val (sp_End s) < candidate" "candidate < bytes_val (sp_Start s)"
    | "?same" "\<not> bytes_val (sp_End s) < candidate" "\<not> candidate < bytes_val (sp_Start s)" by blast
  then show ?case
  proof cases
    case 1
    then show ?thesis using IH [of candidate] step by auto
  next
    case 2
    then show ?thesis using IH [of candidate] step by force
  next
    case 3
    have "\<not> covered len ss candidate"
    proof
      assume "covered len ss candidate"
      then obtain t where t: "t \<in> set ss" "length (sp_Start t) = len" "bytes_val (sp_Start t) \<le> candidate" by (auto simp: covered_def)
      with Cons.prems have "sp_Start s \<le> sp_Start t" by simp
      with 3 t show False using bytes_val_le_iff [of "sp_Start s" "sp_Start t"] by simp
    qed
    with 3 show ?thesis by (simp add: step)
  next
    case 4
    then show ?thesis using IH [of "bytes_val (sp_End s) + 1"] step by fastforce
  qed
qed

section \<open>The allocator\<close>

definition usable :: "prefixValue \<Rightarrow> byte list \<Rightarrow> bool" where
  "usable pv x \<longleftrightarrow>
     length x = length (pv_Start pv) \<and> pv_Start pv \<le> x \<and> x \<le> pv_End pv
     \<and> \<not> (pv_Family pv = 4 \<and> pv_Bits pv \<le> 30 \<and> (x = pv_Start pv \<or> x = pv_End pv))"

definition taken_by :: "addrSpan list \<Rightarrow> byte list \<Rightarrow> bool" where
  "taken_by ss x \<longleftrightarrow>
     (\<exists>s \<in> set ss. length (sp_Start s) = length x \<and> length (sp_End s) = length x \<and> sp_Start s \<le> x \<and> x \<le> sp_End s)"

lemma taken_covered: "taken_by ss x \<longleftrightarrow> covered (length x) (sort_key sp_Start ss) (bytes_val x)"
  using bytes_val_le_iff by (fastforce simp: taken_by_def covered_def)

definition pad :: "nat \<Rightarrow> nat \<Rightarrow> byte list" where
  "pad width v = replicate (width - length (nat_bytes v)) 0 @ nat_bytes v"

lemma pad_facts:
  assumes "v < 256 ^ width"
  shows "length (pad width v) = width" "bytes_val (pad width v) = v"
  using length_nat_bytes [OF assms] by (simp_all add: pad_def)

lemma textFromInt_pad:
  assumes "v < 256 ^ (if family = 6 then 16 else 4)"
  shows "textFromInt v family = addr_text (Unmap (if family = 6 then Addr6 (pad 16 v) [] else Addr4 (pad 4 v)))"
  using assms length_nat_bytes [of v 16] length_nat_bytes [of v 4] pad_facts [of v 16] pad_facts [of v 4]
  by (auto simp: textFromInt_def Let_def AddrFromSlice_def pad_def)

definition addr_of :: "int \<Rightarrow> byte list \<Rightarrow> addr" where
  "addr_of family x = Unmap (if family = 6 then Addr6 x [] else Addr4 x)"

lemma usable_range:
  assumes "ParsePrefix cidr = Some pv" "pv_Bits pv \<le> 8 * length (pv_Start pv)"
  defines "edge \<equiv> pv_Family pv = 4 \<and> pv_Bits pv \<le> 30"
  defines "lo \<equiv> (if edge then bytes_val (pv_Start pv) + 1 else bytes_val (pv_Start pv))"
    and "hi \<equiv> (if edge then bytes_val (pv_End pv) - 1 else bytes_val (pv_End pv))"
  shows "usable pv x \<longleftrightarrow> length x = length (pv_Start pv) \<and> lo \<le> bytes_val x \<and> bytes_val x \<le> hi"
    and "hi < 256 ^ length (pv_Start pv)"
proof -
  note b = prefix_block [OF assms(1,2)]
  have val: "pv_Start pv \<le> x \<longleftrightarrow> bytes_val (pv_Start pv) \<le> bytes_val x" "x \<le> pv_End pv \<longleftrightarrow> bytes_val x \<le> bytes_val (pv_End pv)"
    "x = pv_Start pv \<longleftrightarrow> bytes_val x = bytes_val (pv_Start pv)" "x = pv_End pv \<longleftrightarrow> bytes_val x = bytes_val (pv_End pv)"
    if "length x = length (pv_Start pv)"
    using that b(4) bytes_val_le_iff [of "pv_Start pv" x] bytes_val_le_iff [of x "pv_End pv"] bytes_val_inj [of x "pv_Start pv"]
      bytes_val_inj [of x "pv_End pv"] by simp_all
  have "1 \<le> bytes_val (pv_End pv)" if edge
  proof -
    have "2 ^ 1 \<le> (2 :: nat) ^ (8 * length (pv_Start pv) - pv_Bits pv)"
      by (rule power_increasing) (use that b(1) in \<open>auto simp: edge_def\<close>)
    with b(2) show ?thesis by simp
  qed
  then show "usable pv x \<longleftrightarrow> length x = length (pv_Start pv) \<and> lo \<le> bytes_val x \<and> bytes_val x \<le> hi"
    using val by (auto simp: usable_def lo_def hi_def edge_def)
  show "hi < 256 ^ length (pv_Start pv)" using bytes_val_less [of "pv_End pv"] b(4) by (auto simp: hi_def)
qed

text \<open>
  The address offered is the lowest free one: in a network whose prefix length fits its family, every
  usable address (without the first and last of an IPv4 network of more than two) below the one
  offered lies in a taken span, it does not itself, and its text reads back as its bytes unless it is
  a mapped address; nothing is offered exactly when every usable address is taken.
\<close>

lemma FirstFreeAddress_exact:
  assumes "ParsePrefix cidr = Some pv" "trim_space cidr = cidr" "pv_Bits pv \<le> 8 * length (pv_Start pv)"
  shows "case FirstFreeAddress cidr taken of
       None \<Rightarrow> \<forall>x. usable pv x \<longrightarrow> taken_by taken x
     | Some t \<Rightarrow>
         (\<exists>x. usable pv x \<and> \<not> taken_by taken x \<and> (\<forall>y. usable pv y \<and> y < x \<longrightarrow> taken_by taken y)
            \<and> t = addr_text (addr_of (pv_Family pv) x)
            \<and> (take 12 x \<noteq> mapped_head \<longrightarrow> (\<exists>v. ParseAddr t = Some v \<and> av_Start v = x)))"
proof -
  from assms(1,2) obtain p where p: "netip_ParsePrefix cidr = Some p" "pv = prefix_value (Masked p)"
    by (auto simp: ParsePrefix_def Let_def split: if_splits)
  have bits: "snd p = pv_Bits pv" using p(2) by (simp add: prefix_value_def Let_def Masked_def)
  let ?len = "length (pv_Start pv)" and ?ss = "sort_key sp_Start taken"
  define edge where "edge \<longleftrightarrow> pv_Family pv = 4 \<and> pv_Bits pv \<le> 30"
  define lo where "lo = (if edge then bytes_val (pv_Start pv) + 1 else bytes_val (pv_Start pv))"
  define hi where "hi = (if edge then bytes_val (pv_End pv) - 1 else bytes_val (pv_End pv))"
  define c where "c = free_scan ?len lo ?ss"
  note u = usable_range [OF assms(1,3), folded edge_def, folded lo_def hi_def]
  have fam: "pv_Family pv = 4 \<or> pv_Family pv = 6" using p(2) by (simp add: prefix_value_def Let_def)
  with prefix_block(1) [OF assms(1,3)] have len: "?len = (if pv_Family pv = 6 then 16 else 4)" by auto
  have run: "FirstFreeAddress cidr taken = (if hi < lo \<or> hi < c then None else Some (textFromInt c (pv_Family pv)))"
    using p assms(1) bits by (simp add: FirstFreeAddress_def Let_def edge_def lo_def hi_def c_def)
  have "sorted (map sp_Start ?ss)" by simp
  from free_scan_correct [OF this, of lo ?len]
  have scan: "lo \<le> c" "\<And>n. lo \<le> n \<Longrightarrow> n < c \<Longrightarrow> covered ?len ?ss n" "\<not> covered ?len ?ss c" by (simp_all add: c_def)
  have below: "taken_by taken y" if "usable pv y" "bytes_val y < c" for y
    using that u(1) [of y] scan(2) taken_covered [of taken y] by simp
  show ?thesis
  proof (cases "hi < lo \<or> hi < c")
    case True
    then have "taken_by taken x" if "usable pv x" for x using below that u(1) [of x] by fastforce
    with True run show ?thesis by simp
  next
    case False
    let ?x = "pad ?len c"
    have c: "c < 256 ^ ?len" using False u(2) by simp
    note x = pad_facts [OF c]
    have "usable pv ?x" using u(1) [of ?x] x scan(1) False by simp
    moreover have "\<not> taken_by taken ?x" using taken_covered [of taken ?x] x scan(3) by simp
    moreover have "taken_by taken y" if "usable pv y" "y < ?x" for y
      using below that u(1) [of y] x bytes_val_less_iff [of y ?x] by simp
    moreover have shown: "textFromInt c (pv_Family pv) = addr_text (addr_of (pv_Family pv) ?x)"
      using textFromInt_pad [of c "pv_Family pv"] c len by (auto simp: addr_of_def)
    moreover have "\<exists>v. ParseAddr (textFromInt c (pv_Family pv)) = Some v \<and> av_Start v = ?x" if "take 12 ?x \<noteq> mapped_head"
    proof -
      let ?a = "if pv_Family pv = 6 then Addr6 ?x [] else Addr4 ?x"
      have "wf_addr ?a" "NoZone ?a = ?a" "\<not> Is4In6 ?a" "addr_bytes ?a = ?x" "addr_of (pv_Family pv) ?x = ?a"
        using x len that by (auto simp: wf_addr_def NoZone_def Is4In6_def addr_bytes_def addr_of_def Unmap_def)
      with ParseAddr_text [of ?a] show ?thesis unfolding shown by (simp add: addr_value_def)
    qed
    ultimately show ?thesis using False run by auto
  qed
qed

end
