(* ===== verification/Prefix_Tree.thy ===== *)
theory Prefix_Tree
  imports IP_Range
begin

text \<open>
  The tree of networks: \<open>Prefix\<close> of network.go and prefix_tree.go of internal/domain. One pass over
  the sorted networks with a stack gives each its parent, a second one what its children take. Shown
  here: the parent is the tightest network around it, and the addresses left to a network are exactly
  those that lie in none of its children.
\<close>

section \<open>Definitions\<close>

record netPrefix =
  px_ID :: string
  px_CIDRText :: string
  px_AddrFamily :: int
  px_AddrStart :: "byte list"
  px_AddrEnd :: "byte list"
  px_EnvironmentID :: "string option"
  px_Role :: "string option"
  px_VRFID :: "string option"
  px_VLANRefID :: "string option"
  px_Lifecycle :: string
  px_CreatedAt :: "string option"
  px_UpdatedAt :: "string option"
  px_RowVersion :: int

record prefixNode =
  pn_Prefix :: netPrefix
  pn_Depth :: nat
  pn_ParentID :: "string option"
  pn_Size :: "int option"
  pn_Allocated :: int
  pn_Addresses :: int
  pn_Children :: nat

definition PrefixSize :: "string \<Rightarrow> int option" where
  "PrefixSize cidr =
     (case netip_ParsePrefix cidr of
        None \<Rightarrow> None
      | Some (a, bits) \<Rightarrow>
          let width = (if \<not> Is4 a \<and> \<not> Is4In6 a then 128 else 32) in
          if width < bits then None else Some (2 ^ (width - bits)))"

definition IsFull :: "prefixNode \<Rightarrow> bool" where
  "IsFull n = (case pn_Size n of None \<Rightarrow> False | Some sz \<Rightarrow> sz \<le> pn_Allocated n)"

definition vrfKey :: "string option \<Rightarrow> string" where
  "vrfKey v = (case v of None \<Rightarrow> [] | Some i \<Rightarrow> i)"

definition contains :: "netPrefix \<Rightarrow> netPrefix \<Rightarrow> bool" where
  "contains outer inner \<longleftrightarrow>
     vrfKey (px_VRFID outer) = vrfKey (px_VRFID inner) \<and> px_AddrFamily outer = px_AddrFamily inner
     \<and> \<not> px_AddrStart inner < px_AddrStart outer \<and> \<not> px_AddrEnd outer < px_AddrEnd inner
     \<and> \<not> (px_AddrStart outer = px_AddrStart inner \<and> px_AddrEnd outer = px_AddrEnd inner)"

definition prefix_less :: "netPrefix \<Rightarrow> netPrefix \<Rightarrow> bool" where
  "prefix_less a b =
     (if vrfKey (px_VRFID a) \<noteq> vrfKey (px_VRFID b) then vrfKey (px_VRFID a) < vrfKey (px_VRFID b)
      else if px_AddrFamily a \<noteq> px_AddrFamily b then px_AddrFamily a < px_AddrFamily b
      else if px_AddrStart a \<noteq> px_AddrStart b then px_AddrStart a < px_AddrStart b
      else px_AddrEnd b < px_AddrEnd a)"

definition new_node :: "netPrefix \<Rightarrow> prefixNode" where
  "new_node p =
     \<lparr>pn_Prefix = p, pn_Depth = 0, pn_ParentID = None, pn_Size = PrefixSize (px_CIDRText p), pn_Allocated = 0,
      pn_Addresses = 0, pn_Children = 0\<rparr>"

text \<open>The body of the first loop: the stack has its top first.\<close>

definition place_step :: "nat \<Rightarrow> prefixNode list \<times> nat list \<Rightarrow> prefixNode list \<times> nat list" where
  "place_step i st =
     (let ns = fst st;
          stack = dropWhile (\<lambda>j. \<not> contains (pn_Prefix (ns ! j)) (pn_Prefix (ns ! i))) (snd st);
          ns' = (case stack of
                   [] \<Rightarrow> ns
                 | parent # _ \<Rightarrow>
                     let ns1 = ns[i := (ns ! i)\<lparr>pn_ParentID := Some (px_ID (pn_Prefix (ns ! parent))),
                                 pn_Depth := pn_Depth (ns ! parent) + 1\<rparr>] in
                     ns1[parent := (ns1 ! parent)\<lparr>pn_Children := pn_Children (ns1 ! parent) + 1\<rparr>])
      in (ns', i # stack))"

definition place :: "prefixNode list \<Rightarrow> prefixNode list" where
  "place ns = fst (fold place_step [0..<length ns] (ns, []))"

text \<open>The body of the second loop, on what the children of a node allocate and its own addresses.\<close>

definition share_step :: "(string \<Rightarrow> int) \<Rightarrow> prefixNode list \<Rightarrow> nat \<Rightarrow> int list \<times> int list \<Rightarrow> int list \<times> int list" where
  "share_step counts ns i st =
     (case pn_ParentID (ns ! i) of
        None \<Rightarrow> st
      | Some pid \<Rightarrow>
          (case find (\<lambda>j. px_ID (pn_Prefix (ns ! j)) = pid) (rev [0..<i]) of
             None \<Rightarrow> st
           | Some j \<Rightarrow>
               ((case pn_Size (ns ! i) of None \<Rightarrow> fst st | Some sz \<Rightarrow> (fst st)[j := fst st ! j + sz]),
                (snd st)[j := snd st ! j - counts (px_ID (pn_Prefix (ns ! i)))])))"

definition BuildPrefixTree :: "netPrefix list \<Rightarrow> (string \<Rightarrow> int) \<Rightarrow> prefixNode list" where
  "BuildPrefixTree prefixes counts =
     (let ns = place (go_sort (\<lambda>a b. prefix_less (pn_Prefix a) (pn_Prefix b)) (map new_node prefixes));
          (allocated, direct) =
            fold (share_step counts ns) [0..<length ns]
              (map (\<lambda>n. 0) ns, map (\<lambda>n. counts (px_ID (pn_Prefix n))) ns)
      in map (\<lambda>i. let d = max 0 (direct ! i) in
           (ns ! i)\<lparr>pn_Addresses := d, pn_Allocated := allocated ! i + d\<rparr>) [0..<length ns])"

section \<open>Order\<close>

definition nested_or_apart :: "netPrefix \<Rightarrow> netPrefix \<Rightarrow> bool" where
  "nested_or_apart p q \<longleftrightarrow>
     (vrfKey (px_VRFID p) = vrfKey (px_VRFID q) \<and> px_AddrFamily p = px_AddrFamily q \<longrightarrow>
        px_AddrEnd p < px_AddrStart q \<or> px_AddrEnd q < px_AddrStart p
        \<or> px_AddrStart p \<le> px_AddrStart q \<and> px_AddrEnd q \<le> px_AddrEnd p
        \<or> px_AddrStart q \<le> px_AddrStart p \<and> px_AddrEnd p \<le> px_AddrEnd q)"

definition same_block :: "netPrefix \<Rightarrow> netPrefix \<Rightarrow> bool" where
  "same_block p q \<longleftrightarrow>
     vrfKey (px_VRFID p) = vrfKey (px_VRFID q) \<and> px_AddrFamily p = px_AddrFamily q
     \<and> px_AddrStart p = px_AddrStart q \<and> px_AddrEnd p = px_AddrEnd q"

definition laminar :: "netPrefix set \<Rightarrow> bool" where
  "laminar ps \<longleftrightarrow> (\<forall>p \<in> ps. px_AddrStart p \<le> px_AddrEnd p) \<and> (\<forall>p \<in> ps. \<forall>q \<in> ps. nested_or_apart p q)"

interpretation prefix_order: go_ordering prefix_less
proof -
  have "go_ordering (\<lambda>a b. px_AddrEnd b < px_AddrEnd (a :: netPrefix))" by unfold_locales auto
  then show "go_ordering prefix_less"
    unfolding prefix_less_def by (intro go_ordering_lex)
qed

lemma contains_less: "contains p q \<Longrightarrow> prefix_less p q"
  by (auto simp: contains_def prefix_less_def not_less)

lemma contains_trans: "contains p q \<Longrightarrow> contains q r \<Longrightarrow> contains p r"
proof -
  assume "contains p q" "contains q r"
  then have 1: "px_AddrStart p \<le> px_AddrStart q" "px_AddrStart q \<le> px_AddrStart r" "px_AddrEnd q \<le> px_AddrEnd p" "px_AddrEnd r \<le> px_AddrEnd q"
    "vrfKey (px_VRFID p) = vrfKey (px_VRFID r)" "px_AddrFamily p = px_AddrFamily r" "px_AddrStart p \<noteq> px_AddrStart q \<or> px_AddrEnd p \<noteq> px_AddrEnd q"
    by (simp_all add: contains_def not_less)
  then have "px_AddrStart p \<le> px_AddrStart r" "px_AddrEnd r \<le> px_AddrEnd p" by (blast intro: order_trans)+
  moreover have "\<not> (px_AddrStart p = px_AddrStart r \<and> px_AddrEnd p = px_AddrEnd r)" using 1 by (metis order.antisym)
  ultimately show "contains p r" using 1 by (simp add: contains_def not_less)
qed

lemma contains_same_block: "contains p q \<Longrightarrow> same_block p p' \<Longrightarrow> contains p' q"
  by (simp add: contains_def same_block_def)

text \<open>Between a network and one it contains, the order has only networks it contains or repeats.\<close>

lemma between:
  assumes "laminar ps" "j \<in> ps" "k \<in> ps" "m \<in> ps" "contains j m" "\<not> prefix_less k j" "\<not> prefix_less m k"
  shows "contains j k \<or> same_block j k"
proof -
  have same: "vrfKey (px_VRFID k) = vrfKey (px_VRFID j)" "px_AddrFamily k = px_AddrFamily j"
    using assms(5-7) by (auto simp: contains_def prefix_less_def split: if_splits)
  then have st: "px_AddrStart j \<le> px_AddrStart k" "px_AddrStart k \<le> px_AddrStart m"
    using assms(5-7) by (auto simp: contains_def prefix_less_def not_less split: if_splits)
  have en: "px_AddrEnd m \<le> px_AddrEnd j" "px_AddrStart m \<le> px_AddrEnd m"
    using assms(1,4,5) by (auto simp: contains_def laminar_def not_less)
  have "nested_or_apart j k" using assms(1-3) by (simp add: laminar_def)
  moreover have "px_AddrStart k \<le> px_AddrEnd j" "px_AddrStart j \<le> px_AddrEnd k"
    using st en assms(1,3) by (auto simp: laminar_def intro: order_trans)
  ultimately have "px_AddrStart j \<le> px_AddrStart k \<and> px_AddrEnd k \<le> px_AddrEnd j
      \<or> px_AddrStart k \<le> px_AddrStart j \<and> px_AddrEnd j \<le> px_AddrEnd k"
    using same by (auto simp: nested_or_apart_def)
  moreover have "px_AddrEnd k \<le> px_AddrEnd j" if "px_AddrStart k = px_AddrStart j"
    using assms(6) same that by (simp add: prefix_less_def not_less)
  ultimately have "px_AddrEnd k \<le> px_AddrEnd j" using st(1) by force
  then show ?thesis using st(1) same by (auto simp: contains_def same_block_def not_less)
qed

section \<open>The pass with the stack\<close>

text \<open>The parent by position: the last network before \<open>i\<close> that contains it.\<close>

definition par :: "netPrefix list \<Rightarrow> nat \<Rightarrow> nat option" where
  "par ps i = find (\<lambda>j. contains (ps ! j) (ps ! i)) (rev [0..<i])"

lemma find_rev_upt:
  "find P (rev [0..<i]) = Some j \<longleftrightarrow> j < i \<and> P j \<and> (\<forall>k. j < k \<and> k < i \<longrightarrow> \<not> P k)"
  "find P (rev [0..<i]) = None \<longleftrightarrow> (\<forall>k < i. \<not> P k)"
proof -
  show "find P (rev [0..<i]) = Some j \<longleftrightarrow> j < i \<and> P j \<and> (\<forall>k. j < k \<and> k < i \<longrightarrow> \<not> P k)"
    by (induction i) (auto simp: less_Suc_eq)
  show "find P (rev [0..<i]) = None \<longleftrightarrow> (\<forall>k < i. \<not> P k)" by (auto simp: find_None_iff)
qed

lemma par_Some: "par ps i = Some j \<longleftrightarrow> j < i \<and> contains (ps ! j) (ps ! i) \<and> (\<forall>k. j < k \<and> k < i \<longrightarrow> \<not> contains (ps ! k) (ps ! i))"
  and par_None: "par ps i = None \<longleftrightarrow> (\<forall>k < i. \<not> contains (ps ! k) (ps ! i))"
  by (simp_all add: par_def find_rev_upt)

text \<open>
  The stack before \<open>i\<close>: positions in descending order, and for every network from \<open>i\<close> on the last
  network before \<open>i\<close> that contains it is there.
\<close>

definition stack_ok :: "netPrefix list \<Rightarrow> nat \<Rightarrow> nat list \<Rightarrow> bool" where
  "stack_ok ps i st \<longleftrightarrow>
     sorted_wrt (>) st \<and> (\<forall>j \<in> set st. j < i)
     \<and> (\<forall>m j. i \<le> m \<and> m < length ps \<and> j < i \<and> contains (ps ! j) (ps ! m)
          \<and> (\<forall>k. j < k \<and> k < i \<longrightarrow> \<not> contains (ps ! k) (ps ! m)) \<longrightarrow> j \<in> set st)"

lemma stack_okD:
  assumes "stack_ok ps i st"
  shows "sorted_wrt (>) st" "j \<in> set st \<Longrightarrow> j < i"
    "i \<le> m \<Longrightarrow> m < length ps \<Longrightarrow> j < i \<Longrightarrow> contains (ps ! j) (ps ! m) \<Longrightarrow>
       \<forall>k. j < k \<and> k < i \<longrightarrow> \<not> contains (ps ! k) (ps ! m) \<Longrightarrow> j \<in> set st"
  using assms unfolding stack_ok_def by blast+

lemma dropWhile_descending:
  assumes "sorted_wrt (>) (st :: nat list)" "j \<in> set st" "P j"
  shows "j \<in> set (dropWhile (\<lambda>k. \<not> P k) st)"
  using assms by (induction st) auto

lemma dropWhile_first:
  assumes "sorted_wrt (>) (st :: nat list)" "j \<in> set st" "P j" "\<forall>k \<in> set st. j < k \<longrightarrow> \<not> P k"
  shows "\<exists>r. dropWhile (\<lambda>k. \<not> P k) st = j # r"
  using assms by (induction st) auto

lemma stack_top:
  assumes "stack_ok ps i st" "i < length ps"
  shows "(case dropWhile (\<lambda>j. \<not> contains (ps ! j) (ps ! i)) st of [] \<Rightarrow> None | j # _ \<Rightarrow> Some j) = par ps i"
proof (cases "par ps i")
  case None
  then have "\<forall>j \<in> set st. \<not> contains (ps ! j) (ps ! i)" using stack_okD(2) [OF assms(1)] by (simp add: par_None)
  then show ?thesis using None by (simp add: dropWhile_eq_Nil_conv [THEN iffD2])
next
  case (Some j)
  then have j: "j < i" "contains (ps ! j) (ps ! i)" "\<forall>k. j < k \<and> k < i \<longrightarrow> \<not> contains (ps ! k) (ps ! i)" by (simp_all add: par_Some)
  then have "j \<in> set st" using stack_okD(3) [OF assms(1) order_refl assms(2)] by blast
  moreover have "\<forall>k \<in> set st. j < k \<longrightarrow> \<not> contains (ps ! k) (ps ! i)" using j(3) stack_okD(2) [OF assms(1)] by blast
  ultimately obtain r where "dropWhile (\<lambda>k. \<not> contains (ps ! k) (ps ! i)) st = j # r"
    using dropWhile_first [of st j "\<lambda>k. contains (ps ! k) (ps ! i)"] j(2) stack_okD(1) [OF assms(1)] by blast
  with Some show ?thesis by simp
qed

lemma stack_step:
  assumes "laminar (set ps)" "sorted_wrt (\<lambda>a b. \<not> prefix_less b a) ps" "stack_ok ps i st" "i < length ps"
  shows "stack_ok ps (Suc i) (i # dropWhile (\<lambda>j. \<not> contains (ps ! j) (ps ! i)) st)"
proof -
  let ?d = "dropWhile (\<lambda>j. \<not> contains (ps ! j) (ps ! i)) st"
  have sub: "set ?d \<subseteq> set st" by (auto dest: set_dropWhileD)
  have desc: "sorted_wrt (>) st" "\<forall>j \<in> set st. j < i" using stack_okD(1,2) [OF assms(3)] by blast+
  have "sorted_wrt (>) ?d" by (metis desc(1) sorted_wrt_append takeWhile_dropWhile_id)
  moreover have "j \<in> set (i # ?d)"
    if m: "Suc i \<le> m" "m < length ps" "j < Suc i" "contains (ps ! j) (ps ! m)"
      "\<forall>k. j < k \<and> k < Suc i \<longrightarrow> \<not> contains (ps ! k) (ps ! m)" for m j
  proof (cases "j = i")
    case False
    with m have j: "j < i" "\<not> contains (ps ! i) (ps ! m)" by auto
    have "j \<in> set st" by (rule stack_okD(3) [OF assms(3), of m]) (use m j(1) in auto)
    moreover have "contains (ps ! j) (ps ! i)"
    proof -
      have "contains (ps ! j) (ps ! i) \<or> same_block (ps ! j) (ps ! i)"
        by (rule between [OF assms(1), of "ps ! j" "ps ! i" "ps ! m"])
          (use m j assms(2,4) sorted_wrt_nth_less [OF assms(2)] in auto)
      then show ?thesis using contains_same_block [OF m(4)] j(2) by blast
    qed
    ultimately show ?thesis using dropWhile_descending [OF desc(1), of j "\<lambda>j. contains (ps ! j) (ps ! i)"] by simp
  qed simp
  ultimately show ?thesis using sub desc(2) unfolding stack_ok_def by (auto simp: less_Suc_eq)
qed

lemma place_step_effect:
  assumes "map pn_Prefix ns = ps" "stack_ok ps i st" "i < length ps" "place_step i (ns, st) = (ns', st')"
  shows "st' = i # dropWhile (\<lambda>j. \<not> contains (ps ! j) (ps ! i)) st" "length ns' = length ns"
    "k < length ps \<Longrightarrow> pn_Prefix (ns' ! k) = ps ! k \<and> pn_Size (ns' ! k) = pn_Size (ns ! k)"
    "k < length ps \<Longrightarrow> pn_ParentID (ns' ! k) =
       (if k = i \<and> par ps i \<noteq> None then map_option (\<lambda>j. px_ID (ps ! j)) (par ps i) else pn_ParentID (ns ! k))"
    "k < length ps \<Longrightarrow> pn_Depth (ns' ! k) =
       (case par ps i of None \<Rightarrow> pn_Depth (ns ! k) | Some j \<Rightarrow> if k = i then Suc (pn_Depth (ns ! j)) else pn_Depth (ns ! k))"
    "k < length ps \<Longrightarrow> pn_Children (ns' ! k) = pn_Children (ns ! k) + (if par ps i = Some k then 1 else 0)"
proof -
  let ?d = "dropWhile (\<lambda>j. \<not> contains (ps ! j) (ps ! i)) st"
  have len: "length ns = length ps" using assms(1) by auto
  have nth: "k < length ps \<Longrightarrow> pn_Prefix (ns ! k) = ps ! k" for k using assms(1) by auto
  have d: "dropWhile (\<lambda>j. \<not> contains (pn_Prefix (ns ! j)) (pn_Prefix (ns ! i))) st = ?d"
  proof (rule dropWhile_cong)
    fix x assume "x \<in> set st"
    then have "x < length ps" using stack_okD(2) [OF assms(2)] assms(3) by (meson less_trans)
    then show "(\<not> contains (pn_Prefix (ns ! x)) (pn_Prefix (ns ! i))) = (\<not> contains (ps ! x) (ps ! i))" using nth assms(3) by simp
  qed simp
  let ?ns = "(case par ps i of
                None \<Rightarrow> ns
              | Some parent \<Rightarrow>
                  let ns1 = ns[i := (ns ! i)\<lparr>pn_ParentID := Some (px_ID (ps ! parent)), pn_Depth := pn_Depth (ns ! parent) + 1\<rparr>] in
                  ns1[parent := (ns1 ! parent)\<lparr>pn_Children := pn_Children (ns1 ! parent) + 1\<rparr>])"
  have j: "j < i" if "par ps i = Some j" for j using that by (simp add: par_Some)
  have "ns' = ?ns \<and> st' = i # ?d"
  proof (cases ?d)
    case Nil
    then show ?thesis using stack_top [OF assms(2,3)] assms(4) d by (simp add: place_step_def Let_def del: dropWhile_eq_Nil_conv)
  next
    case (Cons a list)
    then have a: "par ps i = Some a" using stack_top [OF assms(2,3)] by simp
    then have "pn_Prefix (ns ! a) = ps ! a" using j [OF a] nth assms(3) by simp
    then show ?thesis using assms(4) d Cons a by (simp add: place_step_def Let_def)
  qed
  then show "st' = i # ?d" "length ns' = length ns"
    "k < length ps \<Longrightarrow> pn_Prefix (ns' ! k) = ps ! k \<and> pn_Size (ns' ! k) = pn_Size (ns ! k)"
    "k < length ps \<Longrightarrow> pn_ParentID (ns' ! k) =
       (if k = i \<and> par ps i \<noteq> None then map_option (\<lambda>j. px_ID (ps ! j)) (par ps i) else pn_ParentID (ns ! k))"
    "k < length ps \<Longrightarrow> pn_Depth (ns' ! k) =
       (case par ps i of None \<Rightarrow> pn_Depth (ns ! k) | Some j \<Rightarrow> if k = i then Suc (pn_Depth (ns ! j)) else pn_Depth (ns ! k))"
    "k < length ps \<Longrightarrow> pn_Children (ns' ! k) = pn_Children (ns ! k) + (if par ps i = Some k then 1 else 0)"
    using assms(3) nth len j by (auto simp: Let_def nth_list_update split: option.splits)
qed

definition placed :: "netPrefix list \<Rightarrow> nat \<Rightarrow> prefixNode list \<Rightarrow> bool" where
  "placed ps i ns \<longleftrightarrow>
     map pn_Prefix ns = ps
     \<and> (\<forall>k < length ps. pn_ParentID (ns ! k) = (if k < i then map_option (\<lambda>j. px_ID (ps ! j)) (par ps k) else None))
     \<and> (\<forall>k < length ps. pn_Children (ns ! k) = card {m. m < i \<and> par ps m = Some k})
     \<and> (\<forall>k < length ps. pn_Depth (ns ! k) = (if k < i then case par ps k of None \<Rightarrow> 0 | Some j \<Rightarrow> Suc (pn_Depth (ns ! j)) else 0))"

lemma placed_step:
  assumes "placed ps i ns" "stack_ok ps i st" "i < length ps" "place_step i (ns, st) = (ns', st')"
  shows "placed ps (Suc i) ns' \<and> map pn_Size ns' = map pn_Size ns"
proof -
  have pre: "map pn_Prefix ns = ps" using assms(1) by (simp add: placed_def)
  note e = place_step_effect [OF pre assms(2-4)]
  have len: "length ns' = length ps" using e(2) pre by auto
  have par: "j < i" if "par ps i = Some j" for j using that by (simp add: par_Some)
  have "map pn_Prefix ns' = ps" using e(3) len by (intro nth_equalityI) simp_all
  moreover have "pn_ParentID (ns' ! k) = (if k < Suc i then map_option (\<lambda>j. px_ID (ps ! j)) (par ps k) else None)" if "k < length ps" for k
    using e(4) [OF that] assms(1) that unfolding placed_def by (auto simp: less_Suc_eq)
  moreover have "pn_Children (ns' ! k) = card {m. m < Suc i \<and> par ps m = Some k}" if "k < length ps" for k
  proof -
    have "{m. m < Suc i \<and> par ps m = Some k} = (if par ps i = Some k then insert i {m. m < i \<and> par ps m = Some k} else {m. m < i \<and> par ps m = Some k})"
      by (auto simp: less_Suc_eq)
    then show ?thesis using e(6) [OF that] assms(1) that unfolding placed_def by simp
  qed
  moreover have "pn_Depth (ns' ! k) = (if k < Suc i then case par ps k of None \<Rightarrow> 0 | Some j \<Rightarrow> Suc (pn_Depth (ns' ! j)) else 0)" if k: "k < length ps" for k
  proof -
    have old: "pn_Depth (ns ! k) = (if k < i then case par ps k of None \<Rightarrow> 0 | Some j \<Rightarrow> Suc (pn_Depth (ns ! j)) else 0)"
      using assms(1) k unfolding placed_def by blast
    have same: "pn_Depth (ns' ! j) = pn_Depth (ns ! j)" if "j < i" for j
      using e(5) [of j] that assms(3) by (auto split: option.splits)
    have before: "j < k" if "par ps k = Some j" for j using that by (simp add: par_Some)
    consider "k < i" | "k = i" | "i < k" by linarith
    then show ?thesis
    proof cases
      case 1
      then show ?thesis using same old before by (auto split: option.splits)
    next
      case 2
      then show ?thesis using e(5) [OF k] same old before by (auto split: option.splits)
    next
      case 3
      then show ?thesis using e(5) [OF k] old by (auto split: option.splits)
    qed
  qed
  ultimately have "placed ps (Suc i) ns'" unfolding placed_def by blast
  moreover have "map pn_Size ns' = map pn_Size ns" using e(2,3) len pre by (intro nth_equalityI) auto
  ultimately show ?thesis ..
qed

lemma place_correct:
  assumes "laminar (set ps)" "sorted_wrt (\<lambda>a b. \<not> prefix_less b a) ps" "ns = map new_node ps"
  shows "placed ps (length ps) (place ns) \<and> map pn_Size (place ns) = map (\<lambda>p. PrefixSize (px_CIDRText p)) ps"
proof -
  have "\<exists>ns' st'. fold place_step [0..<i] (ns, []) = (ns', st') \<and> placed ps i ns' \<and> stack_ok ps i st' \<and> map pn_Size ns' = map pn_Size ns"
    if "i \<le> length ps" for i
    using that
  proof (induction i)
    case 0
    then show ?case using assms(3) by (auto simp: placed_def stack_ok_def new_node_def comp_def)
  next
    case (Suc i)
    then obtain ns1 st1 where 1: "fold place_step [0..<i] (ns, []) = (ns1, st1)" "placed ps i ns1" "stack_ok ps i st1"
      "map pn_Size ns1 = map pn_Size ns" by auto
    obtain ns2 st2 where 2: "place_step i (ns1, st1) = (ns2, st2)" by force
    have i: "i < length ps" using Suc.prems by simp
    have "map pn_Prefix ns1 = ps" using 1(2) by (simp add: placed_def)
    from place_step_effect(1) [OF this 1(3) i 2] stack_step [OF assms(1,2) 1(3) i] have "stack_ok ps (Suc i) st2" by simp
    with placed_step [OF 1(2,3) i 2] 1 2 show ?case by simp
  qed
  from this [of "length ps"] assms(3) show ?thesis by (auto simp: place_def new_node_def comp_def)
qed

section \<open>The pass over the children\<close>

definition size_of :: "netPrefix \<Rightarrow> int" where
  "size_of p = (case PrefixSize (px_CIDRText p) of None \<Rightarrow> 0 | Some sz \<Rightarrow> sz)"

abbreviation children :: "netPrefix list \<Rightarrow> nat \<Rightarrow> nat \<Rightarrow> nat set" where
  "children ps i k \<equiv> {m. m < i \<and> par ps m = Some k}"

lemma finite_children [simp]: "finite (children ps i k)"
  by (rule finite_subset [of _ "{..<i}"]) auto

lemma sum_children_Suc:
  "(\<Sum>m \<in> children ps (Suc i) k. (f m :: int)) = (\<Sum>m \<in> children ps i k. f m) + (if par ps i = Some k then f i else 0)"
proof -
  have "children ps (Suc i) k = (if par ps i = Some k then insert i (children ps i k) else children ps i k)" by (auto simp: less_Suc_eq)
  then show ?thesis by simp
qed

lemma share_correct:
  assumes "placed ps (length ps) ns" "map pn_Size ns = map (\<lambda>p. PrefixSize (px_CIDRText p)) ps" "distinct (map px_ID ps)"
    and "fold (share_step counts ns) [0..<length ns] (map (\<lambda>n. 0) ns, map (\<lambda>n. counts (px_ID (pn_Prefix n))) ns) = (a, d)"
    and "k < length ps"
  shows "a ! k = (\<Sum>m \<in> children ps (length ps) k. size_of (ps ! m))"
    and "d ! k = counts (px_ID (ps ! k)) - (\<Sum>m \<in> children ps (length ps) k. counts (px_ID (ps ! m)))"
proof -
  let ?init = "(map (\<lambda>n. 0) ns, map (\<lambda>n. counts (px_ID (pn_Prefix n))) ns)"
  have pre: "map pn_Prefix ns = ps" using assms(1) by (simp add: placed_def)
  then have len: "length ns = length ps" and nth: "m < length ps \<Longrightarrow> pn_Prefix (ns ! m) = ps ! m" for m by auto
  have sz: "m < length ps \<Longrightarrow> pn_Size (ns ! m) = PrefixSize (px_CIDRText (ps ! m))" for m
    using arg_cong [OF assms(2), of "\<lambda>l. l ! m"] len by simp
  have "\<exists>a d. fold (share_step counts ns) [0..<i] ?init = (a, d) \<and> length a = length ps \<and> length d = length ps
      \<and> (\<forall>k < length ps. a ! k = (\<Sum>m \<in> children ps i k. size_of (ps ! m))
           \<and> d ! k = counts (px_ID (ps ! k)) - (\<Sum>m \<in> children ps i k. counts (px_ID (ps ! m))))"
    if "i \<le> length ps" for i
    using that
  proof (induction i)
    case 0
    then show ?case using nth len by auto
  next
    case (Suc i)
    then obtain a d where IH: "fold (share_step counts ns) [0..<i] ?init = (a, d)" "length a = length ps" "length d = length ps"
      "\<And>k. k < length ps \<Longrightarrow> a ! k = (\<Sum>m \<in> children ps i k. size_of (ps ! m))"
      "\<And>k. k < length ps \<Longrightarrow> d ! k = counts (px_ID (ps ! k)) - (\<Sum>m \<in> children ps i k. counts (px_ID (ps ! m)))" by auto
    have i: "i < length ps" using Suc.prems by simp
    have p: "pn_ParentID (ns ! i) = map_option (\<lambda>j. px_ID (ps ! j)) (par ps i)" using assms(1) i unfolding placed_def by simp
    show ?case
    proof (cases "par ps i")
      case None
      then have "share_step counts ns i (a, d) = (a, d)" using p by (simp add: share_step_def)
      then show ?thesis using IH None by (simp add: sum_children_Suc)
    next
      case (Some j)
      then have j: "j < i" by (simp add: par_Some)
      have "px_ID (pn_Prefix (ns ! m)) \<noteq> px_ID (ps ! j)" if "j < m" "m < i" for m
        using that i j nth [of m] assms(3) by (simp add: distinct_conv_nth)
      then have "find (\<lambda>m. px_ID (pn_Prefix (ns ! m)) = px_ID (ps ! j)) (rev [0..<i]) = Some j"
        using j i nth [of j] by (subst find_rev_upt) auto
      then have step: "share_step counts ns i (a, d) =
          ((case PrefixSize (px_CIDRText (ps ! i)) of None \<Rightarrow> a | Some sz \<Rightarrow> a[j := a ! j + sz]), d[j := d ! j - counts (px_ID (ps ! i))])"
        using p Some sz [OF i] nth [OF i] by (auto simp: share_step_def split: option.splits)
      show ?thesis using IH step Some j i by (auto simp: sum_children_Suc nth_list_update size_of_def split: option.splits)
    qed
  qed
  from this [of "length ps"] assms(4,5) len
  show "a ! k = (\<Sum>m \<in> children ps (length ps) k. size_of (ps ! m))"
    "d ! k = counts (px_ID (ps ! k)) - (\<Sum>m \<in> children ps (length ps) k. counts (px_ID (ps ! m)))" by auto
qed

section \<open>The tree\<close>

lemma go_sort_map:
  assumes "\<And>x. f (g x) = x"
  shows "go_sort (\<lambda>a b. lt (f a) (f b)) (map g xs) = map g (go_sort lt xs)"
proof -
  have ins: "insert_by (\<lambda>a b. lt (f a) (f b)) (g x) (map g ys) = map g (insert_by lt x ys)" for x ys
    by (induction ys) (auto simp: assms)
  have "foldl (\<lambda>acc x. insert_by (\<lambda>a b. lt (f a) (f b)) x acc) (map g ys) (map g xs) = map g (foldl (\<lambda>acc x. insert_by lt x acc) ys xs)" for ys
    by (induction xs arbitrary: ys) (simp_all add: ins)
  from this [of "[]"] show ?thesis by (simp add: go_sort_def)
qed

lemma tree_nodes:
  fixes prefixes :: "netPrefix list" and counts :: "string \<Rightarrow> int"
  assumes "laminar (set prefixes)" "distinct (map px_ID prefixes)"
  defines "ps \<equiv> go_sort prefix_less prefixes" and "nodes \<equiv> BuildPrefixTree prefixes counts"
  shows "length nodes = length ps"
    and "k < length ps \<Longrightarrow> pn_Prefix (nodes ! k) = ps ! k \<and> pn_ParentID (nodes ! k) = map_option (\<lambda>j. px_ID (ps ! j)) (par ps k)
      \<and> pn_Children (nodes ! k) = card (children ps (length ps) k)
      \<and> pn_Depth (nodes ! k) = (case par ps k of None \<Rightarrow> 0 | Some j \<Rightarrow> Suc (pn_Depth (nodes ! j)))
      \<and> pn_Addresses (nodes ! k) = max 0 (counts (px_ID (ps ! k)) - (\<Sum>m \<in> children ps (length ps) k. counts (px_ID (ps ! m))))
      \<and> pn_Allocated (nodes ! k) = (\<Sum>m \<in> children ps (length ps) k. size_of (ps ! m)) + pn_Addresses (nodes ! k)"
proof -
  let ?ns = "place (map new_node ps)"
  have sort: "go_sort (\<lambda>a b. prefix_less (pn_Prefix a) (pn_Prefix b)) (map new_node prefixes) = map new_node ps"
    unfolding ps_def by (rule go_sort_map) (simp add: new_node_def)
  have "distinct (map px_ID ps)" unfolding ps_def using assms(2) by (metis mset_eq_imp_distinct_iff mset_go_sort mset_map)
  moreover have "laminar (set ps)" using assms(1) by (simp add: ps_def)
  moreover have "sorted_wrt (\<lambda>a b. \<not> prefix_less b a) ps" unfolding ps_def by (rule prefix_order.go_sort_sorted)
  ultimately have pl: "placed ps (length ps) ?ns" "map pn_Size ?ns = map (\<lambda>p. PrefixSize (px_CIDRText p)) ps"
    and dist: "distinct (map px_ID ps)" using place_correct [of ps "map new_node ps"] by simp_all
  have len: "length ?ns = length ps" using pl(2) by (metis length_map)
  obtain a d where ad: "fold (share_step counts ?ns) [0..<length ?ns] (map (\<lambda>n. 0) ?ns, map (\<lambda>n. counts (px_ID (pn_Prefix n))) ?ns) = (a, d)" by force
  have nodes: "nodes = map (\<lambda>i. let d = max 0 (d ! i) in (?ns ! i)\<lparr>pn_Addresses := d, pn_Allocated := a ! i + d\<rparr>) [0..<length ps]"
    unfolding nodes_def BuildPrefixTree_def sort using ad len by (simp add: Let_def)
  then show "length nodes = length ps" by simp
  have nth: "m < length ps \<Longrightarrow> nodes ! m = (?ns ! m)\<lparr>pn_Addresses := max 0 (d ! m), pn_Allocated := a ! m + max 0 (d ! m)\<rparr>" for m
    unfolding nodes by (simp add: Let_def)
  assume k: "k < length ps"
  have before: "j < length ps" if "par ps k = Some j" for j using that k by (simp add: par_Some)
  have p: "pn_Prefix (?ns ! k) = ps ! k" using pl(1) k len unfolding placed_def by (metis nth_map)
  from pl(1) k have "pn_ParentID (?ns ! k) = map_option (\<lambda>j. px_ID (ps ! j)) (par ps k)"
    "pn_Children (?ns ! k) = card (children ps (length ps) k)"
    "pn_Depth (?ns ! k) = (case par ps k of None \<Rightarrow> 0 | Some j \<Rightarrow> Suc (pn_Depth (?ns ! j)))" unfolding placed_def by simp_all
  with p share_correct [OF pl dist ad k] nth [OF k] nth before
  show "pn_Prefix (nodes ! k) = ps ! k \<and> pn_ParentID (nodes ! k) = map_option (\<lambda>j. px_ID (ps ! j)) (par ps k)
      \<and> pn_Children (nodes ! k) = card (children ps (length ps) k)
      \<and> pn_Depth (nodes ! k) = (case par ps k of None \<Rightarrow> 0 | Some j \<Rightarrow> Suc (pn_Depth (nodes ! j)))
      \<and> pn_Addresses (nodes ! k) = max 0 (counts (px_ID (ps ! k)) - (\<Sum>m \<in> children ps (length ps) k. counts (px_ID (ps ! m))))
      \<and> pn_Allocated (nodes ! k) = (\<Sum>m \<in> children ps (length ps) k. size_of (ps ! m)) + pn_Addresses (nodes ! k)"
    by (auto split: option.splits)
qed

end
