(* ===== verification/Prefix_Tree_Props.thy ===== *)
theory Prefix_Tree_Props
  imports Prefix_Tree
begin

text \<open>
  What the tree of networks says: networks whose bytes come from \<open>ParsePrefix\<close> never overlap without
  nesting, so the parent found with the stack is the tightest network around, the depth counts all of
  them, and the addresses of a network are those in none of the networks inside it.
\<close>

section \<open>Blocks nest\<close>

definition stored_network :: "netPrefix \<Rightarrow> bool" where
  "stored_network p =
     (case ParsePrefix (px_CIDRText p) of
        None \<Rightarrow> False
      | Some v \<Rightarrow>
          pv_Bits v \<le> 8 * length (pv_Start v) \<and> px_AddrFamily p = pv_Family v \<and> px_AddrStart p = pv_Start v
          \<and> px_AddrEnd p = pv_End v)"

definition own_blocks :: "netPrefix list \<Rightarrow> bool" where
  "own_blocks ps \<longleftrightarrow> (\<forall>p \<in> set ps. \<forall>q \<in> set ps. same_block p q \<longrightarrow> p = q)"

lemma stored_value:
  assumes "stored_network p"
  obtains h where "length (px_AddrStart p) = (if px_AddrFamily p = 4 then 4 else 16)" "length (px_AddrEnd p) = length (px_AddrStart p)"
    "bytes_val (px_AddrEnd p) + 1 = bytes_val (px_AddrStart p) + 2 ^ h" "2 ^ h dvd bytes_val (px_AddrStart p)"
proof -
  from assms obtain v where v: "ParsePrefix (px_CIDRText p) = Some v" "pv_Bits v \<le> 8 * length (pv_Start v)"
    "px_AddrFamily p = pv_Family v" "px_AddrStart p = pv_Start v" "px_AddrEnd p = pv_End v"
    by (auto simp: stored_network_def split: option.splits)
  note b = prefix_block [OF v(1,2)]
  have "bytes_val (pv_Start v) = bytes_val (pv_Start v) div 2 ^ (8 * length (pv_Start v) - pv_Bits v) * 2 ^ (8 * length (pv_Start v) - pv_Bits v)"
    using clear_from_val [OF v(2)] b(5) by simp
  then have "2 ^ (8 * length (pv_Start v) - pv_Bits v) dvd bytes_val (pv_Start v)" by (metis dvd_triv_right)
  with b v(3-5) that [of "8 * length (pv_Start v) - pv_Bits v"] show thesis by simp
qed

lemma aligned_nest:
  fixes s t A B :: nat
  assumes "A dvd s" "B dvd t" "B dvd A" "0 < B" "e + 1 = s + A" "f + 1 = t + B"
  shows "e < t \<or> f < s \<or> s \<le> t \<and> f \<le> e"
proof -
  from assms(2,3) obtain j k where jk: "t = B * j" "A = B * k" by (auto simp: dvd_def)
  from assms(1) obtain i where i: "s = A * i" by (auto simp: dvd_def)
  have s: "s = B * (k * i)" "s + A = B * (k * i + k)" "f + 1 = B * (j + 1)" using i jk assms(6) by (simp_all add: algebra_simps)
  have lt: "B * x < B * y \<Longrightarrow> B * (x + 1) \<le> B * y" for x y using assms(4) mult_le_mono2 [of "x + 1" y B] by simp
  show ?thesis
  proof (cases "t < s")
    case True
    then show ?thesis using lt [of j "k * i"] s jk(1) by linarith
  next
    case False
    then show ?thesis using lt [of j "k * i + k"] s jk(1) assms(5) by linarith
  qed
qed

lemma stored_nest:
  assumes "stored_network p" "stored_network q"
  shows "nested_or_apart p q" "px_AddrStart p \<le> px_AddrEnd p"
proof -
  from assms(1) obtain h where p: "length (px_AddrStart p) = (if px_AddrFamily p = 4 then 4 else 16)" "length (px_AddrEnd p) = length (px_AddrStart p)"
    "bytes_val (px_AddrEnd p) + 1 = bytes_val (px_AddrStart p) + 2 ^ h" "2 ^ h dvd bytes_val (px_AddrStart p)" by (rule stored_value)
  from assms(2) obtain g where q: "length (px_AddrStart q) = (if px_AddrFamily q = 4 then 4 else 16)" "length (px_AddrEnd q) = length (px_AddrStart q)"
    "bytes_val (px_AddrEnd q) + 1 = bytes_val (px_AddrStart q) + 2 ^ g" "2 ^ g dvd bytes_val (px_AddrStart q)" by (rule stored_value)
  have "1 \<le> (2 :: nat) ^ h" by simp
  then show "px_AddrStart p \<le> px_AddrEnd p" using p(2,3) bytes_val_le_iff [of "px_AddrStart p" "px_AddrEnd p"] by linarith
  show "nested_or_apart p q"
  proof (cases "px_AddrFamily p = px_AddrFamily q")
    case True
    with p(1,2) q(1,2) have len: "length (px_AddrStart q) = length (px_AddrStart p)" "length (px_AddrEnd q) = length (px_AddrStart p)" by simp_all
    consider "(2 :: nat) ^ g dvd 2 ^ h" | "(2 :: nat) ^ h dvd 2 ^ g" using le_imp_power_dvd [of g h "2 :: nat"] le_imp_power_dvd [of h g "2 :: nat"] by linarith
    then show ?thesis
    proof cases
      case 1
      from aligned_nest [OF p(4) q(4) 1 _ p(3) q(3)] show ?thesis
        using len p(2) by (auto simp: nested_or_apart_def bytes_val_le_iff bytes_val_less_iff)
    next
      case 2
      from aligned_nest [OF q(4) p(4) 2 _ q(3) p(3)] show ?thesis
        using len p(2) by (auto simp: nested_or_apart_def bytes_val_le_iff bytes_val_less_iff)
    qed
  qed (simp add: nested_or_apart_def)
qed

lemma laminar_stored: "\<forall>p \<in> ps. stored_network p \<Longrightarrow> laminar ps"
  unfolding laminar_def using stored_nest by blast

section \<open>Positions\<close>

text \<open>The list the tree is built from, once sorted.\<close>

definition tree_order :: "netPrefix list \<Rightarrow> bool" where
  "tree_order ps \<longleftrightarrow> laminar (set ps) \<and> sorted_wrt (\<lambda>a b. \<not> prefix_less b a) ps \<and> own_blocks ps \<and> distinct (map px_ID ps)"

lemma tree_order_sorted:
  assumes "\<forall>p \<in> set prefixes. stored_network p" "own_blocks prefixes" "distinct (map px_ID prefixes)"
  shows "tree_order (go_sort prefix_less prefixes)"
proof -
  have "distinct (map px_ID (go_sort prefix_less prefixes))" using assms(3) by (metis mset_eq_imp_distinct_iff mset_go_sort mset_map)
  moreover have "laminar (set (go_sort prefix_less prefixes))" using laminar_stored [of "set prefixes"] assms(1) by simp
  ultimately show ?thesis using assms(2) prefix_order.go_sort_sorted unfolding tree_order_def by (simp add: own_blocks_def)
qed

lemma contains_irrefl: "\<not> contains p p"
  by (simp add: contains_def)

lemma nth_same:
  assumes "tree_order ps" "i < length ps" "j < length ps" "ps ! i = ps ! j"
  shows "i = j"
proof -
  have "distinct ps" using assms(1) unfolding tree_order_def by (simp add: distinct_map)
  then show ?thesis using assms(2-4) by (simp add: nth_eq_iff_index_eq)
qed

lemma container_before:
  assumes "tree_order ps" "i < length ps" "k < length ps" "contains (ps ! k) (ps ! i)"
  shows "k < i"
proof (rule ccontr)
  assume "\<not> k < i"
  then consider "i = k" | "i < k" by linarith
  then show False
  proof cases
    case 1
    then show False using assms(4) contains_irrefl by blast
  next
    case 2
    have "sorted_wrt (\<lambda>a b. \<not> prefix_less b a) ps" using assms(1) by (simp add: tree_order_def)
    from sorted_wrt_nth_less [OF this 2 assms(3)] contains_less [OF assms(4)] show False by blast
  qed
qed

lemma between_positions:
  assumes "tree_order ps" "k < m" "m < i" "i < length ps" "contains (ps ! k) (ps ! i)"
  shows "contains (ps ! k) (ps ! m)"
proof -
  have o: "laminar (set ps)" "sorted_wrt (\<lambda>a b. \<not> prefix_less b a) ps" "own_blocks ps" using assms(1) by (simp_all add: tree_order_def)
  have mem: "ps ! k \<in> set ps" "ps ! m \<in> set ps" "ps ! i \<in> set ps" using assms(2-4) by simp_all
  have "contains (ps ! k) (ps ! m) \<or> same_block (ps ! k) (ps ! m)"
    by (rule between [OF o(1) mem assms(5)]) (use sorted_wrt_nth_less [OF o(2)] assms(2-4) in auto)
  moreover have "\<not> same_block (ps ! k) (ps ! m)"
  proof
    assume "same_block (ps ! k) (ps ! m)"
    with o(3) mem have "ps ! k = ps ! m" by (simp add: own_blocks_def)
    with nth_same [OF assms(1), of k m] assms(2-4) show False by simp
  qed
  ultimately show ?thesis by blast
qed

lemma par_tightest:
  assumes "tree_order ps" "i < length ps" "par ps i = Some j" "k < length ps" "contains (ps ! k) (ps ! i)"
  shows "k = j \<or> contains (ps ! k) (ps ! j)"
proof -
  have j: "j < i" "\<And>m. j < m \<Longrightarrow> m < i \<Longrightarrow> \<not> contains (ps ! m) (ps ! i)" using assms(3) by (auto simp: par_Some)
  have "k < i" by (rule container_before [OF assms(1,2,4,5)])
  with j(2) assms(5) have "k \<le> j" by (meson not_le)
  then show ?thesis using between_positions [OF assms(1) _ j(1) assms(2,5)] by fastforce
qed

definition containers :: "netPrefix list \<Rightarrow> nat \<Rightarrow> nat set" where
  "containers ps i = {k. k < length ps \<and> contains (ps ! k) (ps ! i)}"

lemma containers_par:
  assumes "tree_order ps" "i < length ps"
  shows "containers ps i = (case par ps i of None \<Rightarrow> {} | Some j \<Rightarrow> insert j (containers ps j))"
proof (cases "par ps i")
  case None
  then have "containers ps i = {}" using container_before [OF assms] by (auto simp: containers_def par_None)
  with None show ?thesis by simp
next
  case (Some j)
  then have j: "j < i" "contains (ps ! j) (ps ! i)" by (simp_all add: par_Some)
  have "k \<in> containers ps i \<longleftrightarrow> k = j \<or> k \<in> containers ps j" for k
    using par_tightest [OF assms Some, of k] j assms(2) contains_trans [of "ps ! k" "ps ! j" "ps ! i"] by (auto simp: containers_def)
  then show ?thesis using Some by auto
qed

lemma depth_counts:
  assumes "tree_order ps" "i < length ps"
    and "\<And>k. k < length ps \<Longrightarrow> depth k = (case par ps k of None \<Rightarrow> 0 | Some j \<Rightarrow> Suc (depth j))"
  shows "depth i = card (containers ps i)"
  using assms(2)
proof (induction i rule: less_induct)
  case (less i)
  show ?case
  proof (cases "par ps i")
    case None
    then show ?thesis using containers_par [OF assms(1) less.prems] assms(3) [OF less.prems] by simp
  next
    case (Some j)
    then have j: "j < i" by (simp add: par_Some)
    have "j \<notin> containers ps j" "finite (containers ps j)" by (simp_all add: containers_def contains_irrefl)
    then show ?thesis using Some containers_par [OF assms(1) less.prems] assms(3) [OF less.prems] less.IH [OF j] j less.prems by simp
  qed
qed

lemma child_around:
  assumes "tree_order ps" "m < length ps" "k < length ps" "contains (ps ! k) (ps ! m)"
  shows "\<exists>c \<in> children ps (length ps) k. c = m \<or> contains (ps ! c) (ps ! m)"
  using assms(2,4)
proof (induction m rule: less_induct)
  case (less m)
  obtain j where j: "par ps m = Some j"
    using container_before [OF assms(1) less.prems(1) assms(3) less.prems(2)] less.prems(2) by (cases "par ps m") (auto simp: par_None)
  then have jm: "j < m" "contains (ps ! j) (ps ! m)" by (simp_all add: par_Some)
  from par_tightest [OF assms(1) less.prems(1) j assms(3) less.prems(2)] show ?case
  proof
    assume "k = j"
    with j less.prems(1) show ?case by blast
  next
    assume "contains (ps ! k) (ps ! j)"
    with less.IH [OF jm(1)] jm less.prems(1) obtain c where c: "c \<in> children ps (length ps) k" "c = j \<or> contains (ps ! c) (ps ! j)" by auto
    then have "contains (ps ! c) (ps ! m)" using jm(2) contains_trans by blast
    with c(1) show ?case by blast
  qed
qed

section \<open>Addresses\<close>

definition in_network :: "netPrefix \<Rightarrow> int \<times> byte list \<Rightarrow> bool" where
  "in_network p a \<longleftrightarrow> px_AddrFamily p = fst a \<and> px_AddrStart p \<le> snd a \<and> snd a \<le> px_AddrEnd p"

lemma contains_in: "contains p q \<Longrightarrow> in_network q a \<Longrightarrow> in_network p a"
  by (auto simp: contains_def in_network_def not_less intro: order_trans)

lemma overlap_nests:
  assumes "nested_or_apart p q" "vrfKey (px_VRFID p) = vrfKey (px_VRFID q)" "in_network p a" "in_network q a"
  shows "contains p q \<or> contains q p \<or> same_block p q"
proof -
  have "\<not> px_AddrEnd p < px_AddrStart q" "\<not> px_AddrEnd q < px_AddrStart p" using assms(3,4) by (auto simp: in_network_def)
  with assms show ?thesis by (auto simp: nested_or_apart_def contains_def same_block_def in_network_def not_less)
qed

lemma one_child:
  assumes "tree_order ps" "c \<in> children ps (length ps) k" "d \<in> children ps (length ps) k" "in_network (ps ! c) a" "in_network (ps ! d) a"
  shows "c = d"
proof (rule ccontr)
  assume ne: "c \<noteq> d"
  have c: "c < length ps" "par ps c = Some k" "k < c" "contains (ps ! k) (ps ! c)" using assms(2) by (auto simp: par_Some)
  have d: "d < length ps" "par ps d = Some k" "contains (ps ! k) (ps ! d)" using assms(3) by (auto simp: par_Some)
  have no: "\<not> contains (ps ! x) (ps ! y)" if "x < length ps" "y < length ps" "par ps y = Some k" "contains (ps ! k) (ps ! x)" for x y
    using par_tightest [OF assms(1) that(2,3,1)] that(4) contains_trans contains_irrefl by metis
  have "laminar (set ps)" "own_blocks ps" using assms(1) by (simp_all add: tree_order_def)
  then have "nested_or_apart (ps ! c) (ps ! d)" "same_block (ps ! c) (ps ! d) \<Longrightarrow> ps ! c = ps ! d"
    using c(1) d(1) by (simp_all add: laminar_def own_blocks_def)
  moreover have "vrfKey (px_VRFID (ps ! c)) = vrfKey (px_VRFID (ps ! d))" using c(4) d(3) by (simp add: contains_def)
  ultimately have "contains (ps ! c) (ps ! d) \<or> contains (ps ! d) (ps ! c) \<or> ps ! c = ps ! d"
    using overlap_nests [OF _ _ assms(4,5)] by blast
  with no [OF c(1) d(1,2) c(4)] no [OF d(1) c(1,2) d(3)] nth_same [OF assms(1) c(1) d(1)] ne show False by blast
qed

lemma children_addresses:
  assumes "tree_order ps"
  shows "(\<Sum>c \<in> children ps (length ps) k. length (filter (in_network (ps ! c)) as))
     = length (filter (\<lambda>a. \<exists>c \<in> children ps (length ps) k. in_network (ps ! c) a) as)"
proof (induction as)
  case (Cons a as)
  let ?C = "children ps (length ps) k"
  have "(\<Sum>c \<in> ?C. if in_network (ps ! c) a then 1 else 0 :: nat) = card {c \<in> ?C. in_network (ps ! c) a}"
    by (simp add: sum.If_cases Int_def)
  also have "\<dots> = (if \<exists>c \<in> ?C. in_network (ps ! c) a then 1 else 0)"
  proof (cases "\<exists>c \<in> ?C. in_network (ps ! c) a")
    case True
    then obtain c where c: "c \<in> ?C" "in_network (ps ! c) a" by blast
    have "{c \<in> ?C. in_network (ps ! c) a} = {c}" using c one_child [OF assms _ c(1) _ c(2)] by blast
    with True show ?thesis by simp
  next
    case False
    then have "{c \<in> ?C. in_network (ps ! c) a} = {}" by blast
    with False show ?thesis by (simp del: Collect_empty_eq)
  qed
  finally have one: "(\<Sum>c \<in> ?C. if in_network (ps ! c) a then 1 else 0 :: nat) = (if \<exists>c \<in> ?C. in_network (ps ! c) a then 1 else 0)" .
  have len: "length (filter (in_network (ps ! c)) (a # as)) = (if in_network (ps ! c) a then 1 else 0) + length (filter (in_network (ps ! c)) as)" for c
    by simp
  show ?case unfolding len sum.distrib one Cons.IH by auto
qed simp

lemma left_to_network:
  assumes "tree_order ps" "k < length ps"
    and "\<And>p. p \<in> set ps \<Longrightarrow> counts (px_ID p) = int (length (filter (in_network p) as))"
  shows "max 0 (counts (px_ID (ps ! k)) - (\<Sum>m \<in> children ps (length ps) k. counts (px_ID (ps ! m))))
     = int (length (filter (\<lambda>a. in_network (ps ! k) a \<and> \<not> (\<exists>q \<in> set ps. contains (ps ! k) q \<and> in_network q a)) as))"
proof -
  let ?C = "children ps (length ps) k"
  define inner where "inner a \<longleftrightarrow> (\<exists>c \<in> ?C. in_network (ps ! c) a)" for a
  have inside: "(\<exists>q \<in> set ps. contains (ps ! k) q \<and> in_network q a) \<longleftrightarrow> inner a" for a
  proof
    assume "\<exists>q \<in> set ps. contains (ps ! k) q \<and> in_network q a"
    then obtain m where "m < length ps" "contains (ps ! k) (ps ! m)" "in_network (ps ! m) a" by (auto simp: in_set_conv_nth)
    with child_around [OF assms(1) _ assms(2), of m] show "inner a" unfolding inner_def using contains_in by blast
  next
    assume "inner a"
    then show "\<exists>q \<in> set ps. contains (ps ! k) q \<and> in_network q a" by (auto simp: inner_def par_Some intro: nth_mem)
  qed
  have "inner a \<Longrightarrow> in_network (ps ! k) a" for a unfolding inside [symmetric] using contains_in by blast
  then have "length (filter (in_network (ps ! k)) as) = length (filter (\<lambda>a. in_network (ps ! k) a \<and> \<not> inner a) as) + length (filter inner as)"
    by (induction as) auto
  moreover have "(\<Sum>m \<in> ?C. counts (px_ID (ps ! m))) = int (\<Sum>m \<in> ?C. length (filter (in_network (ps ! m)) as))"
    using assms(3) by (simp add: of_nat_sum)
  then have "(\<Sum>m \<in> ?C. counts (px_ID (ps ! m))) = int (length (filter inner as))"
    unfolding children_addresses [OF assms(1)] inner_def .
  ultimately show ?thesis unfolding inside using assms(2,3) by simp
qed

section \<open>The tree\<close>

lemma parent_at:
  assumes "tree_order ps" "k < length ps" "par ps k = Some j"
  shows "ps ! j \<in> set ps \<and> contains (ps ! j) (ps ! k) \<and> (\<forall>r \<in> set ps. contains r (ps ! k) \<longrightarrow> r = ps ! j \<or> contains r (ps ! j))"
proof -
  have "r = ps ! j \<or> contains r (ps ! j)" if r: "r \<in> set ps" "contains r (ps ! k)" for r
  proof -
    from r(1) obtain m where "m < length ps" "r = ps ! m" by (auto simp: in_set_conv_nth)
    with par_tightest [OF assms, of m] r(2) show ?thesis by blast
  qed
  with assms(2,3) show ?thesis by (auto simp: par_Some)
qed

lemma no_parent_at: "tree_order ps \<Longrightarrow> k < length ps \<Longrightarrow> par ps k = None \<Longrightarrow> \<forall>r \<in> set ps. \<not> contains r (ps ! k)"
  using container_before by (fastforce simp: par_None in_set_conv_nth)

lemma card_containers:
  assumes "tree_order ps" "k < length ps"
  shows "card (containers ps k) = card {q \<in> set ps. contains q (ps ! k)}"
proof -
  have "inj_on ((!) ps) (containers ps k)" using nth_same [OF assms(1)] by (auto simp: inj_on_def containers_def)
  moreover have "((!) ps) ` containers ps k = {q \<in> set ps. contains q (ps ! k)}" by (auto simp: containers_def in_set_conv_nth)
  ultimately show ?thesis by (metis card_image)
qed

lemma children_nodes:
  assumes "tree_order ps" "k < length ps" "length nodes = length ps"
    and "\<And>m. m < length ps \<Longrightarrow> pn_ParentID (nodes ! m) = map_option (\<lambda>j. px_ID (ps ! j)) (par ps m)"
  shows "children ps (length ps) k = {m. m < length nodes \<and> pn_ParentID (nodes ! m) = Some (px_ID (ps ! k))}"
proof -
  have ids: "px_ID (ps ! i) = px_ID (ps ! j) \<longleftrightarrow> i = j" if "i < length ps" "j < length ps" for i j
    using assms(1) that by (auto simp: tree_order_def distinct_conv_nth)
  have "par ps m = Some k \<longleftrightarrow> pn_ParentID (nodes ! m) = Some (px_ID (ps ! k))" if m: "m < length ps" for m
  proof (cases "par ps m")
    case (Some j)
    then have "j < length ps" using m by (simp add: par_Some)
    with Some show ?thesis using assms(4) [OF m] ids [of j k] assms(2) by simp
  qed (use assms(4) [OF m] in simp)
  then show ?thesis using assms(3) by auto
qed

lemma sum_children:
  "(\<Sum>m \<in> {m. m < length nodes \<and> P (nodes ! m)}. f (nodes ! m)) = (sum_list (map f (filter P nodes)) :: int)"
proof -
  have "sum_list (map f (filter P nodes)) = (\<Sum>m = 0..<length nodes. if P (nodes ! m) then f (nodes ! m) else 0)"
    unfolding sum_list_map_filter' [of f P nodes] sum_list_sum_nth [of "map _ nodes"] by simp
  also have "\<dots> = (\<Sum>m \<in> {m. m < length nodes \<and> P (nodes ! m)}. f (nodes ! m))"
    by (intro sum.mono_neutral_cong_right) auto
  finally show ?thesis by simp
qed

text \<open>
  The tree of networks is right: with stored networks, no two of them the same block of one VRF, the
  tree holds every network once, each after all that contain it and followed by all inside it; its
  parent is the tightest network around it, its depth the number of networks around it, and its
  children are counted. (C14)
\<close>

theorem prefix_tree_correct:
  assumes "\<forall>p \<in> set prefixes. stored_network p" "own_blocks prefixes" "distinct (map px_ID prefixes)"
  shows "let nodes = BuildPrefixTree prefixes counts in
     mset (map pn_Prefix nodes) = mset prefixes
     \<and> (\<forall>i j. i < length nodes \<and> j < length nodes \<and> contains (pn_Prefix (nodes ! i)) (pn_Prefix (nodes ! j)) \<longrightarrow>
          i < j \<and> (\<forall>m. i < m \<and> m < j \<longrightarrow> contains (pn_Prefix (nodes ! i)) (pn_Prefix (nodes ! m))))
     \<and> (\<forall>n \<in> set nodes.
          (case pn_ParentID n of
             None \<Rightarrow> \<forall>q \<in> set prefixes. \<not> contains q (pn_Prefix n)
           | Some pid \<Rightarrow> \<exists>q \<in> set prefixes. px_ID q = pid \<and> contains q (pn_Prefix n)
               \<and> (\<forall>r \<in> set prefixes. contains r (pn_Prefix n) \<longrightarrow> r = q \<or> contains r q))
          \<and> pn_Depth n = card {q \<in> set prefixes. contains q (pn_Prefix n)}
          \<and> pn_Children n = length (filter (\<lambda>m. pn_ParentID m = Some (px_ID (pn_Prefix n))) nodes))"
proof -
  let ?ps = "go_sort prefix_less prefixes"
  define nodes where "nodes = BuildPrefixTree prefixes counts"
  have ord: "tree_order ?ps" by (rule tree_order_sorted [OF assms])
  have "laminar (set prefixes)" by (rule laminar_stored [OF assms(1)])
  note t = tree_nodes [OF this assms(3), where counts = counts, folded nodes_def]
  have pre: "pn_Prefix (nodes ! k) = ?ps ! k" if "k < length ?ps" for k using t(2) [OF that] by blast
  have "map pn_Prefix nodes = ?ps" using t(1) pre by (intro nth_equalityI) simp_all
  then have m: "mset (map pn_Prefix nodes) = mset prefixes" by (metis mset_go_sort)
  have order: "i < j \<and> (\<forall>m. i < m \<and> m < j \<longrightarrow> contains (pn_Prefix (nodes ! i)) (pn_Prefix (nodes ! m)))"
    if "i < length nodes \<and> j < length nodes \<and> contains (pn_Prefix (nodes ! i)) (pn_Prefix (nodes ! j))" for i j
    using that pre container_before [OF ord, of j i] between_positions [OF ord, of i _ j] t(1) by auto
  have one: "(case pn_ParentID n of
             None \<Rightarrow> \<forall>q \<in> set prefixes. \<not> contains q (pn_Prefix n)
           | Some pid \<Rightarrow> \<exists>q \<in> set prefixes. px_ID q = pid \<and> contains q (pn_Prefix n)
               \<and> (\<forall>r \<in> set prefixes. contains r (pn_Prefix n) \<longrightarrow> r = q \<or> contains r q))
          \<and> pn_Depth n = card {q \<in> set prefixes. contains q (pn_Prefix n)}
          \<and> pn_Children n = length (filter (\<lambda>m. pn_ParentID m = Some (px_ID (pn_Prefix n))) nodes)" if "n \<in> set nodes" for n
  proof -
    from that t(1) obtain k where k: "k < length ?ps" "n = nodes ! k" by (auto simp: in_set_conv_nth)
    note tk = t(2) [OF k(1), folded k(2)]
    have "pn_Depth (nodes ! k) = card (containers ?ps k)"
      by (rule depth_counts [OF ord k(1), where depth = "\<lambda>i. pn_Depth (nodes ! i)"]) (use t(2) in blast)
    then have "pn_Depth n = card {q \<in> set prefixes. contains q (pn_Prefix n)}"
      using card_containers [OF ord k(1)] tk k(2) by simp
    moreover have "pn_Children n = length (filter (\<lambda>m. pn_ParentID m = Some (px_ID (pn_Prefix n))) nodes)"
      using children_nodes [OF ord k(1) t(1)] t(2) tk by (simp add: length_filter_conv_card)
    moreover have "case pn_ParentID n of
             None \<Rightarrow> \<forall>q \<in> set prefixes. \<not> contains q (pn_Prefix n)
           | Some pid \<Rightarrow> \<exists>q \<in> set prefixes. px_ID q = pid \<and> contains q (pn_Prefix n)
               \<and> (\<forall>r \<in> set prefixes. contains r (pn_Prefix n) \<longrightarrow> r = q \<or> contains r q)"
      using tk no_parent_at [OF ord k(1)] parent_at [OF ord k(1)] by (cases "par ?ps k") auto
    ultimately show ?thesis by blast
  qed
  show ?thesis unfolding nodes_def [symmetric] Let_def using m order one by blast
qed

text \<open>
  The addresses counted on a network are its own: with the number of addresses in each network as
  counts, a row of the tree shows the number of addresses that lie in it and in no network inside it,
  and what it has allocated is that number and the sizes of its children. (C19)
\<close>

theorem prefix_tree_addresses:
  assumes "\<forall>p \<in> set prefixes. stored_network p" "own_blocks prefixes" "distinct (map px_ID prefixes)"
    and "\<forall>p \<in> set prefixes. counts (px_ID p) = int (length (filter (in_network p) addresses))"
    and "n \<in> set (BuildPrefixTree prefixes counts)"
  shows "pn_Addresses n = int (length (filter (\<lambda>a. in_network (pn_Prefix n) a
       \<and> \<not> (\<exists>q \<in> set prefixes. contains (pn_Prefix n) q \<and> in_network q a)) addresses))
     \<and> pn_Allocated n = pn_Addresses n
         + sum_list (map (\<lambda>m. size_of (pn_Prefix m)) (filter (\<lambda>m. pn_ParentID m = Some (px_ID (pn_Prefix n))) (BuildPrefixTree prefixes counts)))"
proof -
  let ?ps = "go_sort prefix_less prefixes" and ?nodes = "BuildPrefixTree prefixes counts"
  have ord: "tree_order ?ps" by (rule tree_order_sorted [OF assms(1-3)])
  note t = tree_nodes [OF laminar_stored [OF assms(1)] assms(3), where counts = counts]
  from assms(5) t(1) obtain k where k: "k < length ?ps" "n = ?nodes ! k" by (auto simp: in_set_conv_nth)
  note tk = t(2) [OF k(1), folded k(2)]
  have own: "pn_Addresses n = int (length (filter (\<lambda>a. in_network (pn_Prefix n) a
       \<and> \<not> (\<exists>q \<in> set prefixes. contains (pn_Prefix n) q \<and> in_network q a)) addresses))"
    using left_to_network [OF ord k(1), of counts addresses] assms(4) tk by simp
  have kids: "children ?ps (length ?ps) k = {m. m < length ?nodes \<and> pn_ParentID (?nodes ! m) = Some (px_ID (?ps ! k))}"
    using children_nodes [OF ord k(1) t(1)] t(2) by simp
  have "pn_Allocated n = (\<Sum>m \<in> children ?ps (length ?ps) k. size_of (?ps ! m)) + pn_Addresses n" "pn_Prefix n = ?ps ! k" using tk by blast+
  moreover have "(\<Sum>m \<in> children ?ps (length ?ps) k. size_of (?ps ! m)) = (\<Sum>m \<in> children ?ps (length ?ps) k. size_of (pn_Prefix (?nodes ! m)))"
    using t(2) by (intro sum.cong) auto
  ultimately have "pn_Allocated n = pn_Addresses n
      + (\<Sum>m \<in> {m. m < length ?nodes \<and> pn_ParentID (?nodes ! m) = Some (px_ID (pn_Prefix n))}. size_of (pn_Prefix (?nodes ! m)))"
    unfolding kids by simp
  moreover note own
  ultimately show ?thesis
    using sum_children [where nodes = ?nodes and f = "\<lambda>m. size_of (pn_Prefix m)" and P = "\<lambda>m. pn_ParentID m = Some (px_ID (pn_Prefix n))"] by simp
qed

end
