(* ===== verification/Addressing.thy ===== *)
theory Addressing
  imports Prefix_Tree_Props Assets
begin

text \<open>
  The networks, addresses and reservations of the store: \<open>Prefix\<close> and \<open>IPAddress\<close> of network.go of
  internal/domain with their constructors, the operations of network.go and ipranges.go of
  internal/store on them, and the constraints of the migrations that these run into. As in \<open>Assets\<close>,
  an operation reads what it needs and then runs one transaction. A byte slice with no element is the
  nil slice. The columns that a list joins in only to show them are left out.
\<close>

section \<open>Values\<close>

record ipAddress =
  ia_ID :: string
  ia_AddrText :: string
  ia_AddrFamily :: int
  ia_AddrStart :: "byte list"
  ia_InterfaceID :: "string option"
  ia_FHRPGroupID :: "string option"
  ia_Role :: string
  ia_Lifecycle :: string
  ia_CreatedAt :: "string option"
  ia_UpdatedAt :: "string option"
  ia_RowVersion :: int

definition NewPrefix :: "string \<Rightarrow> string \<Rightarrow> netPrefix result" where
  "NewPrefix i cidr =
     (case ParsePrefix cidr of
        None \<Rightarrow> Inl (ErrInvalid [(''cidr_text'', ''parsing prefix'')])
      | Some pv \<Rightarrow>
          Inr \<lparr>px_ID = i, px_CIDRText = pv_Text pv, px_AddrFamily = pv_Family pv, px_AddrStart = pv_Start pv, px_AddrEnd = pv_End pv,
               px_EnvironmentID = None, px_Role = None, px_VRFID = None, px_VLANRefID = None, px_Lifecycle = LifecycleActive,
               px_CreatedAt = None, px_UpdatedAt = None, px_RowVersion = 0\<rparr>)"

definition SetCIDR :: "string \<Rightarrow> netPrefix \<Rightarrow> netPrefix result" where
  "SetCIDR cidr p =
     (case ParsePrefix cidr of
        None \<Rightarrow> Inl (ErrInvalid [(''cidr_text'', ''parsing prefix'')])
      | Some pv \<Rightarrow>
          Inr (p\<lparr>px_CIDRText := pv_Text pv, px_AddrFamily := pv_Family pv, px_AddrStart := pv_Start pv, px_AddrEnd := pv_End pv\<rparr>))"

definition ValidatePrefix :: "netPrefix \<Rightarrow> netPrefix result" where
  "ValidatePrefix p =
     validated (if px_CIDRText p = [] \<or> px_AddrStart p = [] \<or> px_AddrEnd p = [] then [(''cidr_text'', ''a network is required'')] else []) p"

definition NewIPAddress :: "string \<Rightarrow> string \<Rightarrow> string option \<Rightarrow> string \<Rightarrow> ipAddress result" where
  "NewIPAddress i addr interfaceID role =
     (case ParseAddr addr of
        None \<Rightarrow> Inl (ErrInvalid (checkVocabulary ''role'' role @ [(''addr_text'', ''parsing address'')]))
      | Some av \<Rightarrow>
          validated (checkVocabulary ''role'' role)
            \<lparr>ia_ID = i, ia_AddrText = av_Text av, ia_AddrFamily = av_Family av, ia_AddrStart = av_Start av, ia_InterfaceID = interfaceID,
             ia_FHRPGroupID = None, ia_Role = trim_space role, ia_Lifecycle = LifecycleActive, ia_CreatedAt = None, ia_UpdatedAt = None,
             ia_RowVersion = 0\<rparr>)"

definition SetAddress :: "string \<Rightarrow> ipAddress \<Rightarrow> ipAddress result" where
  "SetAddress addr a =
     (case ParseAddr addr of
        None \<Rightarrow> Inl (ErrInvalid [(''addr_text'', ''parsing address'')])
      | Some av \<Rightarrow> Inr (a\<lparr>ia_AddrText := av_Text av, ia_AddrFamily := av_Family av, ia_AddrStart := av_Start av\<rparr>))"

definition ValidateAddress :: "ipAddress \<Rightarrow> ipAddress result" where
  "ValidateAddress a =
     validated
       (checkVocabulary ''role'' (ia_Role a)
        @ (if ia_AddrText a = [] \<or> ia_AddrStart a = [] then [(''addr_text'', ''an address is required'')] else []))
       (a\<lparr>ia_Role := trim_space (ia_Role a)\<rparr>)"

section \<open>State\<close>

text \<open>
  Beside the inventory: the tables of networks, addresses and reservations, the codes of the table of
  address roles, the ids of VRFs and VLANs, the address and the lifecycle of every endpoint, and the
  lifecycle of every environment.
\<close>

record addressing =
  ad_inventory :: inventory
  ad_prefixes :: "netPrefix list"
  ad_addresses :: "ipAddress list"
  ad_ranges :: "ipRange list"
  ad_ipRoles :: "string list"
  ad_vrfs :: "string list"
  ad_vlans :: "string list"
  ad_endpoints :: "(string option \<times> string) list"
  ad_environments :: "(string \<times> string) list"

definition live_prefix :: "netPrefix \<Rightarrow> bool" where "live_prefix p \<longleftrightarrow> px_Lifecycle p \<noteq> LifecycleRetired"
definition live_address :: "ipAddress \<Rightarrow> bool" where "live_address a \<longleftrightarrow> ia_Lifecycle a \<noteq> LifecycleRetired"
definition live_range :: "ipRange \<Rightarrow> bool" where "live_range r \<longleftrightarrow> rg_Lifecycle r \<noteq> LifecycleRetired"

definition log_addressing :: "(changeLog list \<Rightarrow> changeLog list result) \<Rightarrow> addressing \<Rightarrow> addressing result" where
  "log_addressing f db = bind_result (log_inventory f (ad_inventory db)) (\<lambda>iv. Inr (db\<lparr>ad_inventory := iv\<rparr>))"

definition index_addressing :: "searchDoc \<Rightarrow> addressing \<Rightarrow> addressing" where
  "index_addressing doc db =
     db\<lparr>ad_inventory := (ad_inventory db)\<lparr>iv_estate := indexEntity doc (iv_estate (ad_inventory db))\<rparr>\<rparr>"

definition derefString :: "string option \<Rightarrow> string" where
  "derefString v = (case v of None \<Rightarrow> [] | Some s \<Rightarrow> s)"

text \<open>A byte slice is recorded as a text of its bytes, which JSON encodes.\<close>

definition bytes_column :: "byte list \<Rightarrow> column_value" where
  "bytes_column bs = VText (map (\<lambda>b. char_of (unat b)) bs)"

definition address_row :: "ipAddress \<Rightarrow> audited" where
  "address_row a =
     \<lparr>au_type = ''IPAddress'',
      au_fields = map (\<lambda>(tag, v). (''IPAddress'', tag, v))
        [(''id'', VText (ia_ID a)), (''addr_text'', VText (ia_AddrText a)), (''addr_family'', VInt (ia_AddrFamily a)),
         (''addr_start'', bytes_column (ia_AddrStart a)), (''interface_id'', opt_text (ia_InterfaceID a)),
         (''fhrp_group_id'', opt_text (ia_FHRPGroupID a)), (''role'', VText (ia_Role a)), (''lifecycle'', VText (ia_Lifecycle a)),
         (''created_at'', opt_text (ia_CreatedAt a)), (''updated_at'', opt_text (ia_UpdatedAt a)),
         (''row_version'', VInt (ia_RowVersion a))]\<rparr>"

definition prefix_row :: "netPrefix \<Rightarrow> audited" where
  "prefix_row p =
     \<lparr>au_type = ''Prefix'',
      au_fields = map (\<lambda>(tag, v). (''Prefix'', tag, v))
        [(''id'', VText (px_ID p)), (''cidr_text'', VText (px_CIDRText p)), (''addr_family'', VInt (px_AddrFamily p)),
         (''addr_start'', bytes_column (px_AddrStart p)), (''addr_end'', bytes_column (px_AddrEnd p)),
         (''environment_id'', opt_text (px_EnvironmentID p)), (''role'', opt_text (px_Role p)), (''vrf_id'', opt_text (px_VRFID p)),
         (''vlan_ref_id'', opt_text (px_VLANRefID p)), (''lifecycle'', VText (px_Lifecycle p)),
         (''created_at'', opt_text (px_CreatedAt p)), (''updated_at'', opt_text (px_UpdatedAt p)),
         (''row_version'', VInt (px_RowVersion p))]\<rparr>"

definition range_row :: "ipRange \<Rightarrow> audited" where
  "range_row r =
     \<lparr>au_type = ''IPRange'',
      au_fields = map (\<lambda>(tag, v). (''IPRange'', tag, v))
        [(''id'', VText (rg_ID r)), (''start_text'', VText (rg_StartText r)), (''end_text'', VText (rg_EndText r)),
         (''addr_family'', VInt (rg_AddrFamily r)), (''addr_start'', bytes_column (rg_AddrStart r)),
         (''addr_end'', bytes_column (rg_AddrEnd r)), (''vrf_id'', opt_text (rg_VRFID r)), (''role'', opt_text (rg_Role r)),
         (''description'', opt_text (rg_Description r)), (''lifecycle'', VText (rg_Lifecycle r)),
         (''created_at'', opt_text (rg_CreatedAt r)), (''updated_at'', opt_text (rg_UpdatedAt r)),
         (''row_version'', VInt (rg_RowVersion r))]\<rparr>"

section \<open>Rows\<close>

text \<open>
  The three tables share one shape of statement: an INSERT, and an UPDATE of the row with a given id
  and version, each subject to NOT NULL columns, CHECKs, unique indexes and foreign keys.
\<close>

definition insert_row ::
  "('r \<Rightarrow> bool) \<Rightarrow> ('r \<Rightarrow> bool) \<Rightarrow> ('r \<Rightarrow> 'r \<Rightarrow> bool) \<Rightarrow> ('r \<Rightarrow> bool) \<Rightarrow> 'r \<Rightarrow> 'r list \<Rightarrow> 'r list result" where
  "insert_row filled checks clash refs r rows =
     bind_result (require (filled r) ErrDriver) (\<lambda>_.
     bind_result (require (checks r) (ErrInvalid [])) (\<lambda>_.
     bind_result (require (list_all (\<lambda>q. \<not> clash r q) rows) ErrConflict) (\<lambda>_.
     bind_result (require (refs r) (ErrInvalid [])) (\<lambda>_. Inr (rows @ [r])))))"

definition update_row ::
  "('r \<Rightarrow> bool) \<Rightarrow> ('r \<Rightarrow> bool) \<Rightarrow> ('r \<Rightarrow> 'r \<Rightarrow> bool) \<Rightarrow> ('r \<Rightarrow> bool) \<Rightarrow> ('r \<Rightarrow> bool) \<Rightarrow> ('r \<Rightarrow> 'r) \<Rightarrow> 'r list \<Rightarrow> 'r list result" where
  "update_row filled checks clash refs hit f rows =
     (case find hit rows of
        None \<Rightarrow> Inl ErrStale
      | Some q \<Rightarrow>
          bind_result (require (filled (f q)) ErrDriver) (\<lambda>_.
          bind_result (require (checks (f q)) (ErrInvalid [])) (\<lambda>_.
          bind_result (require (list_all (\<lambda>r. hit r \<or> \<not> clash (f q) r) rows) ErrConflict) (\<lambda>_.
          bind_result (require (refs (f q)) (ErrInvalid [])) (\<lambda>_. Inr (update_where hit f rows))))))"

definition life_check :: "string \<Rightarrow> bool" where "life_check l \<longleftrightarrow> oneOf l [LifecycleActive, LifecycleRetired]"
definition family_check :: "int \<Rightarrow> bool" where "family_check f \<longleftrightarrow> f = 4 \<or> f = 6"

text \<open>The unique index on addresses does not look at the lifecycle, those on networks and reservations do.\<close>

definition address_clash :: "ipAddress \<Rightarrow> ipAddress \<Rightarrow> bool" where
  "address_clash a b \<longleftrightarrow>
     ia_ID a = ia_ID b \<or> ia_AddrText a = ia_AddrText b \<and> ia_InterfaceID a \<noteq> None \<and> ia_InterfaceID a = ia_InterfaceID b"

definition prefix_clash :: "netPrefix \<Rightarrow> netPrefix \<Rightarrow> bool" where
  "prefix_clash p q \<longleftrightarrow>
     px_ID p = px_ID q
     \<or> px_Lifecycle p = LifecycleActive \<and> px_Lifecycle q = LifecycleActive \<and> px_VRFID p = px_VRFID q \<and> px_CIDRText p = px_CIDRText q"

definition range_clash :: "ipRange \<Rightarrow> ipRange \<Rightarrow> bool" where
  "range_clash r s \<longleftrightarrow>
     rg_ID r = rg_ID s
     \<or> live_range r \<and> live_range s \<and> rg_VRFID r = rg_VRFID s \<and> rg_AddrStart r = rg_AddrStart s \<and> rg_AddrEnd r = rg_AddrEnd s"

definition address_filled :: "ipAddress \<Rightarrow> bool" where "address_filled a \<longleftrightarrow> ia_AddrStart a \<noteq> []"
definition address_checks :: "ipAddress \<Rightarrow> bool" where
  "address_checks a \<longleftrightarrow> family_check (ia_AddrFamily a) \<and> life_check (ia_Lifecycle a)"
definition address_refs :: "addressing \<Rightarrow> ipAddress \<Rightarrow> bool" where
  "address_refs db a \<longleftrightarrow>
     known_or_null (map if_ID (iv_interfaces (ad_inventory db))) (ia_InterfaceID a) \<and> List.member (ad_ipRoles db) (ia_Role a)"

definition prefix_filled :: "netPrefix \<Rightarrow> bool" where "prefix_filled p \<longleftrightarrow> px_AddrStart p \<noteq> [] \<and> px_AddrEnd p \<noteq> []"
definition prefix_checks :: "netPrefix \<Rightarrow> bool" where
  "prefix_checks p \<longleftrightarrow> family_check (px_AddrFamily p) \<and> life_check (px_Lifecycle p)"
definition prefix_refs :: "addressing \<Rightarrow> netPrefix \<Rightarrow> bool" where
  "prefix_refs db p \<longleftrightarrow>
     known_or_null (map fst (ad_environments db)) (px_EnvironmentID p) \<and> known_or_null (ad_vrfs db) (px_VRFID p)
     \<and> known_or_null (ad_vlans db) (px_VLANRefID p)"

definition range_filled :: "ipRange \<Rightarrow> bool" where "range_filled r \<longleftrightarrow> rg_AddrStart r \<noteq> [] \<and> rg_AddrEnd r \<noteq> []"
definition range_checks :: "ipRange \<Rightarrow> bool" where
  "range_checks r \<longleftrightarrow> family_check (rg_AddrFamily r) \<and> life_check (rg_Lifecycle r)"
definition range_refs :: "addressing \<Rightarrow> ipRange \<Rightarrow> bool" where
  "range_refs db r \<longleftrightarrow> known_or_null (ad_vrfs db) (rg_VRFID r)"

definition insert_address :: "ipAddress \<Rightarrow> addressing \<Rightarrow> addressing result" where
  "insert_address a db =
     bind_result (insert_row address_filled address_checks address_clash (address_refs db) a (ad_addresses db))
       (\<lambda>rows. Inr (db\<lparr>ad_addresses := rows\<rparr>))"

definition update_address :: "string \<Rightarrow> int \<Rightarrow> (ipAddress \<Rightarrow> ipAddress) \<Rightarrow> addressing \<Rightarrow> addressing result" where
  "update_address i version f db =
     bind_result (update_row address_filled address_checks address_clash (address_refs db)
         (\<lambda>a. ia_ID a = i \<and> ia_RowVersion a = version) f (ad_addresses db))
       (\<lambda>rows. Inr (db\<lparr>ad_addresses := rows\<rparr>))"

definition insert_prefix :: "netPrefix \<Rightarrow> addressing \<Rightarrow> addressing result" where
  "insert_prefix p db =
     bind_result (insert_row prefix_filled prefix_checks prefix_clash (prefix_refs db) p (ad_prefixes db))
       (\<lambda>rows. Inr (db\<lparr>ad_prefixes := rows\<rparr>))"

definition update_prefix :: "string \<Rightarrow> int \<Rightarrow> (netPrefix \<Rightarrow> netPrefix) \<Rightarrow> addressing \<Rightarrow> addressing result" where
  "update_prefix i version f db =
     bind_result (update_row prefix_filled prefix_checks prefix_clash (prefix_refs db)
         (\<lambda>p. px_ID p = i \<and> px_RowVersion p = version) f (ad_prefixes db))
       (\<lambda>rows. Inr (db\<lparr>ad_prefixes := rows\<rparr>))"

definition insert_range :: "ipRange \<Rightarrow> addressing \<Rightarrow> addressing result" where
  "insert_range r db =
     bind_result (insert_row range_filled range_checks range_clash (range_refs db) r (ad_ranges db))
       (\<lambda>rows. Inr (db\<lparr>ad_ranges := rows\<rparr>))"

definition update_range :: "string \<Rightarrow> int \<Rightarrow> (ipRange \<Rightarrow> ipRange) \<Rightarrow> addressing \<Rightarrow> addressing result" where
  "update_range i version f db =
     bind_result (update_row range_filled range_checks range_clash (range_refs db)
         (\<lambda>r. rg_ID r = i \<and> rg_RowVersion r = version) f (ad_ranges db))
       (\<lambda>rows. Inr (db\<lparr>ad_ranges := rows\<rparr>))"

section \<open>Addresses\<close>

definition GetInterface :: "addressing \<Rightarrow> string \<Rightarrow> iface result" where
  "GetInterface db i =
     (case find (\<lambda>f. if_ID f = i) (iv_interfaces (ad_inventory db)) of None \<Rightarrow> Inl ErrNotFound | Some f \<Rightarrow> Inr f)"

definition interface_owner :: "addressing \<Rightarrow> string \<Rightarrow> string result" where
  "interface_owner db i = bind_result (GetInterface db i) (\<lambda>f. Inr (if_AssetID f))"

definition GetIPAddress :: "addressing \<Rightarrow> string \<Rightarrow> ipAddress result" where
  "GetIPAddress db i = (case find (\<lambda>a. ia_ID a = i) (ad_addresses db) of None \<Rightarrow> Inl ErrNotFound | Some a \<Rightarrow> Inr a)"

text \<open>The INSERT names neither the lifecycle nor the group nor the version, so their defaults are stored.\<close>

definition CreateIPAddress :: "permit \<Rightarrow> string \<Rightarrow> ipAddress \<Rightarrow> addressing \<Rightarrow> addressing result" where
  "CreateIPAddress p now a0 db =
     (let a = a0\<lparr>ia_RowVersion := 1, ia_CreatedAt := Some now, ia_UpdatedAt := Some now\<rparr> in
      bind_result (authorizeAddressSubject (interface_owner db) p (ia_InterfaceID a) (ia_ID a)) (\<lambda>addrPermit.
        writeTx (Some addrPermit) now (\<lambda>t db.
          bind_result (requireVocabulary (ad_ipRoles db) ''role'' (ia_Role a)) (\<lambda>_.
          bind_result (insert_address (a\<lparr>ia_Lifecycle := LifecycleActive, ia_FHRPGroupID := None\<rparr>) db)
            (log_addressing (logCreate t ''ip_address'' (ia_ID a) (address_row a))))) db))"

definition UpdateIPAddress :: "permit \<Rightarrow> string \<Rightarrow> ipAddress \<Rightarrow> addressing \<Rightarrow> addressing result" where
  "UpdateIPAddress p now a0 db =
     bind_result (ValidateAddress a0) (\<lambda>a1.
     bind_result (GetIPAddress db (ia_ID a1)) (\<lambda>before.
       let a = a1\<lparr>ia_InterfaceID := ia_InterfaceID before, ia_UpdatedAt := Some now\<rparr> in
       bind_result (authorizeAddressSubject (interface_owner db) p (ia_InterfaceID before) (ia_ID a)) (\<lambda>addrPermit.
         writeTx (Some addrPermit) now (\<lambda>t db.
           bind_result (requireVocabulary (ad_ipRoles db) ''role'' (ia_Role a)) (\<lambda>_.
           bind_result (update_address (ia_ID a) (ia_RowVersion a)
               (\<lambda>r. r\<lparr>ia_AddrText := ia_AddrText a, ia_AddrFamily := ia_AddrFamily a, ia_AddrStart := ia_AddrStart a,
                      ia_Role := ia_Role a, ia_UpdatedAt := Some now, ia_RowVersion := ia_RowVersion r + 1\<rparr>) db)
             (log_addressing (logUpdate t ''ip_address'' (ia_ID a) (address_row before)
               (address_row (a\<lparr>ia_RowVersion := ia_RowVersion a + 1\<rparr>)))))) db)))"

definition retire_address_tx :: "permit \<Rightarrow> string \<Rightarrow> ipAddress \<Rightarrow> string \<Rightarrow> addressing \<Rightarrow> addressing result" where
  "retire_address_tx addrPermit now before i =
     writeTx (Some addrPermit) now (\<lambda>t db.
       if ia_FHRPGroupID before \<noteq> None then Inl ErrConflict
       else if list_ex (\<lambda>(bound, life). bound = Some i \<and> life \<noteq> LifecycleRetired) (ad_endpoints db) then Inl ErrConflict
       else
         bind_result (update_address i (ia_RowVersion before)
             (\<lambda>r. r\<lparr>ia_Lifecycle := LifecycleRetired, ia_UpdatedAt := Some now, ia_RowVersion := ia_RowVersion r + 1\<rparr>) db)
           (log_addressing (logUpdate t ''ip_address'' i (address_row before)
             (address_row (before\<lparr>ia_Lifecycle := LifecycleRetired, ia_UpdatedAt := Some now\<rparr>)))))"

definition RetireIPAddress :: "permit \<Rightarrow> string \<Rightarrow> string \<Rightarrow> addressing \<Rightarrow> addressing result" where
  "RetireIPAddress p now i db =
     bind_result (GetIPAddress db i) (\<lambda>before.
     bind_result (authorizeAddressSubject (interface_owner db) p (ia_InterfaceID before) i) (\<lambda>addrPermit.
       if ia_Lifecycle before = LifecycleRetired then Inr db
       else retire_address_tx addrPermit now before i db))"

section \<open>Reservations\<close>

definition GetIPRange :: "addressing \<Rightarrow> string \<Rightarrow> ipRange result" where
  "GetIPRange db i = (case find (\<lambda>r. rg_ID r = i) (ad_ranges db) of None \<Rightarrow> Inl ErrNotFound | Some r \<Rightarrow> Inr r)"

text \<open>The title has an en dash between the bounds, three bytes in UTF-8.\<close>

definition en_dash :: string where
  "en_dash = map char_of [226 :: nat, 128, 147]"

definition range_doc :: "ipRange \<Rightarrow> searchDoc" where
  "range_doc r =
     \<lparr>sd_EntityType = ''ip_range'', sd_EntityID = rg_ID r, sd_Title = rg_StartText r @ '' '' @ en_dash @ '' '' @ rg_EndText r,
      sd_Subtitle = derefString (rg_Role r), sd_Body = rg_StartText r @ '' '' @ rg_EndText r\<rparr>"

definition range_before :: "ipRange \<Rightarrow> ipRange \<Rightarrow> bool" where
  "range_before a b =
     (if rg_AddrFamily a \<noteq> rg_AddrFamily b then rg_AddrFamily a < rg_AddrFamily b
      else if rg_AddrStart a \<noteq> rg_AddrStart b then rg_AddrStart a < rg_AddrStart b
      else rg_AddrEnd a < rg_AddrEnd b)"

definition ListIPRanges :: "addressing \<Rightarrow> ipRange list" where
  "ListIPRanges db = go_sort range_before (filter live_range (ad_ranges db))"

definition CreateIPRange :: "permit option \<Rightarrow> string \<Rightarrow> ipRange \<Rightarrow> addressing \<Rightarrow> addressing result" where
  "CreateIPRange p now r0 db =
     bind_result (ValidateRange r0) (\<lambda>r1.
       let r = r1\<lparr>rg_RowVersion := 1, rg_CreatedAt := Some now, rg_UpdatedAt := Some now\<rparr> in
       writeTx p now (\<lambda>t db.
         bind_result (insert_range r db) (\<lambda>db1.
         bind_result (log_addressing (logCreate t ''ip_range'' (rg_ID r) (range_row r)) db1) (\<lambda>db2.
           Inr (index_addressing (range_doc r) db2)))) db)"

definition UpdateIPRange :: "permit option \<Rightarrow> string \<Rightarrow> ipRange \<Rightarrow> addressing \<Rightarrow> addressing result" where
  "UpdateIPRange p now r0 db =
     bind_result (ValidateRange r0) (\<lambda>r1.
     bind_result (GetIPRange db (rg_ID r1)) (\<lambda>before.
       let r = r1\<lparr>rg_UpdatedAt := Some now\<rparr> in
       writeTx p now (\<lambda>t db.
         bind_result (update_range (rg_ID r) (rg_RowVersion r)
             (\<lambda>q. q\<lparr>rg_StartText := rg_StartText r, rg_EndText := rg_EndText r, rg_AddrFamily := rg_AddrFamily r,
                    rg_AddrStart := rg_AddrStart r, rg_AddrEnd := rg_AddrEnd r, rg_VRFID := rg_VRFID r, rg_Role := rg_Role r,
                    rg_Description := rg_Description r, rg_UpdatedAt := Some now, rg_RowVersion := rg_RowVersion q + 1\<rparr>) db) (\<lambda>db1.
         bind_result (log_addressing (logUpdate t ''ip_range'' (rg_ID r) (range_row before)
             (range_row (r\<lparr>rg_RowVersion := rg_RowVersion r + 1\<rparr>))) db1) (\<lambda>db2.
           Inr (index_addressing (range_doc r) db2)))) db))"

definition RetireIPRange :: "permit option \<Rightarrow> string \<Rightarrow> string \<Rightarrow> addressing \<Rightarrow> addressing result" where
  "RetireIPRange p now i db =
     bind_result (GetIPRange db i) (\<lambda>before.
       if rg_Lifecycle before = LifecycleRetired then Inr db
       else
         writeTx p now (\<lambda>t db.
           bind_result (update_range i (rg_RowVersion before)
               (\<lambda>q. q\<lparr>rg_Lifecycle := LifecycleRetired, rg_UpdatedAt := Some now, rg_RowVersion := rg_RowVersion q + 1\<rparr>) db)
             (log_addressing (logUpdate t ''ip_range'' i (range_row before)
               (range_row (before\<lparr>rg_Lifecycle := LifecycleRetired, rg_UpdatedAt := Some now\<rparr>))))) db)"

section \<open>Networks\<close>

definition GetPrefix :: "addressing \<Rightarrow> string \<Rightarrow> netPrefix result" where
  "GetPrefix db i = (case find (\<lambda>p. px_ID p = i) (ad_prefixes db) of None \<Rightarrow> Inl ErrNotFound | Some p \<Rightarrow> Inr p)"

definition requireAssignableEnvironment :: "addressing \<Rightarrow> string \<Rightarrow> string option \<Rightarrow> string option \<Rightarrow> unit result" where
  "requireAssignableEnvironment db field new_id current =
     (case new_id of
        None \<Rightarrow> Inr ()
      | Some e \<Rightarrow>
          if e = [] \<or> current = Some e then Inr ()
          else
            (case map_of (ad_environments db) e of
               None \<Rightarrow> Inl (ErrInvalid [(field, ''choose an environment'')])
             | Some life \<Rightarrow>
                 require (life \<noteq> LifecycleRetired) (ErrInvalid [(field, ''that environment has been withdrawn'')])))"

definition prefix_doc :: "netPrefix \<Rightarrow> searchDoc" where
  "prefix_doc p =
     \<lparr>sd_EntityType = ''prefix'', sd_EntityID = px_ID p, sd_Title = px_CIDRText p, sd_Subtitle = derefString (px_Role p),
      sd_Body = px_CIDRText p\<rparr>"

definition CreatePrefix :: "permit option \<Rightarrow> string \<Rightarrow> netPrefix \<Rightarrow> addressing \<Rightarrow> addressing result" where
  "CreatePrefix permit now p0 =
     (let p = p0\<lparr>px_RowVersion := 1, px_CreatedAt := Some now, px_UpdatedAt := Some now\<rparr> in
      writeTx permit now (\<lambda>t db.
        bind_result (requireAssignableEnvironment db ''environment_id'' (px_EnvironmentID p) None) (\<lambda>_.
        bind_result (insert_prefix (p\<lparr>px_Lifecycle := LifecycleActive, px_VRFID := None\<rparr>) db) (\<lambda>db1.
        bind_result (log_addressing (logCreate t ''prefix'' (px_ID p) (prefix_row p)) db1) (\<lambda>db2.
          Inr (index_addressing (prefix_doc p) db2))))))"

definition UpdatePrefix :: "permit option \<Rightarrow> string \<Rightarrow> netPrefix \<Rightarrow> addressing \<Rightarrow> addressing result" where
  "UpdatePrefix permit now p0 db =
     bind_result (ValidatePrefix p0) (\<lambda>p1.
     bind_result (GetPrefix db (px_ID p1)) (\<lambda>before.
       let p = p1\<lparr>px_UpdatedAt := Some now\<rparr> in
       writeTx permit now (\<lambda>t db.
         bind_result (requireAssignableEnvironment db ''environment_id'' (px_EnvironmentID p) (px_EnvironmentID before)) (\<lambda>_.
         bind_result (update_prefix (px_ID p) (px_RowVersion p)
             (\<lambda>q. q\<lparr>px_CIDRText := px_CIDRText p, px_AddrFamily := px_AddrFamily p, px_AddrStart := px_AddrStart p,
                    px_AddrEnd := px_AddrEnd p, px_VLANRefID := px_VLANRefID p, px_EnvironmentID := px_EnvironmentID p,
                    px_Role := px_Role p, px_UpdatedAt := Some now, px_RowVersion := px_RowVersion q + 1\<rparr>) db) (\<lambda>db1.
         bind_result (log_addressing (logUpdate t ''prefix'' (px_ID p) (prefix_row before)
             (prefix_row (p\<lparr>px_RowVersion := px_RowVersion p + 1\<rparr>))) db1) (\<lambda>db2.
           Inr (index_addressing (prefix_doc p) db2))))) db))"

section \<open>The page of networks\<close>

definition addr_of_row :: "ipAddress \<Rightarrow> int \<times> byte list" where
  "addr_of_row a = (ia_AddrFamily a, ia_AddrStart a)"

definition AddressCount :: "addressing \<Rightarrow> netPrefix \<Rightarrow> int" where
  "AddressCount db p =
     int (length (filter (\<lambda>a. ia_AddrFamily a = px_AddrFamily p \<and> px_AddrStart p \<le> ia_AddrStart a \<and> ia_AddrStart a \<le> px_AddrEnd p
       \<and> live_address a) (ad_addresses db)))"

definition listed_before :: "netPrefix \<Rightarrow> netPrefix \<Rightarrow> bool" where
  "listed_before a b =
     (if px_AddrFamily a \<noteq> px_AddrFamily b then px_AddrFamily a < px_AddrFamily b
      else if px_AddrStart a \<noteq> px_AddrStart b then px_AddrStart a < px_AddrStart b
      else px_AddrEnd b < px_AddrEnd a)"

definition ListPrefixes :: "addressing \<Rightarrow> (netPrefix \<times> int) list" where
  "ListPrefixes db = map (\<lambda>p. (p, AddressCount db p)) (go_sort listed_before (filter live_prefix (ad_prefixes db)))"

definition range_span :: "ipRange \<Rightarrow> addrSpan" where
  "range_span r = \<lparr>sp_Start = rg_AddrStart r, sp_End = rg_AddrEnd r\<rparr>"

definition prefix_span :: "netPrefix \<Rightarrow> addrSpan" where
  "prefix_span p = \<lparr>sp_Start = px_AddrStart p, sp_End = px_AddrEnd p\<rparr>"

text \<open>The map of \<open>allocationSpans\<close>, by family.\<close>

definition allocationSpans :: "addressing \<Rightarrow> int \<Rightarrow> addrSpan list" where
  "allocationSpans db family =
     go_sort (\<lambda>a b. sp_Start a < sp_Start b)
       (map range_span (filter (\<lambda>r. live_range r \<and> rg_AddrFamily r = family) (ad_ranges db))
        @ map (\<lambda>a. SpanOf (ia_AddrStart a)) (filter (\<lambda>a. live_address a \<and> ia_AddrFamily a = family) (ad_addresses db)))"

fun step_back :: "addrSpan list \<Rightarrow> byte list \<Rightarrow> nat \<Rightarrow> nat" where
  "step_back spans start 0 = 0"
| "step_back spans start (Suc i) = (if \<not> sp_End (spans ! i) < start then step_back spans start i else Suc i)"

text \<open>\<open>sort.Search\<close> on a sorted slice gives the first index whose span does not start earlier.\<close>

definition within :: "(int \<Rightarrow> addrSpan list) \<Rightarrow> int \<Rightarrow> byte list \<Rightarrow> byte list \<Rightarrow> addrSpan list" where
  "within byFamily family start stop =
     (let spans = byFamily family;
          i = step_back spans start (length (takeWhile (\<lambda>s. sp_Start s < start) spans))
      in filter (\<lambda>s. \<not> sp_End s < start) (takeWhile (\<lambda>s. \<not> stop < sp_Start s) (drop i spans)))"

text \<open>A row of the page: the node and the next free address.\<close>

definition ListPrefixTree :: "addressing \<Rightarrow> (prefixNode \<times> string option) list" where
  "ListPrefixTree db =
     (let rows = ListPrefixes db;
          counts = fold (\<lambda>(p, n) m. m(px_ID p := n)) rows (\<lambda>_. 0);
          nodes = BuildPrefixTree (map fst rows) counts;
          childSpans = (\<lambda>i. map (\<lambda>c. prefix_span (pn_Prefix c)) (filter (\<lambda>c. pn_ParentID c = Some i) nodes))
      in map (\<lambda>n.
           let p = pn_Prefix n in
           (n, FirstFreeAddress (px_CIDRText p)
             (within (allocationSpans db) (px_AddrFamily p) (px_AddrStart p) (px_AddrEnd p) @ childSpans (px_ID p)))) nodes)"

definition overlapping :: "netPrefix \<Rightarrow> ipRange \<Rightarrow> bool" where
  "overlapping p r \<longleftrightarrow>
     rg_AddrFamily r = px_AddrFamily p \<and> live_range r \<and> \<not> rg_AddrEnd r < px_AddrStart p \<and> \<not> px_AddrEnd p < rg_AddrStart r
     \<and> derefString (rg_VRFID r) = derefString (px_VRFID p)"

definition retire_prefix_tx :: "permit option \<Rightarrow> string \<Rightarrow> netPrefix \<Rightarrow> string \<Rightarrow> addressing \<Rightarrow> addressing result" where
  "retire_prefix_tx permit now before i =
     writeTx permit now (\<lambda>t db.
       if list_ex (overlapping before) (ad_ranges db) then Inl ErrConflict
       else
         bind_result (update_prefix i (px_RowVersion before)
             (\<lambda>q. q\<lparr>px_Lifecycle := LifecycleRetired, px_UpdatedAt := Some now, px_RowVersion := px_RowVersion q + 1\<rparr>) db)
           (log_addressing (logUpdate t ''prefix'' i (prefix_row before)
             (prefix_row (before\<lparr>px_Lifecycle := LifecycleRetired, px_UpdatedAt := Some now\<rparr>)))))"

definition RetirePrefix :: "permit option \<Rightarrow> string \<Rightarrow> string \<Rightarrow> addressing \<Rightarrow> addressing result" where
  "RetirePrefix permit now i db =
     bind_result (GetPrefix db i) (\<lambda>before.
       if px_Lifecycle before = LifecycleRetired then Inr db
       else
         (case find (\<lambda>(n, _). px_ID (pn_Prefix n) = i) (ListPrefixTree db) of
            None \<Rightarrow> Inl ErrConflict
          | Some (n, _) \<Rightarrow>
              if 0 < pn_Children n then Inl ErrConflict
              else if 0 < pn_Addresses n then Inl ErrConflict
              else retire_prefix_tx permit now before i db))"

definition narrower :: "netPrefix \<Rightarrow> netPrefix \<Rightarrow> bool" where
  "narrower a b =
     (if px_AddrStart a \<noteq> px_AddrStart b then px_AddrStart b < px_AddrStart a else px_AddrEnd a < px_AddrEnd b)"

definition ResolveAddress :: "addressing \<Rightarrow> string \<Rightarrow> netPrefix result" where
  "ResolveAddress db addr =
     (case ParseAddr addr of
        None \<Rightarrow> Inl ErrDriver
      | Some av \<Rightarrow>
          (case go_sort narrower
                  (filter (\<lambda>p. px_AddrFamily p = av_Family av \<and> px_AddrStart p \<le> av_Start av \<and> av_Start av \<le> px_AddrEnd p \<and> live_prefix p)
                    (ad_prefixes db)) of
             [] \<Rightarrow> Inl ErrNotFound
           | p # _ \<Rightarrow> Inr p))"

definition NextFreeAddress :: "addressing \<Rightarrow> string \<Rightarrow> string option result" where
  "NextFreeAddress db prefixID =
     bind_result (GetPrefix db prefixID) (\<lambda>p.
       let children = filter (\<lambda>c. px_AddrFamily c = px_AddrFamily p \<and> px_ID c \<noteq> px_ID p \<and> px_AddrStart p \<le> px_AddrStart c
             \<and> px_AddrEnd c \<le> px_AddrEnd p \<and> derefString (px_VRFID c) = derefString (px_VRFID p)) (ad_prefixes db);
           ranges = filter (overlapping p) (ad_ranges db);
           addrs = filter (\<lambda>a. ia_AddrFamily a = px_AddrFamily p \<and> px_AddrStart p \<le> ia_AddrStart a \<and> ia_AddrStart a \<le> px_AddrEnd p
             \<and> live_address a) (ad_addresses db)
       in Inr (FirstFreeAddress (px_CIDRText p)
            (map prefix_span children @ map range_span ranges @ map (\<lambda>a. SpanOf (ia_AddrStart a)) addrs)))"

end
