(* ===== verification/Addressing_Props.thy ===== *)
theory Addressing_Props
  imports Addressing Assets_Effects
begin

text \<open>
  The tables of addresses, networks and reservations: every operation keeps the text of a row and its
  bytes in agreement and the live networks distinct, so the facts on the tree apply to the stored
  rows; what withdrawing a network requires, which network an address resolves to, and which address
  is offered next.
\<close>

section \<open>Tables with unique indexes\<close>

text \<open>
  What an INSERT or a versioned UPDATE keeps of a table whose rows do not clash. Two rows with the
  same key clash, so at most one row is hit.
\<close>

definition no_clash :: "('r \<Rightarrow> 'r \<Rightarrow> bool) \<Rightarrow> 'r list \<Rightarrow> bool" where
  "no_clash clash rows \<longleftrightarrow> sorted_wrt (\<lambda>r q. \<not> clash r q) rows"

locale unique_table =
  fixes clash :: "'r \<Rightarrow> 'r \<Rightarrow> bool" and key :: "'r \<Rightarrow> 'k"
  assumes clash_sym: "clash r q = clash q r" and key_clash: "key r = key q \<Longrightarrow> clash r q"
begin

lemma insert_free:
  assumes "insert_row filled checks clash refs r rows = Inr rows'" "no_clash clash rows"
  shows "no_clash clash rows'" and "(\<And>q. q \<in> set rows \<Longrightarrow> P q) \<Longrightarrow> (checks r \<Longrightarrow> P r) \<Longrightarrow> \<forall>q \<in> set rows'. P q"
  using assms by (auto simp: insert_row_def no_clash_def sorted_wrt_append list_all_iff clash_sym)

lemma update_split:
  assumes "update_row filled checks clash refs hit f rows = Inr rows'" "no_clash clash rows" "\<And>r q. hit r \<Longrightarrow> hit q \<Longrightarrow> key r = key q"
  obtains xs q ys where "rows = xs @ q # ys" "hit q" "rows' = xs @ f q # ys" "no_clash clash rows'" "checks (f q)"
proof -
  from assms(1) obtain q where q: "find hit rows = Some q" "checks (f q)" "list_all (\<lambda>r. hit r \<or> \<not> clash (f q) r) rows"
    "rows' = update_where hit f rows" by (auto simp: update_row_def split: option.splits)
  from q(1) have hq: "hit q" "q \<in> set rows" by (auto simp: find_Some_iff)
  from hq(2) obtain xs ys where rows: "rows = xs @ q # ys" by (meson split_list)
  have "\<not> hit r" if "r \<in> set xs \<union> set ys" for r
    using assms(2) that rows key_clash [of r q] key_clash [of q r] assms(3) [of r q] assms(3) [of q r] hq(1)
    by (auto simp: no_clash_def sorted_wrt_append)
  then have new: "rows' = xs @ f q # ys" and "\<And>r. r \<in> set xs \<union> set ys \<Longrightarrow> \<not> clash (f q) r"
    using q(3,4) rows hq(1) by (auto simp: update_where_def list_all_iff map_idI)
  then have "no_clash clash rows'" using assms(2) unfolding rows by (auto simp: no_clash_def sorted_wrt_append clash_sym)
  with that [OF rows hq(1) new] q(2) show thesis by blast
qed

lemma update_free:
  assumes "update_row filled checks clash refs hit f rows = Inr rows'" "no_clash clash rows" "\<And>r q. hit r \<Longrightarrow> hit q \<Longrightarrow> key r = key q"
  shows "no_clash clash rows'" and "(\<And>r. r \<in> set rows \<Longrightarrow> P r) \<Longrightarrow> (\<And>r. hit r \<Longrightarrow> P r \<Longrightarrow> checks (f r) \<Longrightarrow> P (f r)) \<Longrightarrow> \<forall>r \<in> set rows'. P r"
proof -
  obtain xs q ys where s: "rows = xs @ q # ys" "hit q" "rows' = xs @ f q # ys" "no_clash clash rows'" "checks (f q)"
    by (rule update_split [OF assms])
  show "no_clash clash rows'" by (rule s(4))
  show "\<forall>r \<in> set rows'. P r" if "\<And>r. r \<in> set rows \<Longrightarrow> P r" "\<And>r. hit r \<Longrightarrow> P r \<Longrightarrow> checks (f r) \<Longrightarrow> P (f r)"
    using that(1) [of q] that(1) that(2) [OF s(2)] s by auto
qed

lemma free_rows:
  assumes "no_clash clash rows" "r \<in> set rows" "q \<in> set rows" "clash r q"
  shows "r = q"
proof (rule ccontr)
  assume ne: "r \<noteq> q"
  from assms(2,3) obtain i j where ij: "i < length rows" "rows ! i = r" "j < length rows" "rows ! j = q" by (auto simp: in_set_conv_nth)
  with ne have "i < j \<or> j < i" by (cases i j rule: linorder_cases) auto
  with ij assms(1,4) clash_sym show False by (auto simp: no_clash_def sorted_wrt_iff_nth_less)
qed

lemma free_keys: "no_clash clash rows \<Longrightarrow> distinct (map key rows)"
proof (induction rows)
  case (Cons r rows)
  then have "key r \<noteq> key q" if "q \<in> set rows" for q using key_clash that by (auto simp: no_clash_def)
  with Cons show ?case by (auto simp: no_clash_def)
qed simp

end

interpretation address_table: unique_table address_clash ia_ID
  by unfold_locales (metis address_clash_def, simp add: address_clash_def)

interpretation prefix_table: unique_table prefix_clash px_ID
  by unfold_locales (auto simp: prefix_clash_def)

interpretation range_table: unique_table range_clash rg_ID
  by unfold_locales (auto simp: range_clash_def)

section \<open>Rows that agree with themselves\<close>

definition prefix_agrees :: "netPrefix \<Rightarrow> bool" where
  "prefix_agrees p =
     (case ParsePrefix (px_CIDRText p) of
        None \<Rightarrow> False
      | Some v \<Rightarrow> px_CIDRText p = pv_Text v \<and> px_AddrFamily p = pv_Family v \<and> px_AddrStart p = pv_Start v \<and> px_AddrEnd p = pv_End v)"

definition address_agrees :: "ipAddress \<Rightarrow> bool" where
  "address_agrees a =
     (case ParseAddr (ia_AddrText a) of
        None \<Rightarrow> False
      | Some v \<Rightarrow> ia_AddrText a = av_Text v \<and> ia_AddrFamily a = av_Family v \<and> ia_AddrStart a = av_Start v)"

definition range_agrees :: "ipRange \<Rightarrow> bool" where
  "range_agrees r =
     (case (ParseAddr (rg_StartText r), ParseAddr (rg_EndText r)) of
        (Some v, Some w) \<Rightarrow>
          rg_StartText r = av_Text v \<and> rg_EndText r = av_Text w \<and> rg_AddrFamily r = av_Family v \<and> rg_AddrFamily r = av_Family w
          \<and> rg_AddrStart r = av_Start v \<and> rg_AddrEnd r = av_Start w \<and> rg_AddrStart r \<le> rg_AddrEnd r
      | _ \<Rightarrow> False)"

definition consistent :: "addressing \<Rightarrow> bool" where
  "consistent db \<longleftrightarrow>
     no_clash prefix_clash (ad_prefixes db) \<and> no_clash address_clash (ad_addresses db) \<and> no_clash range_clash (ad_ranges db)
     \<and> (\<forall>p \<in> set (ad_prefixes db). prefix_agrees p \<and> life_check (px_Lifecycle p) \<and> px_VRFID p \<noteq> Some [])
     \<and> (\<forall>a \<in> set (ad_addresses db). address_agrees a) \<and> (\<forall>r \<in> set (ad_ranges db). range_agrees r)"

lemma new_values_agree:
  "NewPrefix i cidr = Inr p \<Longrightarrow> prefix_agrees p"
  "SetCIDR cidr p = Inr q \<Longrightarrow> prefix_agrees q"
  "NewIPAddress i addr f role = Inr a \<Longrightarrow> address_agrees a"
  "SetAddress addr a = Inr b \<Longrightarrow> address_agrees b"
  "NewIPRange i s e = Inr r \<Longrightarrow> range_agrees r"
  "SetBounds s e r' = Inr r \<Longrightarrow> range_agrees r"
  using ParsePrefix_again ParseAddr_again
  by (auto simp: NewPrefix_def SetCIDR_def NewIPAddress_def SetAddress_def NewIPRange_def SetBounds_def prefix_agrees_def address_agrees_def
      range_agrees_def not_less split: option.splits if_splits)

section \<open>Every operation keeps the tables consistent\<close>

lemma log_addressing_Inr:
  "log_addressing f db = Inr db' \<Longrightarrow>
     ad_prefixes db' = ad_prefixes db \<and> ad_addresses db' = ad_addresses db \<and> ad_ranges db' = ad_ranges db
     \<and> iv_interfaces (ad_inventory db') = iv_interfaces (ad_inventory db)"
  by (auto simp: log_addressing_def log_inventory_Inr bind_result_Inr)

lemma index_addressing_tables [simp]:
  "ad_prefixes (index_addressing d db) = ad_prefixes db" "ad_addresses (index_addressing d db) = ad_addresses db"
  "ad_ranges (index_addressing d db) = ad_ranges db"
  by (simp_all add: index_addressing_def)

lemma consistent_cong:
  "ad_prefixes db' = ad_prefixes db \<Longrightarrow> ad_addresses db' = ad_addresses db \<Longrightarrow> ad_ranges db' = ad_ranges db \<Longrightarrow> consistent db' = consistent db"
  by (simp add: consistent_def)

lemma insert_address_keeps:
  assumes "insert_address a db = Inr db'" "consistent db" "address_agrees a"
  shows "consistent db'"
proof -
  from assms(1) obtain rows where r: "insert_row address_filled address_checks address_clash (address_refs db) a (ad_addresses db) = Inr rows"
    "db' = db\<lparr>ad_addresses := rows\<rparr>" by (auto simp: insert_address_def bind_result_Inr)
  from assms(2) have c: "no_clash address_clash (ad_addresses db)" "\<And>q. q \<in> set (ad_addresses db) \<Longrightarrow> address_agrees q" by (simp_all add: consistent_def)
  have "no_clash address_clash rows" by (rule address_table.insert_free(1) [OF r(1) c(1)])
  moreover have "\<forall>q \<in> set rows. address_agrees q"
    by (rule address_table.insert_free(2) [OF r(1) c(1)]) (use c(2) assms(3) in auto)
  ultimately show ?thesis using assms(2) r(2) by (simp add: consistent_def)
qed

lemma insert_range_keeps:
  assumes "insert_range r0 db = Inr db'" "consistent db" "range_agrees r0"
  shows "consistent db'"
proof -
  from assms(1) obtain rows where r: "insert_row range_filled range_checks range_clash (range_refs db) r0 (ad_ranges db) = Inr rows"
    "db' = db\<lparr>ad_ranges := rows\<rparr>" by (auto simp: insert_range_def bind_result_Inr)
  from assms(2) have c: "no_clash range_clash (ad_ranges db)" "\<And>q. q \<in> set (ad_ranges db) \<Longrightarrow> range_agrees q" by (simp_all add: consistent_def)
  have "no_clash range_clash rows" by (rule range_table.insert_free(1) [OF r(1) c(1)])
  moreover have "\<forall>q \<in> set rows. range_agrees q"
    by (rule range_table.insert_free(2) [OF r(1) c(1)]) (use c(2) assms(3) in auto)
  ultimately show ?thesis using assms(2) r(2) by (simp add: consistent_def)
qed

lemma insert_prefix_keeps:
  assumes "insert_prefix p db = Inr db'" "consistent db" "prefix_agrees p" "px_VRFID p \<noteq> Some []"
  shows "consistent db'"
proof -
  let ?P = "\<lambda>p. prefix_agrees p \<and> life_check (px_Lifecycle p) \<and> px_VRFID p \<noteq> Some []"
  from assms(1) obtain rows where r: "insert_row prefix_filled prefix_checks prefix_clash (prefix_refs db) p (ad_prefixes db) = Inr rows"
    "db' = db\<lparr>ad_prefixes := rows\<rparr>" by (auto simp: insert_prefix_def bind_result_Inr)
  from assms(2) have c: "no_clash prefix_clash (ad_prefixes db)" "\<And>q. q \<in> set (ad_prefixes db) \<Longrightarrow> ?P q" by (simp_all add: consistent_def)
  have "no_clash prefix_clash rows" by (rule prefix_table.insert_free(1) [OF r(1) c(1)])
  moreover have "\<forall>q \<in> set rows. ?P q"
    by (rule prefix_table.insert_free(2) [OF r(1) c(1)]) (use c(2) assms(3,4) in \<open>auto simp: prefix_checks_def\<close>)
  ultimately show ?thesis using assms(2) r(2) by (simp add: consistent_def)
qed

lemma update_address_keeps:
  assumes "update_address i v f db = Inr db'" "consistent db" "\<And>a. address_agrees a \<Longrightarrow> address_agrees (f a)"
  shows "consistent db'"
proof -
  from assms(1) obtain rows where r: "update_row address_filled address_checks address_clash (address_refs db)
      (\<lambda>a. ia_ID a = i \<and> ia_RowVersion a = v) f (ad_addresses db) = Inr rows" "db' = db\<lparr>ad_addresses := rows\<rparr>"
    by (auto simp: update_address_def bind_result_Inr)
  from assms(2) have c: "no_clash address_clash (ad_addresses db)" "\<And>a. a \<in> set (ad_addresses db) \<Longrightarrow> address_agrees a" by (simp_all add: consistent_def)
  have "no_clash address_clash rows" "\<forall>a \<in> set rows. address_agrees a"
    by (rule address_table.update_free [OF r(1) c(1)]; use c(2) assms(3) in simp)+
  with assms(2) r(2) show ?thesis by (simp add: consistent_def)
qed

lemma update_range_keeps:
  assumes "update_range i v f db = Inr db'" "consistent db" "\<And>r. range_agrees r \<Longrightarrow> range_agrees (f r)"
  shows "consistent db'"
proof -
  from assms(1) obtain rows where r: "update_row range_filled range_checks range_clash (range_refs db)
      (\<lambda>r. rg_ID r = i \<and> rg_RowVersion r = v) f (ad_ranges db) = Inr rows" "db' = db\<lparr>ad_ranges := rows\<rparr>"
    by (auto simp: update_range_def bind_result_Inr)
  from assms(2) have c: "no_clash range_clash (ad_ranges db)" "\<And>r. r \<in> set (ad_ranges db) \<Longrightarrow> range_agrees r" by (simp_all add: consistent_def)
  have "no_clash range_clash rows" "\<forall>r \<in> set rows. range_agrees r"
    by (rule range_table.update_free [OF r(1) c(1)]; use c(2) assms(3) in simp)+
  with assms(2) r(2) show ?thesis by (simp add: consistent_def)
qed

lemma update_prefix_keeps:
  assumes "update_prefix i v f db = Inr db'" "consistent db" "\<And>p. prefix_agrees p \<Longrightarrow> prefix_agrees (f p)" "\<And>p. px_VRFID (f p) = px_VRFID p"
  shows "consistent db'"
proof -
  let ?P = "\<lambda>p. prefix_agrees p \<and> life_check (px_Lifecycle p) \<and> px_VRFID p \<noteq> Some []"
  from assms(1) obtain rows where r: "update_row prefix_filled prefix_checks prefix_clash (prefix_refs db)
      (\<lambda>p. px_ID p = i \<and> px_RowVersion p = v) f (ad_prefixes db) = Inr rows" "db' = db\<lparr>ad_prefixes := rows\<rparr>"
    by (auto simp: update_prefix_def bind_result_Inr)
  from assms(2) have c: "no_clash prefix_clash (ad_prefixes db)" "\<And>p. p \<in> set (ad_prefixes db) \<Longrightarrow> ?P p" by (simp_all add: consistent_def)
  have "no_clash prefix_clash rows" by (rule prefix_table.update_free(1) [OF r(1) c(1)]) simp
  moreover have "\<forall>p \<in> set rows. ?P p"
    by (rule prefix_table.update_free(2) [OF r(1) c(1)]) (use c(2) assms(3,4) in \<open>auto simp: prefix_checks_def\<close>)
  ultimately show ?thesis using assms(2) r(2) by (simp add: consistent_def)
qed

text \<open>The nine operations that write; a value that is handed in comes from a constructor or a setter.\<close>

inductive addressing_step :: "addressing \<Rightarrow> addressing \<Rightarrow> bool" where
  create_address: "CreateIPAddress p now a db = Inr db' \<Longrightarrow> address_agrees a \<Longrightarrow> addressing_step db db'"
| update_address: "UpdateIPAddress p now a db = Inr db' \<Longrightarrow> address_agrees a \<Longrightarrow> addressing_step db db'"
| retire_address: "RetireIPAddress p now i db = Inr db' \<Longrightarrow> addressing_step db db'"
| create_range: "CreateIPRange q now r db = Inr db' \<Longrightarrow> range_agrees r \<Longrightarrow> addressing_step db db'"
| update_range: "UpdateIPRange q now r db = Inr db' \<Longrightarrow> range_agrees r \<Longrightarrow> addressing_step db db'"
| retire_range: "RetireIPRange q now i db = Inr db' \<Longrightarrow> addressing_step db db'"
| create_prefix: "CreatePrefix q now n db = Inr db' \<Longrightarrow> prefix_agrees n \<Longrightarrow> addressing_step db db'"
| update_prefix: "UpdatePrefix q now n db = Inr db' \<Longrightarrow> prefix_agrees n \<Longrightarrow> addressing_step db db'"
| retire_prefix: "RetirePrefix q now i db = Inr db' \<Longrightarrow> addressing_step db db'"

lemma agrees_fields:
  "prefix_agrees (p\<lparr>px_RowVersion := v, px_CreatedAt := c, px_UpdatedAt := u, px_Lifecycle := l, px_VRFID := f\<rparr>) = prefix_agrees p"
  "prefix_agrees (p\<lparr>px_Lifecycle := l, px_UpdatedAt := u, px_RowVersion := v\<rparr>) = prefix_agrees p"
  "address_agrees (a\<lparr>ia_RowVersion := v, ia_CreatedAt := c, ia_UpdatedAt := u, ia_Lifecycle := l, ia_FHRPGroupID := f\<rparr>) = address_agrees a"
  "address_agrees (a\<lparr>ia_Lifecycle := l, ia_UpdatedAt := u, ia_RowVersion := v\<rparr>) = address_agrees a"
  "range_agrees (r\<lparr>rg_RowVersion := v, rg_CreatedAt := c, rg_UpdatedAt := u\<rparr>) = range_agrees r"
  "range_agrees (r\<lparr>rg_Lifecycle := l, rg_UpdatedAt := u, rg_RowVersion := v\<rparr>) = range_agrees r"
  by (simp_all add: prefix_agrees_def address_agrees_def range_agrees_def split: option.splits)

lemma log_keeps: "log_addressing f db = Inr db' \<Longrightarrow> consistent db' = consistent db"
  by (rule consistent_cong) (simp_all add: log_addressing_Inr)

lemma index_keeps [simp]: "consistent (index_addressing d db) = consistent db"
  by (rule consistent_cong) simp_all

lemma addresses_kept:
  assumes "consistent db"
  shows "CreateIPAddress p now a db = Inr db' \<Longrightarrow> address_agrees a \<Longrightarrow> consistent db'"
    and "UpdateIPAddress p now a db = Inr db' \<Longrightarrow> address_agrees a \<Longrightarrow> consistent db'"
    and "RetireIPAddress p now i db = Inr db' \<Longrightarrow> consistent db'"
proof -
  show "consistent db'" if "CreateIPAddress p now a db = Inr db'" "address_agrees a"
    using that assms by (auto simp: CreateIPAddress_def Let_def writeTx_def bind_result_Inr log_keeps agrees_fields dest!: insert_address_keeps)
  show "consistent db'" if r: "RetireIPAddress p now i db = Inr db'"
  proof -
    let ?g = "\<lambda>r. r\<lparr>ia_Lifecycle := LifecycleRetired, ia_UpdatedAt := Some now, ia_RowVersion := ia_RowVersion r + 1\<rparr>"
    from r consider "db' = db" | v db1 where "update_address i v ?g db = Inr db1" "consistent db' = consistent db1"
      using log_keeps by (fastforce simp: RetireIPAddress_def retire_address_tx_def writeTx_def bind_result_Inr split: if_splits)
    then show ?thesis using assms update_address_keeps [of i _ ?g] by cases (auto simp: agrees_fields)
  qed
  show "consistent db'" if u: "UpdateIPAddress p now a db = Inr db'" "address_agrees a"
  proof -
    let ?f = "\<lambda>r. r\<lparr>ia_AddrText := ia_AddrText a, ia_AddrFamily := ia_AddrFamily a, ia_AddrStart := ia_AddrStart a,
                      ia_Role := trim_space (ia_Role a), ia_UpdatedAt := Some now, ia_RowVersion := ia_RowVersion r + 1\<rparr>"
    from u(1) obtain db1 where 1: "update_address (ia_ID a) (ia_RowVersion a) ?f db = Inr db1" "consistent db' = consistent db1"
      by (auto simp: UpdateIPAddress_def ValidateAddress_def Let_def writeTx_def bind_result_Inr log_keeps)
    moreover have "address_agrees (?f r)" for r using u(2) by (simp add: address_agrees_def split: option.splits)
    ultimately show ?thesis using assms update_address_keeps [OF 1(1)] by blast
  qed
qed

lemma ranges_kept:
  assumes "consistent db"
  shows "CreateIPRange q now r db = Inr db' \<Longrightarrow> range_agrees r \<Longrightarrow> consistent db'"
    and "UpdateIPRange q now r db = Inr db' \<Longrightarrow> range_agrees r \<Longrightarrow> consistent db'"
    and "RetireIPRange q now i db = Inr db' \<Longrightarrow> consistent db'"
proof -
  show "consistent db'" if "CreateIPRange q now r db = Inr db'" "range_agrees r"
    using that assms by (auto simp: CreateIPRange_def ValidateRange_def Let_def writeTx_def bind_result_Inr log_keeps agrees_fields dest!: insert_range_keeps)
  show "consistent db'" if r: "RetireIPRange q now i db = Inr db'"
  proof -
    let ?g = "\<lambda>r. r\<lparr>rg_Lifecycle := LifecycleRetired, rg_UpdatedAt := Some now, rg_RowVersion := rg_RowVersion r + 1\<rparr>"
    from r consider "db' = db" | v db1 where "update_range i v ?g db = Inr db1" "consistent db' = consistent db1"
      using log_keeps by (fastforce simp: RetireIPRange_def writeTx_def bind_result_Inr split: if_splits)
    then show ?thesis using assms update_range_keeps [of i _ ?g] by cases (auto simp: agrees_fields)
  qed
  show "consistent db'" if u: "UpdateIPRange q now r db = Inr db'" "range_agrees r"
  proof -
    let ?f = "\<lambda>s. s\<lparr>rg_StartText := rg_StartText r, rg_EndText := rg_EndText r, rg_AddrFamily := rg_AddrFamily r,
                    rg_AddrStart := rg_AddrStart r, rg_AddrEnd := rg_AddrEnd r, rg_VRFID := rg_VRFID r, rg_Role := rg_Role r,
                    rg_Description := rg_Description r, rg_UpdatedAt := Some now, rg_RowVersion := rg_RowVersion s + 1\<rparr>"
    from u(1) obtain db1 where 1: "update_range (rg_ID r) (rg_RowVersion r) ?f db = Inr db1" "consistent db' = consistent db1"
      by (auto simp: UpdateIPRange_def ValidateRange_def Let_def writeTx_def bind_result_Inr log_keeps)
    moreover have "range_agrees (?f s)" for s using u(2) by (auto simp: range_agrees_def split: option.splits)
    ultimately show ?thesis using assms update_range_keeps [OF 1(1)] by blast
  qed
qed

lemma prefixes_kept:
  assumes "consistent db"
  shows "CreatePrefix q now n db = Inr db' \<Longrightarrow> prefix_agrees n \<Longrightarrow> consistent db'"
    and "UpdatePrefix q now n db = Inr db' \<Longrightarrow> prefix_agrees n \<Longrightarrow> consistent db'"
    and "RetirePrefix q now i db = Inr db' \<Longrightarrow> consistent db'"
proof -
  show "consistent db'" if "CreatePrefix q now n db = Inr db'" "prefix_agrees n"
    using that assms by (auto simp: CreatePrefix_def Let_def writeTx_def bind_result_Inr log_keeps agrees_fields dest!: insert_prefix_keeps)
  show "consistent db'" if r: "RetirePrefix q now i db = Inr db'"
  proof -
    let ?g = "\<lambda>p. p\<lparr>px_Lifecycle := LifecycleRetired, px_UpdatedAt := Some now, px_RowVersion := px_RowVersion p + 1\<rparr>"
    from r consider "db' = db" | v db1 where "update_prefix i v ?g db = Inr db1" "consistent db' = consistent db1"
      using log_keeps by (fastforce simp: RetirePrefix_def retire_prefix_tx_def writeTx_def bind_result_Inr split: if_splits option.splits)
    then show ?thesis using assms update_prefix_keeps [of i _ ?g] by cases (auto simp: agrees_fields)
  qed
  show "consistent db'" if u: "UpdatePrefix q now n db = Inr db'" "prefix_agrees n"
  proof -
    let ?f = "\<lambda>p. p\<lparr>px_CIDRText := px_CIDRText n, px_AddrFamily := px_AddrFamily n, px_AddrStart := px_AddrStart n,
                    px_AddrEnd := px_AddrEnd n, px_VLANRefID := px_VLANRefID n, px_EnvironmentID := px_EnvironmentID n,
                    px_Role := px_Role n, px_UpdatedAt := Some now, px_RowVersion := px_RowVersion p + 1\<rparr>"
    from u(1) obtain db1 where 1: "update_prefix (px_ID n) (px_RowVersion n) ?f db = Inr db1" "consistent db' = consistent db1"
      by (auto simp: UpdatePrefix_def ValidatePrefix_def Let_def writeTx_def bind_result_Inr log_keeps)
    moreover have "prefix_agrees (?f p)" for p using u(2) by (simp add: prefix_agrees_def split: option.splits)
    ultimately show ?thesis using assms update_prefix_keeps [OF 1(1)] by simp
  qed
qed

interpretation consistency: step_invariant addressing_step consistent
  by unfold_locales (auto elim!: addressing_step.cases intro: addresses_kept ranges_kept prefixes_kept)

text \<open>
  Text and bytes never drift apart: the constructors and setters make values whose text, family and
  bytes are one address, one network or one range, and in every state that operations on such values
  reach, every stored row still is, no two rows share an id, and no two active networks of one VRF
  share a text. (C16)
\<close>

theorem addressing_stays_consistent:
  "(\<forall>i cidr p. NewPrefix i cidr = Inr p \<longrightarrow> prefix_agrees p)
   \<and> (\<forall>i addr f role a. NewIPAddress i addr f role = Inr a \<longrightarrow> address_agrees a)
   \<and> (\<forall>i s e r. NewIPRange i s e = Inr r \<longrightarrow> range_agrees r)
   \<and> (\<forall>cidr p q. SetCIDR cidr p = Inr q \<longrightarrow> prefix_agrees q)
   \<and> (\<forall>addr a b. SetAddress addr a = Inr b \<longrightarrow> address_agrees b)
   \<and> (\<forall>db db'. consistent db \<and> addressing_step\<^sup>*\<^sup>* db db' \<longrightarrow> consistent db')"
  by (intro conjI allI impI; (erule new_values_agree | blast intro: consistency.reachable))

section \<open>Live networks\<close>

text \<open>A network that is not written with mapped addresses: its prefix length fits its family.\<close>

definition plain_network :: "netPrefix \<Rightarrow> bool" where
  "plain_network p = (case ParsePrefix (px_CIDRText p) of None \<Rightarrow> False | Some v \<Rightarrow> pv_Bits v \<le> 8 * length (pv_Start v))"

definition plain_networks :: "addressing \<Rightarrow> bool" where
  "plain_networks db \<longleftrightarrow> list_all plain_network (filter live_prefix (ad_prefixes db))"

lemma block_text:
  assumes "ParsePrefix s = Some v" "pv_Bits v \<le> 8 * length (pv_Start v)" "ParsePrefix t = Some w" "pv_Bits w \<le> 8 * length (pv_Start w)"
    and "pv_Family v = pv_Family w" "pv_Start v = pv_Start w" "pv_End v = pv_End w"
  shows "pv_Text v = pv_Text w"
proof -
  from assms(1) obtain a n where a: "wf_addr a" "NoZone a = a" "n \<le> addr_bits a" "Masked (a, n) = (a, n)" "v = prefix_value (a, n)"
    by (rule ParsePrefix_Some)
  from assms(3) obtain b m where b: "wf_addr b" "NoZone b = b" "m \<le> addr_bits b" "Masked (b, m) = (b, m)" "w = prefix_value (b, m)"
    by (rule ParsePrefix_Some)
  have bits: "pv_Bits v = n" "pv_Bits w = m" using a(5) b(5) by (simp_all add: prefix_value_def Let_def)
  have plain: "\<not> Is4In6 a" "\<not> Is4In6 b"
    by (rule prefix_kinds [OF a(1-4)], assumption, use assms(2) a(5) bits in simp)
      (rule prefix_kinds [OF b(1-4)], assumption, use assms(4) b(5) bits in simp)
  note va = prefix_value_plain [OF a(1,2) plain(1)] and vb = prefix_value_plain [OF b(1,2) plain(2)]
  have "addr_bytes a = addr_bytes b" "Is4 a = Is4 b" using assms(5,6) va(1,3) vb(1,3) a(5) b(5) by (auto split: if_splits)
  then have ab: "a = b" using a(2) b(2) by (cases a; cases b) (auto simp: Is4_def addr_bytes_def NoZone_def)
  have "(2 :: nat) ^ (8 * length (pv_Start v) - n) - 1 = 2 ^ (8 * length (pv_Start v) - m) - 1"
    using prefix_block(2) [OF assms(1,2)] prefix_block(2) [OF assms(3,4)] unfolding assms(6,7) bits by linarith
  moreover have "1 \<le> (2 :: nat) ^ k" for k by simp
  ultimately have "(2 :: nat) ^ (8 * length (pv_Start v) - n) = 2 ^ (8 * length (pv_Start v) - m)" by (metis le_add_diff_inverse2)
  then have "n = m" using assms(2,4,6) bits by simp
  with ab a(5) b(5) show ?thesis by simp
qed

lemma agrees_stored: "prefix_agrees p \<Longrightarrow> plain_network p \<Longrightarrow> stored_network p"
  by (cases "ParsePrefix (px_CIDRText p)") (simp_all add: prefix_agrees_def plain_network_def stored_network_def)

lemma live_networks:
  assumes "consistent db" "plain_networks db"
  defines "ps \<equiv> filter live_prefix (ad_prefixes db)"
  shows "\<forall>p \<in> set ps. stored_network p" "own_blocks ps" "distinct (map px_ID ps)"
proof -
  have free: "no_clash prefix_clash (ad_prefixes db)" using assms(1) by (simp add: consistent_def)
  have row: "prefix_agrees p \<and> plain_network p \<and> px_Lifecycle p = LifecycleActive \<and> px_VRFID p \<noteq> Some []" if "p \<in> set ps" for p
  proof -
    from that have p: "p \<in> set (ad_prefixes db)" "live_prefix p" by (simp_all add: ps_def)
    with assms(1,2) have "prefix_agrees p" "life_check (px_Lifecycle p)" "px_VRFID p \<noteq> Some []" "plain_network p"
      by (auto simp: consistent_def plain_networks_def list_all_iff)
    with p(2) show ?thesis by (simp add: life_check_def oneOf_def live_prefix_def)
  qed
  show "\<forall>p \<in> set ps. stored_network p" using row agrees_stored by blast
  show "distinct (map px_ID ps)" using prefix_table.free_keys [OF free] by (simp add: ps_def distinct_map_filter)
  have "p = q" if pq: "p \<in> set ps" "q \<in> set ps" "same_block p q" for p q
  proof (rule prefix_table.free_rows [OF free])
    show "p \<in> set (ad_prefixes db)" "q \<in> set (ad_prefixes db)" using pq by (simp_all add: ps_def)
    from row [OF pq(1)] obtain v where v: "ParsePrefix (px_CIDRText p) = Some v" "pv_Bits v \<le> 8 * length (pv_Start v)"
      "px_CIDRText p = pv_Text v" "px_AddrFamily p = pv_Family v" "px_AddrStart p = pv_Start v" "px_AddrEnd p = pv_End v"
      by (auto simp: prefix_agrees_def plain_network_def split: option.splits)
    from row [OF pq(2)] obtain w where w: "ParsePrefix (px_CIDRText q) = Some w" "pv_Bits w \<le> 8 * length (pv_Start w)"
      "px_CIDRText q = pv_Text w" "px_AddrFamily q = pv_Family w" "px_AddrStart q = pv_Start w" "px_AddrEnd q = pv_End w"
      by (auto simp: prefix_agrees_def plain_network_def split: option.splits)
    have "px_CIDRText p = px_CIDRText q" using block_text [OF v(1,2) w(1,2)] pq(3) v w by (simp add: same_block_def)
    moreover have "px_VRFID p = px_VRFID q"
      using pq(3) row [OF pq(1)] row [OF pq(2)] by (auto simp: same_block_def vrfKey_def split: option.splits)
    ultimately show "prefix_clash p q" using row [OF pq(1)] row [OF pq(2)] by (simp add: prefix_clash_def)
  qed
  then show "own_blocks ps" by (simp add: own_blocks_def)
qed

section \<open>Withdrawing a network\<close>

lemma counted_rows:
  assumes "distinct (map px_ID ps)" "q \<in> set ps"
  shows "fold (\<lambda>(p, n) m. m(px_ID p := n)) (map (\<lambda>p. (p, g p)) ps) m (px_ID q) = g q"
  using assms
proof (induction ps arbitrary: m)
  case (Cons p ps)
  have other: "fold (\<lambda>(p, n) m. m(px_ID p := n)) (map (\<lambda>p. (p, g p)) qs) m x = m x" if "x \<notin> px_ID ` set qs" for qs m x
    using that by (induction qs arbitrary: m) auto
  show ?case
  proof (cases "q = p")
    case True
    then show ?thesis using Cons.prems(1) other [of "px_ID p" ps "m(px_ID p := g p)"] by (simp del: fun_upd_apply) simp
  next
    case False
    then show ?thesis using Cons.prems Cons.IH [of "m(px_ID p := g p)"] by (simp del: fun_upd_apply)
  qed
qed simp

lemma tree_row:
  assumes "consistent db" "plain_networks db" "p \<in> set (ad_prefixes db)" "live_prefix p"
  obtains n free where "find (\<lambda>(n, _). px_ID (pn_Prefix n) = px_ID p) (ListPrefixTree db) = Some (n, free)" "pn_Prefix n = p"
    "0 < pn_Children n \<longleftrightarrow> (\<exists>q \<in> set (ad_prefixes db). live_prefix q \<and> contains p q)" "pn_Children n = 0 \<longrightarrow> pn_Addresses n = AddressCount db p"
proof -
  define flat where "flat = go_sort listed_before (filter live_prefix (ad_prefixes db))"
  define counts where "counts = fold (\<lambda>(p, n) m. m(px_ID p := n)) (map (\<lambda>p. (p, AddressCount db p)) flat) (\<lambda>_. 0)"
  define nodes where "nodes = BuildPrefixTree flat counts"
  define ps where "ps = go_sort prefix_less flat"
  have set: "set flat = {q \<in> set (ad_prefixes db). live_prefix q}" "set ps = set flat" by (auto simp: flat_def ps_def)
  have ids: "distinct (map px_ID flat)" using live_networks(3) [OF assms(1,2)] unfolding flat_def by (metis mset_eq_imp_distinct_iff mset_go_sort mset_map)
  have ok: "\<forall>q \<in> set flat. stored_network q" "own_blocks flat" using live_networks(1,2) [OF assms(1,2)] by (simp_all add: flat_def own_blocks_def)
  have ord: "tree_order ps" unfolding ps_def by (rule tree_order_sorted [OF ok ids])
  note t = tree_nodes [OF laminar_stored [OF ok(1)] ids, where counts = counts, folded nodes_def ps_def]
  have rows: "map fst (ListPrefixTree db) = nodes"
    by (simp add: ListPrefixTree_def Let_def ListPrefixes_def nodes_def counts_def flat_def comp_def)
  from assms(3,4) set obtain k where k: "k < length ps" "ps ! k = p" by (metis (mono_tags, lifting) in_set_conv_nth mem_Collect_eq)
  have same: "j = k" if "j < length ps" "px_ID (ps ! j) = px_ID p" for j
    using that k ord by (auto simp: tree_order_def distinct_conv_nth)
  have pre: "pn_Prefix (nodes ! j) = ps ! j" if "j < length ps" for j using t(2) [OF that] by blast
  have len: "length (ListPrefixTree db) = length ps" using t(1) rows by (metis length_map)
  have at: "fst (ListPrefixTree db ! j) = nodes ! j" if "j < length ps" for j using that rows len by (metis nth_map)
  have "find (\<lambda>(n, _). px_ID (pn_Prefix n) = px_ID p) (ListPrefixTree db) = Some (ListPrefixTree db ! k)"
  proof -
    have hit: "(case ListPrefixTree db ! j of (n, _) \<Rightarrow> px_ID (pn_Prefix n) = px_ID p) \<longleftrightarrow> j = k" if "j < length ps" for j
      using at [OF that] pre [OF that] same [OF that] k(2) by (cases "ListPrefixTree db ! j") auto
    show ?thesis unfolding find_Some_iff using k(1) len hit by (intro exI [of _ k]) simp
  qed
  moreover have "0 < pn_Children (nodes ! k) \<longleftrightarrow> (\<exists>q \<in> set (ad_prefixes db). live_prefix q \<and> contains p q)"
  proof -
    have "0 < pn_Children (nodes ! k) \<longleftrightarrow> children ps (length ps) k \<noteq> {}" using t(2) [OF k(1)] by (simp add: card_gt_0_iff)
    also have "\<dots> \<longleftrightarrow> (\<exists>q \<in> set ps. contains p q)"
    proof
      assume "children ps (length ps) k \<noteq> {}"
      then obtain m where "m < length ps" "contains p (ps ! m)" using k(2) by (auto simp: par_Some)
      then show "\<exists>q \<in> set ps. contains p q" using nth_mem by blast
    next
      assume "\<exists>q \<in> set ps. contains p q"
      then obtain m where "m < length ps" "contains (ps ! k) (ps ! m)" unfolding k(2) by (auto simp: in_set_conv_nth)
      from child_around [OF ord this(1) k(1) this(2)] show "children ps (length ps) k \<noteq> {}" by blast
    qed
    finally show ?thesis using set by auto
  qed
  moreover have "pn_Addresses (nodes ! k) = AddressCount db p" if "pn_Children (nodes ! k) = 0"
  proof -
    have none: "children ps (length ps) k = {}" using that t(2) [OF k(1)] by simp
    have "counts (px_ID p) = AddressCount db p"
      unfolding counts_def by (rule counted_rows [OF ids]) (use k set(2) nth_mem in blast)
    moreover have "0 \<le> AddressCount db p" by (simp add: AddressCount_def)
    ultimately show ?thesis using t(2) [OF k(1)] unfolding none k(2) by simp
  qed
  ultimately show thesis using that [of "nodes ! k" "snd (ListPrefixTree db ! k)"] at [OF k(1)] pre [OF k(1)] k(2) by (metis prod.collapse)
qed

definition occupied :: "addressing \<Rightarrow> netPrefix \<Rightarrow> bool" where
  "occupied db p \<longleftrightarrow>
     list_ex (\<lambda>q. live_prefix q \<and> contains p q) (ad_prefixes db)
     \<or> list_ex (\<lambda>a. live_address a \<and> in_network p (addr_of_row a)) (ad_addresses db)
     \<or> list_ex (overlapping p) (ad_ranges db)"

lemma address_inside: "0 < AddressCount db p \<longleftrightarrow> list_ex (\<lambda>a. live_address a \<and> in_network p (addr_of_row a)) (ad_addresses db)"
  by (auto simp: AddressCount_def list_ex_iff in_network_def addr_of_row_def filter_empty_conv) 

text \<open>
  A network is withdrawn only when it is empty: withdrawing a live network is refused as a conflict
  while a live network lies inside it, a live address is assigned in it, or a live reservation
  reaches into it, however the tree of the page counts them; when it succeeds none does, and the only
  change to the table of networks is that its row is retired. (C15)
\<close>

theorem retire_prefix_safe:
  assumes "consistent db" "plain_networks db" "GetPrefix db i = Inr p" "live_prefix p"
  shows "(occupied db p \<longrightarrow> RetirePrefix permit now i db = Inl ErrConflict)
     \<and> (\<forall>db'. RetirePrefix permit now i db = Inr db' \<longrightarrow>
          \<not> occupied db p
          \<and> ad_prefixes db' = update_where (\<lambda>q. px_ID q = i)
              (\<lambda>q. q\<lparr>px_Lifecycle := LifecycleRetired, px_UpdatedAt := Some now, px_RowVersion := px_RowVersion q + 1\<rparr>) (ad_prefixes db)
          \<and> ad_addresses db' = ad_addresses db \<and> ad_ranges db' = ad_ranges db)"
proof -
  let ?f = "\<lambda>q. q\<lparr>px_Lifecycle := LifecycleRetired, px_UpdatedAt := Some now, px_RowVersion := px_RowVersion q + 1\<rparr>"
  have p: "p \<in> set (ad_prefixes db)" "px_ID p = i" using assms(3) by (auto simp: GetPrefix_def find_Some_iff split: option.splits)
  obtain n free where n: "find (\<lambda>(n, _). px_ID (pn_Prefix n) = px_ID p) (ListPrefixTree db) = Some (n, free)" "pn_Prefix n = p"
    "0 < pn_Children n \<longleftrightarrow> (\<exists>q \<in> set (ad_prefixes db). live_prefix q \<and> contains p q)" "pn_Children n = 0 \<longrightarrow> pn_Addresses n = AddressCount db p"
    by (rule tree_row [OF assms(1,2) p(1) assms(4)])
  have run: "RetirePrefix permit now i db =
      (if 0 < pn_Children n then Inl ErrConflict else if 0 < pn_Addresses n then Inl ErrConflict else retire_prefix_tx permit now p i db)"
    using assms(3,4) n(1) p(2) by (simp add: RetirePrefix_def live_prefix_def)
  have refused: "RetirePrefix permit now i db = Inl ErrConflict" if "occupied db p"
  proof (cases "0 < pn_Children n")
    case False
    then have "0 < pn_Addresses n \<or> list_ex (overlapping p) (ad_ranges db)"
      using that n(3,4) address_inside [of db p] by (auto simp: occupied_def list_ex_iff)
    with False run show ?thesis by (auto simp: retire_prefix_tx_def writeTx_def)
  qed (use run in simp)
  have written: "ad_prefixes db' = update_where (\<lambda>q. px_ID q = i) ?f (ad_prefixes db) \<and> ad_addresses db' = ad_addresses db \<and> ad_ranges db' = ad_ranges db"
    if "RetirePrefix permit now i db = Inr db'" for db'
  proof -
    from that run have tx: "retire_prefix_tx permit now p i db = Inr db'" by (auto split: if_splits)
    then obtain db1 where 1: "update_prefix i (px_RowVersion p) ?f db = Inr db1" "ad_prefixes db' = ad_prefixes db1"
      "ad_addresses db' = ad_addresses db1" "ad_ranges db' = ad_ranges db1"
      by (auto simp: retire_prefix_tx_def writeTx_def bind_result_Inr dest!: log_addressing_Inr split: if_splits)
    have "no_clash prefix_clash (ad_prefixes db)" using assms(1) by (simp add: consistent_def)
    then have "q = p" if "q \<in> set (ad_prefixes db)" "px_ID q = i" for q
      using prefix_table.free_rows that p by (simp add: prefix_clash_def)
    then have "update_where (\<lambda>q. px_ID q = i \<and> px_RowVersion q = px_RowVersion p) ?f (ad_prefixes db) = update_where (\<lambda>q. px_ID q = i) ?f (ad_prefixes db)"
      unfolding update_where_def by (intro map_cong refl) auto
    with 1 show ?thesis by (auto simp: update_prefix_def update_row_def bind_result_Inr split: option.splits)
  qed
  from refused written show ?thesis by auto
qed

end
