(* ===== verification/Addressing_Free.thy ===== *)
theory Addressing_Free
  imports Addressing_Props
begin

text \<open>
  Reading the tables: the network an address resolves to, the next free address of a network, and the
  narrowing of the spans that the page of networks does before it asks for one.
\<close>

section \<open>The network of an address\<close>

interpretation narrow_order: go_ordering narrower
proof -
  have "go_ordering (\<lambda>a b. px_AddrStart b < px_AddrStart (a :: netPrefix))" "go_ordering (\<lambda>a b. px_AddrEnd (a :: netPrefix) < px_AddrEnd b)"
    by unfold_locales auto
  then show "go_ordering narrower"
    unfolding narrower_def by unfold_locales (auto split: if_splits)
qed

lemma go_sort_head:
  assumes "go_ordering lt" "go_sort lt xs = p # ps"
  shows "p \<in> set xs \<and> (\<forall>q \<in> set xs. q = p \<or> \<not> lt q p)"
proof -
  have "set xs = insert p (set ps)" using assms(2) by (metis list.simps(15) set_mset_mset mset_go_sort)
  moreover have "sorted_wrt (\<lambda>a b. \<not> lt b a) (p # ps)" using go_ordering.go_sort_sorted [OF assms(1), of xs] assms(2) by simp
  ultimately show ?thesis by auto
qed

lemma overlap_covers:
  assumes "stored_network p" "stored_network q" "in_network p a" "in_network q a"
  shows "px_AddrStart p \<le> px_AddrStart q \<and> px_AddrEnd q \<le> px_AddrEnd p \<or> px_AddrStart q \<le> px_AddrStart p \<and> px_AddrEnd p \<le> px_AddrEnd q"
proof -
  let ?q = "q\<lparr>px_VRFID := px_VRFID p\<rparr>"
  have "stored_network ?q" using assms(2) by (simp add: stored_network_def split: option.splits)
  from stored_nest(1) [OF assms(1) this] have "nested_or_apart p ?q" .
  moreover have "\<not> px_AddrEnd p < px_AddrStart q" "\<not> px_AddrEnd q < px_AddrStart p" using assms(3,4) by (auto simp: in_network_def)
  ultimately show ?thesis using assms(3,4) by (simp add: nested_or_apart_def in_network_def)
qed

text \<open>
  An address resolves to the tightest live network that holds it: every other live network holding
  it covers the whole of the one returned, of whatever VRF; and an address that no live network
  holds is not found. (C20)
\<close>

theorem resolve_address_tightest:
  assumes "consistent db" "plain_networks db" "ParseAddr addr = Some av"
  shows "case ResolveAddress db addr of
       Inl e \<Rightarrow> e = ErrNotFound \<and> (\<forall>q \<in> set (ad_prefixes db). live_prefix q \<longrightarrow> \<not> in_network q (av_Family av, av_Start av))
     | Inr p \<Rightarrow> p \<in> set (ad_prefixes db) \<and> live_prefix p \<and> in_network p (av_Family av, av_Start av)
         \<and> (\<forall>q \<in> set (ad_prefixes db). live_prefix q \<and> in_network q (av_Family av, av_Start av) \<longrightarrow>
              px_AddrStart q \<le> px_AddrStart p \<and> px_AddrEnd p \<le> px_AddrEnd q)"
proof -
  let ?a = "(av_Family av, av_Start av)"
  let ?hold = "filter (\<lambda>p. px_AddrFamily p = av_Family av \<and> px_AddrStart p \<le> av_Start av \<and> av_Start av \<le> px_AddrEnd p \<and> live_prefix p) (ad_prefixes db)"
  have hold: "q \<in> set ?hold \<longleftrightarrow> q \<in> set (ad_prefixes db) \<and> live_prefix q \<and> in_network q ?a" for q by (auto simp: in_network_def)
  have run: "ResolveAddress db addr = (case go_sort narrower ?hold of [] \<Rightarrow> Inl ErrNotFound | p # _ \<Rightarrow> Inr p)"
    using assms(3) by (simp add: ResolveAddress_def)
  show ?thesis
  proof (cases "go_sort narrower ?hold")
    case Nil
    then have none: "set ?hold = {}" using set_go_sort [of narrower ?hold] by (simp del: set_filter set_go_sort)
    have "\<not> (live_prefix q \<and> in_network q ?a)" if "q \<in> set (ad_prefixes db)" for q using hold [of q] that unfolding none by simp
    with run Nil show ?thesis by simp
  next
    case (Cons p ps)
    note head = go_sort_head [OF narrow_order.go_ordering_axioms Cons]
    have p: "p \<in> set (ad_prefixes db)" "live_prefix p" "in_network p ?a" using head hold by blast+
    have "px_AddrStart q \<le> px_AddrStart p \<and> px_AddrEnd p \<le> px_AddrEnd q" if q: "q \<in> set (ad_prefixes db)" "live_prefix q" "in_network q ?a" for q
    proof -
      have "stored_network p" "stored_network q" using live_networks(1) [OF assms(1,2)] p q by simp_all
      moreover have "q = p \<or> \<not> narrower q p" using head hold q by blast
      ultimately show ?thesis using overlap_covers [OF _ _ p(3) q(3)] by (auto simp: narrower_def split: if_splits)
    qed
    with p run Cons show ?thesis by simp
  qed
qed

section \<open>The next free address\<close>

lemma agreed_text:
  assumes "prefix_agrees p" "ParsePrefix (px_CIDRText p) = Some v"
  shows "trim_space (px_CIDRText p) = px_CIDRText p"
proof -
  from assms obtain a n where a: "wf_addr a" "NoZone a = a" "px_CIDRText p = prefix_text (a, n)"
    by (auto simp: prefix_agrees_def prefix_value_def Let_def elim!: ParsePrefix_Some)
  have "\<not> is_space c" if "c \<in> set (prefix_text (a, n))" for c
    using that addr_no_space [OF a(1,2), of c] digits_all_digit [of n]
    by (auto simp: prefix_text_def list_all_iff is_digit_def is_space_def)
  then show ?thesis unfolding a(3) by (rule trim_none)
qed

lemma agreed_lengths:
  "prefix_agrees p \<Longrightarrow> length (px_AddrStart p) = (if px_AddrFamily p = 4 then 4 else 16) \<and> length (px_AddrEnd p) = length (px_AddrStart p)"
  "address_agrees a \<Longrightarrow> length (ia_AddrStart a) = (if ia_AddrFamily a = 4 then 4 else 16)"
  "range_agrees r \<Longrightarrow> length (rg_AddrStart r) = (if rg_AddrFamily r = 4 then 4 else 16) \<and> length (rg_AddrEnd r) = length (rg_AddrStart r)"
proof -
  have addr: "length (av_Start v) = (if av_Family v = 4 then 4 else 16)" if "ParseAddr s = Some v" for s v
    using that by (rule ParseAddr_Some) (auto simp: addr_value_def addr_bytes_def wf_addr_def Is4_def split: addr.splits)
  show "address_agrees a \<Longrightarrow> length (ia_AddrStart a) = (if ia_AddrFamily a = 4 then 4 else 16)"
    using addr by (auto simp: address_agrees_def split: option.splits)
  show "range_agrees r \<Longrightarrow> length (rg_AddrStart r) = (if rg_AddrFamily r = 4 then 4 else 16) \<and> length (rg_AddrEnd r) = length (rg_AddrStart r)"
    using addr by (auto simp: range_agrees_def split: option.splits)
  have "length (pv_Start v) = (if pv_Family v = 4 then 4 else 16) \<and> length (pv_End v) = length (pv_Start v)" if "ParsePrefix s = Some v" for s v
    using that
  proof (rule ParsePrefix_Some)
    fix a n assume "wf_addr a" "v = prefix_value (a, n)"
    with Unmap_facts(1) [of a] show ?thesis
      by (auto simp: prefix_value_def Let_def broadcast_fill addr_bytes_def wf_addr_def Is4_def split: addr.splits)
  qed
  then show "prefix_agrees p \<Longrightarrow> length (px_AddrStart p) = (if px_AddrFamily p = 4 then 4 else 16) \<and> length (px_AddrEnd p) = length (px_AddrStart p)"
    by (auto simp: prefix_agrees_def split: option.splits)
qed

text \<open>What takes an address of a network: another network of its VRF inside it, whatever its lifecycle,
  a live reservation of its VRF, or a live address.\<close>

definition taken_in :: "addressing \<Rightarrow> netPrefix \<Rightarrow> byte list \<Rightarrow> bool" where
  "taken_in db p x \<longleftrightarrow>
     (\<exists>c \<in> set (ad_prefixes db). px_ID c \<noteq> px_ID p \<and> derefString (px_VRFID c) = derefString (px_VRFID p)
        \<and> px_AddrStart p \<le> px_AddrStart c \<and> px_AddrEnd c \<le> px_AddrEnd p \<and> in_network c (px_AddrFamily p, x))
     \<or> (\<exists>r \<in> set (ad_ranges db). live_range r \<and> derefString (rg_VRFID r) = derefString (px_VRFID p) \<and> rg_AddrFamily r = px_AddrFamily p
        \<and> rg_AddrStart r \<le> x \<and> x \<le> rg_AddrEnd r)
     \<or> (\<exists>a \<in> set (ad_addresses db). live_address a \<and> addr_of_row a = (px_AddrFamily p, x))"

definition exclusions :: "addressing \<Rightarrow> netPrefix \<Rightarrow> addrSpan list" where
  "exclusions db p =
     map prefix_span (filter (\<lambda>c. px_AddrFamily c = px_AddrFamily p \<and> px_ID c \<noteq> px_ID p \<and> px_AddrStart p \<le> px_AddrStart c
        \<and> px_AddrEnd c \<le> px_AddrEnd p \<and> derefString (px_VRFID c) = derefString (px_VRFID p)) (ad_prefixes db))
     @ map range_span (filter (overlapping p) (ad_ranges db))
     @ map (\<lambda>a. SpanOf (ia_AddrStart a)) (filter (\<lambda>a. ia_AddrFamily a = px_AddrFamily p \<and> px_AddrStart p \<le> ia_AddrStart a
        \<and> ia_AddrStart a \<le> px_AddrEnd p \<and> live_address a) (ad_addresses db))"

lemma NextFree_run: "GetPrefix db i = Inr p \<Longrightarrow> NextFreeAddress db i = Inr (FirstFreeAddress (px_CIDRText p) (exclusions db p))"
  by (simp add: NextFreeAddress_def exclusions_def Let_def)

lemma taken_append: "taken_by (xs @ ys) x \<longleftrightarrow> taken_by xs x \<or> taken_by ys x"
  by (auto simp: taken_by_def)

lemma taken_exclusions:
  assumes "consistent db" "length x = (if px_AddrFamily p = 4 then 4 else 16)" "px_AddrStart p \<le> x" "x \<le> px_AddrEnd p"
  shows "taken_by (exclusions db p) x \<longleftrightarrow> taken_in db p x"
proof -
  have lens: "\<And>c. c \<in> set (ad_prefixes db) \<Longrightarrow> length (px_AddrStart c) = (if px_AddrFamily c = 4 then 4 else 16) \<and> length (px_AddrEnd c) = length (px_AddrStart c)"
    "\<And>a. a \<in> set (ad_addresses db) \<Longrightarrow> length (ia_AddrStart a) = (if ia_AddrFamily a = 4 then 4 else 16)"
    "\<And>r. r \<in> set (ad_ranges db) \<Longrightarrow> length (rg_AddrStart r) = (if rg_AddrFamily r = 4 then 4 else 16) \<and> length (rg_AddrEnd r) = length (rg_AddrStart r)"
    using assms(1) agreed_lengths by (simp_all add: consistent_def)
  have "taken_by (map prefix_span (filter (\<lambda>c. px_AddrFamily c = px_AddrFamily p \<and> px_ID c \<noteq> px_ID p \<and> px_AddrStart p \<le> px_AddrStart c
        \<and> px_AddrEnd c \<le> px_AddrEnd p \<and> derefString (px_VRFID c) = derefString (px_VRFID p)) (ad_prefixes db))) x \<longleftrightarrow>
      (\<exists>c \<in> set (ad_prefixes db). px_ID c \<noteq> px_ID p \<and> derefString (px_VRFID c) = derefString (px_VRFID p)
        \<and> px_AddrStart p \<le> px_AddrStart c \<and> px_AddrEnd c \<le> px_AddrEnd p \<and> in_network c (px_AddrFamily p, x))"
    using lens(1) assms(2) by (auto simp: taken_by_def prefix_span_def in_network_def)
  moreover have "taken_by (map range_span (filter (overlapping p) (ad_ranges db))) x \<longleftrightarrow>
      (\<exists>r \<in> set (ad_ranges db). live_range r \<and> derefString (rg_VRFID r) = derefString (px_VRFID p) \<and> rg_AddrFamily r = px_AddrFamily p
        \<and> rg_AddrStart r \<le> x \<and> x \<le> rg_AddrEnd r)"
  proof -
    have "overlapping p r" if "live_range r" "derefString (rg_VRFID r) = derefString (px_VRFID p)" "rg_AddrFamily r = px_AddrFamily p"
      "rg_AddrStart r \<le> x" "x \<le> rg_AddrEnd r" for r
      using that assms(3,4) by (auto simp: overlapping_def not_less)
    then show ?thesis using lens(3) assms(2) by (auto simp: taken_by_def range_span_def overlapping_def)
  qed
  moreover have "taken_by (map (\<lambda>a. SpanOf (ia_AddrStart a)) (filter (\<lambda>a. ia_AddrFamily a = px_AddrFamily p \<and> px_AddrStart p \<le> ia_AddrStart a
        \<and> ia_AddrStart a \<le> px_AddrEnd p \<and> live_address a) (ad_addresses db))) x \<longleftrightarrow>
      (\<exists>a \<in> set (ad_addresses db). live_address a \<and> addr_of_row a = (px_AddrFamily p, x))"
    using lens(2) assms(2-4) by (auto simp: taken_by_def SpanOf_def addr_of_row_def)
  ultimately show ?thesis unfolding exclusions_def taken_append taken_in_def by blast
qed

lemma usable_length:
  assumes "prefix_agrees p" "ParsePrefix (px_CIDRText p) = Some v" "usable v x"
  shows "length x = (if px_AddrFamily p = 4 then 4 else 16)" "px_AddrStart p \<le> x" "x \<le> px_AddrEnd p"
  using assms agreed_lengths(1) [OF assms(1)] by (auto simp: usable_def prefix_agrees_def)

text \<open>
  The next free address of a network is the lowest usable one that nothing takes: no other network of
  its VRF inside it, no live reservation of its VRF and no live address; and none is reported exactly
  when every usable address is taken. (C17)
\<close>

theorem next_free_exact:
  assumes "consistent db" "GetPrefix db i = Inr p" "ParsePrefix (px_CIDRText p) = Some v" "pv_Bits v \<le> 8 * length (pv_Start v)"
  shows "case NextFreeAddress db i of
       Inl e \<Rightarrow> False
     | Inr None \<Rightarrow> \<forall>x. usable v x \<longrightarrow> taken_in db p x
     | Inr (Some t) \<Rightarrow> \<exists>x. usable v x \<and> \<not> taken_in db p x \<and> (\<forall>y. usable v y \<and> y < x \<longrightarrow> taken_in db p y)
         \<and> t = addr_text (addr_of (px_AddrFamily p) x)"
proof -
  have "p \<in> set (ad_prefixes db)" using assms(2) by (auto simp: GetPrefix_def find_Some_iff split: option.splits)
  then have agrees: "prefix_agrees p" using assms(1) by (simp add: consistent_def)
  have fam: "px_AddrFamily p = pv_Family v" using agrees assms(3) by (simp add: prefix_agrees_def)
  have taken: "taken_by (exclusions db p) x \<longleftrightarrow> taken_in db p x" if "usable v x" for x
    by (rule taken_exclusions [OF assms(1)]) (use usable_length [OF agrees assms(3) that] in auto)
  note exact = FirstFreeAddress_exact [OF assms(3) agreed_text [OF agrees assms(3)] assms(4), of "exclusions db p"]
  show ?thesis
  proof (cases "FirstFreeAddress (px_CIDRText p) (exclusions db p)")
    case None
    then show ?thesis using exact taken NextFree_run [OF assms(2)] by simp
  next
    case (Some t)
    with exact obtain x where x: "usable v x" "\<not> taken_by (exclusions db p) x" "\<forall>y. usable v y \<and> y < x \<longrightarrow> taken_by (exclusions db p) y"
      "t = addr_text (addr_of (pv_Family v) x)" by auto
    then have "\<exists>x. usable v x \<and> \<not> taken_in db p x \<and> (\<forall>y. usable v y \<and> y < x \<longrightarrow> taken_in db p y) \<and> t = addr_text (addr_of (px_AddrFamily p) x)"
      using taken fam by (intro exI [of _ x]) simp
    then show ?thesis using Some NextFree_run [OF assms(2)] by simp
  qed
qed

text \<open>
  A network that was withdrawn and declared again has no next free address: while another row of the
  same block and VRF is stored, even a retired one, none is ever reported. (C37)
\<close>

theorem redeclared_network_is_full:
  assumes "consistent db" "GetPrefix db i = Inr p" "plain_network p"
    and "q \<in> set (ad_prefixes db)" "px_ID q \<noteq> i" "same_block p q"
  shows "NextFreeAddress db i = Inr None"
proof -
  from assms(2) have p: "p \<in> set (ad_prefixes db)" "px_ID p = i" by (auto simp: GetPrefix_def find_Some_iff split: option.splits)
  then have agrees: "prefix_agrees p" using assms(1) by (simp add: consistent_def)
  from assms(3) obtain v where v: "ParsePrefix (px_CIDRText p) = Some v" "pv_Bits v \<le> 8 * length (pv_Start v)"
    by (auto simp: plain_network_def split: option.splits)
  have "taken_in db p x" if "usable v x" for x
  proof -
    have "in_network q (px_AddrFamily p, x)" using usable_length(2,3) [OF agrees v(1) that] assms(6) by (simp add: in_network_def same_block_def)
    moreover have "derefString (px_VRFID q) = derefString (px_VRFID p)" using assms(6) by (simp add: same_block_def derefString_def vrfKey_def)
    ultimately show ?thesis using assms(4-6) p(2) unfolding taken_in_def same_block_def by auto
  qed
  moreover have "taken_by (exclusions db p) x \<longleftrightarrow> taken_in db p x" if "usable v x" for x
    by (rule taken_exclusions [OF assms(1)]) (use usable_length [OF agrees v(1) that] in auto)
  moreover note FirstFreeAddress_exact [OF v(1) agreed_text [OF agrees v(1)] v(2), of "exclusions db p"]
  ultimately have "FirstFreeAddress (px_CIDRText p) (exclusions db p) = None" by (auto split: option.splits)
  then show ?thesis using NextFree_run [OF assms(2)] by simp
qed

section \<open>Narrowing the spans\<close>

lemma step_back_le: "step_back spans start i \<le> i"
  by (induction i) (auto intro: le_SucI)

lemma step_back_stops: "0 < step_back spans start i \<Longrightarrow> sp_End (spans ! (step_back spans start i - 1)) < start"
  by (induction i) auto

lemma takeWhile_sorted:
  assumes "sorted_wrt (\<lambda>a b. f a \<le> (f b :: 'b :: linorder)) xs"
  shows "takeWhile (\<lambda>x. \<not> stop < f x) xs = filter (\<lambda>x. \<not> stop < f x) xs"
  using assms
proof (induction xs)
  case (Cons a xs)
  have "filter (\<lambda>x. \<not> stop < f x) xs = []" if "stop < f a" using Cons.prems that by (auto simp: filter_empty_conv)
  with Cons show ?case by auto
qed simp

text \<open>
  The narrowing is exact where spans do not hide each other: on spans in the order of their starts
  whose ends are in the same order, \<open>within\<close> gives exactly the spans that reach into the network.
\<close>

theorem within_exact:
  assumes "sorted_wrt (\<lambda>a b. sp_Start a \<le> sp_Start b) (byFamily family)" "sorted_wrt (\<lambda>a b. sp_End a \<le> sp_End b) (byFamily family)"
  shows "within byFamily family start stop =
     filter (\<lambda>s. \<not> sp_End s < start \<and> \<not> stop < sp_Start s) (byFamily family)"
proof -
  let ?spans = "byFamily family"
  let ?m = "length (takeWhile (\<lambda>s. sp_Start s < start) ?spans)"
  define i where "i = step_back ?spans start ?m"
  have m: "i \<le> length ?spans" using step_back_le [of ?spans start ?m] length_takeWhile_le [of _ ?spans] unfolding i_def by (meson le_trans)
  have hidden: "sp_End s < start" if "s \<in> set (take i ?spans)" for s
  proof -
    from that obtain k where k: "k < i" "s = ?spans ! k" using m by (auto simp: in_set_conv_nth)
    have stop: "sp_End (?spans ! (i - 1)) < start" using step_back_stops [of ?spans start ?m] k(1) unfolding i_def by simp
    have "sp_End (?spans ! k) \<le> sp_End (?spans ! (i - 1))"
    proof (cases "k = i - 1")
      case False
      with k(1) m show ?thesis by (intro sorted_wrt_nth_less [OF assms(2)]) simp_all
    qed simp
    with stop k(2) show ?thesis by simp
  qed
  have "sorted_wrt (\<lambda>a b. sp_Start a \<le> sp_Start b) (drop i ?spans)" using assms(1) by (metis append_take_drop_id sorted_wrt_append)
  then have "takeWhile (\<lambda>s. \<not> stop < sp_Start s) (drop i ?spans) = filter (\<lambda>s. \<not> stop < sp_Start s) (drop i ?spans)" by (rule takeWhile_sorted)
  then have "within byFamily family start stop = filter (\<lambda>s. \<not> sp_End s < start \<and> \<not> stop < sp_Start s) (drop i ?spans)"
    by (simp add: within_def Let_def i_def conj_commute)
  moreover have "filter (\<lambda>s. \<not> sp_End s < start \<and> \<not> stop < sp_Start s) (take i ?spans) = []"
    using hidden by (simp add: filter_empty_conv)
  then have "filter (\<lambda>s. \<not> sp_End s < start \<and> \<not> stop < sp_Start s) (take i ?spans @ drop i ?spans)
      = filter (\<lambda>s. \<not> sp_End s < start \<and> \<not> stop < sp_Start s) (drop i ?spans)"
    unfolding filter_append by simp
  ultimately show ?thesis by simp
qed

end
