(* ===== verification/Addressing_Examples.thy ===== *)
theory Addressing_Examples
  imports Addressing_Free Asset_Examples
begin

text \<open>
  A small estate of networks, addresses and reservations, on which the properties of addressing are
  applied, and three runs that show where the operations on it disagree with each other.
\<close>

section \<open>Reading texts\<close>

lemma digit_chars:
  "char_of (48 :: nat) = CHR ''0''" "char_of (49 :: nat) = CHR ''1''" "char_of (50 :: nat) = CHR ''2''" "char_of (51 :: nat) = CHR ''3''"
  "char_of (52 :: nat) = CHR ''4''" "char_of (53 :: nat) = CHR ''5''" "char_of (54 :: nat) = CHR ''6''" "char_of (55 :: nat) = CHR ''7''"
  "char_of (56 :: nat) = CHR ''8''" "char_of (57 :: nat) = CHR ''9''"
  by code_simp+

lemmas shown_texts = addr_text_def v4_text_def prefix_text_def digits.simps digit_chars

lemmas masks = clear_from_def fill_from_def clear_net_bit_def set_net_bit_def upt_rec

lemma read_addr4:
  assumes "addr_text (Addr4 bs) = s" "length bs = 4"
  shows "ParseAddr s = Some \<lparr>av_Text = s, av_Family = 4, av_Start = bs\<rparr>"
  using ParseAddr_text [of "Addr4 bs"] assms by (simp add: wf_addr_def NoZone_def Is4In6_def addr_value_def Is4_def addr_bytes_def)

lemma read_prefix4:
  assumes "prefix_text (Addr4 bs, n) = s" "length bs = 4" "n \<le> 32" "clear_from n bs = bs" "fill_from n bs = end_bs"
  shows "ParsePrefix s = Some \<lparr>pv_Text = s, pv_Family = 4, pv_Start = bs, pv_End = end_bs, pv_Bits = n\<rparr>"
  using ParsePrefix_text [of "Addr4 bs" n] assms
  by (simp add: wf_addr_def NoZone_def Masked_def addr_bits_def prefix_value_def Let_def Unmap_def Is4_def addr_bytes_def broadcast_fill)

lemma read_networks:
  "ParsePrefix ''10.0.0.0/24'' = Some \<lparr>pv_Text = ''10.0.0.0/24'', pv_Family = 4, pv_Start = [10, 0, 0, 0], pv_End = [10, 0, 0, 255], pv_Bits = 24\<rparr>"
  "ParsePrefix ''10.0.0.64/26'' = Some \<lparr>pv_Text = ''10.0.0.64/26'', pv_Family = 4, pv_Start = [10, 0, 0, 64], pv_End = [10, 0, 0, 127], pv_Bits = 26\<rparr>"
  "ParsePrefix ''10.0.1.0/24'' = Some \<lparr>pv_Text = ''10.0.1.0/24'', pv_Family = 4, pv_Start = [10, 0, 1, 0], pv_End = [10, 0, 1, 255], pv_Bits = 24\<rparr>"
  by (rule read_prefix4; simp add: shown_texts masks)+

lemma read_addresses:
  "ParseAddr ''10.0.0.0'' = Some \<lparr>av_Text = ''10.0.0.0'', av_Family = 4, av_Start = [10, 0, 0, 0]\<rparr>"
  "ParseAddr ''10.0.0.1'' = Some \<lparr>av_Text = ''10.0.0.1'', av_Family = 4, av_Start = [10, 0, 0, 1]\<rparr>"
  "ParseAddr ''10.0.0.2'' = Some \<lparr>av_Text = ''10.0.0.2'', av_Family = 4, av_Start = [10, 0, 0, 2]\<rparr>"
  "ParseAddr ''10.0.0.5'' = Some \<lparr>av_Text = ''10.0.0.5'', av_Family = 4, av_Start = [10, 0, 0, 5]\<rparr>"
  "ParseAddr ''10.0.0.9'' = Some \<lparr>av_Text = ''10.0.0.9'', av_Family = 4, av_Start = [10, 0, 0, 9]\<rparr>"
  "ParseAddr ''10.0.0.70'' = Some \<lparr>av_Text = ''10.0.0.70'', av_Family = 4, av_Start = [10, 0, 0, 70]\<rparr>"
  "ParseAddr ''10.0.1.255'' = Some \<lparr>av_Text = ''10.0.1.255'', av_Family = 4, av_Start = [10, 0, 1, 255]\<rparr>"
  by (rule read_addr4; simp add: shown_texts)+

section \<open>The estate\<close>

definition demo_network :: "string \<Rightarrow> string \<Rightarrow> byte list \<Rightarrow> byte list \<Rightarrow> netPrefix" where
  "demo_network i cidr start stop =
     \<lparr>px_ID = i, px_CIDRText = cidr, px_AddrFamily = 4, px_AddrStart = start, px_AddrEnd = stop, px_EnvironmentID = None, px_Role = None,
      px_VRFID = None, px_VLANRefID = None, px_Lifecycle = LifecycleActive, px_CreatedAt = None, px_UpdatedAt = None, px_RowVersion = 1\<rparr>"

definition demo_address :: "string \<Rightarrow> string \<Rightarrow> byte list \<Rightarrow> string option \<Rightarrow> ipAddress" where
  "demo_address i text_form start port =
     \<lparr>ia_ID = i, ia_AddrText = text_form, ia_AddrFamily = 4, ia_AddrStart = start, ia_InterfaceID = port, ia_FHRPGroupID = None,
      ia_Role = ''primary'', ia_Lifecycle = LifecycleActive, ia_CreatedAt = None, ia_UpdatedAt = None, ia_RowVersion = 1\<rparr>"

definition demo_range :: "string \<Rightarrow> string \<Rightarrow> byte list \<Rightarrow> string \<Rightarrow> byte list \<Rightarrow> ipRange" where
  "demo_range i first_text start last_text stop =
     \<lparr>rg_ID = i, rg_StartText = first_text, rg_EndText = last_text, rg_AddrFamily = 4, rg_AddrStart = start, rg_AddrEnd = stop,
      rg_VRFID = None, rg_Role = None, rg_Description = None, rg_Lifecycle = LifecycleActive, rg_CreatedAt = None, rg_UpdatedAt = None,
      rg_RowVersion = 1\<rparr>"

definition demo_port :: iface where
  "demo_port =
     \<lparr>if_ID = ''e0'', if_AssetID = ''s1'', if_Name = ''eth0'', if_FormFactor = ''sfp'', if_SpeedMbps = None, if_MAC = None, if_MTU = None,
      if_LagParentID = None, if_IsMgmt = False, if_Enabled = True, if_Lifecycle = LifecycleActive, if_CreatedAt = None,
      if_UpdatedAt = None, if_RowVersion = 1\<rparr>"

definition outer_network :: netPrefix where
  "outer_network = demo_network ''n1'' ''10.0.0.0/24'' [10, 0, 0, 0] [10, 0, 0, 255]"

definition inner_network :: netPrefix where
  "inner_network = demo_network ''n2'' ''10.0.0.64/26'' [10, 0, 0, 64] [10, 0, 0, 127]"

definition demo_space :: addressing where
  "demo_space =
     \<lparr>ad_inventory = demo_stock\<lparr>iv_interfaces := [demo_port]\<rparr>, ad_prefixes = [outer_network, inner_network],
      ad_addresses = [demo_address ''a1'' ''10.0.0.1'' [10, 0, 0, 1] (Some ''e0''), demo_address ''a2'' ''10.0.0.70'' [10, 0, 0, 70] None],
      ad_ranges = [demo_range ''r1'' ''10.0.0.2'' [10, 0, 0, 2] ''10.0.0.9'' [10, 0, 0, 9]],
      ad_ipRoles = [''primary''], ad_vrfs = [], ad_vlans = [], ad_endpoints = [], ad_environments = []\<rparr>"

lemmas demo_rows = demo_network_def demo_address_def demo_range_def outer_network_def inner_network_def demo_space_def

lemmas agreement = consistent_def no_clash_def prefix_clash_def address_clash_def range_clash_def prefix_agrees_def address_agrees_def
  range_agrees_def life_check_def oneOf_def read_networks read_addresses

lemma demo_consistent: "consistent demo_space" "plain_networks demo_space"
  by (simp_all add: demo_rows agreement plain_networks_def plain_network_def)

lemma demo_network_facts:
  "list_all stored_network [outer_network, inner_network]" "own_blocks [outer_network, inner_network]"
  "distinct (map px_ID [outer_network, inner_network])" "contains outer_network inner_network" "\<not> contains inner_network inner_network"
  "\<not> contains inner_network outer_network" "\<not> contains outer_network outer_network" "outer_network \<noteq> inner_network"
  by (simp_all add: stored_network_def read_networks demo_rows own_blocks_def same_block_def contains_def vrfKey_def)

lemma tree_members:
  assumes "laminar (set prefixes)" "distinct (map px_ID prefixes)" "p \<in> set prefixes"
  shows "\<exists>n \<in> set (BuildPrefixTree prefixes counts). pn_Prefix n = p"
proof -
  note t = tree_nodes [OF assms(1,2), where counts = counts]
  from assms(3) obtain k where "k < length (go_sort prefix_less prefixes)" "go_sort prefix_less prefixes ! k = p"
    by (metis in_set_conv_nth set_go_sort)
  with t show ?thesis by (metis nth_mem)
qed

section \<open>The properties on the estate\<close>

theorem stored_text_is_canonical_witness:
  "\<exists>v p. ParseAddr '' 10.0.0.70'' = Some v \<and> ParseAddr (av_Text v) = Some v \<and> av_Start v = [10, 0, 0, 70]
     \<and> ParsePrefix ''10.0.0.64/26'' = Some p \<and> ParsePrefix (pv_Text p) = Some p"
proof -
  have "trim_space '' 10.0.0.70'' = ''10.0.0.70''" "trim_space ''10.0.0.70'' = ''10.0.0.70''" by code_simp+
  then have "ParseAddr '' 10.0.0.70'' = ParseAddr ''10.0.0.70''" by (simp add: ParseAddr_def)
  with read_addresses(6) read_networks(2) stored_text_is_canonical show ?thesis by fastforce
qed

theorem prefix_tree_correct_witness:
  "\<exists>nodes n. nodes = BuildPrefixTree [outer_network, inner_network] (\<lambda>_. 0) \<and> mset (map pn_Prefix nodes) = {#outer_network, inner_network#}
     \<and> n \<in> set nodes \<and> pn_Prefix n = inner_network \<and> pn_Depth n = 1 \<and> pn_ParentID n = Some ''n1''"
proof -
  let ?ps = "[outer_network, inner_network]"
  define nodes where "nodes = BuildPrefixTree ?ps (\<lambda>_. 0)"
  have h: "\<forall>p \<in> set ?ps. stored_network p" "own_blocks ?ps" "distinct (map px_ID ?ps)" using demo_network_facts(1-3) by (simp_all add: list_all_iff)
  note t = prefix_tree_correct [OF h, where counts = "\<lambda>_. 0", folded nodes_def, unfolded Let_def]
  from t have m: "mset (map pn_Prefix nodes) = mset ?ps" by blast
  then have "inner_network \<in> set (map pn_Prefix nodes)" by (metis insertCI list.simps(15) set_mset_mset)
  then obtain n where n: "n \<in> set nodes" "pn_Prefix n = inner_network" by auto
  note tn = bspec [OF t [THEN conjunct2, THEN conjunct2] n(1), unfolded n(2)]
  have d: "pn_Depth n = card {q \<in> set ?ps. contains q inner_network}" using tn by blast
  have "{q \<in> set ?ps. contains q inner_network} = {outer_network}" using demo_network_facts(4,5) by auto
  moreover have "pn_ParentID n = Some ''n1''" using tn [THEN conjunct1] demo_network_facts(4,5) by (auto simp: outer_network_def demo_network_def split: option.splits)
  ultimately show ?thesis using m n d nodes_def by (intro exI [of _ nodes] exI [of _ n]) simp
qed

theorem prefix_tree_addresses_witness:
  "\<exists>n. n \<in> set (BuildPrefixTree [outer_network, inner_network] (\<lambda>i. if i = ''n1'' then 2 else 1)) \<and> pn_Prefix n = outer_network \<and> pn_Addresses n = 1"
proof -
  let ?ps = "[outer_network, inner_network]" and ?c = "\<lambda>i. if i = ''n1'' then 2 else 1 :: int" and ?as = "[(4, [10, 0, 0, 1]), (4, [10, 0, 0, 70])]"
  have h: "\<forall>p \<in> set ?ps. stored_network p" "own_blocks ?ps" "distinct (map px_ID ?ps)" using demo_network_facts(1-3) by (simp_all add: list_all_iff)
  obtain n where n: "n \<in> set (BuildPrefixTree ?ps ?c)" "pn_Prefix n = outer_network"
    using tree_members [OF laminar_stored [OF h(1)] h(3), of outer_network ?c] by auto
  have "\<forall>p \<in> set ?ps. ?c (px_ID p) = int (length (filter (in_network p) ?as))" by (simp add: demo_rows in_network_def)
  from prefix_tree_addresses [OF h this n(1)] have "pn_Addresses n = int (length (filter (\<lambda>a. in_network (pn_Prefix n) a
      \<and> \<not> (\<exists>q \<in> set ?ps. contains (pn_Prefix n) q \<and> in_network q a)) ?as))" ..
  also have "\<dots> = 1" unfolding n(2) using demo_network_facts(4,7) by (simp add: demo_rows in_network_def)
  finally show ?thesis using n by blast
qed

lemma demo_outer: "GetPrefix demo_space ''n1'' = Inr outer_network" "live_prefix outer_network"
  by (simp_all add: GetPrefix_def demo_rows live_prefix_def)

theorem retire_prefix_safe_witness:
  "RetirePrefix None ''t'' ''n1'' demo_space = Inl ErrConflict"
proof -
  have "occupied demo_space outer_network" using demo_network_facts(4) by (simp add: occupied_def demo_space_def live_prefix_def inner_network_def demo_network_def)
  with retire_prefix_safe [OF demo_consistent demo_outer, of None "''t''"] show ?thesis by blast
qed

theorem resolve_address_tightest_witness:
  "ResolveAddress demo_space ''10.0.0.70'' = Inr inner_network"
proof -
  note t = resolve_address_tightest [OF demo_consistent read_addresses(6)]
  have "in_network inner_network (4, [10, 0, 0, 70])" "inner_network \<in> set (ad_prefixes demo_space)" "live_prefix inner_network"
    by (simp_all add: in_network_def demo_rows live_prefix_def)
  with t obtain p where p: "ResolveAddress demo_space ''10.0.0.70'' = Inr p" "p \<in> set (ad_prefixes demo_space)" "px_AddrEnd p \<le> px_AddrEnd inner_network"
    by (cases "ResolveAddress demo_space ''10.0.0.70''") auto
  then have "p = outer_network \<or> p = inner_network" by (auto simp: demo_space_def)
  with p show ?thesis by (auto simp: outer_network_def inner_network_def demo_network_def)
qed

theorem next_free_exact_witness:
  "\<exists>t. NextFreeAddress demo_space ''n1'' = Inr (Some t)"
proof -
  let ?v = "\<lparr>pv_Text = ''10.0.0.0/24'', pv_Family = 4, pv_Start = [10, 0, 0, 0], pv_End = [10, 0, 0, 255], pv_Bits = 24\<rparr>"
  have v: "ParsePrefix (px_CIDRText outer_network) = Some ?v" "pv_Bits ?v \<le> 8 * length (pv_Start ?v)" by (simp_all add: demo_rows read_networks)
  have "usable ?v [10, 0, 0, 10]" "\<not> taken_in demo_space outer_network [10, 0, 0, 10]"
    by (simp_all add: usable_def taken_in_def demo_rows in_network_def addr_of_row_def)
  with next_free_exact [OF demo_consistent(1) demo_outer(1) v] show ?thesis
    by (cases "NextFreeAddress demo_space ''n1''") (auto split: option.splits)
qed

definition redeclared_space :: addressing where
  "redeclared_space = demo_space\<lparr>ad_prefixes := [outer_network\<lparr>px_Lifecycle := LifecycleRetired\<rparr>, outer_network\<lparr>px_ID := ''n3''\<rparr>],
     ad_addresses := [], ad_ranges := []\<rparr>"

theorem redeclared_network_is_full_witness:
  "NextFreeAddress redeclared_space ''n3'' = Inr None"
proof (rule redeclared_network_is_full)
  show "consistent redeclared_space" by (simp add: redeclared_space_def demo_rows agreement)
  show "GetPrefix redeclared_space ''n3'' = Inr (outer_network\<lparr>px_ID := ''n3''\<rparr>)" by (simp add: redeclared_space_def GetPrefix_def demo_rows)
  show "plain_network (outer_network\<lparr>px_ID := ''n3''\<rparr>)" by (simp add: plain_network_def demo_rows read_networks)
  show "outer_network\<lparr>px_Lifecycle := LifecycleRetired\<rparr> \<in> set (ad_prefixes redeclared_space)" by (simp add: redeclared_space_def)
  show "px_ID (outer_network\<lparr>px_Lifecycle := LifecycleRetired\<rparr>) \<noteq> ''n3''" by (simp add: demo_rows)
  show "same_block (outer_network\<lparr>px_ID := ''n3''\<rparr>) (outer_network\<lparr>px_Lifecycle := LifecycleRetired\<rparr>)" by (simp add: same_block_def)
qed

section \<open>Runs\<close>

definition demo_root :: permit where
  "demo_root = administratorPermit \<lparr>act_ID = ''u0'', act_Name = ''root'', act_Kind = ActorKindUser\<rparr>"

text \<open>A new network, next to those of the estate.\<close>

definition next_network :: netPrefix where
  "next_network = demo_network ''n4'' ''10.0.1.0/24'' [10, 0, 1, 0] [10, 0, 1, 255]"

lemma next_network_created: "case CreatePrefix (Some demo_root) ''t'' next_network demo_space of Inl _ \<Rightarrow> False | Inr db \<Rightarrow> length (ad_prefixes db) = 3"
  by code_simp

theorem addressing_stays_consistent_witness:
  "\<exists>db. CreatePrefix (Some demo_root) ''t'' next_network demo_space = Inr db \<and> length (ad_prefixes db) = 3 \<and> consistent db"
proof -
  obtain db where db: "CreatePrefix (Some demo_root) ''t'' next_network demo_space = Inr db" "length (ad_prefixes db) = 3"
    using next_network_created by (auto split: sum.splits)
  have "prefix_agrees next_network" by (simp add: prefix_agrees_def next_network_def demo_network_def read_networks)
  with db(1) have "addressing_step\<^sup>*\<^sup>* demo_space db" by (blast intro: addressing_step.create_prefix)
  with demo_consistent(1) have "consistent db"
    using addressing_stays_consistent [THEN conjunct2, THEN conjunct2, THEN conjunct2, THEN conjunct2, THEN conjunct2] by blast
  with db show ?thesis by blast
qed

text \<open>
  An address that was withdrawn cannot be assigned to its interface again: the unique index on
  addresses and interfaces counts withdrawn rows.
\<close>

lemma readding_an_address_conflicts:
  "case RetireIPAddress demo_root ''t'' ''a1'' demo_space of
     Inl _ \<Rightarrow> False
   | Inr db \<Rightarrow>
       (case CreateIPAddress demo_root ''t'' (demo_address ''a3'' ''10.0.0.1'' [10, 0, 0, 1] (Some ''e0'')) db of
          Inl e \<Rightarrow> e = ErrConflict | Inr _ \<Rightarrow> False)"
  by code_simp

text \<open>
  The page offers a reserved address: an address assigned inside a reservation below a network hides
  the reservation from it, although the reservation reaches into the network.
\<close>

definition hidden_space :: addressing where
  "hidden_space = demo_space\<lparr>ad_prefixes := [next_network], ad_addresses := [demo_address ''a1'' ''10.0.0.5'' [10, 0, 0, 5] None],
     ad_ranges := [demo_range ''r1'' ''10.0.0.0'' [10, 0, 0, 0] ''10.0.1.255'' [10, 0, 1, 255]]\<rparr>"

lemma hidden_within:
  "within (allocationSpans hidden_space) 4 [10, 0, 1, 0] [10, 0, 1, 255] = []"
  by (simp add: within_def allocationSpans_def hidden_space_def demo_range_def demo_address_def demo_space_def live_range_def live_address_def
      range_span_def SpanOf_def go_sort_def Let_def)

lemma hidden_offer: "FirstFreeAddress ''10.0.1.0/24'' [] = Some ''10.0.1.1''"
proof -
  have "''10.0.1.0/24'' = prefix_text (Addr4 [10, 0, 1, 0], 24)" by (simp add: shown_texts)
  then have "netip_ParsePrefix ''10.0.1.0/24'' = Some (Addr4 [10, 0, 1, 0], 24)"
    using netip_ParsePrefix_text [of "Addr4 [10, 0, 1, 0]" 24] by (simp add: wf_addr_def NoZone_def addr_bits_def Is4_def)
  moreover have "textFromInt 167772417 4 = ''10.0.1.1''" by code_simp
  ultimately show ?thesis by (simp add: FirstFreeAddress_def read_networks Let_def)
qed

theorem page_offers_reserved_address:
  "map snd (ListPrefixTree hidden_space) = [Some ''10.0.1.1''] \<and> taken_in hidden_space next_network [10, 0, 1, 1]"
proof
  show "taken_in hidden_space next_network [10, 0, 1, 1]"
    by (simp add: taken_in_def hidden_space_def demo_rows next_network_def live_range_def)
  have "ListPrefixes hidden_space = [(next_network, 0)]"
    by (simp add: ListPrefixes_def hidden_space_def next_network_def demo_network_def live_prefix_def go_sort_def AddressCount_def demo_address_def)
  then show "map snd (ListPrefixTree hidden_space) = [Some ''10.0.1.1'']"
    using hidden_offer hidden_within
    by (simp add: ListPrefixTree_def Let_def BuildPrefixTree_def go_sort_def place_def place_step_def share_step_def new_node_def
        next_network_def demo_network_def)
qed

end
