(* ===== verification/Range_Expand.thy ===== *)
theory Range_Expand
  imports Text
begin

text \<open>
  Name ranges: range_expand.go of internal/domain, which turns \<open>Ethernet[1-48]\<close> into forty-eight port
  names. An integer is 64 bits wide and the loop over it may not end, so the result is an option:
  \<open>None\<close> for a call that does not return. Shown here: what is returned is exactly the range, at most
  4096 names of it, and the call returns unless the upper bound is the largest integer.
\<close>

section \<open>Definitions\<close>

datatype rangeError =
  NeverOpened
| NeverClosed
| MoreThanOneRange
| NotARange
| LeadingZeros string
| NotANumber string
| CountsBackwards
| TooManyNames

definition isZeroPadded :: "string \<Rightarrow> bool" where
  "isZeroPadded s \<longleftrightarrow> 1 < length s \<and> hd s = CHR ''0''"

definition MaxRangeExpansion :: int where
  "MaxRangeExpansion = 4096"

partial_function (option) expand_loop :: "string \<Rightarrow> string \<Rightarrow> int \<Rightarrow> int \<Rightarrow> string list \<Rightarrow> string list option" where
  "expand_loop prefix suffix final i out =
     (if i \<le> final then expand_loop prefix suffix final (i64 (i + 1)) (out @ [prefix @ itoa i @ suffix]) else Some out)"

declare expand_loop.simps [code]

definition ExpandRange :: "string \<Rightarrow> (rangeError + string list) option" where
  "ExpandRange spec =
     (case cut CHR ''['' spec of
        None \<Rightarrow> if List.member spec CHR '']'' then Some (Inl NeverOpened) else Some (Inr [spec])
      | Some (prefix, rest) \<Rightarrow>
          (case cut CHR '']'' rest of
             None \<Rightarrow> Some (Inl NeverClosed)
           | Some (body, suffix) \<Rightarrow>
               if contains_any prefix ''[]'' \<or> contains_any suffix ''[]'' then Some (Inl MoreThanOneRange)
               else
                 (case cut CHR ''-'' body of
                    None \<Rightarrow> Some (Inl NotARange)
                  | Some (lo, hi) \<Rightarrow>
                      if isZeroPadded lo then Some (Inl (LeadingZeros lo))
                      else if isZeroPadded hi then Some (Inl (LeadingZeros hi))
                      else
                        (case atoi lo of
                           None \<Rightarrow> Some (Inl (NotANumber lo))
                         | Some first \<Rightarrow>
                             (case atoi hi of
                                None \<Rightarrow> Some (Inl (NotANumber hi))
                              | Some final \<Rightarrow>
                                  if final < first then Some (Inl CountsBackwards)
                                  else if MaxRangeExpansion \<le> i64 (final - first) then Some (Inl TooManyNames)
                                  else map_option Inr (expand_loop prefix suffix final first []))))))"

section \<open>The loop\<close>

lemma expand_loop_returns:
  assumes "0 \<le> i" "final < 2 ^ 63 - 1"
  shows "expand_loop prefix suffix final i out = Some (out @ map (\<lambda>j. prefix @ itoa j @ suffix) [i..final])"
  using assms
proof (induction "nat (final + 1 - i)" arbitrary: i out)
  case 0
  then show ?case by (subst expand_loop.simps) simp
next
  case (Suc n)
  then have i: "i \<le> final" "n = nat (final + 1 - (i + 1))" by linarith+
  have "i64 (i + 1) = i + 1" by (rule i64_id) (use Suc.prems i in linarith)+
  with i Suc.hyps(1) [of "i + 1" "out @ [prefix @ itoa i @ suffix]"] Suc.prems show ?case
    by (subst expand_loop.simps) (simp add: upto_rec1)
qed

lemma expand_loop_ends:
  "expand_loop prefix suffix final i out = Some names \<Longrightarrow> i < 2 ^ 63 \<longrightarrow> final \<noteq> 2 ^ 63 - 1"
proof (rule expand_loop.raw_induct [where P = "\<lambda>prefix suffix final i out names. i < 2 ^ 63 \<longrightarrow> final \<noteq> 2 ^ 63 - 1"])
  fix loop prefix suffix final i out names
  assume IH: "\<And>prefix suffix final i out names. loop prefix suffix final i out = Some names \<Longrightarrow> i < 2 ^ 63 \<longrightarrow> final \<noteq> (2 ^ 63 - 1 :: int)"
    and step: "(if i \<le> final then loop prefix suffix final (i64 (i + 1)) (out @ [prefix @ itoa i @ suffix]) else Some out) = Some names"
  have "i64 (i + 1) < 2 ^ 63" using pos_mod_bound [of "2 ^ 64 :: int" "i + 1 + 2 ^ 63"] by (simp add: i64_def)
  with IH [of prefix suffix final "i64 (i + 1)"] step show "i < 2 ^ 63 \<longrightarrow> final \<noteq> 2 ^ 63 - 1" by (auto split: if_splits)
qed

lemma expand_loop_max:
  assumes "0 \<le> i" "i < 2 ^ 63" "final < 2 ^ 63"
  shows "expand_loop prefix suffix final i out =
     (if final = 2 ^ 63 - 1 then None else Some (out @ map (\<lambda>j. prefix @ itoa j @ suffix) [i..final]))"
proof (cases "final = 2 ^ 63 - 1")
  case True
  have "expand_loop prefix suffix final i out \<noteq> Some names" for names using expand_loop_ends [of prefix suffix final i out names] assms(2) True by blast
  with True show ?thesis by (cases "expand_loop prefix suffix final i out") simp_all
next
  case False
  then show ?thesis using expand_loop_returns [OF assms(1)] assms(3) by simp
qed

lemma atoi_range: "atoi s = Some v \<Longrightarrow> v < 2 ^ 63"
  by (auto simp: atoi_def Let_def split: if_splits list.splits)

lemma decimal_value_nonneg: "list_all is_digit s \<Longrightarrow> 0 \<le> decimal_value s"
  by (induction s rule: rev_induct) (auto simp: decimal_value_snoc digit_value_def is_digit_def, simp add: decimal_value_def)

lemma atoi_nonneg: "atoi s = Some v \<Longrightarrow> CHR ''-'' \<notin> set s \<Longrightarrow> 0 \<le> v"
  using decimal_value_nonneg by (auto simp: atoi_def Let_def split: if_splits list.splits)

section \<open>The names\<close>

text \<open>
  What a range stands for: every returned list has between one and 4096 names, no name twice, and is
  either the text itself, when it has no bracket, or the names counted from the lower to the upper
  bound; and the call fails to return only where the upper bound is the largest 64-bit integer.
\<close>

theorem expand_range_exact:
  "case ExpandRange spec of
     None \<Rightarrow> \<exists>p lo hi s. spec = p @ ''['' @ lo @ ''-'' @ hi @ '']'' @ s \<and> atoi hi = Some (2 ^ 63 - 1)
   | Some (Inl e) \<Rightarrow> \<exists>c \<in> set spec. c = CHR ''['' \<or> c = CHR '']''
   | Some (Inr names) \<Rightarrow>
       names \<noteq> [] \<and> length names \<le> 4096 \<and> distinct names
       \<and> (names = [spec] \<and> CHR ''['' \<notin> set spec \<and> CHR '']'' \<notin> set spec
          \<or> (\<exists>p lo hi s first final. spec = p @ ''['' @ lo @ ''-'' @ hi @ '']'' @ s \<and> atoi lo = Some first \<and> atoi hi = Some final
                \<and> 0 \<le> first \<and> names = map (\<lambda>i. p @ itoa i @ s) [first..final]))"
proof (cases "cut CHR ''['' spec")
  case None
  then have "ExpandRange spec = (if CHR '']'' \<in> set spec then Some (Inl NeverOpened) else Some (Inr [spec]))" by (simp add: ExpandRange_def)
  with None show ?thesis by (auto simp: cut_None)
next
  case (Some pr)
  then obtain p rest where pr: "cut CHR ''['' spec = Some (p, rest)" "spec = p @ CHR ''['' # rest" by (cases pr) (auto simp: cut_Some)
  show ?thesis
  proof (cases "\<exists>e. ExpandRange spec = Some (Inl e)")
    case True
    then show ?thesis using pr(2) by auto
  next
    case False
    with pr(1) obtain b s lo hi first final where e: "cut CHR '']'' rest = Some (b, s)" "cut CHR ''-'' b = Some (lo, hi)" "atoi lo = Some first"
      "atoi hi = Some final" "\<not> final < first" "\<not> MaxRangeExpansion \<le> i64 (final - first)"
      and run: "ExpandRange spec = map_option Inr (expand_loop p s final first [])"
      by (auto simp: ExpandRange_def split: option.splits if_splits prod.splits)
    have shape: "spec = p @ ''['' @ lo @ ''-'' @ hi @ '']'' @ s" using pr(2) e(1,2) by (simp add: cut_Some)
    have first: "0 \<le> first" using atoi_nonneg [OF e(3)] e(2) by (simp add: cut_Some)
    have small: "final < 2 ^ 63" "first < 2 ^ 63" using atoi_range e(3,4) by blast+
    have "i64 (final - first) = final - first" by (rule i64_id) (use first small e(5) in linarith)+
    with e(6) have "final - first < 4096" by (simp add: MaxRangeExpansion_def)
    moreover have "itoa i = itoa j \<longleftrightarrow> i = j" if "0 \<le> i" "0 \<le> j" for i j using that by (auto simp: itoa_def digits_inj)
    ultimately have "length [first..final] \<le> 4096" "[first..final] \<noteq> []" "distinct (map (\<lambda>i. p @ itoa i @ s) [first..final])"
      using first e(5) by (auto simp: distinct_map inj_on_def)
    moreover have "ExpandRange spec = (if final = 2 ^ 63 - 1 then None else Some (Inr (map (\<lambda>i. p @ itoa i @ s) [first..final])))"
      unfolding run expand_loop_max [OF first small(2,1)] by simp
    moreover have "\<exists>p' lo hi s' first' final'. spec = p' @ ''['' @ lo @ ''-'' @ hi @ '']'' @ s' \<and> atoi lo = Some first' \<and> atoi hi = Some final'
        \<and> 0 \<le> first' \<and> map (\<lambda>i. p @ itoa i @ s) [first..final] = map (\<lambda>i. p' @ itoa i @ s') [first'..final']"
      using shape e(3,4) first by blast
    moreover have "\<exists>p lo hi s. spec = p @ ''['' @ lo @ ''-'' @ hi @ '']'' @ s \<and> atoi hi = Some (2 ^ 63 - 1)" if "final = 2 ^ 63 - 1"
      using shape e(4) that by blast
    ultimately show ?thesis by (cases "final = 2 ^ 63 - 1") simp_all
  qed
qed

lemma expand_range_plain:
  assumes "\<not> contains_any p ''[]''" "\<not> contains_any s ''[]''" "first \<le> final" "final < first + 4096" "int final < 2 ^ 63"
  shows "ExpandRange (p @ ''['' @ digits first @ ''-'' @ digits final @ '']'' @ s) = map_option Inr (expand_loop p s (int final) (int first) [])"
proof -
  have no: "CHR '']'' \<notin> set (digits n)" "CHR ''-'' \<notin> set (digits n)" for n
    using digits_all_digit [of n] by (auto simp: list_all_iff is_digit_def)
  have pad: "\<not> isZeroPadded (digits n)" for n
    using digits_no_leading_zero [of n] by (cases "n = 0") (auto simp: isZeroPadded_def digits.simps [of 0])
  have "cut CHR ''['' (p @ ''['' @ digits first @ ''-'' @ digits final @ '']'' @ s) = Some (p, digits first @ ''-'' @ digits final @ '']'' @ s)"
    by (subst cut_Some) (use assms(1) in auto)
  moreover have "cut CHR '']'' (digits first @ ''-'' @ digits final @ '']'' @ s) = Some (digits first @ ''-'' @ digits final, s)"
    by (subst cut_Some) (use no in auto)
  moreover have "cut CHR ''-'' (digits first @ ''-'' @ digits final) = Some (digits first, digits final)" by (subst cut_Some) (use no in auto)
  moreover have "atoi (digits first) = Some (int first)" "atoi (digits final) = Some (int final)" using assms(3,5) by (simp_all add: atoi_digits)
  moreover have "i64 (int final - int first) = int final - int first" by (rule i64_id) (use assms(3,5) in linarith)+
  ultimately show ?thesis using assms pad unfolding ExpandRange_def MaxRangeExpansion_def by (simp del: contains_any_iff)
qed

text \<open>
  A range of plain numbers expands: for bounds written without padding, less than 4096 apart and
  below the largest integer, between a text before and one after that hold no brackets, the call
  returns the names in ascending order; with the largest integer as upper bound it never returns,
  since the counter of the loop wraps around. (C36)
\<close>

theorem expand_range_returns:
  assumes "\<not> contains_any p ''[]''" "\<not> contains_any s ''[]''" "first \<le> final" "final < first + 4096" "int final < 2 ^ 63"
  shows "ExpandRange (p @ ''['' @ digits first @ ''-'' @ digits final @ '']'' @ s) =
     (if int final = 2 ^ 63 - 1 then None else Some (Inr (map (\<lambda>i. p @ digits i @ s) [first..<Suc final])))"
proof -
  have "[int first..int final] = map int [first..<Suc final]" by (rule nth_equalityI) (use assms(3) in \<open>auto simp del: upt_Suc\<close>)
  then show ?thesis
    unfolding expand_range_plain [OF assms] using expand_loop_max [of "int first" "int final" p s "[]"] assms(3,5)
    by (simp add: itoa_def comp_def)
qed

theorem expand_range_returns_witness:
  "ExpandRange ''Ethernet[9-11]/0'' = Some (Inr [''Ethernet9/0'', ''Ethernet10/0'', ''Ethernet11/0''])
   \<and> ExpandRange ''eth[9223372036854775807-9223372036854775807]'' = None"
proof -
  have "digits 9 = ''9''" "digits 10 = ''10''" "digits 11 = ''11''" by code_simp+
  then have 1: "ExpandRange ''Ethernet[9-11]/0'' = Some (Inr [''Ethernet9/0'', ''Ethernet10/0'', ''Ethernet11/0''])"
    using expand_range_returns [of "''Ethernet''" "''/0''" 9 11] by (simp add: upt_rec)
  have "digits 9223372036854775807 = ''9223372036854775807''" by (simp add: digits.simps) code_simp
  then have "ExpandRange ''eth[9223372036854775807-9223372036854775807]'' = None"
    using expand_range_returns [of "''eth''" "[]" 9223372036854775807 9223372036854775807] by simp
  with 1 show ?thesis ..
qed

end
